(* ===== verification/Prelude.thy ===== *)
theory Prelude
  imports Main "HOL-Library.AList" "HOL-Library.Char_ord" "HOL-Library.List_Lexorder"
    "HOL-Library.Multiset"
begin

text \<open>
  What the components share: the result type and its loops, the iteration order of hash
  maps, sorted insertion for ordered maps, and the string routines of the Rust standard
  library that the crates use.  A Rust \<open>String\<close> is the list of its UTF-8 bytes.
\<close>

named_theorems arm_simps \<open>equations of the model that every component proof may use\<close>

subsection \<open>Results\<close>

text \<open>\<open>Result<A, E>\<close> is \<open>'e + 'a\<close>: \<open>Err\<close> on the left, \<open>Ok\<close> on the right.\<close>

abbreviation Ok :: "'a \<Rightarrow> 'e + 'a" where "Ok \<equiv> Inr"
abbreviation Err :: "'e \<Rightarrow> 'e + 'a" where "Err \<equiv> Inl"

definition is_ok :: "'e + 'a \<Rightarrow> bool" where
  "is_ok r = (case r of Inl _ \<Rightarrow> False | Inr _ \<Rightarrow> True)"

lemma is_ok_simps [simp]: "is_ok (Inr a)" "\<not> is_ok (Inl e)"
  by (simp_all add: is_ok_def)

lemma is_ok_iff: "is_ok r \<longleftrightarrow> (\<exists>a. r = Ok a)"
  by (cases r) auto

text \<open>A loop whose body may leave with \<open>?\<close>: the first error wins.\<close>

fun try_map :: "('a \<Rightarrow> 'e + 'b) \<Rightarrow> 'a list \<Rightarrow> 'e + 'b list" where
  "try_map f [] = Ok []"
| "try_map f (x # xs) =
     (case f x of Inl e \<Rightarrow> Err e
      | Inr y \<Rightarrow> (case try_map f xs of Inl e \<Rightarrow> Err e | Inr ys \<Rightarrow> Ok (y # ys)))"

lemma try_map_Ok_iff: "try_map f xs = Ok ys \<longleftrightarrow> list_all2 (\<lambda>x y. f x = Ok y) xs ys"
proof (induction xs arbitrary: ys)
  case Nil
  show ?case by auto
next
  case (Cons x xs)
  have IH: "list_all2 (\<lambda>x y. f x = Ok y) xs vs \<longleftrightarrow> try_map f xs = Ok vs" for vs
    using Cons.IH [of vs] by (rule sym)
  show ?case
    by (simp add: list_all2_Cons1 IH split: sum.split) (metis sum.distinct(1) sum.inject(2) sum.exhaust)
qed

lemma try_map_length: "try_map f xs = Ok ys \<Longrightarrow> length ys = length xs"
  by (auto simp: try_map_Ok_iff dest: list_all2_lengthD)

lemma try_map_Err: "try_map f xs = Err e \<Longrightarrow> \<exists>x \<in> set xs. f x = Err e"
  by (induction xs) (auto split: sum.splits)

lemma try_map_cong [fundef_cong]:
  "xs = ys \<Longrightarrow> (\<And>x. x \<in> set ys \<Longrightarrow> f x = g x) \<Longrightarrow> try_map f xs = try_map g ys"
proof (induction ys arbitrary: xs)
  case Nil
  then show ?case by simp
next
  case (Cons y ys)
  then show ?case by (auto split: sum.splits)
qed

fun try_each :: "('a \<Rightarrow> 'e option) \<Rightarrow> 'a list \<Rightarrow> 'e option" where
  "try_each f [] = None"
| "try_each f (x # xs) = (case f x of Some e \<Rightarrow> Some e | None \<Rightarrow> try_each f xs)"

lemma try_each_None_iff: "try_each f xs = None \<longleftrightarrow> (\<forall>x \<in> set xs. f x = None)"
  by (induction xs) (auto split: option.splits)

lemma try_each_Some: "try_each f xs = Some e \<Longrightarrow> \<exists>x \<in> set xs. f x = Some e"
  by (induction xs) (auto split: option.splits)

subsection \<open>Hash maps and their iteration order\<close>

text \<open>
  A \<open>HashMap\<close> or \<open>HashSet\<close> is iterated in an order the language leaves open.  Where an
  operation iterates over one, the model takes the order as an argument: a function that
  rearranges the list of entries.  Every theorem is about every such function.
\<close>

definition hash_order :: "('a list \<Rightarrow> 'a list) \<Rightarrow> bool" where
  "hash_order ord \<longleftrightarrow> (\<forall>xs. mset (ord xs) = mset xs)"

lemma hash_orderD:
  assumes "hash_order ord"
  shows "mset (ord xs) = mset xs" "set (ord xs) = set xs" "length (ord xs) = length xs"
    "distinct (ord xs) = distinct xs"
proof -
  show m: "mset (ord xs) = mset xs"
    using assms by (simp add: hash_order_def)
  then show "set (ord xs) = set xs" by (metis set_mset_mset)
  from m show "length (ord xs) = length xs" by (metis size_mset)
  from m show "distinct (ord xs) = distinct xs" by (metis mset_eq_imp_distinct_iff)
qed

lemma hash_order_id [simp]: "hash_order (\<lambda>xs. xs)"
  by (simp add: hash_order_def)

lemma hash_order_rev [simp]: "hash_order rev"
  by (simp add: hash_order_def)

text \<open>Entries grouped under a key: \<open>map.entry(k).or_default().push(v)\<close>.\<close>

definition push_entry :: "'k \<Rightarrow> 'v \<Rightarrow> ('k \<times> 'v list) list \<Rightarrow> ('k \<times> 'v list) list" where
  "push_entry k v m = AList.update k ((case map_of m k of None \<Rightarrow> [] | Some vs \<Rightarrow> vs) @ [v]) m"

lemma map_of_push_entry:
  "map_of (push_entry k v m) k' =
     (if k' = k then Some ((case map_of m k of None \<Rightarrow> [] | Some vs \<Rightarrow> vs) @ [v]) else map_of m k')"
  by (simp add: push_entry_def update_conv')

lemma distinct_push_entry: "distinct (map fst m) \<Longrightarrow> distinct (map fst (push_entry k v m))"
  by (simp add: push_entry_def distinct_update)

definition group_by :: "('a \<Rightarrow> 'k) \<Rightarrow> ('a \<Rightarrow> 'v) \<Rightarrow> 'a list \<Rightarrow> ('k \<times> 'v list) list" where
  "group_by key val xs = fold (\<lambda>x. push_entry (key x) (val x)) xs []"

lemma map_of_group_fold:
  "map_of (fold (\<lambda>x. push_entry (key x) (val x)) xs m) k =
     (case map_of m k of
        None \<Rightarrow> (if \<exists>x \<in> set xs. key x = k then Some (map val (filter (\<lambda>x. key x = k) xs)) else None)
      | Some vs \<Rightarrow> Some (vs @ map val (filter (\<lambda>x. key x = k) xs)))"
  by (induction xs arbitrary: m) (auto simp: map_of_push_entry split: option.splits)

lemma map_of_group_by:
  "map_of (group_by key val xs) k =
     (if \<exists>x \<in> set xs. key x = k then Some (map val (filter (\<lambda>x. key x = k) xs)) else None)"
  by (simp add: group_by_def map_of_group_fold)

lemma distinct_group_by: "distinct (map fst (group_by key val xs))"
proof -
  have "distinct (map fst m) \<Longrightarrow> distinct (map fst (fold (\<lambda>x. push_entry (key x) (val x)) xs m))" for m
    by (induction xs arbitrary: m) (auto simp: distinct_push_entry)
  then show ?thesis by (simp add: group_by_def)
qed

lemma set_fst_group_by: "fst ` set (group_by key val xs) = key ` set xs"
proof -
  have "fst ` set (group_by key val xs) = dom (map_of (group_by key val xs))"
    by (simp add: dom_map_of_conv_image_fst)
  also have "\<dots> = key ` set xs"
    by (auto simp: map_of_group_by dom_def split: if_splits)
  finally show ?thesis .
qed


lemma dom_push_entry: "dom (map_of (push_entry k v m)) = insert k (dom (map_of m))"
  by (auto simp: map_of_push_entry split: if_splits)

subsection \<open>Ordered maps\<close>

text \<open>
  A \<open>BTreeMap\<close> is the list of its entries in key order.  Lookup is \<open>map_of\<close>, iteration is
  the list itself.
\<close>

fun bt_insert :: "'k::linorder \<Rightarrow> 'v \<Rightarrow> ('k \<times> 'v) list \<Rightarrow> ('k \<times> 'v) list" where
  "bt_insert k v [] = [(k, v)]"
| "bt_insert k v ((k', v') # m) =
     (if k < k' then (k, v) # (k', v') # m
      else if k = k' then (k, v) # m
      else (k', v') # bt_insert k v m)"

definition bt_remove :: "'k \<Rightarrow> ('k \<times> 'v) list \<Rightarrow> ('k \<times> 'v) list" where
  "bt_remove k m = filter (\<lambda>e. fst e \<noteq> k) m"

definition bt_wf :: "('k::linorder \<times> 'v) list \<Rightarrow> bool" where
  "bt_wf m \<longleftrightarrow> sorted_wrt (<) (map fst m)"

lemma bt_wf_Nil [simp]: "bt_wf []"
  by (simp add: bt_wf_def)

lemma bt_wf_Cons: "bt_wf ((k, v) # m) \<longleftrightarrow> (\<forall>k' \<in> fst ` set m. k < k') \<and> bt_wf m"
  by (simp add: bt_wf_def)

lemma set_bt_insert_keys: "fst ` set (bt_insert k v m) = insert k (fst ` set m)"
  by (induction k v m rule: bt_insert.induct) auto

lemma map_of_bt_insert:
  "bt_wf m \<Longrightarrow> map_of (bt_insert k v m) = (map_of m)(k \<mapsto> v)"
proof (induction k v m rule: bt_insert.induct)
  case (1 k v)
  then show ?case by simp
next
  case (2 k v k' v' m)
  then show ?case by (auto simp: bt_wf_Cons fun_eq_iff)
qed

lemma bt_wf_insert: "bt_wf m \<Longrightarrow> bt_wf (bt_insert k v m)"
proof (induction k v m rule: bt_insert.induct)
  case (1 k v)
  then show ?case by (simp add: bt_wf_Cons)
next
  case (2 k v k' v' m)
  then show ?case by (force simp: bt_wf_Cons set_bt_insert_keys)
qed

lemma map_of_bt_remove: "map_of (bt_remove k m) = (map_of m)(k := None)"
  by (induction m) (auto simp: bt_remove_def fun_eq_iff)

lemma bt_wf_remove: "bt_wf m \<Longrightarrow> bt_wf (bt_remove k m)"
proof (induction m)
  case Nil
  then show ?case by (simp add: bt_remove_def)
next
  case (Cons e m)
  then show ?case by (cases e) (auto simp: bt_remove_def bt_wf_Cons)
qed

lemma bt_wf_distinct: "bt_wf m \<Longrightarrow> distinct (map fst m)"
  by (simp add: bt_wf_def strict_sorted_iff)

text \<open>What the clients of an ordered map rely on.\<close>

locale ordered_map =
  fixes get :: "'m \<Rightarrow> 'k \<Rightarrow> 'v option" and put :: "'k \<Rightarrow> 'v \<Rightarrow> 'm \<Rightarrow> 'm"
    and del :: "'k \<Rightarrow> 'm \<Rightarrow> 'm" and wf :: "'m \<Rightarrow> bool"
  assumes get_put: "wf m \<Longrightarrow> get (put k v m) k' = (if k' = k then Some v else get m k')"
    and get_del: "wf m \<Longrightarrow> get (del k m) k' = (if k' = k then None else get m k')"
    and wf_put: "wf m \<Longrightarrow> wf (put k v m)"
    and wf_del: "wf m \<Longrightarrow> wf (del k m)"
begin

lemma get_fold_put:
  assumes "wf m"
  shows "get (fold (\<lambda>(k, v). put k v) kvs m) k =
    (case map_of (rev kvs) k of Some v \<Rightarrow> Some v | None \<Rightarrow> get m k)"
  using assms
proof (induction kvs arbitrary: m)
  case Nil
  then show ?case by simp
next
  case (Cons kv kvs)
  obtain k' v' where kv: "kv = (k', v')" by (cases kv)
  from Cons.prems have "wf (put k' v' m)" by (rule wf_put)
  from Cons.IH [OF this] kv show ?case
    by (simp add: get_put [OF Cons.prems] map_add_def split: option.splits)
qed

lemma wf_fold_put: "wf m \<Longrightarrow> wf (fold (\<lambda>(k, v). put k v) kvs m)"
  by (induction kvs arbitrary: m) (auto simp: wf_put)

end

interpretation bt: ordered_map map_of bt_insert bt_remove bt_wf
  by unfold_locales (auto simp: map_of_bt_insert map_of_bt_remove bt_wf_insert bt_wf_remove)

subsection \<open>Strings\<close>

text \<open>
  \<open>utf8_len\<close> is the length of the encoding a first byte announces; \<open>chars\<close> cuts a byte
  string into the encodings of its characters.
\<close>

definition utf8_len :: "char \<Rightarrow> nat" where
  "utf8_len c = (let b = of_char c :: nat in
     if b < 192 then 1 else if b < 224 then 2 else if b < 240 then 3 else 4)"

function chars :: "string \<Rightarrow> string list" where
  "chars [] = []"
| "chars (c # s) = (c # take (utf8_len c - 1) s) # chars (drop (utf8_len c - 1) s)"
  by pat_completeness auto
termination by (relation "measure length") auto

lemma concat_chars: "concat (chars s) = s"
  by (induction s rule: chars.induct) auto

lemma chars_nonempty: "cs \<in> set (chars s) \<Longrightarrow> cs \<noteq> []"
  by (induction s rule: chars.induct) auto

definition bytes_of :: "string \<Rightarrow> nat list" where
  "bytes_of s = map of_char s"

text \<open>The Unicode property \<open>White_Space\<close>, on one encoded character.\<close>

definition is_whitespace :: "string \<Rightarrow> bool" where
  "is_whitespace cs = (case bytes_of cs of
      [b] \<Rightarrow> b = 32 \<or> 9 \<le> b \<and> b \<le> 13
    | [b, c] \<Rightarrow> b = 194 \<and> (c = 133 \<or> c = 160)
    | [b, c, d] \<Rightarrow>
        b = 225 \<and> c = 154 \<and> d = 128 \<or>
        b = 226 \<and> c = 128 \<and> (128 \<le> d \<and> d \<le> 138 \<or> d = 168 \<or> d = 169 \<or> d = 175) \<or>
        b = 226 \<and> c = 129 \<and> d = 159 \<or>
        b = 227 \<and> c = 128 \<and> d = 128
    | _ \<Rightarrow> False)"

text \<open>\<open>str::trim\<close>.\<close>

definition trim :: "string \<Rightarrow> string" where
  "trim s = concat (rev (dropWhile is_whitespace (rev (dropWhile is_whitespace (chars s)))))"

text \<open>\<open>trim().is_empty()\<close>: nothing but whitespace.\<close>

lemma dropWhile_rev_Nil_iff: "dropWhile P (rev xs) = [] \<longleftrightarrow> (\<forall>x \<in> set xs. P x)"
  by (simp add: dropWhile_eq_Nil_conv)

lemma trim_eq_Nil_iff: "trim s = [] \<longleftrightarrow> (\<forall>c \<in> set (chars s). is_whitespace c)"
proof -
  let ?d = "dropWhile is_whitespace (chars s)"
  have ne: "c \<noteq> []" if "c \<in> set (dropWhile is_whitespace (rev ?d))" for c
    using that by (auto dest!: set_dropWhileD dest: chars_nonempty)
  have "trim s = [] \<longleftrightarrow> dropWhile is_whitespace (rev ?d) = []"
    using ne by (auto simp: trim_def)
  also have "\<dots> \<longleftrightarrow> (\<forall>c \<in> set ?d. is_whitespace c)"
    by (rule dropWhile_rev_Nil_iff)
  also have "\<dots> \<longleftrightarrow> ?d = []"
    by (metis hd_dropWhile hd_in_set empty_iff list.set(1))
  finally show ?thesis by (simp add: dropWhile_eq_Nil_conv)
qed

text \<open>Printable ASCII has nothing to trim.\<close>

definition is_graph :: "char \<Rightarrow> bool" where
  "is_graph c = (let b = of_char c :: nat in 33 \<le> b \<and> b \<le> 126)"

lemma chars_ascii: "\<forall>c \<in> set s. is_graph c \<Longrightarrow> chars s = map (\<lambda>c. [c]) s"
  by (induction s) (auto simp: is_graph_def utf8_len_def Let_def)

lemma is_graph_not_whitespace: "is_graph c \<Longrightarrow> \<not> is_whitespace [c]"
  by (auto simp: is_graph_def is_whitespace_def bytes_of_def Let_def)

lemma dropWhile_none: "\<forall>x \<in> set xs. \<not> P x \<Longrightarrow> dropWhile P xs = xs"
  by (cases xs) auto

lemma trim_ascii: "\<forall>c \<in> set s. is_graph c \<Longrightarrow> trim s = s"
proof -
  assume s: "\<forall>c \<in> set s. is_graph c"
  then have "\<forall>x \<in> set (chars s). \<not> is_whitespace x"
    by (auto simp: chars_ascii is_graph_not_whitespace)
  then have "trim s = concat (chars s)" by (simp add: trim_def dropWhile_none)
  then show ?thesis by (simp add: concat_chars)
qed

text \<open>\<open>str::starts_with\<close>, \<open>strip_prefix\<close>, \<open>ends_with\<close>, \<open>find\<close>, \<open>contains\<close>.\<close>

fun strip_prefix :: "string \<Rightarrow> string \<Rightarrow> string option" where
  "strip_prefix [] s = Some s"
| "strip_prefix (p # ps) [] = None"
| "strip_prefix (p # ps) (c # s) = (if p = c then strip_prefix ps s else None)"

definition starts_with :: "string \<Rightarrow> string \<Rightarrow> bool" where
  "starts_with p s = (strip_prefix p s \<noteq> None)"

definition ends_with :: "string \<Rightarrow> string \<Rightarrow> bool" where
  "ends_with p s = starts_with (rev p) (rev s)"

lemma strip_prefix_Some_iff: "strip_prefix p s = Some r \<longleftrightarrow> s = p @ r"
  by (induction p s rule: strip_prefix.induct) auto

lemma starts_with_iff: "starts_with p s \<longleftrightarrow> (\<exists>r. s = p @ r)"
  by (auto simp: starts_with_def strip_prefix_Some_iff)

text \<open>The text before and after the first occurrence of a character.\<close>

fun find_char :: "char \<Rightarrow> string \<Rightarrow> (string \<times> string) option" where
  "find_char c [] = None"
| "find_char c (x # s) =
     (if x = c then Some ([], s) else map_option (\<lambda>(a, b). (x # a, b)) (find_char c s))"

lemma find_char_Some_iff: "find_char c s = Some (a, b) \<longleftrightarrow> s = a @ c # b \<and> c \<notin> set a"
proof (induction s arbitrary: a)
  case Nil
  then show ?case by simp
next
  case (Cons x s)
  then show ?case by (cases a) auto
qed

lemma find_char_None_iff: "find_char c s = None \<longleftrightarrow> c \<notin> set s"
  by (induction s) auto

lemma find_char_append: "c \<notin> set a \<Longrightarrow> find_char c (a @ c # b) = Some (a, b)"
  by (simp add: find_char_Some_iff)

fun find_str :: "string \<Rightarrow> string \<Rightarrow> (string \<times> string) option" where
  "find_str p [] = (if p = [] then Some ([], []) else None)"
| "find_str p (x # s) =
     (case strip_prefix p (x # s) of
        Some r \<Rightarrow> Some ([], r)
      | None \<Rightarrow> map_option (\<lambda>(a, b). (x # a, b)) (find_str p s))"

definition contains_str :: "string \<Rightarrow> string \<Rightarrow> bool" where
  "contains_str p s = (find_str p s \<noteq> None)"

lemma find_str_Some: "find_str p s = Some (a, b) \<Longrightarrow> s = a @ p @ b"
  by (induction s arbitrary: a)
     (auto split: if_splits option.splits simp: strip_prefix_Some_iff)

lemma find_str_here:
  assumes "strip_prefix p s = Some b"
  shows "find_str p s \<noteq> None"
proof (cases s)
  case Nil
  with assms show ?thesis by (cases p) simp_all
next
  case (Cons x t)
  with assms have "strip_prefix p (x # t) = Some b" by simp
  then show ?thesis unfolding Cons find_str.simps by simp
qed

lemma contains_str_iff: "contains_str p s \<longleftrightarrow> (\<exists>a b. s = a @ p @ b)"
proof
  assume "contains_str p s"
  then show "\<exists>a b. s = a @ p @ b"
    by (auto simp: contains_str_def dest: find_str_Some)
next
  assume "\<exists>a b. s = a @ p @ b"
  then obtain a b where "s = a @ p @ b" by blast
  then show "contains_str p s"
  proof (induction a arbitrary: s)
    case Nil
    then have "strip_prefix p s = Some b" by (simp add: strip_prefix_Some_iff)
    then show ?case by (simp add: contains_str_def find_str_here)
  next
    case (Cons x a)
    then have "contains_str p (a @ p @ b)" by blast
    with Cons.prems show ?case by (auto simp: contains_str_def split: option.splits)
  qed
qed

text \<open>ASCII classes.\<close>

definition is_digit :: "char \<Rightarrow> bool" where
  "is_digit c = (let b = of_char c :: nat in 48 \<le> b \<and> b \<le> 57)"

definition is_alpha :: "char \<Rightarrow> bool" where
  "is_alpha c = (let b = of_char c :: nat in 65 \<le> b \<and> b \<le> 90 \<or> 97 \<le> b \<and> b \<le> 122)"

definition is_alnum :: "char \<Rightarrow> bool" where
  "is_alnum c = (is_alpha c \<or> is_digit c)"

text \<open>\<open>[String]::join\<close>.\<close>

fun join :: "string \<Rightarrow> string list \<Rightarrow> string" where
  "join sep [] = []"
| "join sep [s] = s"
| "join sep (s # t # ss) = s @ sep @ join sep (t # ss)"

subsection \<open>Decimal numbers\<close>

definition digit_char :: "nat \<Rightarrow> char" where
  "digit_char d = char_of (48 + d)"

definition digit_val :: "char \<Rightarrow> nat" where
  "digit_val c = of_char c - 48"

text \<open>\<open>to_string\<close> of an unsigned integer.\<close>

fun show_nat :: "nat \<Rightarrow> string" where
  "show_nat n = (if n < 10 then [digit_char n] else show_nat (n div 10) @ [digit_char (n mod 10)])"

declare show_nat.simps [simp del]

definition show_int :: "int \<Rightarrow> string" where
  "show_int i = (if i < 0 then ''-'' @ show_nat (nat (- i)) else show_nat (nat i))"

text \<open>The value of a run of digits; \<open>None\<close> on an empty run or another character.\<close>

fun digits_val :: "nat \<Rightarrow> string \<Rightarrow> nat option" where
  "digits_val acc [] = Some acc"
| "digits_val acc (c # s) = (if is_digit c then digits_val (10 * acc + digit_val c) s else None)"

definition parse_digits :: "string \<Rightarrow> nat option" where
  "parse_digits s = (if s = [] then None else digits_val 0 s)"

text \<open>\<open>str::parse::<i64>\<close>: an optional sign, at least one digit, in range.\<close>

definition i64_min :: int where "i64_min = - (2 ^ 63)"
definition i64_max :: int where "i64_max = 2 ^ 63 - 1"

definition parse_i64 :: "string \<Rightarrow> int option" where
  "parse_i64 s =
     (let i = (case s of
          [] \<Rightarrow> None
        | c # r \<Rightarrow>
            if c = CHR ''-'' then map_option (\<lambda>n. - int n) (parse_digits r)
            else if c = CHR ''+'' then map_option int (parse_digits r)
            else map_option int (parse_digits s))
      in case i of None \<Rightarrow> None | Some v \<Rightarrow> if i64_min \<le> v \<and> v \<le> i64_max then Some v else None)"

lemma digit_char_simps [simp]:
  "d < 10 \<Longrightarrow> is_digit (digit_char d)" "d < 10 \<Longrightarrow> digit_val (digit_char d) = d"
  by (simp_all add: is_digit_def digit_char_def digit_val_def)

lemma show_nat_digits: "c \<in> set (show_nat n) \<Longrightarrow> is_digit c"
proof (induction n rule: show_nat.induct)
  case (1 n)
  then show ?case by (auto simp: show_nat.simps [of n] split: if_splits)
qed

lemma show_nat_nonempty [simp]: "show_nat n \<noteq> []"
  by (subst show_nat.simps) simp

lemma digits_val_append:
  "digits_val acc (s @ t) = (case digits_val acc s of None \<Rightarrow> None | Some a \<Rightarrow> digits_val a t)"
  by (induction acc s rule: digits_val.induct) auto

lemma digits_val_show_nat: "digits_val 0 (show_nat n) = Some n"
proof (induction n rule: show_nat.induct)
  case (1 n)
  show ?case
  proof (cases "n < 10")
    case True
    then show ?thesis by (simp add: show_nat.simps [of n])
  next
    case False
    with 1 have "digits_val 0 (show_nat (n div 10)) = Some (n div 10)" by simp
    with False show ?thesis by (subst show_nat.simps) (simp add: digits_val_append)
  qed
qed

lemma parse_digits_show_nat [simp]: "parse_digits (show_nat n) = Some n"
  by (simp add: parse_digits_def digits_val_show_nat)

lemma is_digit_not:
  "is_digit c \<Longrightarrow> c \<noteq> CHR ''-'' \<and> c \<noteq> CHR ''+'' \<and> c \<noteq> CHR ''H'' \<and> c \<noteq> CHR ''M'' \<and>
    c \<noteq> CHR ''S'' \<and> c \<noteq> CHR ''D'' \<and> c \<noteq> CHR ''T'' \<and> c \<noteq> CHR ''P''"
  by (auto simp: is_digit_def)

lemma parse_i64_show_nat:
  assumes "int n \<le> i64_max"
  shows "parse_i64 (show_nat n) = Some (int n)"
proof -
  obtain c r where cr: "show_nat n = c # r" by (cases "show_nat n") auto
  have "is_digit c" using show_nat_digits [of c n] cr by simp
  then have ne: "c \<noteq> CHR ''-''" "c \<noteq> CHR ''+''" by (simp_all add: is_digit_not)
  have "i64_min \<le> int n" by (simp add: i64_min_def)
  then show ?thesis
    unfolding parse_i64_def cr using ne assms parse_digits_show_nat [of n]
    by (simp add: cr Let_def)
qed

subsection \<open>Rows of a table\<close>

text \<open>\<open>ORDER BY ... DESC\<close>, equal keys in table order.\<close>

definition sort_desc :: "('a \<Rightarrow> 'k::linorder) \<Rightarrow> 'a list \<Rightarrow> 'a list" where
  "sort_desc key xs = rev (sort_key key (rev xs))"

text \<open>\<open>COALESCE(new, old)\<close>.\<close>

definition coalesce :: "'a option \<Rightarrow> 'a option \<Rightarrow> 'a option" where
  "coalesce new old = (case new of Some a \<Rightarrow> Some a | None \<Rightarrow> old)"

lemma coalesce_simps [simp]: "coalesce (Some a) old = Some a" "coalesce None old = old"
  by (simp_all add: coalesce_def)

lemma set_sort_desc [simp]: "set (sort_desc key xs) = set xs"
  by (simp add: sort_desc_def)

lemma length_sort_desc [simp]: "length (sort_desc key xs) = length xs"
  by (simp add: sort_desc_def)

lemma find_key_None: "find (\<lambda>r. f r = k) xs = None \<longleftrightarrow> k \<notin> f ` set xs"
  by (induction xs) auto

lemma find_snoc: "find P (xs @ [x]) = (case find P xs of Some y \<Rightarrow> Some y | None \<Rightarrow> if P x then Some x else None)"
  by (induction xs) auto

lemma find_distinct_key: "e \<in> set xs \<Longrightarrow> distinct (map f xs) \<Longrightarrow> find (\<lambda>x. f x = f e) xs = Some e"
  by (induction xs) (auto simp: image_iff)

text \<open>\<open>split\<close> at the characters of a set.\<close>

fun split_on :: "('a \<Rightarrow> bool) \<Rightarrow> 'a list \<Rightarrow> 'a list list" where
  "split_on P [] = [[]]"
| "split_on P (c # cs) =
     (if P c then [] # split_on P cs else (case split_on P cs of [] \<Rightarrow> [[c]] | x # xs \<Rightarrow> (c # x) # xs))"

end
