(* ===== verification/Kahn.thy ===== *)
theory Kahn
  imports Prelude
begin

text \<open>
  The worklist loop of Kahn's algorithm as \<open>dag.rs\<close> (\<open>detect_cycle\<close>,
  \<open>topological_sort\<close>) and \<open>lineage.rs\<close> (\<open>detect_cycles\<close>, \<open>topological_sort\<close>)
  run it.  The in-degrees are a map, kept as the list of its entries; the result is \<open>None\<close>
  when \<open>*deg -= 1\<close> underflows, which a debug build reports as a panic.
\<close>

fun kahn_kids :: "'a list \<Rightarrow> ('a \<times> nat) list \<Rightarrow> 'a list \<Rightarrow> (('a \<times> nat) list \<times> 'a list) option" where
  "kahn_kids [] deg q = Some (deg, q)"
| "kahn_kids (k # ks) deg q =
     (case map_of deg k of
        None \<Rightarrow> kahn_kids ks deg q
      | Some 0 \<Rightarrow> None
      | Some (Suc d) \<Rightarrow> kahn_kids ks (AList.update k d deg) (if d = 0 then q @ [k] else q))"

lemma sum_list_update:
  "map_of deg k = Some (Suc d) \<Longrightarrow>
   sum_list (map snd deg) = Suc (sum_list (map snd (AList.update k d deg)))"
  by (induction deg) (auto split: if_splits)

lemma kahn_kids_measure:
  "kahn_kids ks deg q = Some (deg', q') \<Longrightarrow>
   sum_list (map snd deg') + length q' \<le> sum_list (map snd deg) + length q"
proof (induction ks arbitrary: deg q)
  case Nil
  then show ?case by simp
next
  case (Cons k ks)
  then show ?case
    by (fastforce split: option.splits nat.splits if_splits dest: sum_list_update)
qed

function kahn_loop ::
  "('a \<Rightarrow> 'a list) \<Rightarrow> ('a \<times> nat) list \<Rightarrow> 'a list \<Rightarrow> 'a list \<Rightarrow> ('a list \<times> ('a \<times> nat) list) option" where
  "kahn_loop ch deg [] out = Some (out, deg)"
| "kahn_loop ch deg (n # q) out =
     (case kahn_kids (ch n) deg q of
        None \<Rightarrow> None
      | Some (deg', q') \<Rightarrow> kahn_loop ch deg' q' (out @ [n]))"
  by pat_completeness auto
termination
proof (relation "measure (\<lambda>(ch, deg, q, out). sum_list (map snd deg) + length q)", goal_cases)
  case 1
  show ?case by simp
next
  case (2 ch deg n q out x deg' q')
  then have "sum_list (map snd deg') + length q' \<le> sum_list (map snd deg) + length q"
    by (intro kahn_kids_measure) simp
  then show ?case by simp
qed


lemma kahn_kids_keys: "kahn_kids ks deg q = Some (deg', q') \<Longrightarrow> map fst deg' = map fst deg"
proof (induction ks arbitrary: deg q)
  case Nil
  then show ?case by simp
next
  case (Cons k ks)
  then show ?case
    by (force split: option.splits nat.splits simp: update_keys dest: map_of_SomeD)
qed

text \<open>The loop changes degrees, never the keys of the map.\<close>

lemma kahn_loop_keys: "kahn_loop ch deg q out = Some (out', deg') \<Longrightarrow> map fst deg' = map fst deg"
  by (induction ch deg q out rule: kahn_loop.induct) (auto split: option.splits dest: kahn_kids_keys)

subsection \<open>One node's children\<close>

text \<open>
  The children are processed against a map that still counts them: every entry is its
  final value plus the occurrences still to come.  Then no decrement underflows, and the
  queue gains exactly the nodes whose entry reaches zero.
\<close>

lemma kahn_kids_spec:
  assumes "\<forall>k\<in>N. map_of deg k = Some (f k + count_list ks k)"
    and "set ks \<subseteq> N"
    and "distinct q" "set q \<subseteq> N" "set q \<inter> D = {}"
    and "\<forall>k\<in>N. k \<in> set q \<union> D \<longleftrightarrow> f k + count_list ks k = 0"
  shows "\<exists>deg' q'. kahn_kids ks deg q = Some (deg', q') \<and> (\<forall>k\<in>N. map_of deg' k = Some (f k)) \<and>
    map fst deg' = map fst deg \<and> distinct q' \<and> set q' \<subseteq> N \<and> set q' \<inter> D = {} \<and>
    (\<forall>k\<in>N. k \<in> set q' \<union> D \<longleftrightarrow> f k = 0)"
  using assms
proof (induction ks arbitrary: deg q)
  case Nil
  then show ?case by simp
next
  case (Cons k ks)
  let ?d = "f k + count_list ks k"
  let ?deg = "AList.update k ?d deg"
  let ?q = "if ?d = 0 then q @ [k] else q"
  from Cons.prems have kN: "k \<in> N" and k: "map_of deg k = Some (Suc ?d)"
    and fresh: "k \<notin> set q \<union> D" by auto
  have keys: "map fst ?deg = map fst deg"
    using k by (simp add: update_keys) (force dest: map_of_SomeD)
  have IH: "\<exists>deg' q'. kahn_kids ks ?deg ?q = Some (deg', q') \<and>
      (\<forall>k\<in>N. map_of deg' k = Some (f k)) \<and> map fst deg' = map fst ?deg \<and> distinct q' \<and>
      set q' \<subseteq> N \<and> set q' \<inter> D = {} \<and> (\<forall>k\<in>N. k \<in> set q' \<union> D \<longleftrightarrow> f k = 0)"
  proof (rule Cons.IH)
    show "\<forall>k'\<in>N. map_of ?deg k' = Some (f k' + count_list ks k')"
      using Cons.prems(1) by (auto simp: update_conv')
    show "\<forall>k'\<in>N. k' \<in> set ?q \<union> D \<longleftrightarrow> f k' + count_list ks k' = 0"
      using Cons.prems(6) fresh by auto
  qed (use Cons.prems fresh kN in auto)
  with k keys show ?case by simp
qed

subsection \<open>The loop and its invariant\<close>

definition kahn_edges :: "'a set \<Rightarrow> ('a \<Rightarrow> 'a list) \<Rightarrow> ('a \<times> 'a) set" where
  "kahn_edges N ch = {(n, k). n \<in> N \<and> k \<in> set (ch n)}"

lemma kahn_edges_source: "(n, k) \<in> kahn_edges N ch \<Longrightarrow> n \<in> N"
  by (simp add: kahn_edges_def)

text \<open>Edges into \<open>k\<close> from nodes that have not been removed.\<close>

definition kahn_rem :: "'a set \<Rightarrow> ('a \<Rightarrow> 'a list) \<Rightarrow> 'a list \<Rightarrow> 'a \<Rightarrow> nat" where
  "kahn_rem N ch out k = (\<Sum>n \<in> N - set out. count_list (ch n) k)"

text \<open>Every node of \<open>out\<close> comes after all its predecessors.\<close>

definition topo_ordered :: "('a \<times> 'a) set \<Rightarrow> 'a list \<Rightarrow> bool" where
  "topo_ordered E out \<longleftrightarrow> (\<forall>xs k ys. out = xs @ k # ys \<longrightarrow> (\<forall>n. (n, k) \<in> E \<longrightarrow> n \<in> set xs))"

definition kahn_inv ::
  "'a set \<Rightarrow> ('a \<Rightarrow> 'a list) \<Rightarrow> ('a \<times> nat) list \<Rightarrow> 'a list \<Rightarrow> 'a list \<Rightarrow> bool" where
  "kahn_inv N ch deg q out \<longleftrightarrow>
     distinct (out @ q) \<and> set (out @ q) \<subseteq> N \<and>
     (\<forall>k\<in>N. map_of deg k = Some (kahn_rem N ch out k)) \<and>
     (\<forall>k\<in>N. k \<in> set (out @ q) \<longleftrightarrow> kahn_rem N ch out k = 0) \<and>
     topo_ordered (kahn_edges N ch) out"

lemma topo_ordered_snoc:
  "topo_ordered E (out @ [n]) \<longleftrightarrow> topo_ordered E out \<and> (\<forall>m. (m, n) \<in> E \<longrightarrow> m \<in> set out)"
proof
  assume L: "topo_ordered E (out @ [n])"
  have "topo_ordered E out"
    unfolding topo_ordered_def
  proof (intro allI impI)
    fix xs k ys m
    assume "out = xs @ k # ys" "(m, k) \<in> E"
    moreover from this have "out @ [n] = xs @ k # (ys @ [n])" by simp
    ultimately show "m \<in> set xs" using L unfolding topo_ordered_def by blast
  qed
  with L show "topo_ordered E out \<and> (\<forall>m. (m, n) \<in> E \<longrightarrow> m \<in> set out)"
    unfolding topo_ordered_def by blast
next
  assume R: "topo_ordered E out \<and> (\<forall>m. (m, n) \<in> E \<longrightarrow> m \<in> set out)"
  show "topo_ordered E (out @ [n])"
    unfolding topo_ordered_def
  proof (intro allI impI)
    fix xs k ys m
    assume eq: "out @ [n] = xs @ k # ys" and e: "(m, k) \<in> E"
    show "m \<in> set xs"
    proof (cases ys rule: rev_cases)
      case Nil
      with eq R e show ?thesis by simp
    next
      case (snoc zs z)
      with eq have "out = xs @ k # zs" by simp
      with R e show ?thesis unfolding topo_ordered_def by blast
    qed
  qed
qed

lemma kahn_rem_snoc:
  assumes "finite N" "n \<in> N" "n \<notin> set out"
  shows "kahn_rem N ch out k = kahn_rem N ch (out @ [n]) k + count_list (ch n) k"
proof -
  let ?R = "N - set (out @ [n])"
  have N: "N - set out = insert n ?R" and R: "finite ?R" "n \<notin> ?R"
    using assms by auto
  have "kahn_rem N ch out k = count_list (ch n) k + (\<Sum>m \<in> ?R. count_list (ch m) k)"
    unfolding kahn_rem_def N by (rule sum.insert [OF R])
  then show ?thesis by (simp only: kahn_rem_def add.commute)
qed

lemma kahn_rem_0_iff:
  "finite N \<Longrightarrow> kahn_rem N ch out k = 0 \<longleftrightarrow> (\<forall>n \<in> N - set out. k \<notin> set (ch n))"
  by (auto simp: kahn_rem_def count_list_0_iff)

lemma kahn_inv_step:
  assumes fin: "finite N" and ch: "\<forall>n\<in>N. set (ch n) \<subseteq> N"
    and inv: "kahn_inv N ch deg (n # q) out"
  shows "\<exists>deg' q'. kahn_kids (ch n) deg q = Some (deg', q') \<and> kahn_inv N ch deg' q' (out @ [n])"
proof -
  from inv have n: "n \<in> N" "n \<notin> set out" "n \<notin> set q" and z: "kahn_rem N ch out n = 0"
    by (auto simp: kahn_inv_def)
  note rem = kahn_rem_snoc [OF fin n(1,2), of ch]
  have "\<exists>deg' q'. kahn_kids (ch n) deg q = Some (deg', q') \<and>
      (\<forall>k\<in>N. map_of deg' k = Some (kahn_rem N ch (out @ [n]) k)) \<and> map fst deg' = map fst deg \<and>
      distinct q' \<and> set q' \<subseteq> N \<and> set q' \<inter> set (out @ [n]) = {} \<and>
      (\<forall>k\<in>N. k \<in> set q' \<union> set (out @ [n]) \<longleftrightarrow> kahn_rem N ch (out @ [n]) k = 0)"
  proof (rule kahn_kids_spec)
    show "\<forall>k\<in>N. map_of deg k = Some (kahn_rem N ch (out @ [n]) k + count_list (ch n) k)"
      using inv rem by (simp add: kahn_inv_def)
    show "\<forall>k\<in>N. k \<in> set q \<union> set (out @ [n]) \<longleftrightarrow>
        kahn_rem N ch (out @ [n]) k + count_list (ch n) k = 0"
      using inv unfolding rem [symmetric] by (auto simp: kahn_inv_def)
  qed (use inv n ch in \<open>auto simp: kahn_inv_def\<close>)
  then obtain deg' q' where kids: "kahn_kids (ch n) deg q = Some (deg', q')"
    and post: "\<forall>k\<in>N. map_of deg' k = Some (kahn_rem N ch (out @ [n]) k)"
      "distinct q'" "set q' \<subseteq> N" "set q' \<inter> set (out @ [n]) = {}"
      "\<forall>k\<in>N. k \<in> set q' \<union> set (out @ [n]) \<longleftrightarrow> kahn_rem N ch (out @ [n]) k = 0"
    by blast
  have "topo_ordered (kahn_edges N ch) (out @ [n])"
    using inv z fin by (auto simp: topo_ordered_snoc kahn_inv_def kahn_rem_0_iff kahn_edges_def)
  with inv post n have "kahn_inv N ch deg' q' (out @ [n])"
    unfolding kahn_inv_def by auto
  with kids show ?thesis by blast
qed

lemma kahn_loop_inv:
  assumes "finite N" and "\<forall>n\<in>N. set (ch n) \<subseteq> N" and "kahn_inv N ch deg q out"
  shows "\<exists>out' deg'. kahn_loop ch deg q out = Some (out', deg') \<and> kahn_inv N ch deg' [] out'"
  using assms
proof (induction ch deg q out rule: kahn_loop.induct [case_names Nil Cons])
  case (Nil ch deg out)
  then show ?case by simp
next
  case (Cons ch deg n q out)
  from kahn_inv_step [OF Cons.prems] obtain deg' q' where
    kids: "kahn_kids (ch n) deg q = Some (deg', q')" and inv: "kahn_inv N ch deg' q' (out @ [n])"
    by blast
  from Cons.IH [OF kids refl Cons.prems(1,2) inv] kids show ?case by simp
qed

subsection \<open>What the loop leaves\<close>

lemma kahn_left_pred:
  assumes "finite N" "kahn_inv N ch deg [] out" "k \<in> N - set out"
  shows "\<exists>n \<in> N - set out. (n, k) \<in> kahn_edges N ch"
proof -
  from assms(2,3) have "kahn_rem N ch out k \<noteq> 0" by (auto simp: kahn_inv_def)
  with assms(1) show ?thesis by (auto simp: kahn_rem_0_iff kahn_edges_def)
qed

text \<open>In a finite set where every element has a predecessor, every element hangs below a cycle.\<close>

lemma cycle_above:
  assumes fin: "finite R" and pred: "\<forall>k\<in>R. \<exists>n\<in>R. (n, k) \<in> E" and k: "k \<in> R"
  shows "\<exists>c\<in>R. (c, c) \<in> E\<^sup>+ \<and> (c, k) \<in> E\<^sup>*"
proof -
  define A where "A = {n \<in> R. (n, k) \<in> (E \<inter> R \<times> R)\<^sup>*}"
  define F where "F = E \<inter> A \<times> A"
  have up: "\<exists>n\<in>A. (n, m) \<in> F" if "m \<in> A" for m
  proof -
    from that have m: "m \<in> R" "(m, k) \<in> (E \<inter> R \<times> R)\<^sup>*" by (simp_all add: A_def)
    from pred m(1) obtain n where n: "n \<in> R" "(n, m) \<in> E" by blast
    with m have "(n, k) \<in> (E \<inter> R \<times> R)\<^sup>*" by (blast intro: converse_rtrancl_into_rtrancl)
    with n that show ?thesis unfolding F_def A_def by blast
  qed
  have kA: "k \<in> A" using k by (simp add: A_def)
  have "finite A" using fin by (simp add: A_def)
  then have "finite F" unfolding F_def by simp
  have "\<not> acyclic F"
  proof
    assume "acyclic F"
    with \<open>finite F\<close> have "wf F" by (rule finite_acyclic_wf)
    then obtain z where "z \<in> A" "\<And>y. (y, z) \<in> F \<Longrightarrow> y \<notin> A"
      using kA by (rule wfE_min) blast
    with up show False by blast
  qed
  then obtain c where c: "(c, c) \<in> F\<^sup>+" unfolding acyclic_def by blast
  then obtain z where "(c, z) \<in> F" by (blast dest: tranclD)
  then have cA: "c \<in> A" unfolding F_def by blast
  have "F\<^sup>+ \<subseteq> E\<^sup>+" by (rule trancl_mono_subset) (simp add: F_def)
  moreover have "(E \<inter> R \<times> R)\<^sup>* \<subseteq> E\<^sup>*" by (rule rtrancl_mono) blast
  ultimately show ?thesis using c cA unfolding A_def by blast
qed

lemma topo_ordered_preds:
  assumes "topo_ordered E out" "k \<in> set out" "(n, k) \<in> E\<^sup>*"
  shows "n \<in> set out"
  using assms(3,2)
proof (induction rule: converse_rtrancl_induct)
  case base
  then show ?case .
next
  case (step y z)
  from step obtain xs ys where "out = xs @ z # ys" by (auto dest: split_list)
  with assms(1) step(1) show ?case by (auto simp: topo_ordered_def)
qed

text \<open>A node of a topologically ordered list lies on no cycle.\<close>

lemma topo_ordered_acyclic:
  assumes "topo_ordered E out" "distinct out" "c \<in> set out"
  shows "(c, c) \<notin> E\<^sup>+"
proof -
  have before: "n \<in> set xs" if "(n, k) \<in> E\<^sup>+" "out = xs @ k # ys" for n k xs ys
    using that
  proof (induction arbitrary: xs ys rule: trancl_induct)
    case (base k)
    then show ?case using assms(1) by (auto simp: topo_ordered_def)
  next
    case (step j k)
    then have "j \<in> set xs" using assms(1) by (auto simp: topo_ordered_def)
    then obtain us vs where "xs = us @ j # vs" by (auto dest: split_list)
    with step show ?case by fastforce
  qed
  from assms(3) obtain xs ys where out: "out = xs @ c # ys" by (auto dest: split_list)
  with assms(2) have "c \<notin> set xs" by simp
  with before [OF _ out] show ?thesis by blast
qed

lemma topo_ordered_before:
  assumes "topo_ordered E out" "(n, k) \<in> E" "k \<in> set out"
  shows "\<exists>xs ys zs. out = xs @ n # ys @ k # zs"
proof -
  from assms(3) obtain us zs where out: "out = us @ k # zs" by (auto dest: split_list)
  with assms(1,2) have "n \<in> set us" by (auto simp: topo_ordered_def)
  then obtain xs ys where "us = xs @ n # ys" by (auto dest: split_list)
  with out show ?thesis by auto
qed

subsection \<open>The interface\<close>

text \<open>
  What a caller of the loop provides for each of its graphs \<open>g\<close> that is well formed
  (\<open>ok g\<close>): the nodes, each node's children, and an in-degree map that counts, for every
  node, the times it is listed as a child.  The initial queue is the nodes of degree zero
  in any order.
\<close>

locale kahn_graph =
  fixes ok :: "'g \<Rightarrow> bool" and nodes :: "'g \<Rightarrow> 'a set" and ch :: "'g \<Rightarrow> 'a \<Rightarrow> 'a list"
    and deg0 :: "'g \<Rightarrow> ('a \<times> nat) list" and q0 :: "'g \<Rightarrow> 'a list"
  assumes fin: "ok g \<Longrightarrow> finite (nodes g)"
    and closed: "ok g \<Longrightarrow> n \<in> nodes g \<Longrightarrow> set (ch g n) \<subseteq> nodes g"
    and degrees: "ok g \<Longrightarrow> k \<in> nodes g \<Longrightarrow>
      map_of (deg0 g) k = Some (\<Sum>n\<in>nodes g. count_list (ch g n) k)"
    and start: "ok g \<Longrightarrow> distinct (q0 g) \<and> set (q0 g) = {k \<in> nodes g. map_of (deg0 g) k = Some 0}"
begin

lemma inv0: "ok g \<Longrightarrow> kahn_inv (nodes g) (ch g) (deg0 g) (q0 g) []"
  using start [of g] degrees [of g] by (auto simp: kahn_inv_def kahn_rem_def topo_ordered_def)

lemma runs:
  assumes "ok g"
  obtains out deg where "kahn_loop (ch g) (deg0 g) (q0 g) [] = Some (out, deg)"
    "kahn_inv (nodes g) (ch g) deg [] out"
  using kahn_loop_inv [OF fin _ inv0, OF assms _ assms] closed [OF assms] by blast

lemma total: "ok g \<Longrightarrow> kahn_loop (ch g) (deg0 g) (q0 g) [] \<noteq> None"
  by (erule runs) simp

lemma result_inv:
  "ok g \<Longrightarrow> kahn_loop (ch g) (deg0 g) (q0 g) [] = Some (out, deg) \<Longrightarrow>
   kahn_inv (nodes g) (ch g) deg [] out"
  by (erule runs) simp

lemma result_distinct:
  "ok g \<Longrightarrow> kahn_loop (ch g) (deg0 g) (q0 g) [] = Some (out, deg) \<Longrightarrow> distinct out"
  by (drule (1) result_inv) (simp add: kahn_inv_def)

lemma result_subset:
  "ok g \<Longrightarrow> kahn_loop (ch g) (deg0 g) (q0 g) [] = Some (out, deg) \<Longrightarrow> set out \<subseteq> nodes g"
  by (drule (1) result_inv) (simp add: kahn_inv_def)

lemma result_ordered:
  "ok g \<Longrightarrow> kahn_loop (ch g) (deg0 g) (q0 g) [] = Some (out, deg) \<Longrightarrow>
   topo_ordered (kahn_edges (nodes g) (ch g)) out"
  by (drule (1) result_inv) (simp add: kahn_inv_def)

text \<open>The nodes left out are exactly those on a cycle or downstream of one.\<close>

lemma result_left:
  assumes g: "ok g" and run: "kahn_loop (ch g) (deg0 g) (q0 g) [] = Some (out, deg)"
    and k: "k \<in> nodes g"
  shows "k \<notin> set out \<longleftrightarrow>
    (\<exists>c\<in>nodes g. (c, c) \<in> (kahn_edges (nodes g) (ch g))\<^sup>+ \<and> (c, k) \<in> (kahn_edges (nodes g) (ch g))\<^sup>*)"
    (is "_ \<longleftrightarrow> ?below")
proof
  assume "k \<notin> set out"
  with k have "\<exists>c \<in> nodes g - set out. (c, c) \<in> (kahn_edges (nodes g) (ch g))\<^sup>+ \<and>
      (c, k) \<in> (kahn_edges (nodes g) (ch g))\<^sup>*"
    using fin [OF g] kahn_left_pred [OF fin [OF g] result_inv [OF g run]]
    by (intro cycle_above) auto
  then show ?below by blast
next
  assume ?below
  with result_ordered [OF g run] result_distinct [OF g run] show "k \<notin> set out"
    by (meson topo_ordered_preds topo_ordered_acyclic)
qed

lemma result_complete:
  assumes g: "ok g" and run: "kahn_loop (ch g) (deg0 g) (q0 g) [] = Some (out, deg)"
  shows "length out = card (nodes g) \<longleftrightarrow> acyclic (kahn_edges (nodes g) (ch g))"
proof -
  have "length out = card (nodes g) \<longleftrightarrow> set out = nodes g"
    using result_distinct [OF g run] result_subset [OF g run] fin [OF g]
    by (metis card_subset_eq distinct_card)
  also have "\<dots> \<longleftrightarrow> (\<forall>k\<in>nodes g. k \<in> set out)"
    using result_subset [OF g run] by blast
  also have "\<dots> \<longleftrightarrow> (\<forall>c\<in>nodes g. (c, c) \<notin> (kahn_edges (nodes g) (ch g))\<^sup>+)"
    using result_left [OF g run] by blast
  also have "\<dots> \<longleftrightarrow> acyclic (kahn_edges (nodes g) (ch g))"
    unfolding acyclic_def by (blast dest: tranclD kahn_edges_source)
  finally show ?thesis .
qed

lemma result_deg:
  assumes "ok g" and "kahn_loop (ch g) (deg0 g) (q0 g) [] = Some (out, deg)" and "k \<in> nodes g"
  obtains d where "map_of deg k = Some d" "d = 0 \<longleftrightarrow> k \<in> set out"
  using result_inv [OF assms(1,2)] assms(3) by (auto simp: kahn_inv_def)

end

end
