(* ===== verification/Reach.thy ===== *)
theory Reach
  imports Prelude
begin

text \<open>
  The breadth-first closure that \<open>Pipeline::all_downstream_of\<close>,
  \<open>LineageGraph::all_upstream\<close> and \<open>LineageGraph::all_downstream\<close> run: a queue that starts
  with one node, and a set of visited nodes that the start enters only when an edge leads
  back to it.
\<close>

definition succs :: "('a \<times> 'a) list \<Rightarrow> 'a \<Rightarrow> 'a list" where
  "succs es c = map snd (filter (\<lambda>e. fst e = c) es)"

lemma set_succs: "set (succs es c) = set es `` {c}"
  by (force simp: succs_def)

text \<open>\<open>for d in ds { if visited.insert(d) { queue.push_back(d) } }\<close>\<close>

fun visit_new :: "'a list \<Rightarrow> 'a list \<Rightarrow> 'a list \<Rightarrow> 'a list \<times> 'a list" where
  "visit_new [] vis q = (vis, q)"
| "visit_new (d # ds) vis q =
     (if d \<in> set vis then visit_new ds vis q else visit_new ds (vis @ [d]) (q @ [d]))"

lemma visit_new_set:
  "visit_new ds vis q = (vis', q') \<Longrightarrow>
   set vis' = set vis \<union> set ds \<and> set q' = set q \<union> (set ds - set vis) \<and>
   (distinct vis \<longrightarrow> distinct vis')"
proof (induction ds vis q rule: visit_new.induct)
  case (1 vis q)
  then show ?case by simp
next
  case (2 d ds vis q)
  then show ?case by (auto split: if_splits)
qed

lemma visit_new_measure:
  assumes "finite T" and "set ds \<subseteq> T" and "visit_new ds vis q = (vis', q')"
  shows "card (T - set vis') + length q' \<le> card (T - set vis) + length q"
  using assms(2,3)
proof (induction ds vis q rule: visit_new.induct)
  case (1 vis q)
  then show ?case by simp
next
  case (2 d ds vis q)
  show ?case
  proof (cases "d \<in> set vis")
    case True
    with 2 show ?thesis by simp
  next
    case False
    let ?R = "T - set (vis @ [d])"
    have eq: "T - set vis = insert d ?R" using "2.prems" False by auto
    have "finite ?R" "d \<notin> ?R" using assms(1) by auto
    then have "card (T - set vis) = Suc (card ?R)"
      unfolding eq by (rule card_insert_disjoint)
    moreover have "card (T - set vis') + length q' \<le> card ?R + length (q @ [d])"
      by (rule "2.IH"(2)) (use "2.prems" False in auto)
    ultimately show ?thesis by simp
  qed
qed

function bfs :: "('a \<times> 'a) list \<Rightarrow> 'a list \<Rightarrow> 'a list \<Rightarrow> 'a list" where
  "bfs es [] vis = vis"
| "bfs es (c # q) vis = (case visit_new (succs es c) vis q of (vis', q') \<Rightarrow> bfs es q' vis')"
  by pat_completeness auto
termination
proof (relation "measure (\<lambda>(es, q, vis). card (snd ` set es - set vis) + length q)", goal_cases)
  case 1
  show ?case by simp
next
  case (2 es c q vis vis' q')
  have "card (snd ` set es - set vis') + length q' \<le> card (snd ` set es - set vis) + length q"
    by (rule visit_new_measure [of _ "succs es c"]) (use 2 in \<open>force simp: set_succs\<close>)+
  then show ?case by simp
qed

definition closure_from :: "('a \<times> 'a) list \<Rightarrow> 'a \<Rightarrow> 'a list" where
  "closure_from es s = bfs es [s] []"

text \<open>
  Every visited node is reached by a path of at least one edge; a node no longer queued has
  all its successors visited.
\<close>

definition bfs_inv :: "('a \<times> 'a) set \<Rightarrow> 'a \<Rightarrow> 'a list \<Rightarrow> 'a list \<Rightarrow> bool" where
  "bfs_inv E s q vis \<longleftrightarrow> set q \<subseteq> insert s (set vis) \<and> set vis \<subseteq> E\<^sup>+ `` {s} \<and> distinct vis \<and>
     (\<forall>x \<in> insert s (set vis) - set q. E `` {x} \<subseteq> set vis)"

lemma bfs_inv_step:
  assumes inv: "bfs_inv (set es) s (c # q) vis" and v: "visit_new (succs es c) vis q = (vis', q')"
  shows "bfs_inv (set es) s q' vis'"
proof -
  from visit_new_set [OF v] have vis': "set vis' = set vis \<union> set es `` {c}"
    and q': "set q' = set q \<union> (set es `` {c} - set vis)" and d: "distinct vis \<longrightarrow> distinct vis'"
    by (auto simp: set_succs)
  have "c = s \<or> (s, c) \<in> (set es)\<^sup>+" using inv by (auto simp: bfs_inv_def)
  then have "set es `` {c} \<subseteq> (set es)\<^sup>+ `` {s}" by (auto intro: trancl_into_trancl)
  with inv vis' q' d show ?thesis unfolding bfs_inv_def by auto
qed

lemma bfs_inv_result:
  "bfs_inv (set es) s q vis \<Longrightarrow> bfs_inv (set es) s [] (bfs es q vis)"
proof (induction es q vis rule: bfs.induct)
  case (1 es vis)
  then show ?case by simp
next
  case (2 es c q vis)
  obtain vis' q' where v: "visit_new (succs es c) vis q = (vis', q')" by fastforce
  from "2.IH" [OF v [symmetric] bfs_inv_step [OF "2.prems" v]] v show ?case by simp
qed

lemma bfs_inv_final:
  assumes "bfs_inv E s [] vis"
  shows "set vis = E\<^sup>+ `` {s}"
proof
  show "set vis \<subseteq> E\<^sup>+ `` {s}" using assms by (simp add: bfs_inv_def)
  show "E\<^sup>+ `` {s} \<subseteq> set vis"
  proof
    fix x
    assume "x \<in> E\<^sup>+ `` {s}"
    then have "(s, x) \<in> E\<^sup>+" by simp
    then show "x \<in> set vis"
      by (induction rule: trancl_induct) (use assms in \<open>auto simp: bfs_inv_def\<close>)
  qed
qed

lemma closure_from_inv: "bfs_inv (set es) s [] (closure_from es s)"
  unfolding closure_from_def by (rule bfs_inv_result) (simp add: bfs_inv_def)

theorem set_closure_from: "set (closure_from es s) = (set es)\<^sup>+ `` {s}"
  by (rule bfs_inv_final [OF closure_from_inv])

lemma distinct_closure_from: "distinct (closure_from es s)"
  using closure_from_inv [of es s] by (simp add: bfs_inv_def)

end
