(* ===== verification/Json.thy ===== *)
theory Json
  imports Prelude
begin

text \<open>
  The tree of \<open>serde_json::Value\<close> and the accessors the crates use on it.  A number is
  one of serde's three cases; a float is kept as the text it prints as.  An object is a
  \<open>BTreeMap\<close>: its entries in key order.
\<close>

datatype json_num = PosInt nat | NegInt int | Flt string

datatype json =
    JNull
  | JBool bool
  | JNumber json_num
  | JString string
  | JArray "json list"
  | JObject "(string \<times> json) list"

fun is_string :: "json \<Rightarrow> bool" where
  "is_string (JString s) = True"
| "is_string v = False"

fun is_number :: "json \<Rightarrow> bool" where
  "is_number (JNumber n) = True"
| "is_number v = False"

fun is_boolean :: "json \<Rightarrow> bool" where
  "is_boolean (JBool b) = True"
| "is_boolean v = False"

fun as_str :: "json \<Rightarrow> string option" where
  "as_str (JString s) = Some s"
| "as_str v = None"

fun as_bool :: "json \<Rightarrow> bool option" where
  "as_bool (JBool b) = Some b"
| "as_bool v = None"

fun as_array :: "json \<Rightarrow> json list option" where
  "as_array (JArray vs) = Some vs"
| "as_array v = None"

fun as_object :: "json \<Rightarrow> (string \<times> json) list option" where
  "as_object (JObject m) = Some m"
| "as_object v = None"

text \<open>\<open>is_i64\<close> and \<open>is_u64\<close>: a non-negative integer is stored as a \<open>u64\<close>.\<close>

fun is_i64 :: "json \<Rightarrow> bool" where
  "is_i64 (JNumber (PosInt n)) = (int n \<le> i64_max)"
| "is_i64 (JNumber (NegInt i)) = True"
| "is_i64 v = False"

fun is_u64 :: "json \<Rightarrow> bool" where
  "is_u64 (JNumber (PosInt n)) = True"
| "is_u64 v = False"

lemma as_str_Some_iff [simp]: "as_str v = Some s \<longleftrightarrow> v = JString s"
  by (cases v) auto

lemma as_array_Some_iff [simp]: "as_array v = Some vs \<longleftrightarrow> v = JArray vs"
  by (cases v) auto

lemma as_object_Some_iff [simp]: "as_object v = Some m \<longleftrightarrow> v = JObject m"
  by (cases v) auto

lemma is_string_iff: "is_string v \<longleftrightarrow> (\<exists>s. v = JString s)"
  by (cases v) auto

lemma is_boolean_iff: "is_boolean v \<longleftrightarrow> (\<exists>b. v = JBool b)"
  by (cases v) auto

lemma is_number_iff: "is_number v \<longleftrightarrow> (\<exists>n. v = JNumber n)"
  by (cases v) auto

lemma is_integer_iff: "is_i64 v \<or> is_u64 v \<longleftrightarrow> (\<exists>n. v = JNumber (PosInt n)) \<or> (\<exists>i. v = JNumber (NegInt i))"
  by (cases v rule: is_i64.cases) auto

text \<open>The strings anywhere in a value, keys of objects apart, in traversal order.\<close>

fun json_strings :: "json \<Rightarrow> string list" where
  "json_strings (JString s) = [s]"
| "json_strings (JObject m) = concat (map (\<lambda>e. json_strings (snd e)) m)"
| "json_strings (JArray vs) = concat (map json_strings vs)"
| "json_strings v = []"

end
