(* ===== verification/Pipeline_Model.thy ===== *)
theory Pipeline_Model
  imports Json "HOL-Library.Word"
begin

text \<open>
  The data model of \<open>armillary-engine\<close>: nodes and their configurations (\<open>node.rs\<close>), sink
  materialization policies (\<open>materialization.rs\<close>), edges (\<open>edge.rs\<close>), the pipeline
  (\<open>pipeline.rs\<close>) and the errors of graph and import validation (\<open>error.rs\<close>).
\<close>

type_synonym u32 = "32 word"
type_synonym u64 = "64 word"

text \<open>An \<open>f64\<close> is its bit pattern; nothing in the model computes with one.\<close>

type_synonym f64 = "64 word"

type_synonym node_id = string

subsection \<open>Materialization policies\<close>

datatype read_mode = Full | Incremental

datatype write_strategy =
  Append | Merge | DeleteInsert | InsertOverwrite | TruncateInsert | Snapshot

fun write_strategy_str :: "write_strategy \<Rightarrow> string" where
  "write_strategy_str Append = ''append''"
| "write_strategy_str Merge = ''merge''"
| "write_strategy_str DeleteInsert = ''delete_insert''"
| "write_strategy_str InsertOverwrite = ''insert_overwrite''"
| "write_strategy_str TruncateInsert = ''truncate_insert''"
| "write_strategy_str Snapshot = ''snapshot''"

datatype change_detection = Check | Timestamp

fun change_detection_str :: "change_detection \<Rightarrow> string" where
  "change_detection_str Check = ''check''"
| "change_detection_str Timestamp = ''timestamp''"

datatype hard_deletes = Ignore | Invalidate | Delete

fun hard_deletes_str :: "hard_deletes \<Rightarrow> string" where
  "hard_deletes_str Ignore = ''ignore''"
| "hard_deletes_str Invalidate = ''invalidate''"
| "hard_deletes_str Delete = ''delete''"

record snapshot_policy =
  sp_change_detection :: change_detection
  sp_check_columns :: "string list option"
  sp_updated_at_column :: "string option"
  sp_hard_deletes :: hard_deletes

datatype watermark_type = WmTimestamp | WmInt64 | WmString

fun watermark_type_str :: "watermark_type \<Rightarrow> string" where
  "watermark_type_str WmTimestamp = ''timestamp''"
| "watermark_type_str WmInt64 = ''int64''"
| "watermark_type_str WmString = ''string''"

record watermark =
  wm_column :: string
  wm_type :: watermark_type

datatype on_schema_change = ScFail | ScIgnore | AppendNewColumns | SyncAllColumns

fun on_schema_change_str :: "on_schema_change \<Rightarrow> string" where
  "on_schema_change_str ScFail = ''fail''"
| "on_schema_change_str ScIgnore = ''ignore''"
| "on_schema_change_str AppendNewColumns = ''append_new_columns''"
| "on_schema_change_str SyncAllColumns = ''sync_all_columns''"

datatype first_run = FrFull | FrFail

definition default_lookback :: string where
  "default_lookback = ''PT0S''"

record materialization_policy =
  mp_read_mode :: read_mode
  mp_write_strategy :: write_strategy
  mp_watermark :: "watermark option"
  mp_unique_keys :: "string list option"
  mp_partition_column :: "string option"
  mp_on_schema_change :: on_schema_change
  mp_first_run :: first_run
  mp_lookback :: string
  mp_snapshot :: "snapshot_policy option"

definition default_policy :: materialization_policy where
  "default_policy = \<lparr>
     mp_read_mode = Full,
     mp_write_strategy = Append,
     mp_watermark = None,
     mp_unique_keys = None,
     mp_partition_column = None,
     mp_on_schema_change = AppendNewColumns,
     mp_first_run = FrFull,
     mp_lookback = default_lookback,
     mp_snapshot = None\<rparr>"

datatype materialization_error =
    WatermarkMissing string
  | WatermarkForbidden string
  | WatermarkColumnEmpty string
  | UniqueKeysRequired string string
  | UniqueKeysForbidden string string
  | PartitionColumnRequired string
  | PartitionColumnForbidden string string
  | LookbackUnsupported string string string
  | LookbackInvalid string string
  | SnapshotBlockRequired string
  | SnapshotBlockForbidden string string
  | SnapshotCheckColumnsRequired string
  | SnapshotUpdatedAtRequired string
  | SnapshotCheckIncrementalIncoherent string
  | SnapshotWatermarkMismatch string string string

subsection \<open>Nodes\<close>

datatype test_severity = SevError | SevWarn

datatype assertion =
    NotNull "string list"
  | Unique "string list"
  | AcceptedValues string "json list"
  | RowCountBetween u64 u64
  | RowCountEqualTo u64
  | NoDuplicates
  | ColumnValuesMatchRegex string string
  | ExpressionTrue string
  | SqlAssertion string string

record test_config =
  tc_severity :: test_severity
  tc_assertions :: "assertion list"
  tc_max_violations :: nat

definition default_max_violations :: nat where
  "default_max_violations = 25"

record source_config =
  src_connector :: string
  src_config :: json
  src_cache_row_limit :: "nat option"

datatype transform_mode = Sql | Python

datatype relationship_kind =
    Direct | Derived | Cast | Filter | JoinKey | JoinPassthrough | GroupBy | AggregateInput
  | WindowPartition | WindowOrder | WindowInput | OpaqueRel

record lineage_annotation_edge =
  la_upstream_column :: string
  la_downstream_column :: string
  la_relationship :: relationship_kind

type_synonym lineage_annotations = "lineage_annotation_edge list"

record transform_config =
  xf_mode :: transform_mode
  xf_code :: string
  xf_code_path :: "string option"
  xf_materialized :: bool
  xf_cache_row_limit :: "nat option"
  xf_lineage_annotations :: "lineage_annotations option"

record sink_config =
  snk_connector :: string
  snk_config :: json
  snk_materialization :: "materialization_policy option"

record snippet_call =
  sc_snippet :: string
  sc_params :: "(string \<times> json) list"

datatype node_kind =
    Source source_config
  | Transform transform_config
  | Sink sink_config
  | Test test_config
  | Snippet snippet_call

fun is_source :: "node_kind \<Rightarrow> bool" where
  "is_source (Source c) = True" | "is_source k = False"

fun is_transform :: "node_kind \<Rightarrow> bool" where
  "is_transform (Transform c) = True" | "is_transform k = False"

fun is_sink :: "node_kind \<Rightarrow> bool" where
  "is_sink (Sink c) = True" | "is_sink k = False"

fun is_test :: "node_kind \<Rightarrow> bool" where
  "is_test (Test c) = True" | "is_test k = False"

fun is_snippet :: "node_kind \<Rightarrow> bool" where
  "is_snippet (Snippet c) = True" | "is_snippet k = False"

record position =
  pos_x :: f64
  pos_y :: f64

record node =
  n_id :: node_id
  n_name :: string
  n_kind :: node_kind
  n_position :: position
  n_pinned_position :: bool
  n_snippet_parent :: "node_id option"
  n_snippet_name :: "string option"

subsection \<open>Edges and pipelines\<close>

datatype edge = Edge (e_from: node_id) (e_to: node_id)

datatype variable_type = VtString | VtInteger | VtFloat | VtDate | VtBoolean

record variable =
  var_type :: variable_type
  var_default :: "json option"

datatype sample_config = FirstN nat | Random nat u64 | FullData

definition default_sample_config :: sample_config where
  "default_sample_config = FirstN 100"

datatype snippet_param_type = SpString | SpNumber | SpBool | SpColumn | SpColumnList

fun snippet_param_type_str :: "snippet_param_type \<Rightarrow> string" where
  "snippet_param_type_str SpString = ''string''"
| "snippet_param_type_str SpNumber = ''number''"
| "snippet_param_type_str SpBool = ''bool''"
| "snippet_param_type_str SpColumn = ''column''"
| "snippet_param_type_str SpColumnList = ''column_list''"

record pipeline =
  p_name :: string
  p_version :: u32
  p_default_environment :: string
  p_variables :: "(string \<times> variable) list"
  p_environment_overrides :: "(string \<times> (string \<times> json) list) list"
  p_sample_config :: "sample_config option"
  p_cache_row_limit :: "nat option"
  p_code_dir :: "string option"
  p_udfs_dir :: "string option"
  p_snippets_dir :: "string option"
  p_snippet :: "string option"
  p_params :: "(string \<times> snippet_param_type) list"
  p_outputs :: "string list"
  p_nodes :: "node list"
  p_edges :: "edge list"

definition default_version :: u32 where "default_version = 1"
definition default_environment :: string where "default_environment = ''dev''"

subsection \<open>Errors\<close>

datatype dag_error =
    CycleDetected node_id
  | OrphanNode node_id
  | UnknownNode node_id
  | SourceHasUpstream node_id
  | SinkHasDownstream node_id
  | TransformMissingUpstream node_id
  | SinkMissingUpstream node_id
  | DuplicateNodeId node_id
  | DuplicateEdge node_id node_id
  | TestMissingUpstream node_id
  | TestHasDownstream node_id
  | EmptyPipeline

datatype validation_error =
    EmptyName
  | EmptyNodeId nat
  | EmptyNodeName nat
  | VariableDefaultTypeMismatch string string string
  | OverrideUnknownNode string string
  | DagErr dag_error
  | MaterializationErr materialization_error

subsection \<open>Abbreviations for the sample pipelines of witnesses\<close>

abbreviation node_ids :: "pipeline \<Rightarrow> node_id list" where
  "node_ids p \<equiv> map n_id (p_nodes p)"

definition plain_node :: "node_id \<Rightarrow> node_kind \<Rightarrow> node" where
  "plain_node i k = \<lparr>n_id = i, n_name = i, n_kind = k, n_position = \<lparr>pos_x = 0, pos_y = 0\<rparr>,
     n_pinned_position = False, n_snippet_parent = None, n_snippet_name = None\<rparr>"

definition source_node :: "node_id \<Rightarrow> node" where
  "source_node i = plain_node i (Source \<lparr>src_connector = ''csv'', src_config = JNull,
     src_cache_row_limit = None\<rparr>)"

definition transform_node :: "node_id \<Rightarrow> string \<Rightarrow> node" where
  "transform_node i code = plain_node i (Transform \<lparr>xf_mode = Sql, xf_code = code,
     xf_code_path = None, xf_materialized = False, xf_cache_row_limit = None,
     xf_lineage_annotations = None\<rparr>)"

definition sink_node :: "node_id \<Rightarrow> node" where
  "sink_node i = plain_node i (Sink \<lparr>snk_connector = ''stdout'', snk_config = JNull,
     snk_materialization = None\<rparr>)"

definition plain_pipeline :: "string \<Rightarrow> node list \<Rightarrow> edge list \<Rightarrow> pipeline" where
  "plain_pipeline nm ns es = \<lparr>p_name = nm, p_version = default_version,
     p_default_environment = default_environment, p_variables = [], p_environment_overrides = [],
     p_sample_config = None, p_cache_row_limit = None, p_code_dir = None, p_udfs_dir = None,
     p_snippets_dir = None, p_snippet = None, p_params = [], p_outputs = [],
     p_nodes = ns, p_edges = es\<rparr>"

lemmas sample_defs = plain_pipeline_def plain_node_def source_node_def transform_node_def
  sink_node_def

end
