(* ===== verification/Dag.thy ===== *)
theory Dag
  imports Kahn Reach Pipeline_Model
begin

text \<open>
  \<open>dag.rs\<close>: structural validation, cycle detection and topological sorting of a pipeline;
  and the graph queries of \<open>pipeline.rs\<close>.  A panic (\<open>unreachable!\<close>, \<open>expect\<close>, \<open>assert_eq!\<close>,
  an underflow) is \<open>None\<close>.  \<open>ord\<close> is the iteration order of the in-degree map.
\<close>

subsection \<open>Validation\<close>

text \<open>The three loops over nodes and edges, each returning what it pushes onto \<open>errors\<close>.\<close>

fun check_node_ids :: "node_id list \<Rightarrow> node list \<Rightarrow> dag_error list" where
  "check_node_ids seen [] = []"
| "check_node_ids seen (n # ns) =
     (if n_id n \<in> set seen then [DuplicateNodeId (n_id n)] else []) @
     check_node_ids (n_id n # seen) ns"

fun check_edges :: "node_id list \<Rightarrow> edge list \<Rightarrow> edge list \<Rightarrow> dag_error list" where
  "check_edges seen_ids seen_edges [] = []"
| "check_edges seen_ids seen_edges (e # es) =
     (if e_from e \<in> set seen_ids then [] else [UnknownNode (e_from e)]) @
     (if e_to e \<in> set seen_ids then [] else [UnknownNode (e_to e)]) @
     (if e \<in> set seen_edges then [DuplicateEdge (e_from e) (e_to e)] else []) @
     check_edges seen_ids (e # seen_edges) es"

definition has_upstream :: "pipeline \<Rightarrow> node_id \<Rightarrow> bool" where
  "has_upstream p i = (i \<in> set (map e_to (p_edges p)))"

definition has_downstream :: "pipeline \<Rightarrow> node_id \<Rightarrow> bool" where
  "has_downstream p i = (i \<in> set (map e_from (p_edges p)))"

definition check_kind :: "pipeline \<Rightarrow> node \<Rightarrow> dag_error list option" where
  "check_kind p n =
     (let i = n_id n; up = has_upstream p i; down = has_downstream p i in
      case n_kind n of
        Source _ \<Rightarrow> Some (if up then [SourceHasUpstream i] else [])
      | Transform _ \<Rightarrow> Some (if \<not> up then [TransformMissingUpstream i] else [])
      | Sink _ \<Rightarrow> Some ((if down then [SinkHasDownstream i] else []) @
                     (if \<not> up then [SinkMissingUpstream i] else []))
      | Test _ \<Rightarrow> Some ((if \<not> up then [TestMissingUpstream i] else []) @
                     (if down then [TestHasDownstream i] else []))
      | Snippet _ \<Rightarrow> None)"

fun check_kinds :: "pipeline \<Rightarrow> node list \<Rightarrow> dag_error list option" where
  "check_kinds p [] = Some []"
| "check_kinds p (n # ns) =
     (case check_kind p n of None \<Rightarrow> None
      | Some es \<Rightarrow> map_option (\<lambda>es'. es @ es') (check_kinds p ns))"

definition check_orphans :: "pipeline \<Rightarrow> dag_error list" where
  "check_orphans p =
     (if length (p_nodes p) > 1
      then map (\<lambda>n. OrphanNode (n_id n))
        (filter (\<lambda>n. \<not> has_upstream p (n_id n) \<and> \<not> has_downstream p (n_id n)) (p_nodes p))
      else [])"

subsection \<open>Cycles and topological order\<close>

definition zero_entry :: "'k \<Rightarrow> ('k \<times> nat) list \<Rightarrow> ('k \<times> nat) list" where
  "zero_entry k m = (case map_of m k of None \<Rightarrow> AList.update k 0 m | Some _ \<Rightarrow> m)"

definition bump_entry :: "'k \<Rightarrow> ('k \<times> nat) list \<Rightarrow> ('k \<times> nat) list" where
  "bump_entry k m = AList.update k (Suc (case map_of m k of None \<Rightarrow> 0 | Some d \<Rightarrow> d)) m"

definition build_adjacency ::
  "pipeline \<Rightarrow> (node_id \<times> nat) list \<times> (node_id \<times> node_id list) list" where
  "build_adjacency p =
     (let indeg = fold (\<lambda>n. zero_entry (n_id n)) (p_nodes p) []
      in (fold (\<lambda>e. bump_entry (e_to e)) (p_edges p) indeg, group_by e_from e_to (p_edges p)))"

definition kids :: "('k \<times> 'v list) list \<Rightarrow> 'k \<Rightarrow> 'v list" where
  "kids children n = (case map_of children n of None \<Rightarrow> [] | Some ks \<Rightarrow> ks)"

definition zero_degree :: "('k list \<Rightarrow> 'k list) \<Rightarrow> ('k \<times> nat) list \<Rightarrow> 'k list" where
  "zero_degree ord deg = filter (\<lambda>k. map_of deg k = Some 0) (ord (map fst deg))"

definition detect_cycle ::
  "(node_id list \<Rightarrow> node_id list) \<Rightarrow> pipeline \<Rightarrow> (node_id + unit) option" where
  "detect_cycle ord p =
     (case build_adjacency p of (deg, children) \<Rightarrow>
      (case kahn_loop (kids children) deg (zero_degree ord deg) [] of
         None \<Rightarrow> None
       | Some (visited, deg') \<Rightarrow>
           if length visited = length (p_nodes p) then Some (Ok ())
           else (case find (\<lambda>k. \<exists>d. map_of deg' k = Some (Suc d)) (ord (map fst deg')) of
                   None \<Rightarrow> None
                 | Some k \<Rightarrow> Some (Err k))))"

definition topological_sort ::
  "(node_id list \<Rightarrow> node_id list) \<Rightarrow> pipeline \<Rightarrow> node_id list option" where
  "topological_sort ord p =
     (case build_adjacency p of (deg, children) \<Rightarrow>
      (case kahn_loop (kids children) deg (zero_degree ord deg) [] of
         None \<Rightarrow> None
       | Some (order, deg') \<Rightarrow> if length order = length (p_nodes p) then Some order else None))"

definition validate ::
  "(node_id list \<Rightarrow> node_id list) \<Rightarrow> pipeline \<Rightarrow> (dag_error list + unit) option" where
  "validate ord p =
     (if p_nodes p = [] then Some (Err [EmptyPipeline])
      else
        (case check_kinds p (p_nodes p) of
           None \<Rightarrow> None
         | Some kind_errors \<Rightarrow>
             let errors = check_node_ids [] (p_nodes p) @
                 check_edges (node_ids p) [] (p_edges p) @ kind_errors @ check_orphans p
             in if errors = []
                then (case detect_cycle ord p of
                        None \<Rightarrow> None
                      | Some (Inl k) \<Rightarrow> Some (Err [CycleDetected k])
                      | Some (Inr _) \<Rightarrow> Some (Ok ()))
                else Some (Err errors)))"

subsection \<open>Graph queries of a pipeline\<close>

definition node_of :: "pipeline \<Rightarrow> node_id \<Rightarrow> node option" where
  "node_of p i = find (\<lambda>n. n_id n = i) (p_nodes p)"

definition upstream_of :: "pipeline \<Rightarrow> node_id \<Rightarrow> node_id list" where
  "upstream_of p i = map e_from (filter (\<lambda>e. e_to e = i) (p_edges p))"

definition downstream_of :: "pipeline \<Rightarrow> node_id \<Rightarrow> node_id list" where
  "downstream_of p i = map e_to (filter (\<lambda>e. e_from e = i) (p_edges p))"

definition edge_pairs :: "pipeline \<Rightarrow> (node_id \<times> node_id) list" where
  "edge_pairs p = map (\<lambda>e. (e_from e, e_to e)) (p_edges p)"

definition all_downstream_of ::
  "(node_id list \<Rightarrow> node_id list) \<Rightarrow> pipeline \<Rightarrow> node_id \<Rightarrow> node_id list" where
  "all_downstream_of ord p i = ord (closure_from (edge_pairs p) i)"

definition DEFAULT_CACHE_ROW_LIMIT :: nat where
  "DEFAULT_CACHE_ROW_LIMIT = 10000"

definition effective_cache_row_limit :: "pipeline \<Rightarrow> node \<Rightarrow> nat" where
  "effective_cache_row_limit p n =
     (let node_limit = (case n_kind n of
          Source cfg \<Rightarrow> src_cache_row_limit cfg
        | Transform cfg \<Rightarrow> xf_cache_row_limit cfg
        | Sink _ \<Rightarrow> None
        | Test _ \<Rightarrow> None
        | Snippet _ \<Rightarrow> None)
      in case node_limit of
           Some l \<Rightarrow> l
         | None \<Rightarrow> (case p_cache_row_limit p of Some l \<Rightarrow> l | None \<Rightarrow> DEFAULT_CACHE_ROW_LIMIT))"

subsection \<open>What the loops report\<close>

lemma check_node_ids_Nil_iff:
  "check_node_ids seen ns = [] \<longleftrightarrow> distinct (map n_id ns) \<and> n_id ` set ns \<inter> set seen = {}"
  by (induction seen ns rule: check_node_ids.induct) auto

lemma check_edges_Nil_iff:
  "check_edges ids seen es = [] \<longleftrightarrow>
     (\<forall>e \<in> set es. e_from e \<in> set ids \<and> e_to e \<in> set ids) \<and> distinct es \<and> set es \<inter> set seen = {}"
  by (induction ids seen es rule: check_edges.induct) auto

lemma check_kinds_None_iff: "check_kinds p ns = None \<longleftrightarrow> (\<exists>n \<in> set ns. is_snippet (n_kind n))"
  by (induction ns) (auto simp: check_kind_def Let_def split: node_kind.splits option.splits)

text \<open>The shape a node of each kind must have.\<close>

definition kind_ok :: "pipeline \<Rightarrow> node \<Rightarrow> bool" where
  "kind_ok p n \<longleftrightarrow>
     (is_source (n_kind n) \<longrightarrow> \<not> has_upstream p (n_id n)) \<and>
     (\<not> is_source (n_kind n) \<longrightarrow> has_upstream p (n_id n)) \<and>
     (is_sink (n_kind n) \<or> is_test (n_kind n) \<longrightarrow> \<not> has_downstream p (n_id n))"

lemma check_kind_Nil_iff:
  "\<not> is_snippet (n_kind n) \<Longrightarrow> check_kind p n = Some [] \<longleftrightarrow> kind_ok p n"
  by (cases "n_kind n") (auto simp: check_kind_def Let_def kind_ok_def)

lemma check_kinds_Nil_iff:
  "\<forall>n \<in> set ns. \<not> is_snippet (n_kind n) \<Longrightarrow>
   check_kinds p ns = Some [] \<longleftrightarrow> (\<forall>n \<in> set ns. kind_ok p n)"
  by (induction ns) (auto simp: check_kind_Nil_iff [symmetric] split: option.splits)

lemma check_orphans_Nil_iff:
  "check_orphans p = [] \<longleftrightarrow>
     (length (p_nodes p) > 1 \<longrightarrow>
      (\<forall>n \<in> set (p_nodes p). has_upstream p (n_id n) \<or> has_downstream p (n_id n)))"
  by (auto simp: check_orphans_def filter_empty_conv)

subsection \<open>The adjacency maps count the edges\<close>

lemma map_of_zero_entry:
  "map_of (zero_entry k m) k' = (if k' = k \<and> map_of m k = None then Some 0 else map_of m k')"
  by (auto simp: zero_entry_def update_conv' split: option.splits)

lemma map_of_zero_fold:
  "map_of (fold (\<lambda>n. zero_entry (f n)) ns m) k =
     (if k \<in> f ` set ns \<and> map_of m k = None then Some 0 else map_of m k)"
  by (induction ns arbitrary: m) (auto simp: map_of_zero_entry)

lemma distinct_zero_fold:
  "distinct (map fst m) \<Longrightarrow> distinct (map fst (fold (\<lambda>n. zero_entry (f n)) ns m))"
  by (induction ns arbitrary: m)
     (auto simp: zero_entry_def distinct_update split: option.splits)

lemma map_of_bump_entry:
  "map_of (bump_entry k m) k' =
     (if k' = k then Some (Suc (case map_of m k of None \<Rightarrow> 0 | Some d \<Rightarrow> d)) else map_of m k')"
  by (simp add: bump_entry_def update_conv')

lemma map_of_bump_fold:
  "map_of m k = Some d \<Longrightarrow>
   map_of (fold (\<lambda>e. bump_entry (f e)) es m) k = Some (d + count_list (map f es) k)"
  by (induction es arbitrary: m d) (auto simp: map_of_bump_entry)

lemma dom_bump_fold:
  "dom (map_of (fold (\<lambda>e. bump_entry (f e)) es m)) = dom (map_of m) \<union> f ` set es"
proof (induction es arbitrary: m)
  case Nil
  then show ?case by simp
next
  case (Cons e es)
  have "dom (map_of (bump_entry (f e) m)) = insert (f e) (dom (map_of m))"
    by (auto simp: map_of_bump_entry split: if_splits)
  with Cons show ?case by auto
qed

lemma distinct_bump_fold:
  "distinct (map fst m) \<Longrightarrow> distinct (map fst (fold (\<lambda>e. bump_entry (f e)) es m))"
  by (induction es arbitrary: m) (auto simp: bump_entry_def distinct_update)


text \<open>The graph of a pipeline: every edge joins two node ids.\<close>

definition edge_rel :: "pipeline \<Rightarrow> (node_id \<times> node_id) set" where
  "edge_rel p = (\<lambda>e. (e_from e, e_to e)) ` set (p_edges p)"

definition edges_known :: "pipeline \<Rightarrow> bool" where
  "edges_known p \<longleftrightarrow> (\<forall>e \<in> set (p_edges p). e_from e \<in> set (node_ids p) \<and> e_to e \<in> set (node_ids p))"

lemma kids_group_by:
  "kids (group_by e_from e_to es) n = map e_to (filter (\<lambda>e. e_from e = n) es)"
  by (auto simp: kids_def map_of_group_by filter_empty_conv)

lemma count_by_source:
  assumes "finite N" "\<forall>e \<in> set es. e_from e \<in> N"
  shows "(\<Sum>n\<in>N. count_list (map e_to (filter (\<lambda>e. e_from e = n) es)) k) = count_list (map e_to es) k"
  using assms(2)
proof (induction es)
  case Nil
  then show ?case by simp
next
  case (Cons e es)
  let ?c = "\<lambda>n. count_list (map e_to (filter (\<lambda>e. e_from e = n) es)) k"
  let ?one = "if e_to e = k then 1 else 0 :: nat"
  have "(\<Sum>n\<in>N. count_list (map e_to (filter (\<lambda>e. e_from e = n) (e # es))) k) =
      (\<Sum>n\<in>N. (if n = e_from e then ?one else 0) + ?c n)"
    by (rule sum.cong) auto
  also have "\<dots> = (\<Sum>n\<in>N. if n = e_from e then ?one else 0) + (\<Sum>n\<in>N. ?c n)"
    by (rule sum.distrib)
  also have "\<dots> = ?one + count_list (map e_to es) k"
    using Cons assms(1) by (simp add: sum.delta)
  finally show ?case by simp
qed

text \<open>The two maps of \<open>build_adjacency\<close>, and the queue the loop starts with.\<close>

definition dag_deg :: "pipeline \<Rightarrow> (node_id \<times> nat) list" where
  "dag_deg p = fst (build_adjacency p)"

definition dag_kids :: "pipeline \<Rightarrow> node_id \<Rightarrow> node_id list" where
  "dag_kids p = kids (snd (build_adjacency p))"

lemma dag_kids_eq: "dag_kids p n = map e_to (filter (\<lambda>e. e_from e = n) (p_edges p))"
  by (simp add: dag_kids_def build_adjacency_def Let_def kids_group_by)

lemma dag_deg_count:
  assumes "k \<in> set (node_ids p)"
  shows "map_of (dag_deg p) k = Some (count_list (map e_to (p_edges p)) k)"
proof -
  let ?m = "fold (\<lambda>n. zero_entry (n_id n)) (p_nodes p) []"
  have "map_of ?m k = Some 0" using assms by (auto simp: map_of_zero_fold)
  then have "map_of (fold (\<lambda>e. bump_entry (e_to e)) (p_edges p) ?m) k =
      Some (0 + count_list (map e_to (p_edges p)) k)"
    by (rule map_of_bump_fold)
  then show ?thesis by (simp add: dag_deg_def build_adjacency_def Let_def)
qed

lemma dag_deg_keys:
  assumes "edges_known p"
  shows "set (map fst (dag_deg p)) = set (node_ids p)" "distinct (map fst (dag_deg p))"
proof -
  let ?m = "fold (\<lambda>n. zero_entry (n_id n)) (p_nodes p) []"
  have "map_of ?m k = (if k \<in> n_id ` set (p_nodes p) then Some 0 else None)" for k
    by (simp add: map_of_zero_fold)
  then have m: "dom (map_of ?m) = set (node_ids p)" by (auto simp: dom_def split: if_splits)
  have "set (map fst (dag_deg p)) = dom (map_of (dag_deg p))"
    by (simp add: dom_map_of_conv_image_fst)
  also have "\<dots> = set (node_ids p) \<union> e_to ` set (p_edges p)"
    unfolding m [symmetric] by (simp add: dag_deg_def build_adjacency_def Let_def dom_bump_fold)
  finally show "set (map fst (dag_deg p)) = set (node_ids p)"
    using assms by (auto simp: edges_known_def)
  show "distinct (map fst (dag_deg p))"
    by (simp add: dag_deg_def build_adjacency_def Let_def distinct_bump_fold distinct_zero_fold)
qed

text \<open>A pipeline whose edges are known, with an iteration order, meets the loop's interface.\<close>

definition dag_ok :: "(node_id list \<Rightarrow> node_id list) \<times> pipeline \<Rightarrow> bool" where
  "dag_ok g \<longleftrightarrow> hash_order (fst g) \<and> edges_known (snd g)"

interpretation dag: kahn_graph dag_ok "\<lambda>g. set (node_ids (snd g))" "\<lambda>g. dag_kids (snd g)"
  "\<lambda>g. dag_deg (snd g)" "\<lambda>g. zero_degree (fst g) (dag_deg (snd g))"
proof unfold_locales
  fix g assume g: "dag_ok g"
  obtain ord p where gp: "g = (ord, p)" by (cases g)
  with g have ord: "hash_order ord" and known: "edges_known p" by (auto simp: dag_ok_def)
  show "set (dag_kids (snd g) n) \<subseteq> set (node_ids (snd g))" for n
    using known by (auto simp: gp dag_kids_eq edges_known_def)
  show "map_of (dag_deg (snd g)) k = Some (\<Sum>n\<in>set (node_ids (snd g)). count_list (dag_kids (snd g) n) k)"
    if "k \<in> set (node_ids (snd g))" for k
    using that known by (simp add: gp dag_deg_count dag_kids_eq count_by_source edges_known_def)
  show "distinct (zero_degree (fst g) (dag_deg (snd g))) \<and> set (zero_degree (fst g) (dag_deg (snd g))) =
      {k \<in> set (node_ids (snd g)). map_of (dag_deg (snd g)) k = Some 0}"
    using dag_deg_keys [OF known] by (auto simp: gp zero_degree_def hash_orderD [OF ord])
qed simp

lemma dag_kahn_edges:
  assumes "edges_known p"
  shows "kahn_edges (set (node_ids p)) (dag_kids p) = edge_rel p"
proof -
  have "(n, k) \<in> kahn_edges (set (node_ids p)) (dag_kids p) \<longleftrightarrow> (n, k) \<in> edge_rel p" for n k
    using assms by (cases "n \<in> set (node_ids p)")
      (force simp: kahn_edges_def dag_kids_eq edge_rel_def edges_known_def)+
  then show ?thesis by auto
qed

text \<open>Node ids that are distinct: one list entry per id.\<close>

lemma card_node_ids: "distinct (node_ids p) \<Longrightarrow> card (set (node_ids p)) = length (p_nodes p)"
  by (metis distinct_card length_map)

text \<open>Both callers run the same loop.\<close>

definition dag_run ::
  "(node_id list \<Rightarrow> node_id list) \<Rightarrow> pipeline \<Rightarrow> (node_id list \<times> (node_id \<times> nat) list) option" where
  "dag_run ord p = kahn_loop (dag_kids p) (dag_deg p) (zero_degree ord (dag_deg p)) []"

lemma topological_sort_eq:
  "topological_sort ord p = (case dag_run ord p of None \<Rightarrow> None
     | Some (order, deg') \<Rightarrow> if length order = length (p_nodes p) then Some order else None)"
  by (simp add: topological_sort_def dag_run_def dag_kids_def dag_deg_def split_beta)

lemma detect_cycle_eq:
  "detect_cycle ord p = (case dag_run ord p of None \<Rightarrow> None
     | Some (visited, deg') \<Rightarrow>
         if length visited = length (p_nodes p) then Some (Ok ())
         else map_option Err (find (\<lambda>k. \<exists>d. map_of deg' k = Some (Suc d)) (ord (map fst deg'))))"
  by (simp add: detect_cycle_def dag_run_def dag_kids_def dag_deg_def split_beta
      split: option.splits)

lemma dag_run_spec:
  assumes "hash_order ord" "edges_known p"
  obtains out deg' where "dag_run ord p = Some (out, deg')"
    "distinct out" "set out \<subseteq> set (node_ids p)" "topo_ordered (edge_rel p) out"
    "distinct (node_ids p) \<Longrightarrow> length out = length (p_nodes p) \<longleftrightarrow> acyclic (edge_rel p)"
    "\<And>k. k \<in> set (node_ids p) \<Longrightarrow> k \<notin> set out \<longleftrightarrow>
       (\<exists>c \<in> set (node_ids p). (c, c) \<in> (edge_rel p)\<^sup>+ \<and> (c, k) \<in> (edge_rel p)\<^sup>*)"
    "\<And>k. k \<in> set (node_ids p) \<Longrightarrow> \<exists>d. map_of deg' k = Some d \<and> (d = 0 \<longleftrightarrow> k \<in> set out)"
    "set (map fst deg') = set (node_ids p)"
proof -
  let ?g = "(ord, p)"
  have g: "dag_ok ?g" using assms by (simp add: dag_ok_def)
  obtain out deg' where run: "dag_run ord p = Some (out, deg')"
    using dag.total [OF g] by (auto simp: dag_run_def)
  then have run': "kahn_loop (dag_kids (snd ?g)) (dag_deg (snd ?g))
      (zero_degree (fst ?g) (dag_deg (snd ?g))) [] = Some (out, deg')"
    by (simp add: dag_run_def)
  note E = dag_kahn_edges [OF assms(2)]
  note facts = dag.result_distinct [OF g run'] dag.result_subset [OF g run']
    dag.result_ordered [OF g run', unfolded snd_conv E]
    dag.result_complete [OF g run', unfolded snd_conv E]
    dag.result_left [OF g run', unfolded snd_conv E]
  show thesis
  proof (rule that [OF run])
    show "set (map fst deg') = set (node_ids p)"
      using kahn_loop_keys [OF run'] dag_deg_keys(1) [OF assms(2)] by simp
    show "\<exists>d. map_of deg' k = Some d \<and> (d = 0 \<longleftrightarrow> k \<in> set out)" if "k \<in> set (node_ids p)" for k
      using that by (rule_tac dag.result_deg [OF g run']) auto
  qed (use facts card_node_ids [of p] in auto)
qed


subsection \<open>Correctness\<close>

text \<open>What \<open>validate\<close> accepts: the checks of the loops, then acyclicity.\<close>

definition well_shaped :: "pipeline \<Rightarrow> bool" where
  "well_shaped p \<longleftrightarrow> distinct (node_ids p) \<and> edges_known p \<and> distinct (p_edges p) \<and>
     (\<forall>n \<in> set (p_nodes p). kind_ok p n) \<and>
     (length (p_nodes p) > 1 \<longrightarrow>
      (\<forall>n \<in> set (p_nodes p). has_upstream p (n_id n) \<or> has_downstream p (n_id n)))"

definition valid_dag :: "pipeline \<Rightarrow> bool" where
  "valid_dag p \<longleftrightarrow> p_nodes p \<noteq> [] \<and> well_shaped p \<and> acyclic (edge_rel p)"

definition no_snippets :: "pipeline \<Rightarrow> bool" where
  "no_snippets p \<longleftrightarrow> (\<forall>n \<in> set (p_nodes p). \<not> is_snippet (n_kind n))"

lemma detect_cycle_Ok_iff:
  assumes "hash_order ord" "edges_known p" "distinct (node_ids p)"
  shows "detect_cycle ord p = Some (Ok u) \<longleftrightarrow> acyclic (edge_rel p)"
proof -
  obtain out deg' where run: "dag_run ord p = Some (out, deg')"
    and c: "length out = length (p_nodes p) \<longleftrightarrow> acyclic (edge_rel p)"
    using dag_run_spec [OF assms(1,2)] assms(3) by metis
  show ?thesis by (auto simp: detect_cycle_eq run c)
qed

lemma detect_cycle_total:
  assumes "hash_order ord" "edges_known p" "distinct (node_ids p)"
  shows "detect_cycle ord p \<noteq> None"
proof -
  obtain out deg' where run: "dag_run ord p = Some (out, deg')"
    and out: "distinct out" "set out \<subseteq> set (node_ids p)"
    and deg: "\<And>k. k \<in> set (node_ids p) \<Longrightarrow> \<exists>d. map_of deg' k = Some d \<and> (d = 0 \<longleftrightarrow> k \<in> set out)"
    and keys: "set (map fst deg') = set (node_ids p)"
    using dag_run_spec [OF assms(1,2)] by metis
  show ?thesis
  proof (cases "length out = length (p_nodes p)")
    case True
    then show ?thesis by (simp add: detect_cycle_eq run)
  next
    case False
    have "set out \<noteq> set (node_ids p)"
    proof
      assume "set out = set (node_ids p)"
      then have "card (set out) = card (set (node_ids p))" by simp
      with False out(1) card_node_ids [OF assms(3)] show False by (simp add: distinct_card)
    qed
    with out(2) obtain k where k: "k \<in> set (node_ids p)" "k \<notin> set out" by blast
    with deg obtain d where "map_of deg' k = Some (Suc d)" by (metis not0_implies_Suc)
    moreover have "k \<in> set (ord (map fst deg'))"
      using k(1) keys by (simp add: hash_orderD [OF assms(1)])
    ultimately have "find (\<lambda>k. \<exists>d. map_of deg' k = Some (Suc d)) (ord (map fst deg')) \<noteq> None"
      by (auto simp: find_None_iff)
    then show ?thesis by (simp add: detect_cycle_eq run False)
  qed
qed

lemma detect_cycle_Err:
  assumes "hash_order ord" "edges_known p" "detect_cycle ord p = Some (Err k)"
  shows "\<exists>c. (c, c) \<in> (edge_rel p)\<^sup>+ \<and> (c, k) \<in> (edge_rel p)\<^sup>*"
proof (rule dag_run_spec [OF assms(1,2)])
  fix out deg'
  assume run: "dag_run ord p = Some (out, deg')"
    and left: "\<And>k. k \<in> set (node_ids p) \<Longrightarrow> k \<notin> set out \<longleftrightarrow>
      (\<exists>c \<in> set (node_ids p). (c, c) \<in> (edge_rel p)\<^sup>+ \<and> (c, k) \<in> (edge_rel p)\<^sup>*)"
    and deg: "\<And>k. k \<in> set (node_ids p) \<Longrightarrow> \<exists>d. map_of deg' k = Some d \<and> (d = 0 \<longleftrightarrow> k \<in> set out)"
    and keys: "set (map fst deg') = set (node_ids p)"
  from assms(3) run have "find (\<lambda>k. \<exists>d. map_of deg' k = Some (Suc d)) (ord (map fst deg')) = Some k"
    by (auto simp: detect_cycle_eq split: if_splits)
  then have "\<exists>d. map_of deg' k = Some (Suc d)" and "k \<in> set (ord (map fst deg'))"
    by (auto simp: find_Some_iff)
  moreover from this(2) have k: "k \<in> set (node_ids p)"
    using keys by (simp add: hash_orderD [OF assms(1)])
  ultimately have "k \<notin> set out" using deg by fastforce
  with left [OF k] show ?thesis by blast
qed

text \<open>The loops report no cycle.\<close>

fun is_cycle_error :: "dag_error \<Rightarrow> bool" where
  "is_cycle_error (CycleDetected k) = True" | "is_cycle_error e = False"

lemma check_node_ids_kind: "e \<in> set (check_node_ids seen ns) \<Longrightarrow> \<not> is_cycle_error e"
  by (induction seen ns rule: check_node_ids.induct) (auto split: if_splits)

lemma check_edges_kind: "e \<in> set (check_edges ids seen es) \<Longrightarrow> \<not> is_cycle_error e"
  by (induction ids seen es rule: check_edges.induct) (auto split: if_splits)

lemma check_kinds_kind: "check_kinds p ns = Some es \<Longrightarrow> e \<in> set es \<Longrightarrow> \<not> is_cycle_error e"
  by (induction ns arbitrary: es)
     (auto simp: check_kind_def Let_def split: node_kind.splits option.splits if_splits)

lemma check_orphans_kind: "e \<in> set (check_orphans p) \<Longrightarrow> \<not> is_cycle_error e"
  by (auto simp: check_orphans_def split: if_splits)

lemma validate_cases:
  assumes "no_snippets p" "p_nodes p \<noteq> []"
  obtains (errors) e es where "validate ord p = Some (Err (e # es))" "\<not> well_shaped p"
      "\<not> is_cycle_error e"
  | (cycles) "well_shaped p"
      "validate ord p = (case detect_cycle ord p of None \<Rightarrow> None
         | Some (Inl k) \<Rightarrow> Some (Err [CycleDetected k]) | Some (Inr _) \<Rightarrow> Some (Ok ()))"
proof -
  from assms(1) obtain ks where ks: "check_kinds p (p_nodes p) = Some ks"
    using check_kinds_None_iff [of p "p_nodes p"] by (auto simp: no_snippets_def)
  define es where "es = check_node_ids [] (p_nodes p) @ check_edges (node_ids p) [] (p_edges p) @
      ks @ check_orphans p"
  have "ks = [] \<longleftrightarrow> (\<forall>n \<in> set (p_nodes p). kind_ok p n)"
    using check_kinds_Nil_iff [of "p_nodes p" p] assms(1) ks by (simp add: no_snippets_def)
  then have iff: "es = [] \<longleftrightarrow> well_shaped p"
    by (simp add: es_def check_node_ids_Nil_iff check_edges_Nil_iff check_orphans_Nil_iff
        edges_known_def well_shaped_def)
  have kind: "\<not> is_cycle_error e" if "e \<in> set es" for e
    using that check_node_ids_kind check_edges_kind check_kinds_kind [OF ks] check_orphans_kind
    by (auto simp: es_def)
  have v: "validate ord p = (if es = []
      then (case detect_cycle ord p of None \<Rightarrow> None
            | Some (Inl k) \<Rightarrow> Some (Err [CycleDetected k]) | Some (Inr _) \<Rightarrow> Some (Ok ()))
      else Some (Err es))"
    using assms(2) by (simp add: validate_def ks Let_def es_def)
  show thesis
  proof (cases es)
    case Nil
    with v iff show ?thesis by (intro cycles) simp_all
  next
    case (Cons e es')
    with v iff kind show ?thesis by (intro errors [of e es']) simp_all
  qed
qed

lemma validate_accepts:
  assumes "hash_order ord" "no_snippets p"
  shows "validate ord p = Some (Ok ()) \<longleftrightarrow> valid_dag p"
proof (cases "p_nodes p = []")
  case True
  then show ?thesis by (simp add: validate_def valid_dag_def)
next
  case False
  from assms(2) False show ?thesis
  proof (cases rule: validate_cases [where ord = ord])
    case errors
    then show ?thesis by (simp add: valid_dag_def)
  next
    case cycles
    then have "detect_cycle ord p = Some (Ok ()) \<longleftrightarrow> acyclic (edge_rel p)"
      by (intro detect_cycle_Ok_iff assms) (simp_all add: well_shaped_def)
    with cycles False show ?thesis by (auto simp: valid_dag_def split: option.splits sum.splits)
  qed
qed

text \<open>
  C1: the validator accepts exactly the pipelines that are well formed: at least one node,
  distinct ids, known and distinct edges, the upstream and downstream shape of each node kind, no
  orphan, and no cycle.  The iteration order of the in-degree map does not matter.
\<close>

theorem validate_accepts_iff:
  assumes "hash_order ord" "no_snippets p"
  shows "validate ord p = Some (Ok ()) \<longleftrightarrow> valid_dag p"
  by (rule validate_accepts [OF assms])

definition sample_dag :: pipeline where
  "sample_dag = plain_pipeline ''orders''
     [source_node ''s'', transform_node ''t'' ''select 1'', sink_node ''k'']
     [Edge ''s'' ''t'', Edge ''t'' ''k'']"

lemmas dag_eval = sample_defs validate_def check_kind_def has_upstream_def has_downstream_def
  check_orphans_def detect_cycle_def build_adjacency_def zero_entry_def bump_entry_def
  kids_def zero_degree_def group_by_def push_entry_def no_snippets_def

lemma sample_dag_validate: "validate rev sample_dag = Some (Ok ())"
  by (simp add: sample_dag_def dag_eval)

theorem validate_accepts_iff_witness: "valid_dag sample_dag"
proof (rule iffD1 [OF validate_accepts_iff [of rev]])
  show "no_snippets sample_dag" by (simp add: sample_dag_def dag_eval)
qed (simp_all add: sample_dag_validate)

lemma validate_returns:
  assumes "hash_order ord" "no_snippets p"
  shows "validate ord p \<noteq> None"
proof (cases "p_nodes p = []")
  case True
  then show ?thesis by (simp add: validate_def)
next
  case False
  from assms(2) False show ?thesis
  proof (cases rule: validate_cases [where ord = ord])
    case cycles
    then have "detect_cycle ord p \<noteq> None"
      by (intro detect_cycle_total assms) (simp_all add: well_shaped_def)
    with cycles show ?thesis by (auto split: sum.splits)
  qed simp
qed

text \<open>
  Validation always returns a verdict on a pipeline without snippets: the degree counters never
  underflow and a cycle always leaves a node to report.
\<close>

theorem validate_total:
  assumes "hash_order ord" "no_snippets p"
  shows "validate ord p \<noteq> None"
  by (rule validate_returns [OF assms])

definition cyclic_dag :: pipeline where
  "cyclic_dag = plain_pipeline ''loop''
     [transform_node ''a'' ''select 1'', transform_node ''b'' ''select 1'', sink_node ''k'']
     [Edge ''a'' ''b'', Edge ''b'' ''a'', Edge ''b'' ''k'']"

theorem validate_total_witness: "validate rev cyclic_dag \<noteq> None"
proof (rule validate_total)
  show "no_snippets cyclic_dag" by (simp add: cyclic_dag_def dag_eval)
qed simp

lemma topological_sort_valid:
  assumes "hash_order ord" "valid_dag p"
  shows "\<exists>out. topological_sort ord p = Some out \<and> mset out = mset (node_ids p) \<and>
    (\<forall>e \<in> set (p_edges p). \<exists>xs ys zs. out = xs @ e_from e # ys @ e_to e # zs)"
proof -
  from assms(2) have known: "edges_known p" and dist: "distinct (node_ids p)"
    and acyc: "acyclic (edge_rel p)" by (simp_all add: valid_dag_def well_shaped_def)
  obtain out deg' where run: "dag_run ord p = Some (out, deg')" and out: "distinct out"
    "set out \<subseteq> set (node_ids p)" and topo: "topo_ordered (edge_rel p) out"
    and len: "length out = length (p_nodes p)"
    using dag_run_spec [OF assms(1) known] dist acyc by metis
  have "set out = set (node_ids p)"
    using out len dist by (metis List.finite_set card_subset_eq card_node_ids distinct_card)
  then have "mset out = mset (node_ids p)" using out(1) dist by (simp add: set_eq_iff_mset_eq_distinct [symmetric] del: mset_map)
  moreover have "\<exists>xs ys zs. out = xs @ e_from e # ys @ e_to e # zs" if "e \<in> set (p_edges p)" for e
  proof (rule topo_ordered_before [OF topo])
    show "(e_from e, e_to e) \<in> edge_rel p" using that by (auto simp: edge_rel_def)
    show "e_to e \<in> set out" using that known \<open>set out = _\<close> by (auto simp: edges_known_def)
  qed
  ultimately show ?thesis using len by (auto simp: topological_sort_eq run)
qed

text \<open>
  C2: a topological sort of a valid pipeline returns every node once, each edge's source before
  its target.
\<close>

theorem topological_sort_correct:
  assumes "hash_order ord" "valid_dag p"
  shows "\<exists>out. topological_sort ord p = Some out \<and> mset out = mset (node_ids p) \<and>
    (\<forall>e \<in> set (p_edges p). \<exists>xs ys zs. out = xs @ e_from e # ys @ e_to e # zs)"
  by (rule topological_sort_valid [OF assms])

theorem topological_sort_correct_witness:
  "\<exists>out. topological_sort rev sample_dag = Some out \<and> mset out = mset (node_ids sample_dag)"
proof -
  have "valid_dag sample_dag"
    by (simp add: sample_dag_def sample_defs valid_dag_def well_shaped_def edges_known_def kind_ok_def
        has_upstream_def has_downstream_def edge_rel_def acyclic_insert wf_acyclic)
       (auto dest: rtranclD tranclD)
  from topological_sort_correct [OF hash_order_rev this] show ?thesis by blast
qed

text \<open>
  The node a \<open>CycleDetected\<close> error names is on a cycle or downstream of one.
\<close>

theorem validate_cycle_report:
  assumes "hash_order ord" "no_snippets p" "validate ord p = Some (Err [CycleDetected k])"
  shows "\<exists>c. (c, c) \<in> (edge_rel p)\<^sup>+ \<and> (c, k) \<in> (edge_rel p)\<^sup>*"
proof -
  from assms(3) have "p_nodes p \<noteq> []" by (auto simp: validate_def)
  with assms(2) show ?thesis
  proof (cases rule: validate_cases [where ord = ord])
    case errors
    with assms(3) show ?thesis by simp
  next
    case cycles
    then have known: "edges_known p" by (simp add: well_shaped_def)
    from cycles assms(3) have det: "detect_cycle ord p = Some (Err k)"
      by (auto split: option.splits sum.splits)
    show ?thesis by (rule detect_cycle_Err [OF assms(1) known det])
  qed
qed

lemma cyclic_dag_validate: "validate rev cyclic_dag = Some (Err [CycleDetected ''k''])"
  by (simp add: cyclic_dag_def dag_eval)

theorem validate_cycle_report_witness:
  "\<exists>c. (c, c) \<in> (edge_rel cyclic_dag)\<^sup>+ \<and> (c, ''k'') \<in> (edge_rel cyclic_dag)\<^sup>*"
proof (rule validate_cycle_report [OF hash_order_rev _ cyclic_dag_validate])
  show "no_snippets cyclic_dag" by (simp add: cyclic_dag_def dag_eval)
qed

text \<open>The reported node need not be on a cycle: here it is a sink below one.\<close>

lemma cycle_report_off_cycle:
  "validate rev cyclic_dag = Some (Err [CycleDetected ''k'']) \<and>
   (''k'', ''k'') \<notin> (edge_rel cyclic_dag)\<^sup>+"
proof -
  have "(''k'', x) \<notin> edge_rel cyclic_dag" for x
    by (simp add: edge_rel_def cyclic_dag_def plain_pipeline_def)
  then show ?thesis using cyclic_dag_validate by (blast dest: tranclD)
qed

text \<open>\<open>all_downstream_of\<close> is the transitive closure of the edges, each node once.\<close>

theorem all_downstream_of_correct:
  assumes "hash_order ord"
  shows "set (all_downstream_of ord p i) = {k. (i, k) \<in> (edge_rel p)\<^sup>+} \<and>
    distinct (all_downstream_of ord p i)"
proof -
  have "edge_rel p = set (edge_pairs p)" by (simp add: edge_rel_def edge_pairs_def)
  then show ?thesis
    by (auto simp: all_downstream_of_def hash_orderD [OF assms] set_closure_from distinct_closure_from)
qed

theorem all_downstream_of_correct_witness:
  "''k'' \<in> set (all_downstream_of rev sample_dag ''s'')"
proof -
  have "(''s'', ''t'') \<in> edge_rel sample_dag" "(''t'', ''k'') \<in> edge_rel sample_dag"
    by (simp_all add: edge_rel_def sample_dag_def plain_pipeline_def)
  then have "(''s'', ''k'') \<in> (edge_rel sample_dag)\<^sup>+" by (rule trancl.intros(2) [OF r_into_trancl'])
  with all_downstream_of_correct [OF hash_order_rev, of sample_dag "''s''"] show ?thesis by simp
qed

end
