(* ===== verification/Lineage.thy ===== *)
theory Lineage
  imports Dag
begin

text \<open>
  \<open>lineage.rs\<close>: dependencies between pipelines.  A sink and a source of the same resource
  fingerprint make an edge; the graph is searched for cycles, sorted, and queried.  The
  fingerprint function is the caller's (\<open>fp\<close>).  \<open>ho\<close> gives the iteration orders of the hash
  maps and sets: \<open>ho None\<close> for those keyed by all pipelines, \<open>ho (Some u)\<close> for the set of
  targets of \<open>u\<close>.
\<close>

type_synonym pipeline_id = string
type_synonym fingerprint = string

datatype binding_direction = BdSource | BdSink

record resource_binding =
  rb_pipeline :: pipeline_id
  rb_node :: string
  rb_direction :: binding_direction
  rb_fingerprint :: fingerprint

datatype edge_source = EsStatic | EsObserved

record lineage_edge =
  le_up_pipeline :: pipeline_id
  le_up_node :: string
  le_down_pipeline :: pipeline_id
  le_down_node :: string
  le_fingerprint :: fingerprint
  le_source :: edge_source

record lineage_graph =
  lg_edges :: "lineage_edge list"
  lg_bindings :: "resource_binding list"

type_synonym fingerprint_fn = "string \<Rightarrow> json \<Rightarrow> fingerprint option"

subsection \<open>Building the graph\<close>

definition node_binding :: "fingerprint_fn \<Rightarrow> pipeline_id \<Rightarrow> node \<Rightarrow> resource_binding list" where
  "node_binding fp pid n = (case n_kind n of
      Source src \<Rightarrow> (case fp (src_connector src) (src_config src) of
          Some f \<Rightarrow> [\<lparr>rb_pipeline = pid, rb_node = n_id n, rb_direction = BdSource, rb_fingerprint = f\<rparr>]
        | None \<Rightarrow> [])
    | Sink snk \<Rightarrow> (case fp (snk_connector snk) (snk_config snk) of
          Some f \<Rightarrow> [\<lparr>rb_pipeline = pid, rb_node = n_id n, rb_direction = BdSink, rb_fingerprint = f\<rparr>]
        | None \<Rightarrow> [])
    | Transform _ \<Rightarrow> []
    | Test _ \<Rightarrow> []
    | Snippet _ \<Rightarrow> [])"

definition collect_bindings ::
  "fingerprint_fn \<Rightarrow> (pipeline_id \<times> pipeline) list \<Rightarrow> resource_binding list" where
  "collect_bindings fp ps = concat (map (\<lambda>(pid, p). concat (map (node_binding fp pid) (p_nodes p))) ps)"

definition static_edge :: "resource_binding \<Rightarrow> resource_binding \<Rightarrow> lineage_edge" where
  "static_edge snk src = \<lparr>le_up_pipeline = rb_pipeline snk, le_up_node = rb_node snk,
     le_down_pipeline = rb_pipeline src, le_down_node = rb_node src,
     le_fingerprint = rb_fingerprint src, le_source = EsStatic\<rparr>"

definition same_node :: "resource_binding \<Rightarrow> resource_binding \<Rightarrow> bool" where
  "same_node a b = (rb_pipeline a = rb_pipeline b \<and> rb_node a = rb_node b)"

definition derive_static_edges :: "resource_binding list \<Rightarrow> lineage_edge list" where
  "derive_static_edges bs =
     (let sinks_by_fp = group_by rb_fingerprint id (filter (\<lambda>b. rb_direction b = BdSink) bs)
      in concat (map (\<lambda>b.
           if rb_direction b \<noteq> BdSource then []
           else (case map_of sinks_by_fp (rb_fingerprint b) of
                   None \<Rightarrow> []
                 | Some sinks \<Rightarrow>
                     map (\<lambda>s. static_edge s b) (filter (\<lambda>s. \<not> same_node s b) sinks))) bs))"

definition from_pipelines :: "fingerprint_fn \<Rightarrow> (pipeline_id \<times> pipeline) list \<Rightarrow> lineage_graph" where
  "from_pipelines fp ps =
     (let bindings = collect_bindings fp ps
      in \<lparr>lg_edges = derive_static_edges bindings, lg_bindings = bindings\<rparr>)"

definition edge_key :: "lineage_edge \<Rightarrow> string \<times> string \<times> string \<times> string" where
  "edge_key e = (le_up_pipeline e, le_up_node e, le_down_pipeline e, le_down_node e)"

definition add_observed_edges :: "lineage_edge list \<Rightarrow> lineage_graph \<Rightarrow> lineage_graph" where
  "add_observed_edges es g =
     (let existing = set (map edge_key (lg_edges g))
      in g\<lparr>lg_edges := lg_edges g @ filter (\<lambda>e. edge_key e \<notin> existing) es\<rparr>)"

subsection \<open>Queries\<close>

definition lineage_upstream_of :: "lineage_graph \<Rightarrow> pipeline_id \<Rightarrow> lineage_edge list" where
  "lineage_upstream_of g i = filter (\<lambda>e. le_down_pipeline e = i) (lg_edges g)"

definition lineage_downstream_of :: "lineage_graph \<Rightarrow> pipeline_id \<Rightarrow> lineage_edge list" where
  "lineage_downstream_of g i = filter (\<lambda>e. le_up_pipeline e = i) (lg_edges g)"

definition lineage_ids :: "lineage_graph \<Rightarrow> pipeline_id list" where
  "lineage_ids g =
     fold (\<lambda>e ids. List.insert (le_down_pipeline e) (List.insert (le_up_pipeline e) ids)) (lg_edges g) []"

definition all_upstream :: "lineage_graph \<Rightarrow> pipeline_id \<Rightarrow> pipeline_id list" where
  "all_upstream g i = closure_from (map (\<lambda>e. (le_down_pipeline e, le_up_pipeline e)) (lg_edges g)) i"

definition all_downstream :: "lineage_graph \<Rightarrow> pipeline_id \<Rightarrow> pipeline_id list" where
  "all_downstream g i = closure_from (map (\<lambda>e. (le_up_pipeline e, le_down_pipeline e)) (lg_edges g)) i"

definition dangling_sources :: "lineage_graph \<Rightarrow> resource_binding list" where
  "dangling_sources g =
     (let produced = rb_fingerprint ` {b \<in> set (lg_bindings g). rb_direction b = BdSink}
      in filter (\<lambda>b. rb_direction b = BdSource \<and> rb_fingerprint b \<notin> produced) (lg_bindings g))"

definition orphaned_sinks :: "lineage_graph \<Rightarrow> resource_binding list" where
  "orphaned_sinks g =
     (let consumed = rb_fingerprint ` {b \<in> set (lg_bindings g). rb_direction b = BdSource}
      in filter (\<lambda>b. rb_direction b = BdSink \<and> rb_fingerprint b \<notin> consumed) (lg_bindings g))"

subsection \<open>Cycles and order\<close>

type_synonym id_orders = "pipeline_id option \<Rightarrow> pipeline_id list \<Rightarrow> pipeline_id list"

definition add_target :: "'k \<Rightarrow> 'k \<Rightarrow> ('k \<times> 'k list) list \<Rightarrow> ('k \<times> 'k list) list" where
  "add_target u v adj = AList.update u (List.insert v (kids adj u)) adj"

definition lineage_adj :: "lineage_graph \<Rightarrow> (pipeline_id \<times> pipeline_id list) list" where
  "lineage_adj g = fold (\<lambda>e. add_target (le_up_pipeline e) (le_down_pipeline e)) (lg_edges g) []"

text \<open>The targets of \<open>u\<close> in the order the loops meet them.\<close>

definition lineage_kids :: "id_orders \<Rightarrow> lineage_graph \<Rightarrow> pipeline_id \<Rightarrow> pipeline_id list" where
  "lineage_kids ho g u = ho (Some u) (kids (lineage_adj g) u)"

definition lineage_deg :: "id_orders \<Rightarrow> lineage_graph \<Rightarrow> (pipeline_id \<times> nat) list" where
  "lineage_deg ho g =
     fold bump_entry (concat (map (lineage_kids ho g) (ho None (map fst (lineage_adj g)))))
       (fold zero_entry (ho None (lineage_ids g)) [])"

definition lineage_loop ::
  "id_orders \<Rightarrow> lineage_graph \<Rightarrow> (pipeline_id list \<times> (pipeline_id \<times> nat) list) option" where
  "lineage_loop ho g =
     kahn_loop (lineage_kids ho g) (lineage_deg ho g) (zero_degree (ho None) (lineage_deg ho g)) []"

text \<open>
  One component: the queue is a suffix of the visited list, so its nodes are popped in the
  order they were visited.
\<close>

definition cycle_component ::
  "(pipeline_id \<times> pipeline_id) list \<Rightarrow> pipeline_id \<Rightarrow> pipeline_id list \<Rightarrow> pipeline_id list" where
  "cycle_component es start visited = bfs es [start] (visited @ [start])"

fun cycle_components ::
  "(pipeline_id \<times> pipeline_id) list \<Rightarrow> pipeline_id list \<Rightarrow> pipeline_id list \<Rightarrow> pipeline_id list list" where
  "cycle_components es [] visited = []"
| "cycle_components es (start # rest) visited =
     (if start \<in> set visited then cycle_components es rest visited
      else let visited' = cycle_component es start visited
           in drop (length visited) visited' # cycle_components es rest visited')"

definition detect_cycles :: "id_orders \<Rightarrow> lineage_graph \<Rightarrow> pipeline_id list list option" where
  "detect_cycles ho g =
     (case lineage_loop ho g of
        None \<Rightarrow> None
      | Some (removed, _) \<Rightarrow>
          let cycle_nodes = filter (\<lambda>i. i \<notin> set removed) (lineage_ids g);
              es = concat (map (\<lambda>u. map (Pair u) (filter (\<lambda>t. t \<in> set cycle_nodes) (lineage_kids ho g u)))
                     cycle_nodes)
          in Some (cycle_components es (ho None cycle_nodes) []))"

definition lineage_topological_sort ::
  "id_orders \<Rightarrow> lineage_graph \<Rightarrow> (pipeline_id list + pipeline_id list) option" where
  "lineage_topological_sort ho g =
     (case lineage_loop ho g of
        None \<Rightarrow> None
      | Some (order, deg) \<Rightarrow>
          if length order = length (lineage_ids g) then Some (Ok order)
          else Some (Err (filter (\<lambda>i. \<exists>d. map_of deg i = Some (Suc d)) (ho None (map fst deg)))))"

subsection \<open>Edges are matches\<close>

definition produces :: "resource_binding list \<Rightarrow> resource_binding \<Rightarrow> resource_binding \<Rightarrow> bool" where
  "produces bs snk src \<longleftrightarrow> snk \<in> set bs \<and> src \<in> set bs \<and> rb_direction snk = BdSink \<and>
     rb_direction src = BdSource \<and> rb_fingerprint snk = rb_fingerprint src \<and> \<not> same_node snk src"

lemma set_derive_static_edges:
  "set (derive_static_edges bs) = {static_edge snk src | snk src. produces bs snk src}"
  by (auto simp: derive_static_edges_def Let_def map_of_group_by produces_def
      split: if_splits option.splits) force+

text \<open>The dependency relation between pipelines.\<close>

definition pipeline_rel :: "lineage_graph \<Rightarrow> (pipeline_id \<times> pipeline_id) set" where
  "pipeline_rel g = (\<lambda>e. (le_up_pipeline e, le_down_pipeline e)) ` set (lg_edges g)"

lemma lineage_ids_fold:
  "set (fold (\<lambda>e ids. List.insert (le_down_pipeline e) (List.insert (le_up_pipeline e) ids)) es ids) =
     set ids \<union> le_up_pipeline ` set es \<union> le_down_pipeline ` set es"
  "distinct ids \<Longrightarrow>
   distinct (fold (\<lambda>e ids. List.insert (le_down_pipeline e) (List.insert (le_up_pipeline e) ids)) es ids)"
  by (induction es arbitrary: ids) auto

lemma set_lineage_ids: "set (lineage_ids g) = Field (pipeline_rel g)"
  by (auto simp: lineage_ids_def lineage_ids_fold pipeline_rel_def Field_def)

lemma distinct_lineage_ids: "distinct (lineage_ids g)"
  by (simp add: lineage_ids_def lineage_ids_fold)

lemma kids_Nil [simp]: "kids [] u = []"
  by (simp add: kids_def)

lemma kids_add_target: "kids (add_target u v adj) w = (if w = u then List.insert v (kids adj u) else kids adj w)"
  by (auto simp: add_target_def kids_def update_conv' split: option.splits)

lemma keys_add_target: "fst ` set (add_target u v adj) = insert u (fst ` set adj)"
  unfolding add_target_def dom_map_of_conv_image_fst [symmetric]
  by (auto simp: dom_def update_conv' split: if_splits)

lemma lineage_adj_fold:
  "set (kids (fold (\<lambda>e. add_target (le_up_pipeline e) (le_down_pipeline e)) es adj) u) =
     set (kids adj u) \<union> le_down_pipeline ` {e \<in> set es. le_up_pipeline e = u}"
  "distinct (kids adj u) \<Longrightarrow>
   distinct (kids (fold (\<lambda>e. add_target (le_up_pipeline e) (le_down_pipeline e)) es adj) u)"
  "distinct (map fst adj) \<Longrightarrow>
   distinct (map fst (fold (\<lambda>e. add_target (le_up_pipeline e) (le_down_pipeline e)) es adj))"
  "fst ` set (fold (\<lambda>e. add_target (le_up_pipeline e) (le_down_pipeline e)) es adj) =
     fst ` set adj \<union> le_up_pipeline ` set es"
proof (induction es arbitrary: adj)
  case Nil
  {case 1 show ?case by simp}
  {case 2 then show ?case by simp}
  {case 3 then show ?case by simp}
  {case 4 show ?case by simp}
next
  case (Cons e es)
  {case 1 show ?case by (auto simp: Cons.IH kids_add_target)}
  {case 2 then show ?case by (auto simp: kids_add_target intro!: Cons.IH)}
  {case 3
    then have "distinct (map fst (add_target (le_up_pipeline e) (le_down_pipeline e) adj))"
      by (simp add: add_target_def distinct_update)
    from Cons.IH(3) [OF this] show ?case by simp}
  {case 4 show ?case by (auto simp: Cons.IH keys_add_target)}
qed

lemma set_lineage_targets: "set (kids (lineage_adj g) u) = pipeline_rel g `` {u}"
  by (auto simp: lineage_adj_def lineage_adj_fold pipeline_rel_def)

lemma distinct_lineage_targets: "distinct (kids (lineage_adj g) u)"
  unfolding lineage_adj_def by (rule lineage_adj_fold(2)) (simp add: kids_def)


subsection \<open>The loop's interface\<close>

definition id_orders_ok :: "id_orders \<Rightarrow> bool" where
  "id_orders_ok ho \<longleftrightarrow> (\<forall>k. hash_order (ho k))"

lemma id_ordersD:
  assumes "id_orders_ok ho"
  shows "set (ho k xs) = set xs" "distinct (ho k xs) = distinct xs" "length (ho k xs) = length xs"
  using assms hash_orderD [of "ho k" xs] by (simp_all add: id_orders_ok_def)

lemma lineage_kids_props:
  assumes "id_orders_ok ho"
  shows "set (lineage_kids ho g u) = pipeline_rel g `` {u}" "distinct (lineage_kids ho g u)"
  by (simp_all add: lineage_kids_def id_ordersD [OF assms] set_lineage_targets distinct_lineage_targets)

lemma count_list_concat: "count_list (concat xss) k = (\<Sum>xs\<leftarrow>xss. count_list xs k)"
  by (induction xss) auto

lemma bump_fold_id:
  "map_of m k = Some d \<Longrightarrow> map_of (fold bump_entry ks m) k = Some (d + count_list ks k)"
  using map_of_bump_fold [of m k d "\<lambda>x. x" ks] by simp

lemma zero_fold_id:
  "map_of (fold zero_entry ks m) k = (if k \<in> set ks \<and> map_of m k = None then Some 0 else map_of m k)"
  using map_of_zero_fold [of "\<lambda>x. x" ks m k] by simp

lemma lineage_sources: "fst ` set (lineage_adj g) = Domain (pipeline_rel g)"
proof -
  have "fst ` set (lineage_adj g) = le_up_pipeline ` set (lg_edges g)"
    by (simp add: lineage_adj_def lineage_adj_fold)
  also have "\<dots> = fst ` pipeline_rel g"
    unfolding pipeline_rel_def image_image fst_conv ..
  finally show ?thesis unfolding Domain_fst .
qed

lemma distinct_lineage_adj: "distinct (map fst (lineage_adj g))"
  by (simp add: lineage_adj_def lineage_adj_fold)

lemma lineage_deg_count:
  assumes ho: "id_orders_ok ho" and k: "k \<in> set (lineage_ids g)"
  shows "map_of (lineage_deg ho g) k = Some (\<Sum>n\<in>set (lineage_ids g). count_list (lineage_kids ho g n) k)"
proof -
  let ?us = "ho None (map fst (lineage_adj g))"
  have us: "set ?us = Domain (pipeline_rel g)" "distinct ?us"
    by (simp_all add: id_ordersD [OF ho] lineage_sources distinct_lineage_adj)
  have "map_of (fold zero_entry (ho None (lineage_ids g)) []) k = Some 0"
    using k by (simp add: zero_fold_id id_ordersD [OF ho])
  then have "map_of (lineage_deg ho g) k =
      Some (0 + count_list (concat (map (lineage_kids ho g) ?us)) k)"
    unfolding lineage_deg_def by (rule bump_fold_id)
  also have "count_list (concat (map (lineage_kids ho g) ?us)) k =
      (\<Sum>n\<in>Domain (pipeline_rel g). count_list (lineage_kids ho g n) k)"
    by (simp add: count_list_concat comp_def sum_list_distinct_conv_sum_set [OF us(2)] us(1))
  also have "\<dots> = (\<Sum>n\<in>set (lineage_ids g). count_list (lineage_kids ho g n) k)"
  proof (rule sum.mono_neutral_left)
    show "Domain (pipeline_rel g) \<subseteq> set (lineage_ids g)" by (auto simp: set_lineage_ids Field_def)
    show "\<forall>n \<in> set (lineage_ids g) - Domain (pipeline_rel g). count_list (lineage_kids ho g n) k = 0"
      by (auto simp: count_list_0_iff lineage_kids_props [OF ho])
  qed simp
  finally show ?thesis by simp
qed

lemma lineage_deg_keys:
  assumes ho: "id_orders_ok ho"
  shows "set (map fst (lineage_deg ho g)) = set (lineage_ids g)" "distinct (map fst (lineage_deg ho g))"
proof -
  let ?z = "fold zero_entry (ho None (lineage_ids g)) []"
  let ?ks = "concat (map (lineage_kids ho g) (ho None (map fst (lineage_adj g))))"
  have z: "dom (map_of ?z) = set (lineage_ids g)"
    by (auto simp: dom_def zero_fold_id id_ordersD [OF ho] split: if_splits)
  have "set ?ks \<subseteq> set (lineage_ids g)"
    by (auto simp: id_ordersD [OF ho] lineage_kids_props [OF ho] set_lineage_ids Field_def)
  moreover have "dom (map_of (lineage_deg ho g)) = dom (map_of ?z) \<union> set ?ks"
    using dom_bump_fold [of "\<lambda>x. x" ?ks ?z] by (simp add: lineage_deg_def)
  ultimately show "set (map fst (lineage_deg ho g)) = set (lineage_ids g)"
    using z by (auto simp: dom_map_of_conv_image_fst)
  have "distinct (map fst ?z)"
    using distinct_zero_fold [of "[]" "\<lambda>x. x" "ho None (lineage_ids g)"] by simp
  from distinct_bump_fold [OF this, of "\<lambda>x. x" ?ks]
  show "distinct (map fst (lineage_deg ho g))" by (simp add: lineage_deg_def)
qed

interpretation lin: kahn_graph "\<lambda>g. id_orders_ok (fst g)" "\<lambda>g. set (lineage_ids (snd g))"
  "\<lambda>g. lineage_kids (fst g) (snd g)" "\<lambda>g. lineage_deg (fst g) (snd g)"
  "\<lambda>g. zero_degree (fst g None) (lineage_deg (fst g) (snd g))"
proof unfold_locales
  fix x :: "id_orders \<times> lineage_graph"
  assume ho: "id_orders_ok (fst x)"
  show "set (lineage_kids (fst x) (snd x) n) \<subseteq> set (lineage_ids (snd x))" for n
    by (auto simp: lineage_kids_props [OF ho] set_lineage_ids Field_def)
  show "map_of (lineage_deg (fst x) (snd x)) k =
      Some (\<Sum>n\<in>set (lineage_ids (snd x)). count_list (lineage_kids (fst x) (snd x) n) k)"
    if "k \<in> set (lineage_ids (snd x))" for k
    by (rule lineage_deg_count [OF ho that])
  show "distinct (zero_degree (fst x None) (lineage_deg (fst x) (snd x))) \<and>
      set (zero_degree (fst x None) (lineage_deg (fst x) (snd x))) =
      {k \<in> set (lineage_ids (snd x)). map_of (lineage_deg (fst x) (snd x)) k = Some 0}"
    using lineage_deg_keys [OF ho, of "snd x"]
    by (auto simp: zero_degree_def id_ordersD [OF ho])
qed simp

lemma lineage_kahn_edges:
  assumes "id_orders_ok ho"
  shows "kahn_edges (set (lineage_ids g)) (lineage_kids ho g) = pipeline_rel g"
  by (auto simp: kahn_edges_def lineage_kids_props [OF assms] set_lineage_ids Field_def)

lemma lineage_loop_spec:
  assumes ho: "id_orders_ok ho"
  obtains out deg where "lineage_loop ho g = Some (out, deg)" "distinct out"
    "set out \<subseteq> set (lineage_ids g)" "topo_ordered (pipeline_rel g) out"
    "length out = length (lineage_ids g) \<longleftrightarrow> acyclic (pipeline_rel g)"
    "\<And>k. k \<in> set (lineage_ids g) \<Longrightarrow> k \<notin> set out \<longleftrightarrow>
       (\<exists>c \<in> set (lineage_ids g). (c, c) \<in> (pipeline_rel g)\<^sup>+ \<and> (c, k) \<in> (pipeline_rel g)\<^sup>*)"
    "\<And>k. k \<in> set (lineage_ids g) \<Longrightarrow> \<exists>d. map_of deg k = Some d \<and> (d = 0 \<longleftrightarrow> k \<in> set out)"
    "set (map fst deg) = set (lineage_ids g)" "distinct (map fst deg)"
proof -
  let ?g = "(ho, g)"
  have g: "id_orders_ok (fst ?g)" using ho by simp
  obtain out deg where run: "lineage_loop ho g = Some (out, deg)"
    using lin.total [of ?g] ho by (auto simp: lineage_loop_def)
  then have run': "kahn_loop (lineage_kids (fst ?g) (snd ?g)) (lineage_deg (fst ?g) (snd ?g))
      (zero_degree (fst ?g None) (lineage_deg (fst ?g) (snd ?g))) [] = Some (out, deg)"
    by (simp add: lineage_loop_def)
  note E = lineage_kahn_edges [OF ho]
  note facts = lin.result_distinct [OF g run'] lin.result_subset [OF g run', unfolded snd_conv]
    lin.result_ordered [OF g run', unfolded fst_conv snd_conv E]
    lin.result_complete [OF g run', unfolded fst_conv snd_conv E]
    lin.result_left [OF g run', unfolded fst_conv snd_conv E]
  have keys: "map fst deg = map fst (lineage_deg ho g)"
    using kahn_loop_keys [OF run'] by simp
  have card: "card (set (lineage_ids g)) = length (lineage_ids g)"
    by (rule distinct_card [OF distinct_lineage_ids])
  show thesis
  proof (rule that [OF run])
    show "\<exists>d. map_of deg k = Some d \<and> (d = 0 \<longleftrightarrow> k \<in> set out)" if "k \<in> set (lineage_ids g)" for k
      using that by (rule_tac lin.result_deg [OF g run']) auto
    show "set (map fst deg) = set (lineage_ids g)" "distinct (map fst deg)"
      unfolding keys using lineage_deg_keys [OF ho] by blast+
  qed (use facts card in auto)
qed


subsection \<open>Correctness\<close>

definition node_resource :: "fingerprint_fn \<Rightarrow> node \<Rightarrow> (binding_direction \<times> fingerprint) option" where
  "node_resource fp n = (case n_kind n of
      Source src \<Rightarrow> map_option (Pair BdSource) (fp (src_connector src) (src_config src))
    | Sink snk \<Rightarrow> map_option (Pair BdSink) (fp (snk_connector snk) (snk_config snk))
    | _ \<Rightarrow> None)"

lemma set_node_binding:
  "b \<in> set (node_binding fp pid n) \<longleftrightarrow> rb_pipeline b = pid \<and> rb_node b = n_id n \<and>
     node_resource fp n = Some (rb_direction b, rb_fingerprint b)"
  by (cases b) (auto simp: node_binding_def node_resource_def split: node_kind.splits option.splits)

lemma set_collect_bindings:
  "b \<in> set (collect_bindings fp ps) \<longleftrightarrow>
     (\<exists>P n. (rb_pipeline b, P) \<in> set ps \<and> n \<in> set (p_nodes P) \<and> rb_node b = n_id n \<and>
       node_resource fp n = Some (rb_direction b, rb_fingerprint b))"
  by (force simp: collect_bindings_def set_node_binding)

text \<open>
  C10: the static edges are exactly the pairs of a sink node and a source node, in any two of the
  pipelines, whose connectors have the same fingerprint, a node paired with itself apart.
\<close>

theorem from_pipelines_edges:
  "e \<in> set (lg_edges (from_pipelines fp ps)) \<longleftrightarrow>
     (\<exists>pu P n pd Q m f. (pu, P) \<in> set ps \<and> n \<in> set (p_nodes P) \<and> node_resource fp n = Some (BdSink, f) \<and>
        (pd, Q) \<in> set ps \<and> m \<in> set (p_nodes Q) \<and> node_resource fp m = Some (BdSource, f) \<and>
        (pu, n_id n) \<noteq> (pd, n_id m) \<and>
        e = \<lparr>le_up_pipeline = pu, le_up_node = n_id n, le_down_pipeline = pd, le_down_node = n_id m,
             le_fingerprint = f, le_source = EsStatic\<rparr>)"
    (is "?L \<longleftrightarrow> ?R")
proof
  assume ?L
  then obtain snk src where p: "produces (collect_bindings fp ps) snk src" and e: "e = static_edge snk src"
    by (auto simp: from_pipelines_def Let_def set_derive_static_edges)
  from p obtain P n where "(rb_pipeline snk, P) \<in> set ps" "n \<in> set (p_nodes P)" "rb_node snk = n_id n"
    "node_resource fp n = Some (BdSink, rb_fingerprint src)"
    by (auto simp: produces_def set_collect_bindings)
  moreover from p obtain Q m where "(rb_pipeline src, Q) \<in> set ps" "m \<in> set (p_nodes Q)"
    "rb_node src = n_id m" "node_resource fp m = Some (BdSource, rb_fingerprint src)"
    by (auto simp: produces_def set_collect_bindings)
  moreover have "(rb_pipeline snk, rb_node snk) \<noteq> (rb_pipeline src, rb_node src)"
    using p by (auto simp: produces_def same_node_def)
  ultimately show ?R unfolding e static_edge_def by metis
next
  assume ?R
  then obtain pu P n pd Q m f where R: "(pu, P) \<in> set ps" "n \<in> set (p_nodes P)"
    "node_resource fp n = Some (BdSink, f)" "(pd, Q) \<in> set ps" "m \<in> set (p_nodes Q)"
    "node_resource fp m = Some (BdSource, f)" "(pu, n_id n) \<noteq> (pd, n_id m)"
    and e: "e = \<lparr>le_up_pipeline = pu, le_up_node = n_id n, le_down_pipeline = pd,
      le_down_node = n_id m, le_fingerprint = f, le_source = EsStatic\<rparr>" by blast
  let ?snk = "\<lparr>rb_pipeline = pu, rb_node = n_id n, rb_direction = BdSink, rb_fingerprint = f\<rparr>"
  let ?src = "\<lparr>rb_pipeline = pd, rb_node = n_id m, rb_direction = BdSource, rb_fingerprint = f\<rparr>"
  have "?snk \<in> set (collect_bindings fp ps)" "?src \<in> set (collect_bindings fp ps)"
    using R by (auto simp: set_collect_bindings)
  then have "produces (collect_bindings fp ps) ?snk ?src"
    using R(7) by (simp add: produces_def same_node_def)
  moreover have "e = static_edge ?snk ?src" by (simp add: e static_edge_def)
  ultimately show ?L by (force simp: from_pipelines_def Let_def set_derive_static_edges)
qed

text \<open>The pipelines on a cycle or downstream of one.\<close>

definition stuck :: "lineage_graph \<Rightarrow> pipeline_id set" where
  "stuck g = {k. \<exists>c. (c, c) \<in> (pipeline_rel g)\<^sup>+ \<and> (c, k) \<in> (pipeline_rel g)\<^sup>*}"

lemma rel_in_ids: "(c, c) \<in> (pipeline_rel g)\<^sup>+ \<Longrightarrow> (c, k) \<in> (pipeline_rel g)\<^sup>* \<Longrightarrow>
  c \<in> set (lineage_ids g) \<and> k \<in> set (lineage_ids g)"
  by (auto simp: set_lineage_ids Field_def dest: tranclD tranclD2 elim: rtranclE)

lemma acyclic_stuck: "acyclic (pipeline_rel g) \<longleftrightarrow> stuck g = {}"
  by (auto simp: acyclic_def stuck_def)

text \<open>The loop leaves exactly the stuck pipelines.\<close>

lemma lineage_loop_stuck:
  assumes "id_orders_ok ho"
  obtains out deg where "lineage_loop ho g = Some (out, deg)" "distinct out"
    "set out = set (lineage_ids g) - stuck g" "stuck g \<subseteq> set (lineage_ids g)"
    "topo_ordered (pipeline_rel g) out"
    "length out = length (lineage_ids g) \<longleftrightarrow> acyclic (pipeline_rel g)"
    "{i \<in> set (map fst deg). \<exists>d. map_of deg i = Some (Suc d)} = stuck g"
proof (rule lineage_loop_spec [OF assms, of g])
  fix out deg
  assume run: "lineage_loop ho g = Some (out, deg)" "distinct out" "topo_ordered (pipeline_rel g) out"
      "length out = length (lineage_ids g) \<longleftrightarrow> acyclic (pipeline_rel g)"
    and sub: "set out \<subseteq> set (lineage_ids g)"
    and left: "\<And>k. k \<in> set (lineage_ids g) \<Longrightarrow> k \<notin> set out \<longleftrightarrow>
       (\<exists>c \<in> set (lineage_ids g). (c, c) \<in> (pipeline_rel g)\<^sup>+ \<and> (c, k) \<in> (pipeline_rel g)\<^sup>*)"
    and deg: "\<And>k. k \<in> set (lineage_ids g) \<Longrightarrow> \<exists>d. map_of deg k = Some d \<and> (d = 0 \<longleftrightarrow> k \<in> set out)"
    and keys: "set (map fst deg) = set (lineage_ids g)"
  have stuck: "k \<in> stuck g \<longleftrightarrow> k \<in> set (lineage_ids g) \<and> k \<notin> set out" for k
    using left rel_in_ids unfolding stuck_def by blast
  show thesis
  proof (rule that [OF run(1,2) _ _ run(3,4)])
    show "set out = set (lineage_ids g) - stuck g" "stuck g \<subseteq> set (lineage_ids g)"
      using sub stuck by blast+
    have "(\<exists>d. map_of deg i = Some (Suc d)) \<longleftrightarrow> i \<notin> set out" if i: "i \<in> set (lineage_ids g)" for i
    proof -
      from deg [OF i] obtain d where "map_of deg i = Some d" "d = 0 \<longleftrightarrow> i \<in> set out" by blast
      then show ?thesis by (cases d) auto
    qed
    then show "{i \<in> set (map fst deg). \<exists>d. map_of deg i = Some (Suc d)} = stuck g"
      unfolding keys using stuck by blast
  qed
qed

text \<open>
  C30: the order of execution of the pipelines: with no cyclic dependency, every pipeline of the
  graph once and each producer before its consumers; otherwise exactly the pipelines on a cycle
  or downstream of one.
\<close>

theorem lineage_topological_sort_correct:
  assumes "id_orders_ok ho"
  shows "if acyclic (pipeline_rel g)
    then \<exists>out. lineage_topological_sort ho g = Some (Ok out) \<and> distinct out \<and>
      set out = set (lineage_ids g) \<and>
      (\<forall>e \<in> set (lg_edges g). \<exists>xs ys zs. out = xs @ le_up_pipeline e # ys @ le_down_pipeline e # zs)
    else \<exists>rest. lineage_topological_sort ho g = Some (Err rest) \<and> set rest = stuck g"
proof (rule lineage_loop_stuck [OF assms, of g])
  fix out deg
  assume run: "lineage_loop ho g = Some (out, deg)" and d: "distinct out"
    and set_out: "set out = set (lineage_ids g) - stuck g"
    and topo: "topo_ordered (pipeline_rel g) out"
    and len: "length out = length (lineage_ids g) \<longleftrightarrow> acyclic (pipeline_rel g)"
    and rest: "{i \<in> set (map fst deg). \<exists>d. map_of deg i = Some (Suc d)} = stuck g"
  show ?thesis
  proof (cases "acyclic (pipeline_rel g)")
    case True
    have all: "set out = set (lineage_ids g)" using True set_out by (simp add: acyclic_stuck)
    have "\<exists>xs ys zs. out = xs @ le_up_pipeline e # ys @ le_down_pipeline e # zs"
      if "e \<in> set (lg_edges g)" for e
      using that by (intro topo_ordered_before [OF topo])
        (auto simp: pipeline_rel_def all set_lineage_ids Field_def)
    with True run d all len show ?thesis by (auto simp: lineage_topological_sort_def)
  next
    case False
    with run len rest show ?thesis
      by (auto simp: lineage_topological_sort_def id_ordersD [OF assms])
  qed
qed

text \<open>A sample: two pipelines, the first writing what the second reads.\<close>

definition edge_between :: "pipeline_id \<Rightarrow> pipeline_id \<Rightarrow> lineage_edge" where
  "edge_between u v = \<lparr>le_up_pipeline = u, le_up_node = ''k'', le_down_pipeline = v,
     le_down_node = ''s'', le_fingerprint = ''f'', le_source = EsStatic\<rparr>"

definition sample_lineage :: lineage_graph where
  "sample_lineage = \<lparr>lg_edges = [edge_between ''a'' ''b'', edge_between ''b'' ''a'', edge_between ''b'' ''c''],
     lg_bindings = []\<rparr>"

lemma sample_lineage_rel: "pipeline_rel sample_lineage = {(''a'', ''b''), (''b'', ''a''), (''b'', ''c'')}"
  by (simp add: pipeline_rel_def sample_lineage_def edge_between_def)

lemma sample_lineage_cycle: "(''a'', ''a'') \<in> (pipeline_rel sample_lineage)\<^sup>+"
proof -
  have "(''a'', ''b'') \<in> pipeline_rel sample_lineage" "(''b'', ''a'') \<in> pipeline_rel sample_lineage"
    by (simp_all add: sample_lineage_rel)
  then show ?thesis by (rule trancl_into_trancl [OF r_into_trancl])
qed

lemma rev_orders [simp]: "id_orders_ok (\<lambda>_. rev)"
  by (simp add: id_orders_ok_def)

theorem lineage_topological_sort_correct_witness:
  "\<exists>rest. lineage_topological_sort (\<lambda>_. rev) sample_lineage = Some (Err rest) \<and> ''a'' \<in> set rest"
proof -
  have "\<not> acyclic (pipeline_rel sample_lineage)"
    using sample_lineage_cycle by (auto simp: acyclic_def)
  moreover have "''a'' \<in> stuck sample_lineage"
    using sample_lineage_cycle by (auto simp: stuck_def)
  ultimately show ?thesis
    using lineage_topological_sort_correct [of "\<lambda>_. rev" sample_lineage] by auto
qed


subsection \<open>Cycle components\<close>

text \<open>A search that starts with some nodes visited adds new nodes behind them.\<close>

lemma visit_new_extends:
  "visit_new ds vis q = (vis', q') \<Longrightarrow> \<exists>new. vis' = vis @ new \<and> set new \<subseteq> set ds"
proof (induction ds vis q rule: visit_new.induct)
  case (1 vis q)
  then show ?case by simp
next
  case (2 d ds vis q)
  then show ?case by (fastforce split: if_splits)
qed

lemma bfs_extends:
  "\<exists>new. bfs es q vis = vis @ new \<and> set new \<subseteq> snd ` set es \<and> (distinct vis \<longrightarrow> distinct (vis @ new))"
proof (induction es q vis rule: bfs.induct)
  case (1 es vis)
  then show ?case by simp
next
  case (2 es c q vis)
  obtain vis' q' where v: "visit_new (succs es c) vis q = (vis', q')" by fastforce
  from visit_new_extends [OF v] obtain new where new: "vis' = vis @ new" "set new \<subseteq> set (succs es c)"
    by blast
  from "2.IH" [OF v [symmetric]] obtain more where more: "bfs es q' vis' = vis' @ more"
    "set more \<subseteq> snd ` set es" "distinct vis' \<longrightarrow> distinct (vis' @ more)" by blast
  have "set (succs es c) \<subseteq> snd ` set es" by (force simp: set_succs)
  with new more v visit_new_set [OF v] show ?case by auto
qed

text \<open>The components are disjoint and cover the start nodes.\<close>

lemma cycle_components_spec:
  assumes "distinct visited" "snd ` set es \<subseteq> R" "set starts \<subseteq> R"
  shows "distinct (visited @ concat (cycle_components es starts visited)) \<and>
    set starts \<subseteq> set visited \<union> set (concat (cycle_components es starts visited)) \<and>
    set (concat (cycle_components es starts visited)) \<subseteq> R \<and>
    [] \<notin> set (cycle_components es starts visited)"
  using assms
proof (induction es starts visited rule: cycle_components.induct)
  case (1 es visited)
  then show ?case by simp
next
  case (2 es start rest visited)
  show ?case
  proof (cases "start \<in> set visited")
    case True
    with 2 show ?thesis by auto
  next
    case False
    let ?vis = "cycle_component es start visited"
    obtain new where new: "?vis = visited @ start # new" "set new \<subseteq> snd ` set es"
      "distinct (visited @ [start]) \<longrightarrow> distinct (visited @ start # new)"
      using bfs_extends [of es "[start]" "visited @ [start]"] by (auto simp: cycle_component_def)
    with 2 False have d: "distinct ?vis" and sub: "set (start # new) \<subseteq> R" "set rest \<subseteq> R"
      by auto
    with "2.IH"(2) [OF False refl d "2.prems"(2)] have "distinct (?vis @ concat (cycle_components es rest ?vis)) \<and>
        set rest \<subseteq> set ?vis \<union> set (concat (cycle_components es rest ?vis)) \<and>
        set (concat (cycle_components es rest ?vis)) \<subseteq> R \<and> [] \<notin> set (cycle_components es rest ?vis)"
      by blast
    moreover have "cycle_components es (start # rest) visited =
        (start # new) # cycle_components es rest ?vis"
      using False by (simp add: Let_def new(1))
    ultimately show ?thesis using sub unfolding new(1) by auto
  qed
qed

text \<open>
  \<open>detect_cycles\<close> returns, in disjoint non-empty components, exactly the pipelines on a cycle
  or downstream of one; it returns no component iff the graph is acyclic.
\<close>

theorem detect_cycles_correct:
  assumes "id_orders_ok ho"
  shows "\<exists>cs. detect_cycles ho g = Some cs \<and> distinct (concat cs) \<and> set (concat cs) = stuck g \<and>
    [] \<notin> set cs \<and> (cs = [] \<longleftrightarrow> acyclic (pipeline_rel g))"
proof (rule lineage_loop_stuck [OF assms, of g])
  fix out deg
  assume run: "lineage_loop ho g = Some (out, deg)"
    and set_out: "set out = set (lineage_ids g) - stuck g" and sub: "stuck g \<subseteq> set (lineage_ids g)"
  define cyc where "cyc = filter (\<lambda>i. i \<notin> set out) (lineage_ids g)"
  define es where "es = concat (map (\<lambda>u. map (Pair u)
    (filter (\<lambda>t. t \<in> set cyc) (lineage_kids ho g u))) cyc)"
  let ?cs = "cycle_components es (ho None cyc) []"
  have det: "detect_cycles ho g = Some ?cs"
    by (simp add: detect_cycles_def run cyc_def es_def Let_def)
  have cyc: "set cyc = stuck g" using set_out sub by (auto simp: cyc_def)
  have "snd ` set es \<subseteq> set cyc" unfolding es_def by auto
  then have "snd ` set es \<subseteq> stuck g" unfolding cyc .
  moreover have "set (ho None cyc) \<subseteq> stuck g" using cyc by (simp add: id_ordersD [OF assms])
  ultimately have spec: "distinct (concat ?cs)" "set (ho None cyc) \<subseteq> set (concat ?cs)"
      "set (concat ?cs) \<subseteq> stuck g" "[] \<notin> set ?cs"
    using cycle_components_spec [of "[]" es "stuck g" "ho None cyc"] by simp_all
  have all: "set (concat ?cs) = stuck g" using cyc spec(2,3) by (simp add: id_ordersD [OF assms])
  have "?cs = [] \<longleftrightarrow> stuck g = {}"
  proof
    assume "stuck g = {}"
    with all have "set (concat ?cs) = {}" by simp
    with spec(4) show "?cs = []" by (cases ?cs) auto
  next
    assume "?cs = []"
    with all show "stuck g = {}" by simp
  qed
  with det spec all show ?thesis unfolding acyclic_stuck by blast
qed

theorem detect_cycles_correct_witness:
  "\<exists>cs. detect_cycles (\<lambda>_. rev) sample_lineage = Some cs \<and> ''a'' \<in> set (concat cs)"
proof -
  have "''a'' \<in> stuck sample_lineage"
    using sample_lineage_cycle by (auto simp: stuck_def)
  with detect_cycles_correct [OF rev_orders, of sample_lineage] show ?thesis by blast
qed

text \<open>A reported pipeline need not be on a cycle: \<open>c\<close> only reads what the cycle writes.\<close>

lemma detect_cycles_off_cycle:
  "detect_cycles (\<lambda>_. rev) sample_lineage = Some [[''a'', ''b'', ''c'']] \<and>
   (''c'', ''c'') \<notin> (pipeline_rel sample_lineage)\<^sup>+"
proof
  show "detect_cycles (\<lambda>_. rev) sample_lineage = Some [[''a'', ''b'', ''c'']]"
    by (simp add: detect_cycles_def lineage_loop_def lineage_kids_def lineage_deg_def lineage_adj_def
        lineage_ids_def add_target_def kids_def zero_degree_def bump_entry_def zero_entry_def
        sample_lineage_def edge_between_def cycle_component_def succs_def)
  show "(''c'', ''c'') \<notin> (pipeline_rel sample_lineage)\<^sup>+"
    by (auto simp: sample_lineage_rel dest!: tranclD)
qed

text \<open>
  The transitive queries are the closures of the dependency relation, in either direction, so
  each is the converse of the other.
\<close>

theorem lineage_closures_correct:
  "set (all_downstream g i) = {j. (i, j) \<in> (pipeline_rel g)\<^sup>+} \<and>
   set (all_upstream g i) = {j. (j, i) \<in> (pipeline_rel g)\<^sup>+} \<and>
   (j \<in> set (all_downstream g i) \<longleftrightarrow> i \<in> set (all_upstream g j))"
proof -
  have down: "set (map (\<lambda>e. (le_up_pipeline e, le_down_pipeline e)) (lg_edges g)) = pipeline_rel g"
    by (simp add: pipeline_rel_def)
  have up: "set (map (\<lambda>e. (le_down_pipeline e, le_up_pipeline e)) (lg_edges g)) = (pipeline_rel g)\<inverse>"
    by (auto simp: pipeline_rel_def)
  show ?thesis
    unfolding all_downstream_def all_upstream_def set_closure_from down up trancl_converse by blast
qed

text \<open>In pipelines with distinct ids and distinct node ids, a binding is known by its node.\<close>

definition ids_distinct :: "(pipeline_id \<times> pipeline) list \<Rightarrow> bool" where
  "ids_distinct ps \<longleftrightarrow> distinct (map fst ps) \<and> list_all (\<lambda>pp. distinct (node_ids (snd pp))) ps"

lemma binding_unique:
  assumes "ids_distinct ps" "a \<in> set (collect_bindings fp ps)" "b \<in> set (collect_bindings fp ps)" "same_node a b"
  shows "a = b"
proof -
  have ps: "distinct (map fst ps)" "\<And>pid P. (pid, P) \<in> set ps \<Longrightarrow> distinct (node_ids P)"
    using assms(1) by (auto simp: ids_distinct_def list_all_iff)
  from assms(2) obtain P n where a: "(rb_pipeline a, P) \<in> set ps" "n \<in> set (p_nodes P)" "rb_node a = n_id n"
    "node_resource fp n = Some (rb_direction a, rb_fingerprint a)" by (auto simp: set_collect_bindings)
  from assms(3) obtain Q m where b: "(rb_pipeline b, Q) \<in> set ps" "m \<in> set (p_nodes Q)" "rb_node b = n_id m"
    "node_resource fp m = Some (rb_direction b, rb_fingerprint b)" by (auto simp: set_collect_bindings)
  have "Q = P" using a(1) b(1) assms(4) eq_key_imp_eq_value [OF ps(1)] by (simp add: same_node_def)
  moreover from this have "m = n"
    using a(2,3) b(2,3) assms(4) ps(2) [OF a(1)] by (auto simp: same_node_def distinct_map dest: inj_onD)
  ultimately show ?thesis using a(4) b(4) assms(4) by (simp add: same_node_def)
qed

lemma image_Collect2: "f ` {g x y | x y. P x y} = {f (g x y) | x y. P x y}"
  by auto

lemma produces_all:
  assumes "ids_distinct ps"
  shows "produces (collect_bindings fp ps) snk src \<longleftrightarrow>
    snk \<in> set (collect_bindings fp ps) \<and> src \<in> set (collect_bindings fp ps) \<and> rb_direction snk = BdSink \<and>
    rb_direction src = BdSource \<and> rb_fingerprint snk = rb_fingerprint src"
  using binding_unique [OF assms, of snk fp src] by (auto simp: produces_def)

text \<open>
  In a graph built from pipelines with distinct ids, the dangling sources are exactly the source
  nodes at which no static edge ends, and the orphaned sinks the sink nodes from which none starts.
\<close>

theorem dangling_and_orphaned:
  assumes "ids_distinct ps"
  shows "(b \<in> set (dangling_sources (from_pipelines fp ps)) \<longleftrightarrow>
      b \<in> set (collect_bindings fp ps) \<and> rb_direction b = BdSource \<and>
      (rb_pipeline b, rb_node b) \<notin>
        (\<lambda>e. (le_down_pipeline e, le_down_node e)) ` set (lg_edges (from_pipelines fp ps))) \<and>
    (b \<in> set (orphaned_sinks (from_pipelines fp ps)) \<longleftrightarrow>
      b \<in> set (collect_bindings fp ps) \<and> rb_direction b = BdSink \<and>
      (rb_pipeline b, rb_node b) \<notin>
        (\<lambda>e. (le_up_pipeline e, le_up_node e)) ` set (lg_edges (from_pipelines fp ps)))"
proof -
  let ?bs = "collect_bindings fp ps" and ?g = "from_pipelines fp ps"
  have edges: "set (lg_edges ?g) = {static_edge snk src | snk src. produces ?bs snk src}"
    by (simp add: from_pipelines_def Let_def set_derive_static_edges)
  have uniq: "a \<in> set ?bs \<Longrightarrow> b \<in> set ?bs \<Longrightarrow> rb_pipeline a = rb_pipeline b \<Longrightarrow> rb_node a = rb_node b \<Longrightarrow> a = b" for a b
    using binding_unique [OF assms] by (simp add: same_node_def)
  have down: "(rb_pipeline b, rb_node b) \<in> (\<lambda>e. (le_down_pipeline e, le_down_node e)) ` set (lg_edges ?g) \<longleftrightarrow>
      (\<exists>snk \<in> set ?bs. rb_direction snk = BdSink \<and> rb_fingerprint snk = rb_fingerprint b)"
    if b: "b \<in> set ?bs" "rb_direction b = BdSource"
  proof -
    have "(rb_pipeline b, rb_node b) \<in> (\<lambda>e. (le_down_pipeline e, le_down_node e)) ` set (lg_edges ?g) \<longleftrightarrow>
        (\<exists>snk src. produces ?bs snk src \<and> rb_pipeline src = rb_pipeline b \<and> rb_node src = rb_node b)"
      unfolding edges image_Collect2 by (simp add: static_edge_def eq_commute conj_ac)
    also have "\<dots> \<longleftrightarrow> (\<exists>snk. produces ?bs snk b)"
      by (metis uniq b(1) produces_def)
    finally show ?thesis unfolding produces_all [OF assms] using b by blast
  qed
  have up: "(rb_pipeline b, rb_node b) \<in> (\<lambda>e. (le_up_pipeline e, le_up_node e)) ` set (lg_edges ?g) \<longleftrightarrow>
      (\<exists>src \<in> set ?bs. rb_direction src = BdSource \<and> rb_fingerprint src = rb_fingerprint b)"
    if b: "b \<in> set ?bs" "rb_direction b = BdSink"
  proof -
    have "(rb_pipeline b, rb_node b) \<in> (\<lambda>e. (le_up_pipeline e, le_up_node e)) ` set (lg_edges ?g) \<longleftrightarrow>
        (\<exists>snk src. produces ?bs snk src \<and> rb_pipeline snk = rb_pipeline b \<and> rb_node snk = rb_node b)"
      unfolding edges image_Collect2 by (simp add: static_edge_def eq_commute conj_ac)
    also have "\<dots> \<longleftrightarrow> (\<exists>src. produces ?bs b src)"
      by (metis uniq b(1) produces_def)
    finally show ?thesis unfolding produces_all [OF assms] using b by metis
  qed
  have d: "b \<in> set (dangling_sources ?g) \<longleftrightarrow> b \<in> set ?bs \<and> rb_direction b = BdSource \<and>
      \<not> (\<exists>snk \<in> set ?bs. rb_direction snk = BdSink \<and> rb_fingerprint snk = rb_fingerprint b)"
    by (force simp: dangling_sources_def from_pipelines_def Let_def image_iff)
  have o': "b \<in> set (orphaned_sinks ?g) \<longleftrightarrow> b \<in> set ?bs \<and> rb_direction b = BdSink \<and>
      \<not> (\<exists>src \<in> set ?bs. rb_direction src = BdSource \<and> rb_fingerprint src = rb_fingerprint b)"
    by (force simp: orphaned_sinks_def from_pipelines_def Let_def image_iff)
  show ?thesis unfolding d o' by (cases "b \<in> set ?bs"; cases "rb_direction b") (simp_all add: down up)
qed

theorem dangling_and_orphaned_witness:
  "\<lparr>rb_pipeline = ''p'', rb_node = ''s'', rb_direction = BdSource, rb_fingerprint = ''csv''\<rparr>
     \<in> set (dangling_sources (from_pipelines (\<lambda>c _. Some c) [(''p'', sample_dag)]))"
  using dangling_and_orphaned [of "[(''p'', sample_dag)]" "\<lparr>rb_pipeline = ''p'', rb_node = ''s'',
      rb_direction = BdSource, rb_fingerprint = ''csv''\<rparr>" "\<lambda>c _. Some c"]
  by (simp add: ids_distinct_def sample_dag_def sample_defs collect_bindings_def
      node_binding_def from_pipelines_def derive_static_edges_def Let_def group_by_def push_entry_def)

end
