(* ===== verification/Column_Lineage.thy ===== *)
theory Column_Lineage
  imports Lineage "HOL-Library.Product_Lexorder"
begin

text \<open>
  \<open>column_lineage.rs\<close>: lineage of single columns.  Columns at pipeline boundaries are matched by
  resource and canonical name; the graph of all column edges is traced breadth first to a depth.
  \<open>lc\<close> is \<open>str::to_lowercase\<close> (the Unicode tables are not modelled), \<open>ord\<close> the iteration order
  of the hash maps.
\<close>

record column_ref =
  cr_pipeline :: "pipeline_id option"
  cr_node :: "node_id option"
  cr_column :: string
  cr_resource :: "fingerprint option"

definition column_ref_str :: "column_ref \<Rightarrow> string" where
  "column_ref_str r = (case cr_resource r of
      Some fp \<Rightarrow> fp @ '':'' @ cr_column r
    | None \<Rightarrow> (case cr_node r of
          Some n \<Rightarrow> n @ '':'' @ cr_column r
        | None \<Rightarrow> cr_column r))"

fun relationship_str :: "relationship_kind \<Rightarrow> string" where
  "relationship_str Direct = ''direct''"
| "relationship_str Derived = ''derived''"
| "relationship_str Cast = ''cast''"
| "relationship_str Filter = ''filter''"
| "relationship_str JoinKey = ''join_key''"
| "relationship_str JoinPassthrough = ''join_passthrough''"
| "relationship_str GroupBy = ''group_by''"
| "relationship_str AggregateInput = ''aggregate_input''"
| "relationship_str WindowPartition = ''window_partition''"
| "relationship_str WindowOrder = ''window_order''"
| "relationship_str WindowInput = ''window_input''"
| "relationship_str OpaqueRel = ''opaque''"

datatype confidence = Exact | LazyFrame | Annotation | OpaqueConf

fun confidence_str :: "confidence \<Rightarrow> string" where
  "confidence_str Exact = ''exact''"
| "confidence_str LazyFrame = ''lazyframe''"
| "confidence_str Annotation = ''annotation''"
| "confidence_str OpaqueConf = ''opaque''"

text \<open>The derived order of \<open>Confidence\<close> is the order of its constructors.\<close>

fun confidence_rank :: "confidence \<Rightarrow> nat" where
  "confidence_rank Exact = 0"
| "confidence_rank LazyFrame = 1"
| "confidence_rank Annotation = 2"
| "confidence_rank OpaqueConf = 3"

lemma confidence_rank_inj: "confidence_rank a = confidence_rank b \<longleftrightarrow> a = b"
  by (cases a; cases b) auto

instantiation confidence :: linorder
begin

definition less_eq_confidence :: "confidence \<Rightarrow> confidence \<Rightarrow> bool" where
  "less_eq_confidence a b = (confidence_rank a \<le> confidence_rank b)"

definition less_confidence :: "confidence \<Rightarrow> confidence \<Rightarrow> bool" where
  "less_confidence a b = (confidence_rank a < confidence_rank b)"

instance
  by standard (auto simp: less_eq_confidence_def less_confidence_def confidence_rank_inj [symmetric])

end

record column_edge =
  ce_up_column :: string
  ce_up_node :: "node_id option"
  ce_up_resource :: "fingerprint option"
  ce_down_column :: string
  ce_down_node :: "node_id option"
  ce_down_resource :: "fingerprint option"
  ce_relationship :: relationship_kind
  ce_expression :: "string option"
  ce_confidence :: confidence

record node_column_lineage =
  nl_node_id :: node_id
  nl_edges :: "column_edge list"
  nl_warnings :: "string list"

definition edges_for_column :: "node_column_lineage \<Rightarrow> string \<Rightarrow> column_edge list" where
  "edges_for_column nl c = filter (\<lambda>e. ce_down_column e = c) (nl_edges nl)"

definition output_columns :: "node_column_lineage \<Rightarrow> string list" where
  "output_columns nl = remdups_adj (sort (map ce_down_column (nl_edges nl)))"

subsection \<open>Boundary columns\<close>

definition canonicalize_column :: "(string \<Rightarrow> string) \<Rightarrow> string \<Rightarrow> string" where
  "canonicalize_column lc name =
     (let trimmed = trim name
      in if length trimmed \<ge> 2 \<and> starts_with [CHR 0x22] trimmed \<and> ends_with [CHR 0x22] trimmed
         then take (length trimmed - 2) (drop 1 trimmed)
         else lc trimmed)"

record boundary_column =
  bnd_pipeline :: pipeline_id
  bnd_node :: node_id
  bnd_column :: string
  bnd_fingerprint :: fingerprint
  bnd_direction :: binding_direction

record cross_edge =
  xe_up_pipeline :: pipeline_id
  xe_up_node :: node_id
  xe_down_pipeline :: pipeline_id
  xe_down_node :: node_id
  xe_column :: string
  xe_fingerprint :: fingerprint

datatype one_sided_kind = SinkOnly | SourceOnly

fun one_sided_str :: "one_sided_kind \<Rightarrow> string" where
  "one_sided_str SinkOnly = ''sink_only''"
| "one_sided_str SourceOnly = ''source_only''"

record one_sided_column =
  os_pipeline :: pipeline_id
  os_node :: node_id
  os_column :: string
  os_fingerprint :: fingerprint
  os_side :: one_sided_kind

record cross_lineage =
  cl_edges :: "cross_edge list"
  cl_one_sided :: "one_sided_column list"

definition boundary_key :: "(string \<Rightarrow> string) \<Rightarrow> boundary_column \<Rightarrow> string \<times> string" where
  "boundary_key lc b = (bnd_fingerprint b, canonicalize_column lc (bnd_column b))"

definition cross_edge_of :: "boundary_column \<Rightarrow> boundary_column \<Rightarrow> cross_edge" where
  "cross_edge_of snk src = \<lparr>xe_up_pipeline = bnd_pipeline snk, xe_up_node = bnd_node snk,
     xe_down_pipeline = bnd_pipeline src, xe_down_node = bnd_node src,
     xe_column = bnd_column snk, xe_fingerprint = bnd_fingerprint snk\<rparr>"

definition one_sided_of :: "one_sided_kind \<Rightarrow> boundary_column \<Rightarrow> one_sided_column" where
  "one_sided_of side b = \<lparr>os_pipeline = bnd_pipeline b, os_node = bnd_node b, os_column = bnd_column b,
     os_fingerprint = bnd_fingerprint b, os_side = side\<rparr>"

definition same_boundary_node :: "boundary_column \<Rightarrow> boundary_column \<Rightarrow> bool" where
  "same_boundary_node a b = (bnd_pipeline a = bnd_pipeline b \<and> bnd_node a = bnd_node b)"

type_synonym boundary_index = "((string \<times> string) \<times> boundary_column list) list"

definition matched_edges :: "boundary_index \<Rightarrow> boundary_index \<Rightarrow> string \<times> string \<Rightarrow> cross_edge list" where
  "matched_edges sinks sources key =
     (case map_of sources key of
        None \<Rightarrow> []
      | Some srcs \<Rightarrow> concat (map (\<lambda>snk. map (cross_edge_of snk)
          (filter (\<lambda>src. \<not> same_boundary_node snk src) srcs)) (kids sinks key)))"

definition unmatched :: "one_sided_kind \<Rightarrow> boundary_index \<Rightarrow> boundary_index \<Rightarrow> string \<times> string \<Rightarrow> one_sided_column list" where
  "unmatched side these others key =
     (if map_of others key = None then map (one_sided_of side) (kids these key) else [])"

definition derive_cross_pipeline_column_lineage ::
  "(string \<Rightarrow> string) \<Rightarrow> ((string \<times> string) list \<Rightarrow> (string \<times> string) list) \<Rightarrow> boundary_column list \<Rightarrow>
   cross_lineage" where
  "derive_cross_pipeline_column_lineage lc ord bcs =
     (let sinks = group_by (boundary_key lc) id (filter (\<lambda>b. bnd_direction b = BdSink) bcs);
          sources = group_by (boundary_key lc) id (filter (\<lambda>b. bnd_direction b = BdSource) bcs);
          sink_keys = ord (map fst sinks); source_keys = ord (map fst sources)
      in \<lparr>cl_edges = sort_key (\<lambda>e. (xe_fingerprint e, xe_column e, xe_up_pipeline e, xe_down_pipeline e))
            (concat (map (matched_edges sinks sources) sink_keys)),
          cl_one_sided = sort_key (\<lambda>c. (os_fingerprint c, os_column c, one_sided_str (os_side c)))
            (concat (map (unmatched SinkOnly sinks sources) sink_keys) @
             concat (map (unmatched SourceOnly sources sinks) source_keys))\<rparr>)"

subsection \<open>The graph of column edges\<close>

record column_key =
  ck_pipeline :: pipeline_id
  ck_node :: node_id
  ck_column :: string

record trace_options =
  to_max_depth :: nat
  to_relationships :: "relationship_kind set"
  to_confidences :: "confidence set"

definition default_trace_options :: trace_options where
  "default_trace_options = \<lparr>to_max_depth = 10, to_relationships = {}, to_confidences = {}\<rparr>"

record trace_edge =
  te_upstream :: column_key
  te_downstream :: column_key
  te_relationship :: relationship_kind
  te_confidence :: confidence
  te_expression :: "string option"
  te_depth :: nat

record trace_result =
  tr_origin :: column_key
  tr_edges :: "trace_edge list"
  tr_truncated :: bool

record internal_edge =
  ie_target :: column_key
  ie_relationship :: relationship_kind
  ie_confidence :: confidence
  ie_expression :: "string option"

type_synonym adjacency = "(column_key \<times> internal_edge list) list"

record column_graph =
  cg_upstream :: adjacency
  cg_downstream :: adjacency
  cg_fingerprints :: "((string \<times> string) \<times> column_key list) list"

definition node_or_unknown :: "node_id option \<Rightarrow> node_id" where
  "node_or_unknown n = (case n of Some i \<Rightarrow> i | None \<Rightarrow> ''__unknown__'')"

definition down_key :: "pipeline_id \<Rightarrow> column_edge \<Rightarrow> column_key" where
  "down_key pid e = \<lparr>ck_pipeline = pid, ck_node = node_or_unknown (ce_down_node e), ck_column = ce_down_column e\<rparr>"

definition up_key :: "pipeline_id \<Rightarrow> column_edge \<Rightarrow> column_key" where
  "up_key pid e = \<lparr>ck_pipeline = pid, ck_node = node_or_unknown (ce_up_node e), ck_column = ce_up_column e\<rparr>"

text \<open>An edge of the graph: its two ends and what the adjacency lists keep of it.\<close>

record graph_edge =
  ge_up :: column_key
  ge_down :: column_key
  ge_relationship :: relationship_kind
  ge_confidence :: confidence
  ge_expression :: "string option"

definition intra_edge :: "pipeline_id \<times> column_edge \<Rightarrow> graph_edge" where
  "intra_edge pe = (case pe of (pid, e) \<Rightarrow>
     \<lparr>ge_up = up_key pid e, ge_down = down_key pid e, ge_relationship = ce_relationship e,
      ge_confidence = ce_confidence e, ge_expression = ce_expression e\<rparr>)"

definition inter_edge :: "cross_edge \<Rightarrow> graph_edge" where
  "inter_edge x =
     \<lparr>ge_up = \<lparr>ck_pipeline = xe_up_pipeline x, ck_node = xe_up_node x, ck_column = xe_column x\<rparr>,
      ge_down = \<lparr>ck_pipeline = xe_down_pipeline x, ck_node = xe_down_node x, ck_column = xe_column x\<rparr>,
      ge_relationship = Direct, ge_confidence = Exact, ge_expression = None\<rparr>"

definition towards :: "column_key \<Rightarrow> graph_edge \<Rightarrow> internal_edge" where
  "towards k e = \<lparr>ie_target = k, ie_relationship = ge_relationship e, ie_confidence = ge_confidence e,
     ie_expression = ge_expression e\<rparr>"

definition fingerprint_entries ::
  "(string \<Rightarrow> string) \<Rightarrow> pipeline_id \<times> column_edge \<Rightarrow> ((string \<times> string) \<times> column_key) list" where
  "fingerprint_entries lc pe = (case pe of (pid, e) \<Rightarrow>
     (case ce_down_resource e of
        None \<Rightarrow> [] | Some fp \<Rightarrow> [((fp, canonicalize_column lc (ce_down_column e)), down_key pid e)]) @
     (case ce_up_resource e of
        None \<Rightarrow> [] | Some fp \<Rightarrow> [((fp, canonicalize_column lc (ce_up_column e)), up_key pid e)]))"

definition sort_dedup_keys :: "column_key list \<Rightarrow> column_key list" where
  "sort_dedup_keys ks = remdups_adj (sort_key (\<lambda>k. (ck_pipeline k, ck_node k, ck_column k)) ks)"

definition graph_edges ::
  "(pipeline_id \<times> column_edge list) list \<Rightarrow> cross_edge list \<Rightarrow> graph_edge list" where
  "graph_edges pes xes =
     map intra_edge (concat (map (\<lambda>(pid, es). map (Pair pid) es) pes)) @ map inter_edge xes"

definition new_graph ::
  "(string \<Rightarrow> string) \<Rightarrow> (pipeline_id \<times> column_edge list) list \<Rightarrow> cross_edge list \<Rightarrow> column_graph" where
  "new_graph lc pes xes =
     (let es = graph_edges pes xes;
          fps = concat (map (fingerprint_entries lc) (concat (map (\<lambda>(pid, es). map (Pair pid) es) pes)))
      in \<lparr>cg_upstream = group_by ge_down (\<lambda>e. towards (ge_up e) e) es,
          cg_downstream = group_by ge_up (\<lambda>e. towards (ge_down e) e) es,
          cg_fingerprints = map (\<lambda>(k, ks). (k, sort_dedup_keys ks)) (group_by fst snd fps)\<rparr>)"

definition resolve_by_fingerprint ::
  "(string \<Rightarrow> string) \<Rightarrow> column_graph \<Rightarrow> fingerprint \<Rightarrow> string \<Rightarrow> column_key list" where
  "resolve_by_fingerprint lc g fp column = kids (cg_fingerprints g) (fp, canonicalize_column lc column)"

definition all_columns :: "(column_key list \<Rightarrow> column_key list) \<Rightarrow> column_graph \<Rightarrow> column_key list" where
  "all_columns ord g =
     (let ups = ord (map fst (cg_upstream g))
      in ups @ filter (\<lambda>k. k \<notin> set ups) (ord (map fst (cg_downstream g))))"

subsection \<open>Tracing\<close>

definition edge_allowed :: "trace_options \<Rightarrow> internal_edge \<Rightarrow> bool" where
  "edge_allowed opts e = ((to_relationships opts = {} \<or> ie_relationship e \<in> to_relationships opts) \<and>
     (to_confidences opts = {} \<or> ie_confidence e \<in> to_confidences opts))"

definition trace_edge_of :: "bool \<Rightarrow> column_key \<Rightarrow> nat \<Rightarrow> internal_edge \<Rightarrow> trace_edge" where
  "trace_edge_of is_upstream current depth e =
     \<lparr>te_upstream = (if is_upstream then ie_target e else current),
      te_downstream = (if is_upstream then current else ie_target e),
      te_relationship = ie_relationship e, te_confidence = ie_confidence e,
      te_expression = ie_expression e, te_depth = depth + 1\<rparr>"

fun enqueue_targets ::
  "internal_edge list \<Rightarrow> nat \<Rightarrow> column_key list \<Rightarrow> (column_key \<times> nat) list \<Rightarrow>
   column_key list \<times> (column_key \<times> nat) list" where
  "enqueue_targets [] depth visited q = (visited, q)"
| "enqueue_targets (e # es) depth visited q =
     (if ie_target e \<in> set visited then enqueue_targets es depth visited q
      else enqueue_targets es depth (ie_target e # visited) (q @ [(ie_target e, depth)]))"

definition allowed_edges :: "adjacency \<Rightarrow> trace_options \<Rightarrow> column_key \<Rightarrow> internal_edge list" where
  "allowed_edges adj opts k = filter (edge_allowed opts) (kids adj k)"

definition adjacency_targets :: "adjacency \<Rightarrow> column_key set" where
  "adjacency_targets adj = ie_target ` (\<Union>(set ` snd ` set adj))"

lemma allowed_targets:
  assumes "e \<in> set (allowed_edges adj opts k)"
  shows "ie_target e \<in> adjacency_targets adj"
proof -
  from assms obtain es where "map_of adj k = Some es" "e \<in> set es"
    by (cases "map_of adj k") (auto simp: allowed_edges_def kids_def)
  then have "es \<in> snd ` set adj" "e \<in> set es" by (auto dest: map_of_SomeD intro: rev_image_eqI)
  then show ?thesis unfolding adjacency_targets_def by blast
qed

lemma finite_adjacency_targets: "finite (adjacency_targets adj)"
  by (auto simp: adjacency_targets_def)

lemma enqueue_targets_measure:
  assumes "finite T" "ie_target ` set es \<subseteq> T" "enqueue_targets es d vis q = (vis', q')"
  shows "card (T - set vis') + length q' \<le> card (T - set vis) + length q"
  using assms(2,3)
proof (induction es d vis q rule: enqueue_targets.induct)
  case 1
  then show ?case by simp
next
  case (2 e es d vis q)
  let ?t = "ie_target e"
  show ?case
  proof (cases "?t \<in> set vis")
    case True
    with 2 show ?thesis by simp
  next
    case False
    have "T - set vis = insert ?t (T - set (?t # vis))" using 2(3) False by auto
    moreover have "?t \<notin> T - set (?t # vis)" by simp
    ultimately have "card (T - set vis) = Suc (card (T - set (?t # vis)))"
      using assms(1) by (metis card_insert_disjoint finite_Diff)
    moreover have "card (T - set vis') + length q' \<le> card (T - set (?t # vis)) + length (q @ [(?t, d)])"
      by (rule "2.IH"(2)) (use 2 False in auto)
    ultimately show ?thesis by simp
  qed
qed

function trace_loop ::
  "adjacency \<Rightarrow> trace_options \<Rightarrow> bool \<Rightarrow> (column_key \<times> nat) list \<Rightarrow> column_key list \<Rightarrow>
   trace_edge list \<Rightarrow> bool \<Rightarrow> trace_edge list \<times> bool" where
  "trace_loop adj opts up [] visited edges truncated = (edges, truncated)"
| "trace_loop adj opts up ((current, depth) # q) visited edges truncated =
     (if depth \<ge> to_max_depth opts then trace_loop adj opts up q visited edges True
      else
        (case enqueue_targets (allowed_edges adj opts current) (depth + 1) visited q of (visited', q') \<Rightarrow>
           trace_loop adj opts up q' visited'
             (edges @ map (trace_edge_of up current depth) (allowed_edges adj opts current)) truncated))"
  by pat_completeness auto
termination
proof (relation "measure (\<lambda>(adj, opts, up, q, visited, edges, truncated).
    card (adjacency_targets adj - set visited) + length q)", goal_cases)
  case 1
  show ?case by simp
next
  case (2 adj opts up current depth q visited edges truncated)
  then show ?case by simp
next
  case (3 adj opts up current depth q visited edges truncated visited' q')
  have "ie_target ` set (allowed_edges adj opts current) \<subseteq> adjacency_targets adj"
    using allowed_targets by blast
  from enqueue_targets_measure [OF finite_adjacency_targets this 3(2) [symmetric]]
  have "card (adjacency_targets adj - set visited') + length q' \<le>
      card (adjacency_targets adj - set visited) + length q" .
  then show ?case unfolding in_measure by simp
qed

definition trace :: "column_key \<Rightarrow> adjacency \<Rightarrow> trace_options \<Rightarrow> bool \<Rightarrow> trace_result" where
  "trace start adj opts is_upstream =
     (case trace_loop adj opts is_upstream [(start, 0)] [start] [] False of (edges, truncated) \<Rightarrow>
        \<lparr>tr_origin = start, tr_edges = edges, tr_truncated = truncated\<rparr>)"

definition upstream_trace :: "column_graph \<Rightarrow> column_key \<Rightarrow> trace_options \<Rightarrow> trace_result" where
  "upstream_trace g k opts = trace k (cg_upstream g) opts True"

definition downstream_trace :: "column_graph \<Rightarrow> column_key \<Rightarrow> trace_options \<Rightarrow> trace_result" where
  "downstream_trace g k opts = trace k (cg_downstream g) opts False"

subsection \<open>A trace is a breadth-first search\<close>

text \<open>One step along an allowed edge; the distance of a column from the start.\<close>

definition trace_rel :: "adjacency \<Rightarrow> trace_options \<Rightarrow> (column_key \<times> column_key) set" where
  "trace_rel adj opts = {(k, ie_target e) | k e. e \<in> set (allowed_edges adj opts k)}"

definition at_distance :: "('a \<times> 'a) set \<Rightarrow> 'a \<Rightarrow> 'a \<Rightarrow> nat \<Rightarrow> bool" where
  "at_distance R s v n \<longleftrightarrow> (s, v) \<in> R ^^ n \<and> (\<forall>m < n. (s, v) \<notin> R ^^ m)"

lemma enqueue_targets_spec:
  "enqueue_targets es d vis q = (vis', q') \<Longrightarrow>
   \<exists>new. q' = q @ map (\<lambda>k. (k, d)) new \<and> set vis' = set vis \<union> ie_target ` set es \<and>
     set new = ie_target ` set es - set vis \<and> distinct new"
proof (induction es d vis q rule: enqueue_targets.induct)
  case (1 d vis q)
  then show ?case by simp
next
  case (2 e es d vis q)
  let ?t = "ie_target e"
  show ?case
  proof (cases "?t \<in> set vis")
    case True
    with "2.prems" have "enqueue_targets es d vis q = (vis', q')" by simp
    from "2.IH"(1) [OF True this] True show ?thesis by (simp add: insert_absorb)
  next
    case False
    with "2.prems" have "enqueue_targets es d (?t # vis) (q @ [(?t, d)]) = (vis', q')" by simp
    from "2.IH"(2) [OF False this] obtain new where "q' = (q @ [(?t, d)]) @ map (\<lambda>k. (k, d)) new"
      "set vis' = set (?t # vis) \<union> ie_target ` set es"
      "set new = ie_target ` set es - set (?t # vis)" "distinct new" by blast
    with False show ?thesis by (intro exI [of _ "?t # new"]) auto
  qed
qed

text \<open>
  The invariant, with the depth \<open>D\<close> at which each visited column was queued: the queue is in
  order of depth and spans two depths at most, and the columns that left it have all their
  neighbours visited, at most one deeper.
\<close>

definition left_queue :: "column_key list \<Rightarrow> (column_key \<times> nat) list \<Rightarrow> column_key set" where
  "left_queue vis q = set vis - fst ` set q"

definition bfs_order :: "(column_key \<Rightarrow> nat) \<Rightarrow> column_key list \<Rightarrow> (column_key \<times> nat) list \<Rightarrow> bool" where
  "bfs_order D vis q \<longleftrightarrow> (\<forall>(k, d) \<in> set q. k \<in> set vis \<and> d = D k) \<and> distinct (map fst q) \<and>
     sorted (map snd q) \<and> (q \<noteq> [] \<longrightarrow> (\<forall>k \<in> set vis. D k \<le> snd (hd q) + 1))"

definition bfs_reached ::
  "(column_key \<times> column_key) set \<Rightarrow> nat \<Rightarrow> column_key \<Rightarrow> (column_key \<Rightarrow> nat) \<Rightarrow> column_key list \<Rightarrow>
   (column_key \<times> nat) list \<Rightarrow> bool" where
  "bfs_reached R maxd s D vis q \<longleftrightarrow> s \<in> set vis \<and> D s = 0 \<and>
     (\<forall>k \<in> set vis. (s, k) \<in> R ^^ D k \<and> D k \<le> maxd) \<and>
     (\<forall>k \<in> left_queue vis q. D k < maxd \<longrightarrow> (\<forall>j. (k, j) \<in> R \<longrightarrow> j \<in> set vis \<and> D j \<le> D k + 1))"

definition bfs_output ::
  "adjacency \<Rightarrow> trace_options \<Rightarrow> bool \<Rightarrow> (column_key \<Rightarrow> nat) \<Rightarrow> column_key list \<Rightarrow>
   (column_key \<times> nat) list \<Rightarrow> trace_edge list \<Rightarrow> bool \<Rightarrow> bool" where
  "bfs_output adj opts up D vis q edges truncated \<longleftrightarrow>
     set edges = {trace_edge_of up k (D k) e | k e. k \<in> left_queue vis q \<and> D k < to_max_depth opts \<and>
       e \<in> set (allowed_edges adj opts k)} \<and>
     (truncated \<longleftrightarrow> (\<exists>k \<in> left_queue vis q. to_max_depth opts \<le> D k))"

definition trace_inv ::
  "adjacency \<Rightarrow> trace_options \<Rightarrow> bool \<Rightarrow> column_key \<Rightarrow> (column_key \<Rightarrow> nat) \<Rightarrow> column_key list \<Rightarrow>
   (column_key \<times> nat) list \<Rightarrow> trace_edge list \<Rightarrow> bool \<Rightarrow> bool" where
  "trace_inv adj opts up s D vis q edges truncated \<longleftrightarrow>
     bfs_order D vis q \<and> bfs_reached (trace_rel adj opts) (to_max_depth opts) s D vis q \<and>
     bfs_output adj opts up D vis q edges truncated"

lemma left_queue_Cons:
  assumes "bfs_order D vis ((k, d) # q)"
  shows "left_queue vis q = insert k (left_queue vis ((k, d) # q))" "d = D k" "k \<in> set vis"
  using assms by (auto simp: bfs_order_def left_queue_def)

text \<open>A column at the depth limit is dropped.\<close>

lemma trace_inv_cut:
  assumes inv: "trace_inv adj opts up s D vis ((k, d) # q) edges truncated"
    and d: "to_max_depth opts \<le> d"
  shows "trace_inv adj opts up s D vis q edges True"
proof -
  from inv have o: "bfs_order D vis ((k, d) # q)" by (simp add: trace_inv_def)
  note lq = left_queue_Cons [OF o]
  have "bfs_order D vis q"
    using o by (cases q) (auto simp: bfs_order_def)
  moreover have "bfs_reached (trace_rel adj opts) (to_max_depth opts) s D vis q"
    using inv d lq by (auto simp: trace_inv_def bfs_reached_def)
  moreover have "bfs_output adj opts up D vis q edges True"
    using inv d lq unfolding trace_inv_def bfs_output_def by auto
  ultimately show ?thesis by (simp add: trace_inv_def)
qed

text \<open>Otherwise its neighbours are queued one deeper.\<close>

definition with_depth :: "(column_key \<Rightarrow> nat) \<Rightarrow> column_key set \<Rightarrow> nat \<Rightarrow> column_key \<Rightarrow> nat" where
  "with_depth D new d k = (if k \<in> new then d else D k)"

lemma trace_inv_step:
  assumes inv: "trace_inv adj opts up s D vis ((k, d) # q) edges truncated"
    and d: "d < to_max_depth opts"
    and enq: "enqueue_targets (allowed_edges adj opts k) (d + 1) vis q = (vis', q')"
  shows "\<exists>D'. trace_inv adj opts up s D' vis' q'
    (edges @ map (trace_edge_of up k d) (allowed_edges adj opts k)) truncated"
proof -
  from inv have o: "bfs_order D vis ((k, d) # q)"
    and r: "bfs_reached (trace_rel adj opts) (to_max_depth opts) s D vis ((k, d) # q)"
    and out: "bfs_output adj opts up D vis ((k, d) # q) edges truncated"
    by (simp_all add: trace_inv_def)
  note lq = left_queue_Cons [OF o]
  from enqueue_targets_spec [OF enq] obtain new where
    q': "q' = q @ map (\<lambda>k. (k, d + 1)) new" and
    vis': "set vis' = set vis \<union> ie_target ` set (allowed_edges adj opts k)" and
    new: "set new = ie_target ` set (allowed_edges adj opts k) - set vis" "distinct new" by blast
  define D' where "D' = with_depth D (set new) (d + 1)"
  have old: "D' j = D j" if "j \<in> set vis" for j using that new by (simp add: D'_def with_depth_def)
  have fresh: "D' j = d + 1" if "j \<in> set new" for j using that by (simp add: D'_def with_depth_def)
  have vis'': "set vis' = set vis \<union> set new" using vis' new by auto
  have nbr: "(k, j) \<in> trace_rel adj opts \<longleftrightarrow> j \<in> ie_target ` set (allowed_edges adj opts k)" for j
    by (auto simp: trace_rel_def)
  have left: "left_queue vis' q' = insert k (left_queue vis ((k, d) # q))"
  proof -
    have "fst ` set q' = fst ` set q \<union> set new" by (simp add: q' image_Un image_image)
    moreover have "fst ` set q \<subseteq> set vis" using o by (auto simp: bfs_order_def)
    moreover have "set new \<inter> set vis = {}" using new by blast
    ultimately have "left_queue vis' q' = left_queue vis q"
      unfolding left_queue_def vis'' by blast
    with lq(1) show ?thesis by simp
  qed
  have left_vis: "left_queue vis' q' \<subseteq> set vis" using left lq(3) by (auto simp: left_queue_def)
  have qs: "\<forall>(j, e) \<in> set q. j \<in> set vis \<and> e = D j \<and> d \<le> e \<and> e \<le> d + 1"
    using o by (fastforce simp: bfs_order_def)
  have "bfs_order D' vis' q'"
    unfolding bfs_order_def
  proof (intro conjI)
    show "\<forall>(j, e) \<in> set q'. j \<in> set vis' \<and> e = D' j"
      using qs old fresh by (auto simp: q' vis'')
    have "fst ` set q \<subseteq> set vis" using qs by auto
    then show "distinct (map fst q')"
      using o new by (auto simp: q' bfs_order_def comp_def)
    have "sorted (map snd q)" using o by (simp add: bfs_order_def)
    moreover have "map snd q' = map snd q @ replicate (length new) (d + 1)"
      by (simp add: q' comp_def map_replicate_const)
    moreover have "\<forall>e \<in> set (map snd q). e \<le> d + 1" using qs by auto
    ultimately show "sorted (map snd q')" by (auto simp: sorted_append)
    show "q' \<noteq> [] \<longrightarrow> (\<forall>j \<in> set vis'. D' j \<le> snd (hd q') + 1)"
    proof (intro impI ballI)
      fix j assume "q' \<noteq> []" and j: "j \<in> set vis'"
      then have "hd q' \<in> set q \<or> snd (hd q') = d + 1" by (cases q) (auto simp: q' hd_map)
      then have "d \<le> snd (hd q')" using qs by (cases "hd q'") auto
      moreover have "D' j \<le> d + 1"
        using j o old fresh by (auto simp: vis'' bfs_order_def)
      ultimately show "D' j \<le> snd (hd q') + 1" by simp
    qed
  qed
  moreover have "bfs_reached (trace_rel adj opts) (to_max_depth opts) s D' vis' q'"
    unfolding bfs_reached_def
  proof (intro conjI)
    show "s \<in> set vis'" "D' s = 0" using r old by (auto simp: bfs_reached_def vis'')
    have "(s, j) \<in> trace_rel adj opts ^^ (d + 1)" if "j \<in> set new" for j
    proof -
      have "(s, k) \<in> trace_rel adj opts ^^ d" using r lq by (simp add: bfs_reached_def)
      moreover have "(k, j) \<in> trace_rel adj opts" using that new nbr by auto
      ultimately show ?thesis by auto
    qed
    then show "\<forall>j \<in> set vis'. (s, j) \<in> trace_rel adj opts ^^ D' j \<and> D' j \<le> to_max_depth opts"
      using r d old fresh by (auto simp: bfs_reached_def vis'')
    show "\<forall>j \<in> left_queue vis' q'. D' j < to_max_depth opts \<longrightarrow>
        (\<forall>i. (j, i) \<in> trace_rel adj opts \<longrightarrow> i \<in> set vis' \<and> D' i \<le> D' j + 1)"
    proof (intro ballI impI allI)
      fix j i assume j: "j \<in> left_queue vis' q'" and dj: "D' j < to_max_depth opts"
        and ji: "(j, i) \<in> trace_rel adj opts"
      have Dj: "D' j = D j" using j left_vis old by blast
      show "i \<in> set vis' \<and> D' i \<le> D' j + 1"
      proof (cases "j = k")
        case True
        have i: "i \<in> set vis'" using ji nbr vis' True by auto
        have "D' i \<le> d + 1" using i o old fresh by (auto simp: vis'' bfs_order_def)
        with i Dj True lq show ?thesis by simp
      next
        case False
        with j left have "j \<in> left_queue vis ((k, d) # q)" by blast
        with r dj Dj ji have "i \<in> set vis" "D i \<le> D j + 1" by (auto simp: bfs_reached_def)
        with old Dj show ?thesis by (simp add: vis'')
      qed
    qed
  qed
  moreover have "bfs_output adj opts up D' vis' q'
      (edges @ map (trace_edge_of up k d) (allowed_edges adj opts k)) truncated"
  proof -
    have same: "D' j = D j" if "j \<in> insert k (left_queue vis ((k, d) # q))" for j
      using that left left_vis old by blast
    have "{trace_edge_of up j (D' j) e | j e. j \<in> left_queue vis' q' \<and> D' j < to_max_depth opts \<and>
        e \<in> set (allowed_edges adj opts j)} =
      {trace_edge_of up j (D j) e | j e. j \<in> left_queue vis ((k, d) # q) \<and> D j < to_max_depth opts \<and>
        e \<in> set (allowed_edges adj opts j)} \<union> trace_edge_of up k d ` set (allowed_edges adj opts k)"
      unfolding left using same lq(2) d by auto metis+
    moreover have "(\<exists>j \<in> left_queue vis' q'. to_max_depth opts \<le> D' j) \<longleftrightarrow>
        (\<exists>j \<in> left_queue vis ((k, d) # q). to_max_depth opts \<le> D j)"
      unfolding left using same lq(2) d by auto
    ultimately show ?thesis using out by (simp add: bfs_output_def)
  qed
  ultimately show ?thesis unfolding trace_inv_def by blast
qed

lemma trace_loop_inv:
  "trace_inv adj opts up s D vis q edges truncated \<Longrightarrow>
   trace_loop adj opts up q vis edges truncated = (edges', truncated') \<Longrightarrow>
   \<exists>D' vis'. trace_inv adj opts up s D' vis' [] edges' truncated'"
proof (induction adj opts up q vis edges truncated arbitrary: D rule: trace_loop.induct)
  case (1 adj opts up vis edges truncated)
  then show ?case by auto
next
  case (2 adj opts up k d q vis edges truncated)
  show ?case
  proof (cases "to_max_depth opts \<le> d")
    case True
    with "2.prems"(2) have "trace_loop adj opts up q vis edges True = (edges', truncated')" by simp
    from "2.IH"(1) [OF True trace_inv_cut [OF "2.prems"(1) True] this] show ?thesis .
  next
    case False
    then have d: "d < to_max_depth opts" by simp
    obtain vis1 q1 where e: "enqueue_targets (allowed_edges adj opts k) (d + 1) vis q = (vis1, q1)"
      by fastforce
    obtain D1 where inv: "trace_inv adj opts up s D1 vis1 q1
        (edges @ map (trace_edge_of up k d) (allowed_edges adj opts k)) truncated"
      using trace_inv_step [OF "2.prems"(1) d e] by blast
    from "2.prems"(2) False e have "trace_loop adj opts up q1 vis1
        (edges @ map (trace_edge_of up k d) (allowed_edges adj opts k)) truncated = (edges', truncated')"
      by simp
    from "2.IH"(2) [OF False e [symmetric] inv this] show ?thesis .
  qed
qed

text \<open>When the queue is empty, the depths are the distances.\<close>

lemma bfs_distances:
  assumes "bfs_reached R maxd s D vis []"
  shows "k \<in> set vis \<and> D k = n \<longleftrightarrow> n \<le> maxd \<and> at_distance R s k n"
proof -
  have lq: "left_queue vis [] = set vis" by (simp add: left_queue_def)
  have reach: "k \<in> set vis \<and> D k \<le> n" if "(s, k) \<in> R ^^ n" "n \<le> maxd" for k n
    using that
  proof (induction n arbitrary: k)
    case 0
    then show ?case using assms by (auto simp: bfs_reached_def)
  next
    case (Suc n)
    then obtain j where j: "(s, j) \<in> R ^^ n" "(j, k) \<in> R" by auto
    with Suc have "j \<in> set vis" "D j \<le> n" by auto
    moreover from this Suc.prems(2) have "D j < maxd" by simp
    ultimately have "k \<in> set vis" "D k \<le> D j + 1"
      using assms j(2) unfolding bfs_reached_def lq by blast+
    with \<open>D j \<le> n\<close> show ?case by simp
  qed
  have path: "(s, k) \<in> R ^^ D k" "D k \<le> maxd" if "k \<in> set vis" for k
    using assms that by (simp_all add: bfs_reached_def)
  show ?thesis
  proof
    assume k: "k \<in> set vis \<and> D k = n"
    have "(s, k) \<notin> R ^^ m" if "m < n" for m
    proof
      assume "(s, k) \<in> R ^^ m"
      with reach [of k m] k path [of k] that show False by auto
    qed
    with k path [of k] show "n \<le> maxd \<and> at_distance R s k n" by (auto simp: at_distance_def)
  next
    assume k: "n \<le> maxd \<and> at_distance R s k n"
    then have v: "k \<in> set vis" "D k \<le> n" using reach [of k n] by (auto simp: at_distance_def)
    moreover have "\<not> D k < n" using k path [OF v(1)] by (auto simp: at_distance_def)
    ultimately show "k \<in> set vis \<and> D k = n" by simp
  qed
qed

text \<open>
  C13: a trace returns exactly the allowed edges that leave a column nearer than the depth limit,
  each with its distance from the start plus one; it says it is truncated exactly when some
  column lies at the limit.
\<close>

theorem trace_correct:
  "set (tr_edges (trace s adj opts up)) =
     {trace_edge_of up k n e | k n e. n < to_max_depth opts \<and> at_distance (trace_rel adj opts) s k n \<and>
        e \<in> set (allowed_edges adj opts k)} \<and>
   (tr_truncated (trace s adj opts up) \<longleftrightarrow>
     (\<exists>k. at_distance (trace_rel adj opts) s k (to_max_depth opts)))"
proof -
  obtain edges truncated where run: "trace_loop adj opts up [(s, 0)] [s] [] False = (edges, truncated)"
    by fastforce
  have "trace_inv adj opts up s (\<lambda>_. 0) [s] [(s, 0)] [] False"
    by (auto simp: trace_inv_def bfs_order_def bfs_reached_def bfs_output_def left_queue_def)
  from trace_loop_inv [OF this run] obtain D vis where inv: "trace_inv adj opts up s D vis [] edges truncated"
    by blast
  then have dist: "k \<in> set vis \<and> D k = n \<longleftrightarrow> n \<le> to_max_depth opts \<and> at_distance (trace_rel adj opts) s k n" for k n
    by (intro bfs_distances) (simp add: trace_inv_def)
  have lq: "left_queue vis [] = set vis" by (simp add: left_queue_def)
  from inv have edges: "set edges = {trace_edge_of up k (D k) e | k e. k \<in> set vis \<and> D k < to_max_depth opts \<and>
       e \<in> set (allowed_edges adj opts k)}"
    and tr: "truncated \<longleftrightarrow> (\<exists>k \<in> set vis. to_max_depth opts \<le> D k)"
    by (simp_all add: trace_inv_def bfs_output_def lq)
  have "set edges = {trace_edge_of up k n e | k n e. n < to_max_depth opts \<and>
      at_distance (trace_rel adj opts) s k n \<and> e \<in> set (allowed_edges adj opts k)}"
    unfolding edges using dist by (auto simp: less_imp_le) (metis less_imp_le)+
  moreover have "truncated \<longleftrightarrow> (\<exists>k. at_distance (trace_rel adj opts) s k (to_max_depth opts))"
    unfolding tr using dist by (metis le_antisym order_refl)
  moreover have "trace s adj opts up = \<lparr>tr_origin = s, tr_edges = edges, tr_truncated = truncated\<rparr>"
    unfolding trace_def run by simp
  ultimately show ?thesis by simp
qed

text \<open>A trace that reaches a column without edges at the limit says it is truncated.\<close>

lemma truncated_without_cut:
  "tr_truncated (trace k [] \<lparr>to_max_depth = 0, to_relationships = {}, to_confidences = {}\<rparr> True)"
  by (simp add: trace_def)

subsection \<open>The graph's two adjacency maps\<close>

lemma kids_group: "kids (group_by key val xs) k = map val (filter (\<lambda>x. key x = k) xs)"
  by (auto simp: kids_def map_of_group_by filter_empty_conv)

text \<open>Without filters a trace follows the graph's edges, in either direction.\<close>

lemma towards_target [simp]: "ie_target (towards k e) = k"
  by (simp add: towards_def)

definition edge_relation :: "graph_edge list \<Rightarrow> (column_key \<times> column_key) set" where
  "edge_relation es = (\<lambda>e. (ge_up e, ge_down e)) ` set es"

lemma unfiltered: "allowed_edges adj \<lparr>to_max_depth = d, to_relationships = {}, to_confidences = {}\<rparr> k = kids adj k"
  by (simp add: allowed_edges_def edge_allowed_def)

text \<open>
  In a graph that was built from edge lists, an unfiltered downstream trace follows exactly
  the edges of the lists, and an upstream trace exactly their converse: what is upstream of one
  column at some distance has that column downstream at the same distance.
\<close>

theorem traces_are_converse:
  fixes opts :: trace_options
  assumes "to_relationships opts = {}" "to_confidences opts = {}"
  shows "trace_rel (cg_downstream (new_graph lc pes xes)) opts = edge_relation (graph_edges pes xes) \<and>
    trace_rel (cg_upstream (new_graph lc pes xes)) opts = (edge_relation (graph_edges pes xes))\<inverse> \<and>
    (at_distance (trace_rel (cg_upstream (new_graph lc pes xes)) opts) j k n \<longleftrightarrow>
     at_distance (trace_rel (cg_downstream (new_graph lc pes xes)) opts) k j n)"
proof -
  have allowed: "allowed_edges adj opts k = kids adj k" for adj k
    using assms by (simp add: allowed_edges_def edge_allowed_def)
  have down: "trace_rel (cg_downstream (new_graph lc pes xes)) opts = edge_relation (graph_edges pes xes)"
    by (force simp: trace_rel_def allowed new_graph_def Let_def kids_group edge_relation_def image_iff)
  have up: "trace_rel (cg_upstream (new_graph lc pes xes)) opts = (edge_relation (graph_edges pes xes))\<inverse>"
    by (force simp: trace_rel_def allowed new_graph_def Let_def kids_group edge_relation_def image_iff)
  have pow: "(j, k) \<in> (R\<inverse>) ^^ n \<longleftrightarrow> (k, j) \<in> R ^^ n" for R :: "(column_key \<times> column_key) set" and j k n
  proof (induction n arbitrary: j)
    case (Suc n)
    have "(j, k) \<in> R\<inverse> ^^ Suc n \<longleftrightarrow> (\<exists>i. (j, i) \<in> R\<inverse> \<and> (i, k) \<in> R\<inverse> ^^ n)"
      by (auto simp del: relpow.simps dest: relpow_Suc_D2 intro: relpow_Suc_I2)
    also have "\<dots> \<longleftrightarrow> (\<exists>i. (k, i) \<in> R ^^ n \<and> (i, j) \<in> R)" using Suc by auto
    finally show ?case by auto
  qed auto
  show ?thesis by (simp add: up down at_distance_def pow)
qed

theorem traces_are_converse_witness:
  "trace_rel (cg_downstream (new_graph (\<lambda>s. s) [] [])) default_trace_options = {}"
  using traces_are_converse [of default_trace_options "\<lambda>s. s" "[]" "[]"]
  by (simp add: default_trace_options_def edge_relation_def graph_edges_def)

subsection \<open>Cross-pipeline matching\<close>

definition is_counterpart :: "(string \<Rightarrow> string) \<Rightarrow> boundary_column \<Rightarrow> boundary_column \<Rightarrow> bool" where
  "is_counterpart lc a b \<longleftrightarrow> bnd_direction a \<noteq> bnd_direction b \<and> boundary_key lc a = boundary_key lc b"

lemma set_kids_boundary:
  "set (kids (group_by (boundary_key lc) id (filter (\<lambda>b. bnd_direction b = d) bcs)) key) =
     {b \<in> set bcs. bnd_direction b = d \<and> boundary_key lc b = key}"
  by (auto simp: kids_group)

lemma map_of_boundary:
  "map_of (group_by (boundary_key lc) id (filter (\<lambda>b. bnd_direction b = d) bcs)) key =
     (if \<exists>b \<in> set bcs. bnd_direction b = d \<and> boundary_key lc b = key
      then Some (kids (group_by (boundary_key lc) id (filter (\<lambda>b. bnd_direction b = d) bcs)) key) else None)"
  by (auto simp: kids_def map_of_group_by)

lemma Union_grouped:
  "(\<Union>k \<in> f ` A. if P k then g ` {b \<in> A. f b = k} else {}) = g ` {b \<in> A. P (f b)}"
  by auto

lemma set_unmatched:
  "set (unmatched side these others key) =
     (if map_of others key = None then one_sided_of side ` set (kids these key) else {})"
  by (simp add: unmatched_def)

text \<open>
  Cross-pipeline column edges are exactly the pairs of a sink and a source column of the same
  resource and the same canonical name, on different nodes; the columns reported as one-sided are
  exactly those with no counterpart on the other side; both lists are sorted.
\<close>

theorem derive_cross_pipeline_correct:
  assumes "hash_order ord"
  shows "(x \<in> set (cl_edges (derive_cross_pipeline_column_lineage lc ord bcs)) \<longleftrightarrow>
      (\<exists>snk \<in> set bcs. \<exists>src \<in> set bcs. bnd_direction snk = BdSink \<and> bnd_direction src = BdSource \<and>
         is_counterpart lc snk src \<and> \<not> same_boundary_node snk src \<and> x = cross_edge_of snk src)) \<and>
    (c \<in> set (cl_one_sided (derive_cross_pipeline_column_lineage lc ord bcs)) \<longleftrightarrow>
      (\<exists>b \<in> set bcs. (\<forall>b' \<in> set bcs. \<not> is_counterpart lc b b') \<and>
         c = one_sided_of (if bnd_direction b = BdSink then SinkOnly else SourceOnly) b)) \<and>
    sorted (map (\<lambda>e. (xe_fingerprint e, xe_column e, xe_up_pipeline e, xe_down_pipeline e))
      (cl_edges (derive_cross_pipeline_column_lineage lc ord bcs))) \<and>
    sorted (map (\<lambda>c. (os_fingerprint c, os_column c, one_sided_str (os_side c)))
      (cl_one_sided (derive_cross_pipeline_column_lineage lc ord bcs)))"
  (is "?edges \<and> ?sides \<and> ?sorted \<and> ?sorted2")
proof -
  define sinks where "sinks = group_by (boundary_key lc) id (filter (\<lambda>b. bnd_direction b = BdSink) bcs)"
  define sources where "sources = group_by (boundary_key lc) id (filter (\<lambda>b. bnd_direction b = BdSource) bcs)"
  have keys: "set (ord (map fst sinks)) = boundary_key lc ` {b \<in> set bcs. bnd_direction b = BdSink}"
    "set (ord (map fst sources)) = boundary_key lc ` {b \<in> set bcs. bnd_direction b = BdSource}"
    by (simp_all add: hash_orderD [OF assms] sinks_def sources_def set_fst_group_by Collect_conj_eq Int_commute)
  have dir: "bnd_direction b \<noteq> BdSink \<longleftrightarrow> bnd_direction b = BdSource" for b
    by (cases "bnd_direction b") auto
  have dir': "bnd_direction b \<noteq> BdSource \<longleftrightarrow> bnd_direction b = BdSink" for b
    by (cases "bnd_direction b") auto
  note maps = map_of_boundary [of lc BdSink bcs, folded sinks_def]
    map_of_boundary [of lc BdSource bcs, folded sources_def]
    set_kids_boundary [of lc BdSink bcs, folded sinks_def]
    set_kids_boundary [of lc BdSource bcs, folded sources_def]
  have res: "derive_cross_pipeline_column_lineage lc ord bcs =
      \<lparr>cl_edges = sort_key (\<lambda>e. (xe_fingerprint e, xe_column e, xe_up_pipeline e, xe_down_pipeline e))
            (concat (map (matched_edges sinks sources) (ord (map fst sinks)))),
          cl_one_sided = sort_key (\<lambda>c. (os_fingerprint c, os_column c, one_sided_str (os_side c)))
            (concat (map (unmatched SinkOnly sinks sources) (ord (map fst sinks))) @
             concat (map (unmatched SourceOnly sources sinks) (ord (map fst sources))))\<rparr>"
    by (simp add: derive_cross_pipeline_column_lineage_def sinks_def sources_def Let_def)
  have ?sorted ?sorted2 by (simp_all add: res)
  moreover have ?edges
    by (force simp: res keys matched_edges_def maps is_counterpart_def split: if_splits)
  moreover have ?sides
  proof -
    have other: "(\<forall>b' \<in> set bcs. \<not> is_counterpart lc b b') \<longleftrightarrow>
        (\<forall>b' \<in> set bcs. bnd_direction b' \<noteq> bnd_direction b \<longrightarrow> boundary_key lc b' \<noteq> boundary_key lc b)" for b
      by (auto simp: is_counterpart_def)
    have sinks: "c \<in> (\<Union>key \<in> set (ord (map fst sinks)). set (unmatched SinkOnly sinks sources key)) \<longleftrightarrow>
        (\<exists>b \<in> set bcs. bnd_direction b = BdSink \<and> (\<forall>b' \<in> set bcs. \<not> is_counterpart lc b b') \<and>
           c = one_sided_of SinkOnly b)"
      using Union_grouped [where g = "one_sided_of SinkOnly" and f = "boundary_key lc" and A = "{b \<in> set bcs. bnd_direction b = BdSink}"
          and P = "\<lambda>key. map_of sources key = None"]
      by (auto simp: keys set_unmatched maps other dir)
    have srcs: "c \<in> (\<Union>key \<in> set (ord (map fst sources)). set (unmatched SourceOnly sources sinks key)) \<longleftrightarrow>
        (\<exists>b \<in> set bcs. bnd_direction b = BdSource \<and> (\<forall>b' \<in> set bcs. \<not> is_counterpart lc b b') \<and>
           c = one_sided_of SourceOnly b)"
      using Union_grouped [where g = "one_sided_of SourceOnly" and f = "boundary_key lc" and A = "{b \<in> set bcs. bnd_direction b = BdSource}"
          and P = "\<lambda>key. map_of sinks key = None"]
      by (auto simp: keys set_unmatched maps other dir')
    have "c \<in> set (cl_one_sided (derive_cross_pipeline_column_lineage lc ord bcs)) \<longleftrightarrow>
        (\<exists>b \<in> set bcs. bnd_direction b = BdSink \<and> (\<forall>b' \<in> set bcs. \<not> is_counterpart lc b b') \<and>
           c = one_sided_of SinkOnly b) \<or>
        (\<exists>b \<in> set bcs. bnd_direction b = BdSource \<and> (\<forall>b' \<in> set bcs. \<not> is_counterpart lc b b') \<and>
           c = one_sided_of SourceOnly b)"
      unfolding sinks [symmetric] srcs [symmetric] by (simp add: res)
    moreover have "Q \<and> c = one_sided_of (if bnd_direction b = BdSink then SinkOnly else SourceOnly) b \<longleftrightarrow>
        bnd_direction b = BdSink \<and> Q \<and> c = one_sided_of SinkOnly b \<or>
        bnd_direction b = BdSource \<and> Q \<and> c = one_sided_of SourceOnly b" for Q b
      by (cases "bnd_direction b") auto
    ultimately show ?thesis by (simp add: bex_disj_distrib)
  qed
  ultimately show ?thesis by (intro conjI)
qed

definition sample_sink :: boundary_column where
  "sample_sink = \<lparr>bnd_pipeline = ''p'', bnd_node = ''w'', bnd_column = ''id'', bnd_fingerprint = ''t'',
     bnd_direction = BdSink\<rparr>"

definition sample_source :: boundary_column where
  "sample_source = \<lparr>bnd_pipeline = ''q'', bnd_node = ''r'', bnd_column = ''id'', bnd_fingerprint = ''t'',
     bnd_direction = BdSource\<rparr>"

theorem derive_cross_pipeline_correct_witness:
  "cross_edge_of sample_sink sample_source
     \<in> set (cl_edges (derive_cross_pipeline_column_lineage (\<lambda>s. s) (\<lambda>xs. xs) [sample_sink, sample_source]))"
  using derive_cross_pipeline_correct [of "\<lambda>xs. xs" "cross_edge_of sample_sink sample_source" "\<lambda>s. s"
      "[sample_sink, sample_source]"]
  by (auto simp: sample_sink_def sample_source_def is_counterpart_def boundary_key_def same_boundary_node_def)

end
