(* ===== verification/Snapshot.thy ===== *)
theory Snapshot
  imports Pipeline_Model
begin

text \<open>
  \<open>snapshot.rs\<close>: the planner of SCD2 snapshots.  The hash is FNV-1a on 64-bit words; the
  planner classifies the staged rows against the current versions of the target.  \<open>ord\<close> is the
  iteration order of the map of target rows left over.
\<close>

subsection \<open>Metadata columns\<close>

datatype scd_column_type = ScdTimestampMicros | ScdBool | ScdString

record scd_metadata_column =
  scd_name :: string
  scd_type :: scd_column_type
  scd_not_null :: bool

definition scd_metadata_columns :: "scd_metadata_column list" where
  "scd_metadata_columns = [
     \<lparr>scd_name = ''armillary_scd_id'', scd_type = ScdString, scd_not_null = True\<rparr>,
     \<lparr>scd_name = ''armillary_valid_from'', scd_type = ScdTimestampMicros, scd_not_null = True\<rparr>,
     \<lparr>scd_name = ''armillary_valid_to'', scd_type = ScdTimestampMicros, scd_not_null = False\<rparr>,
     \<lparr>scd_name = ''armillary_is_current'', scd_type = ScdBool, scd_not_null = True\<rparr>]"

subsection \<open>Hashing\<close>

definition FNV_OFFSET :: u64 where "FNV_OFFSET = 0xcbf29ce484222325"
definition FNV_PRIME :: u64 where "FNV_PRIME = 0x00000100000001b3"

definition fnv_byte :: "u64 \<Rightarrow> u64 \<Rightarrow> u64" where
  "fnv_byte b hash = xor hash b * FNV_PRIME"

definition fnv_string :: "string \<Rightarrow> u64 \<Rightarrow> u64" where
  "fnv_string s hash = fold (\<lambda>c. fnv_byte (of_char c)) s hash"

fun fnv_loop :: "string option list \<Rightarrow> u64 \<Rightarrow> bool \<Rightarrow> u64" where
  "fnv_loop [] hash first = hash"
| "fnv_loop (field # fs) hash first =
     (let hash1 = if first then hash else fnv_byte 0xFE hash
      in fnv_loop fs
        (case field of None \<Rightarrow> fnv_byte 0 hash1 | Some s \<Rightarrow> fnv_string s (fnv_byte 1 hash1)) False)"

definition fnv1a_fields :: "string option list \<Rightarrow> u64" where
  "fnv1a_fields fs = fnv_loop fs FNV_OFFSET True"

definition check_hash :: "string option list \<Rightarrow> u64" where
  "check_hash values = fnv1a_fields values"

text \<open>\<open>format!("{:016x}")\<close>: sixteen lower-case hex digits.\<close>

definition hex_char :: "nat \<Rightarrow> char" where
  "hex_char d = (if d < 10 then char_of (48 + d) else char_of (87 + d))"

primrec hex_digits :: "nat \<Rightarrow> nat \<Rightarrow> string" where
  "hex_digits 0 n = []"
| "hex_digits (Suc k) n = hex_digits k (n div 16) @ [hex_char (n mod 16)]"

definition hex16 :: "u64 \<Rightarrow> string" where
  "hex16 w = hex_digits 16 (unat w)"

definition surrogate_key :: "string option list \<Rightarrow> int \<Rightarrow> string" where
  "surrogate_key unique_key_values valid_from_micros =
     hex16 (fnv1a_fields (unique_key_values @ [Some (show_int valid_from_micros)]))"

subsection \<open>Planning a merge\<close>

datatype row_classification = Unchanged | Changed | New | Gone

record classified_row =
  cr_unique_key :: "string list"
  cr_classification :: row_classification

record merge_stats =
  ms_unchanged :: nat
  ms_changed :: nat
  ms_new_versions :: nat
  ms_gone :: nat
  ms_invalidated_deletes :: nat
  ms_physical_deletes :: nat

definition zero_stats :: merge_stats where
  "zero_stats = \<lparr>ms_unchanged = 0, ms_changed = 0, ms_new_versions = 0, ms_gone = 0,
     ms_invalidated_deletes = 0, ms_physical_deletes = 0\<rparr>"

definition receipt_rows_inserted :: "merge_stats \<Rightarrow> nat" where
  "receipt_rows_inserted st = ms_new_versions st + ms_changed st"

definition receipt_rows_updated :: "merge_stats \<Rightarrow> nat" where
  "receipt_rows_updated st = ms_changed st + ms_invalidated_deletes st"

definition receipt_rows_deleted :: "merge_stats \<Rightarrow> nat" where
  "receipt_rows_deleted st = ms_physical_deletes st"

text \<open>A staged row and a current target row have the same two fields.\<close>

record snapshot_row =
  sr_unique_key :: "string list"
  sr_signal :: int

record snapshot_plan =
  pl_rows :: "classified_row list"
  pl_stats :: merge_stats

definition classified :: "row_classification \<Rightarrow> string list \<Rightarrow> classified_row" where
  "classified c k = \<lparr>cr_unique_key = k, cr_classification = c\<rparr>"

fun plan_staged ::
  "snapshot_row list \<Rightarrow> (string list \<times> int) list \<Rightarrow> merge_stats \<Rightarrow>
   classified_row list \<times> (string list \<times> int) list \<times> merge_stats" where
  "plan_staged [] cur st = ([], cur, st)"
| "plan_staged (s # ss) cur st =
     (let k = sr_unique_key s; cur' = AList.delete k cur;
          (c, st') = (case map_of cur k of
              None \<Rightarrow> (New, st\<lparr>ms_new_versions := ms_new_versions st + 1\<rparr>)
            | Some signal \<Rightarrow>
                if signal = sr_signal s then (Unchanged, st\<lparr>ms_unchanged := ms_unchanged st + 1\<rparr>)
                else (Changed, st\<lparr>ms_changed := ms_changed st + 1\<rparr>));
          (rows, rest, st'') = plan_staged ss cur' st'
      in (classified c k # rows, rest, st''))"

fun plan_gone :: "hard_deletes \<Rightarrow> string list list \<Rightarrow> merge_stats \<Rightarrow> classified_row list \<times> merge_stats" where
  "plan_gone dels [] st = ([], st)"
| "plan_gone dels (k # ks) st =
     (let st1 = st\<lparr>ms_gone := ms_gone st + 1\<rparr>;
          st2 = (case dels of
              Ignore \<Rightarrow> st1
            | Invalidate \<Rightarrow> st1\<lparr>ms_invalidated_deletes := ms_invalidated_deletes st1 + 1\<rparr>
            | Delete \<Rightarrow> st1\<lparr>ms_physical_deletes := ms_physical_deletes st1 + 1\<rparr>);
          (rows, st3) = plan_gone dels ks st2
      in (classified Gone k # rows, st3))"

definition current_map :: "snapshot_row list \<Rightarrow> (string list \<times> int) list" where
  "current_map rows = fold (\<lambda>r. AList.update (sr_unique_key r) (sr_signal r)) rows []"

definition plan_snapshot_merge ::
  "(string list list \<Rightarrow> string list list) \<Rightarrow> snapshot_row list \<Rightarrow> snapshot_row list \<Rightarrow>
   change_detection \<Rightarrow> hard_deletes \<Rightarrow> snapshot_plan" where
  "plan_snapshot_merge ord current staged cd dels =
     (let (rows, rest, st) = plan_staged staged (current_map current) zero_stats;
          (gone, st') = plan_gone dels (ord (map fst rest)) st
      in \<lparr>pl_rows = rows @ gone, pl_stats = st'\<rparr>)"

subsection \<open>The bytes that are hashed\<close>

definition field_bytes :: "string option \<Rightarrow> string" where
  "field_bytes f = (case f of None \<Rightarrow> [CHR 0x00] | Some s \<Rightarrow> CHR 0x01 # s)"

abbreviation separator :: char where
  "separator \<equiv> CHR 0xFE"

fun fields_bytes :: "string option list \<Rightarrow> string" where
  "fields_bytes [] = []"
| "fields_bytes [f] = field_bytes f"
| "fields_bytes (f # g # fs) = field_bytes f @ separator # fields_bytes (g # fs)"

text \<open>No byte of a UTF-8 text is \<open>0xFE\<close>.\<close>

definition text_fields :: "string option list \<Rightarrow> bool" where
  "text_fields fs \<longleftrightarrow> (\<forall>f \<in> set fs. \<forall>s. f = Some s \<longrightarrow> separator \<notin> set s)"

lemma field_step:
  "(case f of None \<Rightarrow> fnv_byte 0 h | Some s \<Rightarrow> fnv_string s (fnv_byte 1 h)) = fnv_string (field_bytes f) h"
  by (cases f) (simp_all add: fnv_string_def field_bytes_def)

lemma fnv_string_append: "fnv_string (s @ t) h = fnv_string t (fnv_string s h)"
  by (simp add: fnv_string_def)

lemma fnv_loop_False:
  "fs \<noteq> [] \<Longrightarrow> fnv_loop fs h False = fnv_string (separator # fields_bytes fs) h"
proof (induction fs arbitrary: h rule: fields_bytes.induct)
  case 1
  then show ?case by simp
next
  case (2 f)
  show ?case by (simp add: field_step) (simp add: fnv_string_def)
next
  case (3 f g fs)
  let ?h = "fnv_byte 0xFE h"
  have "fnv_loop (f # g # fs) h False = fnv_loop (g # fs) (fnv_string (field_bytes f) ?h) False"
    by (simp add: field_step)
  also have "\<dots> = fnv_string (separator # fields_bytes (g # fs)) (fnv_string (field_bytes f) ?h)"
    by (rule "3.IH") simp
  also have "\<dots> = fnv_string (separator # fields_bytes (f # g # fs)) h"
    by (simp add: fnv_string_append [symmetric]) (simp add: fnv_string_def)
  finally show ?case .
qed

lemma fnv1a_fields_bytes: "fnv1a_fields fs = fnv_string (fields_bytes fs) FNV_OFFSET"
proof (cases fs rule: fields_bytes.cases)
  case (3 f g fs')
  have "fnv1a_fields fs = fnv_loop (g # fs') (fnv_string (field_bytes f) FNV_OFFSET) False"
    by (simp add: 3 fnv1a_fields_def field_step)
  also have "\<dots> = fnv_string (separator # fields_bytes (g # fs')) (fnv_string (field_bytes f) FNV_OFFSET)"
    by (rule fnv_loop_False) simp
  finally show ?thesis by (simp add: 3 fnv_string_append)
qed (simp_all add: fnv1a_fields_def field_step fnv_string_def)

lemma split_at_first:
  fixes c :: char
  assumes "a @ c # b = a' @ c # b'" "c \<notin> set a" "c \<notin> set a'"
  shows "a = a' \<and> b = b'"
proof -
  have "Some (a, b) = find_char c (a @ c # b)" by (rule find_char_append [OF assms(2), symmetric])
  also have "\<dots> = Some (a', b')" unfolding assms(1) by (rule find_char_append [OF assms(3)])
  finally show ?thesis by simp
qed

lemma field_bytes_inj: "field_bytes f = field_bytes g \<longleftrightarrow> f = g"
  by (auto simp: field_bytes_def split: option.splits)

lemma separator_field:
  "(\<forall>s. f = Some s \<longrightarrow> separator \<notin> set s) \<Longrightarrow> separator \<notin> set (field_bytes f)"
  by (cases f) (simp_all add: field_bytes_def)

lemma fields_bytes_inj:
  "text_fields fs \<Longrightarrow> text_fields gs \<Longrightarrow> fields_bytes fs = fields_bytes gs \<longleftrightarrow> fs = gs"
proof (induction fs arbitrary: gs rule: fields_bytes.induct)
  case 1
  then show ?case by (cases gs rule: fields_bytes.cases) (auto simp: field_bytes_def split: option.splits)
next
  case (2 f)
  then have "separator \<notin> set (field_bytes f)" by (intro separator_field) (simp add: text_fields_def)
  then show ?case
    by (cases gs rule: fields_bytes.cases) (auto simp: field_bytes_inj field_bytes_def split: option.splits)
next
  case (3 f g fs)
  have sep: "separator \<notin> set (field_bytes f)"
    using "3.prems" by (intro separator_field) (simp add: text_fields_def)
  show ?case
  proof (cases gs rule: fields_bytes.cases)
    case (3 f' g' fs')
    have "separator \<notin> set (field_bytes f')"
      using "3.prems" 3 by (intro separator_field) (simp add: text_fields_def)
    moreover have "fields_bytes (g # fs) = fields_bytes (g' # fs') \<longleftrightarrow> g # fs = g' # fs'"
      using "3.prems" 3 by (intro "3.IH") (simp_all add: text_fields_def)
    ultimately show ?thesis
      using sep split_at_first [of "field_bytes f" separator _ "field_bytes f'"]
      by (auto simp: 3 field_bytes_inj)
  next
    case (2 f')
    have "separator \<notin> set (field_bytes f')"
      using "3.prems" 2 by (intro separator_field) (simp add: text_fields_def)
    then have "fields_bytes gs \<noteq> fields_bytes (f # g # fs)" using 2 by (auto dest: arg_cong [of _ _ set])
    then show ?thesis using 2 by auto
  qed (simp add: field_bytes_def)
qed

text \<open>
  The hashed bytes determine the fields: two field lists with equal bytes are equal, an absent
  value differing from an empty text and no boundary being lost.  So two hashes of different
  fields are equal only by a collision of FNV-1a itself.
\<close>

theorem fnv1a_fields_injective_encoding:
  assumes "text_fields fs" "text_fields gs"
  shows "fnv1a_fields fs = fnv_string (fields_bytes fs) FNV_OFFSET \<and>
    (fields_bytes fs = fields_bytes gs \<longleftrightarrow> fs = gs)"
  by (simp add: fnv1a_fields_bytes fields_bytes_inj [OF assms])

theorem fnv1a_fields_injective_encoding_witness:
  "fields_bytes [None, Some ''x''] \<noteq> fields_bytes [Some [], Some ''x'']"
  using fnv1a_fields_injective_encoding [of "[None, Some ''x'']" "[Some [], Some ''x'']"]
  by (simp add: text_fields_def)

subsection \<open>Surrogate keys\<close>

definition hex_val :: "char \<Rightarrow> nat" where
  "hex_val c = (let b = of_char c :: nat in if b < 58 then b - 48 else b - 87)"

definition hex_value :: "string \<Rightarrow> nat" where
  "hex_value s = foldl (\<lambda>n c. 16 * n + hex_val c) 0 s"

lemma hex_val_char: "d < 16 \<Longrightarrow> hex_val (hex_char d) = d"
  by (simp add: hex_val_def hex_char_def Let_def)

lemma hex_value_digits: "n < 16 ^ k \<Longrightarrow> hex_value (hex_digits k n) = n"
proof (induction k arbitrary: n)
  case 0
  then show ?case by (simp add: hex_value_def)
next
  case (Suc k)
  then have "n div 16 < 16 ^ k" by (simp add: less_mult_imp_div_less mult.commute)
  from Suc.IH [OF this] show ?case by (simp add: hex_value_def hex_val_char)
qed

lemma length_hex_digits: "length (hex_digits k n) = k"
  by (induction k arbitrary: n) simp_all

lemma length_hex16: "length (hex16 w) = 16"
  by (simp add: hex16_def length_hex_digits)

lemma hex16_eq_iff: "hex16 v = hex16 w \<longleftrightarrow> v = w"
proof
  assume "hex16 v = hex16 w"
  moreover have "unat x < 16 ^ 16" for x :: u64 using unsigned_less [of x] by simp
  ultimately have "unat v = unat w" unfolding hex16_def by (metis hex_value_digits)
  then show "v = w" by (simp add: word_unat_eq_iff)
qed simp

lemma show_nat_eq_iff: "show_nat m = show_nat n \<longleftrightarrow> m = n"
  using parse_digits_show_nat by (metis option.inject)

lemma show_int_eq_iff: "show_int i = show_int j \<longleftrightarrow> i = j"
proof -
  have "show_nat m \<noteq> CHR ''-'' # s" for m s
    using show_nat_digits [of "CHR ''-''" m] by (auto simp: is_digit_def)
  then show ?thesis
    by (auto simp: show_int_def show_nat_eq_iff split: if_splits) (metis (no_types))+
qed

lemma show_int_text: "separator \<notin> set (show_int i)"
  using show_nat_digits [of separator "nat i"] show_nat_digits [of separator "nat (- i)"]
  by (auto simp: show_int_def is_digit_def split: if_splits)

text \<open>
  A surrogate key is sixteen hex digits, and two versions share it only when they are the same
  version, or their distinct byte strings collide under FNV-1a.
\<close>

theorem surrogate_key_correct:
  assumes "text_fields ks" "text_fields ls"
  shows "length (surrogate_key ks t) = 16 \<and>
    (surrogate_key ks t = surrogate_key ls u \<longleftrightarrow> ks = ls \<and> t = u \<or>
       fields_bytes (ks @ [Some (show_int t)]) \<noteq> fields_bytes (ls @ [Some (show_int u)]) \<and>
       fnv_string (fields_bytes (ks @ [Some (show_int t)])) FNV_OFFSET =
       fnv_string (fields_bytes (ls @ [Some (show_int u)])) FNV_OFFSET)"
proof -
  have "text_fields (ks @ [Some (show_int t)])" "text_fields (ls @ [Some (show_int u)])"
    using assms show_int_text by (auto simp: text_fields_def)
  from fields_bytes_inj [OF this] show ?thesis
    by (auto simp: surrogate_key_def hex16_eq_iff fnv1a_fields_bytes length_hex16 show_int_eq_iff)
qed

theorem surrogate_key_correct_witness:
  "length (surrogate_key [Some ''k''] 7) = 16"
  using surrogate_key_correct [of "[Some ''k'']" "[Some ''k'']" 7 7] by (simp add: text_fields_def)

subsection \<open>The plan\<close>

text \<open>How one staged row compares with the target, and the counters as counts of the rows.\<close>

definition classify :: "(string list \<rightharpoonup> int) \<Rightarrow> snapshot_row \<Rightarrow> row_classification" where
  "classify cur s = (case cur (sr_unique_key s) of
      None \<Rightarrow> New | Some signal \<Rightarrow> if signal = sr_signal s then Unchanged else Changed)"

definition class_count :: "row_classification \<Rightarrow> classified_row list \<Rightarrow> nat" where
  "class_count c rows = length (filter (\<lambda>r. cr_classification r = c) rows)"

lemma class_count_simps [simp]:
  "class_count c [] = 0"
  "class_count c (classified d k # rows) = (if c = d then 1 else 0) + class_count c rows"
  "class_count c (rows @ rows') = class_count c rows + class_count c rows'"
  by (simp_all add: class_count_def classified_def)

lemma plan_staged_spec:
  assumes "plan_staged ss cur st = (rows, rest, st')"
  shows "(distinct (map sr_unique_key ss) \<longrightarrow>
      rows = map (\<lambda>s. classified (classify (map_of cur) s) (sr_unique_key s)) ss) \<and>
    map fst rest = filter (\<lambda>k. k \<notin> sr_unique_key ` set ss) (map fst cur) \<and>
    class_count Gone rows = 0 \<and>
    st' = st\<lparr>ms_unchanged := ms_unchanged st + class_count Unchanged rows,
       ms_changed := ms_changed st + class_count Changed rows,
       ms_new_versions := ms_new_versions st + class_count New rows\<rparr>"
  using assms
proof (induction ss arbitrary: cur st rows)
  case Nil
  then show ?case by simp
next
  case (Cons s ss)
  let ?k = "sr_unique_key s"
  define st1 where "st1 = (case map_of cur ?k of
              None \<Rightarrow> st\<lparr>ms_new_versions := ms_new_versions st + 1\<rparr>
            | Some signal \<Rightarrow>
                if signal = sr_signal s then st\<lparr>ms_unchanged := ms_unchanged st + 1\<rparr>
                else st\<lparr>ms_changed := ms_changed st + 1\<rparr>)"
  obtain rows1 where p: "plan_staged ss (AList.delete ?k cur) st1 = (rows1, rest, st')"
    and rows: "rows = classified (classify (map_of cur) s) ?k # rows1"
    using Cons.prems
    by (auto simp: Let_def classify_def st1_def split: option.splits if_splits prod.splits)
  note IH = Cons.IH [OF p]
  have same: "classify (map_of (AList.delete ?k cur)) s' = classify (map_of cur) s'"
    if "sr_unique_key s' \<noteq> ?k" for s'
    using that by (simp add: classify_def delete_conv')
  have keys: "map fst (AList.delete ?k cur) = filter (\<lambda>k. k \<noteq> ?k) (map fst cur)"
    by (auto simp: AList.delete_eq filter_map comp_def intro!: arg_cong [of _ _ "map fst"] filter_cong)
  have "map fst rest = filter (\<lambda>k. k \<notin> sr_unique_key ` set (s # ss)) (map fst cur)"
    using IH by (simp add: keys conj_commute)
  moreover have "rows = map (\<lambda>s. classified (classify (map_of cur) s) (sr_unique_key s)) (s # ss)"
    if "distinct (map sr_unique_key (s # ss))"
  proof -
    from that have new: "?k \<notin> sr_unique_key ` set ss" by simp
    have "classify (map_of (AList.delete ?k cur)) s' = classify (map_of cur) s'" if "s' \<in> set ss" for s'
    proof (rule same)
      show "sr_unique_key s' \<noteq> ?k" using new that by (metis image_eqI)
    qed
    then have "map (\<lambda>s. classified (classify (map_of (AList.delete ?k cur)) s) (sr_unique_key s)) ss =
        map (\<lambda>s. classified (classify (map_of cur) s) (sr_unique_key s)) ss" by simp
    with IH rows that show ?thesis by simp
  qed

  ultimately show ?case using IH rows
    by (auto simp: st1_def classify_def split: option.splits)
qed

lemma plan_gone_spec:
  "plan_gone dels ks st = (map (classified Gone) ks, st\<lparr>ms_gone := ms_gone st + length ks,
     ms_invalidated_deletes := ms_invalidated_deletes st + (if dels = Invalidate then length ks else 0),
     ms_physical_deletes := ms_physical_deletes st + (if dels = Delete then length ks else 0)\<rparr>)"
  by (induction ks arbitrary: st) (auto simp: Let_def split: hard_deletes.splits)

lemma current_map_fold:
  "map_of (fold (\<lambda>r. AList.update (sr_unique_key r) (sr_signal r)) rows m) =
     map_of m ++ map_of (rev (map (\<lambda>r. (sr_unique_key r, sr_signal r)) rows))"
  "distinct (map fst m) \<Longrightarrow>
   distinct (map fst (fold (\<lambda>r. AList.update (sr_unique_key r) (sr_signal r)) rows m))"
  by (induction rows arbitrary: m) (auto simp: update_conv' distinct_update)

lemma current_map_get:
  "map_of (current_map rows) = map_of (rev (map (\<lambda>r. (sr_unique_key r, sr_signal r)) rows))"
  by (simp add: current_map_def current_map_fold)

lemma current_map_keys:
  "set (map fst (current_map rows)) = sr_unique_key ` set rows" "distinct (map fst (current_map rows))"
proof -
  have "set (map fst (current_map rows)) = dom (map_of (current_map rows))"
    by (simp add: dom_map_of_conv_image_fst)
  then show "set (map fst (current_map rows)) = sr_unique_key ` set rows"
    by (simp add: current_map_get dom_map_of_conv_image_fst image_image)
  show "distinct (map fst (current_map rows))"
    by (simp add: current_map_def current_map_fold)
qed

text \<open>
  C12: the plan of a batch whose keys are distinct: each staged row is new, unchanged or changed as
  its key is absent from the target, or has an equal or a different signal there (the last
  current row of a key counts), in the order of the batch; then each key only the target
  has is gone, once.
\<close>

theorem plan_snapshot_merge_correct:
  assumes "hash_order ord" "distinct (map sr_unique_key staged)"
  shows "\<exists>gone. pl_rows (plan_snapshot_merge ord current staged cd dels) =
      map (\<lambda>s. classified (classify (map_of (rev (map (\<lambda>r. (sr_unique_key r, sr_signal r)) current))) s)
        (sr_unique_key s)) staged @ map (classified Gone) gone \<and>
    distinct gone \<and> set gone = sr_unique_key ` set current - sr_unique_key ` set staged"
proof -
  obtain rows rest st where p: "plan_staged staged (current_map current) zero_stats = (rows, rest, st)"
    by (metis prod_cases3)
  note spec = plan_staged_spec [OF p]
  have rest: "set (map fst rest) = sr_unique_key ` set current - sr_unique_key ` set staged"
    "distinct (map fst rest)"
    using spec current_map_keys [of current] by auto
  show ?thesis
  proof (intro exI conjI)
    show "pl_rows (plan_snapshot_merge ord current staged cd dels) =
      map (\<lambda>s. classified (classify (map_of (rev (map (\<lambda>r. (sr_unique_key r, sr_signal r)) current))) s)
        (sr_unique_key s)) staged @ map (classified Gone) (ord (map fst rest))"
      using spec assms(2) by (simp add: plan_snapshot_merge_def p plan_gone_spec current_map_get)
    show "distinct (ord (map fst rest))"
      "set (ord (map fst rest)) = sr_unique_key ` set current - sr_unique_key ` set staged"
      using rest by (simp_all add: hash_orderD [OF assms(1)])
  qed
qed

definition row_of :: "string \<Rightarrow> int \<Rightarrow> snapshot_row" where
  "row_of k v = \<lparr>sr_unique_key = [k], sr_signal = v\<rparr>"

theorem plan_snapshot_merge_correct_witness:
  "\<exists>gone. pl_rows (plan_snapshot_merge rev [row_of ''a'' 1, row_of ''b'' 1] [row_of ''a'' 2] Check Delete) =
     classified Changed [''a''] # map (classified Gone) gone \<and> set gone = {[''b'']}"
  using plan_snapshot_merge_correct [of rev "[row_of ''a'' 2]" "[row_of ''a'' 1, row_of ''b'' 1]" Check Delete]
  by (auto simp: row_of_def classify_def)

text \<open>
  The counters are the counts of the plan's rows, and the receipt counts the versions opened,
  the versions closed and the rows removed, as the deletion policy says.
\<close>

theorem plan_stats_correct:
  "let plan = plan_snapshot_merge ord current staged cd dels in
    ms_unchanged (pl_stats plan) = class_count Unchanged (pl_rows plan) \<and>
    ms_gone (pl_stats plan) = class_count Gone (pl_rows plan) \<and>
    receipt_rows_inserted (pl_stats plan) = class_count New (pl_rows plan) + class_count Changed (pl_rows plan) \<and>
    receipt_rows_updated (pl_stats plan) = class_count Changed (pl_rows plan) +
      (if dels = Invalidate then class_count Gone (pl_rows plan) else 0) \<and>
    receipt_rows_deleted (pl_stats plan) = (if dels = Delete then class_count Gone (pl_rows plan) else 0)"
proof -
  obtain rows rest st where p: "plan_staged staged (current_map current) zero_stats = (rows, rest, st)"
    by (metis prod_cases3)
  have gone: "class_count c (map (classified Gone) ks) = (if c = Gone then length ks else 0)" for c ks
    by (induction ks) auto
  from plan_staged_spec [OF p] have none: "class_count Gone rows = 0"
    and st: "st = zero_stats\<lparr>ms_unchanged := ms_unchanged zero_stats + class_count Unchanged rows,
       ms_changed := ms_changed zero_stats + class_count Changed rows,
       ms_new_versions := ms_new_versions zero_stats + class_count New rows\<rparr>"
    by blast+
  note plan = plan_snapshot_merge_def [of ord current staged cd dels, unfolded p plan_gone_spec]
  show ?thesis
    by (simp add: plan gone none st Let_def) (simp add: zero_stats_def
        receipt_rows_inserted_def receipt_rows_updated_def receipt_rows_deleted_def)
qed

text \<open>A key staged twice is classified new the second time, though the target has it.\<close>

lemma duplicate_staged_key_is_new:
  "pl_rows (plan_snapshot_merge rev [row_of ''a'' 1] [row_of ''a'' 1, row_of ''a'' 1] Check Ignore) =
   [classified Unchanged [''a''], classified New [''a'']]"
  by (simp add: plan_snapshot_merge_def current_map_def row_of_def Let_def)

end
