(* ===== verification/Sla.thy ===== *)
theory Sla
  imports Pipeline_Model
begin

text \<open>
  \<open>sla.rs\<close>: ISO 8601 durations of freshness windows.  A duration is its number of seconds, an
  \<open>i64\<close>.  The outer option is \<open>None\<close> for a panic: an overflow of the \<open>i64\<close> arithmetic, or a
  number of seconds \<open>chrono::Duration::seconds\<close> refuses (more than \<open>i64::MAX\<close> milliseconds).
\<close>

datatype sla_status = SlaOk | SlaWarning | SlaBreach | SlaUnknown

fun sla_status_str :: "sla_status \<Rightarrow> string" where
  "sla_status_str SlaOk = ''ok''"
| "sla_status_str SlaWarning = ''warning''"
| "sla_status_str SlaBreach = ''breach''"
| "sla_status_str SlaUnknown = ''unknown''"

datatype duration_error = NotP string | BadDays string | BadHours string | BadMinutes string
  | BadSeconds string

definition checked :: "int \<Rightarrow> int option" where
  "checked i = (if i64_min \<le> i \<and> i \<le> i64_max then Some i else None)"

definition duration_seconds :: "int \<Rightarrow> int option" where
  "duration_seconds i = (if \<bar>i\<bar> \<le> i64_max div 1000 then Some i else None)"

definition parse_component :: "string \<Rightarrow> char \<Rightarrow> int option" where
  "parse_component s marker = (case find_char marker s of
      Some (a, b) \<Rightarrow> parse_i64 a
    | None \<Rightarrow> if s = [] then Some 0 else None)"

text \<open>One marked component of the time part: the seconds it adds and what is left to read.\<close>

definition time_component ::
  "char \<Rightarrow> int \<Rightarrow> duration_error \<Rightarrow> string \<Rightarrow> int \<Rightarrow> (duration_error + int \<times> string) option" where
  "time_component marker unit err remaining acc = (case find_char marker remaining of
      None \<Rightarrow> Some (Ok (acc, remaining))
    | Some (a, b) \<Rightarrow> (case parse_i64 a of
          None \<Rightarrow> Some (Err err)
        | Some n \<Rightarrow> (case checked (n * unit) of
              None \<Rightarrow> None
            | Some m \<Rightarrow> map_option (\<lambda>t. Ok (t, b)) (checked (acc + m)))))"

definition parse_time :: "string \<Rightarrow> string \<Rightarrow> int \<Rightarrow> (duration_error + int) option" where
  "parse_time s time_part acc =
     (case time_component CHR ''H'' 3600 (BadHours s) time_part acc of
        None \<Rightarrow> None
      | Some (Inl e) \<Rightarrow> Some (Err e)
      | Some (Inr (acc, remaining)) \<Rightarrow>
         (case time_component CHR ''M'' 60 (BadMinutes s) remaining acc of
            None \<Rightarrow> None
          | Some (Inl e) \<Rightarrow> Some (Err e)
          | Some (Inr (acc, remaining)) \<Rightarrow>
             (case time_component CHR ''S'' 1 (BadSeconds s) remaining acc of
                None \<Rightarrow> None
              | Some (Inl e) \<Rightarrow> Some (Err e)
              | Some (Inr (acc, _)) \<Rightarrow> Some (Ok acc))))"

definition parse_iso_duration :: "string \<Rightarrow> (duration_error + int) option" where
  "parse_iso_duration s0 =
     (let s = trim s0
      in case strip_prefix ''P'' s of
           None \<Rightarrow> Some (Err (NotP s))
         | Some rest \<Rightarrow>
             let (date_part, time_part) = (case find_char CHR ''T'' rest of
                   Some (a, b) \<Rightarrow> (a, b) | None \<Rightarrow> (rest, []));
                 days = (if date_part = [] then Some 0 else parse_component date_part CHR ''D'')
             in case days of
                  None \<Rightarrow> Some (Err (BadDays s))
                | Some d \<Rightarrow>
                   (case checked (d * 86400) of
                      None \<Rightarrow> None
                    | Some day_secs \<Rightarrow>
                       (case (if time_part = [] then Some (Ok day_secs)
                              else parse_time s time_part day_secs) of
                          None \<Rightarrow> None
                        | Some (Inl e) \<Rightarrow> Some (Err e)
                        | Some (Inr secs) \<Rightarrow> map_option Ok (duration_seconds secs))))"

definition format_iso_duration :: "int \<Rightarrow> string" where
  "format_iso_duration num_seconds =
     (let total_secs = nat \<bar>num_seconds\<bar>; hours = total_secs div 3600;
          minutes = (total_secs mod 3600) div 60; secs = total_secs mod 60;
          r1 = ''PT'' @ (if hours > 0 then show_nat hours @ ''H'' else []);
          r2 = r1 @ (if minutes > 0 then show_nat minutes @ ''M'' else [])
      in if secs > 0 \<or> r2 = ''PT'' then r2 @ show_nat secs @ ''S'' else r2)"

subsection \<open>Formatting and parsing\<close>

lemma not_digit_not_in_nat: "\<not> is_digit c \<Longrightarrow> c \<notin> set (show_nat n)"
  using show_nat_digits by blast

lemma marker_not_in_nat [simp]:
  "CHR ''H'' \<notin> set (show_nat n)" "CHR ''M'' \<notin> set (show_nat n)" "CHR ''S'' \<notin> set (show_nat n)"
  "CHR ''D'' \<notin> set (show_nat n)" "CHR ''T'' \<notin> set (show_nat n)"
  by (rule not_digit_not_in_nat, simp add: is_digit_def)+

lemma component_here:
  assumes "marker \<notin> set (show_nat n)" "int n * unit + acc \<le> i64_max" "0 \<le> acc" "1 \<le> unit"
  shows "time_component marker unit err (show_nat n @ marker # rest) acc =
    Some (Ok (acc + int n * unit, rest))"
proof -
  have n: "int n \<le> int n * unit" using assms(4) by (simp add: mult_le_cancel_left1)
  with assms have "int n \<le> i64_max" by linarith
  then have "parse_i64 (show_nat n) = Some (int n)" by (rule parse_i64_show_nat)
  moreover have "0 \<le> int n * unit" using assms(4) by simp
  moreover from this have "- 9223372036854775808 \<le> int n * unit" by linarith
  ultimately show ?thesis
    using assms find_char_append [OF assms(1), of rest]
    by (simp add: time_component_def checked_def i64_min_def)
qed

lemma component_absent:
  "marker \<notin> set s \<Longrightarrow> time_component marker unit err s acc = Some (Ok (acc, s))"
  by (simp add: time_component_def find_char_None_iff [THEN iffD2])

text \<open>The printed components, in the order they are read back.\<close>

definition opt_component :: "nat \<Rightarrow> char \<Rightarrow> string" where
  "opt_component n marker = (if n > 0 then show_nat n @ [marker] else [])"

lemma opt_component_read:
  assumes "marker \<in> {CHR ''H'', CHR ''M'', CHR ''S''}" "marker \<notin> set rest"
    "int n * unit + acc \<le> i64_max" "0 \<le> acc" "1 \<le> unit"
  shows "time_component marker unit err (opt_component n marker @ rest) acc =
    Some (Ok (acc + int n * unit, rest))"
proof (cases "n = 0")
  case True
  then show ?thesis using component_absent [OF assms(2)] by (simp add: opt_component_def)
next
  case False
  have "marker \<notin> set (show_nat n)" using assms(1) by auto
  from component_here [OF this assms(3-5)] False show ?thesis by (simp add: opt_component_def)
qed

lemma hms_sum: "n div 3600 * 3600 + n mod 3600 div 60 * 60 + n mod 60 = (n :: nat)"
proof -
  have "n mod 3600 mod 60 = n mod 60" by (rule mod_mod_cancel) simp
  then have "n mod 3600 div 60 * 60 + n mod 60 = n mod 3600"
    using div_mult_mod_eq [of "n mod 3600" 60] by simp
  then show ?thesis using div_mult_mod_eq [of n 3600] by linarith
qed

lemma format_components:
  assumes "0 < i"
  shows "format_iso_duration i = ''PT'' @ opt_component (nat i div 3600) CHR ''H'' @
    opt_component (nat i mod 3600 div 60) CHR ''M'' @ opt_component (nat i mod 60) CHR ''S''"
proof -
  have "0 < nat i" using assms by simp
  then have "nat i div 3600 > 0 \<or> nat i mod 3600 div 60 > 0 \<or> nat i mod 60 > 0"
    using hms_sum [of "nat i"] by (metis add_0 gr0I mult_0)
  with assms show ?thesis by (auto simp: format_iso_duration_def Let_def opt_component_def)
qed

lemma is_graph_digit: "is_digit c \<Longrightarrow> is_graph c"
  by (simp add: is_digit_def is_graph_def Let_def)

lemma format_graph: "\<forall>c \<in> set (format_iso_duration i). is_graph c"
proof -
  have d: "Ball (set (show_nat n)) is_graph" for n
    using show_nat_digits is_graph_digit by blast
  have "is_graph CHR ''P''" "is_graph CHR ''T''" "is_graph CHR ''H''" "is_graph CHR ''M''" "is_graph CHR ''S''"
    by (simp_all add: is_graph_def)
  with d show ?thesis by (simp add: format_iso_duration_def Let_def ball_Un)
qed

lemma parse_time_parts:
  assumes le: "int h * 3600 + int m * 60 + int s \<le> i64_max"
  shows "parse_time txt (opt_component h CHR ''H'' @ opt_component m CHR ''M'' @ opt_component s CHR ''S'') 0 =
    Some (Ok (int h * 3600 + int m * 60 + int s))"
proof -
  have H: "CHR ''H'' \<notin> set (opt_component m CHR ''M'' @ opt_component s CHR ''S'')"
    and M: "CHR ''M'' \<notin> set (opt_component s CHR ''S'')"
    by (auto simp: opt_component_def)
  have "time_component CHR ''S'' 1 (BadSeconds txt) (opt_component s CHR ''S'' @ []) (int h * 3600 + int m * 60) =
      Some (Ok (int h * 3600 + int m * 60 + int s * 1, []))"
    by (rule opt_component_read) (use le in auto)
  moreover have "time_component CHR ''M'' 60 (BadMinutes txt)
      (opt_component m CHR ''M'' @ opt_component s CHR ''S'') (int h * 3600) =
      Some (Ok (int h * 3600 + int m * 60, opt_component s CHR ''S''))"
    by (rule opt_component_read) (use le M in auto)
  moreover have "time_component CHR ''H'' 3600 (BadHours txt) (opt_component h CHR ''H'' @
      opt_component m CHR ''M'' @ opt_component s CHR ''S'') 0 =
      Some (Ok (0 + int h * 3600, opt_component m CHR ''M'' @ opt_component s CHR ''S''))"
    by (rule opt_component_read) (use le H in auto)
  ultimately show ?thesis by (simp add: parse_time_def)
qed

lemma parse_time_components:
  assumes "0 < i" "i \<le> i64_max"
  shows "parse_time s (opt_component (nat i div 3600) CHR ''H'' @
    opt_component (nat i mod 3600 div 60) CHR ''M'' @ opt_component (nat i mod 60) CHR ''S'') 0 = Some (Ok i)"
proof -
  have sum: "int (nat i div 3600) * 3600 + int (nat i mod 3600 div 60) * 60 + int (nat i mod 60) = i"
    using arg_cong [OF hms_sum [of "nat i"], of int] assms(1)
    unfolding of_nat_add of_nat_mult by simp
  show ?thesis
    using parse_time_parts [of "nat i div 3600" "nat i mod 3600 div 60" "nat i mod 60" s]
    unfolding sum using assms(2) by simp
qed

text \<open>
  Printing a duration and reading it back gives its length: the sign is lost, nothing else, up
  to the range \<open>chrono\<close> accepts.
\<close>

theorem duration_roundtrip:
  assumes "\<bar>i\<bar> \<le> i64_max div 1000"
  shows "parse_iso_duration (format_iso_duration i) = Some (Ok \<bar>i\<bar>)"
proof (cases "i = 0")
  case True
  have "CHR ''H'' \<notin> set (show_nat 0 @ ''S'')" "CHR ''M'' \<notin> set (show_nat 0 @ ''S'')" by simp_all
  moreover have "time_component CHR ''S'' 1 (BadSeconds s) (show_nat 0 @ ''S'') 0 = Some (Ok (0, []))" for s
    using component_here [of "CHR ''S''" 0 1 0 _ "[]"] by (simp add: i64_max_def)
  ultimately have "parse_time s (show_nat 0 @ ''S'') 0 = Some (Ok 0)" for s
    by (simp add: parse_time_def component_absent)
  moreover have "format_iso_duration 0 = ''PT'' @ show_nat 0 @ ''S''"
    by (simp add: format_iso_duration_def)
  ultimately show ?thesis
    using trim_ascii [OF format_graph, of 0] True
    by (simp add: parse_iso_duration_def checked_def i64_min_def i64_max_def duration_seconds_def)
next
  case False
  then have pos: "0 < \<bar>i\<bar>" and le: "\<bar>i\<bar> \<le> i64_max"
    using assms by (auto simp: i64_max_def)
  have abs: "format_iso_duration i = format_iso_duration \<bar>i\<bar>"
    by (simp add: format_iso_duration_def)
  define t where "t = opt_component (nat \<bar>i\<bar> div 3600) CHR ''H'' @
    opt_component (nat \<bar>i\<bar> mod 3600 div 60) CHR ''M'' @ opt_component (nat \<bar>i\<bar> mod 60) CHR ''S''"
  have f: "format_iso_duration i = ''PT'' @ t"
    unfolding abs t_def by (rule format_components [OF pos])
  have time: "parse_time s t 0 = Some (Ok \<bar>i\<bar>)" for s
    unfolding t_def by (rule parse_time_components [OF pos le])
  have "t \<noteq> []"
  proof
    assume "t = []"
    with time [of "[]"] have "\<bar>i\<bar> = 0"
      by (simp add: parse_time_def time_component_def)
    with False show False by simp
  qed
  then show ?thesis
    using trim_ascii [OF format_graph, of i] time assms
    by (simp add: parse_iso_duration_def f checked_def i64_min_def i64_max_def duration_seconds_def)
qed

theorem duration_roundtrip_witness:
  "parse_iso_duration (format_iso_duration 3661) = Some (Ok 3661)"
  using duration_roundtrip [of 3661] by (simp add: i64_max_def)

text \<open>
  The parser reads more than its documented forms: a number with no marker is dropped, and so is
  what follows the seconds.
\<close>

lemma parse_drops_trailing_text:
  "parse_iso_duration ''PT5'' = Some (Ok 0) \<and> parse_iso_duration ''PT5Sxx'' = Some (Ok 5)"
proof -
  have "trim ''PT5'' = ''PT5''" "trim ''PT5Sxx'' = ''PT5Sxx''"
    by (rule trim_ascii, simp add: is_graph_def)+
  then show ?thesis
    by (simp add: parse_iso_duration_def parse_time_def time_component_def parse_i64_def
        parse_digits_def is_digit_def digit_val_def i64_min_def i64_max_def checked_def
        duration_seconds_def)
qed

end
