(* ===== verification/Materialization.thy ===== *)
theory Materialization
  imports Pipeline_Model
begin

text \<open>
  \<open>materialization.rs\<close>: the coherence rules of a sink's materialization policy.  The error list
  is built block by block, in the order of the code.
\<close>

subsection \<open>The checks\<close>

text \<open>The scan of \<open>is_iso8601_duration\<close>; a byte of a multi-byte character is rejected as the
  character is.\<close>

fun iso_scan :: "bool \<Rightarrow> string \<Rightarrow> bool" where
  "iso_scan seen_t [] = True"
| "iso_scan seen_t (c # s) =
     (if is_digit c then iso_scan seen_t s
      else if c \<in> set ''YMWDHS'' then iso_scan seen_t s
      else if c = CHR ''T'' then (if seen_t then False else iso_scan True s)
      else False)"

definition is_iso8601_duration :: "string \<Rightarrow> bool" where
  "is_iso8601_duration s =
     (if length s < 3 \<or> hd s \<noteq> CHR ''P'' then False
      else let rest = tl s in if \<not> list_ex is_digit rest then False else iso_scan False rest)"

definition check_watermark :: "string \<Rightarrow> materialization_policy \<Rightarrow> materialization_error list" where
  "check_watermark i p = (case mp_read_mode p of
      Incremental \<Rightarrow> (case mp_watermark p of
          None \<Rightarrow> [WatermarkMissing i]
        | Some w \<Rightarrow> if trim (wm_column w) = [] then [WatermarkColumnEmpty i] else [])
    | Full \<Rightarrow> if mp_watermark p \<noteq> None then [WatermarkForbidden i] else [])"

definition needs_unique_keys :: "write_strategy \<Rightarrow> bool" where
  "needs_unique_keys w = (w \<in> {Merge, DeleteInsert, Snapshot})"

definition non_empty :: "'a list option \<Rightarrow> bool" where
  "non_empty ys = (case ys of None \<Rightarrow> False | Some xs \<Rightarrow> xs \<noteq> [])"

definition check_unique_keys :: "string \<Rightarrow> materialization_policy \<Rightarrow> materialization_error list" where
  "check_unique_keys i p =
     (let needs = needs_unique_keys (mp_write_strategy p);
          strategy = write_strategy_str (mp_write_strategy p)
      in (if needs \<and> \<not> non_empty (mp_unique_keys p) then [UniqueKeysRequired i strategy] else []) @
         (if \<not> needs \<and> mp_unique_keys p \<noteq> None then [UniqueKeysForbidden i strategy] else []))"

definition check_partition :: "string \<Rightarrow> materialization_policy \<Rightarrow> materialization_error list" where
  "check_partition i p =
     (let needs = mp_write_strategy p = InsertOverwrite
      in (if needs \<and> mp_partition_column p = None then [PartitionColumnRequired i] else []) @
         (if \<not> needs \<and> mp_partition_column p \<noteq> None
          then [PartitionColumnForbidden i (write_strategy_str (mp_write_strategy p))] else []))"

fun read_mode_str :: "read_mode \<Rightarrow> string" where
  "read_mode_str Full = ''full''" | "read_mode_str Incremental = ''incremental''"

definition check_lookback :: "string \<Rightarrow> materialization_policy \<Rightarrow> materialization_error list" where
  "check_lookback i p =
     (if mp_lookback p = ''PT0S'' then []
      else
        (if \<not> is_iso8601_duration (mp_lookback p) then [LookbackInvalid i (mp_lookback p)] else []) @
        (let wt = map_option wm_type (mp_watermark p)
         in if mp_read_mode p \<noteq> Incremental \<or> wt \<noteq> Some WmTimestamp
            then [LookbackUnsupported i (read_mode_str (mp_read_mode p))
                    (case wt of None \<Rightarrow> ''none'' | Some t \<Rightarrow> watermark_type_str t)]
            else []))"

definition check_snapshot_block ::
  "string \<Rightarrow> materialization_policy \<Rightarrow> snapshot_policy \<Rightarrow> materialization_error list" where
  "check_snapshot_block i p snap = (case sp_change_detection snap of
      Check \<Rightarrow>
        (if \<not> non_empty (sp_check_columns snap) then [SnapshotCheckColumnsRequired i] else []) @
        (if mp_read_mode p = Incremental then [SnapshotCheckIncrementalIncoherent i] else [])
    | Timestamp \<Rightarrow>
        (let updated_at = (case map_option trim (sp_updated_at_column snap) of
            None \<Rightarrow> None | Some s \<Rightarrow> if s = [] then None else Some s)
         in case updated_at of
              None \<Rightarrow> [SnapshotUpdatedAtRequired i]
            | Some col \<Rightarrow>
                (if mp_read_mode p = Incremental
                 then (case mp_watermark p of
                         Some wm \<Rightarrow> if wm_column wm \<noteq> col
                            then [SnapshotWatermarkMismatch i (wm_column wm) col] else []
                       | None \<Rightarrow> [])
                 else [])))"

definition check_snapshot :: "string \<Rightarrow> materialization_policy \<Rightarrow> materialization_error list" where
  "check_snapshot i p = (case (mp_snapshot p, mp_write_strategy p = Snapshot) of
      (None, True) \<Rightarrow> [SnapshotBlockRequired i]
    | (Some _, False) \<Rightarrow> [SnapshotBlockForbidden i (write_strategy_str (mp_write_strategy p))]
    | (Some snap, True) \<Rightarrow> check_snapshot_block i p snap
    | (None, False) \<Rightarrow> [])"

definition validate_policy :: "string \<Rightarrow> materialization_policy \<Rightarrow> materialization_error list + unit" where
  "validate_policy i p =
     (let errors = check_watermark i p @ check_unique_keys i p @ check_partition i p @
          check_lookback i p @ check_snapshot i p
      in if errors = [] then Ok () else Err errors)"

subsection \<open>Coherent policies\<close>

text \<open>The table of rules, read by strategy and read mode.\<close>

definition watermark_ok :: "materialization_policy \<Rightarrow> bool" where
  "watermark_ok p \<longleftrightarrow> (case mp_watermark p of
      None \<Rightarrow> mp_read_mode p = Full
    | Some w \<Rightarrow> mp_read_mode p = Incremental \<and> \<not> (\<forall>c \<in> set (chars (wm_column w)). is_whitespace c))"

definition snapshot_ok :: "materialization_policy \<Rightarrow> bool" where
  "snapshot_ok p \<longleftrightarrow> (case mp_snapshot p of
      None \<Rightarrow> mp_write_strategy p \<noteq> Snapshot
    | Some snap \<Rightarrow> mp_write_strategy p = Snapshot \<and>
        (sp_change_detection snap = Check \<longrightarrow>
           mp_read_mode p = Full \<and> (\<exists>cs. sp_check_columns snap = Some cs \<and> cs \<noteq> [])) \<and>
        (sp_change_detection snap = Timestamp \<longrightarrow>
           (\<exists>col. sp_updated_at_column snap = Some col \<and> trim col \<noteq> [] \<and>
             (\<forall>w. mp_read_mode p = Incremental \<and> mp_watermark p = Some w \<longrightarrow> wm_column w = trim col))))"

definition lookback_ok :: "materialization_policy \<Rightarrow> bool" where
  "lookback_ok p \<longleftrightarrow> mp_lookback p = ''PT0S'' \<or>
     is_iso8601_duration (mp_lookback p) \<and> mp_read_mode p = Incremental \<and>
     (\<exists>w. mp_watermark p = Some w \<and> wm_type w = WmTimestamp)"

definition coherent_policy :: "materialization_policy \<Rightarrow> bool" where
  "coherent_policy p \<longleftrightarrow> watermark_ok p \<and>
     (case mp_unique_keys p of
        None \<Rightarrow> mp_write_strategy p \<notin> {Merge, DeleteInsert, Snapshot}
      | Some ks \<Rightarrow> mp_write_strategy p \<in> {Merge, DeleteInsert, Snapshot} \<and> ks \<noteq> []) \<and>
     (mp_partition_column p \<noteq> None \<longleftrightarrow> mp_write_strategy p = InsertOverwrite) \<and>
     lookback_ok p \<and> snapshot_ok p"

lemma check_watermark_Nil_iff: "check_watermark i p = [] \<longleftrightarrow> watermark_ok p"
  by (cases "mp_read_mode p"; cases "mp_watermark p")
     (auto simp: check_watermark_def watermark_ok_def trim_eq_Nil_iff)

lemma check_unique_keys_Nil_iff:
  "check_unique_keys i p = [] \<longleftrightarrow>
     (case mp_unique_keys p of
        None \<Rightarrow> mp_write_strategy p \<notin> {Merge, DeleteInsert, Snapshot}
      | Some ks \<Rightarrow> mp_write_strategy p \<in> {Merge, DeleteInsert, Snapshot} \<and> ks \<noteq> [])"
  by (auto simp: check_unique_keys_def Let_def needs_unique_keys_def non_empty_def split: option.splits)

lemma check_partition_Nil_iff:
  "check_partition i p = [] \<longleftrightarrow>
     (mp_partition_column p \<noteq> None \<longleftrightarrow> mp_write_strategy p = InsertOverwrite)"
  by (auto simp: check_partition_def Let_def)

lemma check_lookback_Nil_iff: "check_lookback i p = [] \<longleftrightarrow> lookback_ok p"
  by (cases "mp_watermark p") (auto simp: check_lookback_def lookback_ok_def)

lemma check_snapshot_Nil_iff: "check_snapshot i p = [] \<longleftrightarrow> snapshot_ok p"
proof (cases "mp_snapshot p")
  case None
  then show ?thesis by (auto simp: check_snapshot_def snapshot_ok_def)
next
  case (Some snap)
  then show ?thesis
    by (cases "mp_write_strategy p = Snapshot"; cases "sp_change_detection snap";
        cases "mp_read_mode p"; cases "mp_watermark p")
       (auto simp: check_snapshot_def snapshot_ok_def check_snapshot_block_def non_empty_def Let_def
        split: option.splits)
qed

text \<open>A policy passes exactly when it is coherent.\<close>

theorem validate_policy_iff: "validate_policy i p = Ok () \<longleftrightarrow> coherent_policy p"
  by (simp add: validate_policy_def Let_def coherent_policy_def check_watermark_Nil_iff
      check_unique_keys_Nil_iff check_partition_Nil_iff check_lookback_Nil_iff check_snapshot_Nil_iff)

text \<open>The same fact for the clients of the component.\<close>

lemma validate_policy_Ok: "(\<forall>es. validate_policy i p \<noteq> Err es) \<longleftrightarrow> coherent_policy p"
  by (simp add: validate_policy_def Let_def coherent_policy_def check_watermark_Nil_iff
      check_unique_keys_Nil_iff check_partition_Nil_iff check_lookback_Nil_iff check_snapshot_Nil_iff)

subsection \<open>Durations\<close>

lemma iso_scan_iff:
  "iso_scan seen_t s \<longleftrightarrow> (\<forall>c \<in> set s. is_digit c \<or> c \<in> set ''YMWDHST'') \<and>
     count_list s CHR ''T'' \<le> (if seen_t then 0 else 1)"
  by (induction seen_t s rule: iso_scan.induct) (auto simp: is_digit_def)

lemma is_iso8601_duration_iff:
  "is_iso8601_duration s \<longleftrightarrow>
     (\<exists>r. s = CHR ''P'' # r \<and> length r \<ge> 2 \<and> (\<exists>c \<in> set r. is_digit c) \<and>
       (\<forall>c \<in> set r. is_digit c \<or> c \<in> set ''YMWDHST'') \<and> count_list r CHR ''T'' \<le> 1)"
  by (cases s) (auto simp: is_iso8601_duration_def iso_scan_iff list_ex_iff)

text \<open>The check is structural only: it accepts texts that are no duration of the shape it documents.\<close>

lemma iso8601_accepts_malformed: "is_iso8601_duration ''PW1'' \<and> is_iso8601_duration ''P5ST''"
  by (simp add: is_iso8601_duration_def is_digit_def)

end
