(* ===== verification/Validate.thy ===== *)
theory Validate
  imports Dag Materialization
begin

text \<open>
  \<open>validate.rs\<close>: the migration of legacy Postgres sinks and the semantic checks of an
  import.  \<open>js\<close> prints a JSON value, as \<open>Value::to_string\<close> of \<open>serde_json\<close> does.
\<close>

subsection \<open>Legacy sinks\<close>

definition legacy_keys :: "(string \<times> json) list \<Rightarrow> string list" where
  "legacy_keys obj = (case map_of obj ''conflict_keys'' of
      Some (JArray vs) \<Rightarrow> concat (map (\<lambda>v. case as_str v of Some s \<Rightarrow> [s] | None \<Rightarrow> []) vs)
    | _ \<Rightarrow> [])"

definition migrated :: "write_strategy \<Rightarrow> string list option \<Rightarrow> materialization_policy" where
  "migrated strategy keys = default_policy\<lparr>mp_write_strategy := strategy, mp_unique_keys := keys\<rparr>"

text \<open>The config without its legacy keys, and the policy: \<open>None\<close> for an unknown mode, which is
  put back as a text.\<close>

definition migrate_object ::
  "json \<Rightarrow> (string \<times> json) list \<Rightarrow> (string \<times> json) list \<times> materialization_policy option" where
  "migrate_object legacy obj =
     (let legacy_str = (case as_str legacy of Some s \<Rightarrow> s | None \<Rightarrow> [])
      in if legacy_str = ''insert'' \<or> legacy_str = ''append'' then (obj, Some (migrated Append None))
         else if legacy_str = ''upsert''
         then (bt_remove ''conflict_keys'' obj, Some (migrated Merge (Some (legacy_keys obj))))
         else if legacy_str = ''truncate_insert'' then (obj, Some (migrated TruncateInsert None))
         else (bt_insert ''write_mode'' (JString legacy_str) obj, None))"

definition migrate_sink :: "sink_config \<Rightarrow> sink_config" where
  "migrate_sink sink =
     (if snk_connector sink \<noteq> ''postgresql'' \<and> snk_connector sink \<noteq> ''postgres'' then sink
      else if snk_materialization sink \<noteq> None then sink
      else (case as_object (snk_config sink) of
        None \<Rightarrow> sink
      | Some obj \<Rightarrow>
         (case map_of obj ''write_mode'' of
            None \<Rightarrow> sink
          | Some legacy \<Rightarrow>
             (case migrate_object legacy (bt_remove ''write_mode'' obj) of (obj', policy) \<Rightarrow>
                sink\<lparr>snk_config := JObject obj', snk_materialization := policy\<rparr>))))"

definition migrate_node :: "node \<Rightarrow> node" where
  "migrate_node n = (case n_kind n of
      Sink sink \<Rightarrow> n\<lparr>n_kind := Sink (migrate_sink sink)\<rparr>
    | Source _ \<Rightarrow> n
    | Transform _ \<Rightarrow> n
    | Test _ \<Rightarrow> n
    | Snippet _ \<Rightarrow> n)"

definition migrate_legacy_sinks :: "pipeline \<Rightarrow> pipeline" where
  "migrate_legacy_sinks p = p\<lparr>p_nodes := map migrate_node (p_nodes p)\<rparr>"

subsection \<open>Import validation\<close>

text \<open>\<open>format!("{:?}", t).to_lowercase()\<close>.\<close>

fun variable_type_str :: "variable_type \<Rightarrow> string" where
  "variable_type_str VtString = ''string''"
| "variable_type_str VtInteger = ''integer''"
| "variable_type_str VtFloat = ''float''"
| "variable_type_str VtDate = ''date''"
| "variable_type_str VtBoolean = ''boolean''"

fun default_matches_type :: "json \<Rightarrow> variable_type \<Rightarrow> bool" where
  "default_matches_type v VtString = is_string v"
| "default_matches_type v VtInteger = (is_i64 v \<or> is_u64 v)"
| "default_matches_type v VtFloat = is_number v"
| "default_matches_type v VtBoolean = is_boolean v"
| "default_matches_type v VtDate =
     (case as_str v of None \<Rightarrow> False | Some s \<Rightarrow> length s = 10 \<and> s ! 4 = CHR ''-'')"

fun check_names :: "nat \<Rightarrow> node list \<Rightarrow> validation_error list" where
  "check_names i [] = []"
| "check_names i (n # ns) =
     (if trim (n_id n) = [] then [EmptyNodeId i] else []) @
     (if trim (n_name n) = [] then [EmptyNodeName i] else []) @ check_names (Suc i) ns"

definition check_default ::
  "(json \<Rightarrow> string) \<Rightarrow> string \<times> variable \<Rightarrow> validation_error list" where
  "check_default js nv = (case nv of (name, var) \<Rightarrow>
     (case var_default var of
        None \<Rightarrow> []
      | Some d \<Rightarrow> if \<not> default_matches_type d (var_type var)
          then [VariableDefaultTypeMismatch name (variable_type_str (var_type var)) (js d)] else []))"

definition check_overrides :: "node_id list \<Rightarrow> string \<times> (string \<times> json) list \<Rightarrow> validation_error list" where
  "check_overrides ids eo = (case eo of (env, overrides) \<Rightarrow>
     map (OverrideUnknownNode env) (filter (\<lambda>i. i \<notin> set ids) (map fst overrides)))"

definition check_materialization :: "node \<Rightarrow> validation_error list" where
  "check_materialization n = (case n_kind n of
      Sink sink \<Rightarrow> (case snk_materialization sink of
          None \<Rightarrow> []
        | Some policy \<Rightarrow> (case validate_policy (n_id n) policy of
              Inl es \<Rightarrow> map MaterializationErr es
            | Inr _ \<Rightarrow> []))
    | Source _ \<Rightarrow> []
    | Transform _ \<Rightarrow> []
    | Test _ \<Rightarrow> []
    | Snippet _ \<Rightarrow> [])"

definition import_errors :: "(json \<Rightarrow> string) \<Rightarrow> pipeline \<Rightarrow> validation_error list" where
  "import_errors js p =
     (if trim (p_name p) = [] then [EmptyName] else []) @
     check_names 0 (p_nodes p) @
     concat (map (check_default js) (p_variables p)) @
     concat (map (check_overrides (node_ids p)) (p_environment_overrides p)) @
     concat (map check_materialization (p_nodes p))"

definition validate_import ::
  "(node_id list \<Rightarrow> node_id list) \<Rightarrow> (json \<Rightarrow> string) \<Rightarrow> pipeline \<Rightarrow>
   (validation_error list + unit) option" where
  "validate_import ord js p =
     (let errors = import_errors js p;
          finish = (\<lambda>es. if es = [] then Ok () else Err es)
      in if p_nodes p = [] then Some (finish errors)
         else (case Dag.validate ord p of
                 None \<Rightarrow> None
               | Some (Inl es) \<Rightarrow> Some (finish (errors @ map DagErr es))
               | Some (Inr _) \<Rightarrow> Some (finish errors)))"

subsection \<open>What an import promises\<close>

definition blank :: "string \<Rightarrow> bool" where
  "blank s \<longleftrightarrow> (\<forall>c \<in> set (chars s). is_whitespace c)"

lemma trim_Nil_blank: "trim s = [] \<longleftrightarrow> blank s"
  by (simp add: blank_def trim_eq_Nil_iff)

lemma check_names_Nil_iff:
  "check_names i ns = [] \<longleftrightarrow> (\<forall>n \<in> set ns. \<not> blank (n_id n) \<and> \<not> blank (n_name n))"
  by (induction i ns rule: check_names.induct) (auto simp: trim_Nil_blank)

lemma check_default_Nil_iff:
  "check_default js (name, var) = [] \<longleftrightarrow>
     (\<forall>d. var_default var = Some d \<longrightarrow> default_matches_type d (var_type var))"
  by (auto simp: check_default_def split: option.splits)

lemma check_overrides_Nil_iff: "check_overrides ids (env, os) = [] \<longleftrightarrow> fst ` set os \<subseteq> set ids"
  by (auto simp: check_overrides_def filter_empty_conv)

definition sink_ok :: "node \<Rightarrow> bool" where
  "sink_ok n \<longleftrightarrow> (\<forall>sink p. n_kind n = Sink sink \<and> snk_materialization sink = Some p \<longrightarrow> coherent_policy p)"

lemma check_materialization_Nil_iff: "check_materialization n = [] \<longleftrightarrow> sink_ok n"
proof -
  have "(case validate_policy i p of Inl es \<Rightarrow> map MaterializationErr es | Inr _ \<Rightarrow> []) = [] \<longleftrightarrow>
      coherent_policy p" for i p
    by (auto simp: validate_policy_Ok [of i p, symmetric] validate_policy_def Let_def)
  then show ?thesis
    by (auto simp: check_materialization_def sink_ok_def split: node_kind.splits option.splits)
qed

lemma defaults_Nil_iff:
  "concat (map (check_default js) vs) = [] \<longleftrightarrow>
     (\<forall>(name, var) \<in> set vs. \<forall>d. var_default var = Some d \<longrightarrow> default_matches_type d (var_type var))"
  by (auto simp: check_default_Nil_iff)

lemma overrides_Nil_iff:
  "concat (map (check_overrides ids) eos) = [] \<longleftrightarrow> (\<forall>(env, os) \<in> set eos. fst ` set os \<subseteq> set ids)"
proof -
  have "check_overrides ids eo = [] \<longleftrightarrow> (\<lambda>(env, os). fst ` set os \<subseteq> set ids) eo" for eo
    by (cases eo) (simp add: check_overrides_Nil_iff)
  then show ?thesis by simp
qed

definition import_ok :: "pipeline \<Rightarrow> bool" where
  "import_ok p \<longleftrightarrow> \<not> blank (p_name p) \<and>
     (\<forall>n \<in> set (p_nodes p). \<not> blank (n_id n) \<and> \<not> blank (n_name n) \<and> sink_ok n) \<and>
     (\<forall>(name, var) \<in> set (p_variables p).
        \<forall>d. var_default var = Some d \<longrightarrow> default_matches_type d (var_type var)) \<and>
     (\<forall>(env, os) \<in> set (p_environment_overrides p). fst ` set os \<subseteq> set (node_ids p))"

lemma validate_import_Ok:
  assumes "no_snippets p" "hash_order ord"
  shows "validate_import ord js p = Some (Ok ()) \<longleftrightarrow> import_ok p \<and>
    (p_nodes p = [] \<or> Dag.validate ord p = Some (Ok ()))"
proof -
  have errors: "import_errors js p = [] \<longleftrightarrow> import_ok p"
    unfolding import_errors_def append_is_Nil_conv defaults_Nil_iff overrides_Nil_iff check_names_Nil_iff
    by (auto simp: import_ok_def trim_Nil_blank check_materialization_Nil_iff)
  note v = validate_import_def [of ord js p, unfolded Let_def]
  show ?thesis
  proof (cases "p_nodes p = []")
    case True
    then show ?thesis by (simp add: v errors)
  next
    case False
    have "es \<noteq> []" if "Dag.validate ord p = Some (Err es)" for es
      using assms(1) False
      by (cases rule: validate_cases [where ord = ord]) (use that in \<open>auto split: option.splits sum.splits\<close>)
    then show ?thesis using False by (auto simp: v errors split: option.splits sum.splits)
  qed
qed

text \<open>
  An import succeeds exactly when every name is present, every default has its declared
  type, every override names a node, every sink's policy is coherent and the graph is valid.  A
  pipeline with no nodes skips the graph checks.
\<close>

theorem validate_import_iff:
  assumes "no_snippets p" "hash_order ord"
  shows "validate_import ord js p = Some (Ok ()) \<longleftrightarrow> import_ok p \<and>
    (p_nodes p = [] \<or> Dag.validate ord p = Some (Ok ()))"
  by (rule validate_import_Ok [OF assms])

theorem validate_import_iff_witness:
  "validate_import rev (\<lambda>_. []) sample_dag = Some (Ok ())"
proof (rule iffD2 [OF validate_import_iff])
  show "no_snippets sample_dag" by (simp add: sample_dag_def dag_eval)
  show "import_ok sample_dag \<and> (p_nodes sample_dag = [] \<or> Dag.validate rev sample_dag = Some (Ok ()))"
    by (simp add: sample_dag_validate)
       (simp add: import_ok_def sample_dag_def sample_defs blank_def sink_ok_def utf8_len_def
         is_whitespace_def bytes_of_def)
qed simp

subsection \<open>What the migration promises\<close>

lemma bt_remove_insert: "bt_remove k (bt_insert k v m) = bt_remove k m"
  by (induction k v m rule: bt_insert.induct) (auto simp: bt_remove_def)

lemma map_of_bt_insert_same [simp]: "map_of (bt_insert k v m) k = Some v"
  by (induction k v m rule: bt_insert.induct) auto

lemma migrate_object_unknown:
  assumes "migrate_object v (bt_remove ''write_mode'' obj) = (obj', None)"
  shows "\<exists>w. map_of obj' ''write_mode'' = Some (JString w) \<and>
    migrate_object (JString w) (bt_remove ''write_mode'' obj') = (obj', None)"
proof -
  let ?w = "case as_str v of Some s \<Rightarrow> s | None \<Rightarrow> []"
  from assms have w: "?w \<notin> {''insert'', ''append'', ''upsert'', ''truncate_insert''}"
    and obj': "obj' = bt_insert ''write_mode'' (JString ?w) (bt_remove ''write_mode'' obj)"
    by (auto simp: migrate_object_def Let_def split: if_splits)
  have "bt_remove ''write_mode'' (bt_remove ''write_mode'' obj) = bt_remove ''write_mode'' obj"
    by (simp add: bt_remove_def)
  with w obj' show ?thesis
    by (intro exI [of _ ?w]) (simp add: migrate_object_def Let_def bt_remove_insert)
qed

lemma migrate_sink_idem: "migrate_sink (migrate_sink s) = migrate_sink s"
proof (cases "\<exists>obj legacy. snk_connector s \<in> {''postgresql'', ''postgres''} \<and>
    snk_materialization s = None \<and> snk_config s = JObject obj \<and> map_of obj ''write_mode'' = Some legacy")
  case False
  then have "migrate_sink s = s" by (auto simp: migrate_sink_def split: option.split)
  then show ?thesis by simp
next
  case True
  then obtain obj legacy where s: "snk_connector s \<in> {''postgresql'', ''postgres''}"
    "snk_materialization s = None" "snk_config s = JObject obj" "map_of obj ''write_mode'' = Some legacy"
    by blast
  obtain obj' policy where m: "migrate_object legacy (bt_remove ''write_mode'' obj) = (obj', policy)"
    by fastforce
  with s have s': "migrate_sink s = s\<lparr>snk_config := JObject obj', snk_materialization := policy\<rparr>"
    by (auto simp: migrate_sink_def)
  show ?thesis
  proof (cases policy)
    case None
    with m obtain w where "map_of obj' ''write_mode'' = Some (JString w)"
      "migrate_object (JString w) (bt_remove ''write_mode'' obj') = (obj', None)"
      using migrate_object_unknown by blast
    with s s' None show ?thesis by (auto simp: migrate_sink_def)
  next
    case (Some p)
    with s' show ?thesis by (auto simp: migrate_sink_def)
  qed
qed

lemma migrate_node_idem: "migrate_node (migrate_node n) = migrate_node n"
  by (cases "n_kind n") (simp_all add: migrate_node_def migrate_sink_idem)

text \<open>
  The migration is idempotent, and leaves the graph alone: the migrated pipeline has the same
  verdict from the graph validator.
\<close>

theorem migrate_idempotent_and_neutral:
  "migrate_legacy_sinks (migrate_legacy_sinks p) = migrate_legacy_sinks p \<and>
   Dag.validate ord (migrate_legacy_sinks p) = Dag.validate ord p"
proof
  show "migrate_legacy_sinks (migrate_legacy_sinks p) = migrate_legacy_sinks p"
    by (simp add: migrate_legacy_sinks_def migrate_node_idem)
  let ?p = "migrate_legacy_sinks p"
  have ids: "n_id (migrate_node n) = n_id n" for n
    by (simp add: migrate_node_def split: node_kind.splits)
  have es: "p_edges ?p = p_edges p" and ns: "p_nodes ?p = map migrate_node (p_nodes p)"
    by (simp_all add: migrate_legacy_sinks_def)
  have 1: "check_node_ids seen (map migrate_node ns) = check_node_ids seen ns" for seen ns
    by (induction seen ns rule: check_node_ids.induct) (simp_all add: ids)
  have k: "check_kind ?p (migrate_node n) = check_kind p n" for n
    by (simp add: check_kind_def ids has_upstream_def has_downstream_def es migrate_node_def
        split: node_kind.splits)
  have 2: "check_kinds ?p (map migrate_node ns) = check_kinds p ns" for ns
    by (induction ns) (simp_all add: k split: option.split)
  have 3: "check_orphans ?p = check_orphans p"
    by (simp add: check_orphans_def ns es has_upstream_def has_downstream_def filter_map comp_def ids)
  have 4: "detect_cycle ord ?p = detect_cycle ord p"
    unfolding detect_cycle_def build_adjacency_def ns es length_map by (simp add: fold_map comp_def ids)
  have 5: "node_ids ?p = node_ids p" by (simp add: ns comp_def ids)
  show "Dag.validate ord ?p = Dag.validate ord p"
    unfolding Dag.validate_def 5 es 3 4 unfolding ns 1 2 by simp
qed

lemma coherent_migrated:
  "strategy \<in> {Append, Merge, TruncateInsert} \<Longrightarrow>
   coherent_policy (migrated strategy keys) \<longleftrightarrow>
     (case keys of None \<Rightarrow> strategy \<noteq> Merge | Some ks \<Rightarrow> strategy = Merge \<and> ks \<noteq> [])"
  by (auto simp: migrated_def default_policy_def coherent_policy_def watermark_ok_def
      lookback_ok_def snapshot_ok_def default_lookback_def split: option.splits)

lemma migrated_strategy [simp]: "mp_write_strategy (migrated strategy keys) = strategy"
  by (simp add: migrated_def)

text \<open>
  The migration table.  A Postgres sink without a policy whose config has a legacy write mode
  gets the strategy of the table and loses the legacy keys; the new policy is coherent except
  for an upsert without text conflict keys; any other mode leaves the sink without a policy.
\<close>

theorem migrate_sink_table:
  assumes "snk_connector s \<in> {''postgresql'', ''postgres''}" "snk_materialization s = None"
    "snk_config s = JObject obj" "map_of obj ''write_mode'' = Some (JString w)"
  shows "(w \<in> {''insert'', ''append'', ''upsert'', ''truncate_insert''} \<longrightarrow>
     (\<exists>p. snk_materialization (migrate_sink s) = Some p \<and>
        mp_write_strategy p = (if w = ''upsert'' then Merge
          else if w = ''truncate_insert'' then TruncateInsert else Append) \<and>
        (coherent_policy p \<longleftrightarrow> (w = ''upsert'' \<longrightarrow> legacy_keys (bt_remove ''write_mode'' obj) \<noteq> []))) \<and>
     (\<exists>obj'. snk_config (migrate_sink s) = JObject obj' \<and> map_of obj' ''write_mode'' = None)) \<and>
   (w \<notin> {''insert'', ''append'', ''upsert'', ''truncate_insert''} \<longrightarrow>
      snk_materialization (migrate_sink s) = None)"
  using assms
  by (auto simp: migrate_sink_def migrate_object_def Let_def map_of_bt_remove coherent_migrated)

definition legacy_sink :: sink_config where
  "legacy_sink = \<lparr>snk_connector = ''postgres'', snk_config = JObject
     [(''conflict_keys'', JArray [JString ''id'']), (''write_mode'', JString ''upsert'')],
     snk_materialization = None\<rparr>"

theorem migrate_sink_table_witness:
  "\<exists>p. snk_materialization (migrate_sink legacy_sink) = Some p \<and> coherent_policy p"
  using migrate_sink_table [of legacy_sink "[(''conflict_keys'', JArray [JString ''id'']),
      (''write_mode'', JString ''upsert'')]" "''upsert''"]
  by (auto simp: legacy_sink_def legacy_keys_def bt_remove_def)

text \<open>A legacy mode that is not a text is lost: the config gets the empty text instead.\<close>

lemma migrate_drops_other_values:
  "migrate_sink (legacy_sink\<lparr>snk_config := JObject [(''write_mode'', JBool True)]\<rparr>) =
   legacy_sink\<lparr>snk_config := JObject [(''write_mode'', JString [])]\<rparr>"
  by (simp add: migrate_sink_def migrate_object_def legacy_sink_def Let_def bt_remove_def)

text \<open>Any ten bytes with a dash in the fifth place pass for a date.\<close>

lemma date_check_is_loose: "default_matches_type (JString ''abcd-fghij'') VtDate"
  by simp

end
