(* ===== verification/Variables.thy ===== *)
theory Variables
  imports Validate
begin

text \<open>
  \<open>variables.rs\<close>: the resolution of pipeline variables and the interpolation of
  \<open>{{ name }}\<close> and \<open>{{ env:NAME }}\<close> references.  The two regular expressions are matched by hand:
  white space, identifier characters and the closing brace are disjoint, so the greedy match
  is the only one.  \<open>env\<close> is the process environment, \<open>js\<close> prints a JSON value.
\<close>

subsection \<open>The references of a text\<close>

definition ident_start :: "char \<Rightarrow> bool" where
  "ident_start c = (is_alpha c \<or> c = CHR ''_'')"

definition ident_char :: "char \<Rightarrow> bool" where
  "ident_char c = (is_alnum c \<or> c = CHR ''_'')"

definition is_identifier :: "string \<Rightarrow> bool" where
  "is_identifier s = (case s of [] \<Rightarrow> False | c # r \<Rightarrow> ident_start c \<and> list_all ident_char r)"

definition skip_ws :: "string \<Rightarrow> string" where
  "skip_ws s = concat (dropWhile is_whitespace (chars s))"

text \<open>A match at the start of the text: the captured name, and the text behind the match.\<close>

definition match_ref :: "string \<Rightarrow> string \<Rightarrow> (string \<times> string) option" where
  "match_ref pre s = (case strip_prefix ''{{'' s of
      None \<Rightarrow> None
    | Some s1 \<Rightarrow> (case strip_prefix pre (skip_ws s1) of
          None \<Rightarrow> None
        | Some s2 \<Rightarrow>
            let name = takeWhile ident_char s2
            in if is_identifier name
               then map_option (Pair name) (strip_prefix ''}}'' (skip_ws (drop (length name) s2)))
               else None))"

lemma concat_dropWhile_length: "length (concat (dropWhile P xs)) \<le> length (concat xs)"
  by (induction xs) auto

lemma skip_ws_length: "length (skip_ws s) \<le> length s"
  using concat_dropWhile_length [of is_whitespace "chars s"] by (simp add: skip_ws_def concat_chars)

lemma match_ref_length: "match_ref pre s = Some (name, r) \<Longrightarrow> length r < length s"
proof -
  assume "match_ref pre s = Some (name, r)"
  then obtain s1 s2 where 1: "s = ''{{'' @ s1" and 2: "skip_ws s1 = pre @ s2"
    and 3: "skip_ws (drop (length name) s2) = ''}}'' @ r"
    by (auto simp: match_ref_def Let_def strip_prefix_Some_iff split: option.splits if_splits)
  have "length r \<le> length (drop (length name) s2)"
    using skip_ws_length [of "drop (length name) s2"] 3 by simp
  moreover have "length s2 \<le> length s1" using skip_ws_length [of s1] 2 by simp
  ultimately show ?thesis using 1 by simp
qed

text \<open>The matches from left to right, with the bytes between them.\<close>

datatype segment = Lit char | Ref string

function scan_refs :: "string \<Rightarrow> string \<Rightarrow> segment list" where
  "scan_refs pre [] = []"
| "scan_refs pre (c # s) = (case match_ref pre (c # s) of
      Some (name, r) \<Rightarrow> Ref name # scan_refs pre r
    | None \<Rightarrow> Lit c # scan_refs pre s)"
  by pat_completeness auto
termination
  by (relation "measure (\<lambda>(pre, s). length s)") (auto dest: match_ref_length)

fun segment_text :: "(string \<Rightarrow> string) \<Rightarrow> segment \<Rightarrow> string" where
  "segment_text f (Lit c) = [c]"
| "segment_text f (Ref name) = f name"

definition replace_all :: "string \<Rightarrow> (string \<Rightarrow> string) \<Rightarrow> string \<Rightarrow> string" where
  "replace_all pre f s = concat (map (segment_text f) (scan_refs pre s))"

fun segment_refs :: "segment \<Rightarrow> string list" where
  "segment_refs (Lit c) = []"
| "segment_refs (Ref name) = [name]"

definition extract_references :: "string \<Rightarrow> string list" where
  "extract_references s = concat (map segment_refs (scan_refs [] s))"

subsection \<open>Resolved variables\<close>

record builtin_context =
  bc_run_date :: string
  bc_run_id :: string
  bc_pipeline_name :: string
  bc_environment :: string

type_synonym resolved_variables = "string \<rightharpoonup> json"

definition BUILTIN_VARS :: "string list" where
  "BUILTIN_VARS = [''run_date'', ''run_id'', ''pipeline_name'', ''environment'']"

definition resolve :: "pipeline \<Rightarrow> (string \<times> json) list \<Rightarrow> builtin_context \<Rightarrow> resolved_variables" where
  "resolve p overrides b =
     (let v0 = Map.empty(''run_date'' \<mapsto> JString (bc_run_date b), ''run_id'' \<mapsto> JString (bc_run_id b),
            ''pipeline_name'' \<mapsto> JString (bc_pipeline_name b),
            ''environment'' \<mapsto> JString (bc_environment b));
          v1 = fold (\<lambda>(name, var) m. case var_default var of None \<Rightarrow> m | Some d \<Rightarrow> m(name \<mapsto> d))
            (p_variables p) v0
      in fold (\<lambda>(name, value) m. m(name \<mapsto> value)) overrides v1)"

definition value_text :: "(json \<Rightarrow> string) \<Rightarrow> resolved_variables \<Rightarrow> string \<Rightarrow> string" where
  "value_text js vars name = (case vars name of
      Some (JString s) \<Rightarrow> s
    | Some (JNumber n) \<Rightarrow> js (JNumber n)
    | Some (JBool b) \<Rightarrow> (if b then ''true'' else ''false'')
    | Some JNull \<Rightarrow> []
    | None \<Rightarrow> []
    | Some (JArray vs) \<Rightarrow> js (JArray vs)
    | Some (JObject m) \<Rightarrow> js (JObject m))"

definition env_text :: "(string \<rightharpoonup> string) \<Rightarrow> string \<Rightarrow> string" where
  "env_text env name = (case env name of Some s \<Rightarrow> s | None \<Rightarrow> [])"

definition interpolate ::
  "(string \<rightharpoonup> string) \<Rightarrow> (json \<Rightarrow> string) \<Rightarrow> resolved_variables \<Rightarrow> string \<Rightarrow> string" where
  "interpolate env js vars s =
     (let after_env = replace_all ''env:'' (env_text env) s
      in replace_all [] (value_text js vars) after_env)"

fun interpolate_json ::
  "(string \<rightharpoonup> string) \<Rightarrow> (json \<Rightarrow> string) \<Rightarrow> resolved_variables \<Rightarrow> json \<Rightarrow> json" where
  "interpolate_json env js vars (JString s) = JString (interpolate env js vars s)"
| "interpolate_json env js vars (JObject m) =
     JObject (map (\<lambda>(k, v). (k, interpolate_json env js vars v)) m)"
| "interpolate_json env js vars (JArray vs) = JArray (map (interpolate_json env js vars) vs)"
| "interpolate_json env js vars JNull = JNull"
| "interpolate_json env js vars (JBool b) = JBool b"
| "interpolate_json env js vars (JNumber n) = JNumber n"

fun extract_references_json :: "json \<Rightarrow> string list" where
  "extract_references_json (JString s) = extract_references s"
| "extract_references_json (JObject m) = concat (map (\<lambda>(k, v). extract_references_json v) m)"
| "extract_references_json (JArray vs) = concat (map extract_references_json vs)"
| "extract_references_json JNull = []"
| "extract_references_json (JBool b) = []"
| "extract_references_json (JNumber n) = []"

subsection \<open>Checks\<close>

record variable_warning =
  vw_node_id :: string
  vw_location :: string
  vw_variable :: string

definition check_refs :: "string list \<Rightarrow> string \<Rightarrow> string \<Rightarrow> string set \<Rightarrow> variable_warning list" where
  "check_refs refs nid loc defined =
     map (\<lambda>v. \<lparr>vw_node_id = nid, vw_location = loc, vw_variable = v\<rparr>) (filter (\<lambda>v. v \<notin> defined) refs)"

definition node_warnings :: "string set \<Rightarrow> node \<Rightarrow> variable_warning list" where
  "node_warnings defined n = (case n_kind n of
      Source src \<Rightarrow> check_refs (extract_references_json (src_config src)) (n_id n) ''source config'' defined
    | Transform xf \<Rightarrow> check_refs (extract_references (xf_code xf)) (n_id n) ''transform code'' defined
    | Sink snk \<Rightarrow> check_refs (extract_references_json (snk_config snk)) (n_id n) ''sink config'' defined
    | Test _ \<Rightarrow> []
    | Snippet _ \<Rightarrow> [])"

definition validate_variable_references :: "pipeline \<Rightarrow> variable_warning list" where
  "validate_variable_references p =
     (let defined = set BUILTIN_VARS \<union> fst ` set (p_variables p)
      in concat (map (node_warnings defined) (p_nodes p)))"

fun override_matches_type :: "json \<Rightarrow> variable_type \<Rightarrow> bool" where
  "override_matches_type v VtString = is_string v"
| "override_matches_type v VtInteger = (is_i64 v \<or> is_u64 v)"
| "override_matches_type v VtFloat = is_number v"
| "override_matches_type v VtBoolean = is_boolean v"
| "override_matches_type v VtDate =
     (case as_str v of None \<Rightarrow> False | Some s \<Rightarrow> length s = 10 \<and> s ! 4 = CHR ''-'')"

text \<open>One error per incompatible override: its name, value and declared type.\<close>

definition validate_overrides :: "pipeline \<Rightarrow> (string \<times> json) list \<Rightarrow> (string \<times> json \<times> variable_type) list" where
  "validate_overrides p overrides = concat (map (\<lambda>(name, value).
     case map_of (p_variables p) name of
       None \<Rightarrow> []
     | Some var \<Rightarrow> if \<not> override_matches_type value (var_type var)
         then [(name, value, var_type var)] else []) overrides)"

subsection \<open>Precedence\<close>

lemma fold_defaults:
  "distinct (map fst vs) \<Longrightarrow>
   fold (\<lambda>(name, var) m. case var_default var of None \<Rightarrow> m | Some d \<Rightarrow> m(name \<mapsto> d)) vs m n =
     (case map_of vs n of
        Some var \<Rightarrow> (case var_default var of Some d \<Rightarrow> Some d | None \<Rightarrow> m n)
      | None \<Rightarrow> m n)"
  by (induction vs arbitrary: m) (auto split: option.splits simp: map_of_eq_None_iff rev_image_eqI)

lemma fold_overrides:
  "distinct (map fst os) \<Longrightarrow>
   fold (\<lambda>(name, value) m. m(name \<mapsto> value)) os m n = (case map_of os n of Some v \<Rightarrow> Some v | None \<Rightarrow> m n)"
  by (induction os arbitrary: m) (auto split: option.splits simp: map_of_eq_None_iff rev_image_eqI)

definition builtin_value :: "builtin_context \<Rightarrow> string \<rightharpoonup> json" where
  "builtin_value b = Map.empty(''run_date'' \<mapsto> JString (bc_run_date b), ''run_id'' \<mapsto> JString (bc_run_id b),
     ''pipeline_name'' \<mapsto> JString (bc_pipeline_name b), ''environment'' \<mapsto> JString (bc_environment b))"

text \<open>
  The precedence chain: an override wins over the pipeline's default, which wins over a
  built-in; a variable with no default and no override falls through to the built-in of its name.
\<close>

theorem resolve_precedence:
  assumes "distinct (map fst (p_variables p))" "distinct (map fst overrides)"
  shows "resolve p overrides b n =
    (case map_of overrides n of
       Some v \<Rightarrow> Some v
     | None \<Rightarrow> (case Option.bind (map_of (p_variables p) n) var_default of
          Some d \<Rightarrow> Some d
        | None \<Rightarrow> builtin_value b n))"
  unfolding resolve_def Let_def builtin_value_def [symmetric] fold_overrides [OF assms(2)]
    fold_defaults [OF assms(1)]
  by (auto split: option.splits)

definition sample_context :: builtin_context where
  "sample_context = \<lparr>bc_run_date = ''2026-01-01'', bc_run_id = ''r1'', bc_pipeline_name = ''p'',
     bc_environment = ''dev''\<rparr>"

theorem resolve_precedence_witness:
  "resolve sample_dag [(''run_id'', JString ''x'')] sample_context ''run_id'' = Some (JString ''x'')"
  using resolve_precedence [of sample_dag "[(''run_id'', JString ''x'')]" sample_context "''run_id''"]
  by (simp add: sample_dag_def plain_pipeline_def)

subsection \<open>Templates\<close>

text \<open>
  A template is a list of pieces: text without a brace, a variable reference or an environment
  reference, each reference with white space of its own around the name.
\<close>

datatype piece = Text string | Var string string string | Env string string string

fun piece_source :: "piece \<Rightarrow> string" where
  "piece_source (Text s) = s"
| "piece_source (Var w1 name w2) = ''{{'' @ w1 @ name @ w2 @ ''}}''"
| "piece_source (Env w1 name w2) = ''{{'' @ w1 @ ''env:'' @ name @ w2 @ ''}}''"

definition blanks :: "string \<Rightarrow> bool" where
  "blanks w \<longleftrightarrow> set w \<subseteq> {CHR '' '', CHR 0x0A, CHR 0x09}"

fun piece_ok :: "piece \<Rightarrow> bool" where
  "piece_ok (Text s) \<longleftrightarrow> CHR ''{'' \<notin> set s"
| "piece_ok (Var w1 name w2) \<longleftrightarrow> blanks w1 \<and> is_identifier name \<and> blanks w2"
| "piece_ok (Env w1 name w2) \<longleftrightarrow> blanks w1 \<and> is_identifier name \<and> blanks w2"

fun piece_value :: "(string \<Rightarrow> string) \<Rightarrow> (string \<Rightarrow> string) \<Rightarrow> piece \<Rightarrow> string" where
  "piece_value ev vv (Text s) = s"
| "piece_value ev vv (Var w1 name w2) = vv name"
| "piece_value ev vv (Env w1 name w2) = ev name"

lemma blank_cons:
  "c \<in> {CHR '' '', CHR 0x0A, CHR 0x09} \<Longrightarrow> chars (c # s) = [c] # chars s"
  "c \<in> {CHR '' '', CHR 0x0A, CHR 0x09} \<Longrightarrow> is_whitespace [c]"
  by (auto simp: utf8_len_def is_whitespace_def bytes_of_def)

lemma skip_ws_blanks: "blanks w \<Longrightarrow> skip_ws (w @ s) = skip_ws s"
proof (induction w)
  case Nil
  then show ?case by simp
next
  case (Cons c w)
  then have c: "c \<in> {CHR '' '', CHR 0x0A, CHR 0x09}" and w: "blanks w" by (auto simp: blanks_def)
  have "skip_ws (c # w @ s) = skip_ws (w @ s)"
    unfolding skip_ws_def blank_cons(1) [OF c] using blank_cons(2) [OF c] by simp
  with Cons.IH [OF w] show ?case by simp
qed

lemma skip_ws_graph: "is_graph c \<Longrightarrow> skip_ws (c # s) = c # s"
  by (auto simp: skip_ws_def is_graph_def utf8_len_def Let_def concat_chars is_whitespace_def bytes_of_def)

lemma ident_char_graph: "ident_char c \<Longrightarrow> is_graph c"
  by (auto simp: ident_char_def is_alnum_def is_alpha_def is_digit_def is_graph_def Let_def)

lemma identifier_cases:
  assumes "is_identifier name"
  obtains c r where "name = c # r" "ident_start c" "ident_char c" "\<forall>x \<in> set name. ident_char x"
proof -
  from assms obtain c r where "name = c # r" "ident_start c" "list_all ident_char r"
    by (auto simp: is_identifier_def split: list.splits)
  moreover from this have "ident_char c" by (auto simp: ident_start_def ident_char_def is_alnum_def)
  ultimately show thesis using that by (auto simp: list_all_iff)
qed

lemma blanks_not_ident: "blanks w \<Longrightarrow> takeWhile ident_char (w @ CHR ''}'' # s) = []"
  by (cases w) (auto simp: blanks_def ident_char_def is_alnum_def is_alpha_def is_digit_def)

lemma match_name:
  assumes "is_identifier name" "blanks w"
  shows "takeWhile ident_char (name @ w @ ''}}'' @ s) = name"
    "skip_ws (drop (length name) (name @ w @ ''}}'' @ s)) = ''}}'' @ s"
proof -
  from assms(1) have "\<forall>x \<in> set name. ident_char x" by (rule identifier_cases)
  then show "takeWhile ident_char (name @ w @ ''}}'' @ s) = name"
    using blanks_not_ident [OF assms(2)] by (simp add: takeWhile_append2)
  have "is_graph CHR ''}''" by (simp add: is_graph_def)
  then show "skip_ws (drop (length name) (name @ w @ ''}}'' @ s)) = ''}}'' @ s"
    by (simp add: skip_ws_blanks [OF assms(2)] skip_ws_graph)
qed

lemma match_ref_brace: "c \<noteq> CHR ''{'' \<Longrightarrow> match_ref pre (c # s) = None"
  "c \<noteq> CHR ''{'' \<Longrightarrow> match_ref pre (CHR ''{'' # c # s) = None"
  by (simp_all add: match_ref_def)

lemma scan_refs_lits: "CHR ''{'' \<notin> set s \<Longrightarrow> scan_refs pre (s @ t) = map Lit s @ scan_refs pre t"
  by (induction s) (auto simp: match_ref_brace)

lemma match_ref_piece:
  assumes "is_identifier name" "blanks w1" "blanks w2"
  shows "match_ref [] (''{{'' @ w1 @ name @ w2 @ ''}}'' @ s) = Some (name, s)"
    "match_ref ''env:'' (''{{'' @ w1 @ ''env:'' @ name @ w2 @ ''}}'' @ s) = Some (name, s)"
proof -
  obtain c r where c: "name = c # r" "ident_char c" using assms(1) by (rule identifier_cases)
  have 1: "skip_ws (w1 @ name @ w2 @ ''}}'' @ s) = name @ w2 @ ''}}'' @ s"
    by (simp add: skip_ws_blanks [OF assms(2)] c skip_ws_graph ident_char_graph)
  have "is_graph CHR ''e''" by (simp add: is_graph_def)
  then have 2: "skip_ws (w1 @ ''env:'' @ name @ w2 @ ''}}'' @ s) = ''env:'' @ name @ w2 @ ''}}'' @ s"
    by (simp add: skip_ws_blanks [OF assms(2)] skip_ws_graph)
  note m = match_name [OF assms(1,3), of s]
  show "match_ref [] (''{{'' @ w1 @ name @ w2 @ ''}}'' @ s) = Some (name, s)"
    using m assms(1) 1 by (simp add: match_ref_def)
  show "match_ref ''env:'' (''{{'' @ w1 @ ''env:'' @ name @ w2 @ ''}}'' @ s) = Some (name, s)"
    using m assms(1) 2 by (simp add: match_ref_def)
qed

lemma scan_refs_match:
  assumes "match_ref pre (CHR ''{'' # s) = Some (name, r)"
  shows "scan_refs pre (CHR ''{'' # s) = Ref name # scan_refs pre r"
  using assms by simp

text \<open>A variable reference is no environment reference: there is no colon in it.\<close>

lemma no_env_prefix:
  assumes "\<forall>x \<in> set name. ident_char x" "blanks w"
  shows "strip_prefix ''env:'' (name @ w @ ''}}'' @ s) = None"
proof -
  have colon: "\<not> ident_char CHR '':''" by (simp add: ident_char_def is_alnum_def is_alpha_def is_digit_def)
  have b: "x \<in> {CHR '' '', CHR 0x0A, CHR 0x09}" if "x \<in> set w" for x
    using assms(2) that by (auto simp: blanks_def)
  have w: "strip_prefix (c # cs) (w @ ''}}'' @ s) = None" if "c \<in> set ''env:''" for c cs
    using that b by (cases w) auto
  consider "name = []" | a where "name = [a]" | a a' where "name = [a, a']"
    | a a' a'' where "name = [a, a', a'']" | a a' a'' x r where "name = a # a' # a'' # x # r"
    by (metis list.exhaust)
  then show ?thesis using w assms(1) colon by cases auto
qed

lemma match_ref_not_env:
  assumes "is_identifier name" "blanks w1" "blanks w2"
  shows "match_ref ''env:'' (''{{'' @ w1 @ name @ w2 @ ''}}'' @ s) = None"
proof -
  obtain c r where c: "name = c # r" "ident_char c" "\<forall>x \<in> set name. ident_char x"
    using assms(1) by (rule identifier_cases)
  have "skip_ws (w1 @ name @ w2 @ ''}}'' @ s) = name @ w2 @ ''}}'' @ s"
    by (simp add: skip_ws_blanks [OF assms(2)] c skip_ws_graph ident_char_graph)
  then show ?thesis using no_env_prefix [OF c(3) assms(3)] by (simp add: match_ref_def)
qed

lemma no_brace:
  assumes "is_identifier name" "blanks w1" "blanks w2"
  shows "CHR ''{'' \<notin> set (w1 @ name @ w2 @ ''}}'')"
proof -
  have "\<forall>x \<in> set name. ident_char x" using assms(1) by (rule identifier_cases)
  moreover have "\<not> ident_char CHR ''{''"
    by (simp add: ident_char_def is_alnum_def is_alpha_def is_digit_def)
  ultimately show ?thesis using assms(2,3) by (auto simp: blanks_def)
qed

lemma scan_env_var:
  assumes "is_identifier name" "blanks w1" "blanks w2"
  shows "scan_refs ''env:'' (''{{'' @ w1 @ name @ w2 @ ''}}'' @ s) =
    map Lit (''{{'' @ w1 @ name @ w2 @ ''}}'') @ scan_refs ''env:'' s"
proof -
  let ?t = "w1 @ name @ w2 @ ''}}''"
  obtain c r where t: "?t = c # r" by (cases ?t) auto
  with no_brace [OF assms] have "c \<noteq> CHR ''{''" by auto
  then have 2: "match_ref ''env:'' (CHR ''{'' # ?t @ s) = None" by (simp add: t match_ref_brace)
  have 1: "match_ref ''env:'' (CHR ''{'' # CHR ''{'' # ?t @ s) = None"
    using match_ref_not_env [OF assms, of s] by simp
  have "scan_refs ''env:'' (CHR ''{'' # CHR ''{'' # ?t @ s) =
      Lit CHR ''{'' # Lit CHR ''{'' # scan_refs ''env:'' (?t @ s)"
    by (simp only: scan_refs.simps 1 2 option.case)
  with scan_refs_lits [OF no_brace [OF assms]] show ?thesis by simp
qed

text \<open>What the first pass leaves of a piece.\<close>

fun env_done :: "(string \<Rightarrow> string) \<Rightarrow> piece \<Rightarrow> piece" where
  "env_done ev (Text s) = Text s"
| "env_done ev (Var w1 name w2) = Var w1 name w2"
| "env_done ev (Env w1 name w2) = Text (ev name)"

lemma replace_all_Nil [simp]: "replace_all pre f [] = []"
  by (simp add: replace_all_def)

lemma concat_lits: "concat (map (segment_text f) (map Lit s)) = s"
  by (induction s) auto

lemma env_pass:
  "\<forall>p \<in> set ps. piece_ok p \<Longrightarrow> replace_all ''env:'' ev (concat (map piece_source ps)) =
     concat (map (\<lambda>p. piece_source (env_done ev p)) ps)"
proof (induction ps)
  case Nil
  then show ?case by simp
next
  case (Cons p ps)
  let ?rest = "concat (map piece_source ps)"
  have IH: "concat (map (segment_text ev) (scan_refs ''env:'' ?rest)) =
      concat (map (\<lambda>p. piece_source (env_done ev p)) ps)"
    using Cons by (simp add: replace_all_def)
  show ?case
  proof (cases p)
    case (Text s)
    with Cons.prems have "CHR ''{'' \<notin> set s" by simp
    from scan_refs_lits [OF this, of "''env:''" ?rest] IH Text show ?thesis
      by (simp add: replace_all_def concat_lits del: map_map)
  next
    case (Var w1 name w2)
    with Cons.prems have "is_identifier name" "blanks w1" "blanks w2" by auto
    from scan_env_var [OF this, of ?rest] IH Var show ?thesis
      by (simp add: replace_all_def concat_lits del: map_map scan_refs.simps)
  next
    case (Env w1 name w2)
    with Cons.prems have "is_identifier name" "blanks w1" "blanks w2" by auto
    from match_ref_piece(2) [OF this, of ?rest]
    have "scan_refs ''env:'' (piece_source p @ ?rest) = Ref name # scan_refs ''env:'' ?rest"
      using Env by (simp add: scan_refs_match del: scan_refs.simps)
    with IH Env show ?thesis by (simp add: replace_all_def del: scan_refs.simps)
  qed
qed

lemma scan_plain:
  "\<forall>p \<in> set ps. piece_ok p \<and> (\<forall>w1 n w2. p \<noteq> Env w1 n w2) \<Longrightarrow>
   scan_refs [] (concat (map piece_source ps)) =
     concat (map (\<lambda>p. case p of Text s \<Rightarrow> map Lit s | Var _ name _ \<Rightarrow> [Ref name] | Env _ _ _ \<Rightarrow> []) ps)"
proof (induction ps)
  case Nil
  then show ?case by simp
next
  case (Cons p ps)
  let ?rest = "concat (map piece_source ps)"
  show ?case
  proof (cases p)
    case (Text s)
    with Cons.prems have "CHR ''{'' \<notin> set s" by simp
    from scan_refs_lits [OF this, of "[]" ?rest] Cons Text show ?thesis by simp
  next
    case (Var w1 name w2)
    with Cons.prems have "is_identifier name" "blanks w1" "blanks w2" by auto
    from match_ref_piece(1) [OF this, of ?rest]
    have "scan_refs [] (piece_source p @ ?rest) = Ref name # scan_refs [] ?rest"
      using Var by (simp add: scan_refs_match del: scan_refs.simps)
    with Cons Var show ?thesis by (simp del: scan_refs.simps)
  next
    case (Env w1 name w2)
    with Cons.prems show ?thesis by auto
  qed
qed

lemma concat_map_concat: "concat (map f (concat xss)) = concat (map (\<lambda>xs. concat (map f xs)) xss)"
  by (induction xss) auto

lemma plain_pass:
  assumes "\<forall>p \<in> set ps. piece_ok p \<and> (\<forall>w1 n w2. p \<noteq> Env w1 n w2)"
  shows "replace_all [] f (concat (map piece_source ps)) = concat (map (piece_value ev f) ps)"
proof -
  have "concat (map (segment_text f) (case p of Text s \<Rightarrow> map Lit s | Var _ name _ \<Rightarrow> [Ref name] | Env _ _ _ \<Rightarrow> [])) =
      piece_value ev f p" if "p \<in> set ps" for p
    using assms that by (cases p) (auto simp: concat_lits simp del: map_map)
  then show ?thesis
    unfolding replace_all_def scan_plain [OF assms] concat_map_concat by (simp add: comp_def cong: map_cong)
qed

text \<open>
  Interpolation of a template replaces every reference by its value and leaves the rest, as
  long as the environment values have no brace; and the references of a template without
  environment references are its variables, in order.
\<close>

theorem interpolate_template:
  assumes "\<forall>p \<in> set ps. piece_ok p"
    and "\<forall>p \<in> set ps. \<forall>w1 n w2. p = Env w1 n w2 \<longrightarrow> CHR ''{'' \<notin> set (env_text env n)"
  shows "interpolate env js vars (concat (map piece_source ps)) =
      concat (map (piece_value (env_text env) (value_text js vars)) ps)"
proof -
  let ?qs = "map (env_done (env_text env)) ps"
  have ok: "\<forall>q \<in> set ?qs. piece_ok q \<and> (\<forall>w1 n w2. q \<noteq> Env w1 n w2)"
  proof
    fix q assume "q \<in> set ?qs"
    then obtain p where "p \<in> set ps" "q = env_done (env_text env) p" by auto
    with assms show "piece_ok q \<and> (\<forall>w1 n w2. q \<noteq> Env w1 n w2)" by (cases p) auto
  qed
  have val: "piece_value ev f (env_done (env_text env) p) = piece_value (env_text env) f p" for ev f p
    by (cases p) auto
  have "interpolate env js vars (concat (map piece_source ps)) =
      replace_all [] (value_text js vars) (concat (map piece_source ?qs))"
    by (simp add: interpolate_def env_pass [OF assms(1)] comp_def)
  also have "\<dots> = concat (map (piece_value (env_text env) (value_text js vars)) ?qs)"
    by (rule plain_pass [OF ok])
  finally show ?thesis by (simp add: comp_def val)
qed

theorem interpolate_template_witness:
  "interpolate (\<lambda>_. None) (\<lambda>_. []) [''d'' \<mapsto> JString ''x''] ''a={{ d }};'' = ''a=x;''"
  using interpolate_template [of "[Text ''a='', Var '' '' ''d'' '' '', Text '';'']" "\<lambda>_. None" "\<lambda>_. []"
      "[''d'' \<mapsto> JString ''x'']"]
  by (simp add: blanks_def is_identifier_def ident_start_def is_alpha_def value_text_def
      del: scan_refs.simps)

definition node_references :: "node \<Rightarrow> string list" where
  "node_references n = (case n_kind n of
      Source src \<Rightarrow> extract_references_json (src_config src)
    | Transform xf \<Rightarrow> extract_references (xf_code xf)
    | Sink snk \<Rightarrow> extract_references_json (snk_config snk)
    | _ \<Rightarrow> [])"

text \<open>
  The reference check warns of exactly the references of a source's or sink's config, or of a
  transform's code, that are neither built in nor declared.
\<close>

theorem variable_warnings_correct:
  "(i, v) \<in> (\<lambda>w. (vw_node_id w, vw_variable w)) ` set (validate_variable_references p) \<longleftrightarrow>
     (\<exists>n \<in> set (p_nodes p). n_id n = i \<and> v \<in> set (node_references n) \<and>
        v \<notin> set BUILTIN_VARS \<and> map_of (p_variables p) v = None)"
proof -
  have warn: "(i, v) \<in> (\<lambda>w. (vw_node_id w, vw_variable w)) ` set (node_warnings defined n) \<longleftrightarrow>
      n_id n = i \<and> v \<in> set (node_references n) \<and> v \<notin> defined" for defined n
    by (force simp: node_warnings_def node_references_def check_refs_def split: node_kind.splits)
  have "(i, v) \<in> (\<lambda>w. (vw_node_id w, vw_variable w)) ` set (validate_variable_references p) \<longleftrightarrow>
      (\<exists>n \<in> set (p_nodes p). (i, v) \<in> (\<lambda>w. (vw_node_id w, vw_variable w)) `
         set (node_warnings (set BUILTIN_VARS \<union> fst ` set (p_variables p)) n))"
    by (auto simp: validate_variable_references_def Let_def)
  then show ?thesis by (auto simp: warn map_of_eq_None_iff)
qed

text \<open>The override check reports exactly the incompatible declared overrides.\<close>

lemma validate_overrides_iff:
  "(name, value, t) \<in> set (validate_overrides p overrides) \<longleftrightarrow>
     (name, value) \<in> set overrides \<and>
     (\<exists>var. map_of (p_variables p) name = Some var \<and> t = var_type var \<and>
        \<not> override_matches_type value t)"
  by (force simp: validate_overrides_def split: option.splits)

text \<open>The value of an environment variable is read a second time, as a template.\<close>

lemma environment_value_is_rescanned:
  "interpolate [''E'' \<mapsto> ''{{ d }}''] (\<lambda>_. []) [''d'' \<mapsto> JString ''x''] ''{{env:E}}'' = ''x''"
proof -
  have id: "is_identifier ''E''" "is_identifier ''d''"
    by (simp_all add: is_identifier_def ident_start_def is_alpha_def)
  have 1: "match_ref ''env:'' ''{{env:E}}'' = Some (''E'', [])"
    using match_ref_piece(2) [OF id(1), of "[]" "[]" "[]"] by (simp add: blanks_def)
  have 2: "match_ref [] ''{{ d }}'' = Some (''d'', [])"
    using match_ref_piece(1) [OF id(2), of "'' ''" "'' ''" "[]"] by (simp add: blanks_def)
  have "replace_all ''env:'' (env_text [''E'' \<mapsto> ''{{ d }}'']) ''{{env:E}}'' = ''{{ d }}''"
    by (simp add: replace_all_def scan_refs_match [OF 1] env_text_def del: scan_refs.simps(2))
  moreover have "replace_all [] (value_text (\<lambda>_. []) [''d'' \<mapsto> JString ''x'']) ''{{ d }}'' = ''x''"
    by (simp add: replace_all_def scan_refs_match [OF 2] value_text_def del: scan_refs.simps(2))
  ultimately show ?thesis by (simp add: interpolate_def)
qed

end
