(* ===== verification/Snippets.thy ===== *)
theory Snippets
  imports Variables
begin

text \<open>
  \<open>snippet.rs\<close>: the registry of snippet definitions, and the expansion of snippet calls into
  namespaced nodes.  \<open>None\<close> is a run without a result: the \<open>unreachable!\<close> panic, or a
  rewriting loop that does not end.  The file system and the JSON parser are parameters.
\<close>

datatype snippet_error =
    ReadDir string
  | ParseError string
  | DuplicateName string string string
  | NotASnippetFile string
  | NameMismatch string string string
  | UnknownOutput string string
  | InvalidParamName string string
  | UnknownSnippet string string
  | MissingParam string string string
  | UnknownParam string string string
  | ParamTypeMismatch string string string string string
  | TooDeep nat
  | SnippetCycle "string list"
  | NamespaceCollision string string
  | NotConfigured

definition MAX_DEPTH :: nat where
  "MAX_DEPTH = 8"

subsection \<open>Definitions and their registry\<close>

definition check_outputs :: "string \<Rightarrow> node_id list \<Rightarrow> string list \<Rightarrow> snippet_error option" where
  "check_outputs name ids outputs = try_each (\<lambda>out.
     if CHR ''.'' \<in> set out then None
     else if out \<notin> set ids then Some (UnknownOutput name out) else None) outputs"

definition validate_definition :: "pipeline \<Rightarrow> snippet_error + unit" where
  "validate_definition def =
     (let name = (case p_snippet def of Some s \<Rightarrow> s | None \<Rightarrow> [])
      in case check_outputs name (node_ids def) (p_outputs def) of
           Some e \<Rightarrow> Err e
         | None \<Rightarrow>
             (case try_each (\<lambda>param. if \<not> is_identifier param then Some (InvalidParamName name param)
                 else None) (map fst (p_params def)) of
                Some e \<Rightarrow> Err e
              | None \<Rightarrow> Ok ()))"

type_synonym registry = "(string \<times> (pipeline \<times> string)) list"

definition registry_get :: "registry \<Rightarrow> string \<Rightarrow> pipeline option" where
  "registry_get reg name = map_option fst (map_of reg name)"

definition registry_path_of :: "registry \<Rightarrow> string \<Rightarrow> string option" where
  "registry_path_of reg name = map_option snd (map_of reg name)"

text \<open>A directory entry: its path, extension and stem, and its text (\<open>None\<close> when unreadable).\<close>

record dir_entry =
  de_path :: string
  de_extension :: "string option"
  de_stem :: "string option"
  de_text :: "string option"

definition load_entry ::
  "(string \<Rightarrow> pipeline option) \<Rightarrow> dir_entry \<Rightarrow> registry \<Rightarrow> snippet_error + registry" where
  "load_entry parse e reg =
     (if de_extension e \<noteq> Some ''json'' then Ok reg
      else (case de_text e of
        None \<Rightarrow> Err (ReadDir (de_path e))
      | Some raw \<Rightarrow> (case parse raw of
          None \<Rightarrow> Err (ParseError (de_path e))
        | Some p \<Rightarrow> (case p_snippet p of
            None \<Rightarrow> Err (NotASnippetFile (de_path e))
          | Some name \<Rightarrow>
              let stem = (case de_stem e of Some s \<Rightarrow> s | None \<Rightarrow> [])
              in if stem \<noteq> name then Err (NameMismatch (de_path e) name stem)
                 else (case validate_definition p of
                     Inl err \<Rightarrow> Err err
                   | Inr _ \<Rightarrow> (case registry_path_of reg name of
                       Some first \<Rightarrow> Err (DuplicateName name first (de_path e))
                     | None \<Rightarrow> Ok ((name, (p, de_path e)) # reg)))))))"

fun load_entries ::
  "(string \<Rightarrow> pipeline option) \<Rightarrow> string \<Rightarrow> dir_entry option list \<Rightarrow> registry \<Rightarrow> snippet_error + registry" where
  "load_entries parse dir [] reg = Ok reg"
| "load_entries parse dir (None # es) reg = Err (ReadDir dir)"
| "load_entries parse dir (Some e # es) reg = (case load_entry parse e reg of
      Inl err \<Rightarrow> Err err
    | Inr reg' \<Rightarrow> load_entries parse dir es reg')"

definition load_from_dir ::
  "(string \<Rightarrow> dir_entry option list option) \<Rightarrow> (string \<Rightarrow> pipeline option) \<Rightarrow> string \<Rightarrow>
   snippet_error + registry" where
  "load_from_dir read_dir parse dir = (case read_dir dir of
      None \<Rightarrow> Err (ReadDir dir)
    | Some entries \<Rightarrow> load_entries parse dir entries [])"

subsection \<open>Rewriting table references in SQL\<close>

text \<open>What \<open>rewrite_sql_table_refs\<close> skips behind an opening single quote, and what follows.\<close>

fun skip_literal :: "string \<Rightarrow> string \<times> string" where
  "skip_literal [] = ([], [])"
| "skip_literal (c # r) =
     (if c = CHR 0x27 then
        (case r of
           [] \<Rightarrow> ([c], [])
         | d # r' \<Rightarrow>
             if d = CHR 0x27 then (case skip_literal r' of (l, rest) \<Rightarrow> (c # d # l, rest))
             else ([c], r))
      else (case skip_literal r of (l, rest) \<Rightarrow> (c # l, rest)))"

definition quoted :: "string \<Rightarrow> string" where
  "quoted s = [CHR 0x22] @ s @ [CHR 0x22]"

definition match_word :: "string \<Rightarrow> char option \<Rightarrow> string \<Rightarrow> string option" where
  "match_word old prev s = (case strip_prefix old s of
      None \<Rightarrow> None
    | Some r \<Rightarrow>
        let before_ok = (case prev of None \<Rightarrow> True | Some c \<Rightarrow> \<not> ident_char c);
            after_ok = (case r of [] \<Rightarrow> True | c # _ \<Rightarrow> \<not> ident_char c)
        in if before_ok \<and> after_ok then Some r else None)"

text \<open>The scanning loop: the character before the position, and the text from it on.\<close>

partial_function (option) rw_loop :: "string \<Rightarrow> string \<Rightarrow> char option \<Rightarrow> string \<Rightarrow> string option" where
  "rw_loop old new prev s = (case s of
      [] \<Rightarrow> Some []
    | c # r \<Rightarrow>
        if c = CHR 0x22 then
          Option.bind (rw_loop old new (Some c) (drop 1 (dropWhile (\<lambda>x. x \<noteq> CHR 0x22) r)))
            (\<lambda>out. Some (quoted (if takeWhile (\<lambda>x. x \<noteq> CHR 0x22) r = old then new
               else takeWhile (\<lambda>x. x \<noteq> CHR 0x22) r) @ out))
        else if c = CHR 0x27 then
          Option.bind (rw_loop old new (Some c) (snd (skip_literal r)))
            (\<lambda>out. Some (c # fst (skip_literal r) @ out))
        else (case match_word old prev s of
            Some rest \<Rightarrow>
              Option.bind (rw_loop old new (if old = [] then prev else Some (last old)) rest)
                (\<lambda>out. Some (quoted new @ out))
          | None \<Rightarrow> Option.bind (rw_loop old new (Some c) r) (\<lambda>out. Some (c # out))))"

fun rewrite_sql_table_refs :: "string \<Rightarrow> (string \<times> string) list \<Rightarrow> string option" where
  "rewrite_sql_table_refs sql [] = Some sql"
| "rewrite_sql_table_refs sql ((old, new) # id_map) = (case rw_loop old new None sql of
      None \<Rightarrow> None
    | Some out \<Rightarrow> rewrite_sql_table_refs out id_map)"

subsection \<open>Parameters of a call\<close>

fun actual_type :: "json \<Rightarrow> string" where
  "actual_type JNull = ''null''"
| "actual_type (JBool b) = ''bool''"
| "actual_type (JNumber n) = ''number''"
| "actual_type (JString s) = ''string''"
| "actual_type (JArray vs) = ''array''"
| "actual_type (JObject m) = ''object''"

fun param_matches :: "snippet_param_type \<Rightarrow> json \<Rightarrow> bool" where
  "param_matches SpString v = is_string v"
| "param_matches SpColumn v = is_string v"
| "param_matches SpNumber v = is_number v"
| "param_matches SpBool v = is_boolean v"
| "param_matches SpColumnList v = (case as_array v of None \<Rightarrow> False | Some vs \<Rightarrow> list_all is_string vs)"

definition check_param_type ::
  "string \<Rightarrow> string \<Rightarrow> string \<Rightarrow> snippet_param_type \<Rightarrow> json \<Rightarrow> snippet_error option" where
  "check_param_type call_site snippet pname declared v =
     (if param_matches declared v then None
      else Some (ParamTypeMismatch call_site snippet pname (snippet_param_type_str declared) (actual_type v)))"

definition check_params :: "string \<Rightarrow> snippet_call \<Rightarrow> pipeline \<Rightarrow> snippet_error option" where
  "check_params call_site call def =
     (case try_each (\<lambda>(pname, declared). case map_of (sc_params call) pname of
          None \<Rightarrow> Some (MissingParam call_site (sc_snippet call) pname)
        | Some v \<Rightarrow> check_param_type call_site (sc_snippet call) pname declared v) (p_params def) of
        Some e \<Rightarrow> Some e
      | None \<Rightarrow> try_each (\<lambda>extra. if map_of (p_params def) extra = None
          then Some (UnknownParam call_site (sc_snippet call) extra) else None)
          (map fst (sc_params call)))"

definition effective_value :: "snippet_param_type \<Rightarrow> json \<Rightarrow> json" where
  "effective_value declared raw = (if declared = SpColumnList
     then JString (case as_array raw of
         None \<Rightarrow> []
       | Some vs \<Rightarrow> join '', '' (concat (map (\<lambda>v. case as_str v of Some s \<Rightarrow> [s] | None \<Rightarrow> []) vs)))
     else raw)"

definition call_variables :: "snippet_call \<Rightarrow> pipeline \<Rightarrow> resolved_variables" where
  "call_variables call def = fold (\<lambda>(pname, declared) m.
     m(pname \<mapsto> effective_value declared (case map_of (sc_params call) pname of Some v \<Rightarrow> v | None \<Rightarrow> JNull)))
     (p_params def) Map.empty"

subsection \<open>Expansion\<close>

definition namespaced :: "string \<Rightarrow> string \<Rightarrow> string" where
  "namespaced call_site i = call_site @ ''.'' @ i"

fun namespace_ids ::
  "node_id list \<Rightarrow> string \<Rightarrow> string \<Rightarrow> node_id list \<Rightarrow> node_id list \<Rightarrow>
   snippet_error + (string \<times> string) list \<times> node_id list" where
  "namespace_ids existing snippet call_site [] seen = Ok ([], seen)"
| "namespace_ids existing snippet call_site (i # ids) seen =
     (let new_id = namespaced call_site i
      in if new_id \<in> set existing \<or> new_id \<in> set seen then Err (NamespaceCollision snippet new_id)
         else (case namespace_ids existing snippet call_site ids (new_id # seen) of
             Inl e \<Rightarrow> Err e
           | Inr (id_map, seen') \<Rightarrow> Ok ((i, new_id) # id_map, seen')))"

type_synonym interp = "resolved_variables \<Rightarrow> string \<Rightarrow> string"
type_synonym interp_json = "resolved_variables \<Rightarrow> json \<Rightarrow> json"

definition expand_kind ::
  "(string \<rightharpoonup> string) \<Rightarrow> (json \<Rightarrow> string) \<Rightarrow> resolved_variables \<Rightarrow> (string \<times> string) list \<Rightarrow>
   node_kind \<Rightarrow> node_kind option" where
  "expand_kind env js vars id_map kind = (case kind of
      Source cfg \<Rightarrow> Some (Source (cfg\<lparr>src_config := interpolate_json env js vars (src_config cfg)\<rparr>))
    | Sink cfg \<Rightarrow> Some (Sink (cfg\<lparr>snk_config := interpolate_json env js vars (snk_config cfg)\<rparr>))
    | Transform cfg \<Rightarrow>
        (case rewrite_sql_table_refs (interpolate env js vars (xf_code cfg)) id_map of
           None \<Rightarrow> None
         | Some code \<Rightarrow> Some (Transform (cfg\<lparr>xf_code := code,
             xf_code_path := map_option (interpolate env js vars) (xf_code_path cfg)\<rparr>)))
    | Test cfg \<Rightarrow> Some (Test cfg)
    | Snippet _ \<Rightarrow> None)"

definition expand_inner ::
  "(string \<rightharpoonup> string) \<Rightarrow> (json \<Rightarrow> string) \<Rightarrow> resolved_variables \<Rightarrow> (string \<times> string) list \<Rightarrow>
   string \<Rightarrow> string \<Rightarrow> node \<Rightarrow> string \<Rightarrow> node option" where
  "expand_inner env js vars id_map call_site snippet n new_id =
     map_option (\<lambda>kind. n\<lparr>n_id := new_id, n_kind := kind, n_snippet_parent := Some call_site,
       n_snippet_name := Some snippet\<rparr>) (expand_kind env js vars id_map (n_kind n))"

fun map_all :: "('a \<Rightarrow> 'b option) \<Rightarrow> 'a list \<Rightarrow> 'b list option" where
  "map_all f [] = Some []"
| "map_all f (x # xs) = (case f x of None \<Rightarrow> None
    | Some y \<Rightarrow> (case map_all f xs of None \<Rightarrow> None | Some ys \<Rightarrow> Some (y # ys)))"

text \<open>The loop over the id map rewrites every edge once per entry, in order.\<close>

definition rename_end :: "string \<times> string \<Rightarrow> node_id \<Rightarrow> node_id" where
  "rename_end on i = (if i = fst on then snd on else i)"

definition rewrite_edges :: "(string \<times> string) list \<Rightarrow> edge list \<Rightarrow> edge list" where
  "rewrite_edges id_map es =
     fold (\<lambda>on. map (\<lambda>e. Edge (rename_end on (e_from e)) (rename_end on (e_to e)))) id_map es"

type_synonym expansion = "node list \<times> edge list \<times> node_id list"

text \<open>One call site; \<open>rec\<close> expands the definition's own calls.\<close>

definition expand_call ::
  "(string list \<Rightarrow> pipeline \<Rightarrow> (snippet_error + pipeline) option) \<Rightarrow> (string \<rightharpoonup> string) \<Rightarrow> (json \<Rightarrow> string) \<Rightarrow>
   registry \<Rightarrow> node_id list \<Rightarrow> string list \<Rightarrow> node_id \<Rightarrow> snippet_call \<Rightarrow> expansion \<Rightarrow>
   (snippet_error + expansion) option" where
  "expand_call rec env js reg existing stack call_site call acc = (case acc of (nodes, edges, seen) \<Rightarrow>
     (case registry_get reg (sc_snippet call) of
        None \<Rightarrow> Some (Err (UnknownSnippet call_site (sc_snippet call)))
      | Some def \<Rightarrow>
          if sc_snippet call \<in> set stack then Some (Err (SnippetCycle (stack @ [sc_snippet call])))
          else (case check_params call_site call def of
              Some e \<Rightarrow> Some (Err e)
            | None \<Rightarrow> (case rec (stack @ [sc_snippet call]) def of
                None \<Rightarrow> None
              | Some (Inl e) \<Rightarrow> Some (Err e)
              | Some (Inr inner) \<Rightarrow>
                  (case namespace_ids existing (sc_snippet call) call_site (node_ids inner) seen of
                     Inl e \<Rightarrow> Some (Err e)
                   | Inr (id_map, seen') \<Rightarrow>
                       (case map_all (\<lambda>(n, new_id). expand_inner env js (call_variables call def) id_map
                           call_site (sc_snippet call) n new_id) (zip (p_nodes inner) (map snd id_map)) of
                          None \<Rightarrow> None
                        | Some ns \<Rightarrow>
                            Some (Ok (nodes @ ns, edges @ rewrite_edges id_map (p_edges inner), seen'))))))))"

definition expand_node ::
  "(string list \<Rightarrow> pipeline \<Rightarrow> (snippet_error + pipeline) option) \<Rightarrow> (string \<rightharpoonup> string) \<Rightarrow> (json \<Rightarrow> string) \<Rightarrow>
   registry \<Rightarrow> node_id list \<Rightarrow> string list \<Rightarrow> node \<Rightarrow> expansion \<Rightarrow> (snippet_error + expansion) option" where
  "expand_node rec env js reg existing stack n acc = (case n_kind n of
      Snippet call \<Rightarrow> expand_call rec env js reg existing stack (n_id n) call acc
    | Source _ \<Rightarrow> Some (Ok (fst acc @ [n], snd acc))
    | Transform _ \<Rightarrow> Some (Ok (fst acc @ [n], snd acc))
    | Sink _ \<Rightarrow> Some (Ok (fst acc @ [n], snd acc))
    | Test _ \<Rightarrow> Some (Ok (fst acc @ [n], snd acc)))"

fun expand_nodes ::
  "(node \<Rightarrow> expansion \<Rightarrow> (snippet_error + expansion) option) \<Rightarrow> node list \<Rightarrow> expansion \<Rightarrow>
   (snippet_error + expansion) option" where
  "expand_nodes step [] acc = Some (Ok acc)"
| "expand_nodes step (n # ns) acc = (case step n acc of
      None \<Rightarrow> None
    | Some (Inl e) \<Rightarrow> Some (Err e)
    | Some (Inr acc') \<Rightarrow> expand_nodes step ns acc')"

text \<open>
  \<open>expand_rec\<close>; the first argument counts the levels left, so that depth \<open>d\<close> is
  \<open>MAX_DEPTH + 1 - d\<close> and a depth above \<open>MAX_DEPTH\<close> is \<open>0\<close>.
\<close>

primrec expand_rec ::
  "nat \<Rightarrow> (string \<rightharpoonup> string) \<Rightarrow> (json \<Rightarrow> string) \<Rightarrow> registry \<Rightarrow> string list \<Rightarrow> pipeline \<Rightarrow>
   (snippet_error + pipeline) option" where
  "expand_rec 0 env js reg stack p = Some (Err (TooDeep MAX_DEPTH))"
| "expand_rec (Suc levels) env js reg stack p =
     (if \<not> list_ex (\<lambda>n. is_snippet (n_kind n)) (p_nodes p) then Some (Ok p)
      else (case expand_nodes (expand_node (expand_rec levels env js reg) env js reg (node_ids p) stack)
          (p_nodes p) ([], p_edges p, []) of
          None \<Rightarrow> None
        | Some (Inl e) \<Rightarrow> Some (Err e)
        | Some (Inr (nodes, edges, _)) \<Rightarrow> Some (Ok (p\<lparr>p_nodes := nodes, p_edges := edges\<rparr>))))"

definition expand_snippets ::
  "(string \<rightharpoonup> string) \<Rightarrow> (json \<Rightarrow> string) \<Rightarrow> registry \<Rightarrow> pipeline \<Rightarrow> (snippet_error + pipeline) option" where
  "expand_snippets env js reg p = expand_rec (Suc MAX_DEPTH) env js reg [] p"

subsection \<open>The scanning loop\<close>

lemmas rw_unfold = rw_loop.simps

lemma skip_literal_length: "length (snd (skip_literal s)) \<le> length s"
proof (induction s rule: skip_literal.induct)
  case 1
  then show ?case by simp
next
  case (2 c r)
  show ?case
  proof (cases "c = CHR 0x27")
    case False
    with 2 show ?thesis by (simp add: case_prod_beta)
  next
    case True
    show ?thesis
    proof (cases r)
      case (Cons d r')
      from Cons "2.IH"(1) [OF True Cons] True show ?thesis
        by (cases "d = CHR 0x27") (simp_all add: case_prod_beta)
    qed (simp add: True)
  qed
qed

lemma match_word_length: "match_word old prev s = Some r \<Longrightarrow> s = old @ r"
  by (auto simp: match_word_def Let_def strip_prefix_Some_iff split: option.splits if_splits)

text \<open>The loop ends for every id that is not empty.\<close>

lemma rw_loop_total: "old \<noteq> [] \<Longrightarrow> \<exists>out. rw_loop old new prev s = Some out"
proof (induction "length s" arbitrary: s prev rule: less_induct)
  case less
  show ?case
  proof (cases s)
    case Nil
    show ?thesis unfolding Nil by (subst rw_unfold) simp
  next
    case (Cons c r)
    have IH: "\<exists>out. rw_loop old new prev' s' = Some out" if "length s' \<le> length r" for prev' s'
      using that less.prems Cons by (intro less.hyps) simp_all
    have "length (drop 1 (dropWhile (\<lambda>x. x \<noteq> CHR 0x22) r)) \<le> length r"
      using length_dropWhile_le [of "\<lambda>x. x \<noteq> CHR 0x22" r] by simp
    then obtain o1 where o1: "rw_loop old new (Some c) (drop 1 (dropWhile (\<lambda>x. x \<noteq> CHR 0x22) r)) = Some o1"
      using IH by blast
    obtain o2 where o2: "rw_loop old new (Some c) (snd (skip_literal r)) = Some o2"
      using IH skip_literal_length by blast
    obtain o3 where o3: "rw_loop old new (Some c) r = Some o3" using IH by blast
    have o4: "\<exists>o4. rw_loop old new (Some (last old)) rest = Some o4" if "match_word old prev s = Some rest" for rest
    proof (rule IH)
      from match_word_length [OF that] have "length s = length old + length rest" by simp
      with less.prems Cons show "length rest \<le> length r" by (cases old) auto
    qed
    show ?thesis
      unfolding rw_unfold [of old new prev s] using Cons o1 o2 o3 o4 less.prems
      by (auto split: option.splits)
  qed
qed

lemma rewrite_total: "[] \<notin> fst ` set id_map \<Longrightarrow> rewrite_sql_table_refs sql id_map \<noteq> None"
proof (induction sql id_map rule: rewrite_sql_table_refs.induct)
  case (1 sql)
  then show ?case by simp
next
  case (2 sql old new id_map)
  then obtain out where out: "rw_loop old new None sql = Some out" using rw_loop_total by force
  from 2 have "[] \<notin> fst ` set id_map" by simp
  with "2.IH" [OF out] out show ?case by simp
qed

text \<open>An empty id makes it loop for ever: the position does not advance.\<close>

lemma rw_loop_empty_id_diverges: "rw_loop [] new None (CHR '' '' # s) = None"
proof (rule ccontr)
  let ?s = "CHR '' '' # s"
  assume "rw_loop [] new None ?s \<noteq> None"
  then obtain out where out: "rw_loop [] new None ?s = Some out" by blast
  have "match_word [] None ?s = Some ?s"
    by (simp add: match_word_def ident_char_def is_alnum_def is_alpha_def is_digit_def)
  then have "rw_loop [] new None ?s = Option.bind (rw_loop [] new None ?s) (\<lambda>out. Some (quoted new @ out))"
    by (subst rw_unfold) simp
  with out have "out = quoted new @ out" by simp
  then show False by (simp add: quoted_def)
qed

subsection \<open>Rewriting as a map on tokens\<close>

text \<open>
  A statement is a list of tokens: words, quoted identifiers, string literals (their parts
  between doubled quotes) and single characters.  Two words, or two literals, are never adjacent.
\<close>

datatype sql_token = Word string | Sym char | Quoted string | Literal "string list"

fun render :: "sql_token \<Rightarrow> string" where
  "render (Word w) = w"
| "render (Sym c) = [c]"
| "render (Quoted s) = quoted s"
| "render (Literal parts) = CHR 0x27 # join [CHR 0x27, CHR 0x27] parts @ [CHR 0x27]"

fun token_ok :: "sql_token \<Rightarrow> bool" where
  "token_ok (Word w) \<longleftrightarrow> w \<noteq> [] \<and> list_all ident_char w"
| "token_ok (Sym c) \<longleftrightarrow> \<not> ident_char c \<and> c \<noteq> CHR 0x22 \<and> c \<noteq> CHR 0x27"
| "token_ok (Quoted s) \<longleftrightarrow> CHR 0x22 \<notin> set s"
| "token_ok (Literal parts) \<longleftrightarrow> parts \<noteq> [] \<and> (\<forall>s \<in> set parts. CHR 0x27 \<notin> set s)"

fun separated :: "sql_token list \<Rightarrow> bool" where
  "separated (Word v # Word w # ts) = False"
| "separated (Literal p # Literal q # ts) = False"
| "separated (t # ts) = separated ts"
| "separated [] = True"

definition sql_ok :: "sql_token list \<Rightarrow> bool" where
  "sql_ok ts \<longleftrightarrow> (\<forall>t \<in> set ts. token_ok t) \<and> separated ts"

definition sql_text :: "sql_token list \<Rightarrow> string" where
  "sql_text ts = concat (map render ts)"

fun retoken :: "(string \<rightharpoonup> string) \<Rightarrow> sql_token \<Rightarrow> sql_token" where
  "retoken m (Word w) = (case m w of Some new \<Rightarrow> Quoted new | None \<Rightarrow> Word w)"
| "retoken m (Quoted s) = (case m s of Some new \<Rightarrow> Quoted new | None \<Rightarrow> Quoted s)"
| "retoken m (Sym c) = Sym c"
| "retoken m (Literal parts) = Literal parts"

text \<open>The first character behind a word or a literal.\<close>

definition word_stops :: "string \<Rightarrow> bool" where
  "word_stops s \<longleftrightarrow> (case s of [] \<Rightarrow> True | c # _ \<Rightarrow> \<not> ident_char c)"

definition literal_stops :: "string \<Rightarrow> bool" where
  "literal_stops s \<longleftrightarrow> (case s of [] \<Rightarrow> True | c # _ \<Rightarrow> c \<noteq> CHR 0x27)"

lemma not_ident_quotes: "\<not> ident_char CHR 0x22" "\<not> ident_char CHR 0x27"
  by (simp_all add: ident_char_def is_alnum_def is_alpha_def is_digit_def)

lemma skip_literal_part:
  "CHR 0x27 \<notin> set s \<Longrightarrow> skip_literal (s @ t) = (s @ fst (skip_literal t), snd (skip_literal t))"
  by (induction s) (auto split: prod.splits)

lemma skip_literal_parts:
  assumes "literal_stops rest"
  shows "parts \<noteq> [] \<Longrightarrow> \<forall>s \<in> set parts. CHR 0x27 \<notin> set s \<Longrightarrow>
    skip_literal (join [CHR 0x27, CHR 0x27] parts @ CHR 0x27 # rest) =
      (join [CHR 0x27, CHR 0x27] parts @ [CHR 0x27], rest)"
proof (induction "[CHR 0x27, CHR 0x27]" parts rule: join.induct)
  case 1
  then show ?case by simp
next
  case (2 s)
  then show ?case using assms by (auto simp: skip_literal_part literal_stops_def split: list.splits)
next
  case (3 s t ss)
  then show ?case by (simp add: skip_literal_part split: prod.splits)
qed

text \<open>Inside a word nothing is rewritten: the character before the position is a word character.\<close>

lemma rw_loop_in_word:
  assumes "list_all ident_char w" "ident_char p" "old \<noteq> []"
    and "\<And>q. ident_char q \<Longrightarrow> rw_loop old new (Some q) rest = Some out"
  shows "rw_loop old new (Some p) (w @ rest) = Some (w @ out)"
  using assms(1,2)
proof (induction w arbitrary: p)
  case Nil
  then show ?case using assms(4) by simp
next
  case (Cons c w)
  then have c: "ident_char c" by simp
  then have "c \<noteq> CHR 0x22" "c \<noteq> CHR 0x27" using not_ident_quotes by auto
  moreover have "match_word old (Some p) (c # w @ rest) = None"
    using Cons.prems by (auto simp: match_word_def Let_def split: option.splits)
  ultimately show ?case
    using Cons.IH [OF _ c] Cons.prems by (subst rw_unfold) simp
qed

lemma match_word_word:
  assumes "list_all ident_char w" "list_all ident_char old" "word_stops rest"
    "case prev of None \<Rightarrow> True | Some p \<Rightarrow> \<not> ident_char p"
  shows "match_word old prev (w @ rest) = (if w = old then Some rest else None)"
proof (cases "w = old")
  case True
  then have "strip_prefix old (w @ rest) = Some rest" by (simp add: strip_prefix_Some_iff)
  with True assms(3,4) show ?thesis
    by (auto simp: match_word_def Let_def word_stops_def split: option.splits list.splits)
next
  case False
  have "\<not> (case r of [] \<Rightarrow> True | c # _ \<Rightarrow> \<not> ident_char c)" if "w @ rest = old @ r" for r
  proof (cases "length old \<le> length w")
    case True
    with that obtain u where u: "w = old @ u" "r = u @ rest"
      by (metis append_eq_append_conv_if append_take_drop_id append_eq_append_conv length_append
          append_assoc same_append_eq)
    with False obtain c u' where "u = c # u'" by (cases u) auto
    with u assms(1) show ?thesis by simp
  next
    case False
    with that obtain u where u: "old = w @ u" "rest = u @ r" "u \<noteq> []"
      by (metis append_eq_append_conv2 le_add1 length_append append.right_neutral order_refl)
    then obtain c u' where "u = c # u'" by (cases u) auto
    with u assms(2,3) show ?thesis by (simp add: word_stops_def)
  qed
  then show ?thesis
    using False by (auto simp: match_word_def Let_def strip_prefix_Some_iff split: option.splits)
qed

definition starts_word :: "sql_token list \<Rightarrow> bool" where
  "starts_word ts \<longleftrightarrow> (case ts of Word w # _ \<Rightarrow> True | _ \<Rightarrow> False)"

lemma sql_ok_Cons:
  "sql_ok (t # ts) \<longleftrightarrow> token_ok t \<and> sql_ok ts \<and> (case t of Word w \<Rightarrow> \<not> starts_word ts
     | Literal p \<Rightarrow> (case ts of Literal q # _ \<Rightarrow> False | _ \<Rightarrow> True) | _ \<Rightarrow> True)"
  by (cases t; cases ts) (auto simp: sql_ok_def starts_word_def split: list.splits sql_token.splits)

lemma sql_text_Cons: "sql_text (t # ts) = render t @ sql_text ts"
  by (simp add: sql_text_def)

lemma word_stops_text:
  assumes "sql_ok ts" "\<not> starts_word ts"
  shows "word_stops (sql_text ts)"
proof (cases ts)
  case Nil
  then show ?thesis by (simp add: sql_text_def word_stops_def)
next
  case (Cons t ts')
  with assms show ?thesis
    by (cases t) (auto simp: sql_text_Cons word_stops_def quoted_def not_ident_quotes sql_ok_Cons starts_word_def)
qed

lemma literal_stops_text:
  assumes "sql_ok ts" "case ts of Literal q # _ \<Rightarrow> False | _ \<Rightarrow> True"
  shows "literal_stops (sql_text ts)"
proof (cases ts)
  case Nil
  then show ?thesis by (simp add: sql_text_def literal_stops_def)
next
  case (Cons t ts')
  with assms show ?thesis
    by (cases t) (auto simp: sql_text_Cons literal_stops_def quoted_def not_ident_quotes sql_ok_Cons
        neq_Nil_conv)
qed

lemma take_drop_quoted:
  assumes "CHR 0x22 \<notin> set s"
  shows "takeWhile (\<lambda>x. x \<noteq> CHR 0x22) (s @ CHR 0x22 # t) = s"
    "dropWhile (\<lambda>x. x \<noteq> CHR 0x22) (s @ CHR 0x22 # t) = CHR 0x22 # t"
  using assms by (induction s) auto

lemma match_word_sym:
  "list_all ident_char old \<Longrightarrow> old \<noteq> [] \<Longrightarrow> \<not> ident_char c \<Longrightarrow> match_word old prev (c # s) = None"
  by (cases old) (auto simp: match_word_def)

definition prev_ok :: "char option \<Rightarrow> sql_token list \<Rightarrow> bool" where
  "prev_ok prev ts \<longleftrightarrow> (starts_word ts \<longrightarrow> (case prev of None \<Rightarrow> True | Some p \<Rightarrow> \<not> ident_char p))"

lemma rw_loop_tokens:
  assumes old: "list_all ident_char old" "old \<noteq> []"
  shows "sql_ok ts \<Longrightarrow> prev_ok prev ts \<Longrightarrow>
    rw_loop old new prev (sql_text ts) = Some (sql_text (map (retoken [old \<mapsto> new]) ts))"
proof (induction ts arbitrary: prev)
  case Nil
  show ?case by (subst rw_unfold) (simp add: sql_text_def)
next
  case (Cons t ts)
  let ?rest = "sql_text ts" and ?out = "sql_text (map (retoken [old \<mapsto> new]) ts)"
  from Cons.prems have t: "token_ok t" and ts: "sql_ok ts" by (simp_all add: sql_ok_Cons)
  have IH: "rw_loop old new prev' ?rest = Some ?out" if "prev_ok prev' ts" for prev'
    by (rule Cons.IH [OF ts that])
  have quote_ok: "prev_ok (Some CHR 0x22) ts" "prev_ok (Some CHR 0x27) ts"
    by (simp_all add: prev_ok_def not_ident_quotes)
  show ?case
  proof (cases t)
    case (Word w)
    with Cons.prems have w: "list_all ident_char w" "w \<noteq> []" "\<not> starts_word ts"
      and prev: "case prev of None \<Rightarrow> True | Some p \<Rightarrow> \<not> ident_char p"
      by (auto simp: sql_ok_Cons prev_ok_def starts_word_def)
    have rest: "rw_loop old new q ?rest = Some ?out" for q
      using w(3) by (intro IH) (simp add: prev_ok_def)
    obtain c v where cv: "w = c # v" using w(2) by (cases w) auto
    then have c: "ident_char c" "c \<noteq> CHR 0x22" "c \<noteq> CHR 0x27" "list_all ident_char v"
      using w(1) not_ident_quotes by auto
    have m: "match_word old prev (c # v @ ?rest) = (if w = old then Some ?rest else None)"
      using match_word_word [OF w(1) old(1) word_stops_text [OF ts w(3)] prev] by (simp add: cv)
    show ?thesis
    proof (cases "w = old")
      case True
      have "rw_loop old new prev (c # v @ ?rest) = Some (quoted new @ ?out)"
        using m True c(2,3) rest old(2) by (subst rw_unfold) simp
      then have "rw_loop old new prev (w @ ?rest) = Some (quoted new @ ?out)" by (simp add: cv)
      moreover have "retoken [old \<mapsto> new] t = Quoted new" using Word True by simp
      ultimately show ?thesis by (simp only: sql_text_Cons list.map render.simps Word)
    next
      case False
      have "rw_loop old new (Some c) (v @ ?rest) = Some (v @ ?out)"
        by (rule rw_loop_in_word [OF c(4,1) old(2)]) (rule rest)
      then have "rw_loop old new prev (c # v @ ?rest) = Some (c # v @ ?out)"
        using m False c(2,3) by (subst rw_unfold) simp
      then have "rw_loop old new prev (w @ ?rest) = Some (w @ ?out)" by (simp add: cv)
      moreover have "retoken [old \<mapsto> new] t = Word w" using Word False by simp
      ultimately show ?thesis by (simp only: sql_text_Cons list.map render.simps Word)
    qed
  next
    case (Sym c)
    with t have c: "\<not> ident_char c" "c \<noteq> CHR 0x22" "c \<noteq> CHR 0x27" by simp_all
    then have "rw_loop old new (Some c) ?rest = Some ?out" by (intro IH) (simp add: prev_ok_def)
    with c match_word_sym [OF old c(1)] have "rw_loop old new prev (c # ?rest) = Some (c # ?out)"
      by (subst rw_unfold) simp
    then show ?thesis unfolding Sym sql_text_Cons list.map retoken.simps render.simps by simp
  next
    case (Quoted s)
    with t have s: "CHR 0x22 \<notin> set s" by simp
    have "rw_loop old new prev (CHR 0x22 # s @ CHR 0x22 # ?rest) =
        Some (quoted (if s = old then new else s) @ ?out)"
      using IH [OF quote_ok(1)] by (subst rw_unfold) (simp add: take_drop_quoted [OF s])
    moreover have "retoken [old \<mapsto> new] t = Quoted (if s = old then new else s)" using Quoted by simp
    ultimately show ?thesis
      unfolding sql_text_Cons list.map Quoted render.simps by (simp add: quoted_def)
  next
    case (Literal parts)
    with t have parts: "parts \<noteq> []" "\<forall>s \<in> set parts. CHR 0x27 \<notin> set s" by simp_all
    have stops: "literal_stops ?rest"
      using Cons.prems(1) Literal by (intro literal_stops_text [OF ts]) (simp add: sql_ok_Cons)
    have "rw_loop old new prev (CHR 0x27 # join [CHR 0x27, CHR 0x27] parts @ CHR 0x27 # ?rest) =
        Some (CHR 0x27 # join [CHR 0x27, CHR 0x27] parts @ CHR 0x27 # ?out)"
      using IH [OF quote_ok(2)]
      by (subst rw_unfold) (simp add: skip_literal_parts [OF stops parts])
    then show ?thesis unfolding Literal sql_text_Cons list.map retoken.simps render.simps by simp
  qed
qed

lemma retoken_ok: "sql_ok ts \<Longrightarrow> \<forall>n \<in> ran m. CHR 0x22 \<notin> set n \<Longrightarrow> sql_ok (map (retoken m) ts)"
proof (induction ts)
  case Nil
  then show ?case by simp
next
  case (Cons t ts)
  have w: "\<not> starts_word ts \<Longrightarrow> \<not> starts_word (map (retoken m) ts)"
    by (cases ts; cases "hd ts") (auto simp: starts_word_def split: option.splits)
  have l: "(case ts of Literal q # _ \<Rightarrow> False | _ \<Rightarrow> True) \<Longrightarrow>
      (case map (retoken m) ts of Literal q # _ \<Rightarrow> False | _ \<Rightarrow> True)"
    by (cases ts; cases "hd ts") (auto split: option.splits)
  have "token_ok (retoken m t)"
    using Cons.prems by (cases t) (auto simp: sql_ok_Cons ranI split: option.splits)
  with Cons w l show ?case
    by (cases t) (auto simp: sql_ok_Cons split: option.splits)
qed

lemma retoken_comp:
  "new \<notin> dom m \<Longrightarrow> retoken m (retoken [old \<mapsto> new] t) = retoken (m(old \<mapsto> new)) t"
  by (cases t) (auto split: option.splits)

text \<open>
  Rewriting a statement by an id map replaces, all at once, exactly the words and the quoted
  identifiers that are ids, by the quoted namespaced id; string literals, other words and
  everything else stay.  The ids are identifiers and no namespaced id is an id again.
\<close>

theorem rewrite_sql_tokens:
  assumes "sql_ok ts" "\<forall>(old, new) \<in> set id_map. is_identifier old \<and> CHR 0x22 \<notin> set new"
    "fst ` set id_map \<inter> snd ` set id_map = {}"
  shows "rewrite_sql_table_refs (sql_text ts) id_map =
    Some (sql_text (map (retoken (map_of id_map)) ts))"
  using assms
proof (induction id_map arbitrary: ts)
  case Nil
  have "retoken Map.empty t = t" for t by (cases t) auto
  then show ?case by simp
next
  case (Cons on id_map)
  obtain old new where on: "on = (old, new)" by (cases on)
  with Cons.prems have "is_identifier old" and new: "CHR 0x22 \<notin> set new" by auto
  then have old: "list_all ident_char old" "old \<noteq> []"
    by (auto elim!: identifier_cases simp: list_all_iff)
  have fresh: "new \<notin> dom (map_of id_map)"
    using Cons.prems(3) on by (auto simp: dom_map_of_conv_image_fst)
  have "rw_loop old new None (sql_text ts) = Some (sql_text (map (retoken [old \<mapsto> new]) ts))"
    by (rule rw_loop_tokens [OF old Cons.prems(1)]) (simp add: prev_ok_def)
  moreover have "rewrite_sql_table_refs (sql_text (map (retoken [old \<mapsto> new]) ts)) id_map =
      Some (sql_text (map (retoken (map_of id_map)) (map (retoken [old \<mapsto> new]) ts)))"
    by (rule Cons.IH [OF retoken_ok [OF Cons.prems(1)]]) (use Cons.prems new on in auto)
  moreover have "map_of (on # id_map) = (map_of id_map)(old \<mapsto> new)" by (simp add: on)
  ultimately show ?case
    by (simp only: on rewrite_sql_table_refs.simps option.case map_map comp_def retoken_comp [OF fresh])
qed

theorem rewrite_sql_tokens_witness:
  "rewrite_sql_table_refs (sql_text [Word ''from'', Sym CHR '' '', Word ''raw'', Sym CHR '' '', Word ''raws''])
     [(''raw'', ''c.raw'')] =
   Some (sql_text [Word ''from'', Sym CHR '' '', Quoted ''c.raw'', Sym CHR '' '', Word ''raws''])"
  using rewrite_sql_tokens [of "[Word ''from'', Sym CHR '' '', Word ''raw'', Sym CHR '' '', Word ''raws'']"
      "[(''raw'', ''c.raw'')]"]
  by (simp add: sql_ok_def ident_char_def is_alnum_def is_alpha_def is_digit_def is_identifier_def
      ident_start_def)

subsection \<open>Expansion\<close>

lemma namespace_ids_spec:
  "namespace_ids existing snippet cs ids seen = Ok (id_map, seen') \<Longrightarrow>
   id_map = map (\<lambda>i. (i, namespaced cs i)) ids \<and> distinct (map (namespaced cs) ids) \<and>
   set (map (namespaced cs) ids) \<inter> (set existing \<union> set seen) = {} \<and>
   set seen' = set seen \<union> set (map (namespaced cs) ids)"
proof (induction existing snippet cs ids seen arbitrary: id_map rule: namespace_ids.induct)
  case 1
  then show ?case by simp
next
  case (2 existing snippet cs i ids seen)
  let ?new = "namespaced cs i"
  from "2.prems" have fresh: "?new \<notin> set existing" "?new \<notin> set seen"
    by (auto simp: Let_def split: if_splits)
  with "2.prems" obtain id_map1 where rest: "namespace_ids existing snippet cs ids (?new # seen) = Ok (id_map1, seen')"
    and id_map: "id_map = (i, ?new) # id_map1"
    by (auto simp: Let_def split: sum.splits prod.splits)
  from fresh have "\<not> (?new \<in> set existing \<or> ?new \<in> set seen)" by blast
  from "2.IH" [OF refl this rest] fresh id_map show ?case by auto
qed

lemma map_all_Some_iff: "map_all f xs = Some ys \<longleftrightarrow> list_all2 (\<lambda>x y. f x = Some y) xs ys"
proof (induction xs arbitrary: ys)
  case Nil
  then show ?case by auto
next
  case (Cons x xs)
  show ?case
    by (cases ys) (auto simp: Cons.IH [symmetric] split: option.splits)
qed

lemma list_all2_right: "list_all2 P xs ys \<Longrightarrow> y \<in> set ys \<Longrightarrow> \<exists>x \<in> set xs. P x y"
  by (induction rule: list_all2_induct) auto

lemma map_all_total: "(\<And>x. x \<in> set xs \<Longrightarrow> f x \<noteq> None) \<Longrightarrow> map_all f xs \<noteq> None"
  by (induction xs) (auto split: option.splits)

lemma expand_kind_no_snippet: "expand_kind env js vars id_map k = Some k' \<Longrightarrow> \<not> is_snippet k'"
  by (auto simp: expand_kind_def split: node_kind.splits option.splits)

lemma expand_inner_spec:
  "expand_inner env js vars id_map cs snip n new_id = Some m \<Longrightarrow>
   n_id m = new_id \<and> \<not> is_snippet (n_kind m) \<and> n_snippet_parent m = Some cs \<and> n_snippet_name m = Some snip"
  by (auto simp: expand_inner_def dest: expand_kind_no_snippet)

text \<open>Where a node of an expanded pipeline comes from.\<close>

definition comes_from :: "node list \<Rightarrow> node \<Rightarrow> bool" where
  "comes_from ns m \<longleftrightarrow> m \<in> set ns \<or>
     (\<exists>c call i. c \<in> set ns \<and> n_kind c = Snippet call \<and> n_id m = namespaced (n_id c) i \<and>
        n_snippet_parent m = Some (n_id c) \<and> n_snippet_name m = Some (sc_snippet call))"

text \<open>One call site appends nodes with new ids, none of them a call.\<close>

lemma expand_call_spec:
  assumes "expand_call rec env js reg existing stack cs call (nodes, edges, seen) =
    Some (Ok (nodes', edges', seen'))"
  shows "\<exists>ns. nodes' = nodes @ ns \<and> (\<forall>m \<in> set ns. \<not> is_snippet (n_kind m) \<and>
      (\<exists>i. n_id m = namespaced cs i) \<and> n_snippet_parent m = Some cs \<and>
      n_snippet_name m = Some (sc_snippet call)) \<and>
    distinct (map n_id ns) \<and> n_id ` set ns \<inter> (set existing \<union> set seen) = {} \<and>
    set seen' = set seen \<union> n_id ` set ns"
proof -
  from assms obtain def inner id_map ns where
      ids: "namespace_ids existing (sc_snippet call) cs (node_ids inner) seen = Ok (id_map, seen')"
    and ns: "map_all (\<lambda>(n, new_id). expand_inner env js (call_variables call def) id_map
      cs (sc_snippet call) n new_id) (zip (p_nodes inner) (map snd id_map)) = Some ns"
    and nodes': "nodes' = nodes @ ns"
    by (auto simp: expand_call_def split: option.splits if_splits sum.splits)
  note spec = namespace_ids_spec [OF ids]
  have zip: "zip (p_nodes inner) (map snd id_map) = map (\<lambda>n. (n, namespaced cs (n_id n))) (p_nodes inner)"
    using spec by (simp add: comp_def zip_map2 zip_same_conv_map)
  have all: "list_all2 (\<lambda>n m. n_id m = namespaced cs (n_id n) \<and> \<not> is_snippet (n_kind m) \<and>
      n_snippet_parent m = Some cs \<and> n_snippet_name m = Some (sc_snippet call)) (p_nodes inner) ns"
    using ns unfolding map_all_Some_iff zip list_all2_map1
    by (rule list_all2_mono) (auto dest: expand_inner_spec)
  then have n_ids: "map n_id ns = map (namespaced cs) (node_ids inner)"
    by (induction rule: list_all2_induct) auto
  have "\<forall>m \<in> set ns. \<not> is_snippet (n_kind m) \<and> (\<exists>i. n_id m = namespaced cs i) \<and>
      n_snippet_parent m = Some cs \<and> n_snippet_name m = Some (sc_snippet call)"
    using list_all2_right [OF all] by blast
  moreover have "n_id ` set ns = set (map (namespaced cs) (node_ids inner))"
    using arg_cong [OF n_ids, of set] by simp
  ultimately show ?thesis
    using spec n_ids nodes' by (intro exI [of _ ns] conjI) simp_all
qed

text \<open>The invariant of the loop over the nodes of one pipeline.\<close>

definition exp_inv :: "node list \<Rightarrow> node list \<Rightarrow> node_id list \<Rightarrow> bool" where
  "exp_inv all nodes seen \<longleftrightarrow>
     (\<forall>m \<in> set nodes. \<not> is_snippet (n_kind m) \<and> comes_from all m) \<and>
     set seen \<inter> n_id ` set all = {} \<and> n_id ` set nodes \<subseteq> n_id ` set all \<union> set seen"

lemma expand_node_plain:
  "\<not> is_snippet (n_kind n) \<Longrightarrow>
   expand_node rec env js reg existing stack n acc = Some (Ok (fst acc @ [n], snd acc))"
  by (cases "n_kind n") (simp_all add: expand_node_def)

lemma expand_node_call:
  "n_kind n = Snippet call \<Longrightarrow>
   expand_node rec env js reg existing stack n acc =
     expand_call rec env js reg existing stack (n_id n) call acc"
  by (simp add: expand_node_def)

lemma expand_nodes_spec:
  assumes "expand_nodes (expand_node rec env js reg (map n_id all) stack) ns (nodes, edges, seen) =
      Some (Ok (nodes', edges', seen'))"
    and "set ns \<subseteq> set all" "exp_inv all nodes seen"
  shows "exp_inv all nodes' seen' \<and>
    (distinct (map n_id ns) \<and> distinct (map n_id nodes) \<and> n_id ` set ns \<inter> n_id ` set nodes = {} \<longrightarrow>
     distinct (map n_id nodes'))"
  using assms
proof (induction ns arbitrary: nodes edges seen)
  case Nil
  then show ?case by simp
next
  case (Cons n ns)
  have n: "n \<in> set all" and ns: "set ns \<subseteq> set all" using Cons.prems(2) by auto
  show ?case
  proof (cases "is_snippet (n_kind n)")
    case False
    with Cons.prems(1) have run: "expand_nodes (expand_node rec env js reg (map n_id all) stack) ns
        (nodes @ [n], edges, seen) = Some (Ok (nodes', edges', seen'))"
      by (simp add: expand_node_plain)
    have "exp_inv all (nodes @ [n]) seen"
      using Cons.prems(3) n False by (auto simp: exp_inv_def comes_from_def)
    from Cons.IH [OF run ns this] show ?thesis by auto
  next
    case True
    then obtain call where call: "n_kind n = Snippet call" by (cases "n_kind n") auto
    with Cons.prems(1) obtain nodes1 edges1 seen1 where
        step: "expand_call rec env js reg (map n_id all) stack (n_id n) call (nodes, edges, seen) =
          Some (Ok (nodes1, edges1, seen1))"
      and run: "expand_nodes (expand_node rec env js reg (map n_id all) stack) ns
        (nodes1, edges1, seen1) = Some (Ok (nodes', edges', seen'))"
      by (auto simp: expand_node_call [OF call] split: option.splits sum.splits)
    from expand_call_spec [OF step] obtain new where nodes1: "nodes1 = nodes @ new"
      and new: "\<forall>m \<in> set new. \<not> is_snippet (n_kind m) \<and> (\<exists>i. n_id m = namespaced (n_id n) i) \<and>
        n_snippet_parent m = Some (n_id n) \<and> n_snippet_name m = Some (sc_snippet call)"
      and fresh: "distinct (map n_id new)" "n_id ` set new \<inter> (n_id ` set all \<union> set seen) = {}"
        "set seen1 = set seen \<union> n_id ` set new"
      by auto
    have "comes_from all m" if "m \<in> set new" for m
      using new that n call unfolding comes_from_def by blast
    then have "exp_inv all nodes1 seen1"
      using Cons.prems(3) new fresh nodes1 unfolding exp_inv_def by auto
    note IH = Cons.IH [OF run ns this]
    have sub: "n_id ` set nodes \<subseteq> n_id ` set all \<union> set seen" "n_id ` set ns \<subseteq> n_id ` set all"
      using Cons.prems(3) ns unfolding exp_inv_def by blast+
    have "distinct (map n_id nodes')"
      if d: "distinct (map n_id (n # ns))" "distinct (map n_id nodes)" "n_id ` set (n # ns) \<inter> n_id ` set nodes = {}"
    proof -
      have "n_id ` set nodes \<inter> n_id ` set new = {}" using fresh(2) sub(1) by blast
      then have "distinct (map n_id nodes1)" using d(2) fresh(1) by (simp add: nodes1)
      moreover have "n_id ` set ns \<inter> n_id ` set nodes1 = {}"
      proof -
        have "n_id ` set ns \<inter> n_id ` set new = {}" using fresh(2) sub(2) by blast
        moreover have "n_id ` set ns \<inter> n_id ` set nodes = {}" using d(3) by simp
        ultimately show ?thesis by (simp add: nodes1 image_Un Int_Un_distrib)
      qed
      ultimately show ?thesis using IH d(1) by simp
    qed
    with IH show ?thesis by blast
  qed
qed

lemma expand_snippets_result:
  assumes "expand_snippets env js reg p = Some (Ok q)"
  shows "no_snippets q \<and> (distinct (node_ids p) \<longrightarrow> distinct (node_ids q)) \<and>
    (\<forall>m \<in> set (p_nodes q). comes_from (p_nodes p) m) \<and>
    q = p\<lparr>p_nodes := p_nodes q, p_edges := p_edges q\<rparr>"
proof (cases "list_ex (\<lambda>n. is_snippet (n_kind n)) (p_nodes p)")
  case False
  with assms show ?thesis
    by (auto simp: expand_snippets_def no_snippets_def list_ex_iff comes_from_def)
next
  case True
  with assms obtain nodes edges seen where
      run: "expand_nodes (expand_node (expand_rec MAX_DEPTH env js reg) env js reg (node_ids p) [])
        (p_nodes p) ([], p_edges p, []) = Some (Ok (nodes, edges, seen))"
    and q: "q = p\<lparr>p_nodes := nodes, p_edges := edges\<rparr>"
    by (auto simp: expand_snippets_def split: option.splits sum.splits)
  have "exp_inv (p_nodes p) [] []" by (simp add: exp_inv_def)
  from expand_nodes_spec [OF run subset_refl this] q show ?thesis
    by (auto simp: exp_inv_def no_snippets_def)
qed

text \<open>
  C7: an expanded pipeline has no calls left, keeps everything but its nodes and edges, has
  distinct ids when the original had, and each of its nodes is an original one or belongs to one
  call: its id is in the call's namespace, and it carries the call's id and the snippet's name.
\<close>

theorem expand_snippets_correct:
  assumes "expand_snippets env js reg p = Some (Ok q)"
  shows "no_snippets q \<and> (distinct (node_ids p) \<longrightarrow> distinct (node_ids q)) \<and>
    (\<forall>m \<in> set (p_nodes q). comes_from (p_nodes p) m) \<and>
    q = p\<lparr>p_nodes := p_nodes q, p_edges := p_edges q\<rparr>"
  by (rule expand_snippets_result [OF assms])

definition snippet_call_node :: "node_id \<Rightarrow> string \<Rightarrow> (string \<times> json) list \<Rightarrow> node" where
  "snippet_call_node i name params = plain_node i (Snippet \<lparr>sc_snippet = name, sc_params = params\<rparr>)"

definition ingest_snippet :: pipeline where
  "ingest_snippet = (plain_pipeline ''ingest'' [source_node ''raw''] [])\<lparr>p_snippet := Some ''ingest''\<rparr>"

definition calling_pipeline :: pipeline where
  "calling_pipeline = plain_pipeline ''main'' [snippet_call_node ''c'' ''ingest'' [], sink_node ''k'']
     [Edge ''c.raw'' ''k'']"

definition sample_registry :: registry where
  "sample_registry = [(''ingest'', (ingest_snippet, ''snippets/ingest.json''))]"

lemma calling_pipeline_expands:
  "\<exists>q. expand_snippets (\<lambda>_. None) (\<lambda>_. []) sample_registry calling_pipeline = Some (Ok q) \<and>
     node_ids q = [''c.raw'', ''k'']"
  by (simp add: expand_snippets_def MAX_DEPTH_def eval_nat_numeral calling_pipeline_def sample_defs
      snippet_call_node_def expand_node_def expand_call_def registry_get_def sample_registry_def
      ingest_snippet_def check_params_def namespaced_def expand_inner_def expand_kind_def
      Let_def)

theorem expand_snippets_correct_witness:
  "\<exists>q. expand_snippets (\<lambda>_. None) (\<lambda>_. []) sample_registry calling_pipeline = Some (Ok q) \<and> no_snippets q"
  using calling_pipeline_expands
    expand_snippets_correct [of "\<lambda>_. None" "\<lambda>_. []" sample_registry calling_pipeline] by blast

subsection \<open>Expansion ends\<close>

definition registry_ids_ok :: "registry \<Rightarrow> bool" where
  "registry_ids_ok reg \<longleftrightarrow> (\<forall>name def. registry_get reg name = Some def \<longrightarrow> [] \<notin> set (node_ids def))"

lemma expand_rec_nodes:
  assumes "expand_rec levels env js reg stack p = Some (Ok q)" "[] \<notin> set (node_ids p)"
  shows "no_snippets q \<and> [] \<notin> set (node_ids q)"
proof (cases levels)
  case 0
  with assms show ?thesis by simp
next
  case (Suc n)
  show ?thesis
  proof (cases "list_ex (\<lambda>n. is_snippet (n_kind n)) (p_nodes p)")
    case False
    with assms Suc show ?thesis by (auto simp: no_snippets_def list_ex_iff)
  next
    case True
    with assms(1) Suc obtain nodes edges seen where
        run: "expand_nodes (expand_node (expand_rec n env js reg) env js reg (node_ids p) stack)
          (p_nodes p) ([], p_edges p, []) = Some (Ok (nodes, edges, seen))"
      and q: "q = p\<lparr>p_nodes := nodes, p_edges := edges\<rparr>"
      by (auto split: option.splits sum.splits)
    have "exp_inv (p_nodes p) [] []" by (simp add: exp_inv_def)
    from expand_nodes_spec [OF run subset_refl this]
    have inv: "\<forall>m \<in> set nodes. \<not> is_snippet (n_kind m) \<and> comes_from (p_nodes p) m"
      by (simp add: exp_inv_def)
    have "n_id m \<noteq> []" if "comes_from (p_nodes p) m" for m
      using that assms(2) by (auto simp: comes_from_def namespaced_def) (metis imageI)
    with inv have "n_id m \<noteq> []" if "m \<in> set nodes" for m using that by blast
    then have "[] \<notin> n_id ` set nodes" by (metis imageE)
    with inv q show ?thesis by (simp add: no_snippets_def)
  qed
qed

lemma expand_kind_total:
  "\<not> is_snippet k \<Longrightarrow> [] \<notin> fst ` set id_map \<Longrightarrow> expand_kind env js vars id_map k \<noteq> None"
  using rewrite_total [of id_map]
  by (cases k) (auto simp: expand_kind_def split: option.splits)

lemma expand_call_total:
  assumes "\<And>stack def. [] \<notin> set (node_ids def) \<Longrightarrow> rec stack def \<noteq> None"
    and "\<And>stack def q. [] \<notin> set (node_ids def) \<Longrightarrow> rec stack def = Some (Ok q) \<Longrightarrow>
      no_snippets q \<and> [] \<notin> set (node_ids q)"
    and "registry_ids_ok reg"
  shows "expand_call rec env js reg existing stack cs call acc \<noteq> None"
proof -
  obtain nodes edges seen where acc: "acc = (nodes, edges, seen)" by (metis prod_cases3)
  have inner: "map_all (\<lambda>(n, new_id). expand_inner env js vars id_map cs snip n new_id)
      (zip (p_nodes q) (map snd id_map)) \<noteq> None"
    if "no_snippets q" "[] \<notin> set (node_ids q)"
      "namespace_ids existing snippet cs (node_ids q) seen = Ok (id_map, seen')" for q vars id_map snip snippet seen'
  proof (rule map_all_total)
    fix x assume "x \<in> set (zip (p_nodes q) (map snd id_map))"
    then have "fst x \<in> set (p_nodes q)" by (metis prod.collapse set_zip_leftD)
    then have "\<not> is_snippet (n_kind (fst x))" using that(1) by (simp add: no_snippets_def)
    moreover have "[] \<notin> fst ` set id_map"
      using namespace_ids_spec [OF that(3)] that(2) by auto
    ultimately show "(case x of (n, new_id) \<Rightarrow> expand_inner env js vars id_map cs snip n new_id) \<noteq> None"
      using expand_kind_total by (cases x) (auto simp: expand_inner_def)
  qed
  show ?thesis
  proof (cases "registry_get reg (sc_snippet call)")
    case None
    then show ?thesis by (simp add: expand_call_def acc)
  next
    case (Some def)
    with assms(3) have ids: "[] \<notin> set (node_ids def)" by (auto simp: registry_ids_ok_def)
    obtain r where r: "rec (stack @ [sc_snippet call]) def = Some r" using assms(1) [OF ids] by blast
    show ?thesis
    proof (cases r)
      case (Inl e)
      with r Some show ?thesis by (auto simp: expand_call_def acc split: option.splits)
    next
      case (Inr q)
      with r assms(2) [OF ids] have "no_snippets q" "[] \<notin> set (node_ids q)" by blast+
      note i = inner [OF this]
      show ?thesis
        using r Inr Some
        by (simp add: expand_call_def acc split: option.split sum.split prod.split) (use i in blast)
    qed
  qed
qed

lemma expand_nodes_total:
  "(\<And>n acc. step n acc \<noteq> None) \<Longrightarrow> expand_nodes step ns acc \<noteq> None"
  by (induction step ns acc rule: expand_nodes.induct) (auto split: option.splits sum.splits)

lemma expand_node_total:
  "(\<And>cs call. expand_call rec env js reg existing stack cs call acc \<noteq> None) \<Longrightarrow>
   expand_node rec env js reg existing stack n acc \<noteq> None"
  by (cases "n_kind n") (simp_all add: expand_node_def)

lemma expand_rec_total:
  assumes "registry_ids_ok reg"
  shows "expand_rec levels env js reg stack p \<noteq> None"
proof (induction levels arbitrary: stack p)
  case 0
  show ?case by simp
next
  case (Suc n)
  have call: "expand_call (expand_rec n env js reg) env js reg existing stack cs call acc \<noteq> None"
    for existing cs call acc
    by (rule expand_call_total [OF Suc.IH expand_rec_nodes assms]) auto
  have "expand_nodes (expand_node (expand_rec n env js reg) env js reg (node_ids p) stack)
      (p_nodes p) ([], p_edges p, []) \<noteq> None"
    by (intro expand_nodes_total expand_node_total call)
  then show ?case by (auto split: sum.splits)
qed

text \<open>
  C8: expansion always returns: however the definitions refer to each other, nested and recursive
  calls end in a result or an error, the rewriting loop ends, and no call is left for the panic,
  as long as no definition has a node with an empty id.
\<close>

theorem expand_snippets_total:
  assumes "registry_ids_ok reg"
  shows "expand_snippets env js reg p \<noteq> None"
  unfolding expand_snippets_def by (rule expand_rec_total [OF assms])

theorem expand_snippets_total_witness:
  "expand_snippets (\<lambda>_. None) (\<lambda>_. []) sample_registry cyclic_dag \<noteq> None"
proof (rule expand_snippets_total)
  show "registry_ids_ok sample_registry"
    by (simp add: registry_ids_ok_def sample_registry_def registry_get_def ingest_snippet_def sample_defs)
qed

text \<open>
  The edges are rewritten once per entry of the id map, so an edge into a new id that is also an
  old id is rewritten again: the edge from \<open>a\<close> ends where the other node's does.
\<close>

lemma edges_rewritten_twice:
  "rewrite_edges (map (\<lambda>i. (i, namespaced ''s'' i)) [''a'', ''s.a'', ''k'']) [Edge ''a'' ''k''] =
   [Edge ''s.s.a'' ''s.k'']"
  by (simp add: rewrite_edges_def rename_end_def namespaced_def)

text \<open>A definition that calls itself is refused.\<close>

lemma self_call_is_a_cycle:
  "expand_snippets env js [(''x'', ((plain_pipeline ''x'' [snippet_call_node ''c'' ''x'' []] [])
       \<lparr>p_snippet := Some ''x''\<rparr>, ''x.json''))]
     (plain_pipeline ''m'' [snippet_call_node ''c'' ''x'' []] []) = Some (Err (SnippetCycle [''x'', ''x'']))"
  by (simp add: expand_snippets_def MAX_DEPTH_def eval_nat_numeral sample_defs
      snippet_call_node_def expand_node_def expand_call_def registry_get_def check_params_def)

end
