(* ===== verification/Pipeline_Ops.thy ===== *)
theory Pipeline_Ops
  imports Snippets
begin

text \<open>
  \<open>pipeline.rs\<close>: reading a pipeline (parse, migrate, expand, validate) and inlining code files.
  What the code calls outside the repository is a field of \<open>host\<close>: the JSON parser and printer,
  the file system and the process environment.
\<close>

record host =
  h_parse :: "string \<Rightarrow> pipeline option"
  h_print :: "json \<Rightarrow> string"
  h_read_dir :: "string \<Rightarrow> dir_entry option list option"
  h_read_file :: "string \<Rightarrow> string option"
  h_is_absolute :: "string \<Rightarrow> bool"
  h_join :: "string \<Rightarrow> string \<Rightarrow> string"
  h_env :: "string \<rightharpoonup> string"
  h_order :: "node_id list \<Rightarrow> node_id list"

datatype import_error =
    ImportJson
  | ImportValidation "validation_error list"
  | ImportSnippet snippet_error

subsection \<open>Reading a pipeline\<close>

definition expand_snippets_if_needed ::
  "host \<Rightarrow> string option \<Rightarrow> pipeline \<Rightarrow> (import_error + pipeline) option" where
  "expand_snippets_if_needed h base_dir p =
     (if \<not> list_ex (\<lambda>n. is_snippet (n_kind n)) (p_nodes p) then Some (Ok p)
      else (case p_snippets_dir p of
        None \<Rightarrow> Some (Err (ImportSnippet NotConfigured))
      | Some dir \<Rightarrow>
          let resolved = (if h_is_absolute h dir then dir
              else (case base_dir of Some base \<Rightarrow> h_join h base dir | None \<Rightarrow> dir))
          in case load_from_dir (h_read_dir h) (h_parse h) resolved of
               Inl e \<Rightarrow> Some (Err (ImportSnippet e))
             | Inr reg \<Rightarrow> (case expand_snippets (h_env h) (h_print h) reg p of
                   None \<Rightarrow> None
                 | Some (Inl e) \<Rightarrow> Some (Err (ImportSnippet e))
                 | Some (Inr q) \<Rightarrow> Some (Ok q))))"

definition validated :: "host \<Rightarrow> pipeline \<Rightarrow> (import_error + unit) option" where
  "validated h p = (case validate_import (h_order h) (h_print h) p of
      None \<Rightarrow> None
    | Some (Inl es) \<Rightarrow> Some (Err (ImportValidation es))
    | Some (Inr _) \<Rightarrow> Some (Ok ()))"

definition read_pipeline :: "host \<Rightarrow> string option \<Rightarrow> string \<Rightarrow> (import_error + pipeline) option" where
  "read_pipeline h base_dir txt = (case h_parse h txt of
      None \<Rightarrow> Some (Err ImportJson)
    | Some p0 \<Rightarrow>
        let p = migrate_legacy_sinks p0
        in if p_snippet p \<noteq> None then Some (Ok p)
           else (case expand_snippets_if_needed h base_dir p of
               None \<Rightarrow> None
             | Some (Inl e) \<Rightarrow> Some (Err e)
             | Some (Inr q) \<Rightarrow> (case validated h q of
                   None \<Rightarrow> None
                 | Some (Inl e) \<Rightarrow> Some (Err e)
                 | Some (Inr _) \<Rightarrow> Some (Ok q))))"

definition from_json :: "host \<Rightarrow> string \<Rightarrow> (import_error + pipeline) option" where
  "from_json h txt = read_pipeline h None txt"

definition from_json_at_path :: "host \<Rightarrow> string \<Rightarrow> string \<Rightarrow> (import_error + pipeline) option" where
  "from_json_at_path h txt base_dir = read_pipeline h (Some base_dir) txt"

definition from_json_with_warnings ::
  "host \<Rightarrow> string \<Rightarrow> (import_error + pipeline \<times> variable_warning list) option" where
  "from_json_with_warnings h txt = (case h_parse h txt of
      None \<Rightarrow> Some (Err ImportJson)
    | Some p0 \<Rightarrow>
        let p = migrate_legacy_sinks p0
        in case (if p_snippet p = None then expand_snippets_if_needed h None p else Some (Ok p)) of
             None \<Rightarrow> None
           | Some (Inl e) \<Rightarrow> Some (Err e)
           | Some (Inr q) \<Rightarrow> (case validated h q of
                 None \<Rightarrow> None
               | Some (Inl e) \<Rightarrow> Some (Err e)
               | Some (Inr _) \<Rightarrow> Some (Ok (q, validate_variable_references q))))"

subsection \<open>Code files\<close>

definition resolve_code :: "host \<Rightarrow> pipeline \<Rightarrow> transform_config \<Rightarrow> string option" where
  "resolve_code h p xf = (case xf_code_path xf of
      Some rel \<Rightarrow> h_read_file h (h_join h (case p_code_dir p of Some d \<Rightarrow> d | None \<Rightarrow> ''.'') rel)
    | None \<Rightarrow> Some (xf_code xf))"

definition populate_node :: "host \<Rightarrow> pipeline \<Rightarrow> node \<Rightarrow> node option" where
  "populate_node h p n = (case n_kind n of
      Transform xf \<Rightarrow>
        if xf_code_path xf \<noteq> None \<and> xf_code xf = []
        then map_option (\<lambda>code. n\<lparr>n_kind := Transform (xf\<lparr>xf_code := code\<rparr>)\<rparr>) (resolve_code h p xf)
        else Some n
    | Source _ \<Rightarrow> Some n
    | Sink _ \<Rightarrow> Some n
    | Test _ \<Rightarrow> Some n
    | Snippet _ \<Rightarrow> Some n)"

definition with_code_populated :: "host \<Rightarrow> pipeline \<Rightarrow> pipeline option" where
  "with_code_populated h p = map_option (\<lambda>ns. p\<lparr>p_nodes := ns\<rparr>) (map_all (populate_node h p) (p_nodes p))"

definition inline_node :: "host \<Rightarrow> pipeline \<Rightarrow> node \<Rightarrow> node option" where
  "inline_node h p n = (case n_kind n of
      Transform xf \<Rightarrow>
        if xf_code_path xf \<noteq> None
        then map_option (\<lambda>code. n\<lparr>n_kind := Transform (xf\<lparr>xf_code := code, xf_code_path := None\<rparr>)\<rparr>)
          (resolve_code h p xf)
        else Some n
    | Source _ \<Rightarrow> Some n
    | Sink _ \<Rightarrow> Some n
    | Test _ \<Rightarrow> Some n
    | Snippet _ \<Rightarrow> Some n)"

definition with_resolved_code :: "host \<Rightarrow> pipeline \<Rightarrow> pipeline option" where
  "with_resolved_code h p =
     map_option (\<lambda>ns. p\<lparr>p_nodes := ns, p_code_dir := None\<rparr>) (map_all (inline_node h p) (p_nodes p))"

subsection \<open>A pipeline that was read can run\<close>

lemma expand_snippets_kept:
  assumes "expand_snippets env js reg p = Some (Ok q)"
  shows "no_snippets q \<and> p_snippet q = p_snippet p"
proof -
  have q: "no_snippets q" "q = p\<lparr>p_nodes := p_nodes q, p_edges := p_edges q\<rparr>"
    using expand_snippets_result [OF assms] by blast+
  from arg_cong [OF q(2), of p_snippet] have "p_snippet q = p_snippet p" by simp
  with q(1) show ?thesis ..
qed

lemma expand_if_needed_no_snippets:
  "expand_snippets_if_needed h base p = Some (Ok q) \<Longrightarrow> no_snippets q \<and> p_snippet q = p_snippet p"
  using expand_snippets_kept [of "h_env h" "h_print h" _ p q]
  by (auto simp: expand_snippets_if_needed_def Let_def no_snippets_def list_ex_iff
      split: if_splits option.splits sum.splits)

lemma validated_Ok:
  assumes "validated h q = Some (Ok u)" "no_snippets q" "hash_order (h_order h)"
  shows "import_ok q \<and> (p_nodes q = [] \<or> valid_dag q)"
proof -
  have "validate_import (h_order h) (h_print h) q = Some (Ok ())"
    using assms(1) by (auto simp: validated_def split: option.splits sum.splits)
  then show ?thesis
    using validate_import_Ok [OF assms(2,3)] validate_accepts [OF assms(3,2)] by blast
qed

lemma read_pipeline_Ok:
  assumes "read_pipeline h base txt = Some (Ok q)" "p_snippet q = None" "hash_order (h_order h)"
  shows "no_snippets q \<and> import_ok q \<and> (p_nodes q = [] \<or> valid_dag q)"
proof -
  from assms(1,2) obtain p where e: "expand_snippets_if_needed h base p = Some (Ok q)"
    and v: "validated h q = Some (Ok ())"
    by (auto simp: read_pipeline_def Let_def split: option.splits if_splits sum.splits)
  from expand_if_needed_no_snippets [OF e] have "no_snippets q" by blast
  with validated_Ok [OF v this assms(3)] show ?thesis by blast
qed

text \<open>
  C9: a pipeline that is read without an error, and is not itself a snippet file, has no calls
  left and passes every check; if it has nodes, its topological sort returns all of them, each
  edge's source first.
\<close>

theorem read_pipeline_runs:
  assumes "read_pipeline h base txt = Some (Ok q)" "p_snippet q = None"
    "hash_order (h_order h)" "hash_order ord"
  shows "no_snippets q \<and> import_ok q \<and>
    (p_nodes q \<noteq> [] \<longrightarrow> (\<exists>out. topological_sort ord q = Some out \<and> mset out = mset (node_ids q) \<and>
      (\<forall>e \<in> set (p_edges q). \<exists>xs ys zs. out = xs @ e_from e # ys @ e_to e # zs)))"
  using read_pipeline_Ok [OF assms(1-3)] topological_sort_valid [OF assms(4)] by blast

definition sample_host :: "pipeline \<Rightarrow> host" where
  "sample_host p = \<lparr>h_parse = (\<lambda>_. Some p), h_print = (\<lambda>_. []), h_read_dir = (\<lambda>_. None),
     h_read_file = (\<lambda>f. Some f), h_is_absolute = (\<lambda>_. False), h_join = (\<lambda>a b. a @ ''/'' @ b),
     h_env = (\<lambda>_. None), h_order = rev\<rparr>"

lemma sample_import_ok: "import_ok sample_dag"
  by (simp add: import_ok_def sample_dag_def sample_defs blank_def sink_ok_def utf8_len_def
      is_whitespace_def bytes_of_def)

lemma sample_read: "read_pipeline (sample_host sample_dag) None [] = Some (Ok sample_dag)"
proof -
  have m: "migrate_legacy_sinks sample_dag = sample_dag"
    by (simp add: migrate_legacy_sinks_def migrate_node_def migrate_sink_def sample_dag_def sample_defs)
  have s: "no_snippets sample_dag" "p_snippet sample_dag = None"
    by (simp_all add: sample_dag_def dag_eval)
  then have e: "expand_snippets_if_needed h base sample_dag = Some (Ok sample_dag)" for h base
    by (auto simp: expand_snippets_if_needed_def no_snippets_def list_ex_iff)
  have "validate_import rev (\<lambda>_. []) sample_dag = Some (Ok ())"
    using validate_import_Ok [OF s(1) hash_order_rev] sample_import_ok sample_dag_validate by blast
  then show ?thesis
    by (simp add: read_pipeline_def validated_def sample_host_def m s e)
qed

theorem read_pipeline_runs_witness:
  "no_snippets sample_dag \<and> (\<exists>out. topological_sort rev sample_dag = Some out)"
proof -
  have "p_snippet sample_dag = None" "p_nodes sample_dag \<noteq> []" "hash_order (h_order (sample_host sample_dag))"
    by (simp_all add: sample_host_def sample_dag_def plain_pipeline_def)
  with read_pipeline_runs [OF sample_read _ _ hash_order_rev] show ?thesis by blast
qed

lemma load_entry_adds:
  "load_entry parse e reg = Ok reg' \<Longrightarrow>
   reg' = reg \<or> (\<exists>t p name path. parse t = Some p \<and> reg' = (name, (p, path)) # reg)"
  by (auto simp: load_entry_def Let_def split: if_splits option.splits sum.splits)

lemma load_entries_ids:
  assumes parse: "\<And>t p. parse t = Some p \<Longrightarrow> [] \<notin> set (node_ids p)"
  shows "load_entries parse dir es reg = Ok reg' \<Longrightarrow> registry_ids_ok reg \<Longrightarrow> registry_ids_ok reg'"
proof (induction es arbitrary: reg)
  case Nil
  then show ?case by simp
next
  case (Cons oe es)
  then obtain e reg1 where l: "load_entry parse e reg = Ok reg1" and r: "load_entries parse dir es reg1 = Ok reg'"
    by (cases oe) (auto split: sum.splits)
  have "registry_ids_ok reg1"
  proof (cases "reg1 = reg")
    case False
    with load_entry_adds [OF l] obtain t p name path where t: "parse t = Some p"
      and reg1: "reg1 = (name, (p, path)) # reg" by blast
    have "registry_get reg1 nm = (if nm = name then Some p else registry_get reg nm)" for nm
      by (simp add: reg1 registry_get_def)
    with parse [OF t] Cons.prems(2) show ?thesis by (simp add: registry_ids_ok_def)
  qed (use Cons.prems(2) in simp)
  with Cons.IH [OF r] show ?case .
qed

text \<open>
  Reading always returns, with a pipeline or an error, when no file that parses has a node
  with an empty id.
\<close>

theorem read_pipeline_total:
  assumes "hash_order (h_order h)" "\<And>txt p. h_parse h txt = Some p \<Longrightarrow> [] \<notin> set (node_ids p)"
  shows "read_pipeline h base txt \<noteq> None"
proof -
  have "expand_snippets_if_needed h base p \<noteq> None" for p
  proof -
    have "expand_snippets (h_env h) (h_print h) reg p \<noteq> None"
      if "load_from_dir (h_read_dir h) (h_parse h) dir = Ok reg" for dir reg
    proof -
      from that obtain es where es: "load_entries (h_parse h) dir es [] = Ok reg"
        by (auto simp: load_from_dir_def split: option.splits)
      have "registry_ids_ok reg"
      proof (rule load_entries_ids [OF _ es])
        show "[] \<notin> set (node_ids p)" if "h_parse h t = Some p" for t p by (rule assms(2) [OF that])
        show "registry_ids_ok []" by (simp add: registry_ids_ok_def registry_get_def)
      qed
      then show ?thesis unfolding expand_snippets_def by (rule expand_rec_total)
    qed
    then show ?thesis
      by (auto simp: expand_snippets_if_needed_def Let_def split: option.splits sum.splits)
        (metis option.distinct(1))+
  qed
  moreover have "validated h q \<noteq> None" if "expand_snippets_if_needed h base p = Some (Ok q)" for p q
  proof -
    have "Dag.validate (h_order h) q \<noteq> None"
      using expand_if_needed_no_snippets [OF that] by (intro validate_returns assms(1)) blast
    then show ?thesis
      by (auto simp: validated_def validate_import_def Let_def split: option.splits sum.splits)
  qed
  ultimately show ?thesis
    by (auto simp: read_pipeline_def Let_def split: option.splits sum.splits) (metis option.distinct(1))+
qed

theorem read_pipeline_total_witness: "read_pipeline (sample_host sample_dag) None ''x'' \<noteq> None"
proof (rule read_pipeline_total)
  show "hash_order (h_order (sample_host sample_dag))" by (simp add: sample_host_def)
  show "[] \<notin> set (node_ids p)" if "h_parse (sample_host sample_dag) t = Some p" for t p
    using that by (auto simp: sample_host_def sample_dag_def sample_defs)
qed

subsection \<open>Warnings\<close>

text \<open>
  Reading with warnings reads the same pipelines, but for snippet files: there plain reading
  accepts the file as it is, and reading with warnings validates it, which panics as soon as
  the snippet calls another.
\<close>

theorem warnings_agree_or_panic:
  assumes "h_parse h txt = Some p"
  shows "(p_snippet p = None \<longrightarrow> from_json_with_warnings h txt =
      map_option (\<lambda>r. case r of Inl e \<Rightarrow> Err e | Inr q \<Rightarrow> Ok (q, validate_variable_references q)) (from_json h txt)) \<and>
    (p_snippet p \<noteq> None \<and> \<not> no_snippets p \<longrightarrow>
      from_json h txt = Some (Ok (migrate_legacy_sinks p)) \<and> from_json_with_warnings h txt = None)"
proof -
  have snip: "p_snippet (migrate_legacy_sinks p) = p_snippet p" by (simp add: migrate_legacy_sinks_def)
  have "validated h (migrate_legacy_sinks p) = None" if "\<not> no_snippets p"
  proof -
    from that obtain n where n: "n \<in> set (p_nodes p)" "is_snippet (n_kind n)" by (auto simp: no_snippets_def)
    then have "is_snippet (n_kind (migrate_node n))" by (cases "n_kind n") (auto simp: migrate_node_def)
    then have "\<exists>m \<in> set (p_nodes (migrate_legacy_sinks p)). is_snippet (n_kind m)"
      using n(1) by (auto simp: migrate_legacy_sinks_def)
    then have "check_kinds q (p_nodes (migrate_legacy_sinks p)) = None" for q
      by (simp add: check_kinds_None_iff)
    moreover have "p_nodes (migrate_legacy_sinks p) \<noteq> []" using n(1) by (auto simp: migrate_legacy_sinks_def)
    ultimately show ?thesis by (simp add: validated_def validate_import_def Dag.validate_def)
  qed
  with assms show ?thesis
    by (auto simp: from_json_def read_pipeline_def from_json_with_warnings_def Let_def snip
        split: option.splits sum.splits)
qed

definition nested_snippet_file :: pipeline where
  "nested_snippet_file = (plain_pipeline ''outer'' [snippet_call_node ''c'' ''inner'' []] [])
     \<lparr>p_snippet := Some ''outer''\<rparr>"

theorem warnings_agree_or_panic_witness:
  "from_json_with_warnings (sample_host nested_snippet_file) [] = None"
proof -
  have "h_parse (sample_host nested_snippet_file) [] = Some nested_snippet_file"
    by (simp add: sample_host_def)
  moreover have "p_snippet nested_snippet_file \<noteq> None \<and> \<not> no_snippets nested_snippet_file"
    by (simp add: nested_snippet_file_def sample_defs no_snippets_def snippet_call_node_def)
  ultimately show ?thesis using warnings_agree_or_panic by blast
qed

subsection \<open>Inlined code\<close>

definition node_code :: "host \<Rightarrow> pipeline \<Rightarrow> node \<Rightarrow> string option option" where
  "node_code h p n = (case n_kind n of Transform xf \<Rightarrow> Some (resolve_code h p xf) | _ \<Rightarrow> None)"

text \<open>
  An exported pipeline needs no files: no transform has a code path, and the code each node
  resolves to is what it resolved to before.
\<close>

theorem with_resolved_code_correct:
  assumes "with_resolved_code h p = Some q"
  shows "p_code_dir q = None \<and> node_ids q = node_ids p \<and>
    map (node_code h q) (p_nodes q) = map (node_code h p) (p_nodes p) \<and>
    (\<forall>n \<in> set (p_nodes q). \<forall>xf. n_kind n = Transform xf \<longrightarrow> xf_code_path xf = None)"
proof -
  from assms obtain ns where ns: "map_all (inline_node h p) (p_nodes p) = Some ns"
    and q: "q = p\<lparr>p_nodes := ns, p_code_dir := None\<rparr>"
    by (auto simp: with_resolved_code_def)
  have one: "n_id m = n_id n \<and> node_code h q m = node_code h p n \<and>
      (\<forall>xf. n_kind m = Transform xf \<longrightarrow> xf_code_path xf = None)" if "inline_node h p n = Some m" for n m
    using that by (auto simp: inline_node_def node_code_def resolve_code_def
        split: node_kind.splits if_splits option.splits)
  have "list_all2 (\<lambda>n m. n_id m = n_id n \<and> node_code h q m = node_code h p n \<and>
      (\<forall>xf. n_kind m = Transform xf \<longrightarrow> xf_code_path xf = None)) (p_nodes p) ns"
    using ns unfolding map_all_Some_iff by (rule list_all2_mono) (rule one)
  then have "map n_id ns = node_ids p \<and> map (node_code h q) ns = map (node_code h p) (p_nodes p) \<and>
      (\<forall>m \<in> set ns. \<forall>xf. n_kind m = Transform xf \<longrightarrow> xf_code_path xf = None)"
    by (induction rule: list_all2_induct) auto
  then show ?thesis by (simp add: q)
qed

theorem with_resolved_code_correct_witness:
  "map_option p_code_dir (with_resolved_code (sample_host sample_dag) sample_dag) = Some None"
proof -
  have "with_resolved_code (sample_host sample_dag) sample_dag \<noteq> None"
    by (simp add: with_resolved_code_def inline_node_def sample_dag_def sample_defs)
  then obtain q where "with_resolved_code (sample_host sample_dag) sample_dag = Some q" by blast
  with with_resolved_code_correct [OF this] show ?thesis by simp
qed

end

