(* ===== verification/Variable_Mapping.thy ===== *)
theory Variable_Mapping
  imports Pipeline_Model
begin

text \<open>
  \<open>variable_mapping.rs\<close> of the scheduler: the pipeline variables a firing takes from its event.  A
  mapping is the list of its entries in the iteration order of the hash map.  The file names,
  parents and extensions of \<open>std::path\<close> are the fields of \<open>path_fns\<close>.
\<close>

type_synonym variables = "string \<rightharpoonup> json"
type_synonym var_mapping = "(string \<times> string) list"

record path_fns =
  pf_file_name :: "string \<Rightarrow> string option"
  pf_parent :: "string \<Rightarrow> string option"
  pf_extension :: "string \<Rightarrow> string option"

text \<open>The loop all evaluators share: stop at the first error, else insert every value.\<close>

fun eval_mapping :: "(string \<Rightarrow> string \<Rightarrow> 'e + json) \<Rightarrow> var_mapping \<Rightarrow> variables \<Rightarrow> 'e + variables" where
  "eval_mapping f [] vars = Ok vars"
| "eval_mapping f ((name, expr) # m) vars = (case f name expr of
      Inl e \<Rightarrow> Err e
    | Inr v \<Rightarrow> eval_mapping f m (vars(name \<mapsto> v)))"

definition file_expr :: "path_fns \<Rightarrow> string list \<Rightarrow> string \<Rightarrow> string \<Rightarrow> string + json" where
  "file_expr pf files name expr =
     (let first = (case files of [] \<Rightarrow> [] | f # _ \<Rightarrow> f);
          text = (\<lambda>r. Ok (JString (case r of Some s \<Rightarrow> s | None \<Rightarrow> [])))
      in if expr = ''$file_path'' then Ok (JString first)
         else if expr = ''$file_name'' then text (pf_file_name pf first)
         else if expr = ''$file_dir'' then text (pf_parent pf first)
         else if expr = ''$file_ext'' then text (pf_extension pf first)
         else if expr = ''$file_count'' then Ok (JNumber (PosInt (length files)))
         else if expr = ''$file_paths'' then Ok (JArray (map JString files))
         else Err (''unknown file_arrival expression `'' @ expr @ ''` for variable `'' @ name @
           ''`; expected one of: $file_path, $file_name, $file_dir, $file_ext, $file_count, $file_paths''))"

definition evaluate_file_arrival :: "path_fns \<Rightarrow> var_mapping \<Rightarrow> string list \<Rightarrow> string + variables" where
  "evaluate_file_arrival pf m files = eval_mapping (file_expr pf files) m Map.empty"

text \<open>\<open>path.split('.')\<close>.\<close>

fun split_dots :: "string \<Rightarrow> string list" where
  "split_dots [] = [[]]"
| "split_dots (c # s) = (if c = CHR ''.'' then [] # split_dots s
     else (case split_dots s of [] \<Rightarrow> [[c]] | w # ws \<Rightarrow> (c # w) # ws))"

fun walk_path :: "json \<Rightarrow> string list \<Rightarrow> json option" where
  "walk_path v [] = Some v"
| "walk_path v (seg # segs) = (case v of
      JObject m \<Rightarrow> (case map_of m seg of Some w \<Rightarrow> walk_path w segs | None \<Rightarrow> None)
    | _ \<Rightarrow> None)"

definition resolve_dot_path :: "json \<Rightarrow> string \<Rightarrow> json option" where
  "resolve_dot_path v path = walk_path v (split_dots path)"

definition webhook_expr :: "json \<Rightarrow> string \<Rightarrow> string \<Rightarrow> string + json" where
  "webhook_expr body name expr =
     (if expr = ''$body'' then Ok body
      else (case strip_prefix ''$body.'' expr of
        Some path \<Rightarrow> Ok (case resolve_dot_path body path of Some v \<Rightarrow> v | None \<Rightarrow> JNull)
      | None \<Rightarrow> Err (''unknown webhook expression `'' @ expr @ ''` for variable `'' @ name @
          ''`; expected `$body` or `$body.<path>`'')))"

definition evaluate_webhook :: "var_mapping \<Rightarrow> json \<Rightarrow> string + variables" where
  "evaluate_webhook m body = eval_mapping (webhook_expr body) m Map.empty"

record completion_context =
  cc_pipeline :: string
  cc_environment :: string
  cc_status :: string
  cc_run_id :: "string option"

definition completion_expr :: "completion_context \<Rightarrow> string \<Rightarrow> string \<Rightarrow> string + json" where
  "completion_expr ctx name expr =
     (if expr = ''$upstream_pipeline'' then Ok (JString (cc_pipeline ctx))
      else if expr = ''$upstream_environment'' then Ok (JString (cc_environment ctx))
      else if expr = ''$upstream_status'' then Ok (JString (cc_status ctx))
      else if expr = ''$upstream_run_id''
      then Ok (case cc_run_id ctx of Some i \<Rightarrow> JString i | None \<Rightarrow> JNull)
      else Err (''unknown pipeline_completion expression `'' @ expr @ ''` for variable `'' @ name @
        ''`; expected one of: $upstream_pipeline, $upstream_environment, $upstream_status, $upstream_run_id''))"

definition evaluate_completion :: "var_mapping \<Rightarrow> completion_context \<Rightarrow> string + variables" where
  "evaluate_completion m ctx = eval_mapping (completion_expr ctx) m Map.empty"

definition merge_variables :: "variables option \<Rightarrow> variables \<Rightarrow> variables" where
  "merge_variables base mapped = (case base of None \<Rightarrow> Map.empty | Some b \<Rightarrow> b) ++ mapped"

definition validate_mapping_keys :: "var_mapping \<Rightarrow> (string \<times> variable) list \<Rightarrow> string list" where
  "validate_mapping_keys m declared =
     map (\<lambda>(name, _). ''variable_mapping target `'' @ name @
         ''` is not declared in the pipeline's variables'')
       (filter (\<lambda>(name, _). map_of declared name = None) m)"

subsection \<open>What an evaluated mapping holds\<close>

definition mapped :: "(string \<Rightarrow> string \<Rightarrow> 'e + json) \<Rightarrow> var_mapping \<Rightarrow> variables" where
  "mapped f m name = (case map_of m name of
      None \<Rightarrow> None
    | Some expr \<Rightarrow> (case f name expr of Inl _ \<Rightarrow> None | Inr v \<Rightarrow> Some v))"

lemma mapped_Nil: "mapped f [] = Map.empty"
  by (simp add: mapped_def fun_eq_iff)

lemma mapped_Cons:
  "f name expr = Ok v \<Longrightarrow> mapped f ((name, expr) # m) = (mapped f m)(name \<mapsto> v)"
  by (simp add: mapped_def fun_eq_iff)

lemma eval_mapping_result:
  "distinct (map fst m) \<Longrightarrow> eval_mapping f m vars = Ok vars' \<longleftrightarrow>
    list_all (\<lambda>(name, expr). is_ok (f name expr)) m \<and> vars' = vars ++ mapped f m"
proof (induction f m vars rule: eval_mapping.induct)
  case (1 f vars)
  then show ?case by (auto simp: mapped_Nil)
next
  case (2 f name expr m vars)
  show ?case
  proof (cases "f name expr")
    case (Inl e)
    then show ?thesis by simp
  next
    case (Inr v)
    have "map_of m name = None" using "2.prems" by (simp add: map_of_eq_None_iff)
    then have "name \<notin> dom (mapped f m)" by (simp add: mapped_def dom_def)
    then have "vars(name \<mapsto> v) ++ mapped f m = vars ++ mapped f ((name, expr) # m)"
      by (simp add: mapped_Cons [where f = f, OF Inr] map_add_upd_left)
    moreover have "eval_mapping f m (vars(name \<mapsto> v)) = Ok vars' \<longleftrightarrow>
        list_all (\<lambda>(name, expr). is_ok (f name expr)) m \<and> vars' = vars(name \<mapsto> v) ++ mapped f m"
      using "2.prems" by (intro "2.IH" [OF Inr]) simp
    ultimately show ?thesis unfolding eval_mapping.simps Inr sum.case by (simp add: Inr del: fun_upd_apply)
  qed
qed

lemma split_dots_join:
  "ws \<noteq> [] \<Longrightarrow> \<forall>w \<in> set ws. CHR ''.'' \<notin> set w \<Longrightarrow> split_dots (join ''.'' ws) = ws"
proof (induction "''.''" ws rule: join.induct)
  case (2 s)
  have "CHR ''.'' \<notin> set s \<Longrightarrow> split_dots s = [s]" by (induction s) auto
  with 2 show ?case by simp
next
  case (3 s t ss)
  have "CHR ''.'' \<notin> set s \<Longrightarrow> split_dots (s @ ''.'' @ r) = s # split_dots r" for r by (induction s) auto
  with 3 show ?case by simp
qed simp

text \<open>
  A webhook mapping is evaluated exactly when every expression is \<open>$body\<close> or a path into it;
  then each variable has the value of its expression, an expression made of keys that have no dot
  follows these keys, one object after the other, and a missing key gives \<open>null\<close>.
\<close>

theorem evaluate_webhook_correct:
  assumes "distinct (map fst m)" "ws \<noteq> []" "list_all (\<lambda>w. CHR ''.'' \<notin> set w) ws"
  shows "(evaluate_webhook m body = Ok vars \<longleftrightarrow>
      list_all (\<lambda>(name, expr). expr = ''$body'' \<or> starts_with ''$body.'' expr) m \<and>
      vars = mapped (webhook_expr body) m) \<and>
    webhook_expr body name (''$body.'' @ join ''.'' ws) =
      Ok (case walk_path body ws of Some v \<Rightarrow> v | None \<Rightarrow> JNull)"
proof -
  have ok: "is_ok (webhook_expr body n e) \<longleftrightarrow> e = ''$body'' \<or> starts_with ''$body.'' e" for n e
    by (auto simp: webhook_expr_def starts_with_def is_ok_def split: option.splits)
  have "split_dots (join ''.'' ws) = ws"
    using assms(2,3) by (intro split_dots_join) (auto simp: list_all_iff)
  then have "webhook_expr body name (''$body.'' @ join ''.'' ws) =
      Ok (case walk_path body ws of Some v \<Rightarrow> v | None \<Rightarrow> JNull)"
    by (simp add: webhook_expr_def resolve_dot_path_def)
  then show ?thesis
    using eval_mapping_result [OF assms(1), of "webhook_expr body" Map.empty vars]
    unfolding evaluate_webhook_def ok empty_map_add by blast
qed

theorem evaluate_webhook_correct_witness:
  "evaluate_webhook [(''d'', ''$body.a.b'')] (JObject [(''a'', JObject [(''b'', JBool True)])]) =
     Ok [''d'' \<mapsto> JBool True]"
  using evaluate_webhook_correct [of "[(''d'', ''$body.a.b'')]" "[''a'', ''b'']"
      "JObject [(''a'', JObject [(''b'', JBool True)])]" "[''d'' \<mapsto> JBool True]" "''d''"]
  by (simp add: mapped_Cons mapped_Nil starts_with_def)

text \<open>Values of the mapping win over the trigger's own overrides.\<close>

lemma merge_variables_get:
  "merge_variables base vars name = (case vars name of
     Some v \<Rightarrow> Some v | None \<Rightarrow> (case base of None \<Rightarrow> None | Some b \<Rightarrow> b name))"
  by (auto simp: merge_variables_def map_add_def split: option.splits)

end
