(* ===== verification/Trigger_Store.thy ===== *)
theory Trigger_Store
  imports Variable_Mapping
begin

text \<open>
  \<open>types.rs\<close> and \<open>store.rs\<close> of the scheduler: triggers, their state and history, and the SQLite
  tables that hold them.  A table is the list of its rows in insertion order.  Rows keep their
  typed values: what \<open>serde_json\<close> writes it reads back.  The foreign keys are enforced and cascade,
  as in the SQLite the build bundles.
\<close>

type_synonym trigger_id = string

datatype completion_status = CsSuccess | CsFailure | CsAny

datatype trigger_kind =
    Cron string string
  | Every string "string option"
  | FileArrival string string "var_mapping option"
  | Webhook string string "var_mapping option"
  | PipelineCompletion string "string option" completion_status

datatype run_policy = PolQueue | PolSkip | PolReject

fun run_policy_str :: "run_policy \<Rightarrow> string" where
  "run_policy_str PolQueue = ''queue''"
| "run_policy_str PolSkip = ''skip''"
| "run_policy_str PolReject = ''reject''"

definition parse_run_policy :: "string \<Rightarrow> string + run_policy" where
  "parse_run_policy s =
     (if s = ''queue'' then Ok PolQueue else if s = ''skip'' then Ok PolSkip
      else if s = ''reject'' then Ok PolReject else Err (''unknown run policy: '' @ s))"

datatype trigger_outcome = RunStarted | Queued | Skipped | Rejected | OutError

fun outcome_str :: "trigger_outcome \<Rightarrow> string" where
  "outcome_str RunStarted = ''run_started''"
| "outcome_str Queued = ''queued''"
| "outcome_str Skipped = ''skipped''"
| "outcome_str Rejected = ''rejected''"
| "outcome_str OutError = ''error''"

definition parse_outcome :: "string \<Rightarrow> string + trigger_outcome" where
  "parse_outcome s =
     (if s = ''run_started'' then Ok RunStarted else if s = ''queued'' then Ok Queued
      else if s = ''skipped'' then Ok Skipped else if s = ''rejected'' then Ok Rejected
      else if s = ''error'' then Ok OutError else Err (''unknown trigger outcome: '' @ s))"

record trigger =
  tg_id :: trigger_id
  tg_name :: string
  tg_pipeline_id :: string
  tg_environment :: string
  tg_enabled :: bool
  tg_kind :: trigger_kind
  tg_run_policy :: run_policy
  tg_overrides :: "variables option"
  tg_max_queue_depth :: u32
  tg_created_at :: string
  tg_updated_at :: string

definition default_max_queue_depth :: u32 where "default_max_queue_depth = 3"
definition default_timezone :: string where "default_timezone = ''UTC''"
definition default_poll_interval :: string where "default_poll_interval = ''PT1M''"
definition default_auth :: string where "default_auth = ''token''"
definition default_on_status :: completion_status where "default_on_status = CsSuccess"

record trigger_state =
  ts_trigger_id :: trigger_id
  ts_last_evaluated_at :: "string option"
  ts_last_fired_at :: "string option"
  ts_next_fire_at :: "string option"
  ts_sensor_state :: "json option"
  ts_consecutive_errors :: u32

record history_entry =
  he_id :: string
  he_trigger_id :: trigger_id
  he_fired_at :: string
  he_outcome :: trigger_outcome
  he_run_id :: "string option"
  he_details :: "json option"
  he_error :: "string option"

fun kind_tag :: "trigger_kind \<Rightarrow> string" where
  "kind_tag (Cron e z) = ''cron''"
| "kind_tag (Every e s) = ''interval''"
| "kind_tag (FileArrival p i m) = ''file_arrival''"
| "kind_tag (Webhook p a m) = ''webhook''"
| "kind_tag (PipelineCompletion u e s) = ''pipeline_completion''"

datatype store_error = ConstraintFailed | NoRows | OutOfRange | StoreNotFound trigger_id

subsection \<open>The tables\<close>

record trigger_db =
  db_triggers :: "trigger list"
  db_states :: "trigger_state list"
  db_history :: "history_entry list"

definition init_schema :: trigger_db where
  "init_schema = \<lparr>db_triggers = [], db_states = [], db_history = []\<rparr>"

definition db_ids :: "trigger_db \<Rightarrow> trigger_id list" where
  "db_ids db = map tg_id (db_triggers db)"

definition create_trigger :: "trigger \<Rightarrow> trigger_db \<Rightarrow> store_error + trigger_db" where
  "create_trigger t db =
     (if tg_id t \<in> set (db_ids db) then Err ConstraintFailed
      else Ok (db\<lparr>db_triggers := db_triggers db @ [t],
        db_states := (if tg_id t \<in> set (map ts_trigger_id (db_states db)) then db_states db
          else db_states db @ [\<lparr>ts_trigger_id = tg_id t, ts_last_evaluated_at = None, ts_last_fired_at = None,
            ts_next_fire_at = None, ts_sensor_state = None, ts_consecutive_errors = 0\<rparr>])\<rparr>))"

text \<open>The depth is read back as an \<open>i32\<close>.\<close>

definition row_to_trigger :: "trigger \<Rightarrow> store_error + trigger" where
  "row_to_trigger t = (if unat (tg_max_queue_depth t) < 2 ^ 31 then Ok t else Err OutOfRange)"

definition get_trigger :: "trigger_db \<Rightarrow> trigger_id \<Rightarrow> store_error + trigger" where
  "get_trigger db i = (case find (\<lambda>t. tg_id t = i) (db_triggers db) of
      None \<Rightarrow> Err NoRows
    | Some t \<Rightarrow> row_to_trigger t)"

definition list_triggers :: "trigger_db \<Rightarrow> string option \<Rightarrow> string option \<Rightarrow> store_error + trigger list" where
  "list_triggers db pid env =
     try_map row_to_trigger (sort_desc tg_created_at
       (filter (\<lambda>t. (case pid of None \<Rightarrow> True | Some p \<Rightarrow> tg_pipeline_id t = p) \<and>
                    (case env of None \<Rightarrow> True | Some e \<Rightarrow> tg_environment t = e)) (db_triggers db)))"

definition update_trigger :: "trigger \<Rightarrow> trigger_db \<Rightarrow> store_error + trigger_db" where
  "update_trigger t db =
     (if tg_id t \<notin> set (db_ids db) then Err (StoreNotFound (tg_id t))
      else Ok (db\<lparr>db_triggers :=
        map (\<lambda>r. if tg_id r = tg_id t then t\<lparr>tg_created_at := tg_created_at r\<rparr> else r) (db_triggers db)\<rparr>))"

definition delete_trigger :: "trigger_id \<Rightarrow> trigger_db \<Rightarrow> store_error + trigger_db" where
  "delete_trigger i db =
     (if i \<notin> set (db_ids db) then Err (StoreNotFound i)
      else Ok (db\<lparr>db_triggers := filter (\<lambda>t. tg_id t \<noteq> i) (db_triggers db),
        db_states := filter (\<lambda>s. ts_trigger_id s \<noteq> i) (db_states db),
        db_history := filter (\<lambda>h. he_trigger_id h \<noteq> i) (db_history db)\<rparr>))"

definition set_enabled :: "trigger_id \<Rightarrow> bool \<Rightarrow> trigger_db \<Rightarrow> store_error + trigger_db" where
  "set_enabled i b db =
     (if i \<notin> set (db_ids db) then Err (StoreNotFound i)
      else Ok (db\<lparr>db_triggers :=
        map (\<lambda>r. if tg_id r = i then r\<lparr>tg_enabled := b\<rparr> else r) (db_triggers db)\<rparr>))"

definition get_state :: "trigger_db \<Rightarrow> trigger_id \<Rightarrow> trigger_state option" where
  "get_state db i = find (\<lambda>s. ts_trigger_id s = i) (db_states db)"

definition upsert_state :: "trigger_state \<Rightarrow> trigger_db \<Rightarrow> store_error + trigger_db" where
  "upsert_state s db =
     (if ts_trigger_id s \<in> set (map ts_trigger_id (db_states db))
      then Ok (db\<lparr>db_states := map (\<lambda>r. if ts_trigger_id r = ts_trigger_id s then s else r) (db_states db)\<rparr>)
      else if ts_trigger_id s \<notin> set (db_ids db) then Err ConstraintFailed
      else Ok (db\<lparr>db_states := db_states db @ [s]\<rparr>))"

definition record_history :: "history_entry \<Rightarrow> trigger_db \<Rightarrow> store_error + trigger_db" where
  "record_history h db =
     (if he_id h \<in> set (map he_id (db_history db)) \<or> he_trigger_id h \<notin> set (db_ids db)
      then Err ConstraintFailed
      else Ok (db\<lparr>db_history := db_history db @ [h]\<rparr>))"

definition get_history :: "trigger_db \<Rightarrow> trigger_id \<Rightarrow> nat \<Rightarrow> history_entry list" where
  "get_history db i limit =
     take limit (sort_desc he_fired_at (filter (\<lambda>h. he_trigger_id h = i) (db_history db)))"

text \<open>The rows \<open>count_pending_runs\<close> counts, and the count as it is read, an \<open>i32\<close>.\<close>

definition pending_rows :: "trigger_db \<Rightarrow> trigger_id \<Rightarrow> history_entry list" where
  "pending_rows db i =
     filter (\<lambda>h. he_trigger_id h = i \<and> he_outcome h \<in> {RunStarted, Queued}) (db_history db)"

definition count_pending_runs :: "trigger_db \<Rightarrow> trigger_id \<Rightarrow> store_error + u32" where
  "count_pending_runs db i =
     (if length (pending_rows db i) < 2 ^ 31 then Ok (of_nat (length (pending_rows db i))) else Err OutOfRange)"

definition list_enabled_triggers :: "trigger_db \<Rightarrow> store_error + trigger list" where
  "list_enabled_triggers db = try_map row_to_trigger (filter tg_enabled (db_triggers db))"

subsection \<open>Steps and the invariant\<close>

text \<open>Every operation that writes, as a step of the database.\<close>

inductive db_step :: "trigger_db \<Rightarrow> trigger_db \<Rightarrow> bool" where
  step_create: "create_trigger t db = Ok db' \<Longrightarrow> db_step db db'"
| step_update: "update_trigger t db = Ok db' \<Longrightarrow> db_step db db'"
| step_delete: "delete_trigger i db = Ok db' \<Longrightarrow> db_step db db'"
| step_enable: "set_enabled i b db = Ok db' \<Longrightarrow> db_step db db'"
| step_state: "upsert_state s db = Ok db' \<Longrightarrow> db_step db db'"
| step_history: "record_history h db = Ok db' \<Longrightarrow> db_step db db'"

inductive db_reachable :: "trigger_db \<Rightarrow> bool" where
  reach_init: "db_reachable init_schema"
| reach_step: "db_reachable db \<Longrightarrow> db_step db db' \<Longrightarrow> db_reachable db'"

inductive_cases db_stepE: "db_step db db'"

definition db_ok :: "trigger_db \<Rightarrow> bool" where
  "db_ok db \<longleftrightarrow> distinct (db_ids db) \<and> distinct (map ts_trigger_id (db_states db)) \<and>
     distinct (map he_id (db_history db)) \<and>
     set (map ts_trigger_id (db_states db)) = set (db_ids db) \<and>
     he_trigger_id ` set (db_history db) \<subseteq> set (db_ids db)"

lemma db_ok_init: "db_ok init_schema"
  by (simp add: db_ok_def init_schema_def db_ids_def)

lemma create_trigger_Ok:
  "create_trigger t db = Ok db' \<Longrightarrow> tg_id t \<notin> set (db_ids db) \<and>
     db_ids db' = db_ids db @ [tg_id t] \<and> db_history db' = db_history db \<and>
     map ts_trigger_id (db_states db') = map ts_trigger_id (db_states db) @
       (if tg_id t \<in> set (map ts_trigger_id (db_states db)) then [] else [tg_id t])"
  by (auto simp: create_trigger_def db_ids_def split: if_splits)

lemma record_history_Ok:
  "record_history h db = Ok db' \<Longrightarrow>
     db_triggers db' = db_triggers db \<and> db_states db' = db_states db \<and> db_history db' = db_history db @ [h] \<and>
     he_id h \<notin> set (map he_id (db_history db)) \<and> he_trigger_id h \<in> set (db_ids db)"
  by (auto simp: record_history_def split: if_splits)

lemma db_ok_create: "create_trigger t db = Ok db' \<Longrightarrow> db_ok db \<Longrightarrow> db_ok db'"
  by (drule create_trigger_Ok) (simp add: db_ok_def, blast)

lemma update_trigger_Ok:
  "update_trigger t db = Ok db' \<Longrightarrow>
     db_ids db' = db_ids db \<and> db_states db' = db_states db \<and> db_history db' = db_history db"
  by (auto simp: update_trigger_def db_ids_def split: if_splits)

lemma set_enabled_Ok:
  "set_enabled i b db = Ok db' \<Longrightarrow>
     db_ids db' = db_ids db \<and> db_states db' = db_states db \<and> db_history db' = db_history db"
  by (auto simp: set_enabled_def db_ids_def split: if_splits)

lemma upsert_state_Ok:
  "upsert_state s db = Ok db' \<Longrightarrow>
     db_triggers db' = db_triggers db \<and> db_history db' = db_history db \<and>
     map ts_trigger_id (db_states db') = map ts_trigger_id (db_states db) @
       (if ts_trigger_id s \<in> set (map ts_trigger_id (db_states db)) then [] else [ts_trigger_id s]) \<and>
     (ts_trigger_id s \<in> set (map ts_trigger_id (db_states db)) \<or> ts_trigger_id s \<in> set (db_ids db))"
  by (auto simp: upsert_state_def db_ids_def split: if_splits)

lemma db_ok_update: "update_trigger t db = Ok db' \<Longrightarrow> db_ok db \<Longrightarrow> db_ok db'"
  by (drule update_trigger_Ok) (simp add: db_ok_def)

lemma db_ok_enable: "set_enabled i b db = Ok db' \<Longrightarrow> db_ok db \<Longrightarrow> db_ok db'"
  by (drule set_enabled_Ok) (simp add: db_ok_def)

lemma delete_trigger_Ok:
  "delete_trigger i db = Ok db' \<Longrightarrow>
     db_ids db' = filter (\<lambda>k. k \<noteq> i) (db_ids db) \<and>
     map ts_trigger_id (db_states db') = filter (\<lambda>k. k \<noteq> i) (map ts_trigger_id (db_states db)) \<and>
     db_history db' = filter (\<lambda>h. he_trigger_id h \<noteq> i) (db_history db)"
  by (auto simp: delete_trigger_def db_ids_def filter_map comp_def split: if_splits)

lemma db_ok_delete: "delete_trigger i db = Ok db' \<Longrightarrow> db_ok db \<Longrightarrow> db_ok db'"
  by (drule delete_trigger_Ok) (auto simp: db_ok_def distinct_map_filter simp del: set_map)

lemma db_ok_upsert: "upsert_state s db = Ok db' \<Longrightarrow> db_ok db \<Longrightarrow> db_ok db'"
  by (drule upsert_state_Ok) (auto simp: db_ok_def db_ids_def)

lemma db_ok_history: "record_history h db = Ok db' \<Longrightarrow> db_ok db \<Longrightarrow> db_ok db'"
  by (drule record_history_Ok) (simp add: db_ok_def db_ids_def)

lemmas db_ok_ops = db_ok_create db_ok_update db_ok_delete db_ok_enable db_ok_upsert db_ok_history

lemma db_ok_step: "db_step db db' \<Longrightarrow> db_ok db \<Longrightarrow> db_ok db'"
  by (erule db_stepE) (blast intro: db_ok_ops)+

lemma db_ok_reachable: "db_reachable db \<Longrightarrow> db_ok db"
  by (induction rule: db_reachable.induct) (auto intro: db_ok_init db_ok_step)

lemma find_Some_in: "find P xs = Some x \<Longrightarrow> x \<in> set xs \<and> P x"
  by (auto simp: find_Some_iff)

lemma get_state_None_iff: "get_state db i = None \<longleftrightarrow> i \<notin> set (map ts_trigger_id (db_states db))"
  by (auto simp: get_state_def find_None_iff)

text \<open>
  C36: in every database the operations can build from the empty one, trigger ids, state rows and
  history ids are unique, every trigger has its state row and no other state row exists, and every
  history row belongs to a trigger; so a trigger's state is always found.
\<close>

theorem db_reachable_ok:
  assumes "db_reachable db"
  shows "db_ok db \<and> (get_state db i = None \<longleftrightarrow> i \<notin> set (db_ids db))"
  using db_ok_reachable [OF assms] by (auto simp: get_state_None_iff db_ok_def)

theorem db_reachable_ok_witness: "get_state init_schema ''t'' = None"
  using db_reachable_ok [OF reach_init, of "''t''"] by (simp add: init_schema_def db_ids_def)

subsection \<open>What the scheduler relies on\<close>

text \<open>
  The part of \<open>TriggerStorage\<close> the scheduler uses, with the number of rows that count as pending.
\<close>

definition starts_run :: "history_entry \<Rightarrow> bool" where
  "starts_run h \<longleftrightarrow> he_outcome h = RunStarted \<or> he_outcome h = Queued"

locale trigger_storage =
  fixes state_of :: "'s \<Rightarrow> trigger_id \<Rightarrow> trigger_state option"
    and put_state :: "trigger_state \<Rightarrow> 's \<Rightarrow> store_error + 's"
    and add_entry :: "history_entry \<Rightarrow> 's \<Rightarrow> store_error + 's"
    and pending :: "'s \<Rightarrow> trigger_id \<Rightarrow> nat"
    and triggers_of :: "'s \<Rightarrow> trigger list"
  assumes put_state_get: "put_state s db = Ok db' \<Longrightarrow>
      state_of db' i = (if i = ts_trigger_id s then Some s else state_of db i)"
    and put_state_known: "ts_trigger_id s \<in> tg_id ` set (triggers_of db) \<Longrightarrow> \<exists>db'. put_state s db = Ok db'"
    and put_state_rest: "put_state s db = Ok db' \<Longrightarrow> pending db' i = pending db i \<and> triggers_of db' = triggers_of db"
    and add_entry_pending: "add_entry h db = Ok db' \<Longrightarrow>
      pending db' i = pending db i + (if he_trigger_id h = i \<and> starts_run h then 1 else 0)"
    and add_entry_rest: "add_entry h db = Ok db' \<Longrightarrow> state_of db' = state_of db \<and> triggers_of db' = triggers_of db"
begin

text \<open>Entries and states whose errors are dropped.\<close>

lemma add_try:
  "state_of (case add_entry h db of Inl _ \<Rightarrow> db | Inr db' \<Rightarrow> db') = state_of db"
  "triggers_of (case add_entry h db of Inl _ \<Rightarrow> db | Inr db' \<Rightarrow> db') = triggers_of db"
  "pending db i \<le> pending (case add_entry h db of Inl _ \<Rightarrow> db | Inr db' \<Rightarrow> db') i"
  by (auto split: sum.split dest: add_entry_rest simp: add_entry_pending)

lemma put_try:
  "triggers_of (case put_state s db of Inl _ \<Rightarrow> db | Inr db' \<Rightarrow> db') = triggers_of db"
  "pending (case put_state s db of Inl _ \<Rightarrow> db | Inr db' \<Rightarrow> db') i = pending db i"
  by (auto split: sum.split dest: put_state_rest)

lemma put_try_get:
  assumes "ts_trigger_id s \<in> tg_id ` set (triggers_of db)"
  shows "state_of (case put_state s db of Inl _ \<Rightarrow> db | Inr db' \<Rightarrow> db') i =
    (if i = ts_trigger_id s then Some s else state_of db i)"
  using put_state_known [OF assms] by (auto simp: put_state_get)

lemma put_try_other:
  "i \<noteq> ts_trigger_id s \<Longrightarrow> state_of (case put_state s db of Inl _ \<Rightarrow> db | Inr db' \<Rightarrow> db') i = state_of db i"
  by (auto split: sum.split simp: put_state_get)

lemma add_all_pending: "pending db i \<le> pending (fold (\<lambda>h db. case add_entry h db of Inl _ \<Rightarrow> db | Inr db' \<Rightarrow> db') hs db) i"
proof (induction hs arbitrary: db)
  case (Cons h hs)
  show ?case using le_trans [OF add_try(3) Cons.IH] by simp
qed simp

end

lemma find_map_other:
  "i \<noteq> ts_trigger_id s \<Longrightarrow>
   find (\<lambda>r. ts_trigger_id r = i) (map (\<lambda>r. if ts_trigger_id r = ts_trigger_id s then s else r) ss) =
   find (\<lambda>r. ts_trigger_id r = i) ss"
  by (induction ss) auto

lemma find_append: "find P (xs @ ys) = (case find P xs of Some x \<Rightarrow> Some x | None \<Rightarrow> find P ys)"
  by (induction xs) auto

lemma find_map_same:
  "ts_trigger_id s \<in> ts_trigger_id ` set ss \<Longrightarrow>
   find (\<lambda>r. ts_trigger_id r = ts_trigger_id s)
     (map (\<lambda>r. if ts_trigger_id r = ts_trigger_id s then s else r) ss) = Some s"
  by (induction ss) auto

lemma find_state_None: "ts_trigger_id s \<notin> ts_trigger_id ` set ss \<Longrightarrow>
    find (\<lambda>r. ts_trigger_id r = ts_trigger_id s) ss = None"
  by (force simp: find_None_iff)

lemma upsert_state_get:
  assumes "upsert_state s db = Ok db'"
  shows "get_state db' i = (if i = ts_trigger_id s then Some s else get_state db i)"
  using assms find_map_other [of i s "db_states db"] find_map_same [of s "db_states db"]
    find_state_None [of s "db_states db"]
  by (auto simp: upsert_state_def get_state_def find_append split: if_splits option.splits)

interpretation store: trigger_storage get_state upsert_state record_history
  "\<lambda>db i. length (pending_rows db i)" db_triggers
proof (unfold_locales, goal_cases)
  case (1 s db db' i)
  then show ?case by (rule upsert_state_get)
next
  case (2 s db)
  then show ?case by (auto simp: upsert_state_def db_ids_def)
next
  case (3 s db db' i)
  then show ?case by (drule_tac upsert_state_Ok) (simp add: pending_rows_def)
next
  case (4 h db db' i)
  then show ?case by (drule_tac record_history_Ok) (simp add: pending_rows_def starts_run_def)
next
  case (5 h db db')
  then show ?case by (drule_tac record_history_Ok) (simp add: get_state_def fun_eq_iff)
qed

end
