(* ===== verification/Interval.thy ===== *)
theory Interval
  imports Sla
begin

text \<open>
  \<open>interval.rs\<close> of the scheduler: ISO 8601 intervals and the slots of an interval trigger.  Times
  and durations are nanoseconds (\<open>int\<close>).  \<open>None\<close> is a panic of \<open>chrono\<close>: a duration of more
  than \<open>i64::MAX\<close> milliseconds, or a time outside its range, which is the parameter \<open>dt_ok\<close>.
\<close>

record iso_interval =
  iv_days :: int
  iv_hours :: int
  iv_minutes :: int
  iv_seconds :: int

subsection \<open>Parsing\<close>

text \<open>\<open>InvalidInterval\<close> with its message.\<close>

definition interval_component :: "string \<Rightarrow> char \<Rightarrow> int option" where
  "interval_component s suffix =
     (if ends_with [suffix] s then parse_i64 (take (length s - 1) s) else None)"

definition interval_part :: "char \<Rightarrow> string \<Rightarrow> string \<Rightarrow> string + int \<times> string" where
  "interval_part marker msg remaining = (case find_char marker remaining of
      None \<Rightarrow> Ok (0, remaining)
    | Some (a, b) \<Rightarrow> (case parse_i64 a of None \<Rightarrow> Err msg | Some n \<Rightarrow> Ok (n, b)))"

definition interval_time :: "string \<Rightarrow> string \<Rightarrow> string + int \<times> int \<times> int" where
  "interval_time input tp =
     (if tp = [] then Err (''empty time component after T: '' @ input)
      else (case interval_part CHR ''H'' (''invalid hours: '' @ input) tp of
        Inl e \<Rightarrow> Err e
      | Inr (h, r1) \<Rightarrow> (case interval_part CHR ''M'' (''invalid minutes: '' @ input) r1 of
          Inl e \<Rightarrow> Err e
        | Inr (m, r2) \<Rightarrow> (case interval_part CHR ''S'' (''invalid seconds: '' @ input) r2 of
            Inl e \<Rightarrow> Err e
          | Inr (s, r3) \<Rightarrow>
              if r3 \<noteq> [] then Err (''unexpected trailing characters in time part: '' @ input)
              else Ok (h, m, s)))))"

definition interval_date :: "string \<Rightarrow> string \<Rightarrow> string + int" where
  "interval_date input date_part =
     (if date_part = [] then Ok 0
      else if CHR ''Y'' \<in> set date_part \<or> CHR ''M'' \<in> set date_part
      then Err (''year/month durations are not supported (use cron instead): '' @ input)
      else (case interval_component date_part CHR ''D'' of
          None \<Rightarrow> Err (''invalid date component: '' @ input)
        | Some d \<Rightarrow> Ok d))"

definition interval_parse :: "string \<Rightarrow> string + iso_interval" where
  "interval_parse input = (case strip_prefix ''P'' (trim input) of
      None \<Rightarrow> Err (''must start with 'P': '' @ input)
    | Some rest \<Rightarrow>
        if rest = [] then Err (''empty duration: '' @ input)
        else
          let (date_part, time_part) = (case find_char CHR ''T'' rest of
                Some (a, b) \<Rightarrow> (a, Some b) | None \<Rightarrow> (rest, None))
          in (case interval_date input date_part of
                Inl e \<Rightarrow> Err e
              | Inr d \<Rightarrow>
                 (case (case time_part of None \<Rightarrow> Ok (0, 0, 0) | Some tp \<Rightarrow> interval_time input tp) of
                    Inl e \<Rightarrow> Err e
                  | Inr (h, m, s) \<Rightarrow>
                      if d = 0 \<and> h = 0 \<and> m = 0 \<and> s = 0 then Err (''zero-length duration: '' @ input)
                      else Ok \<lparr>iv_days = d, iv_hours = h, iv_minutes = m, iv_seconds = s\<rparr>)))"

subsection \<open>Durations\<close>

definition ns_per_ms :: int where "ns_per_ms = 1000000"
definition ns_per_sec :: int where "ns_per_sec = 1000000000"

definition delta_ok :: "int \<Rightarrow> bool" where
  "delta_ok d = (\<bar>d\<bar> \<le> i64_max * ns_per_ms)"

definition delta_checked :: "int \<Rightarrow> int option" where
  "delta_checked d = (if delta_ok d then Some d else None)"

text \<open>\<open>Duration::seconds\<close>, and its multiples \<open>minutes\<close>, \<open>hours\<close> and \<open>days\<close>.\<close>

definition delta_seconds :: "int \<Rightarrow> int option" where
  "delta_seconds s = map_option (\<lambda>s. s * ns_per_sec) (duration_seconds s)"

definition delta_add :: "int option \<Rightarrow> int option \<Rightarrow> int option" where
  "delta_add a b = (case a of None \<Rightarrow> None | Some x \<Rightarrow>
     (case b of None \<Rightarrow> None | Some y \<Rightarrow> delta_checked (x + y)))"

definition to_chrono_duration :: "iso_interval \<Rightarrow> int option" where
  "to_chrono_duration iv =
     delta_add (delta_add (delta_add (delta_seconds (iv_days iv * 86400))
       (delta_seconds (iv_hours iv * 3600))) (delta_seconds (iv_minutes iv * 60)))
       (delta_seconds (iv_seconds iv))"

definition num_milliseconds :: "int \<Rightarrow> int" where
  "num_milliseconds d = (if d < 0 then - ((- d) div ns_per_ms) else d div ns_per_ms)"

definition time_add :: "(int \<Rightarrow> bool) \<Rightarrow> int \<Rightarrow> int \<Rightarrow> int option" where
  "time_add dt_ok t d = (if dt_ok (t + d) then Some (t + d) else None)"

subsection \<open>The next slot\<close>

text \<open>\<open>n as i32\<close>.\<close>

definition as_i32 :: "int \<Rightarrow> int" where
  "as_i32 n = (n + 2 ^ 31) mod 2 ^ 32 - 2 ^ 31"

definition next_slot :: "(int \<Rightarrow> bool) \<Rightarrow> iso_interval \<Rightarrow> int \<Rightarrow> int \<Rightarrow> int option" where
  "next_slot dt_ok iv start_at after = (case to_chrono_duration iv of
      None \<Rightarrow> None
    | Some interval \<Rightarrow>
        if num_milliseconds interval \<le> 0 then time_add dt_ok after ns_per_sec
        else if after < start_at then Some start_at
        else
          let n = num_milliseconds (after - start_at) div num_milliseconds interval;
              k = as_i32 n + 1
          in if k > 2 ^ 31 - 1 then None
             else (case delta_checked (interval * k) of
                 None \<Rightarrow> None
               | Some d \<Rightarrow> time_add dt_ok start_at d))"

subsection \<open>Slots\<close>

definition interval_total :: "iso_interval \<Rightarrow> int" where
  "interval_total iv = iv_days iv * 86400 + iv_hours iv * 3600 + iv_minutes iv * 60 + iv_seconds iv"

lemma delta_add_Some: "delta_add a b = Some c \<longleftrightarrow> (\<exists>x y. a = Some x \<and> b = Some y \<and> c = x + y \<and> delta_ok c)"
  by (auto simp: delta_add_def delta_checked_def split: option.splits)

lemma delta_seconds_Some: "delta_seconds s = Some d \<longleftrightarrow> d = s * ns_per_sec \<and> \<bar>s\<bar> \<le> i64_max div 1000"
  by (auto simp: delta_seconds_def duration_seconds_def)

lemma to_chrono_total: "to_chrono_duration iv = Some d \<Longrightarrow> d = interval_total iv * ns_per_sec"
  by (auto simp: to_chrono_duration_def delta_add_Some delta_seconds_Some interval_total_def algebra_simps)

lemma num_milliseconds_exact: "0 \<le> d \<Longrightarrow> num_milliseconds (d * ns_per_sec) = d * 1000"
  by (simp add: num_milliseconds_def ns_per_ms_def ns_per_sec_def)

lemma as_i32_small: "0 \<le> n \<Longrightarrow> n < 2 ^ 31 \<Longrightarrow> as_i32 n = n"
  by (simp add: as_i32_def)

lemma slot_number:
  assumes "0 < s" "0 \<le> x"
  shows "num_milliseconds x div num_milliseconds (s * ns_per_sec) = x div (s * ns_per_sec)"
proof -
  have "num_milliseconds (s * ns_per_sec) = s * 1000" using assms(1) by (simp add: num_milliseconds_exact)
  moreover have "num_milliseconds x = x div 1000000" using assms(2) by (simp add: num_milliseconds_def ns_per_ms_def)
  moreover have "x div 1000000 div (s * 1000) = x div (1000000 * (s * 1000))"
    using assms(1) by (intro zdiv_zmult2_eq [symmetric]) simp
  ultimately show ?thesis by (simp add: ns_per_sec_def mult.commute mult.left_commute)
qed

lemma next_slot_eq:
  assumes "to_chrono_duration iv = Some I" "0 < I" "(after - start) div I < 2 ^ 31 - 1"
    "\<And>t. start \<le> t \<Longrightarrow> t \<le> max start (after + I) \<Longrightarrow> dt_ok t" "delta_ok (after - start + I)"
  shows "next_slot dt_ok iv start after =
    Some (if after < start then start else start + I * ((after - start) div I + 1))"
proof -
  have I: "I = interval_total iv * ns_per_sec" using to_chrono_total [OF assms(1)] .
  have pos: "0 < interval_total iv" using assms(2) unfolding I by (simp add: ns_per_sec_def zero_less_mult_iff)
  have ms: "num_milliseconds I = interval_total iv * 1000" unfolding I using pos by (simp add: num_milliseconds_exact)
  show ?thesis
  proof (cases "after < start")
    case True
    then show ?thesis using assms(1) pos by (simp add: next_slot_def ms)
  next
    case False
    let ?n = "(after - start) div I"
    have n0: "0 \<le> ?n" using False assms(2) by (simp add: pos_imp_zdiv_nonneg_iff)
    have n: "num_milliseconds (after - start) div num_milliseconds I = ?n"
      unfolding I using False by (intro slot_number pos) simp
    have le: "I * ?n \<le> after - start"
      using minus_mod_eq_mult_div [of "after - start" I] pos_mod_sign [OF assms(2), of "after - start"]
      by linarith
    have "0 \<le> I * (?n + 1)" using n0 assms(2) by simp
    moreover have "I * (?n + 1) \<le> after - start + I" using le by (simp add: distrib_left)
    ultimately have "delta_ok (I * (?n + 1))" and "dt_ok (start + I * (?n + 1))"
      using assms(4) [of "start + I * (?n + 1)"] assms(5) False by (auto simp: delta_ok_def)
    then show ?thesis
      using assms(1,3) False pos n0
      by (simp add: next_slot_def n as_i32_small delta_checked_def time_add_def) (simp add: ms)
  qed
qed

lemma next_slot_first:
  assumes "to_chrono_duration iv = Some I" "0 < I" "(after - start) div I < 2 ^ 31 - 1"
    "\<And>t. start \<le> t \<Longrightarrow> t \<le> max start (after + I) \<Longrightarrow> dt_ok t" "delta_ok (after - start + I)"
  shows "\<exists>k \<ge> 0. next_slot dt_ok iv start after = Some (start + k * I) \<and> after < start + k * I \<and>
    (\<forall>j \<ge> 0. after < start + j * I \<longrightarrow> k \<le> j)"
proof (cases "after < start")
  case True
  then show ?thesis using next_slot_eq [OF assms] by (intro exI [of _ 0]) simp
next
  case False
  let ?n = "(after - start) div I"
  have slot: "next_slot dt_ok iv start after = Some (start + (?n + 1) * I)"
    using next_slot_eq [OF assms] False by (simp add: mult.commute)
  moreover have "0 \<le> ?n" using False assms(2) by (simp add: pos_imp_zdiv_nonneg_iff)
  moreover have "(?n + 1) * I = I * ?n + I" by (simp add: algebra_simps)
  then have "after < start + (?n + 1) * I"
    using minus_mod_eq_mult_div [of "after - start" I] pos_mod_bound [OF assms(2), of "after - start"]
    by linarith
  moreover have "?n + 1 \<le> j" if "after < start + j * I" for j
  proof -
    from that have "after - start < I * j" by (simp add: mult.commute)
    then have "I * ?n < I * j"
      using minus_mod_eq_mult_div [of "after - start" I] pos_mod_sign [OF assms(2), of "after - start"]
      by linarith
    then show ?thesis using assms(2) by (simp add: mult_less_cancel_left_pos)
  qed
  ultimately show ?thesis by (intro exI [of _ "?n + 1"]) simp
qed

text \<open>
  C37: the next fire of an interval trigger is the first of the slots \<open>start + k * interval\<close> after
  \<open>after\<close>, as long as fewer than \<open>2 ^ 31 - 1\<close> intervals have passed and the times are in the
  range of \<open>chrono\<close>.
\<close>

theorem next_slot_correct:
  assumes "to_chrono_duration iv = Some I" "0 < I" "(after - start) div I < 2 ^ 31 - 1"
    "\<And>t. start \<le> t \<Longrightarrow> t \<le> max start (after + I) \<Longrightarrow> dt_ok t" "delta_ok (after - start + I)"
  shows "\<exists>k \<ge> 0. next_slot dt_ok iv start after = Some (start + k * I) \<and> after < start + k * I \<and>
    (\<forall>j \<ge> 0. after < start + j * I \<longrightarrow> k \<le> j)"
  using next_slot_first [OF assms] .

theorem next_slot_correct_witness:
  "\<exists>k \<ge> 0. next_slot (\<lambda>_. True) \<lparr>iv_days = 0, iv_hours = 0, iv_minutes = 1, iv_seconds = 0\<rparr> 0 (90 * ns_per_sec) =
     Some (k * (60 * ns_per_sec))"
proof -
  let ?iv = "\<lparr>iv_days = 0, iv_hours = 0, iv_minutes = 1, iv_seconds = 0\<rparr>"
  have "to_chrono_duration ?iv = Some (60 * ns_per_sec)"
    by (simp add: to_chrono_duration_def delta_seconds_def duration_seconds_def delta_add_def
        delta_checked_def delta_ok_def i64_max_def ns_per_sec_def ns_per_ms_def)
  from next_slot_correct [OF this, of "90 * ns_per_sec" 0 "\<lambda>_. True"] show ?thesis
    by (force simp: ns_per_sec_def ns_per_ms_def delta_ok_def i64_max_def)
qed

text \<open>Past \<open>2 ^ 31\<close> intervals the count is cut to 32 bits and the slot lies in the past.\<close>

lemma next_slot_truncates:
  "next_slot (\<lambda>_. True) \<lparr>iv_days = 0, iv_hours = 0, iv_minutes = 0, iv_seconds = 1\<rparr> 0 (2 ^ 31 * ns_per_sec) =
     Some ((1 - 2 ^ 31) * ns_per_sec)"
  by (simp add: next_slot_def to_chrono_duration_def delta_seconds_def duration_seconds_def delta_add_def
      delta_checked_def delta_ok_def i64_max_def ns_per_sec_def ns_per_ms_def num_milliseconds_def
      as_i32_def time_add_def)

text \<open>The parser rejects a zero interval and accepts a negative one.\<close>

lemma interval_parse_negative:
  "interval_parse ''P-1D'' = Ok \<lparr>iv_days = - 1, iv_hours = 0, iv_minutes = 0, iv_seconds = 0\<rparr>"
proof -
  have "trim ''P-1D'' = ''P-1D''" by (rule trim_ascii) (simp add: is_graph_def)
  then show ?thesis
    by (simp add: interval_parse_def interval_date_def interval_component_def ends_with_def starts_with_def
        parse_i64_def parse_digits_def is_digit_def digit_val_def i64_min_def i64_max_def)
qed

subsection \<open>One notation, two parsers\<close>

lemma digits_val_chars: "digits_val acc s = Some n \<Longrightarrow> c \<in> set s \<Longrightarrow> is_digit c"
  by (induction acc s rule: digits_val.induct) (auto split: if_splits)

lemma parse_i64_chars: "parse_i64 s = Some n \<Longrightarrow> c \<in> set s \<Longrightarrow> is_digit c \<or> c = CHR ''-'' \<or> c = CHR ''+''"
  by (cases s) (auto simp: parse_i64_def parse_digits_def Let_def dest: digits_val_chars
      split: if_splits option.splits)

lemma find_char_suffix:
  assumes "interval_component s suffix = Some n" "\<not> is_digit suffix" "suffix \<noteq> CHR ''-''" "suffix \<noteq> CHR ''+''"
  shows "find_char suffix s = Some (take (length s - 1) s, [])"
proof -
  from assms(1) have suf: "ends_with [suffix] s" and num: "parse_i64 (take (length s - 1) s) = Some n"
    by (auto simp: interval_component_def split: if_splits)
  from suf obtain r where "rev s = [suffix] @ r" by (auto simp: ends_with_def starts_with_iff)
  then have s: "s = rev r @ [suffix]" by (simp add: rev_eq_Cons_iff)
  have "suffix \<notin> set (rev r)" using num parse_i64_chars [of "rev r"] assms(2-4) by (auto simp: s)
  then show ?thesis by (simp add: s find_char_append)
qed

lemma interval_date_engine:
  assumes "interval_date input date = Ok d"
  shows "(if date = [] then Some 0 else parse_component date CHR ''D'') = Some d"
proof (cases "date = []")
  case True
  with assms show ?thesis by (simp add: interval_date_def)
next
  case False
  with assms have c: "interval_component date CHR ''D'' = Some d"
    by (auto simp: interval_date_def split: if_splits option.splits)
  from find_char_suffix [OF this] have "find_char CHR ''D'' date = Some (take (length date - 1) date, [])"
    by (simp add: is_digit_def)
  then show ?thesis using False c by (auto simp: parse_component_def interval_component_def split: if_splits)
qed

lemma interval_part_engine:
  assumes "interval_part marker msg r = Ok (n, r')" "time_component marker unit err r acc \<noteq> None"
  shows "time_component marker unit err r acc = Some (Ok (acc + n * unit, r'))"
  using assms by (auto simp: interval_part_def time_component_def checked_def split: option.splits if_splits)

lemma interval_time_engine:
  assumes "interval_time input tp = Ok (h, m, sec)" "parse_time s tp acc \<noteq> None"
  shows "parse_time s tp acc = Some (Ok (acc + h * 3600 + m * 60 + sec))"
proof -
  from assms(1) obtain r1 r2 where
    h: "interval_part CHR ''H'' (''invalid hours: '' @ input) tp = Ok (h, r1)" and
    m: "interval_part CHR ''M'' (''invalid minutes: '' @ input) r1 = Ok (m, r2)" and
    sec: "interval_part CHR ''S'' (''invalid seconds: '' @ input) r2 = Ok (sec, [])"
    by (auto simp: interval_time_def split: if_splits sum.splits)
  from assms(2) have "time_component CHR ''H'' 3600 (BadHours s) tp acc \<noteq> None"
    by (auto simp: parse_time_def split: option.splits)
  from interval_part_engine [OF h this] have H: "time_component CHR ''H'' 3600 (BadHours s) tp acc = Some (Ok (acc + h * 3600, r1))" .
  with assms(2) have "time_component CHR ''M'' 60 (BadMinutes s) r1 (acc + h * 3600) \<noteq> None"
    by (auto simp: parse_time_def split: option.splits)
  from interval_part_engine [OF m this] have M: "time_component CHR ''M'' 60 (BadMinutes s) r1 (acc + h * 3600) =
      Some (Ok (acc + h * 3600 + m * 60, r2))" .
  with H assms(2) have "time_component CHR ''S'' 1 (BadSeconds s) r2 (acc + h * 3600 + m * 60) \<noteq> None"
    by (auto simp: parse_time_def split: option.splits)
  from interval_part_engine [OF sec this] H M show ?thesis by (simp add: parse_time_def)
qed

text \<open>
  The scheduler's interval parser is a restriction of the engine's duration parser: what it
  accepts, the engine reads as the same number of seconds, unless its \<open>i64\<close> arithmetic overflows.
\<close>

theorem interval_parse_refines:
  assumes "interval_parse s = Ok iv" "parse_iso_duration s \<noteq> None"
  shows "parse_iso_duration s = Some (Ok (interval_total iv))"
proof -
  from assms(1) obtain rest where rest: "strip_prefix ''P'' (trim s) = Some rest"
    by (auto simp: interval_parse_def split: option.splits)
  define date where "date = (case find_char CHR ''T'' rest of Some (a, b) \<Rightarrow> a | None \<Rightarrow> rest)"
  define time where "time = (case find_char CHR ''T'' rest of Some (a, b) \<Rightarrow> Some b | None \<Rightarrow> None)"
  define tp where "tp = (case time of None \<Rightarrow> [] | Some b \<Rightarrow> b)"
  have split1: "(case find_char CHR ''T'' rest of Some (a, b) \<Rightarrow> (a, Some b) | None \<Rightarrow> (rest, None)) = (date, time)"
    and split2: "(case find_char CHR ''T'' rest of Some (a, b) \<Rightarrow> (a, b) | None \<Rightarrow> (rest, [])) = (date, tp)"
    by (auto simp: date_def time_def tp_def split: option.splits)
  from assms(1) rest obtain d h m sec where d: "interval_date s date = Ok d"
    and t: "(case time of None \<Rightarrow> Ok (0, 0, 0) | Some tp \<Rightarrow> interval_time s tp) = Ok (h, m, sec)"
    and iv: "iv = \<lparr>iv_days = d, iv_hours = h, iv_minutes = m, iv_seconds = sec\<rparr>"
    by (auto simp: interval_parse_def Let_def split1 split: if_splits sum.splits)
  note date = interval_date_engine [OF d]
  have days: "checked (d * 86400) = Some (d * 86400)"
    using assms(2) by (auto simp: parse_iso_duration_def Let_def rest split2 date checked_def split: if_splits)
  have "(if tp = [] then Some (Ok (d * 86400)) else parse_time (trim s) tp (d * 86400)) =
      Some (Ok (d * 86400 + h * 3600 + m * 60 + sec))"
  proof (cases time)
    case None
    with t show ?thesis by (simp add: tp_def)
  next
    case (Some b)
    with t have it: "interval_time s b = Ok (h, m, sec)" and "b = tp" by (simp_all add: tp_def)
    then have "tp \<noteq> []" by (auto simp: interval_time_def)
    moreover from this have "parse_time (trim s) tp (d * 86400) \<noteq> None"
      using assms(2) by (auto simp: parse_iso_duration_def Let_def rest split2 date days split: option.splits)
    ultimately show ?thesis using interval_time_engine [OF it] \<open>b = tp\<close> by simp
  qed
  then have "parse_iso_duration s = map_option Ok (duration_seconds (interval_total iv))"
    by (simp add: parse_iso_duration_def Let_def rest split2 date days iv interval_total_def add.assoc)
  with assms(2) show ?thesis by (auto simp: duration_seconds_def split: if_splits)
qed

theorem interval_parse_refines_witness:
  "parse_iso_duration ''P1DT2H'' = Some (Ok 93600)"
proof -
  have t: "trim ''P1DT2H'' = ''P1DT2H''" by (rule trim_ascii) (simp add: is_graph_def)
  have "interval_parse ''P1DT2H'' = Ok \<lparr>iv_days = 1, iv_hours = 2, iv_minutes = 0, iv_seconds = 0\<rparr>"
    by (simp add: interval_parse_def t interval_date_def interval_component_def ends_with_def starts_with_def
        interval_time_def interval_part_def parse_i64_def parse_digits_def is_digit_def digit_val_def
        i64_min_def i64_max_def)
  moreover have "parse_iso_duration ''P1DT2H'' \<noteq> None"
    by (simp add: parse_iso_duration_def t parse_component_def parse_time_def time_component_def checked_def
        parse_i64_def parse_digits_def is_digit_def digit_val_def i64_min_def i64_max_def duration_seconds_def)
  ultimately show ?thesis
    using interval_parse_refines [of "''P1DT2H''"] by (simp add: interval_total_def)
qed

end
