(* ===== verification/Scheduler.thy ===== *)
theory Scheduler
  imports Trigger_Store Interval
begin

text \<open>
  \<open>scheduler.rs\<close>, \<open>cron.rs\<close> and \<open>sensors/file_arrival.rs\<close>: when triggers fire and what a firing
  does.  A time is its nanoseconds since the epoch; the clock's reading and the file system a call
  sees are its \<open>moment\<close>.  The outer option is \<open>None\<close> for a panic (a time out of the range of
  \<open>chrono\<close>).  Code outside the repository is a field of \<open>sched_env\<close>: printing and reading times
  (\<open>chrono\<close>), time zones and cron expressions (\<open>chrono_tz\<close>, \<open>croner\<close>), random ids (\<open>uuid\<close>), the
  text of storage errors (\<open>rusqlite\<close>), and the \<open>RunDispatcher\<close> the server plugs in, whose state has
  the type \<open>'d\<close>.
\<close>

record 'd sched_env =
  se_show_time :: "int \<Rightarrow> string"
  se_read_time :: "string \<Rightarrow> int option"
  se_time_ok :: "int \<Rightarrow> bool"
  se_timezone :: "string \<Rightarrow> bool"
  se_cron_error :: "string \<Rightarrow> string option"
  se_cron_next :: "string \<Rightarrow> string \<Rightarrow> int \<Rightarrow> int option"
  se_uuid :: "nat \<Rightarrow> string"
  se_store_msg :: "store_error \<Rightarrow> string"
  se_paths :: path_fns
  se_running :: "'d \<Rightarrow> string \<Rightarrow> string \<Rightarrow> bool"
  se_dispatch :: "'d \<Rightarrow> string \<Rightarrow> string \<Rightarrow> variables option \<Rightarrow> trigger_id \<Rightarrow> (string + string) \<times> 'd"

record moment =
  mo_now :: int
  mo_glob :: "string \<Rightarrow> string + string option list"

record 'd world =
  w_db :: trigger_db
  w_uuids :: nat
  w_disp :: 'd

datatype sched_error =
    InvalidCron string
  | InvalidInterval string
  | StoreFailed store_error
  | TriggerDisabled trigger_id
  | RunPolicyRejected string
  | QueueFull trigger_id u32
  | SensorError string

fun sched_error_str :: "'d sched_env \<Rightarrow> sched_error \<Rightarrow> string" where
  "sched_error_str E (InvalidCron s) = ''invalid cron expression: '' @ s"
| "sched_error_str E (InvalidInterval s) = ''invalid interval: '' @ s"
| "sched_error_str E (StoreFailed e) = ''storage error: '' @ se_store_msg E e"
| "sched_error_str E (TriggerDisabled i) = ''trigger disabled: '' @ i"
| "sched_error_str E (RunPolicyRejected s) = ''run policy rejected: '' @ s"
| "sched_error_str E (QueueFull i n) =
     ''queue full for trigger '' @ i @ '' (max depth '' @ show_nat (unat n) @ '')''"
| "sched_error_str E (SensorError s) = ''sensor error: '' @ s"

record tick_result =
  tk_trigger_id :: trigger_id
  tk_outcome :: trigger_outcome
  tk_run_id :: "string option"
  tk_error :: "string option"

subsection \<open>Recording\<close>

definition record_firing ::
  "'d sched_env \<Rightarrow> trigger \<Rightarrow> string \<Rightarrow> trigger_outcome \<Rightarrow> string option \<Rightarrow> string option \<Rightarrow> 'd world \<Rightarrow> 'd world" where
  "record_firing E t now_str outcome run_id err w =
     (let entry = \<lparr>he_id = se_uuid E (w_uuids w), he_trigger_id = tg_id t, he_fired_at = now_str,
            he_outcome = outcome, he_run_id = run_id, he_details = None, he_error = err\<rparr>
      in w\<lparr>w_db := (case record_history entry (w_db w) of Inl _ \<Rightarrow> w_db w | Inr db \<Rightarrow> db),
           w_uuids := w_uuids w + 1\<rparr>)"

definition record_error :: "'d sched_env \<Rightarrow> trigger \<Rightarrow> string \<Rightarrow> string \<Rightarrow> 'd world \<Rightarrow> 'd world" where
  "record_error E t now_str err w0 =
     (let w = record_firing E t now_str OutError None (Some err) w0;
          state = get_state (w_db w) (tg_id t);
          new_state = \<lparr>ts_trigger_id = tg_id t, ts_last_evaluated_at = Some now_str,
            ts_last_fired_at = Option.bind state ts_last_fired_at,
            ts_next_fire_at = Option.bind state ts_next_fire_at,
            ts_sensor_state = Option.bind state ts_sensor_state,
            ts_consecutive_errors = (case state of None \<Rightarrow> 0 | Some s \<Rightarrow> ts_consecutive_errors s) + 1\<rparr>
      in w\<lparr>w_db := (case upsert_state new_state (w_db w) of Inl _ \<Rightarrow> w_db w | Inr db \<Rightarrow> db)\<rparr>)"

definition save_state :: "trigger_state \<Rightarrow> 'd world \<Rightarrow> sched_error + 'd world" where
  "save_state s w = (case upsert_state s (w_db w) of
      Inl e \<Rightarrow> Err (StoreFailed e)
    | Inr db \<Rightarrow> Ok (w\<lparr>w_db := db\<rparr>))"

subsection \<open>Firing\<close>

definition fired :: "trigger \<Rightarrow> trigger_outcome \<Rightarrow> string option \<Rightarrow> string option \<Rightarrow> tick_result" where
  "fired t outcome run_id err =
     \<lparr>tk_trigger_id = tg_id t, tk_outcome = outcome, tk_run_id = run_id, tk_error = err\<rparr>"

text \<open>Dispatch a run and record it, with the outcome \<open>started\<close> when the dispatcher accepts it.\<close>

definition dispatch_and_record ::
  "'d sched_env \<Rightarrow> trigger \<Rightarrow> string \<Rightarrow> variables option \<Rightarrow> trigger_outcome \<Rightarrow> 'd world \<Rightarrow>
   (sched_error + tick_result) \<times> 'd world" where
  "dispatch_and_record E t now_str vars started w =
     (case se_dispatch E (w_disp w) (tg_pipeline_id t) (tg_environment t) vars (tg_id t) of
        (Inr run_id, d) \<Rightarrow>
          (Ok (fired t started (Some run_id) None),
           record_firing E t now_str started (Some run_id) None (w\<lparr>w_disp := d\<rparr>))
      | (Inl e, d) \<Rightarrow>
          (Ok (fired t OutError None (Some e)),
           record_firing E t now_str OutError None (Some e) (w\<lparr>w_disp := d\<rparr>)))"

definition reject_message :: "trigger \<Rightarrow> string" where
  "reject_message t = ''pipeline '' @ [CHR 0x27] @ tg_pipeline_id t @ [CHR 0x27] @
     '' already running in environment '' @ [CHR 0x27] @ tg_environment t @ [CHR 0x27]"

definition apply_run_policy ::
  "'d sched_env \<Rightarrow> trigger \<Rightarrow> string \<Rightarrow> variables option \<Rightarrow> 'd world \<Rightarrow>
   (sched_error + tick_result) \<times> 'd world" where
  "apply_run_policy E t now_str vars w = (case tg_run_policy t of
      PolQueue \<Rightarrow> (case count_pending_runs (w_db w) (tg_id t) of
          Inl e \<Rightarrow> (Err (StoreFailed e), w)
        | Inr queued \<Rightarrow>
            if queued \<ge> tg_max_queue_depth t
            then (Err (QueueFull (tg_id t) (tg_max_queue_depth t)),
                  record_firing E t now_str Skipped None None w)
            else dispatch_and_record E t now_str vars Queued w)
    | PolSkip \<Rightarrow> (Ok (fired t Skipped None None), record_firing E t now_str Skipped None None w)
    | PolReject \<Rightarrow> (Err (RunPolicyRejected (reject_message t)),
        record_firing E t now_str Rejected None (Some (reject_message t)) w))"

definition fire_trigger ::
  "'d sched_env \<Rightarrow> trigger \<Rightarrow> string \<Rightarrow> variables option \<Rightarrow> 'd world \<Rightarrow>
   (sched_error + tick_result) \<times> 'd world" where
  "fire_trigger E t now_str mvars w =
     (let vars = (case mvars of
            Some m \<Rightarrow> Some (merge_variables (tg_overrides t) m)
          | None \<Rightarrow> tg_overrides t)
      in if se_running E (w_disp w) (tg_pipeline_id t) (tg_environment t)
         then apply_run_policy E t now_str vars w
         else dispatch_and_record E t now_str vars RunStarted w)"

subsection \<open>Schedules\<close>

definition cron_parse :: "'d sched_env \<Rightarrow> string \<Rightarrow> string \<Rightarrow> sched_error + unit" where
  "cron_parse E expression timezone =
     (if \<not> se_timezone E timezone then Err (InvalidCron (''invalid timezone: '' @ timezone))
      else (case se_cron_error E expression of
          Some e \<Rightarrow> Err (InvalidCron (expression @ '': '' @ e))
        | None \<Rightarrow> Ok ()))"

text \<open>The pre-computed next fire time of a state, when it can be read.\<close>

definition planned :: "'d sched_env \<Rightarrow> trigger_state option \<Rightarrow> int option" where
  "planned E state = Option.bind (Option.bind state ts_next_fire_at) (se_read_time E)"

definition last_evaluated :: "'d sched_env \<Rightarrow> trigger_state option \<Rightarrow> int option" where
  "last_evaluated E state = Option.bind (Option.bind state ts_last_evaluated_at) (se_read_time E)"

definition should_fire_cron ::
  "'d sched_env \<Rightarrow> string \<Rightarrow> string \<Rightarrow> trigger_state option \<Rightarrow> int \<Rightarrow> (sched_error + bool) option" where
  "should_fire_cron E expression timezone state now =
     (case cron_parse E expression timezone of
        Inl e \<Rightarrow> Some (Err e)
      | Inr _ \<Rightarrow> (case planned E state of
          Some next \<Rightarrow> Some (Ok (now \<ge> next))
        | None \<Rightarrow> (case time_add (se_time_ok E) now (- ns_per_sec) of
            None \<Rightarrow> None
          | Some before \<Rightarrow>
              let reference = (case last_evaluated E state of Some t \<Rightarrow> t | None \<Rightarrow> before)
              in Some (Ok (case se_cron_next E expression timezone reference of
                   Some next \<Rightarrow> now \<ge> next | None \<Rightarrow> False)))))"

definition interval_anchor :: "'d sched_env \<Rightarrow> string option \<Rightarrow> int \<Rightarrow> int" where
  "interval_anchor E start_at now =
     (case Option.bind start_at (se_read_time E) of Some t \<Rightarrow> t | None \<Rightarrow> now)"

definition should_fire_interval ::
  "'d sched_env \<Rightarrow> string \<Rightarrow> string option \<Rightarrow> trigger_state option \<Rightarrow> int \<Rightarrow> (sched_error + bool) option" where
  "should_fire_interval E every start_at state now =
     (case planned E state of
        Some next \<Rightarrow> Some (Ok (now \<ge> next))
      | None \<Rightarrow> (case interval_parse every of
          Inl e \<Rightarrow> Some (Err (InvalidInterval e))
        | Inr iv \<Rightarrow> (case time_add (se_time_ok E) now (- ns_per_sec) of
            None \<Rightarrow> None
          | Some before \<Rightarrow>
              map_option (\<lambda>next. Ok (now \<ge> next))
                (next_slot (se_time_ok E) iv (interval_anchor E start_at now) before))))"

definition compute_next_fire :: "'d sched_env \<Rightarrow> trigger \<Rightarrow> int \<Rightarrow> (sched_error + int option) option" where
  "compute_next_fire E t now = (case tg_kind t of
      Cron expression timezone \<Rightarrow> (case cron_parse E expression timezone of
          Inl e \<Rightarrow> Some (Err e)
        | Inr _ \<Rightarrow> Some (Ok (se_cron_next E expression timezone now)))
    | Every every start_at \<Rightarrow> (case interval_parse every of
          Inl e \<Rightarrow> Some (Err (InvalidInterval e))
        | Inr iv \<Rightarrow> map_option (\<lambda>next. Ok (Some next))
            (next_slot (se_time_ok E) iv (interval_anchor E start_at now) now))
    | FileArrival _ _ _ \<Rightarrow> Some (Ok None)
    | Webhook _ _ _ \<Rightarrow> Some (Ok None)
    | PipelineCompletion _ _ _ \<Rightarrow> Some (Ok None))"

subsection \<open>The file arrival sensor\<close>

text \<open>The set of seen files and its JSON form; reading accepts what the derived \<open>Deserialize\<close> does.\<close>

definition encode_seen :: "string list \<Rightarrow> json" where
  "encode_seen seen = JObject [(''seen_files'', JArray (map JString seen))]"

definition decode_files :: "json \<Rightarrow> string list option" where
  "decode_files v = (case v of
      JArray vs \<Rightarrow> if list_all is_string vs then Some (sort (remdups (concat (map json_strings vs)))) else None
    | _ \<Rightarrow> None)"

definition decode_seen :: "json \<Rightarrow> string list option" where
  "decode_seen v = (case v of
      JObject m \<Rightarrow> Option.bind (map_of m ''seen_files'') decode_files
    | JArray [files] \<Rightarrow> decode_files files
    | _ \<Rightarrow> None)"

definition detect_new_local_files :: "moment \<Rightarrow> string \<Rightarrow> string list \<Rightarrow> string + string list" where
  "detect_new_local_files m pattern seen = (case mo_glob m pattern of
      Inl e \<Rightarrow> Err e
    | Inr entries \<Rightarrow> Ok (filter (\<lambda>f. f \<notin> set seen) (concat (map (\<lambda>e. case e of Some f \<Rightarrow> [f] | None \<Rightarrow> []) entries))))"

definition seen_files :: "trigger_state option \<Rightarrow> string list" where
  "seen_files state = (case Option.bind (Option.bind state ts_sensor_state) decode_seen of
      Some seen \<Rightarrow> seen | None \<Rightarrow> [])"

text \<open>Whether the poll interval has not elapsed yet.\<close>

definition throttled :: "'d sched_env \<Rightarrow> string \<Rightarrow> trigger_state option \<Rightarrow> int \<Rightarrow> (sched_error + bool) option" where
  "throttled E poll_interval state now = (case last_evaluated E state of
      None \<Rightarrow> Some (Ok False)
    | Some t \<Rightarrow> (case interval_parse poll_interval of
          Inl e \<Rightarrow> Some (Err (InvalidInterval e))
        | Inr iv \<Rightarrow> (case to_chrono_duration iv of
            None \<Rightarrow> None
          | Some d \<Rightarrow> map_option (\<lambda>next. Ok (now < next)) (time_add (se_time_ok E) t d))))"

definition file_variables ::
  "'d sched_env \<Rightarrow> trigger \<Rightarrow> string list \<Rightarrow> sched_error + variables option" where
  "file_variables E t files = (case tg_kind t of
      FileArrival _ _ (Some m) \<Rightarrow> (case evaluate_file_arrival (se_paths E) m files of
          Inl e \<Rightarrow> Err (SensorError e)
        | Inr vars \<Rightarrow> Ok (Some vars))
    | _ \<Rightarrow> Ok None)"

type_synonym 'd evaluation = "((sched_error + tick_result option) \<times> 'd world) option"

definition poll_files ::
  "'d sched_env \<Rightarrow> moment \<Rightarrow> trigger \<Rightarrow> string \<Rightarrow> trigger_state option \<Rightarrow> 'd world \<Rightarrow>
   (sched_error + tick_result option) \<times> 'd world" where
  "poll_files E m t path state w =
     (let now_str = se_show_time E (mo_now m); seen = seen_files state
      in case detect_new_local_files m path seen of
           Inl e \<Rightarrow> (Err (SensorError e), w)
         | Inr [] \<Rightarrow>
             (case save_state \<lparr>ts_trigger_id = tg_id t, ts_last_evaluated_at = Some now_str,
                 ts_last_fired_at = Option.bind state ts_last_fired_at, ts_next_fire_at = None,
                 ts_sensor_state = Option.bind state ts_sensor_state, ts_consecutive_errors = 0\<rparr> w of
                Inl e \<Rightarrow> (Err e, w)
              | Inr w' \<Rightarrow> (Ok None, w'))
         | Inr new_files \<Rightarrow>
             (case file_variables E t new_files of
                Inl e \<Rightarrow> (Err e, w)
              | Inr vars \<Rightarrow> (case fire_trigger E t now_str vars w of
                  (Inl e, w1) \<Rightarrow> (Err e, w1)
                | (Inr r, w1) \<Rightarrow>
                    (case save_state \<lparr>ts_trigger_id = tg_id t, ts_last_evaluated_at = Some now_str,
                        ts_last_fired_at = Some now_str, ts_next_fire_at = None,
                        ts_sensor_state = Some (encode_seen (sort (remdups (seen @ new_files)))),
                        ts_consecutive_errors = 0\<rparr> w1 of
                       Inl e \<Rightarrow> (Err e, w1)
                     | Inr w2 \<Rightarrow> (Ok (Some r), w2)))))"

definition evaluate_file_arrival_trigger ::
  "'d sched_env \<Rightarrow> moment \<Rightarrow> trigger \<Rightarrow> string \<Rightarrow> string \<Rightarrow> trigger_state option \<Rightarrow> 'd world \<Rightarrow> 'd evaluation" where
  "evaluate_file_arrival_trigger E m t path poll_interval state w =
     (case throttled E poll_interval state (mo_now m) of
        None \<Rightarrow> None
      | Some (Inl e) \<Rightarrow> Some (Err e, w)
      | Some (Inr True) \<Rightarrow> Some (Ok None, w)
      | Some (Inr False) \<Rightarrow> Some (poll_files E m t path state w))"

subsection \<open>Evaluation and the tick\<close>

text \<open>A cron or interval trigger that is due: fire, then plan the next fire.\<close>

definition fire_due ::
  "'d sched_env \<Rightarrow> moment \<Rightarrow> trigger \<Rightarrow> trigger_state option \<Rightarrow> 'd world \<Rightarrow> 'd evaluation" where
  "fire_due E m t state w =
     (let now_str = se_show_time E (mo_now m)
      in case fire_trigger E t now_str None w of
           (Inl e, w1) \<Rightarrow> Some (Err e, w1)
         | (Inr r, w1) \<Rightarrow> (case compute_next_fire E t (mo_now m) of
             None \<Rightarrow> None
           | Some (Inl e) \<Rightarrow> Some (Err e, w1)
           | Some (Inr next) \<Rightarrow>
               (case save_state \<lparr>ts_trigger_id = tg_id t, ts_last_evaluated_at = Some now_str,
                   ts_last_fired_at = Some now_str, ts_next_fire_at = map_option (se_show_time E) next,
                   ts_sensor_state = Option.bind state ts_sensor_state, ts_consecutive_errors = 0\<rparr> w1 of
                  Inl e \<Rightarrow> Some (Err e, w1)
                | Inr w2 \<Rightarrow> Some (Ok (Some r), w2))))"

definition fire_if_due ::
  "'d sched_env \<Rightarrow> moment \<Rightarrow> trigger \<Rightarrow> trigger_state option \<Rightarrow> (sched_error + bool) option \<Rightarrow>
   'd world \<Rightarrow> 'd evaluation" where
  "fire_if_due E m t state due w = (case due of
      None \<Rightarrow> None
    | Some (Inl e) \<Rightarrow> Some (Err e, w)
    | Some (Inr False) \<Rightarrow> Some (Ok None, w)
    | Some (Inr True) \<Rightarrow> fire_due E m t state w)"

definition touch_state ::
  "'d sched_env \<Rightarrow> moment \<Rightarrow> trigger \<Rightarrow> trigger_state option \<Rightarrow> 'd world \<Rightarrow> 'd evaluation" where
  "touch_state E m t state w =
     (case save_state \<lparr>ts_trigger_id = tg_id t, ts_last_evaluated_at = Some (se_show_time E (mo_now m)),
         ts_last_fired_at = Option.bind state ts_last_fired_at, ts_next_fire_at = None,
         ts_sensor_state = Option.bind state ts_sensor_state,
         ts_consecutive_errors = (case state of None \<Rightarrow> 0 | Some s \<Rightarrow> ts_consecutive_errors s)\<rparr> w of
        Inl e \<Rightarrow> Some (Err e, w)
      | Inr w' \<Rightarrow> Some (Ok None, w'))"

definition evaluate_trigger :: "'d sched_env \<Rightarrow> moment \<Rightarrow> trigger \<Rightarrow> 'd world \<Rightarrow> 'd evaluation" where
  "evaluate_trigger E m t w =
     (let state = get_state (w_db w) (tg_id t)
      in case tg_kind t of
           Cron expression timezone \<Rightarrow>
             fire_if_due E m t state (should_fire_cron E expression timezone state (mo_now m)) w
         | Every every start_at \<Rightarrow>
             fire_if_due E m t state (should_fire_interval E every start_at state (mo_now m)) w
         | FileArrival path poll_interval _ \<Rightarrow>
             evaluate_file_arrival_trigger E m t path poll_interval state w
         | Webhook _ _ _ \<Rightarrow> touch_state E m t state w
         | PipelineCompletion _ _ _ \<Rightarrow> touch_state E m t state w)"

fun tick_loop ::
  "'d sched_env \<Rightarrow> moment \<Rightarrow> trigger list \<Rightarrow> 'd world \<Rightarrow> (tick_result list \<times> 'd world) option" where
  "tick_loop E m [] w = Some ([], w)"
| "tick_loop E m (t # ts) w = (case evaluate_trigger E m t w of
      None \<Rightarrow> None
    | Some (Inr r, w1) \<Rightarrow> (case tick_loop E m ts w1 of
          None \<Rightarrow> None
        | Some (rs, w2) \<Rightarrow> Some (case r of Some x \<Rightarrow> x # rs | None \<Rightarrow> rs, w2))
    | Some (Inl e, w1) \<Rightarrow>
        let msg = sched_error_str E e
        in (case tick_loop E m ts (record_error E t (se_show_time E (mo_now m)) msg w1) of
              None \<Rightarrow> None
            | Some (rs, w2) \<Rightarrow> Some (fired t OutError None (Some msg) # rs, w2)))"

definition tick ::
  "'d sched_env \<Rightarrow> moment \<Rightarrow> 'd world \<Rightarrow> ((sched_error + tick_result list) \<times> 'd world) option" where
  "tick E m w = (case list_enabled_triggers (w_db w) of
      Inl e \<Rightarrow> Some (Err (StoreFailed e), w)
    | Inr ts \<Rightarrow> map_option (\<lambda>(rs, w'). (Ok rs, w')) (tick_loop E m ts w))"

subsection \<open>Firing outside the tick\<close>

definition manual_fire ::
  "'d sched_env \<Rightarrow> moment \<Rightarrow> trigger_id \<Rightarrow> 'd world \<Rightarrow> (sched_error + tick_result) \<times> 'd world" where
  "manual_fire E m i w = (case get_trigger (w_db w) i of
      Inl e \<Rightarrow> (Err (StoreFailed e), w)
    | Inr t \<Rightarrow>
        if \<not> tg_enabled t then (Err (TriggerDisabled i), w)
        else fire_trigger E t (se_show_time E (mo_now m)) None w)"

definition fired_state :: "trigger \<Rightarrow> string \<Rightarrow> trigger_state" where
  "fired_state t now_str = \<lparr>ts_trigger_id = tg_id t, ts_last_evaluated_at = Some now_str,
     ts_last_fired_at = Some now_str, ts_next_fire_at = None, ts_sensor_state = None,
     ts_consecutive_errors = 0\<rparr>"

definition completion_matches :: "trigger \<Rightarrow> string \<Rightarrow> string \<Rightarrow> string \<Rightarrow> bool" where
  "completion_matches t pipeline_name environment status = (case tg_kind t of
      PipelineCompletion upstream env on_status \<Rightarrow>
        upstream = pipeline_name \<and> (case env of None \<Rightarrow> True | Some e \<Rightarrow> e = environment) \<and>
        (case on_status of CsSuccess \<Rightarrow> status = ''success'' | CsFailure \<Rightarrow> status = ''failed'' | CsAny \<Rightarrow> True)
    | _ \<Rightarrow> False)"

fun notify_loop ::
  "'d sched_env \<Rightarrow> string \<Rightarrow> string \<Rightarrow> string \<Rightarrow> string \<Rightarrow> trigger list \<Rightarrow> 'd world \<Rightarrow>
   tick_result list \<times> 'd world" where
  "notify_loop E now_str name env status [] w = ([], w)"
| "notify_loop E now_str name env status (t # ts) w =
     (if \<not> completion_matches t name env status then notify_loop E now_str name env status ts w
      else (case fire_trigger E t now_str None w of
          (Inr r, w1) \<Rightarrow>
            let w2 = w1\<lparr>w_db := (case upsert_state (fired_state t now_str) (w_db w1) of
                  Inl _ \<Rightarrow> w_db w1 | Inr db \<Rightarrow> db)\<rparr>
            in (case notify_loop E now_str name env status ts w2 of (rs, w3) \<Rightarrow> (r # rs, w3))
        | (Inl e, w1) \<Rightarrow>
            notify_loop E now_str name env status ts (record_error E t now_str (sched_error_str E e) w1)))"

definition notify_run_completed ::
  "'d sched_env \<Rightarrow> moment \<Rightarrow> string \<Rightarrow> string \<Rightarrow> string \<Rightarrow> 'd world \<Rightarrow> tick_result list \<times> 'd world" where
  "notify_run_completed E m name env status w = (case list_enabled_triggers (w_db w) of
      Inl _ \<Rightarrow> ([], w)
    | Inr ts \<Rightarrow> notify_loop E (se_show_time E (mo_now m)) name env status ts w)"

definition webhook_variables :: "trigger \<Rightarrow> json \<Rightarrow> sched_error + variables option" where
  "webhook_variables t body = (case tg_kind t of
      Webhook _ _ (Some m) \<Rightarrow> (case evaluate_webhook m body of
          Inl e \<Rightarrow> Err (SensorError e)
        | Inr vars \<Rightarrow> Ok (Some vars))
    | _ \<Rightarrow> Ok None)"

definition record_audit :: "'d sched_env \<Rightarrow> trigger \<Rightarrow> string \<Rightarrow> tick_result \<Rightarrow> json \<Rightarrow> 'd world \<Rightarrow> 'd world" where
  "record_audit E t now_str r body w =
     (let entry = \<lparr>he_id = se_uuid E (w_uuids w), he_trigger_id = tg_id t, he_fired_at = now_str,
            he_outcome = tk_outcome r, he_run_id = tk_run_id r,
            he_details = Some (JObject [(''webhook_body'', body)]), he_error = None\<rparr>
      in w\<lparr>w_db := (case record_history entry (w_db w) of Inl _ \<Rightarrow> w_db w | Inr db \<Rightarrow> db),
           w_uuids := w_uuids w + 1\<rparr>)"

definition fire_webhook ::
  "'d sched_env \<Rightarrow> moment \<Rightarrow> trigger_id \<Rightarrow> json \<Rightarrow> 'd world \<Rightarrow> (sched_error + tick_result) \<times> 'd world" where
  "fire_webhook E m i body w = (case get_trigger (w_db w) i of
      Inl e \<Rightarrow> (Err (StoreFailed e), w)
    | Inr t \<Rightarrow>
        let now_str = se_show_time E (mo_now m)
        in if \<not> tg_enabled t then (Err (TriggerDisabled i), w)
           else if kind_tag (tg_kind t) \<noteq> ''webhook''
           then (Err (SensorError (''trigger '' @ i @ '' is not a webhook trigger'')), w)
           else (case webhook_variables t body of
               Inl e \<Rightarrow> (Err e, w)
             | Inr vars \<Rightarrow> (case fire_trigger E t now_str vars w of
                 (Inl e, w1) \<Rightarrow> (Err e, w1)
               | (Inr r, w1) \<Rightarrow> (case save_state (fired_state t now_str) w1 of
                   Inl e \<Rightarrow> (Err e, w1)
                 | Inr w2 \<Rightarrow> (Ok r, record_audit E t now_str r body w2)))))"

section \<open>What the scheduler does to the store\<close>

text \<open>The writes of the scheduler: states and history rows.\<close>

inductive log_step :: "trigger_db \<Rightarrow> trigger_db \<Rightarrow> bool" where
  log_state: "upsert_state s db = Ok db' \<Longrightarrow> log_step db db'"
| log_history: "record_history h db = Ok db' \<Longrightarrow> log_step db db'"

abbreviation log_steps :: "trigger_db \<Rightarrow> trigger_db \<Rightarrow> bool" where
  "log_steps \<equiv> log_step\<^sup>*\<^sup>*"

definition logs :: "'d world \<Rightarrow> 'd world \<Rightarrow> bool" where
  "logs w w' \<longleftrightarrow> log_steps (w_db w) (w_db w')"

lemma logs_refl [simp, intro]: "logs w w"
  by (simp add: logs_def)

lemma logs_trans [trans]: "logs u v \<Longrightarrow> logs v w \<Longrightarrow> logs u w"
  by (simp add: logs_def)

lemma logs_disp [simp]: "logs (w\<lparr>w_disp := d\<rparr>) w' \<longleftrightarrow> logs w w'"
  by (simp add: logs_def)

lemma log_try:
  "log_steps db (case record_history h db of Inl _ \<Rightarrow> db | Inr db' \<Rightarrow> db')"
  "log_steps db (case upsert_state s db of Inl _ \<Rightarrow> db | Inr db' \<Rightarrow> db')"
  by (auto split: sum.split intro: log_step.intros)

lemma logs_record_firing [simp, intro]: "logs w (record_firing E t now_str out i err w)"
  by (simp add: logs_def record_firing_def Let_def log_try)

lemma logs_record_audit [simp, intro]: "logs w (record_audit E t now_str r body w)"
  by (simp add: logs_def record_audit_def Let_def log_try)

lemma logs_record_error [simp, intro]: "logs w (record_error E t now_str err w)"
proof -
  have "logs (record_firing E t now_str OutError None (Some err) w) (record_error E t now_str err w)"
    by (simp add: logs_def record_error_def Let_def log_try)
  then show ?thesis using logs_record_firing logs_trans by blast
qed

lemma logs_save_state: "save_state s w = Ok w' \<Longrightarrow> logs w w'"
  by (auto simp: logs_def save_state_def split: sum.splits) (rule r_into_rtranclp, erule log_state)

lemma logs_record_firing_disp [simp]: "logs w (record_firing E t now_str out i err (w\<lparr>w_disp := d\<rparr>))"
  by (rule logs_record_firing [of "w\<lparr>w_disp := d\<rparr>", unfolded logs_disp])

lemma logs_dispatch: "dispatch_and_record E t now_str vars out w = (r, w') \<Longrightarrow> logs w w'"
  by (auto simp: dispatch_and_record_def split: prod.splits sum.splits)

lemma logs_policy: "apply_run_policy E t now_str vars w = (r, w') \<Longrightarrow> logs w w'"
  by (auto simp: apply_run_policy_def split: run_policy.splits sum.splits if_splits dest: logs_dispatch)

lemma logs_fire: "fire_trigger E t now_str mvars w = (r, w') \<Longrightarrow> logs w w'"
  by (auto simp: fire_trigger_def Let_def split: if_splits dest: logs_policy logs_dispatch)

lemma logs_poll: "poll_files E m t path state w = (r, w') \<Longrightarrow> logs w w'"
  by (auto simp: poll_files_def Let_def split: sum.splits list.splits prod.splits
      dest!: logs_fire logs_save_state intro: logs_trans)

lemma logs_fire_if_due: "fire_if_due E m t state due w = Some (r, w') \<Longrightarrow> logs w w'"
  by (auto simp: fire_if_due_def fire_due_def Let_def split: option.splits sum.splits bool.splits prod.splits
      dest!: logs_fire logs_save_state intro: logs_trans)

lemma logs_evaluate: "evaluate_trigger E m t w = Some (r, w') \<Longrightarrow> logs w w'"
  by (auto simp: evaluate_trigger_def Let_def evaluate_file_arrival_trigger_def touch_state_def
      split: trigger_kind.splits option.splits sum.splits bool.splits
      dest: logs_fire_if_due logs_poll logs_save_state)

lemma logs_tick_loop: "tick_loop E m ts w = Some (rs, w') \<Longrightarrow> logs w w'"
proof (induction E m ts w arbitrary: rs w' rule: tick_loop.induct)
  case (1 E m w)
  then show ?case by simp
next
  case (2 E m t ts w)
  then obtain r w1 where e: "evaluate_trigger E m t w = Some (r, w1)"
    by (auto split: option.splits)
  note first = logs_evaluate [OF e]
  show ?case
  proof (cases r)
    case (Inl err)
    with 2 e obtain rs' where "tick_loop E m ts (record_error E t (se_show_time E (mo_now m))
        (sched_error_str E err) w1) = Some (rs', w')"
      by (auto simp: Let_def split: option.splits)
    with 2 e Inl have "logs (record_error E t (se_show_time E (mo_now m)) (sched_error_str E err) w1) w'"
      by auto
    with first show ?thesis using logs_record_error logs_trans by blast
  next
    case (Inr x)
    with 2 e obtain rs' where "tick_loop E m ts w1 = Some (rs', w')" by (auto split: option.splits)
    with 2 e Inr have "logs w1 w'" by auto
    with first show ?thesis using logs_trans by blast
  qed
qed

lemma logs_put_state: "logs w (w\<lparr>w_db := (case upsert_state s (w_db w) of Inl _ \<Rightarrow> w_db w | Inr db \<Rightarrow> db)\<rparr>)"
  by (simp add: logs_def log_try)

lemma logs_notify_loop: "notify_loop E now_str name env status ts w = (rs, w') \<Longrightarrow> logs w w'"
proof (induction E now_str name env status ts w arbitrary: rs w' rule: notify_loop.induct)
  case (1 E now_str name env status w)
  then show ?case by simp
next
  case (2 E now_str name env status t ts w)
  show ?case
  proof (cases "completion_matches t name env status")
    case False
    with 2 show ?thesis by simp
  next
    case True
    obtain r w1 where f: "fire_trigger E t now_str None w = (r, w1)" by fastforce
    note first = logs_fire [OF f]
    show ?thesis
    proof (cases r)
      case (Inl e)
      with 2 True f have "logs (record_error E t now_str (sched_error_str E e) w1) w'" by auto
      with first show ?thesis using logs_record_error logs_trans by blast
    next
      case (Inr x)
      let ?w2 = "w1\<lparr>w_db := (case upsert_state (fired_state t now_str) (w_db w1) of
          Inl _ \<Rightarrow> w_db w1 | Inr db \<Rightarrow> db)\<rparr>"
      from 2 True f Inr have "logs ?w2 w'" by (auto simp: Let_def split: prod.splits)
      with first show ?thesis using logs_put_state [of w1] logs_trans by blast
    qed
  qed
qed

text \<open>Everything the server and the loop call, as a step of the scheduler.\<close>

inductive sched_step :: "'d sched_env \<Rightarrow> 'd world \<Rightarrow> 'd world \<Rightarrow> bool" for E where
  sched_tick: "tick E m w = Some (r, w') \<Longrightarrow> sched_step E w w'"
| sched_manual: "manual_fire E m i w = (r, w') \<Longrightarrow> sched_step E w w'"
| sched_notify: "notify_run_completed E m name env status w = (rs, w') \<Longrightarrow> sched_step E w w'"
| sched_webhook: "fire_webhook E m i body w = (r, w') \<Longrightarrow> sched_step E w w'"

inductive_cases sched_stepE: "sched_step E w w'"

lemma logs_step: "sched_step E w w' \<Longrightarrow> logs w w'"
proof (erule sched_stepE)
  fix m r assume "tick E m w = Some (r, w')"
  then show "logs w w'" by (auto simp: tick_def split: sum.splits dest: logs_tick_loop)
next
  fix m i r assume "manual_fire E m i w = (r, w')"
  then show "logs w w'" by (auto simp: manual_fire_def split: sum.splits if_splits dest: logs_fire)
next
  fix m name env status rs assume "notify_run_completed E m name env status w = (rs, w')"
  then show "logs w w'" by (auto simp: notify_run_completed_def split: sum.splits dest: logs_notify_loop)
next
  fix m i body r assume "fire_webhook E m i body w = (r, w')"
  then show "logs w w'"
    by (auto simp: fire_webhook_def Let_def split: sum.splits if_splits prod.splits
        dest!: logs_fire logs_save_state intro: logs_trans logs_record_audit)
qed

lemma logs_steps: "(sched_step E)\<^sup>*\<^sup>* w w' \<Longrightarrow> logs w w'"
  by (induction rule: rtranclp_induct) (auto dest: logs_step intro: logs_trans)

lemma log_step_db_step: "log_step db db' \<Longrightarrow> db_step db db'"
  by (auto elim!: log_step.cases intro: db_step.intros)

text \<open>What logging keeps.\<close>

lemma log_step_grows:
  assumes "log_step db db'"
  shows "db_triggers db' = db_triggers db \<and> length (pending_rows db i) \<le> length (pending_rows db' i)"
  using assms
proof cases
  case (log_state s)
  then show ?thesis using store.put_state_rest by force
next
  case (log_history h)
  then show ?thesis using store.add_entry_rest [OF log_history] store.add_entry_pending [OF log_history, of i] by simp
qed

lemma logs_grow:
  assumes "logs w w'"
  shows "db_triggers (w_db w') = db_triggers (w_db w) \<and>
    length (pending_rows (w_db w) i) \<le> length (pending_rows (w_db w') i)"
  using assms unfolding logs_def
  by (induction rule: rtranclp_induct) (auto dest!: log_step_grows [of _ _ i])

lemma logs_ok: "logs w w' \<Longrightarrow> db_ok (w_db w) \<Longrightarrow> db_ok (w_db w')"
  unfolding logs_def by (induction rule: rtranclp_induct) (auto dest: log_step_db_step db_ok_step)

section \<open>Properties\<close>

text \<open>
  C35: whatever the scheduler does, ticks, manual firings, webhooks and completion events in any
  order, the store keeps its invariant, no trigger is created, changed or lost, and the number of
  rows that count as pending never goes down.
\<close>

theorem scheduler_keeps_store:
  assumes "(sched_step E)\<^sup>*\<^sup>* w w'" "db_ok (w_db w)"
  shows "db_ok (w_db w') \<and> db_triggers (w_db w') = db_triggers (w_db w) \<and>
    length (pending_rows (w_db w) i) \<le> length (pending_rows (w_db w') i)"
  using logs_steps [OF assms(1)] logs_ok [OF _ assms(2)] logs_grow by blast

definition sample_trigger :: "trigger_kind \<Rightarrow> run_policy \<Rightarrow> trigger" where
  "sample_trigger kind policy = \<lparr>tg_id = ''t'', tg_name = ''t'', tg_pipeline_id = ''p'',
     tg_environment = ''dev'', tg_enabled = True, tg_kind = kind, tg_run_policy = policy,
     tg_overrides = None, tg_max_queue_depth = 3, tg_created_at = [], tg_updated_at = []\<rparr>"

definition sample_read :: "string \<Rightarrow> int option" where
  "sample_read s = (if s \<noteq> [] \<and> hd s = CHR ''-'' then map_option (\<lambda>n. - int n) (parse_digits (tl s))
     else map_option int (parse_digits s))"

definition sample_env :: "bool \<Rightarrow> unit sched_env" where
  "sample_env running = \<lparr>se_show_time = show_int, se_read_time = sample_read,
     se_time_ok = (\<lambda>_. True), se_timezone = (\<lambda>_. True), se_cron_error = (\<lambda>_. None),
     se_cron_next = (\<lambda>_ _ t. Some (ns_per_sec * (t div ns_per_sec + 1))), se_uuid = show_nat,
     se_store_msg = (\<lambda>_. []), se_paths = \<lparr>pf_file_name = (\<lambda>_. None), pf_parent = (\<lambda>_. None),
       pf_extension = (\<lambda>_. None)\<rparr>,
     se_running = (\<lambda>_ _ _. running), se_dispatch = (\<lambda>_ _ _ _ _. (Ok ''r'', ()))\<rparr>"

definition sample_entry :: "nat \<Rightarrow> trigger_outcome \<Rightarrow> history_entry" where
  "sample_entry n out = \<lparr>he_id = CHR ''h'' # show_nat n, he_trigger_id = ''t'', he_fired_at = [],
     he_outcome = out, he_run_id = None, he_details = None, he_error = None\<rparr>"

definition fresh_state :: trigger_state where
  "fresh_state = \<lparr>ts_trigger_id = ''t'', ts_last_evaluated_at = None, ts_last_fired_at = None,
     ts_next_fire_at = None, ts_sensor_state = None, ts_consecutive_errors = 0\<rparr>"

definition sample_world :: "trigger_kind \<Rightarrow> run_policy \<Rightarrow> trigger_outcome list \<Rightarrow> unit world" where
  "sample_world kind policy outs = \<lparr>w_db = \<lparr>db_triggers = [sample_trigger kind policy],
     db_states = [fresh_state], db_history = map (\<lambda>(n, out). sample_entry n out) (enumerate 0 outs)\<rparr>,
     w_uuids = 0, w_disp = ()\<rparr>"

lemmas sample_sched_defs = sample_trigger_def sample_env_def sample_entry_def fresh_state_def sample_world_def

theorem scheduler_keeps_store_witness:
  "db_ok (w_db (sample_world (Webhook [] [] None) PolSkip []))"
  using scheduler_keeps_store [of "sample_env False" "sample_world (Webhook [] [] None) PolSkip []"
      "sample_world (Webhook [] [] None) PolSkip []"]
  by (simp add: sample_sched_defs db_ok_def db_ids_def)

text \<open>
  The limit of a queueing trigger is on the runs it has ever started or queued, not on those
  still waiting.  Once that many rows exist, then after any further operations of the scheduler,
  every firing that meets a running pipeline is refused with \<open>QueueFull\<close> and dispatches nothing.
\<close>

theorem queue_full_forever:
  assumes "(sched_step E)\<^sup>*\<^sup>* w w'"
    and "unat (tg_max_queue_depth t) \<le> length (pending_rows (w_db w) (tg_id t))"
    and "length (pending_rows (w_db w') (tg_id t)) < 2 ^ 31"
    and "tg_run_policy t = PolQueue"
    and "se_running E (w_disp w') (tg_pipeline_id t) (tg_environment t)"
  shows "\<exists>w''. fire_trigger E t now_str vars w' = (Err (QueueFull (tg_id t) (tg_max_queue_depth t)), w'') \<and>
    w_disp w'' = w_disp w'"
proof -
  let ?n = "length (pending_rows (w_db w') (tg_id t))"
  have "unat (tg_max_queue_depth t) \<le> ?n"
    using logs_grow [OF logs_steps [OF assms(1)], of "tg_id t"] assms(2) by linarith
  moreover have "unat (of_nat ?n :: u32) = ?n"
    using assms(3) by (simp add: unat_of_nat)
  ultimately have "tg_max_queue_depth t \<le> of_nat ?n"
    by (simp add: word_le_nat_alt)
  then show ?thesis using assms(3-5)
    by (simp add: fire_trigger_def apply_run_policy_def count_pending_runs_def record_firing_def Let_def)
qed

theorem queue_full_forever_witness:
  "fst (fire_trigger (sample_env True) (sample_trigger (Webhook [] [] None) PolQueue) [] None
     (sample_world (Webhook [] [] None) PolQueue [RunStarted, RunStarted, RunStarted])) = Err (QueueFull ''t'' 3)"
  using queue_full_forever [of "sample_env True" "sample_world (Webhook [] [] None) PolQueue [RunStarted, RunStarted, RunStarted]"
      "sample_world (Webhook [] [] None) PolQueue [RunStarted, RunStarted, RunStarted]"
      "sample_trigger (Webhook [] [] None) PolQueue" "[]" None]
  by (auto simp: sample_sched_defs pending_rows_def)

lemma record_history_fresh:
  assumes "he_id h \<notin> he_id ` set (db_history db)" "he_trigger_id h \<in> set (db_ids db)"
  shows "record_history h db = Ok (db\<lparr>db_history := db_history db @ [h]\<rparr>)"
  using assms by (auto simp: record_history_def)

text \<open>The row a firing adds.\<close>

definition firing_row ::
  "'d sched_env \<Rightarrow> nat \<Rightarrow> trigger \<Rightarrow> string \<Rightarrow> trigger_outcome \<Rightarrow> string option \<Rightarrow> string option \<Rightarrow> history_entry" where
  "firing_row E n t now_str outcome run_id err = \<lparr>he_id = se_uuid E n, he_trigger_id = tg_id t,
     he_fired_at = now_str, he_outcome = outcome, he_run_id = run_id, he_details = None, he_error = err\<rparr>"

definition uuids_fresh :: "'d sched_env \<Rightarrow> 'd world \<Rightarrow> bool" where
  "uuids_fresh E w \<longleftrightarrow> inj (se_uuid E) \<and>
     he_id ` set (db_history (w_db w)) \<inter> se_uuid E ` {n. w_uuids w \<le> n} = {}"

lemma uuids_freshD: "uuids_fresh E w \<Longrightarrow> w_uuids w \<le> n \<Longrightarrow> se_uuid E n \<notin> he_id ` set (db_history (w_db w))"
  by (auto simp: uuids_fresh_def)

lemma record_firing_eq:
  assumes "uuids_fresh E w" "tg_id t \<in> set (db_ids (w_db w))"
  shows "record_firing E t now_str out i err w = w\<lparr>w_uuids := w_uuids w + 1,
    w_db := (w_db w)\<lparr>db_history := db_history (w_db w) @ [firing_row E (w_uuids w) t now_str out i err]\<rparr>\<rparr>"
  using assms(2) uuids_freshD [OF assms(1), of "w_uuids w"]
  by (simp add: record_firing_def Let_def record_history_fresh firing_row_def)

lemma record_firing_disp:
  assumes "uuids_fresh E w" "tg_id t \<in> set (db_ids (w_db w))"
  shows "record_firing E t now_str out i err (w\<lparr>w_disp := d\<rparr>) = w\<lparr>w_disp := d, w_uuids := w_uuids w + 1,
    w_db := (w_db w)\<lparr>db_history := db_history (w_db w) @ [firing_row E (w_uuids w) t now_str out i err]\<rparr>\<rparr>"
proof -
  have "uuids_fresh E (w\<lparr>w_disp := d\<rparr>)" using assms(1) by (simp add: uuids_fresh_def)
  from record_firing_eq [OF this] assms(2) show ?thesis by simp
qed

lemma uuids_fresh_record:
  assumes "uuids_fresh E w" "tg_id t \<in> set (db_ids (w_db w))"
  shows "uuids_fresh E (record_firing E t now_str out i err w)"
proof -
  have inj: "inj (se_uuid E)" using assms(1) by (simp add: uuids_fresh_def)
  have "se_uuid E (w_uuids w) \<noteq> se_uuid E n" if "w_uuids w + 1 \<le> n" for n
    using that inj_eq [OF inj] by auto
  then show ?thesis using assms(1)
    by (auto simp: record_firing_eq [OF assms] uuids_fresh_def firing_row_def)
qed

text \<open>What one firing decides.\<close>

datatype decision = Dispatch trigger_outcome | Refuse trigger_outcome sched_error | Leave

definition decide :: "'d sched_env \<Rightarrow> trigger \<Rightarrow> 'd world \<Rightarrow> decision" where
  "decide E t w =
     (if \<not> se_running E (w_disp w) (tg_pipeline_id t) (tg_environment t) then Dispatch RunStarted
      else (case tg_run_policy t of
          PolQueue \<Rightarrow>
            if unat (tg_max_queue_depth t) \<le> length (pending_rows (w_db w) (tg_id t))
            then Refuse Skipped (QueueFull (tg_id t) (tg_max_queue_depth t))
            else Dispatch Queued
        | PolSkip \<Rightarrow> Leave
        | PolReject \<Rightarrow> Refuse Rejected (RunPolicyRejected (reject_message t))))"

definition firing_vars :: "trigger \<Rightarrow> variables option \<Rightarrow> variables option" where
  "firing_vars t vars = (case vars of None \<Rightarrow> tg_overrides t | Some m \<Rightarrow> Some (merge_variables (tg_overrides t) m))"

lemma queued_bound:
  assumes "length (pending_rows db i) < 2 ^ 31"
  shows "count_pending_runs db i = Ok (of_nat (length (pending_rows db i)))"
    "(of_nat (length (pending_rows db i)) \<ge> (d :: u32)) \<longleftrightarrow> unat d \<le> length (pending_rows db i)"
  using assms by (simp_all add: count_pending_runs_def word_le_nat_alt unat_of_nat)

lemma fire_trigger_outcome:
  assumes "length (pending_rows (w_db w) (tg_id t)) < 2 ^ 31"
  shows "fire_trigger E t now_str vars w = (case decide E t w of
      Dispatch out \<Rightarrow>
        (case se_dispatch E (w_disp w) (tg_pipeline_id t) (tg_environment t) (firing_vars t vars) (tg_id t) of
          (Inr i, d) \<Rightarrow> (Ok (fired t out (Some i) None), record_firing E t now_str out (Some i) None (w\<lparr>w_disp := d\<rparr>))
        | (Inl e, d) \<Rightarrow> (Ok (fired t OutError None (Some e)),
            record_firing E t now_str OutError None (Some e) (w\<lparr>w_disp := d\<rparr>)))
    | Refuse out err \<Rightarrow> (Err err,
        record_firing E t now_str out None (if out = Rejected then Some (reject_message t) else None) w)
    | Leave \<Rightarrow> (Ok (fired t Skipped None None), record_firing E t now_str Skipped None None w))"
proof -
  have vars: "(case vars of None \<Rightarrow> tg_overrides t | Some m \<Rightarrow> Some (merge_variables (tg_overrides t) m)) = firing_vars t vars"
    by (simp add: firing_vars_def)
  show ?thesis
    by (simp add: fire_trigger_def Let_def vars decide_def apply_run_policy_def dispatch_and_record_def
        queued_bound [OF assms] split: run_policy.splits prod.splits sum.splits)
qed

text \<open>
  C14: a firing dispatches a run at once when the pipeline is not running; otherwise the policy
  decides: queue while the limit is not reached, skip, or refuse with an error.  Only a dispatch
  calls the dispatcher, with the overrides below the mapped variables, and every case adds
  one history row.
\<close>

theorem fire_trigger_correct:
  assumes "uuids_fresh E w" "tg_id t \<in> set (db_ids (w_db w))"
    "length (pending_rows (w_db w) (tg_id t)) < 2 ^ 31"
  shows "fire_trigger E t now_str vars w = (case decide E t w of
      Dispatch out \<Rightarrow>
        (case se_dispatch E (w_disp w) (tg_pipeline_id t) (tg_environment t) (firing_vars t vars) (tg_id t) of
          (Inr i, d) \<Rightarrow> (Ok (fired t out (Some i) None), w\<lparr>w_disp := d, w_uuids := w_uuids w + 1,
            w_db := (w_db w)\<lparr>db_history := db_history (w_db w) @ [firing_row E (w_uuids w) t now_str out (Some i) None]\<rparr>\<rparr>)
        | (Inl e, d) \<Rightarrow> (Ok (fired t OutError None (Some e)), w\<lparr>w_disp := d, w_uuids := w_uuids w + 1,
            w_db := (w_db w)\<lparr>db_history := db_history (w_db w) @ [firing_row E (w_uuids w) t now_str OutError None (Some e)]\<rparr>\<rparr>))
    | Refuse out err \<Rightarrow> (Err err, w\<lparr>w_uuids := w_uuids w + 1,
            w_db := (w_db w)\<lparr>db_history := db_history (w_db w) @
              [firing_row E (w_uuids w) t now_str out None (if out = Rejected then Some (reject_message t) else None)]\<rparr>\<rparr>)
    | Leave \<Rightarrow> (Ok (fired t Skipped None None), w\<lparr>w_uuids := w_uuids w + 1,
            w_db := (w_db w)\<lparr>db_history := db_history (w_db w) @ [firing_row E (w_uuids w) t now_str Skipped None None]\<rparr>\<rparr>))"
  unfolding fire_trigger_outcome [OF assms(3)] record_firing_disp [OF assms(1,2)] record_firing_eq [OF assms(1,2)] ..

lemma show_nat_inj [simp]: "show_nat m = show_nat n \<longleftrightarrow> m = n"
  using digits_val_show_nat by (metis option.inject)

lemma sample_fresh: "uuids_fresh (sample_env running) (sample_world kind policy outs)"
proof -
  have "show_nat m \<noteq> CHR ''h'' # s" for m s
    using show_nat_digits [of "CHR ''h''" m] by (auto simp: is_digit_def)
  note ne = this this [symmetric]
  show ?thesis by (auto simp: ne uuids_fresh_def sample_sched_defs inj_def)
qed

theorem fire_trigger_correct_witness:
  "fst (fire_trigger (sample_env True) (sample_trigger (Webhook [] [] None) PolSkip) [] None
     (sample_world (Webhook [] [] None) PolSkip [])) = Ok (fired (sample_trigger (Webhook [] [] None) PolSkip) Skipped None None)"
  using fire_trigger_correct [OF sample_fresh, of "sample_trigger (Webhook [] [] None) PolSkip"
      "Webhook [] [] None" PolSkip "[]" True "[]" None]
  by (simp add: sample_sched_defs db_ids_def pending_rows_def decide_def)

lemma pending_append:
  "db_history db' = db_history db @ hs \<Longrightarrow>
   pending_rows db' i = pending_rows db i @
     filter (\<lambda>h. he_trigger_id h = i \<and> he_outcome h \<in> {RunStarted, Queued}) hs"
  by (simp add: pending_rows_def)

lemma save_state_known:
  assumes "ts_trigger_id s \<in> set (db_ids (w_db w))"
  obtains w' where "save_state s w = Ok w'" "w_disp w' = w_disp w" "w_uuids w' = w_uuids w"
    "db_history (w_db w') = db_history (w_db w)" "db_triggers (w_db w') = db_triggers (w_db w)"
    "\<And>i. get_state (w_db w') i = (if i = ts_trigger_id s then Some s else get_state (w_db w) i)"
proof -
  obtain db where db: "upsert_state s (w_db w) = Ok db"
    using store.put_state_known [of s "w_db w"] assms by (auto simp: db_ids_def)
  show ?thesis
    using that [of "w\<lparr>w_db := db\<rparr>"] upsert_state_Ok [OF db] upsert_state_get [OF db]
    by (simp add: save_state_def db)
qed

text \<open>
  A webhook firing that starts or queues a run adds two rows that count as pending, the
  firing's own and the audit row, so it uses up two places of the trigger's limit.
\<close>

theorem webhook_counts_twice:
  assumes "uuids_fresh E w" "get_trigger (w_db w) i = Ok t" "length (pending_rows (w_db w) i) < 2 ^ 31"
    and "fire_webhook E m i body w = (Ok r, w')" "tk_outcome r = RunStarted \<or> tk_outcome r = Queued"
  shows "length (pending_rows (w_db w') i) = length (pending_rows (w_db w) i) + 2"
proof -
  from assms(2) have t: "tg_id t = i" "tg_id t \<in> set (db_ids (w_db w))"
    by (auto simp: get_trigger_def row_to_trigger_def db_ids_def find_Some_iff split: option.splits if_splits)
  from assms(4) obtain vars w1 w2 where
    f: "fire_trigger E t (se_show_time E (mo_now m)) vars w = (Ok r, w1)" and
    s: "save_state (fired_state t (se_show_time E (mo_now m))) w1 = Ok w2" and
    w': "w' = record_audit E t (se_show_time E (mo_now m)) r body w2"
    using assms(2) by (auto simp: fire_webhook_def Let_def split: if_splits sum.splits prod.splits)
  have len: "length (pending_rows (w_db w) (tg_id t)) < 2 ^ 31" using assms(3) t by simp
  obtain row where w1: "db_history (w_db w1) = db_history (w_db w) @ [row]" "w_uuids w1 = w_uuids w + 1"
      "db_triggers (w_db w1) = db_triggers (w_db w)"
    and row: "he_trigger_id row = i" "he_outcome row = tk_outcome r" "he_id row = se_uuid E (w_uuids w)"
    using f assms(5) t(1) unfolding fire_trigger_outcome [OF len]
    by (auto simp: fired_def firing_row_def record_firing_disp [OF assms(1) t(2)] split: decision.splits prod.splits sum.splits)
  from s obtain db where "upsert_state (fired_state t (se_show_time E (mo_now m))) (w_db w1) = Ok db"
    and "w2 = w1\<lparr>w_db := db\<rparr>" by (auto simp: save_state_def split: sum.splits)
  with upsert_state_Ok w1 have w2: "db_history (w_db w2) = db_history (w_db w) @ [row]" "w_uuids w2 = w_uuids w + 1"
    "db_ids (w_db w2) = db_ids (w_db w)" by (auto simp: db_ids_def)
  have "se_uuid E (w_uuids w + 1) \<notin> he_id ` set (db_history (w_db w2))"
    using uuids_freshD [OF assms(1), of "w_uuids w + 1"] assms(1)
    by (auto simp: w2 row uuids_fresh_def dest: injD)
  then have "db_history (w_db w') = (db_history (w_db w) @ [row]) @ [\<lparr>he_id = se_uuid E (w_uuids w + 1),
      he_trigger_id = tg_id t, he_fired_at = se_show_time E (mo_now m), he_outcome = tk_outcome r,
      he_run_id = tk_run_id r, he_details = Some (JObject [(''webhook_body'', body)]), he_error = None\<rparr>]"
    using t(2) by (simp add: w' record_audit_def Let_def w2 record_history_fresh)
  then show ?thesis using assms(5) row t by (auto simp: pending_rows_def)
qed

theorem webhook_counts_twice_witness:
  "length (pending_rows (w_db (snd (fire_webhook (sample_env False) \<lparr>mo_now = 0, mo_glob = (\<lambda>_. Ok [])\<rparr> ''t'' JNull
     (sample_world (Webhook [] [] None) PolQueue [])))) ''t'') = 2"
proof -
  let ?E = "sample_env False" and ?w = "sample_world (Webhook [] [] None) PolQueue []"
  let ?m = "\<lparr>mo_now = 0, mo_glob = (\<lambda>_. Ok [])\<rparr>" and ?t = "sample_trigger (Webhook [] [] None) PolQueue"
  have t: "get_trigger (w_db ?w) ''t'' = Ok ?t"
    by (simp add: sample_sched_defs get_trigger_def row_to_trigger_def)
  have f: "fire_webhook ?E ?m ''t'' JNull ?w =
      (Ok (fired ?t RunStarted (Some ''r'') None), snd (fire_webhook ?E ?m ''t'' JNull ?w))"
    by (simp add: fire_webhook_def get_trigger_def row_to_trigger_def Let_def webhook_variables_def fire_trigger_def dispatch_and_record_def
        save_state_def upsert_state_def record_firing_def record_history_def db_ids_def fired_state_def
        sample_sched_defs)
  show ?thesis
    using webhook_counts_twice [OF sample_fresh t _ f] by (simp add: sample_sched_defs pending_rows_def fired_def)
qed

end
