(* ===== verification/Schedule_Times.thy ===== *)
theory Schedule_Times
  imports Scheduler
begin

text \<open>
  When timed triggers fire.  A cron expression and an interval both give a set of times and the
  first of them after a given time; \<open>slots\<close> is that interface.
\<close>

subsection \<open>The interface\<close>

locale slots =
  fixes nxt :: "'c \<Rightarrow> int \<Rightarrow> int option" and times :: "'c \<Rightarrow> int set" and ok :: "'c \<Rightarrow> int \<Rightarrow> bool"
  assumes nxt_Some: "ok c a \<Longrightarrow> nxt c a = Some n \<Longrightarrow>
      n \<in> times c \<and> a < n \<and> (\<forall>s \<in> times c. a < s \<longrightarrow> n \<le> s)"
    and nxt_None: "ok c a \<Longrightarrow> nxt c a = None \<Longrightarrow> \<forall>s \<in> times c. s \<le> a"
begin

lemma due_iff:
  assumes "ok c a"
  shows "(case nxt c a of Some n \<Rightarrow> n \<le> b | None \<Rightarrow> False) \<longleftrightarrow> (\<exists>s \<in> times c. a < s \<and> s \<le> b)"
proof (cases "nxt c a")
  case None
  then show ?thesis using nxt_None [OF assms] by force
next
  case (Some n)
  then show ?thesis using nxt_Some [OF assms] by force
qed

lemma nxt_eq:
  assumes "ok c a" "nxt c a = Some n"
  shows "n \<le> b \<longleftrightarrow> (\<exists>s \<in> times c. a < s \<and> s \<le> b)"
  using due_iff [OF assms(1), of b] assms(2) by simp

end

subsection \<open>Intervals\<close>

type_synonym interval_spec = "(int \<Rightarrow> bool) \<times> iso_interval \<times> int"

fun interval_next :: "interval_spec \<Rightarrow> int \<Rightarrow> int option" where
  "interval_next (dt_ok, iv, start) after = next_slot dt_ok iv start after"

fun interval_times :: "interval_spec \<Rightarrow> int set" where
  "interval_times (dt_ok, iv, start) = {start + k * (interval_total iv * ns_per_sec) |k. 0 \<le> k}"

text \<open>Nothing overflows: the hypotheses of \<open>next_slot_eq\<close>.\<close>

fun interval_in_range :: "interval_spec \<Rightarrow> int \<Rightarrow> bool" where
  "interval_in_range (dt_ok, iv, start) after \<longleftrightarrow>
     (\<exists>I. to_chrono_duration iv = Some I \<and> 0 < I \<and> (after - start) div I < 2 ^ 31 - 1 \<and>
        (\<forall>t. start \<le> t \<longrightarrow> t \<le> max start (after + I) \<longrightarrow> dt_ok t) \<and> delta_ok (after - start + I))"

lemma next_slot_least:
  assumes "interval_in_range (dt_ok, iv, start) after"
  shows "\<exists>k \<ge> 0. next_slot dt_ok iv start after = Some (start + k * (interval_total iv * ns_per_sec)) \<and>
    after < start + k * (interval_total iv * ns_per_sec) \<and>
    (\<forall>j \<ge> 0. after < start + j * (interval_total iv * ns_per_sec) \<longrightarrow> k \<le> j)"
proof -
  from assms obtain I where I: "to_chrono_duration iv = Some I" "0 < I" "(after - start) div I < 2 ^ 31 - 1"
    "\<And>t. start \<le> t \<Longrightarrow> t \<le> max start (after + I) \<Longrightarrow> dt_ok t" "delta_ok (after - start + I)" by auto
  from next_slot_first [OF this] to_chrono_total [OF I(1)] show ?thesis by simp
qed

interpretation interval: slots interval_next interval_times interval_in_range
proof (unfold_locales, goal_cases)
  case (1 c a n)
  obtain dt_ok iv start where c: "c = (dt_ok, iv, start)" by (cases c) auto
  let ?I = "interval_total iv * ns_per_sec"
  from 1(1) have pos: "0 < ?I" using to_chrono_total unfolding c by auto
  from next_slot_least [of dt_ok iv start a] 1 obtain k where k: "0 \<le> k" "n = start + k * ?I" "a < n"
    and least: "\<And>j. 0 \<le> j \<Longrightarrow> a < start + j * ?I \<Longrightarrow> k \<le> j" unfolding c by auto
  have "n \<le> start + j * ?I" if "0 \<le> j" "a < start + j * ?I" for j
    using mult_right_mono [OF least [OF that], of ?I] pos k(2) by simp
  then show ?case using k unfolding c by auto
next
  case (2 c a)
  obtain dt_ok iv start where c: "c = (dt_ok, iv, start)" by (cases c) auto
  from next_slot_least [of dt_ok iv start a] 2 show ?case unfolding c by auto
qed

subsection \<open>Cron expressions\<close>

type_synonym 'd cron_spec = "'d sched_env \<times> string \<times> string"

fun cron_next :: "'d cron_spec \<Rightarrow> int \<Rightarrow> int option" where
  "cron_next (E, expression, timezone) = se_cron_next E expression timezone"

fun cron_times :: "'d cron_spec \<Rightarrow> int set" where
  "cron_times (E, expression, timezone) = {n. \<exists>a. se_cron_next E expression timezone a = Some n}"

text \<open>What the documentation of the cron library promises: the next occurrence strictly after.\<close>

definition next_occurrence :: "(int \<Rightarrow> int option) \<Rightarrow> bool" where
  "next_occurrence f \<longleftrightarrow> (\<forall>a n. f a = Some n \<longrightarrow> a < n \<and> (\<forall>b. a \<le> b \<and> b < n \<longrightarrow> f b = Some n)) \<and>
     (\<forall>a. f a = None \<longrightarrow> (\<forall>b \<ge> a. f b = None))"

fun cron_ok :: "'d cron_spec \<Rightarrow> int \<Rightarrow> bool" where
  "cron_ok (E, expression, timezone) a \<longleftrightarrow> next_occurrence (se_cron_next E expression timezone)"

interpretation cron: slots cron_next cron_times cron_ok
proof (unfold_locales, goal_cases)
  case (1 c a n)
  obtain E e z where c: "c = (E, e, z)" by (cases c) auto
  let ?f = "se_cron_next E e z"
  from 1 have f: "next_occurrence ?f" "?f a = Some n" by (simp_all add: c)
  have later: "x < m" "x \<le> y \<Longrightarrow> y < m \<Longrightarrow> ?f y = Some m" if "?f x = Some m" for x y m
    using f(1) that unfolding next_occurrence_def by blast+
  have least: "n \<le> s" if s: "?f b = Some s" "a < s" for b s
  proof (rule ccontr)
    assume ns: "\<not> n \<le> s"
    show False
    proof (cases "b \<le> a")
      case True
      from later(2) [OF s(1) this s(2)] f(2) ns show False by simp
    next
      case False
      then have "a \<le> b" and "b < n" using later(1) [OF s(1)] ns by simp_all
      from later(2) [OF f(2) this] s(1) ns show False by simp
    qed
  qed
  moreover have "a < n" by (rule later(1) [OF f(2)])
  moreover have "n \<in> cron_times c" using f(2) by (auto simp only: c cron_times.simps)
  moreover have "\<exists>b. ?f b = Some s" if "s \<in> cron_times c" for s
    using that by (simp only: c cron_times.simps mem_Collect_eq)
  ultimately show ?case by blast
next
  case (2 c a)
  obtain E e z where c: "c = (E, e, z)" by (cases c) auto
  let ?f = "se_cron_next E e z"
  from 2 have f: "next_occurrence ?f" "?f a = None" by (simp_all add: c)
  have "s \<le> a" if s: "?f b = Some s" for b s
  proof (rule ccontr)
    assume n: "\<not> s \<le> a"
    have none: "?f y = None" if "a \<le> y" for y using f that unfolding next_occurrence_def by blast
    have le: "b \<le> a" using none [of b] s by (cases "a \<le> b") simp_all
    moreover have "a < s" using n by simp
    ultimately have "?f a = Some s" using f(1) s unfolding next_occurrence_def by blast
    with f(2) show False by simp
  qed
  moreover have "\<exists>b. ?f b = Some s" if "s \<in> cron_times c" for s
    using that by (simp only: c cron_times.simps mem_Collect_eq)
  ultimately show ?case by blast
qed

subsection \<open>Timed triggers\<close>

text \<open>The times of a cron trigger, and of an interval trigger with a start it can read.\<close>

definition times_of :: "'d sched_env \<Rightarrow> trigger \<Rightarrow> int set" where
  "times_of E t = (case tg_kind t of
      Cron expression timezone \<Rightarrow> cron_times (E, expression, timezone)
    | Every every (Some s) \<Rightarrow> (case (interval_parse every, se_read_time E s) of
          (Inr iv, Some start) \<Rightarrow> interval_times (se_time_ok E, iv, start) | _ \<Rightarrow> {})
    | _ \<Rightarrow> {})"

text \<open>The trigger can be evaluated after the time \<open>a\<close>: its schedule is valid and nothing overflows.\<close>

definition timed_ok :: "'d sched_env \<Rightarrow> trigger \<Rightarrow> int \<Rightarrow> bool" where
  "timed_ok E t a = (case tg_kind t of
      Cron expression timezone \<Rightarrow>
        cron_parse E expression timezone = Ok () \<and> cron_ok (E, expression, timezone) a
    | Every every (Some s) \<Rightarrow> (case (interval_parse every, se_read_time E s) of
          (Inr iv, Some start) \<Rightarrow> interval_in_range (se_time_ok E, iv, start) a | _ \<Rightarrow> False)
    | _ \<Rightarrow> False)"

lemma timed_cases:
  assumes "timed_ok E t a"
  obtains (cron) expression timezone where "tg_kind t = Cron expression timezone"
      "cron_parse E expression timezone = Ok ()" "cron_ok (E, expression, timezone) a"
      "times_of E t = cron_times (E, expression, timezone)"
    | (every) every s iv start where "tg_kind t = Every every (Some s)" "interval_parse every = Ok iv"
      "se_read_time E s = Some start" "interval_in_range (se_time_ok E, iv, start) a"
      "times_of E t = interval_times (se_time_ok E, iv, start)"
  using assms unfolding timed_ok_def times_of_def
  by (auto split: trigger_kind.splits option.splits sum.splits prod.splits)

text \<open>A state in which nothing was planned; a cron trigger was not evaluated either.\<close>

definition unplanned :: "'d sched_env \<Rightarrow> trigger \<Rightarrow> trigger_state option \<Rightarrow> bool" where
  "unplanned E t state \<longleftrightarrow> planned E state = None \<and>
     (case tg_kind t of Cron _ _ \<Rightarrow> last_evaluated E state = None | _ \<Rightarrow> True)"

definition evaluate_due ::
  "'d sched_env \<Rightarrow> moment \<Rightarrow> trigger \<Rightarrow> 'd world \<Rightarrow> bool \<Rightarrow> 'd evaluation" where
  "evaluate_due E m t w due =
     (if due then fire_due E m t (get_state (w_db w) (tg_id t)) w else Some (Ok None, w))"

lemma fire_if_due_Ok: "fire_if_due E m t state (Some (Ok due)) w =
    (if due then fire_due E m t state w else Some (Ok None, w))"
  by (simp add: fire_if_due_def)

lemma interval_nxt_total:
  assumes "interval_in_range (dt_ok, iv, start) a"
  obtains n where "next_slot dt_ok iv start a = Some n"
    "\<And>b. n \<le> b \<longleftrightarrow> (\<exists>s \<in> interval_times (dt_ok, iv, start). a < s \<and> s \<le> b)"
proof -
  from next_slot_least [OF assms] obtain n where n: "next_slot dt_ok iv start a = Some n" by blast
  have "n \<le> b \<longleftrightarrow> (\<exists>s \<in> interval_times (dt_ok, iv, start). a < s \<and> s \<le> b)" for b
    using interval.nxt_eq [of "(dt_ok, iv, start)" a n b] assms n by (simp only: interval_next.simps)
  with n show thesis by (rule that)
qed

text \<open>A trigger that has never fired is due when one of its times lies in the second before the tick.\<close>

lemma unplanned_evaluate:
  assumes "timed_ok E t (mo_now m - ns_per_sec)" "se_time_ok E (mo_now m - ns_per_sec)"
    "unplanned E t (get_state (w_db w) (tg_id t))"
  shows "evaluate_trigger E m t w =
    evaluate_due E m t w (\<exists>s \<in> times_of E t. mo_now m - ns_per_sec < s \<and> s \<le> mo_now m)"
  using assms(1)
proof (cases rule: timed_cases)
  case (cron e z)
  let ?st = "get_state (w_db w) (tg_id t)"
  have "should_fire_cron E e z ?st (mo_now m) =
      Some (Ok (\<exists>s \<in> times_of E t. mo_now m - ns_per_sec < s \<and> s \<le> mo_now m))"
  proof -
    have "should_fire_cron E e z ?st (mo_now m) =
        Some (Ok (case cron_next (E, e, z) (mo_now m - ns_per_sec) of Some n \<Rightarrow> n \<le> mo_now m | None \<Rightarrow> False))"
      using assms(2,3) cron(1,2) by (simp add: should_fire_cron_def unplanned_def time_add_def Let_def)
    then show ?thesis unfolding cron(4) cron.due_iff [OF cron(3)] .
  qed
  then show ?thesis using cron(1)
    by (simp add: evaluate_trigger_def Let_def evaluate_due_def fire_if_due_Ok)
next
  case (every e s iv start)
  let ?st = "get_state (w_db w) (tg_id t)"
  obtain n where n: "next_slot (se_time_ok E) iv start (mo_now m - ns_per_sec) = Some n"
    and due: "n \<le> mo_now m \<longleftrightarrow> (\<exists>s \<in> times_of E t. mo_now m - ns_per_sec < s \<and> s \<le> mo_now m)"
    by (rule interval_nxt_total [OF every(4), folded every(5)]) (erule meta_allE, rule that)
  have "should_fire_interval E e (Some s) ?st (mo_now m) = Some (Ok (n \<le> mo_now m))"
    using assms(2,3) every(1-3) n
    by (simp add: should_fire_interval_def unplanned_def time_add_def interval_anchor_def)
  then show ?thesis using every(1)
    by (simp add: evaluate_trigger_def Let_def evaluate_due_def fire_if_due_Ok due [symmetric])
qed

text \<open>The loop the server runs: results and errors of a tick are only logged.\<close>

fun run_scheduler_loop :: "'d sched_env \<Rightarrow> moment list \<Rightarrow> 'd world \<Rightarrow> 'd world option" where
  "run_scheduler_loop E [] w = Some w"
| "run_scheduler_loop E (m # ms) w = (case tick E m w of
      None \<Rightarrow> None
    | Some (r, w') \<Rightarrow> run_scheduler_loop E ms w')"

text \<open>A tick at which nothing is due.\<close>

definition quiet :: "'d sched_env \<Rightarrow> 'd world \<Rightarrow> trigger \<Rightarrow> moment \<Rightarrow> bool" where
  "quiet E w t m \<longleftrightarrow> timed_ok E t (mo_now m - ns_per_sec) \<and> se_time_ok E (mo_now m - ns_per_sec) \<and>
     unplanned E t (get_state (w_db w) (tg_id t)) \<and>
     \<not> (\<exists>s \<in> times_of E t. mo_now m - ns_per_sec < s \<and> s \<le> mo_now m)"

lemma quiet_evaluate: "quiet E w t m \<Longrightarrow> evaluate_trigger E m t w = Some (Ok None, w)"
  using unplanned_evaluate [of E t m w] unfolding quiet_def evaluate_due_def by presburger

lemma quiet_tick_loop: "(\<And>t. t \<in> set ts \<Longrightarrow> quiet E w t m) \<Longrightarrow> tick_loop E m ts w = Some ([], w)"
  by (induction ts) (simp_all add: quiet_evaluate)

text \<open>
  The loop waits fifteen seconds between ticks, and a trigger that has never fired is not
  planned by a tick.  If every tick falls more than a second after the times of such triggers, then
  however many times go by, none of them ever fires and the store never changes.
\<close>

theorem missed_forever:
  assumes "list_enabled_triggers (w_db w) = Ok ts" "\<forall>t \<in> set ts. \<forall>m \<in> set ms. quiet E w t m"
  shows "run_scheduler_loop E ms w = Some w"
  using assms(2)
proof (induction ms)
  case (Cons m ms)
  then have "tick_loop E m ts w = Some ([], w)" by (intro quiet_tick_loop) simp
  then show ?case using Cons assms(1) by (simp add: tick_def)
qed simp

lemma minute_parse: "interval_parse ''PT1M'' = Ok \<lparr>iv_days = 0, iv_hours = 0, iv_minutes = 1, iv_seconds = 0\<rparr>"
proof -
  have "trim ''PT1M'' = ''PT1M''" by (rule trim_ascii) (simp add: is_graph_def)
  then show ?thesis
    by (simp add: interval_parse_def interval_date_def interval_time_def interval_part_def
        parse_i64_def parse_digits_def is_digit_def digit_val_def i64_min_def i64_max_def)
qed

lemma minute_duration:
  "to_chrono_duration \<lparr>iv_days = 0, iv_hours = 0, iv_minutes = 1, iv_seconds = 0\<rparr> = Some (60 * ns_per_sec)"
  by (simp add: to_chrono_duration_def delta_seconds_def duration_seconds_def delta_add_def
      delta_checked_def delta_ok_def i64_max_def ns_per_sec_def ns_per_ms_def)

lemma sample_read_zero: "se_read_time (sample_env b) ''0'' = Some 0"
  by (simp add: sample_env_def sample_read_def parse_digits_def is_digit_def digit_val_def)

text \<open>A trigger every minute from the epoch, and the times after which it is in range.\<close>

lemma minute_in_range:
  assumes "0 \<le> a" "a < 10 ^ 12"
  shows "timed_ok (sample_env b) (sample_trigger (Every ''PT1M'' (Some ''0'')) policy) a"
proof -
  have "a div (60 * ns_per_sec) \<le> 10 ^ 12 div (60 * ns_per_sec)"
    using assms by (intro zdiv_mono1) (simp_all add: ns_per_sec_def)
  then have "interval_in_range (se_time_ok (sample_env b),
      \<lparr>iv_days = 0, iv_hours = 0, iv_minutes = 1, iv_seconds = 0\<rparr>, 0) a"
    using assms minute_duration by (auto simp: sample_env_def delta_ok_def i64_max_def ns_per_sec_def ns_per_ms_def)
  then show ?thesis
    by (simp add: timed_ok_def sample_trigger_def minute_parse sample_read_zero del: interval_in_range.simps)
qed

lemma minute_times:
  "times_of (sample_env b) (sample_trigger (Every ''PT1M'' (Some ''0'')) policy) = {k * (60 * ns_per_sec) |k. 0 \<le> k}"
  by (simp add: times_of_def sample_trigger_def minute_parse sample_read_zero interval_total_def)

lemma sample_unplanned:
  "unplanned (sample_env b) (sample_trigger kind policy)
     (get_state (w_db (sample_world kind policy outs)) (tg_id (sample_trigger kind policy)))"
  by (simp add: unplanned_def planned_def last_evaluated_def sample_world_def sample_trigger_def
      get_state_def fresh_state_def split: trigger_kind.split)

lemma sample_enabled:
  "list_enabled_triggers (w_db (sample_world kind policy outs)) = Ok [sample_trigger kind policy]"
  by (simp add: list_enabled_triggers_def row_to_trigger_def sample_world_def sample_trigger_def)

text \<open>The moment \<open>n\<close> seconds after the epoch, with no files.\<close>

definition at_second :: "int \<Rightarrow> moment" where
  "at_second n = \<lparr>mo_now = n * ns_per_sec, mo_glob = (\<lambda>_. Ok [])\<rparr>"

lemma minute_quiet:
  assumes "0 < n" "n < 1000" "0 < n mod 60"
  shows "quiet (sample_env b) (sample_world (Every ''PT1M'' (Some ''0'')) policy outs)
    (sample_trigger (Every ''PT1M'' (Some ''0'')) policy) (at_second n)"
proof -
  have "\<not> (n * ns_per_sec - ns_per_sec < k * (60 * ns_per_sec) \<and> k * (60 * ns_per_sec) \<le> n * ns_per_sec)" for k
  proof
    assume "n * ns_per_sec - ns_per_sec < k * (60 * ns_per_sec) \<and> k * (60 * ns_per_sec) \<le> n * ns_per_sec"
    then have "n - 1 < 60 * k" and "60 * k \<le> n" unfolding ns_per_sec_def by linarith+
    then have "n = 60 * k" by simp
    with assms(3) show False by simp
  qed
  then show ?thesis
    using minute_in_range [of "n * ns_per_sec - ns_per_sec" b policy] sample_unplanned assms(1,2)
    unfolding quiet_def minute_times
    by (auto simp: at_second_def ns_per_sec_def) (simp add: sample_env_def)
qed

theorem missed_forever_witness:
  "run_scheduler_loop (sample_env False) (map at_second [7, 22, 37, 52, 67, 82, 97, 112])
     (sample_world (Every ''PT1M'' (Some ''0'')) PolSkip []) =
   Some (sample_world (Every ''PT1M'' (Some ''0'')) PolSkip [])"
  by (rule missed_forever [OF sample_enabled]) (auto intro!: minute_quiet)

subsection \<open>After a firing\<close>

lemma save_state_get:
  assumes "save_state s w = Ok w'"
  shows "get_state (w_db w') (ts_trigger_id s) = Some s"
  using assms upsert_state_get [of s "w_db w" _ "ts_trigger_id s"]
  by (auto simp: save_state_def split: sum.splits)

lemma fire_due_saves:
  assumes "fire_due E m t state w = Some (Ok (Some r), w1)" "\<And>a. se_read_time E (se_show_time E a) = Some a"
  obtains nxt where "compute_next_fire E t (mo_now m) = Some (Ok nxt)"
    "planned E (get_state (w_db w1) (tg_id t)) = nxt"
    "last_evaluated E (get_state (w_db w1) (tg_id t)) = Some (mo_now m)"
proof -
  from assms(1) obtain nxt w0 s where c: "compute_next_fire E t (mo_now m) = Some (Ok nxt)"
    and s: "save_state s w0 = Ok w1" "ts_trigger_id s = tg_id t"
      "ts_next_fire_at s = map_option (se_show_time E) nxt"
      "ts_last_evaluated_at s = Some (se_show_time E (mo_now m))"
    by (auto simp: fire_due_def Let_def split: prod.splits sum.splits option.splits)
  have g: "get_state (w_db w1) (tg_id t) = Some s" using save_state_get [OF s(1)] s(2) by simp
  show thesis
    by (rule that [OF c]) (simp_all add: g planned_def last_evaluated_def s(3,4) assms(2) split: option.split,
        cases nxt, simp_all add: assms(2))
qed

text \<open>
  C15: once a firing has gone through, the next one is planned and no time is missed: a later tick
  finds the trigger due exactly when one of its times lies after the firing and not after the tick,
  however long the loop was held up.
\<close>

theorem planned_due:
  assumes "fire_due E m t state w = Some (Ok (Some r), w1)"
    and "get_state (w_db w2) (tg_id t) = get_state (w_db w1) (tg_id t)"
    and "\<And>a. se_read_time E (se_show_time E a) = Some a"
    and "timed_ok E t (mo_now m)" "se_time_ok E (mo_now m' - ns_per_sec)"
  shows "evaluate_trigger E m' t w2 =
    (if \<exists>s \<in> times_of E t. mo_now m < s \<and> s \<le> mo_now m'
     then fire_due E m' t (get_state (w_db w2) (tg_id t)) w2 else Some (Ok None, w2))"
proof -
  let ?st = "get_state (w_db w2) (tg_id t)"
  obtain nxt where c: "compute_next_fire E t (mo_now m) = Some (Ok nxt)"
    and p: "planned E ?st = nxt" and l: "last_evaluated E ?st = Some (mo_now m)"
    by (rule fire_due_saves [OF assms(1,3), folded assms(2)])
  show ?thesis using assms(4)
  proof (cases rule: timed_cases)
    case (cron e z)
    have nxt: "se_cron_next E e z (mo_now m) = nxt" using c cron(1,2) by (simp add: compute_next_fire_def)
    have "should_fire_cron E e z ?st (mo_now m') =
        Some (Ok (case cron_next (E, e, z) (mo_now m) of Some n \<Rightarrow> n \<le> mo_now m' | None \<Rightarrow> False))"
      using cron(2) assms(5) by (simp add: should_fire_cron_def p l time_add_def nxt split: option.split)
    then have "should_fire_cron E e z ?st (mo_now m') =
        Some (Ok (\<exists>s \<in> times_of E t. mo_now m < s \<and> s \<le> mo_now m'))"
      unfolding cron(4) cron.due_iff [OF cron(3)] .
    then show ?thesis using cron(1) by (simp add: evaluate_trigger_def Let_def fire_if_due_Ok)
  next
    case (every e s iv start)
    obtain n where n: "next_slot (se_time_ok E) iv start (mo_now m) = Some n"
      and due: "n \<le> mo_now m' \<longleftrightarrow> (\<exists>s \<in> times_of E t. mo_now m < s \<and> s \<le> mo_now m')"
      by (rule interval_nxt_total [OF every(4), folded every(5)]) (erule meta_allE, rule that)
    have "nxt = Some n" using c every(1-3) n by (simp add: compute_next_fire_def interval_anchor_def)
    then have "should_fire_interval E e (Some s) ?st (mo_now m') = Some (Ok (n \<le> mo_now m'))"
      by (simp add: should_fire_interval_def p)
    then show ?thesis using every(1) by (simp add: evaluate_trigger_def Let_def fire_if_due_Ok due [symmetric])
  qed
qed

text \<open>A decision to refuse, at any tick, while the pipeline keeps running.\<close>

lemma fire_refused:
  assumes "length (pending_rows (w_db w) (tg_id t)) < 2 ^ 31" "decide E t w = Refuse out err"
  obtains e where "fire_trigger E t now_str vars w = (Err err, record_firing E t now_str out None e w)"
proof -
  have "fire_trigger E t now_str vars w =
      (Err err, record_firing E t now_str out None (if out = Rejected then Some (reject_message t) else None) w)"
    using fire_trigger_outcome [OF assms(1)] assms(2) by simp
  then show thesis by (rule that)
qed

lemma firing_row_sel [simp]:
  "he_id (firing_row E n t now_str out i err) = se_uuid E n"
  "he_trigger_id (firing_row E n t now_str out i err) = tg_id t"
  "he_outcome (firing_row E n t now_str out i err) = out"
  by (simp_all add: firing_row_def)

text \<open>A refused firing and the error row the tick adds to it.\<close>

lemma refusal_recorded:
  assumes "uuids_fresh E w" "tg_id t \<in> set (db_ids (w_db w))" "out \<in> {Skipped, Rejected}"
    and "get_state (w_db w) (tg_id t) = Some s"
  obtains w' where "record_error E t now_str msg (record_firing E t now_str out None e w) = w'"
    "w_disp w' = w_disp w" "uuids_fresh E w'" "db_triggers (w_db w') = db_triggers (w_db w)"
    "length (db_history (w_db w')) = length (db_history (w_db w)) + 2"
    "pending_rows (w_db w') (tg_id t) = pending_rows (w_db w) (tg_id t)"
    "get_state (w_db w') (tg_id t) = Some (s\<lparr>ts_trigger_id := tg_id t, ts_last_evaluated_at := Some now_str,
       ts_consecutive_errors := ts_consecutive_errors s + 1\<rparr>)"
proof -
  let ?w1 = "record_firing E t now_str out None e w"
  let ?w2 = "record_firing E t now_str OutError None (Some msg) ?w1"
  note w1 = record_firing_eq [OF assms(1,2), of now_str out None e]
  have ids1: "tg_id t \<in> set (db_ids (w_db ?w1))" using assms(2) by (simp add: w1 db_ids_def)
  note fresh1 = uuids_fresh_record [OF assms(1,2), of now_str out None e]
  note w2 = record_firing_eq [OF fresh1 ids1, of now_str OutError None "Some msg"]
  note fresh2 = uuids_fresh_record [OF fresh1 ids1, of now_str OutError None "Some msg"]
  let ?s = "s\<lparr>ts_trigger_id := tg_id t, ts_last_evaluated_at := Some now_str,
       ts_consecutive_errors := ts_consecutive_errors s + 1\<rparr>"
  have same: "db_states (w_db ?w2) = db_states (w_db w)" "db_triggers (w_db ?w2) = db_triggers (w_db w)"
    "w_disp ?w2 = w_disp w" unfolding w2 by (simp_all add: w1)
  obtain r1 r2 where hist: "db_history (w_db ?w2) = db_history (w_db w) @ [r1, r2]"
    and rows: "he_outcome r1 = out" "he_outcome r2 = OutError" unfolding w2 by (simp add: w1)
  have st: "get_state (w_db ?w2) (tg_id t) = Some s" using assms(4) by (simp add: same get_state_def)
  have "ts_trigger_id ?s \<in> set (db_ids (w_db ?w2))" using assms(2) by (simp add: same db_ids_def)
  then obtain db where db: "upsert_state ?s (w_db ?w2) = Ok db"
    using store.put_state_known [of ?s "w_db ?w2"] by (auto simp: db_ids_def)
  have s: "\<lparr>ts_trigger_id = tg_id t, ts_last_evaluated_at = Some now_str, ts_last_fired_at = ts_last_fired_at s,
      ts_next_fire_at = ts_next_fire_at s, ts_sensor_state = ts_sensor_state s,
      ts_consecutive_errors = ts_consecutive_errors s + 1\<rparr> = ?s" by simp
  have w3: "record_error E t now_str msg ?w1 = ?w2\<lparr>w_db := db\<rparr>"
    unfolding record_error_def Let_def st by (simp only: option.case Option.bind.simps s db sum.case)
  note db' = upsert_state_Ok [OF db] upsert_state_get [OF db, of "tg_id t"]
  have pend: "pending_rows (w_db ?w2) (tg_id t) = pending_rows (w_db w) (tg_id t)"
    using assms(3) rows by (auto simp: hist pending_rows_def)
  show thesis
  proof (rule that [OF w3])
    show "uuids_fresh E (?w2\<lparr>w_db := db\<rparr>)" using fresh2 db' by (simp add: uuids_fresh_def)
    show "pending_rows (w_db (?w2\<lparr>w_db := db\<rparr>)) (tg_id t) = pending_rows (w_db w) (tg_id t)"
      using db' pend by (simp add: pending_rows_def)
  qed (use db' in \<open>simp_all add: same hist\<close>)
qed

text \<open>A cron or interval trigger with a plan.\<close>

definition plans :: "'d sched_env \<Rightarrow> trigger \<Rightarrow> bool" where
  "plans E t = (case tg_kind t of Cron expression timezone \<Rightarrow> cron_parse E expression timezone = Ok ()
    | Every _ _ \<Rightarrow> True | _ \<Rightarrow> False)"

lemma planned_evaluate:
  assumes "plans E t" "planned E (get_state (w_db w) (tg_id t)) = Some n" "n \<le> mo_now m"
  shows "evaluate_trigger E m t w = fire_due E m t (get_state (w_db w) (tg_id t)) w"
  using assms by (auto simp: plans_def evaluate_trigger_def Let_def should_fire_cron_def
      should_fire_interval_def fire_if_due_Ok split: trigger_kind.splits)

lemma refuse_cases: "decide E t w = Refuse out err \<Longrightarrow> out \<in> {Skipped, Rejected}"
  by (auto simp: decide_def split: if_splits run_policy.splits)

lemma enabled_cong: "db_triggers db' = db_triggers db \<Longrightarrow> list_enabled_triggers db' = list_enabled_triggers db"
  by (simp add: list_enabled_triggers_def)

lemma enabled_single:
  assumes "list_enabled_triggers db = Ok [t]"
  shows "tg_id t \<in> set (db_ids db)"
proof -
  have "\<exists>x. try_map row_to_trigger xs = Ok [t] \<longrightarrow> x \<in> set xs \<and> row_to_trigger x = Ok t" for xs
    by (cases xs) (auto split: sum.splits)
  then obtain x where "x \<in> set (filter tg_enabled (db_triggers db))" "row_to_trigger x = Ok t"
    using assms unfolding list_enabled_triggers_def by blast
  then show ?thesis by (auto simp: row_to_trigger_def db_ids_def split: if_splits)
qed

text \<open>
  A refused firing, by the policy \<open>reject\<close> or a full queue, does not move the plan.  While the
  pipeline keeps running, every later tick finds the trigger due again, refuses it again without
  calling the dispatcher, writes two history rows and counts one more error.
\<close>

theorem refused_every_tick:
  assumes "list_enabled_triggers (w_db w) = Ok [t]" "uuids_fresh E w"
    "length (pending_rows (w_db w) (tg_id t)) < 2 ^ 31" "decide E t w = Refuse out err"
    "get_state (w_db w) (tg_id t) = Some s" "plans E t" "planned E (Some s) = Some n"
    "\<forall>m \<in> set ms. n \<le> mo_now m"
  shows "\<exists>w' s'. run_scheduler_loop E ms w = Some w' \<and> w_disp w' = w_disp w \<and>
    length (db_history (w_db w')) = length (db_history (w_db w)) + 2 * length ms \<and>
    get_state (w_db w') (tg_id t) = Some s' \<and>
    ts_consecutive_errors s' = ts_consecutive_errors s + of_nat (length ms)"
  using assms
proof (induction ms arbitrary: w s)
  case (Cons m ms)
  note ids = enabled_single [OF Cons.prems(1)]
  let ?now = "se_show_time E (mo_now m)" and ?msg = "sched_error_str E err"
  have due: "evaluate_trigger E m t w = fire_due E m t (Some s) w"
    using planned_evaluate [OF Cons.prems(6)] Cons.prems(5,7,8) by simp
  obtain e where f: "fire_trigger E t ?now None w = (Err err, record_firing E t ?now out None e w)"
    by (rule fire_refused [OF Cons.prems(3,4)])
  obtain w1 where w1: "record_error E t ?now ?msg (record_firing E t ?now out None e w) = w1"
    and same: "w_disp w1 = w_disp w" "uuids_fresh E w1" "db_triggers (w_db w1) = db_triggers (w_db w)"
    "length (db_history (w_db w1)) = length (db_history (w_db w)) + 2"
    "pending_rows (w_db w1) (tg_id t) = pending_rows (w_db w) (tg_id t)"
    and st: "get_state (w_db w1) (tg_id t) = Some (s\<lparr>ts_trigger_id := tg_id t,
       ts_last_evaluated_at := Some ?now, ts_consecutive_errors := ts_consecutive_errors s + 1\<rparr>)"
    by (rule refusal_recorded [OF Cons.prems(2) ids refuse_cases [OF Cons.prems(4)] Cons.prems(5)])
  have "evaluate_trigger E m t w = Some (Err err, record_firing E t ?now out None e w)"
    unfolding due by (simp add: fire_due_def f)
  then have "tick_loop E m [t] w = Some ([fired t OutError None (Some ?msg)], w1)" by (simp add: w1)
  then have tick: "tick E m w = Some (Ok [fired t OutError None (Some ?msg)], w1)"
    using Cons.prems(1) by (simp add: tick_def)
  have "decide E t w1 = decide E t w" by (simp add: decide_def same)
  then obtain w' s' where "run_scheduler_loop E ms w1 = Some w'" "w_disp w' = w_disp w1"
    "length (db_history (w_db w')) = length (db_history (w_db w1)) + 2 * length ms"
    "get_state (w_db w') (tg_id t) = Some s'"
    "ts_consecutive_errors s' = ts_consecutive_errors s + 1 + of_nat (length ms)"
    using Cons.IH [of w1, OF _ same(2) _ _ st Cons.prems(6)] Cons.prems(1,3,4,7,8)
    by (auto simp: same enabled_cong [OF same(3)] planned_def)
  with same tick show ?case by (simp add: add.assoc add.commute)
qed simp

text \<open>The sample world with the trigger planned for the second 60.\<close>

definition planned_state :: trigger_state where
  "planned_state = fresh_state\<lparr>ts_next_fire_at := Some (show_int (60 * ns_per_sec))\<rparr>"

definition planned_world :: "run_policy \<Rightarrow> unit world" where
  "planned_world policy = (sample_world (Every ''PT1M'' (Some ''0'')) policy [])\<lparr>w_db :=
     \<lparr>db_triggers = [sample_trigger (Every ''PT1M'' (Some ''0'')) policy], db_states = [planned_state], db_history = []\<rparr>\<rparr>"

lemma sample_roundtrip: "se_read_time (sample_env b) (se_show_time (sample_env b) t) = Some t"
proof -
  have "is_digit (hd (show_nat n))" for n by (rule show_nat_digits [of _ n]) simp
  then have "hd (show_nat n) \<noteq> CHR ''-''" for n using is_digit_not by blast
  then show ?thesis by (simp add: sample_env_def sample_read_def show_int_def)
qed

theorem refused_every_tick_witness:
  "\<exists>w'. run_scheduler_loop (sample_env True) (map at_second [60, 75, 90]) (planned_world PolReject) = Some w' \<and>
     length (db_history (w_db w')) = 6"
proof -
  let ?E = "sample_env True" and ?t = "sample_trigger (Every ''PT1M'' (Some ''0'')) PolReject"
  have read: "se_read_time ?E (show_int (60 * ns_per_sec)) = Some (60 * ns_per_sec)"
    using sample_roundtrip [of True "60 * ns_per_sec"] by (simp add: sample_env_def ns_per_sec_def)
  have "\<exists>w' s'. run_scheduler_loop ?E (map at_second [60, 75, 90]) (planned_world PolReject) = Some w' \<and>
      w_disp w' = w_disp (planned_world PolReject) \<and>
      length (db_history (w_db w')) = length (db_history (w_db (planned_world PolReject))) + 2 * length (map at_second [60, 75, 90]) \<and>
      get_state (w_db w') (tg_id ?t) = Some s' \<and>
      ts_consecutive_errors s' = ts_consecutive_errors planned_state + of_nat (length (map at_second [60, 75, 90]))"
  proof (rule refused_every_tick)
    show "list_enabled_triggers (w_db (planned_world PolReject)) = Ok [?t]"
      by (simp add: planned_world_def list_enabled_triggers_def row_to_trigger_def sample_trigger_def)
    show "uuids_fresh ?E (planned_world PolReject)"
      by (auto simp: planned_world_def uuids_fresh_def sample_sched_defs inj_def)
    show "decide ?E ?t (planned_world PolReject) = Refuse Rejected (RunPolicyRejected (reject_message ?t))"
      by (simp add: decide_def sample_env_def sample_trigger_def)
    show "get_state (w_db (planned_world PolReject)) (tg_id ?t) = Some planned_state"
      by (simp add: planned_world_def get_state_def planned_state_def fresh_state_def sample_trigger_def)
    show "planned ?E (Some planned_state) = Some (60 * ns_per_sec)"
      by (simp add: planned_def planned_state_def read)
  qed (simp_all add: pending_rows_def planned_world_def plans_def sample_trigger_def at_second_def ns_per_sec_def)
  then show ?thesis by (auto simp: planned_world_def)
qed

theorem planned_due_witness:
  "\<exists>r w1. fire_due (sample_env False) (at_second 60) (sample_trigger (Every ''PT1M'' (Some ''0'')) PolSkip)
      (Some planned_state) (planned_world PolSkip) = Some (Ok (Some r), w1) \<and>
    evaluate_trigger (sample_env False) (at_second 119) (sample_trigger (Every ''PT1M'' (Some ''0'')) PolSkip) w1 =
      Some (Ok None, w1)"
proof -
  let ?E = "sample_env False" and ?t = "sample_trigger (Every ''PT1M'' (Some ''0'')) PolSkip"
  have r: "timed_ok ?E ?t (60 * ns_per_sec)" by (rule minute_in_range) (simp_all add: ns_per_sec_def)
  then have "interval_in_range (se_time_ok ?E, \<lparr>iv_days = 0, iv_hours = 0, iv_minutes = 1, iv_seconds = 0\<rparr>, 0)
      (60 * ns_per_sec)"
    by (simp add: timed_ok_def sample_trigger_def minute_parse sample_read_zero del: interval_in_range.simps)
  then obtain n where n: "next_slot (se_time_ok ?E) \<lparr>iv_days = 0, iv_hours = 0, iv_minutes = 1, iv_seconds = 0\<rparr>
      0 (60 * ns_per_sec) = Some n" by (rule interval_nxt_total)
  then have "compute_next_fire ?E ?t (60 * ns_per_sec) = Some (Ok (Some n))"
    by (simp add: compute_next_fire_def sample_trigger_def minute_parse interval_anchor_def sample_read_zero)
  then obtain r w1 where f: "fire_due ?E (at_second 60) ?t (Some planned_state) (planned_world PolSkip) = Some (Ok (Some r), w1)"
    by (simp add: fire_due_def Let_def fire_trigger_def dispatch_and_record_def planned_world_def at_second_def
        save_state_def upsert_state_def record_firing_def record_history_def db_ids_def sample_sched_defs planned_state_def)
  have none: "\<not> (\<exists>s \<in> times_of ?E ?t. mo_now (at_second 60) < s \<and> s \<le> mo_now (at_second 119))"
    unfolding minute_times by (auto simp: at_second_def ns_per_sec_def)
  have "se_time_ok ?E (mo_now (at_second 119) - ns_per_sec)" by (simp add: sample_env_def)
  from planned_due [OF f refl sample_roundtrip _ this] r none
  have "evaluate_trigger ?E (at_second 119) ?t w1 = Some (Ok None, w1)" by (simp only: at_second_def moment.simps if_False)
  with f show ?thesis by blast
qed

subsection \<open>Files\<close>

lemma decode_encode_seen: "decode_seen (encode_seen fs) = Some (sort (remdups fs))"
proof -
  have "concat (map json_strings (map JString fs)) = fs" by (induction fs) simp_all
  then show ?thesis by (simp add: decode_seen_def encode_seen_def decode_files_def list_all_iff)
qed

text \<open>
  A poll that fires marks the files it found as seen whatever the firing came to: a later poll
  never reports them again, so the files of a firing that was skipped or whose dispatch failed
  are never run, while a file the poll had not found is still reported.
\<close>

theorem files_reported_once:
  assumes "poll_files E m t path state w = (Ok (Some r), w1)"
    and "detect_new_local_files m path (seen_files state) = Ok found"
    and "get_state (w_db w2) (tg_id t) = get_state (w_db w1) (tg_id t)"
    and "mo_glob m' path = Ok entries"
  shows "detect_new_local_files m' path (seen_files (get_state (w_db w2) (tg_id t))) =
    Ok (filter (\<lambda>f. f \<notin> set (seen_files state) \<and> f \<notin> set found) (concat (map (\<lambda>e. case e of Some f \<Rightarrow> [f] | None \<Rightarrow> []) entries)))"
proof -
  from assms(1,2) obtain w0 s where s: "save_state s w0 = Ok w1" "ts_trigger_id s = tg_id t"
      "ts_sensor_state s = Some (encode_seen (sort (remdups (seen_files state @ found))))"
    by (auto simp: poll_files_def Let_def split: list.splits sum.splits prod.splits)
  have "seen_files (get_state (w_db w2) (tg_id t)) = sort (remdups (sort (remdups (seen_files state @ found))))"
    using save_state_get [OF s(1)] s(2,3) assms(3) by (simp add: seen_files_def decode_encode_seen)
  then show ?thesis using assms(4) by (simp add: detect_new_local_files_def)
qed

text \<open>A poll that finds one file while the pipeline is running.\<close>

definition one_file :: moment where
  "one_file = \<lparr>mo_now = 0, mo_glob = (\<lambda>_. Ok [Some ''a''])\<rparr>"

theorem files_reported_once_witness:
  "\<exists>r w1. poll_files (sample_env True) one_file (sample_trigger (FileArrival [] [] None) PolSkip) [] (Some fresh_state)
      (sample_world (FileArrival [] [] None) PolSkip []) = (Ok (Some r), w1) \<and> tk_outcome r = Skipped \<and>
    detect_new_local_files one_file [] (seen_files (get_state (w_db w1) ''t'')) = Ok []"
proof -
  let ?t = "sample_trigger (FileArrival [] [] None) PolSkip"
  have seen: "seen_files (Some fresh_state) = []" by (simp add: seen_files_def fresh_state_def)
  have found: "detect_new_local_files one_file [] (seen_files (Some fresh_state)) = Ok [''a'']"
    by (simp add: detect_new_local_files_def one_file_def seen)
  obtain w1 where p: "poll_files (sample_env True) one_file ?t [] (Some fresh_state)
      (sample_world (FileArrival [] [] None) PolSkip []) = (Ok (Some (fired ?t Skipped None None)), w1)"
    unfolding poll_files_def Let_def found
    by (simp add: file_variables_def fire_trigger_def apply_run_policy_def save_state_def upsert_state_def
        record_firing_def record_history_def db_ids_def sample_sched_defs)
  have "detect_new_local_files one_file [] (seen_files (get_state (w_db w1) (tg_id ?t))) = Ok []"
    using files_reported_once [OF p found refl, of one_file "[Some ''a'']"] by (simp add: one_file_def)
  with p show ?thesis by (auto simp: fired_def sample_trigger_def)
qed

end
