(* ===== verification/Backfill.thy ===== *)
theory Backfill
  imports Interval Variable_Mapping
begin

text \<open>
  \<open>backfill.rs\<close> of the engine: the statuses and records of a backfill and the expansion of its
  range into iterations.  A \<open>NaiveDateTime\<close> is its nanoseconds since the epoch; the calendar of
  \<open>chrono\<close> (parsing, printing, year and month, range) is the record \<open>calendar\<close>.
\<close>

datatype backfill_status = BfPending | BfRunning | BfCompleted | BfCancelled | BfFailed

fun backfill_status_str :: "backfill_status \<Rightarrow> string" where
  "backfill_status_str BfPending = ''pending''"
| "backfill_status_str BfRunning = ''running''"
| "backfill_status_str BfCompleted = ''completed''"
| "backfill_status_str BfCancelled = ''cancelled''"
| "backfill_status_str BfFailed = ''failed''"

definition parse_backfill_status :: "string \<Rightarrow> backfill_status option" where
  "parse_backfill_status s =
     (if s = ''pending'' then Some BfPending else if s = ''running'' then Some BfRunning
      else if s = ''completed'' then Some BfCompleted else if s = ''cancelled'' then Some BfCancelled
      else if s = ''failed'' then Some BfFailed else None)"

datatype iteration_status = ItPending | ItRunning | ItSucceeded | ItFailed | ItSkipped

fun iteration_status_str :: "iteration_status \<Rightarrow> string" where
  "iteration_status_str ItPending = ''pending''"
| "iteration_status_str ItRunning = ''running''"
| "iteration_status_str ItSucceeded = ''succeeded''"
| "iteration_status_str ItFailed = ''failed''"
| "iteration_status_str ItSkipped = ''skipped''"

definition parse_iteration_status :: "string \<Rightarrow> iteration_status option" where
  "parse_iteration_status s =
     (if s = ''pending'' then Some ItPending else if s = ''running'' then Some ItRunning
      else if s = ''succeeded'' then Some ItSucceeded else if s = ''failed'' then Some ItFailed
      else if s = ''skipped'' then Some ItSkipped else None)"

datatype granularity = GHour | GDay | GWeek | GMonth

datatype range_def =
    DateRange string string granularity var_mapping
  | ListRange "string list" var_mapping
  | SqlRange string string var_mapping

record expanded =
  ex_index :: u32
  ex_key :: string
  ex_variables :: variables

record backfill =
  bf_id :: string
  bf_pipeline_id :: string
  bf_environment :: string
  bf_range :: range_def
  bf_concurrency :: u32
  bf_fail_fast :: bool
  bf_full_refresh :: bool
  bf_status :: backfill_status
  bf_created_at :: string
  bf_started_at :: "string option"
  bf_completed_at :: "string option"
  bf_created_by :: "string option"

record bf_iteration =
  bi_backfill_id :: string
  bi_index :: u32
  bi_key :: string
  bi_variables :: variables
  bi_status :: iteration_status
  bi_run_id :: "string option"
  bi_error :: "string option"
  bi_started_at :: "string option"
  bi_completed_at :: "string option"

record bf_progress =
  pg_total :: u32
  pg_succeeded :: u32
  pg_failed :: u32
  pg_running :: u32
  pg_pending :: u32
  pg_skipped :: u32

datatype range_error =
    InvalidDate string string
  | EmptyRange string string
  | UnknownPlaceholder string
  | SqlNotSupported

subsection \<open>Range expansion\<close>

record calendar =
  ca_parse_date :: "string \<Rightarrow> int option"
  ca_parse_datetime :: "string \<Rightarrow> string + int"
  ca_show_date :: "int \<Rightarrow> string"
  ca_show_datetime :: "int \<Rightarrow> string"
  ca_year :: "int \<Rightarrow> int"
  ca_month :: "int \<Rightarrow> int"
  ca_ymd :: "int \<Rightarrow> int \<Rightarrow> int \<Rightarrow> int option"
  ca_ok :: "int \<Rightarrow> bool"

definition parse_dt :: "calendar \<Rightarrow> string \<Rightarrow> range_error + int" where
  "parse_dt C s = (case ca_parse_date C s of
      Some d \<Rightarrow> Ok d
    | None \<Rightarrow> (case ca_parse_datetime C s of Inl e \<Rightarrow> Err (InvalidDate s e) | Inr t \<Rightarrow> Ok t))"

text \<open>Midnight of the first day of the next month.\<close>

definition next_month :: "calendar \<Rightarrow> int \<Rightarrow> int option" where
  "next_month C t = (let (y, m) = (if ca_month C t = 12 then (ca_year C t + 1, 1)
     else (ca_year C t, ca_month C t + 1)) in ca_ymd C y m 1)"

text \<open>\<open>None\<close> is a panic: a time out of range.\<close>

definition advance :: "calendar \<Rightarrow> int \<Rightarrow> granularity \<Rightarrow> int option" where
  "advance C t g = (case g of
      GHour \<Rightarrow> time_add (ca_ok C) t (3600 * ns_per_sec)
    | GDay \<Rightarrow> time_add (ca_ok C) t (86400 * ns_per_sec)
    | GWeek \<Rightarrow> time_add (ca_ok C) t (7 * 86400 * ns_per_sec)
    | GMonth \<Rightarrow> next_month C t)"

definition format_dt :: "calendar \<Rightarrow> int \<Rightarrow> granularity \<Rightarrow> string" where
  "format_dt C t g = (case g of GHour \<Rightarrow> ca_show_datetime C t | _ \<Rightarrow> ca_show_date C t)"

definition date_placeholder :: "string \<Rightarrow> string \<Rightarrow> string \<Rightarrow> string \<Rightarrow> range_error + json" where
  "date_placeholder iter_start iter_end name placeholder =
     (if placeholder = ''$iteration.start'' then Ok (JString iter_start)
      else if placeholder = ''$iteration.end'' then Ok (JString iter_end)
      else Err (UnknownPlaceholder placeholder))"

definition apply_date_mapping :: "var_mapping \<Rightarrow> string \<Rightarrow> string \<Rightarrow> range_error + variables" where
  "apply_date_mapping m iter_start iter_end = eval_mapping (date_placeholder iter_start iter_end) m Map.empty"

text \<open>The loop; \<open>None\<close> when it panics or never ends.\<close>

partial_function (option) date_loop ::
  "calendar \<Rightarrow> granularity \<Rightarrow> var_mapping \<Rightarrow> int \<Rightarrow> int \<Rightarrow> u32 \<Rightarrow> expanded list \<Rightarrow>
   (range_error + expanded list) option" where
  "date_loop C g m end_dt cursor index iterations =
     (if cursor < end_dt
      then Option.bind (advance C cursor g) (\<lambda>nxt.
        let iter_end = (if nxt > end_dt then end_dt else nxt);
            s = format_dt C cursor g; e = format_dt C iter_end g
        in (case apply_date_mapping m s e of
              Inl err \<Rightarrow> Some (Err err)
            | Inr vars \<Rightarrow> date_loop C g m end_dt nxt (index + 1)
                (iterations @ [\<lparr>ex_index = index, ex_key = s, ex_variables = vars\<rparr>])))
      else Some (Ok iterations))"

definition expand_date_range ::
  "calendar \<Rightarrow> string \<Rightarrow> string \<Rightarrow> granularity \<Rightarrow> var_mapping \<Rightarrow> (range_error + expanded list) option" where
  "expand_date_range C start_s end_s g m = (case parse_dt C start_s of
      Inl e \<Rightarrow> Some (Err e)
    | Inr start_dt \<Rightarrow> (case parse_dt C end_s of
        Inl e \<Rightarrow> Some (Err e)
      | Inr end_dt \<Rightarrow>
          if start_dt \<ge> end_dt then Some (Err (EmptyRange start_s end_s))
          else date_loop C g m end_dt start_dt 0 []))"

definition list_placeholder :: "string \<Rightarrow> string \<Rightarrow> string \<Rightarrow> range_error + json" where
  "list_placeholder value name placeholder =
     (if placeholder = ''$iteration.value'' then Ok (JString value) else Err (UnknownPlaceholder placeholder))"

definition expand_value :: "var_mapping \<Rightarrow> nat \<times> string \<Rightarrow> range_error + expanded" where
  "expand_value m = (\<lambda>(index, value). case eval_mapping (list_placeholder value) m Map.empty of
      Inl e \<Rightarrow> Err e
    | Inr vars \<Rightarrow> Ok \<lparr>ex_index = of_nat index, ex_key = value, ex_variables = vars\<rparr>)"

definition expand_list :: "string list \<Rightarrow> var_mapping \<Rightarrow> range_error + expanded list" where
  "expand_list values m = try_map (expand_value m) (enumerate 0 values)"

definition expand_range :: "calendar \<Rightarrow> range_def \<Rightarrow> (range_error + expanded list) option" where
  "expand_range C rng = (case rng of
      DateRange s e g m \<Rightarrow> expand_date_range C s e g m
    | ListRange values m \<Rightarrow> Some (expand_list values m)
    | SqlRange _ _ _ \<Rightarrow> Some (Err SqlNotSupported))"

text \<open>The rows of a query; a row is the list of its entries in the iteration order of the map.\<close>

definition row_placeholder :: "(string \<times> string) list \<Rightarrow> string \<Rightarrow> string \<Rightarrow> range_error + json" where
  "row_placeholder row name placeholder = (case strip_prefix ''$iteration.'' placeholder of
      None \<Rightarrow> Err (UnknownPlaceholder placeholder)
    | Some col \<Rightarrow> Ok (JString (case map_of row col of Some v \<Rightarrow> v | None \<Rightarrow> [])))"

definition expand_row :: "var_mapping \<Rightarrow> nat \<times> (string \<times> string) list \<Rightarrow> range_error + expanded" where
  "expand_row m = (\<lambda>(index, row). case eval_mapping (row_placeholder row) m Map.empty of
      Inl e \<Rightarrow> Err e
    | Inr vars \<Rightarrow> Ok \<lparr>ex_index = of_nat index,
        ex_key = (case row of [] \<Rightarrow> show_nat index | (_, v) # _ \<Rightarrow> v), ex_variables = vars\<rparr>)"

definition expand_sql_rows :: "(string \<times> string) list list \<Rightarrow> var_mapping \<Rightarrow> range_error + expanded list" where
  "expand_sql_rows rows m = try_map (expand_row m) (enumerate 0 rows)"

section \<open>Properties\<close>

text \<open>Windows that cover a range without gap or overlap.\<close>

fun tiles :: "int \<Rightarrow> int \<Rightarrow> (int \<times> int) list \<Rightarrow> bool" where
  "tiles s e [] = (s = e)"
| "tiles s e ((a, b) # ws) = (a = s \<and> a < b \<and> b \<le> e \<and> tiles b e ws)"

text \<open>The iteration of a window.\<close>

definition window_iteration ::
  "calendar \<Rightarrow> granularity \<Rightarrow> var_mapping \<Rightarrow> u32 \<Rightarrow> int \<times> int \<Rightarrow> expanded" where
  "window_iteration C g m index = (\<lambda>(a, b). \<lparr>ex_index = index, ex_key = format_dt C a g,
     ex_variables = mapped (date_placeholder (format_dt C a g) (format_dt C b g)) m\<rparr>)"

text \<open>
  What the code relies on of \<open>chrono\<close>, for the times of a range: they and a week more exist; months are
  numbered from 1 to 12 and every month has a first, at midnight, which is later than every time of an earlier
  month; dates parse as midnights and times as whole seconds, and both read back what they print.
\<close>

definition day_ns :: int where "day_ns = 86400 * ns_per_sec"

definition firsts_ok :: "calendar \<Rightarrow> int \<Rightarrow> bool" where
  "firsts_ok C t \<longleftrightarrow> 1 \<le> ca_month C t \<and> ca_month C t \<le> 12 \<and>
     (\<forall>y m. ca_year C t \<le> y \<and> y \<le> ca_year C t + 1 \<and> 1 \<le> m \<and> m \<le> 12 \<longrightarrow>
        (\<exists>n. ca_ymd C y m 1 = Some n \<and> n mod day_ns = 0 \<and>
          (ca_year C t < y \<or> ca_year C t = y \<and> ca_month C t < m \<longrightarrow> t < n)))"

definition calendar_ok :: "calendar \<Rightarrow> int \<Rightarrow> int \<Rightarrow> bool" where
  "calendar_ok C s e \<longleftrightarrow> (\<forall>t. s \<le> t \<and> t \<le> e + 7 * 86400 * ns_per_sec \<longrightarrow> ca_ok C t) \<and>
     (\<forall>t. s \<le> t \<and> t < e \<longrightarrow> firsts_ok C t) \<and>
     (\<forall>x t. ca_parse_date C x = Some t \<longrightarrow> t mod day_ns = 0) \<and>
     (\<forall>x t. ca_parse_datetime C x = Ok t \<longrightarrow> t mod ns_per_sec = 0) \<and>
     (\<forall>t. s \<le> t \<and> t \<le> e \<and> t mod day_ns = 0 \<longrightarrow> parse_dt C (ca_show_date C t) = Ok t) \<and>
     (\<forall>t. s \<le> t \<and> t \<le> e \<and> t mod ns_per_sec = 0 \<longrightarrow> parse_dt C (ca_show_datetime C t) = Ok t)"

text \<open>One step of a granularity: a number of hours, or to the first of the month after.\<close>

definition one_step :: "calendar \<Rightarrow> granularity \<Rightarrow> int \<Rightarrow> int \<Rightarrow> bool" where
  "one_step C g a b \<longleftrightarrow> (case g of
      GHour \<Rightarrow> b = a + 3600 * ns_per_sec
    | GDay \<Rightarrow> b = a + day_ns
    | GWeek \<Rightarrow> b = a + 7 * day_ns
    | GMonth \<Rightarrow> (\<exists>y m. ca_ymd C y m 1 = Some b \<and> 1 \<le> m \<and> m \<le> 12 \<and> 12 * y + m = 12 * ca_year C a + ca_month C a + 1))"

text \<open>The grain of the times a granularity prints.\<close>

definition grain :: "granularity \<Rightarrow> int" where
  "grain g = (if g = GHour then ns_per_sec else day_ns)"

lemma first_of_month:
  assumes "firsts_ok C t" "ca_year C t \<le> y" "y \<le> ca_year C t + 1" "1 \<le> m" "m \<le> 12"
    "ca_year C t < y \<or> ca_year C t = y \<and> ca_month C t < m"
  obtains n where "ca_ymd C y m 1 = Some n" "n mod day_ns = 0" "t < n"
proof -
  have "\<forall>y m. ca_year C t \<le> y \<and> y \<le> ca_year C t + 1 \<and> 1 \<le> m \<and> m \<le> 12 \<longrightarrow> (\<exists>n. ca_ymd C y m 1 = Some n \<and>
      n mod day_ns = 0 \<and> (ca_year C t < y \<or> ca_year C t = y \<and> ca_month C t < m \<longrightarrow> t < n))"
    using assms(1) unfolding firsts_ok_def by (elim conjE)
  from this [rule_format, of y m] assms(2-) that show thesis by auto
qed

lemma next_month_later:
  assumes "firsts_ok C t"
  shows "\<exists>n. next_month C t = Some n \<and> t < n \<and> n mod day_ns = 0 \<and> one_step C GMonth t n"
proof -
  define y m where "y = (if ca_month C t = 12 then ca_year C t + 1 else ca_year C t)"
    and "m = (if ca_month C t = 12 then 1 else ca_month C t + 1)"
  have range: "1 \<le> ca_month C t" "ca_month C t \<le> 12" using assms by (simp_all add: firsts_ok_def)
  then have ym: "ca_year C t \<le> y" "y \<le> ca_year C t + 1" "1 \<le> m" "m \<le> 12"
    "ca_year C t < y \<or> ca_year C t = y \<and> ca_month C t < m" "12 * y + m = 12 * ca_year C t + ca_month C t + 1"
    by (auto simp: y_def m_def)
  obtain n where n: "ca_ymd C y m 1 = Some n" "n mod day_ns = 0" "t < n" using first_of_month [OF assms ym(1-5)] .
  have "next_month C t = ca_ymd C y m 1" by (simp add: next_month_def y_def m_def)
  moreover have "one_step C GMonth t n" unfolding one_step_def granularity.case using n(1) ym(3,4,6) by blast
  ultimately show ?thesis using n by simp
qed

lemma grain_dvd: "grain g dvd day_ns" "grain GHour dvd 3600 * ns_per_sec"
  by (simp_all add: grain_def day_ns_def)

lemma advance_grows:
  assumes "calendar_ok C s e" "s \<le> t" "t < e"
  obtains n where "advance C t g = Some n" "t < n" "one_step C g t n" "t mod grain g = 0 \<Longrightarrow> n mod grain g = 0"
proof (cases "g = GMonth")
  case True
  with next_month_later [of C t] assms that show ?thesis
    by (auto simp: calendar_ok_def advance_def grain_def)
next
  case False
  define n where "n = t + (case g of GHour \<Rightarrow> 3600 * ns_per_sec | GDay \<Rightarrow> day_ns | _ \<Rightarrow> 7 * day_ns)"
  have "ca_ok C n" using assms unfolding calendar_ok_def
    by (auto simp: n_def day_ns_def ns_per_sec_def split: granularity.split)
  then have "advance C t g = Some n"
    using False by (cases g) (simp_all add: n_def advance_def time_add_def day_ns_def)
  moreover have "t < n" by (simp add: n_def day_ns_def ns_per_sec_def split: granularity.split)
  moreover have "one_step C g t n" using False by (cases g) (simp_all add: n_def one_step_def)
  moreover have "n mod grain g = 0" if "t mod grain g = 0"
    using that grain_dvd(1) [of g] grain_dvd(2)
    by (cases g) (auto simp: n_def mod_eq_0_iff_dvd intro!: dvd_add dvd_mult)
  ultimately show ?thesis by (rule that)
qed

lemma date_mapping_ok:
  "distinct (map fst m) \<Longrightarrow> list_all (\<lambda>(_, p). p = ''$iteration.start'' \<or> p = ''$iteration.end'') m \<Longrightarrow>
   apply_date_mapping m s e = Ok (mapped (date_placeholder s e) m)"
  unfolding apply_date_mapping_def
  by (subst eval_mapping_result) (auto simp: list_all_iff date_placeholder_def)

lemma date_loop_windows:
  assumes "calendar_ok C s e" "s \<le> t" "t \<le> e"
    and "distinct (map fst m)" "list_all (\<lambda>(_, p). p = ''$iteration.start'' \<or> p = ''$iteration.end'') m"
  shows "\<exists>ws. tiles t e ws \<and> (\<forall>(a, b) \<in> set ws. \<exists>n. one_step C g a n \<and> b = min n e) \<and>
    (t mod grain g = 0 \<longrightarrow> e mod grain g = 0 \<longrightarrow> (\<forall>(a, b) \<in> set ws. a mod grain g = 0 \<and> b mod grain g = 0)) \<and>
    date_loop C g m e t index its =
      Some (Ok (its @ map (\<lambda>(i, w). window_iteration C g m (index + of_nat i) w) (enumerate 0 ws)))"
  using assms(2,3)
proof (induction "nat (e - t)" arbitrary: t index its rule: less_induct)
  case less
  show ?case
  proof (cases "t < e")
    case False
    with less.prems show ?thesis by (intro exI [of _ "[]"]) (simp add: date_loop.simps)
  next
    case True
    obtain n where n: "advance C t g = Some n" "t < n" and st: "one_step C g t n" "t mod grain g = 0 \<Longrightarrow> n mod grain g = 0"
      using advance_grows [OF assms(1) less.prems(1) True, of g] by metis
    define b where "b = (if n > e then e else n)"
    let ?it = "window_iteration C g m index (t, b)"
    have unfold: "date_loop C g m e t index its = date_loop C g m e n (index + 1) (its @ [?it])"
      using True n by (simp add: date_loop.simps [of C g m e t] date_mapping_ok [OF assms(4,5)] b_def [symmetric]
          window_iteration_def Let_def)
    show ?thesis
    proof (cases "n \<le> e")
      case False
      then have "date_loop C g m e t index its = Some (Ok (its @ [?it]))"
        unfolding unfold by (simp add: date_loop.simps)
      moreover have "b = e" "b = min n e" using False by (simp_all add: b_def)
      ultimately show ?thesis using True st(1) by (intro exI [of _ "[(t, b)]"]) auto
    next
      case le: True
      then have "b = n" and bm: "n = min n e" by (simp_all add: b_def)
      obtain ws where ws: "tiles n e ws" "\<forall>(a, b) \<in> set ws. \<exists>n. one_step C g a n \<and> b = min n e"
        "n mod grain g = 0 \<longrightarrow> e mod grain g = 0 \<longrightarrow> (\<forall>(a, b) \<in> set ws. a mod grain g = 0 \<and> b mod grain g = 0)"
        "date_loop C g m e n (index + 1) (its @ [?it]) = Some (Ok ((its @ [?it]) @
           map (\<lambda>(i, w). window_iteration C g m (index + 1 + of_nat i) w) (enumerate 0 ws)))"
        using less.hyps [of n "index + 1" "its @ [?it]"] less.prems n le by auto
      have "map (\<lambda>(i, w). window_iteration C g m (index + 1 + of_nat i) w) (enumerate 0 ws) =
          map (\<lambda>(i, w). window_iteration C g m (index + of_nat i) w) (enumerate (Suc 0) ws)"
        by (simp add: enumerate_Suc_eq comp_def case_prod_unfold add.assoc)
      then show ?thesis
        using ws n le \<open>b = n\<close> st bm by (intro exI [of _ "(t, n) # ws"]) (auto simp: unfold)
    qed
  qed
qed

lemma tiles_within: "tiles s e ws \<Longrightarrow> (a, b) \<in> set ws \<Longrightarrow> s \<le> a \<and> a < b \<and> b \<le> e"
  by (induction s e ws rule: tiles.induct) force+

lemma parse_dt_seconds:
  assumes "calendar_ok C s e" "parse_dt C x = Ok t"
  shows "t mod ns_per_sec = 0"
proof (cases "ca_parse_date C x")
  case None
  then have "ca_parse_datetime C x = Ok t" using assms(2) by (simp add: parse_dt_def split: sum.splits)
  then show ?thesis using assms(1) unfolding calendar_ok_def by blast
next
  case (Some d)
  then have "t mod day_ns = 0" using assms unfolding calendar_ok_def by (auto simp: parse_dt_def)
  then show ?thesis unfolding mod_eq_0_iff_dvd day_ns_def by (rule dvd_mult_right)
qed

lemma reads_back: "calendar_ok C s e \<Longrightarrow> s \<le> t \<Longrightarrow> t \<le> e \<Longrightarrow> t mod grain g = 0 \<Longrightarrow> parse_dt C (format_dt C t g) = Ok t"
  by (cases g) (simp_all add: calendar_ok_def format_dt_def grain_def)

text \<open>
  C33: a date range is cut into windows that cover it without gap or overlap, each one step of the granularity
  long, the last cut at the end, numbered from zero; the expansion ends.  By the hour, and by longer steps when
  the range starts and ends at midnight, the dates printed for a window read back as its bounds; else the time of
  day is lost.  The mapping uses only the two placeholders.
\<close>

theorem expand_date_range_tiles:
  assumes "parse_dt C start_s = Ok s" "parse_dt C end_s = Ok e" "s < e" "calendar_ok C s e"
    and "distinct (map fst m)" "list_all (\<lambda>(_, p). p = ''$iteration.start'' \<or> p = ''$iteration.end'') m"
  shows "\<exists>ws. tiles s e ws \<and> (\<forall>(a, b) \<in> set ws. \<exists>n. one_step C g a n \<and> b = min n e) \<and>
    (g = GHour \<or> s mod day_ns = 0 \<and> e mod day_ns = 0 \<longrightarrow>
      (\<forall>(a, b) \<in> set ws. parse_dt C (format_dt C a g) = Ok a \<and> parse_dt C (format_dt C b g) = Ok b)) \<and>
    expand_date_range C start_s end_s g m =
      Some (Ok (map (\<lambda>(i, w). window_iteration C g m (of_nat i) w) (enumerate 0 ws)))"
proof -
  obtain ws where ws: "tiles s e ws" "\<forall>(a, b) \<in> set ws. \<exists>n. one_step C g a n \<and> b = min n e"
    "s mod grain g = 0 \<longrightarrow> e mod grain g = 0 \<longrightarrow> (\<forall>(a, b) \<in> set ws. a mod grain g = 0 \<and> b mod grain g = 0)"
    "date_loop C g m e s 0 [] = Some (Ok (map (\<lambda>(i, w). window_iteration C g m (of_nat i) w) (enumerate 0 ws)))"
    using date_loop_windows [OF assms(4) order_refl less_imp_le [OF assms(3)] assms(5,6), of g 0 "[]"] by auto
  have "s mod ns_per_sec = 0" "e mod ns_per_sec = 0" using parse_dt_seconds [OF assms(4)] assms(1,2) by blast+
  then have "\<forall>(a, b) \<in> set ws. a mod grain g = 0 \<and> b mod grain g = 0" if "g = GHour \<or> s mod day_ns = 0 \<and> e mod day_ns = 0"
    using ws(3) that by (auto simp: grain_def)
  then have "\<forall>(a, b) \<in> set ws. parse_dt C (format_dt C a g) = Ok a \<and> parse_dt C (format_dt C b g) = Ok b"
    if "g = GHour \<or> s mod day_ns = 0 \<and> e mod day_ns = 0"
    using that tiles_within [OF ws(1)] reads_back [OF assms(4)] by fastforce
  moreover have "expand_date_range C start_s end_s g m =
      Some (Ok (map (\<lambda>(i, w). window_iteration C g m (of_nat i) w) (enumerate 0 ws)))"
    using ws(4) assms(1-3) by (simp add: expand_date_range_def)
  ultimately show ?thesis using ws(1,2) by blast
qed

text \<open>A calendar whose months have 31 days: dates are day numbers, \<open>5T12\<close> is second 12 of day 5.\<close>

definition sample_calendar :: calendar where
  "sample_calendar = \<lparr>ca_parse_date = (\<lambda>s. map_option (\<lambda>n. int n * day_ns) (parse_digits s)),
     ca_parse_datetime = (\<lambda>s. case find_char CHR ''T'' s of
         None \<Rightarrow> Err ''no time''
       | Some (d, r) \<Rightarrow> (case (parse_digits d, parse_digits r) of
           (Some d, Some r) \<Rightarrow> Ok ((int d * 86400 + int r) * ns_per_sec) | _ \<Rightarrow> Err ''digits'')),
     ca_show_date = (\<lambda>t. show_nat (nat (t div day_ns))),
     ca_show_datetime = (\<lambda>t. show_nat (nat (t div day_ns)) @ CHR ''T'' # show_nat (nat (t div ns_per_sec mod 86400))),
     ca_year = (\<lambda>t. t div day_ns div 372), ca_month = (\<lambda>t. t div day_ns div 31 mod 12 + 1),
     ca_ymd = (\<lambda>y m d. Some ((y * 372 + (m - 1) * 31 + d - 1) * day_ns)), ca_ok = (\<lambda>_. True)\<rparr>"

lemma day_ns_pos: "0 < day_ns" "0 < ns_per_sec" by (simp_all add: day_ns_def ns_per_sec_def)

lemma sample_firsts_ok: "firsts_ok sample_calendar t"
proof -
  let ?d = "t div day_ns" and ?m = "t div day_ns div 31"
  have y: "?d div 372 = ?m div 12" using zdiv_zmult2_eq [of 12 ?d 31] by simp
  have later: "t < (y * 372 + (m - 1) * 31) * day_ns" if "12 * (?m div 12) + ?m mod 12 + 1 \<le> 12 * y + (m - 1)" for y m
  proof -
    have "d < 31 * (d div 31 + 1)" for d :: int by presburger
    then have "?d < 31 * (?m + 1)" .
    also have "31 * (?m + 1) \<le> 31 * (12 * y + (m - 1))"
      using that unfolding mult_div_mod_eq by (rule mult_left_mono) simp
    also have "31 * (12 * y + (m - 1)) = y * 372 + (m - 1) * 31" by simp
    finally have "?d + 1 \<le> y * 372 + (m - 1) * 31" by (rule zless_imp_add1_zle)
    then have "(?d + 1) * day_ns \<le> (y * 372 + (m - 1) * 31) * day_ns" using day_ns_pos(1) by (intro mult_right_mono) simp_all
    moreover have "t < (?d + 1) * day_ns"
    proof -
      have "(?d + 1) * day_ns = day_ns * ?d + day_ns" by (simp only: distrib_right mult_1_left mult.commute [of ?d])
      moreover have "day_ns * ?d + t mod day_ns = t" by (rule mult_div_mod_eq)
      ultimately show ?thesis using pos_mod_bound [OF day_ns_pos(1), of t] by linarith
    qed
    ultimately show ?thesis by linarith
  qed
  have m12: "0 \<le> ?m mod 12" "?m mod 12 < 12" by simp_all
  have "t < (y * 372 + m * 31 - 31) * day_ns"
    if "?m div 12 < y \<and> 1 \<le> m \<or> ?m div 12 = y \<and> ?m mod 12 + 1 < m" for y m
  proof -
    have "t < (y * 372 + (m - 1) * 31) * day_ns" using that m12 by (intro later) linarith
    moreover have "y * 372 + (m - 1) * 31 = y * 372 + m * 31 - 31" by simp
    ultimately show ?thesis by (simp only:)
  qed
  then show ?thesis unfolding firsts_ok_def
    by (auto simp: sample_calendar_def y)
qed

lemma no_T_digits: "CHR ''T'' \<notin> set (show_nat n)"
  using show_nat_digits by (force simp: is_digit_def)

lemma digits_no_T: "parse_digits (show_nat n @ CHR ''T'' # x) = None"
proof -
  have "digits_val a (xs @ CHR ''T'' # x) = None" for a xs by (induction xs arbitrary: a) (auto simp: is_digit_def)
  then show ?thesis by (simp add: parse_digits_def)
qed

lemma sample_calendar_ok:
  assumes "0 \<le> s"
  shows "calendar_ok sample_calendar s e"
proof -
  have date: "parse_dt sample_calendar (ca_show_date sample_calendar t) = Ok t" if "0 \<le> t" "t mod day_ns = 0" for t
    using that day_ns_pos div_mult_mod_eq [of t day_ns] by (simp add: parse_dt_def sample_calendar_def pos_imp_zdiv_nonneg_iff)
  have time: "parse_dt sample_calendar (ca_show_datetime sample_calendar t) = Ok t" if "0 \<le> t" "t mod ns_per_sec = 0" for t
  proof -
    have find: "find_char CHR ''T'' (show_nat a @ CHR ''T'' # show_nat b) = Some (show_nat a, show_nat b)" for a b
      by (simp add: find_char_Some_iff no_T_digits)
    have "t div day_ns = t div ns_per_sec div 86400" using zdiv_zmult2_eq [of 86400 t ns_per_sec] by (simp add: day_ns_def mult.commute)
    then have "(t div day_ns * 86400 + t div ns_per_sec mod 86400) * ns_per_sec = t"
      using that(2) div_mult_mod_eq [of t ns_per_sec] by simp
    moreover have "0 \<le> t div day_ns" "0 \<le> t div ns_per_sec mod 86400" using that(1) day_ns_pos by (simp_all add: pos_imp_zdiv_nonneg_iff)
    ultimately show ?thesis by (simp add: parse_dt_def sample_calendar_def digits_no_T find)
  qed
  show ?thesis unfolding calendar_ok_def
    using assms sample_firsts_ok date time
    by (auto simp: sample_calendar_def split: option.splits prod.splits)
qed

theorem expand_date_range_tiles_witness:
  "\<exists>its. expand_date_range sample_calendar ''0'' ''3'' GDay [(''d'', ''$iteration.start'')] = Some (Ok its) \<and> its \<noteq> []"
proof -
  have "parse_dt sample_calendar ''0'' = Ok 0" "parse_dt sample_calendar ''3'' = Ok (3 * day_ns)"
    by (simp_all add: parse_dt_def sample_calendar_def parse_digits_def is_digit_def digit_val_def)
  from expand_date_range_tiles [OF this _ sample_calendar_ok, of "[(''d'', ''$iteration.start'')]" GDay]
  obtain ws where "tiles 0 (3 * day_ns) ws" and
    "expand_date_range sample_calendar ''0'' ''3'' GDay [(''d'', ''$iteration.start'')] =
      Some (Ok (map (\<lambda>(i, w). window_iteration sample_calendar GDay [(''d'', ''$iteration.start'')] (of_nat i) w) (enumerate 0 ws)))"
    by (auto simp: day_ns_def ns_per_sec_def)
  then show ?thesis by (cases ws) (auto simp: day_ns_def ns_per_sec_def)
qed

text \<open>
  With a granularity of days the times of day are not printed: a range that ends at noon has a last
  iteration whose start and end are the same date.
\<close>

lemma last_window_empty:
  "expand_date_range sample_calendar ''1'' ''2T43200'' GDay [(''a'', ''$iteration.start''), (''b'', ''$iteration.end'')] =
   Some (Ok [\<lparr>ex_index = 0, ex_key = ''1'', ex_variables = [''a'' \<mapsto> JString ''1'', ''b'' \<mapsto> JString ''2'']\<rparr>,
     \<lparr>ex_index = 1, ex_key = ''2'', ex_variables = [''a'' \<mapsto> JString ''2'', ''b'' \<mapsto> JString ''2'']\<rparr>])"
  by (simp add: expand_date_range_def parse_dt_def sample_calendar_def parse_digits_def is_digit_def digit_val_def
      date_loop.simps advance_def time_add_def day_ns_def ns_per_sec_def format_dt_def apply_date_mapping_def
      date_placeholder_def show_nat.simps digit_char_def char_of_def Let_def bit_simps)

text \<open>The key of a row is a column the hash map happens to list first.\<close>

lemma row_key_order:
  "expand_row [] (0, [(''a'', ''x''), (''b'', ''y'')]) = Ok \<lparr>ex_index = 0, ex_key = ''x'', ex_variables = Map.empty\<rparr>"
  "expand_row [] (0, [(''b'', ''y''), (''a'', ''x'')]) = Ok \<lparr>ex_index = 0, ex_key = ''y'', ex_variables = Map.empty\<rparr>"
  by (simp_all add: expand_row_def)

end
