(* ===== verification/Backfill_Store.thy ===== *)
theory Backfill_Store
  imports Backfill
begin

text \<open>
  \<open>backfill_store.rs\<close>: the SQLite tables of backfills and their iterations, as lists of rows.  Rows
  keep their typed values; the foreign key of an iteration is enforced and cascades.
\<close>

datatype bf_store_error = BfConstraint | BfOutOfRange | BfDatabase

text \<open>
  The two updates, which the coordinator writes while iterations run, can fail: the disk is full, the
  database is locked or damaged.  A set of them that fail is a parameter; each row gets each status at
  most once in a run.
\<close>

datatype bf_write = WIteration u32 iteration_status | WStatus backfill_status

record bf_db =
  bd_backfills :: "backfill list"
  bd_iterations :: "bf_iteration list"

definition bf_init_schema :: bf_db where
  "bf_init_schema = \<lparr>bd_backfills = [], bd_iterations = []\<rparr>"

definition create_backfill :: "backfill \<Rightarrow> bf_db \<Rightarrow> bf_store_error + bf_db" where
  "create_backfill b db =
     (if bf_id b \<in> bf_id ` set (bd_backfills db) then Err BfConstraint
      else Ok (db\<lparr>bd_backfills := bd_backfills db @ [b]\<rparr>))"

text \<open>The rows are inserted one by one; those before the first error stay.\<close>

fun create_iterations :: "bf_iteration list \<Rightarrow> bf_db \<Rightarrow> (bf_store_error + unit) \<times> bf_db" where
  "create_iterations [] db = (Ok (), db)"
| "create_iterations (it # its) db =
     (if bi_backfill_id it \<notin> bf_id ` set (bd_backfills db) \<or>
         (bi_backfill_id it, bi_index it) \<in> (\<lambda>r. (bi_backfill_id r, bi_index r)) ` set (bd_iterations db)
      then (Err BfConstraint, db)
      else create_iterations its (db\<lparr>bd_iterations := bd_iterations db @ [it]\<rparr>))"

definition get_backfill :: "bf_db \<Rightarrow> string \<Rightarrow> backfill option" where
  "get_backfill db i = find (\<lambda>b. bf_id b = i) (bd_backfills db)"

definition list_backfills ::
  "bf_db \<Rightarrow> string option \<Rightarrow> backfill_status option \<Rightarrow> nat \<Rightarrow> backfill list" where
  "list_backfills db pid status limit =
     take limit (sort_desc bf_created_at
       (filter (\<lambda>b. (case pid of None \<Rightarrow> True | Some p \<Rightarrow> bf_pipeline_id b = p) \<and>
                    (case status of None \<Rightarrow> True | Some s \<Rightarrow> bf_status b = s)) (bd_backfills db)))"

definition list_iterations :: "bf_db \<Rightarrow> string \<Rightarrow> bf_iteration list" where
  "list_iterations db i = sort_key bi_index (filter (\<lambda>r. bi_backfill_id r = i) (bd_iterations db))"

definition update_backfill_status ::
  "(bf_write \<Rightarrow> bool) \<Rightarrow> string \<Rightarrow> backfill_status \<Rightarrow> string option \<Rightarrow> string option \<Rightarrow> bf_db \<Rightarrow>
   (bf_store_error + unit) \<times> bf_db" where
  "update_backfill_status fails i status started_at completed_at db =
     (if fails (WStatus status) then (Err BfDatabase, db)
      else (Ok (), db\<lparr>bd_backfills := map (\<lambda>b. if bf_id b = i
          then b\<lparr>bf_status := status, bf_started_at := coalesce started_at (bf_started_at b),
                 bf_completed_at := coalesce completed_at (bf_completed_at b)\<rparr>
          else b) (bd_backfills db)\<rparr>))"

definition update_iteration ::
  "(bf_write \<Rightarrow> bool) \<Rightarrow> string \<Rightarrow> u32 \<Rightarrow> iteration_status \<Rightarrow> string option \<Rightarrow> string option \<Rightarrow> string option \<Rightarrow>
   string option \<Rightarrow> bf_db \<Rightarrow> (bf_store_error + unit) \<times> bf_db" where
  "update_iteration fails i index status run_id err started_at completed_at db =
     (if fails (WIteration index status) then (Err BfDatabase, db)
      else (Ok (), db\<lparr>bd_iterations := map (\<lambda>r. if bi_backfill_id r = i \<and> bi_index r = index
          then r\<lparr>bi_status := status, bi_run_id := coalesce run_id (bi_run_id r), bi_error := err,
                 bi_started_at := coalesce started_at (bi_started_at r),
                 bi_completed_at := coalesce completed_at (bi_completed_at r)\<rparr>
          else r) (bd_iterations db)\<rparr>))"

definition count_status :: "bf_db \<Rightarrow> string \<Rightarrow> iteration_status \<Rightarrow> nat" where
  "count_status db i status =
     length (filter (\<lambda>r. bi_backfill_id r = i \<and> bi_status r = status) (bd_iterations db))"

text \<open>The counts are read as \<open>u32\<close>.\<close>

definition get_progress :: "bf_db \<Rightarrow> string \<Rightarrow> bf_store_error + bf_progress" where
  "get_progress db i =
     (let n = count_status db i; all = [ItPending, ItRunning, ItSucceeded, ItFailed, ItSkipped]
      in if \<exists>status \<in> set all. n status \<ge> 2 ^ 32 then Err BfOutOfRange
         else Ok \<lparr>pg_total = of_nat (sum_list (map n all)), pg_succeeded = of_nat (n ItSucceeded),
           pg_failed = of_nat (n ItFailed), pg_running = of_nat (n ItRunning),
           pg_pending = of_nat (n ItPending), pg_skipped = of_nat (n ItSkipped)\<rparr>)"

definition delete_backfill :: "string \<Rightarrow> bf_db \<Rightarrow> bool \<times> bf_db" where
  "delete_backfill i db =
     (i \<in> bf_id ` set (bd_backfills db),
      db\<lparr>bd_backfills := filter (\<lambda>b. bf_id b \<noteq> i) (bd_backfills db),
         bd_iterations := filter (\<lambda>r. bi_backfill_id r \<noteq> i) (bd_iterations db)\<rparr>)"

subsection \<open>The status of an iteration\<close>

definition it_status :: "bf_db \<Rightarrow> string \<Rightarrow> u32 \<Rightarrow> iteration_status option" where
  "it_status db i index =
     map_option bi_status (find (\<lambda>r. bi_backfill_id r = i \<and> bi_index r = index) (bd_iterations db))"

lemma find_map_keep: "(\<And>r. P (f r) = P r) \<Longrightarrow> find P (map f xs) = map_option f (find P xs)"
  by (induction xs) auto

lemma updates_fail:
  "fails (WIteration index status) \<Longrightarrow> update_iteration fails i index status run_id err st ct db = (Err BfDatabase, db)"
  "fails (WStatus bs) \<Longrightarrow> update_backfill_status fails i bs a b db = (Err BfDatabase, db)"
  by (simp_all add: update_iteration_def update_backfill_status_def)

lemma fst_updates [simp]:
  "fst (update_iteration fails i index status run_id err st ct db) = (if fails (WIteration index status) then Err BfDatabase else Ok ())"
  "fst (update_backfill_status fails i bs a b db) = (if fails (WStatus bs) then Err BfDatabase else Ok ())"
  by (simp_all add: update_iteration_def update_backfill_status_def)

lemma it_status_update [simp]:
  "it_status (snd (update_iteration fails i index status run_id err st ct db)) i j =
     (if j = index \<and> \<not> fails (WIteration index status) then map_option (\<lambda>_. status) (it_status db i j) else it_status db i j)"
proof (cases "fails (WIteration index status)")
  case False
  then have "it_status (snd (update_iteration fails i index status run_id err st ct db)) i j =
      map_option (\<lambda>r. bi_status (if bi_backfill_id r = i \<and> bi_index r = index then r\<lparr>bi_status := status\<rparr> else r))
        (find (\<lambda>r. bi_backfill_id r = i \<and> bi_index r = j) (bd_iterations db))"
    unfolding it_status_def update_iteration_def
    by (simp add: find_map_keep option.map_comp comp_def if_distrib cong: if_cong)
  also have "\<dots> = (if j = index then map_option (\<lambda>_. status) (it_status db i j) else it_status db i j)"
    by (auto simp: it_status_def option.map_comp comp_def find_Some_iff intro!: option.map_cong)
  finally show ?thesis using False by simp
qed (simp add: updates_fail)

lemma it_status_update_backfill [simp]: "it_status (snd (update_backfill_status fails i' s a b db)) i j = it_status db i j"
  by (simp add: it_status_def update_backfill_status_def)

text \<open>Keys of the iteration table are unique.\<close>

definition bf_ok :: "bf_db \<Rightarrow> bool" where
  "bf_ok db \<longleftrightarrow> distinct (map bf_id (bd_backfills db)) \<and>
     distinct (map (\<lambda>r. (bi_backfill_id r, bi_index r)) (bd_iterations db)) \<and>
     bi_backfill_id ` set (bd_iterations db) \<subseteq> bf_id ` set (bd_backfills db)"

lemma bf_ok_init: "bf_ok bf_init_schema"
  by (simp add: bf_ok_def bf_init_schema_def)

lemma bf_ok_create: "create_backfill b db = Ok db' \<Longrightarrow> bf_ok db \<Longrightarrow> bf_ok db'"
  by (force simp: bf_ok_def create_backfill_def split: if_splits)

lemma bf_ok_iterations: "bf_ok db \<Longrightarrow> bf_ok (snd (create_iterations its db))"
proof (induction its db rule: create_iterations.induct)
  case (2 it its db)
  show ?case
  proof (cases "fst (create_iterations [it] db)")
    case (Inl e)
    then show ?thesis using 2 by (auto split: if_splits)
  next
    case (Inr u)
    then have "bf_ok (db\<lparr>bd_iterations := bd_iterations db @ [it]\<rparr>)"
      using "2.prems" by (auto simp: bf_ok_def split: if_splits)
    with 2 Inr show ?thesis by (auto split: if_splits)
  qed
qed simp

lemma update_keys [simp]:
  "map (\<lambda>r. (bi_backfill_id r, bi_index r)) (bd_iterations (snd (update_iteration fails i index s r e st ct db))) =
     map (\<lambda>r. (bi_backfill_id r, bi_index r)) (bd_iterations db)"
  "bd_backfills (snd (update_iteration fails i index s r e st ct db)) = bd_backfills db"
  "map bf_id (bd_backfills (snd (update_backfill_status fails i bs a b db))) = map bf_id (bd_backfills db)"
  "bd_iterations (snd (update_backfill_status fails i bs a b db)) = bd_iterations db"
  by (simp_all add: update_iteration_def update_backfill_status_def comp_def)

lemma bf_ok_cong:
  assumes "map bf_id (bd_backfills db') = map bf_id (bd_backfills db)"
    "map (\<lambda>r. (bi_backfill_id r, bi_index r)) (bd_iterations db') = map (\<lambda>r. (bi_backfill_id r, bi_index r)) (bd_iterations db)"
  shows "bf_ok db' = bf_ok db"
proof -
  have "map bi_backfill_id (bd_iterations db') = map bi_backfill_id (bd_iterations db)"
    using arg_cong [OF assms(2), of "map fst"] by (simp add: comp_def)
  then have "bi_backfill_id ` set (bd_iterations db') = bi_backfill_id ` set (bd_iterations db)" by (metis set_map)
  moreover have "bf_id ` set (bd_backfills db') = bf_id ` set (bd_backfills db)" using assms(1) by (metis set_map)
  ultimately show ?thesis using assms by (simp add: bf_ok_def)
qed

lemma bf_ok_update [simp]: "bf_ok (snd (update_iteration fails i index s r e st ct db)) = bf_ok db"
  by (rule bf_ok_cong) simp_all

lemma bf_ok_status [simp]: "bf_ok (snd (update_backfill_status fails i s a b db)) = bf_ok db"
  by (rule bf_ok_cong) simp_all

lemma it_status_row:
  assumes "bf_ok db" "r \<in> set (bd_iterations db)" "bi_backfill_id r = i"
  shows "it_status db i (bi_index r) = Some (bi_status r)"
proof -
  have "find (\<lambda>r'. bi_backfill_id r' = i \<and> bi_index r' = bi_index r) rs = Some r"
    if "distinct (map (\<lambda>r. (bi_backfill_id r, bi_index r)) rs)" "r \<in> set rs" for rs
    using that assms(3) by (induction rs) force+
  then show ?thesis using assms by (simp add: it_status_def bf_ok_def)
qed

lemma it_status_Some:
  assumes "it_status db i index = Some s"
  obtains r where "r \<in> set (bd_iterations db)" "bi_backfill_id r = i" "bi_index r = index" "bi_status r = s"
  using assms by (auto simp: it_status_def find_Some_iff dest: nth_mem)

lemma count_status_zero: "count_status db i s = 0 \<longleftrightarrow> (\<forall>r \<in> set (bd_iterations db). bi_backfill_id r = i \<longrightarrow> bi_status r \<noteq> s)"
  by (auto simp: count_status_def filter_empty_conv)

lemma progress_failed:
  assumes "get_progress db i = Ok p" "it_status db i index = Some ItFailed"
  shows "0 < pg_failed p"
proof -
  let ?n = "count_status db i ItFailed"
  have "?n \<noteq> 0" using assms(2) by (auto simp: count_status_zero elim: it_status_Some)
  moreover have "?n < 2 ^ 32" "pg_failed p = of_nat ?n"
    using assms(1) by (auto simp: get_progress_def Let_def split: if_splits)
  ultimately show ?thesis by (simp add: word_less_nat_alt unat_of_nat)
qed

end
