(* ===== verification/Backfill_Run.thy ===== *)
theory Backfill_Run
  imports Backfill_Store
begin

text \<open>
  \<open>backfill.rs\<close> of the execution crate: the coordinator that runs the iterations of a backfill.  Its
  loop, the tasks it spawns and the callers that may cancel run concurrently; \<open>co_step\<close> interleaves
  them.  The pipeline executor is a parameter, the relation of overrides to possible results, and so is
  the set of updates of the store that fail.
\<close>

datatype exec_result = ExecOk string | ExecErr string | ExecPanic

record bf_config =
  cf_id :: string
  cf_concurrency :: u32
  cf_fail_fast :: bool
  cf_full_refresh :: bool
  cf_overrides :: variables
  cf_exec :: "bool \<Rightarrow> variables \<Rightarrow> exec_result \<Rightarrow> bool"
  cf_fails :: "bf_write \<Rightarrow> bool"

datatype bf_event =
    BackfillStarted string u32
  | IterationStarted string u32 string
  | IterationCompleted string u32 string string
  | IterationFailed string u32 string string
  | BackfillEnded string bf_progress
  | BackfillCancelledEvent string

text \<open>Where a spawned task is: before its first update, in the executor, after a failure was flagged.\<close>

datatype phase = Spawned | Executing | Failing string

record coord =
  co_db :: bf_db
  co_todo :: "expanded list"
  co_wait :: "expanded option"
  co_open :: bool
  co_tasks :: "(expanded \<times> phase) list"
  co_permits :: nat
  co_failed :: bool
  co_cancelled :: bool
  co_events :: "bf_event list"

datatype bf_error = BfNotFound string | BfRange range_error | BfStore bf_store_error

definition cancel_backfill :: "(bf_write \<Rightarrow> bool) \<Rightarrow> string \<Rightarrow> string \<Rightarrow> bf_db \<Rightarrow> (bf_error + unit) \<times> bf_db" where
  "cancel_backfill fails i ts db = (case update_backfill_status fails i BfCancelled None (Some ts) db of
      (Inl e, db') \<Rightarrow> (Err (BfStore e), db')
    | (Inr _, db') \<Rightarrow> (Ok (), db'))"

subsection \<open>The loop and its tasks\<close>

text \<open>The executor on the options of an iteration: its variables win over the base overrides.\<close>

definition may_return :: "bf_config \<Rightarrow> expanded \<Rightarrow> exec_result \<Rightarrow> bool" where
  "may_return K x r = cf_exec K (cf_full_refresh K) (cf_overrides K ++ ex_variables x) r"

text \<open>The results of the updates of a task are dropped.\<close>

definition mark_running :: "bf_config \<Rightarrow> string \<Rightarrow> expanded \<Rightarrow> bf_db \<Rightarrow> bf_db" where
  "mark_running K ts x db = snd (update_iteration (cf_fails K) (cf_id K) (ex_index x) ItRunning None None (Some ts) None db)"

definition mark_succeeded :: "bf_config \<Rightarrow> string \<Rightarrow> string \<Rightarrow> expanded \<Rightarrow> bf_db \<Rightarrow> bf_db" where
  "mark_succeeded K ts run_id x db =
     snd (update_iteration (cf_fails K) (cf_id K) (ex_index x) ItSucceeded (Some run_id) None None (Some ts) db)"

definition mark_failed :: "bf_config \<Rightarrow> string \<Rightarrow> string \<Rightarrow> expanded \<Rightarrow> bf_db \<Rightarrow> bf_db" where
  "mark_failed K ts msg x db =
     snd (update_iteration (cf_fails K) (cf_id K) (ex_index x) ItFailed None (Some msg) None (Some ts) db)"

definition must_stop :: "bf_config \<Rightarrow> coord \<Rightarrow> bool" where
  "must_stop K c \<longleftrightarrow> co_cancelled c \<or> cf_fail_fast K \<and> co_failed c"

inductive co_internal :: "bf_config \<Rightarrow> coord \<Rightarrow> coord \<Rightarrow> bool" for K where
  loop_stop: "co_open c \<Longrightarrow> co_wait c = None \<Longrightarrow> co_todo c = x # xs \<Longrightarrow> must_stop K c \<Longrightarrow>
    co_internal K c (c\<lparr>co_open := False\<rparr>)"
| loop_admit: "co_open c \<Longrightarrow> co_wait c = None \<Longrightarrow> co_todo c = x # xs \<Longrightarrow> \<not> must_stop K c \<Longrightarrow>
    co_internal K c (c\<lparr>co_todo := xs, co_wait := Some x\<rparr>)"
| loop_spawn: "co_open c \<Longrightarrow> co_wait c = Some x \<Longrightarrow> co_permits c = Suc n \<Longrightarrow>
    co_internal K c (c\<lparr>co_wait := None, co_permits := n, co_tasks := co_tasks c @ [(x, Spawned)]\<rparr>)"
| loop_end: "co_open c \<Longrightarrow> co_wait c = None \<Longrightarrow> co_todo c = [] \<Longrightarrow>
    co_internal K c (c\<lparr>co_open := False\<rparr>)"
| task_start: "co_tasks c = us @ (x, Spawned) # vs \<Longrightarrow>
    co_internal K c (c\<lparr>co_tasks := us @ (x, Executing) # vs, co_db := mark_running K ts x (co_db c),
      co_events := co_events c @ [IterationStarted (cf_id K) (ex_index x) (ex_key x)]\<rparr>)"
| task_ok: "co_tasks c = us @ (x, Executing) # vs \<Longrightarrow> may_return K x (ExecOk run_id) \<Longrightarrow>
    co_internal K c (c\<lparr>co_tasks := us @ vs, co_permits := Suc (co_permits c),
      co_db := mark_succeeded K ts run_id x (co_db c),
      co_events := co_events c @ [IterationCompleted (cf_id K) (ex_index x) (ex_key x) run_id]\<rparr>)"
| task_fail: "co_tasks c = us @ (x, Executing) # vs \<Longrightarrow> may_return K x (ExecErr msg) \<Longrightarrow>
    co_internal K c (c\<lparr>co_tasks := us @ (x, Failing msg) # vs, co_failed := True\<rparr>)"
| task_failed: "co_tasks c = us @ (x, Failing msg) # vs \<Longrightarrow>
    co_internal K c (c\<lparr>co_tasks := us @ vs, co_permits := Suc (co_permits c),
      co_db := mark_failed K ts msg x (co_db c),
      co_events := co_events c @ [IterationFailed (cf_id K) (ex_index x) (ex_key x) msg]\<rparr>)"
| task_panic: "co_tasks c = us @ (x, Executing) # vs \<Longrightarrow> may_return K x ExecPanic \<Longrightarrow>
    co_internal K c (c\<lparr>co_tasks := us @ vs, co_permits := Suc (co_permits c)\<rparr>)"

text \<open>What other callers do: raise the cancel flag, or only write the status.\<close>

inductive co_env :: "bf_config \<Rightarrow> coord \<Rightarrow> coord \<Rightarrow> bool" for K where
  env_flag: "co_env K c (c\<lparr>co_cancelled := True\<rparr>)"
| env_status: "co_env K c (c\<lparr>co_db := snd (cancel_backfill fails (cf_id K) ts (co_db c))\<rparr>)"

definition co_step :: "bf_config \<Rightarrow> coord \<Rightarrow> coord \<Rightarrow> bool" where
  "co_step K c c' \<longleftrightarrow> co_internal K c c' \<or> co_env K c c'"

text \<open>All handles have been awaited.\<close>

definition co_done :: "coord \<Rightarrow> bool" where
  "co_done c \<longleftrightarrow> \<not> co_open c \<and> co_tasks c = []"

definition coordinator_start :: "bf_config \<Rightarrow> string \<Rightarrow> expanded list \<Rightarrow> nat \<Rightarrow> bf_db \<Rightarrow> coord" where
  "coordinator_start K now xs skipped db =
     \<lparr>co_db = snd (update_backfill_status (cf_fails K) (cf_id K) BfRunning (Some now) None db), co_todo = xs, co_wait = None,
      co_open = True, co_tasks = [], co_permits = unat (cf_concurrency K), co_failed = False,
      co_cancelled = False, co_events = [BackfillStarted (cf_id K) (of_nat (length xs) + of_nat skipped)]\<rparr>"

text \<open>The run goes on only when its first update, to \<open>running\<close>, has succeeded.\<close>

definition run_coordinator ::
  "bf_config \<Rightarrow> string \<Rightarrow> expanded list \<Rightarrow> nat \<Rightarrow> bf_db \<Rightarrow> (bf_error + coord) \<times> bf_db" where
  "run_coordinator K now xs skipped db =
     (case update_backfill_status (cf_fails K) (cf_id K) BfRunning (Some now) None db of
        (Inl e, db') \<Rightarrow> (Err (BfStore e), db')
      | (Inr _, db') \<Rightarrow> (Ok (coordinator_start K now xs skipped db), db'))"

definition final_status :: "coord \<Rightarrow> bf_progress \<Rightarrow> backfill_status" where
  "final_status c p = (if co_cancelled c then BfCancelled
     else if pg_failed p > 0 then BfFailed else BfCompleted)"

definition finish :: "bf_config \<Rightarrow> string \<Rightarrow> coord \<Rightarrow> (bf_error + string \<times> bf_progress) \<times> coord" where
  "finish K ts c = (case get_progress (co_db c) (cf_id K) of
      Inl e \<Rightarrow> (Err (BfStore e), c)
    | Inr p \<Rightarrow>
        let c1 = c\<lparr>co_events := co_events c @ (if co_cancelled c then [BackfillCancelledEvent (cf_id K)] else [])\<rparr>
        in case update_backfill_status (cf_fails K) (cf_id K) (final_status c p) None (Some ts) (co_db c) of
             (Inl e, db') \<Rightarrow> (Err (BfStore e), c1\<lparr>co_db := db'\<rparr>)
           | (Inr _, db') \<Rightarrow> (Ok (cf_id K, p), c1\<lparr>co_db := db', co_events := co_events c1 @ [BackfillEnded (cf_id K) p]\<rparr>))"

subsection \<open>Starting and resuming\<close>

definition pending_iteration :: "string \<Rightarrow> expanded \<Rightarrow> bf_iteration" where
  "pending_iteration i x = \<lparr>bi_backfill_id = i, bi_index = ex_index x, bi_key = ex_key x,
     bi_variables = ex_variables x, bi_status = ItPending, bi_run_id = None, bi_error = None,
     bi_started_at = None, bi_completed_at = None\<rparr>"

definition config_of ::
  "backfill \<Rightarrow> variables \<Rightarrow> (bool \<Rightarrow> variables \<Rightarrow> exec_result \<Rightarrow> bool) \<Rightarrow> (bf_write \<Rightarrow> bool) \<Rightarrow> bf_config" where
  "config_of b base exec fails = \<lparr>cf_id = bf_id b, cf_concurrency = bf_concurrency b,
     cf_fail_fast = bf_fail_fast b, cf_full_refresh = bf_full_refresh b, cf_overrides = base, cf_exec = exec,
     cf_fails = fails\<rparr>"

text \<open>Up to the coordinator loop; the database on the right is what an error leaves.\<close>

definition start_backfill ::
  "calendar \<Rightarrow> bf_config \<Rightarrow> string \<Rightarrow> backfill \<Rightarrow> bf_db \<Rightarrow> ((bf_error + coord) \<times> bf_db) option" where
  "start_backfill C K now b db = (case expand_range C (bf_range b) of
      None \<Rightarrow> None
    | Some (Inl e) \<Rightarrow> Some (Err (BfRange e), db)
    | Some (Inr xs) \<Rightarrow> (case create_backfill b db of
        Inl e \<Rightarrow> Some (Err (BfStore e), db)
      | Inr db1 \<Rightarrow> (case create_iterations (map (pending_iteration (bf_id b)) xs) db1 of
          (Inl e, db2) \<Rightarrow> Some (Err (BfStore e), db2)
        | (Inr _, db2) \<Rightarrow> Some (run_coordinator K now xs 0 db2))))"

definition expanded_of :: "bf_iteration \<Rightarrow> expanded" where
  "expanded_of r = \<lparr>ex_index = bi_index r, ex_key = bi_key r, ex_variables = bi_variables r\<rparr>"

definition succeeded_keys :: "bf_iteration list \<Rightarrow> string set" where
  "succeeded_keys rows = bi_key ` set (filter (\<lambda>r. bi_status r = ItSucceeded) rows)"

fun reset_failed :: "(bf_write \<Rightarrow> bool) \<Rightarrow> string \<Rightarrow> bf_iteration list \<Rightarrow> bf_db \<Rightarrow> (bf_store_error + unit) \<times> bf_db" where
  "reset_failed fails i [] db = (Ok (), db)"
| "reset_failed fails i (r # rows) db =
     (if bi_status r = ItFailed
      then (case update_iteration fails i (bi_index r) ItPending None None None None db of
          (Inl e, db') \<Rightarrow> (Err e, db')
        | (Inr _, db') \<Rightarrow> reset_failed fails i rows db')
      else reset_failed fails i rows db)"

definition to_run :: "bf_iteration list \<Rightarrow> expanded list" where
  "to_run rows = filter (\<lambda>x. ex_key x \<notin> succeeded_keys rows) (map expanded_of rows)"

definition resume_backfill ::
  "variables \<Rightarrow> (bool \<Rightarrow> variables \<Rightarrow> exec_result \<Rightarrow> bool) \<Rightarrow> (bf_write \<Rightarrow> bool) \<Rightarrow> string \<Rightarrow> string \<Rightarrow> bf_db \<Rightarrow>
   (bf_error + bf_config \<times> coord) \<times> bf_db" where
  "resume_backfill base exec fails now i db = (case get_backfill db i of
      None \<Rightarrow> (Err (BfNotFound i), db)
    | Some b \<Rightarrow>
        let K = config_of b base exec fails; rows = list_iterations db i
        in case reset_failed fails i rows db of
             (Inl e, db') \<Rightarrow> (Err (BfStore e), db')
           | (Inr _, db') \<Rightarrow>
               (case run_coordinator K now (to_run rows) (card (succeeded_keys rows)) db' of
                  (Inl e, db'') \<Rightarrow> (Err e, db'')
                | (Inr c, db'') \<Rightarrow> (Ok (K, c), db'')))"

section \<open>What the coordinator keeps\<close>

abbreviation status_of :: "bf_config \<Rightarrow> coord \<Rightarrow> expanded \<Rightarrow> iteration_status option" where
  "status_of K c x \<equiv> it_status (co_db c) (cf_id K) (ex_index x)"

definition settled :: "bf_config \<Rightarrow> coord \<Rightarrow> expanded \<Rightarrow> bool" where
  "settled K c x \<longleftrightarrow> status_of K c x = Some ItSucceeded \<or> status_of K c x = Some ItFailed \<and> co_failed c \<or>
     cf_fails K (WIteration (ex_index x) ItSucceeded) \<or> cf_fails K (WIteration (ex_index x) ItFailed) \<and> co_failed c \<or>
     may_return K x ExecPanic"

definition waiting :: "coord \<Rightarrow> expanded list" where
  "waiting c = (case co_wait c of None \<Rightarrow> [] | Some x \<Rightarrow> [x])"

text \<open>The failure of an iteration is in its row, unless that update was lost.\<close>

definition failure_noted :: "bf_config \<Rightarrow> coord \<Rightarrow> expanded \<Rightarrow> bool" where
  "failure_noted K c x \<longleftrightarrow> status_of K c x = Some ItFailed \<or> cf_fails K (WIteration (ex_index x) ItFailed)"

text \<open>Every iteration is in exactly one place: settled, in a task, waiting for a permit or to do.\<close>

definition placed :: "expanded list \<Rightarrow> expanded list \<Rightarrow> coord \<Rightarrow> bool" where
  "placed L fin c \<longleftrightarrow> mset L = mset (fin @ map fst (co_tasks c) @ waiting c @ co_todo c)"

definition coord_inv :: "bf_config \<Rightarrow> expanded list \<Rightarrow> bf_db \<Rightarrow> expanded list \<Rightarrow> coord \<Rightarrow> bool" where
  "coord_inv K L db fin c \<longleftrightarrow> placed L fin c \<and> (\<forall>x \<in> set fin. settled K c x) \<and>
     co_permits c + length (co_tasks c) = unat (cf_concurrency K) \<and>
     (\<forall>x \<in> set L. status_of K c x \<noteq> None) \<and>
     (\<forall>x msg. (x, Failing msg) \<in> set (co_tasks c) \<longrightarrow> co_failed c) \<and>
     (co_failed c \<longrightarrow> (\<exists>x \<in> set fin. failure_noted K c x) \<or> (\<exists>x msg. (x, Failing msg) \<in> set (co_tasks c))) \<and>
     (\<not> co_open c \<longrightarrow> co_wait c = None \<and> (co_todo c = [] \<or> must_stop K c)) \<and>
     (\<forall>j. j \<notin> ex_index ` set L \<longrightarrow> it_status (co_db c) (cf_id K) j = it_status db (cf_id K) j)"

lemma placed_distinct:
  assumes "placed L fin c" "distinct (map ex_index L)"
  shows "distinct (map ex_index (fin @ map fst (co_tasks c) @ waiting c @ co_todo c))"
  using assms mset_eq_imp_distinct_iff [of "map ex_index L" "map ex_index (fin @ map fst (co_tasks c) @ waiting c @ co_todo c)"]
  unfolding placed_def by (metis mset_map)

lemma placed_set: "placed L fin c \<Longrightarrow> set L = set fin \<union> fst ` set (co_tasks c) \<union> set (waiting c) \<union> set (co_todo c)"
  unfolding placed_def by (drule mset_eq_setD) auto

lemma coord_invD:
  assumes "coord_inv K L db fin c"
  shows "placed L fin c" "x \<in> set fin \<Longrightarrow> settled K c x"
    "co_permits c + length (co_tasks c) = unat (cf_concurrency K)"
    "x \<in> set L \<Longrightarrow> status_of K c x \<noteq> None"
    "(x, Failing msg) \<in> set (co_tasks c) \<Longrightarrow> co_failed c"
    "co_failed c \<Longrightarrow> (\<exists>x \<in> set fin. failure_noted K c x) \<or> (\<exists>x msg. (x, Failing msg) \<in> set (co_tasks c))"
    "\<not> co_open c \<Longrightarrow> co_wait c = None \<and> (co_todo c = [] \<or> must_stop K c)"
    "j \<notin> ex_index ` set L \<Longrightarrow> it_status (co_db c) (cf_id K) j = it_status db (cf_id K) j"
  using assms unfolding coord_inv_def by blast+

lemma status_marks [simp]:
  "it_status (mark_running K ts x d) (cf_id K) j =
     (if j = ex_index x \<and> \<not> cf_fails K (WIteration (ex_index x) ItRunning) then map_option (\<lambda>_. ItRunning) (it_status d (cf_id K) j) else it_status d (cf_id K) j)"
  "it_status (mark_succeeded K ts r x d) (cf_id K) j =
     (if j = ex_index x \<and> \<not> cf_fails K (WIteration (ex_index x) ItSucceeded) then map_option (\<lambda>_. ItSucceeded) (it_status d (cf_id K) j) else it_status d (cf_id K) j)"
  "it_status (mark_failed K ts msg x d) (cf_id K) j =
     (if j = ex_index x \<and> \<not> cf_fails K (WIteration (ex_index x) ItFailed) then map_option (\<lambda>_. ItFailed) (it_status d (cf_id K) j) else it_status d (cf_id K) j)"
  by (simp_all add: mark_running_def mark_succeeded_def mark_failed_def)

text \<open>A task of the coordinator, and what the others are.\<close>

lemma task_others:
  assumes "coord_inv K L db fin c" "distinct (map ex_index L)" "co_tasks c = us @ (x, ph) # vs"
  shows "x \<in> set L" "status_of K c x \<noteq> None"
    "\<And>y. y \<in> set fin \<Longrightarrow> ex_index y \<noteq> ex_index x"
    "\<And>y q. (y, q) \<in> set us \<union> set vs \<Longrightarrow> ex_index y \<noteq> ex_index x"
proof -
  note d = placed_distinct [OF coord_invD(1) [OF assms(1)] assms(2)]
  show L: "x \<in> set L" using placed_set [OF coord_invD(1) [OF assms(1)]] assms(3) by auto
  then show "status_of K c x \<noteq> None" using coord_invD(4) [OF assms(1)] by blast
  show "ex_index y \<noteq> ex_index x" if "y \<in> set fin" for y
    using d that unfolding assms(3) by (auto simp: image_iff)
  show "ex_index y \<noteq> ex_index x" if "(y, q) \<in> set us \<union> set vs" for y q
    using d that unfolding assms(3) by (auto simp: image_iff)
qed

lemma inv_start:
  assumes "coord_inv K L db fin c" "distinct (map ex_index L)" "co_tasks c = us @ (x, Spawned) # vs"
  shows "coord_inv K L db fin (c\<lparr>co_tasks := us @ (x, Executing) # vs, co_db := mark_running K ts x (co_db c),
      co_events := ev\<rparr>)"
proof -
  note D = coord_invD [OF assms(1)] and T = task_others [OF assms]
  obtain s where s: "status_of K c x = Some s" using T(2) by auto
  show ?thesis
    using D T(1,3,4) s assms(3)
    by (auto simp: coord_inv_def placed_def waiting_def settled_def failure_noted_def must_stop_def)
qed

lemma inv_ok:
  assumes "coord_inv K L db fin c" "distinct (map ex_index L)" "co_tasks c = us @ (x, Executing) # vs"
  shows "coord_inv K L db (x # fin) (c\<lparr>co_tasks := us @ vs, co_permits := Suc (co_permits c),
      co_db := mark_succeeded K ts run_id x (co_db c), co_events := ev\<rparr>)"
proof -
  note D = coord_invD [OF assms(1)] and T = task_others [OF assms]
  obtain s where s: "status_of K c x = Some s" using T(2) by auto
  show ?thesis
    using D T(1,3,4) s assms(3)
    by (auto simp: coord_inv_def placed_def waiting_def settled_def failure_noted_def must_stop_def)
qed

lemma inv_panic:
  assumes "coord_inv K L db fin c" "distinct (map ex_index L)" "co_tasks c = us @ (x, Executing) # vs"
    "may_return K x ExecPanic"
  shows "coord_inv K L db (x # fin) (c\<lparr>co_tasks := us @ vs, co_permits := Suc (co_permits c)\<rparr>)"
proof -
  note D = coord_invD [OF assms(1)] and T = task_others [OF assms(1-3)]
  show ?thesis
    using D T(1,3,4) assms(3,4)
    by (auto simp: coord_inv_def placed_def waiting_def settled_def failure_noted_def must_stop_def)
qed

lemma inv_fail:
  assumes "coord_inv K L db fin c" "distinct (map ex_index L)" "co_tasks c = us @ (x, Executing) # vs"
  shows "coord_inv K L db fin (c\<lparr>co_tasks := us @ (x, Failing msg) # vs, co_failed := True\<rparr>)"
proof -
  note D = coord_invD [OF assms(1)]
  show ?thesis
    using D assms(3)
    by (auto simp: coord_inv_def placed_def waiting_def settled_def failure_noted_def must_stop_def)
qed

lemma inv_failed:
  assumes "coord_inv K L db fin c" "distinct (map ex_index L)" "co_tasks c = us @ (x, Failing msg) # vs"
  shows "coord_inv K L db (x # fin) (c\<lparr>co_tasks := us @ vs, co_permits := Suc (co_permits c),
      co_db := mark_failed K ts msg x (co_db c), co_events := ev\<rparr>)"
proof -
  note D = coord_invD [OF assms(1)] and T = task_others [OF assms]
  obtain s where s: "status_of K c x = Some s" using T(2) by auto
  have f: "co_failed c" by (rule D(5) [of x msg]) (simp add: assms(3))
  show ?thesis
    using D T(1,3,4) s f assms(3)
    by (auto simp: coord_inv_def placed_def waiting_def settled_def failure_noted_def must_stop_def)
qed

lemma inv_loop:
  assumes "coord_inv K L db fin c" "co_open c"
  shows "co_wait c = None \<Longrightarrow> co_todo c = [] \<or> must_stop K c \<Longrightarrow> coord_inv K L db fin (c\<lparr>co_open := False\<rparr>)"
    "co_wait c = None \<Longrightarrow> co_todo c = x # xs \<Longrightarrow> coord_inv K L db fin (c\<lparr>co_todo := xs, co_wait := Some x\<rparr>)"
    "co_wait c = Some x \<Longrightarrow> co_permits c = Suc n \<Longrightarrow>
       coord_inv K L db fin (c\<lparr>co_wait := None, co_permits := n, co_tasks := co_tasks c @ [(x, Spawned)]\<rparr>)"
  using coord_invD [OF assms(1)] assms(2)
  by (auto simp: coord_inv_def placed_def waiting_def settled_def failure_noted_def must_stop_def)

lemma inv_internal:
  assumes "co_internal K c c'" "coord_inv K L db fin c" "distinct (map ex_index L)"
  shows "\<exists>fin'. coord_inv K L db fin' c'"
  using assms(1)
proof cases
  case (loop_stop x xs)
  then show ?thesis using inv_loop(1) [OF assms(2)] by blast
next
  case (loop_admit x xs)
  then show ?thesis using inv_loop(2) [OF assms(2)] by blast
next
  case (loop_spawn x n)
  then show ?thesis using inv_loop(3) [OF assms(2)] by blast
next
  case loop_end
  then show ?thesis using inv_loop(1) [OF assms(2)] by blast
next
  case (task_start us x vs ts)
  then show ?thesis using inv_start [OF assms(2,3)] by blast
next
  case (task_ok us x vs run_id ts)
  then show ?thesis using inv_ok [OF assms(2,3)] by blast
next
  case (task_fail us x vs msg)
  then show ?thesis using inv_fail [OF assms(2,3)] by blast
next
  case (task_failed us x msg vs ts)
  then show ?thesis using inv_failed [OF assms(2,3)] by blast
next
  case (task_panic us x vs)
  then show ?thesis using inv_panic [OF assms(2,3)] by blast
qed

lemma snd_cancel: "snd (cancel_backfill fails i ts db) = snd (update_backfill_status fails i BfCancelled None (Some ts) db)"
  by (simp add: cancel_backfill_def split: prod.split sum.split)

lemma inv_env: "co_env K c c' \<Longrightarrow> coord_inv K L db fin c \<Longrightarrow> coord_inv K L db fin c'"
  by (erule co_env.cases)
    (auto simp: coord_inv_def placed_def waiting_def settled_def failure_noted_def must_stop_def snd_cancel)

lemma inv_reachable:
  assumes "(co_step K)\<^sup>*\<^sup>* c c'" "coord_inv K L db fin c" "distinct (map ex_index L)"
  shows "\<exists>fin'. coord_inv K L db fin' c'"
  using assms(1)
proof (induction rule: rtranclp_induct)
  case base
  then show ?case using assms(2) by blast
next
  case (step y z)
  then obtain fin' where "coord_inv K L db fin' y" by blast
  with step(2) show ?case using inv_internal [OF _ _ assms(3)] inv_env unfolding co_step_def by blast
qed

lemma inv_initial:
  assumes "\<forall>x \<in> set L. it_status db (cf_id K) (ex_index x) \<noteq> None"
  shows "coord_inv K L db [] (coordinator_start K now L n db)"
  using assms by (simp add: coord_inv_def coordinator_start_def placed_def waiting_def)

lemma run_inv:
  assumes "(co_step K)\<^sup>*\<^sup>* (coordinator_start K now L n db) c" "distinct (map ex_index L)"
    "\<forall>x \<in> set L. it_status db (cf_id K) (ex_index x) \<noteq> None"
  obtains fin where "coord_inv K L db fin c"
  using inv_reachable [OF assms(1) inv_initial [OF assms(3)] assms(2)] by blast

text \<open>
  A finished run that counts as completed: every iteration has succeeded, unless the update that would
  say how it ended was lost, or the loop stopped early for a failure whose update was lost.
\<close>

definition accounted :: "bf_config \<Rightarrow> u32 set \<Rightarrow> u32 \<Rightarrow> iteration_status option \<Rightarrow> bool" where
  "accounted K js j s \<longleftrightarrow> s = Some ItSucceeded \<or> cf_fails K (WIteration j ItSucceeded) \<or>
     cf_fails K (WIteration j ItFailed) \<or> cf_fail_fast K \<and> (\<exists>k \<in> js. cf_fails K (WIteration k ItFailed))"

lemma run_completed:
  assumes "coord_inv K L db fin c" "co_done c" "get_progress (co_db c) (cf_id K) = Ok p"
    "final_status c p = BfCompleted" "\<forall>x \<in> set L. \<not> may_return K x ExecPanic"
  shows "\<forall>x \<in> set L. accounted K (ex_index ` set L) (ex_index x) (status_of K c x)"
proof -
  note D = coord_invD [OF assms(1)]
  from assms(2) have ended: "\<not> co_open c" "co_tasks c = []" by (simp_all add: co_done_def)
  from assms(4) have ok: "\<not> co_cancelled c" "\<not> 0 < pg_failed p" by (auto simp: final_status_def split: if_splits)
  have none: "status_of K c x \<noteq> Some ItFailed" for x using progress_failed [OF assms(3)] ok(2) by blast
  note L = placed_set [OF D(1)]
  show ?thesis
  proof (cases "cf_fail_fast K \<and> co_failed c")
    case True
    then obtain k where "k \<in> set fin" "cf_fails K (WIteration (ex_index k) ItFailed)"
      using D(6) ended(2) none by (auto simp: failure_noted_def)
    then show ?thesis using True L by (auto simp: accounted_def)
  next
    case False
    with ok(1) D(7) ended(1) have "co_todo c = []" "waiting c = []" by (auto simp: must_stop_def waiting_def)
    then have "set L = set fin" using L ended(2) by simp
    then show ?thesis using D(2) none assms(5) unfolding settled_def accounted_def by blast
  qed
qed

lemma step_bf_ok: "co_step K c c' \<Longrightarrow> bf_ok (co_db c') = bf_ok (co_db c)"
  by (auto simp: co_step_def snd_cancel mark_running_def mark_succeeded_def mark_failed_def
      elim!: co_internal.cases co_env.cases)

lemma step_ids: "co_step K c c' \<Longrightarrow> map bf_id (bd_backfills (co_db c')) = map bf_id (bd_backfills (co_db c))"
  by (auto simp: co_step_def snd_cancel mark_running_def mark_succeeded_def mark_failed_def
      elim!: co_internal.cases co_env.cases)

lemma steps_db:
  assumes "(co_step K)\<^sup>*\<^sup>* c c'"
  shows "bf_ok (co_db c') = bf_ok (co_db c) \<and> map bf_id (bd_backfills (co_db c')) = map bf_id (bd_backfills (co_db c))"
  using assms by (induction rule: rtranclp_induct) (auto simp: step_bf_ok step_ids)

lemma finish_cases:
  assumes "finish K ts c = (Ok (i, p), c')"
  shows "get_progress (co_db c) (cf_id K) = Ok p" "i = cf_id K" "\<not> cf_fails K (WStatus (final_status c p))"
    "co_db c' = snd (update_backfill_status (cf_fails K) (cf_id K) (final_status c p) None (Some ts) (co_db c))"
  using assms by (auto simp: finish_def update_backfill_status_def Let_def split: sum.splits if_splits)

lemma finish_status:
  assumes "finish K ts c = (Ok (i, p), c')" "cf_id K \<in> bf_id ` set (bd_backfills (co_db c))"
  shows "\<exists>b. get_backfill (co_db c') (cf_id K) = Some b \<and> bf_status b = final_status c p"
proof -
  from assms(2) obtain b where "find (\<lambda>b. bf_id b = cf_id K) (bd_backfills (co_db c)) = Some b"
    by (cases "find (\<lambda>b. bf_id b = cf_id K) (bd_backfills (co_db c))") (auto simp: find_None_iff)
  moreover from this have "bf_id b = cf_id K" by (auto simp: find_Some_iff)
  ultimately show ?thesis
    by (simp add: finish_cases(3,4) [OF assms(1)] get_backfill_def update_backfill_status_def find_map_keep)
qed

abbreviation row_key :: "bf_iteration \<Rightarrow> string \<times> u32" where
  "row_key r \<equiv> (bi_backfill_id r, bi_index r)"

lemma create_iterations_Ok:
  "create_iterations its db = (Ok u, db') \<Longrightarrow> db' = db\<lparr>bd_iterations := bd_iterations db @ its\<rparr> \<and>
     distinct (map row_key its) \<and> row_key ` set its \<inter> row_key ` set (bd_iterations db) = {}"
proof (induction its arbitrary: db)
  case (Cons it its)
  let ?db = "db\<lparr>bd_iterations := bd_iterations db @ [it]\<rparr>"
  from Cons.prems have "row_key it \<notin> row_key ` set (bd_iterations db)" and "create_iterations its ?db = (Ok u, db')"
    by (auto split: if_splits)
  with Cons.IH [of ?db] show ?case by auto
qed simp

lemma it_status_rows: "it_status db i j \<noteq> None \<longleftrightarrow> (\<exists>r \<in> set (bd_iterations db). bi_backfill_id r = i \<and> bi_index r = j)"
  by (auto simp: it_status_def find_None_iff)

lemma run_coordinator_Ok:
  "run_coordinator K now xs n db = (Ok c, db') \<Longrightarrow> c = coordinator_start K now xs n db"
  by (auto simp: run_coordinator_def split: prod.splits sum.splits)

lemma start_backfill_Ok:
  assumes "start_backfill C K now b db = Some (Ok c0, db1)" "bf_ok db" "cf_id K = bf_id b"
  obtains xs db' where "expand_range C (bf_range b) = Some (Ok xs)" "c0 = coordinator_start K now xs 0 db'"
    "distinct (map ex_index xs)" "\<forall>j. it_status db' (cf_id K) j \<noteq> None \<longleftrightarrow> j \<in> ex_index ` set xs"
    "bf_ok db'" "bf_id b \<in> bf_id ` set (bd_backfills db')"
proof -
  from assms(1) obtain xs db2 db' where xs: "expand_range C (bf_range b) = Some (Ok xs)"
    and db2: "create_backfill b db = Ok db2" and its: "create_iterations (map (pending_iteration (bf_id b)) xs) db2 = (Ok (), db')"
    and run: "run_coordinator K now xs 0 db' = (Ok c0, db1)"
    by (auto simp: start_backfill_def split: option.splits sum.splits prod.splits)
  note c0 = run_coordinator_Ok [OF run] and d = create_iterations_Ok [OF its]
  have new: "bf_id b \<notin> bi_backfill_id ` set (bd_iterations db2)"
  proof -
    have "bf_id b \<notin> bf_id ` set (bd_backfills db)" "bd_iterations db2 = bd_iterations db"
      using db2 by (auto simp: create_backfill_def split: if_splits)
    then show ?thesis using assms(2) unfolding bf_ok_def by auto
  qed
  have ok1: "bf_ok db2" by (rule bf_ok_create [OF db2 assms(2)])
  show thesis
  proof (rule that [OF xs c0])
    show "distinct (map ex_index xs)"
      using d by (auto simp: comp_def pending_iteration_def distinct_map inj_on_def)
    show "bf_ok db'" using bf_ok_iterations [OF ok1] its by (metis snd_conv)
    show "bf_id b \<in> bf_id ` set (bd_backfills db')" using d db2 by (auto simp: create_backfill_def split: if_splits)
    have rows: "bd_iterations db' = bd_iterations db2 @ map (pending_iteration (bf_id b)) xs" using d by simp
    have no: "bi_backfill_id r \<noteq> bf_id b" if "r \<in> set (bd_iterations db2)" for r using new that by (metis imageI)
    show "\<forall>j. it_status db' (cf_id K) j \<noteq> None \<longleftrightarrow> j \<in> ex_index ` set xs"
      unfolding it_status_rows assms(3) rows by (auto simp: pending_iteration_def no bex_Un)
  qed
qed

text \<open>
  C16: when a new backfill ends with the stored status \<open>completed\<close>, whatever the interleaving of the loop, its
  tasks and callers that cancel, each iteration is stored as succeeded, or the update that says how it ended
  failed, or under fail-fast such an update of a failed iteration did; the executor does not panic.
\<close>

theorem completed_means_succeeded:
  assumes "start_backfill C (config_of b base exec fails) now b db = Some (Ok c0, db')" "bf_ok db"
    and "(co_step (config_of b base exec fails))\<^sup>*\<^sup>* c0 c" "co_done c"
    and "finish (config_of b base exec fails) ts c = (Ok (i, p), c')"
    and "get_backfill (co_db c') (bf_id b) = Some b'" "bf_status b' = BfCompleted"
    and "\<And>full vars. \<not> exec full vars ExecPanic"
  shows "\<forall>r \<in> set (bd_iterations (co_db c')). bi_backfill_id r = bf_id b \<longrightarrow> bi_status r = ItSucceeded \<or>
    fails (WIteration (bi_index r) ItSucceeded) \<or> fails (WIteration (bi_index r) ItFailed) \<or>
    bf_fail_fast b \<and> (\<exists>k. it_status (co_db c') (bf_id b) k \<noteq> None \<and> fails (WIteration k ItFailed))"
proof (intro ballI impI)
  fix r assume r: "r \<in> set (bd_iterations (co_db c'))" "bi_backfill_id r = bf_id b"
  let ?K = "config_of b base exec fails"
  have K: "cf_id ?K = bf_id b" "cf_fails ?K = fails" "cf_fail_fast ?K = bf_fail_fast b" by (simp_all add: config_of_def)
  obtain xs db' where c0: "c0 = coordinator_start ?K now xs 0 db'" and dis: "distinct (map ex_index xs)"
    and rows: "\<forall>j. it_status db' (cf_id ?K) j \<noteq> None \<longleftrightarrow> j \<in> ex_index ` set xs"
    and ok: "bf_ok db'" and b: "bf_id b \<in> bf_id ` set (bd_backfills db')"
    using start_backfill_Ok [OF assms(1,2) K(1)] by metis
  obtain fin where inv: "coord_inv ?K xs db' fin c"
    by (rule run_inv [OF assms(3) [unfolded c0] dis]) (use rows in auto)
  note steps = steps_db [OF assms(3)]
  have "map bf_id (bd_backfills (co_db c)) = map bf_id (bd_backfills db')"
    using steps by (simp add: c0 coordinator_start_def)
  from arg_cong [OF this, of set] b have "cf_id ?K \<in> bf_id ` set (bd_backfills (co_db c))" by (simp add: K)
  from finish_status [OF assms(5) this] assms(6,7) have final: "final_status c p = BfCompleted" by (simp add: K)
  have same: "it_status (co_db c') (bf_id b) j = it_status (co_db c) (cf_id ?K) j" for j
    by (simp add: finish_cases(4) [OF assms(5)] K)
  have "bf_ok (co_db c')" using steps ok by (simp add: finish_cases(4) [OF assms(5)] c0 coordinator_start_def)
  from it_status_row [OF this r] have st: "it_status (co_db c) (cf_id ?K) (bi_index r) = Some (bi_status r)"
    using same by simp
  then have "bi_index r \<in> ex_index ` set xs" using coord_invD(8) [OF inv, of "bi_index r"] rows by force
  then obtain x where "x \<in> set xs" "ex_index x = bi_index r" by auto
  with run_completed [OF inv assms(4) finish_cases(1) [OF assms(5)] final] assms(8) st
  have "accounted ?K (ex_index ` set xs) (bi_index r) (Some (bi_status r))" by (force simp: may_return_def config_of_def)
  moreover have "\<forall>k \<in> ex_index ` set xs. it_status (co_db c') (bf_id b) k \<noteq> None"
    using coord_invD(4) [OF inv] same by auto
  ultimately show "bi_status r = ItSucceeded \<or> fails (WIteration (bi_index r) ItSucceeded) \<or>
    fails (WIteration (bi_index r) ItFailed) \<or>
    bf_fail_fast b \<and> (\<exists>k. it_status (co_db c') (bf_id b) k \<noteq> None \<and> fails (WIteration k ItFailed))"
    unfolding accounted_def K by blast
qed

subsection \<open>Fail-fast\<close>

definition started :: "coord \<Rightarrow> nat" where
  "started c = length (filter (\<lambda>e. case e of IterationStarted _ _ _ \<Rightarrow> True | _ \<Rightarrow> False) (co_events c))"

definition to_start :: "coord \<Rightarrow> nat" where
  "to_start c = length (filter (\<lambda>(x, ph). ph = Spawned) (co_tasks c)) + length (waiting c)"

lemma fail_fast_step:
  assumes "co_step K c c'" "must_stop K c"
  shows "must_stop K c' \<and> co_todo c' = co_todo c \<and> started c' + to_start c' = started c + to_start c"
  using assms
  by (auto simp: co_step_def must_stop_def started_def to_start_def waiting_def
      elim!: co_internal.cases co_env.cases)

text \<open>
  Once the backfill is cancelled, or an iteration has failed under fail-fast, the loop takes no
  further iteration: besides the tasks that run already, at most the spawned ones and the single
  iteration that waits for a permit still start.
\<close>

theorem stop_bounds_starts:
  assumes "(co_step K)\<^sup>*\<^sup>* c c'" "co_cancelled c \<or> cf_fail_fast K \<and> co_failed c"
  shows "co_todo c' = co_todo c \<and>
    started c' \<le> started c + length (filter (\<lambda>(x, ph). ph = Spawned) (co_tasks c)) + 1"
proof -
  have "must_stop K c' \<and> co_todo c' = co_todo c \<and> started c' + to_start c' = started c + to_start c"
    using assms(1)
  proof (induction rule: rtranclp_induct)
    case base
    then show ?case using assms(2) by (simp add: must_stop_def)
  next
    case (step y z)
    then show ?case using fail_fast_step [OF step(2)] by simp
  qed
  moreover have "length (waiting c) \<le> 1" by (simp add: waiting_def split: option.split)
  ultimately show ?thesis by (auto simp: to_start_def)
qed

subsection \<open>Progress\<close>

fun phase_work :: "phase \<Rightarrow> nat" where
  "phase_work Spawned = 3"
| "phase_work Executing = 2"
| "phase_work (Failing msg) = 1"

text \<open>A bound on the internal steps left.\<close>

definition work :: "coord \<Rightarrow> nat" where
  "work c = 5 * length (co_todo c) + 4 * length (waiting c) + sum_list (map (phase_work \<circ> snd) (co_tasks c)) +
     (if co_open c then 1 else 0)"

lemma internal_works: "co_internal K c c' \<Longrightarrow> work c' < work c"
  by (erule co_internal.cases) (auto simp: work_def waiting_def)

lemma task_moves:
  assumes "(x, ph) \<in> set (co_tasks c)" "\<And>x. \<exists>r. may_return K x r"
  shows "\<exists>c'. co_internal K c c'"
proof -
  obtain us vs where t: "co_tasks c = us @ (x, ph) # vs" using assms(1) by (auto simp: in_set_conv_decomp)
  show ?thesis
  proof (cases ph)
    case Spawned
    with t show ?thesis by (blast intro: task_start)
  next
    case Executing
    obtain r where "may_return K x r" using assms(2) by blast
    with t Executing show ?thesis by (cases r) (blast intro: task_ok task_fail task_panic)+
  next
    case (Failing msg)
    with t show ?thesis by (blast intro: task_failed)
  qed
qed

lemma coordinator_moves:
  assumes "coord_inv K L db fin c" "0 < cf_concurrency K" "\<And>x. \<exists>r. may_return K x r" "\<not> co_done c"
  shows "\<exists>c'. co_internal K c c'"
proof (cases "co_tasks c = []")
  case False
  then obtain x ph ts where "co_tasks c = (x, ph) # ts" by (cases "co_tasks c") auto
  then show ?thesis using task_moves [OF _ assms(3), of x ph] by simp
next
  case True
  then have op: "co_open c" using assms(4) by (simp add: co_done_def)
  have "0 < unat (cf_concurrency K)" using assms(2) by (simp add: word_less_nat_alt)
  then obtain n where n: "co_permits c = Suc n"
    using coord_invD(3) [OF assms(1)] True by (cases "co_permits c") auto
  show ?thesis
  proof (cases "co_wait c")
    case (Some x)
    with op n show ?thesis by (blast intro: loop_spawn)
  next
    case None
    then show ?thesis using op
      by (cases "co_todo c"; cases "must_stop K c") (blast intro: loop_stop loop_admit loop_end)+
  qed
qed

lemma internal_bounded: "(co_internal K ^^ n) c c' \<Longrightarrow> n + work c' \<le> work c"
proof (induction n arbitrary: c')
  case (Suc n)
  then obtain d where "(co_internal K ^^ n) c d" "co_internal K d c'" by auto
  with Suc.IH [of d] internal_works show ?case by fastforce
qed simp

lemma coordinator_finishes:
  assumes "coord_inv K L db fin c" "distinct (map ex_index L)" "0 < cf_concurrency K" "\<And>x. \<exists>r. may_return K x r"
  shows "\<exists>c'. (co_internal K)\<^sup>*\<^sup>* c c' \<and> co_done c'"
  using assms(1)
proof (induction "work c" arbitrary: c fin rule: less_induct)
  case less
  show ?case
  proof (cases "co_done c")
    case False
    then obtain d where d: "co_internal K c d" using coordinator_moves [OF less.prems assms(3,4)] by blast
    obtain fin' where "coord_inv K L db fin' d" using inv_internal [OF d less.prems assms(2)] by blast
    with less.hyps [OF internal_works [OF d]] d show ?thesis by (meson converse_rtranclp_into_rtranclp)
  qed blast
qed

text \<open>
  C17: a backfill with a positive concurrency always ends when the executor returns: from every state
  the coordinator can reach, its own steps lead to the end, and no sequence of them is longer than
  five for every iteration that is left; at most \<open>concurrency\<close> iterations run at a time.
\<close>

theorem coordinator_terminates:
  assumes "(co_step K)\<^sup>*\<^sup>* (coordinator_start K now L n db) c" "distinct (map ex_index L)"
    and "\<forall>x \<in> set L. it_status db (cf_id K) (ex_index x) \<noteq> None"
    and "0 < cf_concurrency K" "\<And>x. \<exists>r. may_return K x r"
  shows "(\<exists>c'. (co_internal K)\<^sup>*\<^sup>* c c' \<and> co_done c') \<and>
    (\<forall>k c'. (co_internal K ^^ k) c c' \<longrightarrow> k \<le> 5 * length L + 1) \<and>
    length (co_tasks c) \<le> unat (cf_concurrency K)"
proof -
  obtain fin where inv: "coord_inv K L db fin c" by (rule run_inv [OF assms(1-3)])
  have "work c \<le> 5 * length L + 1"
  proof -
    have "sum_list (map (phase_work \<circ> snd) ts) \<le> 5 * length ts" for ts :: "(expanded \<times> phase) list"
    proof (induction ts)
      case (Cons t ts)
      then show ?case by (cases "snd t") auto
    qed simp
    from this [of "co_tasks c"]
    have "sum_list (map (phase_work \<circ> snd) (co_tasks c)) \<le> 5 * length (co_tasks c)" .
    moreover have "length L = length fin + length (co_tasks c) + length (waiting c) + length (co_todo c)"
      using coord_invD(1) [OF inv] unfolding placed_def by (metis size_mset length_append length_map add.assoc)
    ultimately show ?thesis unfolding work_def by simp
  qed
  then show ?thesis
    using coordinator_finishes [OF inv assms(2,4,5)] internal_bounded coord_invD(3) [OF inv]
    by (metis add_leE le_trans le_add2)
qed

subsection \<open>Resuming\<close>

lemma reset_failed_status:
  "reset_failed fails i rows db = (Ok u, db') \<Longrightarrow> it_status db' i j =
     (if \<exists>r \<in> set rows. bi_status r = ItFailed \<and> bi_index r = j
      then map_option (\<lambda>_. ItPending) (it_status db i j) else it_status db i j)"
proof (induction rows arbitrary: db)
  case (Cons r rows)
  let ?q = "update_iteration fails i (bi_index r) ItPending None None None None db"
  show ?case
  proof (cases "bi_status r = ItFailed")
    case True
    then have ok: "\<not> fails (WIteration (bi_index r) ItPending)" and rest: "reset_failed fails i rows (snd ?q) = (Ok u, db')"
      using Cons.prems by (auto simp: update_iteration_def split: if_splits)
    show ?thesis using Cons.IH [OF rest] True ok by (auto simp: option.map_comp comp_def)
  next
    case False
    then show ?thesis using Cons by auto
  qed
qed simp

lemma reset_failed_ok: "bf_ok (snd (reset_failed fails i rows db)) = bf_ok db"
proof (induction rows arbitrary: db)
  case (Cons r rows)
  let ?q = "update_iteration fails i (bi_index r) ItPending None None None None db"
  show ?case using Cons.IH [of "snd ?q"] Cons.IH [of db] bf_ok_update [of fails i "bi_index r" ItPending None None None None db]
    by (cases ?q) (auto split: sum.split)
qed simp

lemma rows_of: "r \<in> set (list_iterations db i) \<longleftrightarrow> r \<in> set (bd_iterations db) \<and> bi_backfill_id r = i"
  by (simp add: list_iterations_def)

lemma rows_distinct: "bf_ok db \<Longrightarrow> distinct (map bi_index (list_iterations db i))"
proof -
  assume "bf_ok db"
  then have "distinct (map bi_index (filter (\<lambda>r. bi_backfill_id r = i) (bd_iterations db)))"
    by (auto simp: bf_ok_def distinct_map inj_on_def)
  then show ?thesis unfolding list_iterations_def
    by (metis distinct_map distinct_sort set_sort)
qed

lemma same_row: "bf_ok db \<Longrightarrow> r \<in> set (list_iterations db i) \<Longrightarrow> r' \<in> set (list_iterations db i) \<Longrightarrow>
    bi_index r = bi_index r' \<Longrightarrow> r = r'"
  using rows_distinct [of db i] by (auto simp: distinct_map inj_on_def)

lemma to_run_iff: "x \<in> set (to_run rows) \<longleftrightarrow> (\<exists>r \<in> set rows. x = expanded_of r \<and> bi_key r \<notin> succeeded_keys rows)"
  by (auto simp: to_run_def expanded_of_def)

lemma to_run_distinct: "distinct (map bi_index rows) \<Longrightarrow> distinct (map ex_index (to_run rows))"
proof -
  have "map ex_index (map expanded_of rows) = map bi_index rows" by (simp add: expanded_of_def comp_def)
  then show "distinct (map bi_index rows) \<Longrightarrow> distinct (map ex_index (to_run rows))"
    unfolding to_run_def by (metis distinct_map_filter)
qed

lemma resume_inv:
  assumes "resume_backfill base exec fails now i db = (Ok (K, c0), db1)" "bf_ok db" "(co_step K)\<^sup>*\<^sup>* c0 c"
  obtains fin db' where "cf_id K = i" "reset_failed fails i (list_iterations db i) db = (Ok (), db')"
    "coord_inv K (to_run (list_iterations db i)) db' fin c" "cf_exec K = exec" "cf_fails K = fails"
proof -
  let ?rows = "list_iterations db i"
  from assms(1) obtain b db' where "get_backfill db i = Some b" and K: "K = config_of b base exec fails"
    and reset: "reset_failed fails i ?rows db = (Ok (), db')"
    and run: "run_coordinator K now (to_run ?rows) (card (succeeded_keys ?rows)) db' = (Ok c0, db1)"
    by (auto simp: resume_backfill_def Let_def split: option.splits sum.splits prod.splits)
  note c0 = run_coordinator_Ok [OF run]
  then have id: "cf_id K = i" using K \<open>get_backfill db i = Some b\<close> by (auto simp: config_of_def get_backfill_def find_Some_iff)
  have ex: "cf_exec K = exec" "cf_fails K = fails" by (simp_all add: K config_of_def)
  have "it_status db' (cf_id K) (ex_index x) \<noteq> None" if x: "x \<in> set (to_run ?rows)" for x
  proof -
    from x obtain r where "r \<in> set ?rows" "x = expanded_of r" by (auto simp: to_run_iff)
    then have "it_status db i (ex_index x) = Some (bi_status r)"
      using it_status_row [OF assms(2)] by (auto simp: rows_of expanded_of_def)
    then show ?thesis by (simp add: reset_failed_status [OF reset] id)
  qed
  then obtain fin where "coord_inv K (to_run ?rows) db' fin c"
    using run_inv [OF assms(3) [unfolded c0] to_run_distinct [OF rows_distinct [OF assms(2)]]] by blast
  with id reset ex show thesis by (rule_tac that)
qed

lemma resume_keeps:
  assumes "bf_ok db" "coord_inv K (to_run (list_iterations db i)) db' fin c"
    and "reset_failed fails i (list_iterations db i) db = (Ok (), db')"
    and "cf_id K = i" "r \<in> set (bd_iterations db)" "bi_backfill_id r = i" "bi_status r = ItSucceeded"
  shows "it_status (co_db c) i (bi_index r) = Some ItSucceeded"
proof -
  let ?rows = "list_iterations db i"
  have r: "r \<in> set ?rows" using assms(5,6) by (simp add: rows_of)
  have "bi_key r \<in> succeeded_keys ?rows" using r assms(7) by (auto simp: succeeded_keys_def)
  then have "bi_index r \<notin> ex_index ` set (to_run ?rows)"
    using same_row [OF assms(1) r] by (auto simp: to_run_iff expanded_of_def)
  moreover have "\<not> (\<exists>s \<in> set ?rows. bi_status s = ItFailed \<and> bi_index s = bi_index r)"
    using same_row [OF assms(1) r] assms(7) by force
  ultimately show ?thesis
    using coord_invD(8) [OF assms(2)] it_status_row [OF assms(1,5,6)] assms(4,7)
    by (simp add: reset_failed_status [OF assms(3)])
qed

text \<open>
  C34: resuming never touches an iteration that has succeeded; and when the keys of the iterations differ, a
  resumed backfill that ends as completed has each iteration stored as succeeded, or the update that says how it
  ended failed, or under fail-fast such an update of a failed iteration did; the executor does not panic.
\<close>

theorem resume_completes_the_rest:
  assumes "resume_backfill base exec fails now i db = (Ok (K, c0), db')" "bf_ok db" "(co_step K)\<^sup>*\<^sup>* c0 c"
    and "r \<in> set (bd_iterations db)" "bi_backfill_id r = i"
    and "distinct (map bi_key (list_iterations db i))" "\<And>full vars. \<not> exec full vars ExecPanic"
  shows "(bi_status r = ItSucceeded \<longrightarrow> it_status (co_db c) i (bi_index r) = Some ItSucceeded) \<and>
    (co_done c \<longrightarrow> get_progress (co_db c) i = Ok p \<longrightarrow> final_status c p = BfCompleted \<longrightarrow>
      it_status (co_db c) i (bi_index r) = Some ItSucceeded \<or> fails (WIteration (bi_index r) ItSucceeded) \<or>
      fails (WIteration (bi_index r) ItFailed) \<or>
      cf_fail_fast K \<and> (\<exists>k. it_status db i k \<noteq> None \<and> fails (WIteration k ItFailed)))"
proof -
  let ?rows = "list_iterations db i"
  obtain fin db1 where id: "cf_id K = i" and reset: "reset_failed fails i ?rows db = (Ok (), db1)"
    and inv: "coord_inv K (to_run ?rows) db1 fin c" and ex: "cf_exec K = exec" and fl: "cf_fails K = fails"
    by (rule resume_inv [OF assms(1-3)])
  note keeps = resume_keeps [OF assms(2) inv reset id assms(4,5)]
  have r: "r \<in> set ?rows" using assms(4,5) by (simp add: rows_of)
  have "accounted K (ex_index ` set (to_run ?rows)) (bi_index r) (it_status (co_db c) i (bi_index r))"
    if d: "co_done c" "get_progress (co_db c) i = Ok p" "final_status c p = BfCompleted"
  proof (cases "bi_key r \<in> succeeded_keys ?rows")
    case True
    then obtain s where "s \<in> set ?rows" "bi_status s = ItSucceeded" "bi_key s = bi_key r"
      by (auto simp: succeeded_keys_def)
    then have "s = r" using assms(6) r by (auto simp: distinct_map inj_on_def)
    then show ?thesis using keeps \<open>bi_status s = ItSucceeded\<close> by (simp add: accounted_def)
  next
    case False
    then have "expanded_of r \<in> set (to_run ?rows)" using r by (auto simp: to_run_iff)
    moreover have "\<forall>x \<in> set (to_run ?rows). \<not> may_return K x ExecPanic"
      using assms(7) ex by (simp add: may_return_def)
    ultimately have "accounted K (ex_index ` set (to_run ?rows)) (ex_index (expanded_of r))
        (it_status (co_db c) (cf_id K) (ex_index (expanded_of r)))"
      using run_completed [OF inv d(1) _ d(3)] d(2) unfolding id by blast
    then show ?thesis by (simp add: id expanded_of_def)
  qed
  moreover have "\<forall>k \<in> ex_index ` set (to_run ?rows). it_status db i k \<noteq> None"
    using it_status_row [OF assms(2)] by (auto simp: to_run_iff expanded_of_def rows_of)
  ultimately show ?thesis using keeps fl unfolding accounted_def by blast
qed

subsection \<open>Concrete runs\<close>

text \<open>A backfill over a list of values, and an executor that fails on the value \<open>x\<close>.\<close>

definition sample_backfill :: "string list \<Rightarrow> backfill" where
  "sample_backfill values = \<lparr>bf_id = ''b'', bf_pipeline_id = ''p'', bf_environment = ''dev'',
     bf_range = ListRange values [(''v'', ''$iteration.value'')], bf_concurrency = 1, bf_fail_fast = True,
     bf_full_refresh = True, bf_status = BfPending, bf_created_at = [], bf_started_at = None,
     bf_completed_at = None, bf_created_by = None\<rparr>"

definition sample_exec :: "bool \<Rightarrow> variables \<Rightarrow> exec_result \<Rightarrow> bool" where
  "sample_exec full vars r \<longleftrightarrow> (if vars ''v'' = Some (JString ''x'') then r = ExecErr ''bad'' else r = ExecOk ''r'')"

definition sample_config :: bf_config where
  "sample_config = config_of (sample_backfill []) Map.empty sample_exec (\<lambda>_. False)"

definition value_iteration :: "nat \<Rightarrow> string \<Rightarrow> expanded" where
  "value_iteration n value = \<lparr>ex_index = of_nat n, ex_key = value, ex_variables = [''v'' \<mapsto> JString value]\<rparr>"

definition value_db :: "string list \<Rightarrow> bf_db" where
  "value_db values = \<lparr>bd_backfills = [sample_backfill values],
     bd_iterations = map (pending_iteration ''b'') (map (\<lambda>(n, value). value_iteration n value) (enumerate 0 values))\<rparr>"

lemma sample_may: "may_return sample_config (value_iteration n v) r \<longleftrightarrow>
    (if v = ''x'' then r = ExecErr ''bad'' else r = ExecOk ''r'')"
  by (simp add: may_return_def sample_config_def config_of_def sample_exec_def value_iteration_def)

lemma sample_config_simps [simp]:
  "cf_id sample_config = ''b''" "cf_concurrency sample_config = 1" "cf_fail_fast sample_config = True"
  "cf_fails sample_config = (\<lambda>_. False)"
  by (simp_all add: sample_config_def config_of_def sample_backfill_def)

lemma sample_start:
  "start_backfill sample_calendar sample_config [] (sample_backfill [''a'']) bf_init_schema =
     Some (Ok (coordinator_start sample_config [] [value_iteration 0 ''a''] 0 (value_db [''a''])),
       snd (update_backfill_status (\<lambda>_. False) ''b'' BfRunning (Some []) None (value_db [''a''])))"
  by (simp add: run_coordinator_def update_backfill_status_def start_backfill_def expand_range_def sample_backfill_def expand_list_def expand_value_def
      list_placeholder_def create_backfill_def bf_init_schema_def value_iteration_def value_db_def pending_iteration_def)

text \<open>One iteration, started from a state whose loop has just taken it.\<close>

lemma sample_takes:
  assumes "co_open c" "co_wait c = None" "co_todo c = x # xs" "\<not> must_stop K c" "co_permits c = Suc n" "co_tasks c = []"
  shows "(co_internal K)\<^sup>*\<^sup>* c (c\<lparr>co_todo := xs, co_wait := None, co_permits := n, co_tasks := [(x, Executing)],
    co_db := mark_running K [] x (co_db c),
    co_events := co_events c @ [IterationStarted (cf_id K) (ex_index x) (ex_key x)]\<rparr>)"
proof -
  let ?c1 = "c\<lparr>co_todo := xs, co_wait := Some x\<rparr>"
  let ?c2 = "?c1\<lparr>co_wait := None, co_permits := n, co_tasks := [(x, Spawned)]\<rparr>"
  have "co_internal K c ?c1" using assms by (intro loop_admit)
  moreover have "co_internal K ?c1 ?c2" using loop_spawn [of ?c1 x n K] assms by simp
  moreover have "co_internal K ?c2 (?c2\<lparr>co_tasks := [(x, Executing)], co_db := mark_running K [] x (co_db c),
      co_events := co_events c @ [IterationStarted (cf_id K) (ex_index x) (ex_key x)]\<rparr>)"
    using task_start [of ?c2 "[]" x "[]" K "[]"] by simp
  ultimately have "(co_internal K)\<^sup>*\<^sup>* c (?c2\<lparr>co_tasks := [(x, Executing)], co_db := mark_running K [] x (co_db c),
      co_events := co_events c @ [IterationStarted (cf_id K) (ex_index x) (ex_key x)]\<rparr>)"
    by (meson rtranclp.rtrancl_into_rtrancl rtranclp.rtrancl_refl)
  then show ?thesis by (cases c) simp
qed

lemma internal_steps: "(co_internal K)\<^sup>*\<^sup>* c c' \<Longrightarrow> (co_step K)\<^sup>*\<^sup>* c c'"
  by (erule rtranclp_mono [THEN predicate2D, rotated]) (auto simp: co_step_def)

definition sample_end :: coord where
  "sample_end = \<lparr>co_db = mark_succeeded sample_config [] ''r'' (value_iteration 0 ''a'')
       (mark_running sample_config [] (value_iteration 0 ''a'')
         (snd (update_backfill_status (\<lambda>_. False) ''b'' BfRunning (Some []) None (value_db [''a''])))),
     co_todo = [], co_wait = None, co_open = False, co_tasks = [], co_permits = 1, co_failed = False,
     co_cancelled = False, co_events = [BackfillStarted ''b'' 1, IterationStarted ''b'' 0 ''a'', IterationCompleted ''b'' 0 ''a'' ''r'']\<rparr>"

lemma sample_run:
  "(co_step sample_config)\<^sup>*\<^sup>* (coordinator_start sample_config [] [value_iteration 0 ''a''] 0 (value_db [''a''])) sample_end"
proof -
  let ?x = "value_iteration 0 ''a''" and ?c0 = "coordinator_start sample_config [] [value_iteration 0 ''a''] 0 (value_db [''a''])"
  let ?c1 = "?c0\<lparr>co_todo := [], co_wait := None, co_permits := 0, co_tasks := [(?x, Executing)],
    co_db := mark_running sample_config [] ?x (co_db ?c0),
    co_events := co_events ?c0 @ [IterationStarted (cf_id sample_config) (ex_index ?x) (ex_key ?x)]\<rparr>"
  have "(co_internal sample_config)\<^sup>*\<^sup>* ?c0 ?c1"
    by (rule sample_takes) (simp_all add: coordinator_start_def must_stop_def)
  moreover have "may_return sample_config ?x (ExecOk ''r'')" by (simp add: sample_may)
  from task_ok [OF _ this, of ?c1 "[]" "[]" "[]"]
  have "co_internal sample_config ?c1 (sample_end\<lparr>co_open := True\<rparr>)"
    by (simp add: sample_end_def coordinator_start_def value_iteration_def)
  moreover have "co_internal sample_config (sample_end\<lparr>co_open := True\<rparr>) sample_end"
    using loop_end [of "sample_end\<lparr>co_open := True\<rparr>" sample_config] by (simp add: sample_end_def)
  ultimately show ?thesis by (meson internal_steps rtranclp.rtrancl_into_rtrancl)
qed

theorem completed_means_succeeded_witness:
  "map bi_status (bd_iterations (co_db (snd (finish sample_config [] sample_end)))) = [ItSucceeded]"
proof -
  let ?b = "sample_backfill [''a'']"
  have K: "sample_config = config_of ?b Map.empty sample_exec (\<lambda>_. False)"
    by (simp add: sample_config_def config_of_def sample_backfill_def)
  have "start_backfill sample_calendar (config_of ?b Map.empty sample_exec (\<lambda>_. False)) [] ?b bf_init_schema =
      Some (Ok (coordinator_start sample_config [] [value_iteration 0 ''a''] 0 (value_db [''a''])),
        snd (update_backfill_status (\<lambda>_. False) ''b'' BfRunning (Some []) None (value_db [''a''])))"
    using sample_start by (simp add: K)
  from completed_means_succeeded [OF this bf_ok_init, folded K, OF sample_run]
  have C: "co_done sample_end \<Longrightarrow> finish sample_config ts sample_end = (Ok (i, p), c') \<Longrightarrow>
      get_backfill (co_db c') (bf_id ?b) = Some b' \<Longrightarrow> bf_status b' = BfCompleted \<Longrightarrow>
      (\<And>full vars. \<not> sample_exec full vars ExecPanic) \<Longrightarrow>
      \<forall>r \<in> set (bd_iterations (co_db c')). bi_backfill_id r = bf_id ?b \<longrightarrow> bi_status r = ItSucceeded \<or> False \<or> False \<or>
        bf_fail_fast ?b \<and> (\<exists>k. it_status (co_db c') (bf_id ?b) k \<noteq> None \<and> False)" for ts i p c' b'
    by blast
  have ended: "co_done sample_end" by (simp add: co_done_def sample_end_def)
  show ?thesis
    using C [OF ended, of "[]" "''b''" "\<lparr>pg_total = 1, pg_succeeded = 1, pg_failed = 0, pg_running = 0, pg_pending = 0, pg_skipped = 0\<rparr>"
        "snd (finish sample_config [] sample_end)"]
    by (simp add: finish_def sample_end_def get_progress_def count_status_def value_db_def mark_running_def mark_succeeded_def
        update_iteration_def update_backfill_status_def pending_iteration_def value_iteration_def final_status_def
        get_backfill_def sample_backfill_def sample_exec_def Let_def)
qed

theorem stop_bounds_starts_witness:
  "co_todo (sample_end\<lparr>co_cancelled := True\<rparr>) = []"
  using stop_bounds_starts [of sample_config "sample_end\<lparr>co_cancelled := True\<rparr>" "sample_end\<lparr>co_cancelled := True\<rparr>"]
  by (simp add: sample_end_def)

theorem coordinator_terminates_witness:
  "\<exists>c'. (co_internal sample_config)\<^sup>*\<^sup>* (coordinator_start sample_config [] [value_iteration 0 ''a''] 0 (value_db [''a''])) c' \<and> co_done c'"
proof -
  have "\<exists>r. may_return sample_config x r" for x
    by (auto simp: may_return_def sample_config_def config_of_def sample_exec_def)
  then show ?thesis
    using coordinator_terminates [of sample_config "[]" "[value_iteration 0 ''a'']" 0 "value_db [''a'']"
        "coordinator_start sample_config [] [value_iteration 0 ''a''] 0 (value_db [''a''])"]
    by (simp add: it_status_def value_db_def pending_iteration_def value_iteration_def)
qed

text \<open>A backfill of which the first iteration succeeded and the second, with the key \<open>k\<close>, failed.\<close>

definition half_done :: "string \<Rightarrow> bf_db" where
  "half_done k = \<lparr>bd_backfills = [sample_backfill []], bd_iterations =
     [(pending_iteration ''b'' (value_iteration 0 ''a''))\<lparr>bi_status := ItSucceeded\<rparr>,
      (pending_iteration ''b'' (value_iteration 1 k))\<lparr>bi_status := ItFailed\<rparr>]\<rparr>"

lemma half_done_rows [simp]:
  "list_iterations (half_done k) ''b'' = [(pending_iteration ''b'' (value_iteration 0 ''a''))\<lparr>bi_status := ItSucceeded\<rparr>,
      (pending_iteration ''b'' (value_iteration 1 k))\<lparr>bi_status := ItFailed\<rparr>]"
  by (simp add: list_iterations_def half_done_def pending_iteration_def value_iteration_def)

lemma half_done_ok: "bf_ok (half_done k)"
  by (simp add: bf_ok_def half_done_def pending_iteration_def value_iteration_def sample_backfill_def)

definition half_reset :: "string \<Rightarrow> bf_db" where
  "half_reset k = snd (reset_failed (\<lambda>_. False) ''b'' (list_iterations (half_done k) ''b'') (half_done k))"

lemma half_reset_rows:
  "half_reset k = (half_done k)\<lparr>bd_iterations := [(pending_iteration ''b'' (value_iteration 0 ''a''))\<lparr>bi_status := ItSucceeded\<rparr>,
      pending_iteration ''b'' (value_iteration 1 k)]\<rparr>"
  by (simp add: half_reset_def) (simp add: update_iteration_def half_done_def pending_iteration_def value_iteration_def)

lemma half_done_resume:
  "\<exists>db'. resume_backfill Map.empty sample_exec (\<lambda>_. False) now ''b'' (half_done k) = (Ok (sample_config,
     coordinator_start sample_config now (if k = ''a'' then [] else [value_iteration 1 k]) 1 (half_reset k)), db')"
proof -
  have b: "get_backfill (half_done k) ''b'' = Some (sample_backfill [])"
    by (simp add: get_backfill_def half_done_def sample_backfill_def)
  have keys: "succeeded_keys (list_iterations (half_done k) ''b'') = {''a''}"
    by (simp add: succeeded_keys_def) (simp add: pending_iteration_def value_iteration_def)
  have run: "to_run (list_iterations (half_done k) ''b'') = (if k = ''a'' then [] else [value_iteration 1 k])"
    unfolding to_run_def keys by (simp add: expanded_of_def pending_iteration_def value_iteration_def)
  have reset: "reset_failed (\<lambda>_. False) ''b'' (list_iterations (half_done k) ''b'') (half_done k) = (Ok (), half_reset k)"
    by (simp add: half_reset_def update_iteration_def split: prod.split)
  have go: "\<exists>db'. run_coordinator sample_config now xs n d = (Ok (coordinator_start sample_config now xs n d), db')" for xs n d
    by (simp add: run_coordinator_def update_backfill_status_def)
  obtain db' where "run_coordinator sample_config now (if k = ''a'' then [] else [value_iteration 1 k]) 1 (half_reset k) =
      (Ok (coordinator_start sample_config now (if k = ''a'' then [] else [value_iteration 1 k]) 1 (half_reset k)), db')"
    using go by blast
  then show ?thesis
    unfolding resume_backfill_def b Let_def option.case reset keys run
    by (simp add: sample_config_def [symmetric] del: half_done_rows)
qed

theorem resume_completes_the_rest_witness:
  "\<exists>c0 db'. resume_backfill Map.empty sample_exec (\<lambda>_. False) [] ''b'' (half_done ''c'') = (Ok (sample_config, c0), db') \<and>
     it_status (co_db c0) ''b'' 0 = Some ItSucceeded"
proof -
  let ?r = "(pending_iteration ''b'' (value_iteration 0 ''a''))\<lparr>bi_status := ItSucceeded\<rparr>"
  obtain c0 db' where res: "resume_backfill Map.empty sample_exec (\<lambda>_. False) [] ''b'' (half_done ''c'') = (Ok (sample_config, c0), db')"
    using half_done_resume by blast
  have "?r \<in> set (bd_iterations (half_done ''c''))" "bi_backfill_id ?r = ''b''"
    "distinct (map bi_key (list_iterations (half_done ''c'') ''b''))" "\<not> sample_exec full vars ExecPanic" for full vars
    by (simp_all add: half_done_rows sample_exec_def) (simp_all add: half_done_def pending_iteration_def value_iteration_def)
  from resume_completes_the_rest [OF res half_done_ok rtranclp.rtrancl_refl this]
  have "it_status (co_db c0) ''b'' (bi_index ?r) = Some ItSucceeded" by simp
  moreover have "bi_index ?r = 0" by (simp add: pending_iteration_def value_iteration_def)
  ultimately show ?thesis using res by simp
qed

text \<open>
  When two iterations have the same key, the one that failed is reset and never run again, and the
  resumed backfill still ends as completed.
\<close>

lemma resume_loses_iteration:
  "\<exists>c0 db' c p. resume_backfill Map.empty sample_exec (\<lambda>_. False) [] ''b'' (half_done ''a'') = (Ok (sample_config, c0), db') \<and>
     (co_step sample_config)\<^sup>*\<^sup>* c0 c \<and> co_done c \<and> get_progress (co_db c) ''b'' = Ok p \<and>
     final_status c p = BfCompleted \<and> it_status (co_db c) ''b'' 1 = Some ItPending"
proof -
  let ?start = "coordinator_start sample_config [] [] 1 (half_reset ''a'')"
  let ?stop = "?start\<lparr>co_open := False\<rparr>"
  let ?p = "\<lparr>pg_total = 2, pg_succeeded = 1, pg_failed = 0, pg_running = 0, pg_pending = 1, pg_skipped = 0\<rparr>"
  have "co_internal sample_config ?start ?stop"
    using loop_end [of ?start sample_config] by (simp add: coordinator_start_def)
  then have "(co_step sample_config)\<^sup>*\<^sup>* ?start ?stop" by (auto simp: co_step_def)
  moreover have "co_done ?stop" by (simp add: co_done_def coordinator_start_def)
  moreover have "get_progress (co_db ?stop) ''b'' = Ok ?p" "final_status ?stop ?p = BfCompleted"
    "it_status (co_db ?stop) ''b'' 1 = Some ItPending"
    by (simp_all add: coordinator_start_def final_status_def it_status_def half_reset_rows)
      (simp_all add: half_done_def update_backfill_status_def
        get_progress_def count_status_def pending_iteration_def value_iteration_def Let_def)
  moreover obtain db' where "resume_backfill Map.empty sample_exec (\<lambda>_. False) [] ''b'' (half_done ''a'') = (Ok (sample_config, ?start), db')"
    using half_done_resume [of "[]" "''a''"] by (auto simp del: half_done_rows)
  ultimately show ?thesis by blast
qed

text \<open>
  A task drops the result of its update: when the update to \<open>failed\<close> is lost, the row stays running,
  no failure is counted and the backfill is stored as completed.
\<close>

definition lossy_config :: bf_config where
  "lossy_config = sample_config\<lparr>cf_fails := (\<lambda>w. w = WIteration 0 ItFailed)\<rparr>"

lemma lossy_simps [simp]: "cf_id lossy_config = ''b''" "cf_fail_fast lossy_config = True"
  "cf_fails lossy_config = (\<lambda>w. w = WIteration 0 ItFailed)" "may_return lossy_config x r = may_return sample_config x r"
  by (simp_all add: lossy_config_def may_return_def)

lemma lost_failure_completes:
  "\<exists>c p. (co_step lossy_config)\<^sup>*\<^sup>* (coordinator_start lossy_config [] [value_iteration 0 ''x''] 0 (value_db [''x''])) c \<and>
     co_done c \<and> co_failed c \<and> get_progress (co_db c) ''b'' = Ok p \<and> final_status c p = BfCompleted \<and>
     it_status (co_db c) ''b'' 0 = Some ItRunning"
proof -
  let ?x = "value_iteration 0 ''x''"
  let ?c0 = "coordinator_start lossy_config [] [?x] 0 (value_db [''x''])"
  let ?c1 = "?c0\<lparr>co_todo := [], co_wait := None, co_permits := 0, co_tasks := [(?x, Executing)],
    co_db := mark_running lossy_config [] ?x (co_db ?c0),
    co_events := co_events ?c0 @ [IterationStarted (cf_id lossy_config) (ex_index ?x) (ex_key ?x)]\<rparr>"
  let ?c2 = "?c1\<lparr>co_tasks := [(?x, Failing ''bad'')], co_failed := True\<rparr>"
  let ?c3 = "?c2\<lparr>co_tasks := [], co_permits := Suc (co_permits ?c2), co_db := mark_failed lossy_config [] ''bad'' ?x (co_db ?c2),
    co_events := co_events ?c2 @ [IterationFailed (cf_id lossy_config) (ex_index ?x) (ex_key ?x) ''bad'']\<rparr>"
  let ?c4 = "?c3\<lparr>co_open := False\<rparr>"
  let ?p = "\<lparr>pg_total = 1, pg_succeeded = 0, pg_failed = 0, pg_running = 1, pg_pending = 0, pg_skipped = 0\<rparr>"
  have "(co_internal lossy_config)\<^sup>*\<^sup>* ?c0 ?c1"
    by (rule sample_takes) (simp_all add: coordinator_start_def must_stop_def lossy_config_def)
  also have "co_internal lossy_config ?c1 ?c2"
    using task_fail [of ?c1 "[]" ?x "[]" lossy_config "''bad''"] by (simp add: sample_may)
  also have "co_internal lossy_config ?c2 ?c3"
    using task_failed [of ?c2 "[]" ?x "''bad''" "[]" lossy_config "[]"] by simp
  also have "co_internal lossy_config ?c3 ?c4"
    using loop_end [of ?c3 lossy_config] by (simp add: coordinator_start_def)
  finally have "(co_step lossy_config)\<^sup>*\<^sup>* ?c0 ?c4" by (rule internal_steps)
  moreover have rows: "bd_iterations (co_db ?c4) = [(pending_iteration ''b'' ?x)\<lparr>bi_status := ItRunning, bi_started_at := Some []\<rparr>]"
    by (simp add: coordinator_start_def mark_failed_def mark_running_def update_iteration_def value_db_def pending_iteration_def
        value_iteration_def)
  then have "get_progress (co_db ?c4) ''b'' = Ok ?p" "it_status (co_db ?c4) ''b'' 0 = Some ItRunning"
    by (simp_all add: get_progress_def count_status_def it_status_def Let_def pending_iteration_def value_iteration_def)
  moreover have "co_done ?c4" "co_failed ?c4" "final_status ?c4 ?p = BfCompleted"
    by (simp_all add: co_done_def final_status_def coordinator_start_def)
  ultimately show ?thesis by blast
qed

text \<open>
  The checks come before the wait for a permit: with a concurrency of one and fail-fast, the
  iteration after a failed one still runs.
\<close>

lemma fail_fast_runs_one_more:
  "\<exists>c. (co_step sample_config)\<^sup>*\<^sup>* (coordinator_start sample_config [] [value_iteration 0 ''x'', value_iteration 1 ''a''] 0
      (value_db [''x'', ''a''])) c \<and>
     co_events c = [BackfillStarted ''b'' 2, IterationStarted ''b'' 0 ''x'', IterationFailed ''b'' 0 ''x'' ''bad'',
       IterationStarted ''b'' 1 ''a'']"
proof -
  let ?x = "value_iteration 0 ''x''" and ?y = "value_iteration 1 ''a''"
  let ?c0 = "coordinator_start sample_config [] [?x, ?y] 0 (value_db [''x'', ''a''])"
  let ?c1 = "?c0\<lparr>co_todo := [?y], co_wait := None, co_permits := 0, co_tasks := [(?x, Executing)],
    co_db := mark_running sample_config [] ?x (co_db ?c0),
    co_events := co_events ?c0 @ [IterationStarted (cf_id sample_config) (ex_index ?x) (ex_key ?x)]\<rparr>"
  let ?c2 = "?c1\<lparr>co_todo := [], co_wait := Some ?y\<rparr>"
  let ?c3 = "?c2\<lparr>co_tasks := [(?x, Failing ''bad'')], co_failed := True\<rparr>"
  let ?c4 = "?c3\<lparr>co_tasks := [], co_permits := Suc (co_permits ?c3), co_db := mark_failed sample_config [] ''bad'' ?x (co_db ?c3),
    co_events := co_events ?c3 @ [IterationFailed (cf_id sample_config) (ex_index ?x) (ex_key ?x) ''bad'']\<rparr>"
  let ?c5 = "?c4\<lparr>co_wait := None, co_permits := 0, co_tasks := co_tasks ?c4 @ [(?y, Spawned)]\<rparr>"
  let ?c6 = "?c5\<lparr>co_tasks := [] @ (?y, Executing) # [], co_db := mark_running sample_config [] ?y (co_db ?c5),
    co_events := co_events ?c5 @ [IterationStarted (cf_id sample_config) (ex_index ?y) (ex_key ?y)]\<rparr>"
  have "(co_internal sample_config)\<^sup>*\<^sup>* ?c0 ?c1"
    by (rule sample_takes) (simp_all add: coordinator_start_def must_stop_def)
  also have "co_internal sample_config ?c1 ?c2"
    by (rule loop_admit) (simp_all add: coordinator_start_def must_stop_def)
  also have "co_internal sample_config ?c2 ?c3"
    using task_fail [of ?c2 "[]" ?x "[]" sample_config "''bad''"] by (simp add: sample_may)
  also have "co_internal sample_config ?c3 ?c4"
    using task_failed [of ?c3 "[]" ?x "''bad''" "[]" sample_config "[]"] by simp
  also have "co_internal sample_config ?c4 ?c5" by (rule loop_spawn) (simp_all add: coordinator_start_def)
  also have "co_internal sample_config ?c5 ?c6" by (rule task_start) (simp add: coordinator_start_def)
  finally have "(co_step sample_config)\<^sup>*\<^sup>* ?c0 ?c6" by (rule internal_steps)
  moreover have "co_events ?c6 = [BackfillStarted ''b'' 2, IterationStarted ''b'' 0 ''x'',
      IterationFailed ''b'' 0 ''x'' ''bad'', IterationStarted ''b'' 1 ''a'']"
    by (simp add: coordinator_start_def value_iteration_def)
  ultimately show ?thesis by blast
qed

end
