(* ===== verification/Frame.thy ===== *)
theory Frame
  imports Prelude "HOL-Library.Word"
begin

text \<open>
  \<open>frame.rs\<close> of the plugin protocol: length-prefixed frames over a byte stream.  A reader is the list
  of what its next \<open>read\<close> calls deliver, a chunk, an interruption or an error; the end of the list is
  the end of the stream, which \<open>read\<close> reports as \<open>Ok(0)\<close>.
\<close>

unbundle bit_operations_syntax

type_synonym byte = "8 word"

definition MAX_PAYLOAD_LEN :: nat where "MAX_PAYLOAD_LEN = 0x04000000"

datatype message_kind =
    KHello | KHelloAck | KConfigureSink | KConfigureAck | KDeclareResource | KRecordBatch | KBatchAck
  | KCommit | KCommitAck | KAbort | KAbortAck | KLog | KError | KShutdown

fun as_u8 :: "message_kind \<Rightarrow> byte" where
  "as_u8 KHello = 0x01"
| "as_u8 KHelloAck = 0x02"
| "as_u8 KConfigureSink = 0x10"
| "as_u8 KConfigureAck = 0x11"
| "as_u8 KDeclareResource = 0x15"
| "as_u8 KRecordBatch = 0x20"
| "as_u8 KBatchAck = 0x21"
| "as_u8 KCommit = 0x30"
| "as_u8 KCommitAck = 0x31"
| "as_u8 KAbort = 0x40"
| "as_u8 KAbortAck = 0x41"
| "as_u8 KLog = 0x50"
| "as_u8 KError = 0x51"
| "as_u8 KShutdown = 0xF0"

definition is_reserved_v2 :: "byte \<Rightarrow> bool" where
  "is_reserved_v2 b \<longleftrightarrow> 0x60 \<le> b \<and> b \<le> 0x8F"

datatype frame_error =
    PayloadTooLarge nat
  | UnknownKind byte
  | ReservedKind byte
  | UnexpectedEof nat nat
  | FrameIo string

definition from_u8 :: "byte \<Rightarrow> frame_error + message_kind" where
  "from_u8 b =
     (if b = 0x01 then Ok KHello else if b = 0x02 then Ok KHelloAck
      else if b = 0x10 then Ok KConfigureSink else if b = 0x11 then Ok KConfigureAck
      else if b = 0x15 then Ok KDeclareResource else if b = 0x20 then Ok KRecordBatch
      else if b = 0x21 then Ok KBatchAck else if b = 0x30 then Ok KCommit
      else if b = 0x31 then Ok KCommitAck else if b = 0x40 then Ok KAbort
      else if b = 0x41 then Ok KAbortAck else if b = 0x50 then Ok KLog
      else if b = 0x51 then Ok KError else if b = 0xF0 then Ok KShutdown
      else if is_reserved_v2 b then Err (ReservedKind b) else Err (UnknownKind b))"

record frame =
  fr_kind :: message_kind
  fr_payload :: "byte list"

subsection \<open>Writing and reading\<close>

definition to_le_bytes :: "32 word \<Rightarrow> byte list" where
  "to_le_bytes n = [ucast n, ucast (drop_bit 8 n), ucast (drop_bit 16 n), ucast (drop_bit 24 n)]"

definition from_le_bytes :: "byte list \<Rightarrow> 32 word" where
  "from_le_bytes bs = (case bs of [a, b, c, d] \<Rightarrow>
     ucast a OR push_bit 8 (ucast b) OR push_bit 16 (ucast c) OR push_bit 24 (ucast d) | _ \<Rightarrow> 0)"

definition write_frame :: "message_kind \<Rightarrow> byte list \<Rightarrow> frame_error + byte list" where
  "write_frame kind payload =
     (if length payload > MAX_PAYLOAD_LEN then Err (PayloadTooLarge (length payload))
      else Ok (to_le_bytes (of_nat (length payload)) @ [as_u8 kind] @ payload))"

datatype read_event = Chunk "byte list" | Interrupted | IoFail string

type_synonym reader = "read_event list"

fun read_exact :: "nat \<Rightarrow> byte list \<Rightarrow> reader \<Rightarrow> (frame_error + byte list) \<times> reader" where
  "read_exact n got [] = (if n \<le> length got then (Ok got, []) else (Err (UnexpectedEof (length got) n), []))"
| "read_exact n got (ev # evs) =
     (if n \<le> length got then (Ok got, ev # evs)
      else (case ev of
          Interrupted \<Rightarrow> read_exact n got evs
        | IoFail e \<Rightarrow> (Err (FrameIo e), evs)
        | Chunk bs \<Rightarrow>
            if bs = [] then (Err (UnexpectedEof (length got) n), evs)
            else if length bs \<le> n - length got then read_exact n (got @ bs) evs
            else (Ok (got @ take (n - length got) bs), Chunk (drop (n - length got) bs) # evs)))"

definition read_frame :: "reader \<Rightarrow> (frame_error + frame) \<times> reader" where
  "read_frame r = (case read_exact 4 [] r of
      (Inl e, r1) \<Rightarrow> (Err e, r1)
    | (Inr len_buf, r1) \<Rightarrow>
        let len = unat (from_le_bytes len_buf)
        in if len > MAX_PAYLOAD_LEN then (Err (PayloadTooLarge len), r1)
           else (case read_exact 1 [] r1 of
               (Inl e, r2) \<Rightarrow> (Err e, r2)
             | (Inr kind_buf, r2) \<Rightarrow> (case from_u8 (hd kind_buf) of
                 Inl e \<Rightarrow> (Err e, r2)
               | Inr kind \<Rightarrow> (case read_exact len [] r2 of
                   (Inl e, r3) \<Rightarrow> (Err e, r3)
                 | (Inr payload, r3) \<Rightarrow> (Ok \<lparr>fr_kind = kind, fr_payload = payload\<rparr>, r3)))))"

section \<open>Properties\<close>

lemma from_u8_as_u8 [simp]: "from_u8 (as_u8 k) = Ok k"
  by (cases k) (simp_all add: from_u8_def)

lemma from_u8_Ok: "from_u8 b = Ok k \<Longrightarrow> as_u8 k = b"
  by (auto simp: from_u8_def split: if_splits)

lemma le_bytes_roundtrip [simp]: "from_le_bytes (to_le_bytes n) = n"
proof (rule bit_word_eqI)
  fix i :: nat
  assume "i < LENGTH(32)"
  then consider "i < 8" | "8 \<le> i \<and> i < 16" | "16 \<le> i \<and> i < 24" | "24 \<le> i \<and> i < 32" by fastforce
  then show "bit (from_le_bytes (to_le_bytes n)) i \<longleftrightarrow> bit n i"
    unfolding from_le_bytes_def to_le_bytes_def list.case
    by cases (auto simp: bit_simps)
qed

lemma length_to_le_bytes [simp]: "length (to_le_bytes n) = 4"
  by (simp add: to_le_bytes_def)

lemma unat_payload_len: "n \<le> MAX_PAYLOAD_LEN \<Longrightarrow> unat (of_nat n :: 32 word) = n"
  by (simp add: unat_of_nat MAX_PAYLOAD_LEN_def)

text \<open>The bytes a reader delivers, when it delivers without an error and without empty reads.\<close>

fun clean :: "reader \<Rightarrow> bool" where
  "clean [] = True"
| "clean (Chunk bs # evs) = (bs \<noteq> [] \<and> clean evs)"
| "clean (Interrupted # evs) = clean evs"
| "clean (IoFail e # evs) = False"

fun bytes_in :: "reader \<Rightarrow> byte list" where
  "bytes_in [] = []"
| "bytes_in (Chunk bs # evs) = bs @ bytes_in evs"
| "bytes_in (Interrupted # evs) = bytes_in evs"
| "bytes_in (IoFail e # evs) = []"

lemma read_exact_clean:
  assumes "clean r" "length got \<le> n"
  shows "(n \<le> length got + length (bytes_in r) \<longrightarrow>
      (\<exists>r'. read_exact n got r = (Ok (got @ take (n - length got) (bytes_in r)), r') \<and> clean r' \<and>
        bytes_in r' = drop (n - length got) (bytes_in r))) \<and>
    (length got + length (bytes_in r) < n \<longrightarrow>
      read_exact n got r = (Err (UnexpectedEof (length got + length (bytes_in r)) n), []))"
  using assms
proof (induction r arbitrary: got)
  case Nil
  then show ?case by auto
next
  case (Cons ev r)
  show ?case
  proof (cases "n \<le> length got")
    case True
    with Cons.prems show ?thesis by (cases ev) auto
  next
    case False
    show ?thesis
    proof (cases ev)
      case (Chunk bs)
      show ?thesis
      proof (cases "length bs \<le> n - length got")
        case le: True
        have "clean r" "length (got @ bs) \<le> n" using Cons.prems Chunk le False by simp_all
        from Cons.IH [OF this] show ?thesis
          using Chunk Cons.prems False le by (auto simp: add.assoc)
      next
        case gt: False
        then show ?thesis using Chunk Cons.prems False by auto
      qed
    next
      case Interrupted
      with Cons False show ?thesis by simp
    next
      case (IoFail e)
      with Cons.prems show ?thesis by simp
    qed
  qed
qed

lemma read_exact_Ok:
  assumes "clean r" "bytes_in r = bs @ rest"
  obtains r' where "read_exact (length bs) [] r = (Ok bs, r')" "clean r'" "bytes_in r' = rest"
  using read_exact_clean [OF assms(1), of "[]" "length bs"] assms(2) by auto

lemma read_exact_short:
  assumes "clean r" "length (bytes_in r) < n"
  shows "read_exact n [] r = (Err (UnexpectedEof (length (bytes_in r)) n), [])"
  using read_exact_clean [OF assms(1), of "[]" n] assms(2) by simp

lemma read_frame_Ok:
  assumes "write_frame kind payload = Ok bs" "clean r" "bytes_in r = bs @ rest"
  shows "\<exists>r'. read_frame r = (Ok \<lparr>fr_kind = kind, fr_payload = payload\<rparr>, r') \<and> clean r' \<and> bytes_in r' = rest"
proof -
  let ?len = "to_le_bytes (of_nat (length payload))"
  from assms(1) have len: "length payload \<le> MAX_PAYLOAD_LEN" and bs: "bs = ?len @ [as_u8 kind] @ payload"
    by (auto simp: write_frame_def split: if_splits)
  from read_exact_Ok [OF assms(2), of ?len "[as_u8 kind] @ payload @ rest"] assms(3) bs
  obtain r1 where r1: "read_exact 4 [] r = (Ok ?len, r1)" "clean r1" "bytes_in r1 = [as_u8 kind] @ payload @ rest"
    by auto
  from read_exact_Ok [OF r1(2,3)] obtain r2 where
    r2: "read_exact 1 [] r1 = (Ok [as_u8 kind], r2)" "clean r2" "bytes_in r2 = payload @ rest" by auto
  from read_exact_Ok [OF r2(2,3)] obtain r3 where
    r3: "read_exact (length payload) [] r2 = (Ok payload, r3)" "clean r3" "bytes_in r3 = rest" by auto
  have "read_frame r = (Ok \<lparr>fr_kind = kind, fr_payload = payload\<rparr>, r3)"
    using len by (simp add: read_frame_def r1 r2(1) [simplified] r3 unat_payload_len Let_def)
  then show ?thesis using r3 by blast
qed

text \<open>
  C39: a frame that was written is read back as it was, whatever chunks and interruptions the stream
  delivers it in, and what follows it on the stream is left for the next read.
\<close>

theorem frame_roundtrip:
  assumes "write_frame kind payload = Ok bs" "clean r" "bytes_in r = bs @ rest"
  shows "\<exists>r'. read_frame r = (Ok \<lparr>fr_kind = kind, fr_payload = payload\<rparr>, r') \<and> clean r' \<and> bytes_in r' = rest"
  by (rule read_frame_Ok [OF assms])

theorem frame_roundtrip_witness:
  "\<exists>r'. read_frame [Chunk [2, 0], Interrupted, Chunk [0, 0, 0xF0, 7], Chunk [9, 3]] =
     (Ok \<lparr>fr_kind = KShutdown, fr_payload = [7, 9]\<rparr>, r') \<and> clean r' \<and> bytes_in r' = [3]"
proof -
  have "write_frame KShutdown [7, 9] = Ok [2, 0, 0, 0, 0xF0, 7, 9]"
    by (simp add: write_frame_def MAX_PAYLOAD_LEN_def to_le_bytes_def)
  then show ?thesis
    using frame_roundtrip [of KShutdown "[7, 9]" _ "[Chunk [2, 0], Interrupted, Chunk [0, 0, 0xF0, 7], Chunk [9, 3]]" "[3]"]
    by simp
qed

text \<open>
  A stream that ends inside a frame is an unexpected end of file, never a shorter frame; a
  length above the limit is refused before anything more is read; and a kind the protocol does not
  know or reserves for version 2 is an error that leaves the payload on the stream.
\<close>

theorem read_frame_errors:
  assumes "clean r"
  shows "(write_frame kind payload = Ok bs \<longrightarrow> bytes_in r = take j bs \<longrightarrow> j < length bs \<longrightarrow>
      (\<exists>got n r'. read_frame r = (Err (UnexpectedEof got n), r'))) \<and>
    (bytes_in r = to_le_bytes n @ rest \<longrightarrow> MAX_PAYLOAD_LEN < unat n \<longrightarrow>
      (\<exists>r'. read_frame r = (Err (PayloadTooLarge (unat n)), r') \<and> bytes_in r' = rest)) \<and>
    (bytes_in r = to_le_bytes n @ b # rest \<longrightarrow> unat n \<le> MAX_PAYLOAD_LEN \<longrightarrow> b \<notin> range as_u8 \<longrightarrow>
      (\<exists>r'. read_frame r = (Err (if is_reserved_v2 b then ReservedKind b else UnknownKind b), r') \<and> bytes_in r' = rest))"
proof (intro conjI impI)
  assume w: "write_frame kind payload = Ok bs" and r: "bytes_in r = take j bs" and j: "j < length bs"
  let ?len = "to_le_bytes (of_nat (length payload))"
  from w have len: "length payload \<le> MAX_PAYLOAD_LEN" and bs: "bs = ?len @ as_u8 kind # payload"
    by (auto simp: write_frame_def split: if_splits)
  show "\<exists>got n r'. read_frame r = (Err (UnexpectedEof got n), r')"
  proof (cases "j < 4")
    case True
    then show ?thesis using read_exact_short [OF assms, of 4] r j by (simp add: read_frame_def)
  next
    case False
    then have r4: "bytes_in r = ?len @ take (j - 4) (as_u8 kind # payload)" using r bs by simp
    from read_exact_Ok [OF assms r4] obtain r1 where
      r1: "read_exact 4 [] r = (Ok ?len, r1)" "clean r1" "bytes_in r1 = take (j - 4) (as_u8 kind # payload)" by auto
    show ?thesis
    proof (cases "j - 4")
      case 0
      then show ?thesis using read_exact_short [OF r1(2), of 1] r1(1,3) len
        by (simp add: read_frame_def unat_payload_len Let_def)
    next
      case (Suc k)
      then have "bytes_in r1 = [as_u8 kind] @ take k payload" using r1(3) by simp
      from read_exact_Ok [OF r1(2) this] obtain r2 where
        r2: "read_exact (Suc 0) [] r1 = (Ok [as_u8 kind], r2)" "clean r2" "bytes_in r2 = take k payload" by auto
      have "k < length payload" using Suc j bs by simp
      then show ?thesis using read_exact_short [OF r2(2), of "length payload"] r1(1) r2(1,3) len
        by (simp add: read_frame_def unat_payload_len Let_def)
    qed
  qed
next
  assume r: "bytes_in r = to_le_bytes n @ rest" and n: "MAX_PAYLOAD_LEN < unat n"
  from read_exact_Ok [OF assms r] obtain r1 where "read_exact 4 [] r = (Ok (to_le_bytes n), r1)" "bytes_in r1 = rest" by auto
  then show "\<exists>r'. read_frame r = (Err (PayloadTooLarge (unat n)), r') \<and> bytes_in r' = rest"
    using n by (simp add: read_frame_def Let_def)
next
  assume r: "bytes_in r = to_le_bytes n @ b # rest" and n: "unat n \<le> MAX_PAYLOAD_LEN" and b: "b \<notin> range as_u8"
  from read_exact_Ok [OF assms r] obtain r1 where
    r1: "read_exact 4 [] r = (Ok (to_le_bytes n), r1)" "clean r1" "bytes_in r1 = [b] @ rest" by auto
  from read_exact_Ok [OF r1(2,3)] obtain r2 where r2: "read_exact (Suc 0) [] r1 = (Ok [b], r2)" "bytes_in r2 = rest" by auto
  have "from_u8 b = Err (if is_reserved_v2 b then ReservedKind b else UnknownKind b)"
    using b from_u8_Ok [of b] by (cases "from_u8 b") (auto simp: from_u8_def split: if_splits)
  then show "\<exists>r'. read_frame r = (Err (if is_reserved_v2 b then ReservedKind b else UnknownKind b), r') \<and> bytes_in r' = rest"
    using r1(1) r2 n by (simp add: read_frame_def Let_def)
qed

theorem read_frame_errors_witness:
  "\<exists>got n r'. read_frame [Chunk [2, 0, 0, 0, 0xF0, 7]] = (Err (UnexpectedEof got n), r')"
proof -
  have "write_frame KShutdown [7, 9] = Ok [2, 0, 0, 0, 0xF0, 7, 9]"
    by (simp add: write_frame_def MAX_PAYLOAD_LEN_def to_le_bytes_def)
  then show ?thesis
    using read_frame_errors [of "[Chunk [2, 0, 0, 0, 0xF0, 7]]" KShutdown "[7, 9]" "[2, 0, 0, 0, 0xF0, 7, 9]" 6] by simp
qed

end
