(* ===== verification/Plugin_Protocol.thy ===== *)
theory Plugin_Protocol
  imports Frame Json
begin

text \<open>
  \<open>control.rs\<close> and \<open>arrow_ipc.rs\<close> of the plugin protocol: the control messages, the frames that carry
  them and the Arrow payloads.  The JSON text of a message (\<open>serde_json\<close>) and the Arrow and base64
  encodings are the parameters \<open>codec\<close> and \<open>arrow\<close>.
\<close>

type_synonym u32 = "32 word"
type_synonym u64 = "64 word"

definition PROTOCOL_VERSION :: u32 where "PROTOCOL_VERSION = 1"

record hello_msg =
  hl_protocol :: u32
  hl_armillary_version :: string

record hello_ack =
  ha_protocol :: u32
  ha_plugin_name :: string
  ha_plugin_version :: string
  ha_capabilities :: "(string \<times> bool) list"

record configure_sink =
  cs_sink_type :: string
  cs_config :: json
  cs_input_schema :: string
  cs_materialization :: "json option"

record configure_ack =
  cx_accepted :: bool
  cx_reason :: "string option"

record batch_ack =
  ba_rows_accepted :: u64
  ba_warning :: "string option"

record commit_ack =
  cm_rows :: u64
  cm_bytes :: u64
  cm_duration_ms :: u64
  cm_rows_updated :: u64
  cm_rows_deleted :: u64

datatype control =
    CHello hello_msg
  | CHelloAck hello_ack
  | CConfigureSink configure_sink
  | CConfigureAck configure_ack
  | CDeclareResource string
  | CBatchAck batch_ack
  | CCommitAck commit_ack
  | CAbort string
  | CError string "json option"
  | CEmpty

record codec =
  cd_encode :: "control \<Rightarrow> byte list"
  cd_hello :: "byte list \<Rightarrow> string + hello_msg"
  cd_hello_ack :: "byte list \<Rightarrow> string + hello_ack"
  cd_configure_sink :: "byte list \<Rightarrow> string + configure_sink"
  cd_configure_ack :: "byte list \<Rightarrow> string + configure_ack"
  cd_declare_resource :: "byte list \<Rightarrow> string + string"
  cd_batch_ack :: "byte list \<Rightarrow> string + batch_ack"
  cd_commit_ack :: "byte list \<Rightarrow> string + commit_ack"
  cd_abort :: "byte list \<Rightarrow> string + string"
  cd_error :: "byte list \<Rightarrow> string + string"

text \<open>What serde promises: a message is read back from its own text.\<close>

definition codec_ok :: "codec \<Rightarrow> bool" where
  "codec_ok cd \<longleftrightarrow> (\<forall>m. cd_hello cd (cd_encode cd (CHello m)) = Ok m) \<and>
     (\<forall>m. cd_hello_ack cd (cd_encode cd (CHelloAck m)) = Ok m) \<and>
     (\<forall>m. cd_configure_sink cd (cd_encode cd (CConfigureSink m)) = Ok m) \<and>
     (\<forall>m. cd_configure_ack cd (cd_encode cd (CConfigureAck m)) = Ok m) \<and>
     (\<forall>m. cd_declare_resource cd (cd_encode cd (CDeclareResource m)) = Ok m) \<and>
     (\<forall>m. cd_batch_ack cd (cd_encode cd (CBatchAck m)) = Ok m) \<and>
     (\<forall>m. cd_commit_ack cd (cd_encode cd (CCommitAck m)) = Ok m) \<and>
     (\<forall>m. cd_abort cd (cd_encode cd (CAbort m)) = Ok m) \<and>
     (\<forall>m d. cd_error cd (cd_encode cd (CError m d)) = Ok m)"

datatype control_error = CtFrame frame_error | CtJson string | CtUnexpectedKind message_kind message_kind

definition write_json_frame :: "codec \<Rightarrow> message_kind \<Rightarrow> control \<Rightarrow> control_error + byte list" where
  "write_json_frame cd kind m = (case write_frame kind (cd_encode cd m) of
      Inl e \<Rightarrow> Err (CtFrame e) | Inr bs \<Rightarrow> Ok bs)"

text \<open>On the result of \<open>read_frame\<close>.\<close>

definition read_json_frame ::
  "(byte list \<Rightarrow> string + 'm) \<Rightarrow> message_kind \<Rightarrow> frame_error + frame \<Rightarrow> control_error + 'm" where
  "read_json_frame parse expected r = (case r of
      Inl e \<Rightarrow> Err (CtFrame e)
    | Inr f \<Rightarrow>
        if fr_kind f \<noteq> expected then Err (CtUnexpectedKind expected (fr_kind f))
        else (case parse (fr_payload f) of Inl e \<Rightarrow> Err (CtJson e) | Inr m \<Rightarrow> Ok m))"

subsection \<open>Arrow payloads\<close>

text \<open>
  The Arrow stream writer and reader and base64.  Reading a stream gives its schema and then one
  result per batch.
\<close>

record ('sc, 'ba) arrow =
  ar_write_schema :: "'sc \<Rightarrow> string + byte list"
  ar_write_batch :: "'ba \<Rightarrow> string + byte list"
  ar_read :: "byte list \<Rightarrow> string + 'sc \<times> (string + 'ba) list"
  ar_rows :: "'ba \<Rightarrow> u64"
  ar_schema :: "'ba \<Rightarrow> 'sc"
  ar_b64 :: "byte list \<Rightarrow> string"
  ar_unb64 :: "string \<Rightarrow> string + byte list"

datatype arrow_error = ArrowErr string | Base64Err string | BatchCount nat | NoSchema

definition encode_schema_b64 :: "('sc, 'ba) arrow \<Rightarrow> 'sc \<Rightarrow> arrow_error + string" where
  "encode_schema_b64 A schema = (case ar_write_schema A schema of
      Inl e \<Rightarrow> Err (ArrowErr e) | Inr bs \<Rightarrow> Ok (ar_b64 A bs))"

definition decode_schema_b64 :: "('sc, 'ba) arrow \<Rightarrow> string \<Rightarrow> arrow_error + 'sc" where
  "decode_schema_b64 A s = (case ar_unb64 A s of
      Inl e \<Rightarrow> Err (Base64Err e)
    | Inr bs \<Rightarrow> (case ar_read A bs of Inl e \<Rightarrow> Err (ArrowErr e) | Inr (schema, _) \<Rightarrow> Ok schema))"

definition encode_record_batch :: "('sc, 'ba) arrow \<Rightarrow> 'ba \<Rightarrow> arrow_error + byte list" where
  "encode_record_batch A batch = (case ar_write_batch A batch of
      Inl e \<Rightarrow> Err (ArrowErr e) | Inr bs \<Rightarrow> Ok bs)"

fun batch_loop :: "(string + 'ba) list \<Rightarrow> 'ba option \<Rightarrow> nat \<Rightarrow> arrow_error + 'ba option \<times> nat" where
  "batch_loop [] out n = Ok (out, n)"
| "batch_loop (Inl e # bs) out n = Err (ArrowErr e)"
| "batch_loop (Inr b # bs) out n = batch_loop bs (case out of None \<Rightarrow> Some b | Some _ \<Rightarrow> out) (n + 1)"

definition decode_record_batch :: "('sc, 'ba) arrow \<Rightarrow> byte list \<Rightarrow> arrow_error + 'ba" where
  "decode_record_batch A bytes = (case ar_read A bytes of
      Inl e \<Rightarrow> Err (ArrowErr e)
    | Inr (_, batches) \<Rightarrow> (case batch_loop batches None 0 of
        Inl e \<Rightarrow> Err e
      | Inr (out, n) \<Rightarrow>
          if n \<noteq> 1 then Err (BatchCount n)
          else (case out of None \<Rightarrow> Err NoSchema | Some b \<Rightarrow> Ok b)))"

text \<open>What Arrow and base64 promise: what is written is read back.\<close>

definition arrow_ok :: "('sc, 'ba) arrow \<Rightarrow> bool" where
  "arrow_ok A \<longleftrightarrow> (\<forall>bs. ar_unb64 A (ar_b64 A bs) = Ok bs) \<and>
     (\<forall>schema bs. ar_write_schema A schema = Ok bs \<longrightarrow> ar_read A bs = Ok (schema, [])) \<and>
     (\<forall>batch bs. ar_write_batch A batch = Ok bs \<longrightarrow> ar_read A bs = Ok (ar_schema A batch, [Ok batch]))"

lemma schema_roundtrip: "arrow_ok A \<Longrightarrow> encode_schema_b64 A schema = Ok s \<Longrightarrow> decode_schema_b64 A s = Ok schema"
  by (auto simp: arrow_ok_def encode_schema_b64_def decode_schema_b64_def split: sum.splits)

lemma batch_roundtrip: "arrow_ok A \<Longrightarrow> encode_record_batch A b = Ok bs \<Longrightarrow> decode_record_batch A bs = Ok b"
  by (auto simp: arrow_ok_def encode_record_batch_def decode_record_batch_def split: sum.splits)

end
