(* ===== verification/Plugin_Session.thy ===== *)
theory Plugin_Session
  imports Plugin_Protocol
begin

text \<open>
  \<open>session.rs\<close> and \<open>transport.rs\<close> of the plugin host and \<open>plugin_sink.rs\<close> of the connectors: the host
  side of a sink plugin.  The transport is a parameter with a state of type \<open>'t\<close>.  The outer option
  is \<open>None\<close> where the code does not return, in the loop of \<open>recv\<close>, or fails a debug assertion.
\<close>

datatype transport_error = TpClosed | TpTimeout string | TpFrame frame_error | TpIo string

record 't transport =
  tp_send :: "message_kind \<Rightarrow> byte list \<Rightarrow> 't \<Rightarrow> (transport_error + unit) \<times> 't"
  tp_recv :: "string \<Rightarrow> 't \<Rightarrow> (transport_error + frame) \<times> 't"

datatype session_error =
    SeTransport transport_error
  | SeJson string
  | SeArrow arrow_error
  | SeProtocolMismatch u32 u32
  | SeConfigureRejected string
  | SePluginError string
  | SeUnexpectedFrame message_kind string

datatype session_state = SsSpawned | SsHandshaked | SsConfigured | SsCommitted | SsAborted | SsClosed

record 't session =
  ss_transport :: 't
  ss_state :: session_state
  ss_host_protocol :: u32
  ss_armillary_version :: string
  ss_plugin_info :: "hello_ack option"
  ss_declared_resource :: "string option"

definition new_session :: "'t \<Rightarrow> u32 \<Rightarrow> string \<Rightarrow> 't session" where
  "new_session t host_protocol version = \<lparr>ss_transport = t, ss_state = SsSpawned,
     ss_host_protocol = host_protocol, ss_armillary_version = version, ss_plugin_info = None,
     ss_declared_resource = None\<rparr>"

definition send :: "'t transport \<Rightarrow> message_kind \<Rightarrow> byte list \<Rightarrow> 't session \<Rightarrow> (session_error + unit) \<times> 't session" where
  "send T kind payload s = (case tp_send T kind payload (ss_transport s) of
      (Inl e, t) \<Rightarrow> (Err (SeTransport e), s\<lparr>ss_transport := t\<rparr>)
    | (Inr _, t) \<Rightarrow> (Ok (), s\<lparr>ss_transport := t\<rparr>))"

definition send_json :: "'t transport \<Rightarrow> codec \<Rightarrow> message_kind \<Rightarrow> control \<Rightarrow> 't session \<Rightarrow>
    (session_error + unit) \<times> 't session" where
  "send_json T cd kind m s = send T kind (cd_encode cd m) s"

partial_function (option) recv ::
  "'t transport \<Rightarrow> codec \<Rightarrow> string \<Rightarrow> 't session \<Rightarrow> ((session_error + frame) \<times> 't session) option" where
  "recv T cd phase s = (case tp_recv T phase (ss_transport s) of
      (Inl e, t) \<Rightarrow> Some (Err (SeTransport e), s\<lparr>ss_transport := t\<rparr>)
    | (Inr f, t) \<Rightarrow>
        let s' = s\<lparr>ss_transport := t\<rparr>
        in if fr_kind f = KError
           then Some (case cd_error cd (fr_payload f) of
               Inl e \<Rightarrow> (Err (SeJson e), s') | Inr msg \<Rightarrow> (Err (SePluginError msg), s'))
           else if fr_kind f = KDeclareResource
           then (case cd_declare_resource cd (fr_payload f) of
               Inl e \<Rightarrow> Some (Err (SeJson e), s')
             | Inr fp \<Rightarrow> recv T cd phase (s'\<lparr>ss_declared_resource := Some fp\<rparr>))
           else Some (Ok f, s'))"

definition expect_json :: "(byte list \<Rightarrow> string + 'm) \<Rightarrow> frame \<Rightarrow> message_kind \<Rightarrow> string \<Rightarrow> session_error + 'm" where
  "expect_json parse f expected phase =
     (if fr_kind f \<noteq> expected then Err (SeUnexpectedFrame (fr_kind f) phase)
      else (case parse (fr_payload f) of Inl e \<Rightarrow> Err (SeJson e) | Inr m \<Rightarrow> Ok m))"

text \<open>Send, receive and expect: the steps every exchange has, stopping at the first error.\<close>

definition exchange ::
  "'t transport \<Rightarrow> codec \<Rightarrow> message_kind \<Rightarrow> byte list \<Rightarrow> (byte list \<Rightarrow> string + 'm) \<Rightarrow> message_kind \<Rightarrow> string \<Rightarrow>
   't session \<Rightarrow> ((session_error + 'm) \<times> 't session) option" where
  "exchange T cd kind payload parse expected phase s = (case send T kind payload s of
      (Inl e, s1) \<Rightarrow> Some (Err e, s1)
    | (Inr _, s1) \<Rightarrow> (case recv T cd phase s1 of
        None \<Rightarrow> None
      | Some (Inl e, s2) \<Rightarrow> Some (Err e, s2)
      | Some (Inr f, s2) \<Rightarrow> Some (expect_json parse f expected phase, s2)))"

definition handshake :: "'t transport \<Rightarrow> codec \<Rightarrow> 't session \<Rightarrow> ((session_error + hello_ack) \<times> 't session) option" where
  "handshake T cd s =
     (if ss_state s \<noteq> SsSpawned then None
      else
        let hello = \<lparr>hl_protocol = ss_host_protocol s, hl_armillary_version = ss_armillary_version s\<rparr>
        in (case exchange T cd KHello (cd_encode cd (CHello hello)) (cd_hello_ack cd) KHelloAck ''handshake'' s of
              None \<Rightarrow> None
            | Some (Inl e, s1) \<Rightarrow> Some (Err e, s1)
            | Some (Inr ack, s1) \<Rightarrow>
                if ha_protocol ack \<noteq> ss_host_protocol s1
                then Some (Err (SeProtocolMismatch (ss_host_protocol s1) (ha_protocol ack)), s1)
                else Some (Ok ack, s1\<lparr>ss_plugin_info := Some ack, ss_state := SsHandshaked\<rparr>)))"

definition configure ::
  "'t transport \<Rightarrow> codec \<Rightarrow> ('sc, 'ba) arrow \<Rightarrow> string \<Rightarrow> json \<Rightarrow> 'sc \<Rightarrow> json option \<Rightarrow> 't session \<Rightarrow>
   ((session_error + unit) \<times> 't session) option" where
  "configure T cd A sink_type config schema materialization s =
     (if ss_state s \<noteq> SsHandshaked then None
      else (case encode_schema_b64 A schema of
          Inl e \<Rightarrow> Some (Err (SeArrow e), s)
        | Inr b64 \<Rightarrow>
            let msg = \<lparr>cs_sink_type = sink_type, cs_config = config, cs_input_schema = b64,
                  cs_materialization = materialization\<rparr>
            in (case exchange T cd KConfigureSink (cd_encode cd (CConfigureSink msg)) (cd_configure_ack cd)
                       KConfigureAck ''configure'' s of
                  None \<Rightarrow> None
                | Some (Inl e, s1) \<Rightarrow> Some (Err e, s1)
                | Some (Inr ack, s1) \<Rightarrow>
                    if \<not> cx_accepted ack
                    then Some (Err (SeConfigureRejected
                      (case cx_reason ack of Some r \<Rightarrow> r | None \<Rightarrow> ''<no reason>'')), s1)
                    else Some (Ok (), s1\<lparr>ss_state := SsConfigured\<rparr>))))"

definition send_batch ::
  "'t transport \<Rightarrow> codec \<Rightarrow> ('sc, 'ba) arrow \<Rightarrow> 'ba \<Rightarrow> 't session \<Rightarrow>
   ((session_error + batch_ack) \<times> 't session) option" where
  "send_batch T cd A batch s =
     (if ss_state s \<noteq> SsConfigured then None
      else (case encode_record_batch A batch of
          Inl e \<Rightarrow> Some (Err (SeArrow e), s)
        | Inr bytes \<Rightarrow> exchange T cd KRecordBatch bytes (cd_batch_ack cd) KBatchAck ''batch_ack'' s))"

definition commit :: "'t transport \<Rightarrow> codec \<Rightarrow> 't session \<Rightarrow> ((session_error + commit_ack) \<times> 't session) option" where
  "commit T cd s =
     (if ss_state s \<noteq> SsConfigured then None
      else (case exchange T cd KCommit (cd_encode cd CEmpty) (cd_commit_ack cd) KCommitAck ''commit'' s of
          None \<Rightarrow> None
        | Some (Inl e, s1) \<Rightarrow> Some (Err e, s1)
        | Some (Inr ack, s1) \<Rightarrow> Some (Ok ack, s1\<lparr>ss_state := SsCommitted\<rparr>)))"

text \<open>Errors of an abort are only logged.\<close>

definition abort :: "'t transport \<Rightarrow> codec \<Rightarrow> string \<Rightarrow> 't session \<Rightarrow> 't session option" where
  "abort T cd reason s =
     (if ss_state s = SsAborted \<or> ss_state s = SsClosed then Some s
      else (case recv T cd ''abort'' (snd (send_json T cd KAbort (CAbort reason) s)) of
          None \<Rightarrow> None
        | Some (_, s1) \<Rightarrow> Some (s1\<lparr>ss_state := SsAborted\<rparr>)))"

definition shutdown :: "'t transport \<Rightarrow> codec \<Rightarrow> 't session \<Rightarrow> 't session" where
  "shutdown T cd s =
     (if ss_state s = SsClosed then s
      else (snd (send_json T cd KShutdown CEmpty s))\<lparr>ss_state := SsClosed\<rparr>)"

subsection \<open>The sink adapter\<close>

datatype sink_error = SkHandshake session_error | SkConfigure session_error | SkBatch session_error | SkCommit session_error

record sink_stats =
  st_rows_written :: u64
  st_bytes_written :: u64
  st_duration_ms :: u64
  st_rows_updated :: u64
  st_rows_deleted :: u64

fun send_batches ::
  "'t transport \<Rightarrow> codec \<Rightarrow> ('sc, 'ba) arrow \<Rightarrow> (session_error \<Rightarrow> string) \<Rightarrow> 'ba list \<Rightarrow> u64 \<Rightarrow> 't session \<Rightarrow>
   ((sink_error + u64) \<times> 't session) option" where
  "send_batches T cd A show_e [] rows s = Some (Ok rows, s)"
| "send_batches T cd A show_e (b # bs) rows s = (case send_batch T cd A b s of
      None \<Rightarrow> None
    | Some (Inr ack, s1) \<Rightarrow> send_batches T cd A show_e bs (rows + ba_rows_accepted ack) s1
    | Some (Inl e, s1) \<Rightarrow> map_option (\<lambda>s2. (Err (SkBatch e), s2)) (abort T cd (''send_batch failed: '' @ show_e e) s1))"

definition commit_stats :: "commit_ack \<Rightarrow> u64 \<Rightarrow> sink_stats" where
  "commit_stats c accepted = \<lparr>st_rows_written = (if cm_rows c > 0 then cm_rows c else accepted),
     st_bytes_written = cm_bytes c, st_duration_ms = cm_duration_ms c,
     st_rows_updated = cm_rows_updated c, st_rows_deleted = cm_rows_deleted c\<rparr>"

text \<open>
  The blocking part of \<open>PluginSink::write\<close>, once the plugin has been spawned; \<open>show_e\<close> prints an error.
\<close>

definition drive_sink ::
  "'t transport \<Rightarrow> codec \<Rightarrow> ('sc, 'ba) arrow \<Rightarrow> (session_error \<Rightarrow> string) \<Rightarrow> string \<Rightarrow> json \<Rightarrow> json option \<Rightarrow> 'sc \<Rightarrow> 'ba list \<Rightarrow> 't session \<Rightarrow>
   ((sink_error + sink_stats) \<times> 't session) option" where
  "drive_sink T cd A show_e sink_type config materialization schema data s0 = (case handshake T cd s0 of
      None \<Rightarrow> None
    | Some (Inl e, s1) \<Rightarrow> Some (Err (SkHandshake e), s1)
    | Some (Inr _, s1) \<Rightarrow> (case configure T cd A sink_type config schema materialization s1 of
        None \<Rightarrow> None
      | Some (Inl e, s2) \<Rightarrow> Some (Err (SkConfigure e), s2)
      | Some (Inr _, s2) \<Rightarrow> (case send_batches T cd A show_e data 0 s2 of
          None \<Rightarrow> None
        | Some (Inl e, s3) \<Rightarrow> Some (Err e, s3)
        | Some (Inr accepted, s3) \<Rightarrow> (case commit T cd s3 of
            None \<Rightarrow> None
          | Some (Inl e, s4) \<Rightarrow> map_option (\<lambda>s5. (Err (SkCommit e), s5)) (abort T cd (''commit failed: '' @ show_e e) s4)
          | Some (Inr c, s4) \<Rightarrow> Some (Ok (commit_stats c accepted), shutdown T cd s4)))))"

section \<open>What the host sends\<close>

text \<open>The messages of a run with \<open>n\<close> batches and a given result.\<close>

fun host_log :: "nat \<Rightarrow> sink_error + sink_stats \<Rightarrow> message_kind list \<Rightarrow> bool" where
  "host_log n (Inr _) ks = (ks = [KHello, KConfigureSink] @ replicate n KRecordBatch @ [KCommit, KShutdown])"
| "host_log n (Inl (SkHandshake e)) ks = (ks = [KHello])"
| "host_log n (Inl (SkConfigure e)) ks = (ks = [KHello] \<or> ks = [KHello, KConfigureSink])"
| "host_log n (Inl (SkBatch e)) ks = (\<exists>k \<le> n. ks = [KHello, KConfigureSink] @ replicate k KRecordBatch @ [KAbort])"
| "host_log n (Inl (SkCommit e)) ks = (ks = [KHello, KConfigureSink] @ replicate n KRecordBatch @ [KCommit, KAbort])"

text \<open>A transport that keeps the kinds of the frames it was asked to send.\<close>

locale host_transport =
  fixes T :: "'t transport" and sent :: "'t \<Rightarrow> message_kind list"
  assumes send_log: "tp_send T k p t = (r, t') \<Longrightarrow> sent t' = sent t @ [k]"
    and recv_log: "tp_recv T phase t = (q, t') \<Longrightarrow> sent t' = sent t"
begin

definition kinds :: "'t session \<Rightarrow> message_kind list" where
  "kinds s = sent (ss_transport s)"

lemma send_kinds: "send T k p s = (r, s') \<Longrightarrow>
    kinds s' = kinds s @ [k] \<and> ss_state s' = ss_state s \<and> ss_host_protocol s' = ss_host_protocol s"
  by (auto simp: send_def kinds_def split: prod.splits sum.splits dest: send_log)

lemma recv_kinds:
  assumes "recv T cd phase s = Some (r, s')"
  shows "kinds s' = kinds s \<and> ss_state s' = ss_state s \<and> ss_host_protocol s' = ss_host_protocol s"
proof -
  define P where "P = (\<lambda>T' (cd :: codec) (phase :: string) s (q :: (session_error + frame) \<times> 't session). T' = T \<longrightarrow> kinds (snd q) = kinds s \<and>
    ss_state (snd q) = ss_state s \<and> ss_host_protocol (snd q) = ss_host_protocol s)"
  have "P T cd phase s (r, s')"
  proof (rule recv.raw_induct [OF _ assms])
    fix rec T' cd' phase' s q
    assume IH: "\<And>a b c d y. rec a b c d = Some y \<Longrightarrow> P a b c d y"
      and eq: "(case tp_recv T' phase' (ss_transport s) of
          (Inl e, t) \<Rightarrow> Some (Err (SeTransport e), s\<lparr>ss_transport := t\<rparr>)
        | (Inr f, t) \<Rightarrow> let s' = s\<lparr>ss_transport := t\<rparr>
            in if fr_kind f = KError
               then Some (case cd_error cd' (fr_payload f) of
                   Inl e \<Rightarrow> (Err (SeJson e), s') | Inr msg \<Rightarrow> (Err (SePluginError msg), s'))
               else if fr_kind f = KDeclareResource
               then (case cd_declare_resource cd' (fr_payload f) of
                   Inl e \<Rightarrow> Some (Err (SeJson e), s')
                 | Inr fp \<Rightarrow> rec T' cd' phase' (s'\<lparr>ss_declared_resource := Some fp\<rparr>))
               else Some (Ok f, s')) = Some q"
    obtain x t where t: "tp_recv T' phase' (ss_transport s) = (x, t)" by fastforce
    show "P T' cd' phase' s q"
      unfolding P_def
    proof
      assume T: "T' = T"
      note log = recv_log [OF t [unfolded T]]
      show "kinds (snd q) = kinds s \<and> ss_state (snd q) = ss_state s \<and> ss_host_protocol (snd q) = ss_host_protocol s"
        using eq t log T by (auto simp: Let_def kinds_def P_def split: sum.splits if_splits dest!: IH)
    qed
  qed
  then show ?thesis by (simp add: P_def)
qed

lemma exchange_kinds:
  assumes "exchange T cd k p parse expected phase s = Some (r, s')"
  shows "kinds s' = kinds s @ [k] \<and> ss_state s' = ss_state s \<and> ss_host_protocol s' = ss_host_protocol s"
  using assms by (auto simp: exchange_def split: prod.splits sum.splits option.splits dest!: send_kinds recv_kinds)

text \<open>The runs of each operation.\<close>

lemma handshake_kinds:
  "handshake T cd s = Some (r, s') \<Longrightarrow> kinds s' = kinds s @ [KHello] \<and> (is_ok r \<longrightarrow> ss_state s' = SsHandshaked)"
  by (auto simp: handshake_def Let_def kinds_def [of "_\<lparr>ss_plugin_info := _, ss_state := _\<rparr>"] kinds_def [symmetric]
      split: if_splits option.splits sum.splits dest!: exchange_kinds)

lemma configure_kinds:
  "configure T cd A st c sc m s = Some (r, s') \<Longrightarrow>
     (kinds s' = kinds s @ [KConfigureSink] \<or> kinds s' = kinds s \<and> \<not> is_ok r) \<and> (is_ok r \<longrightarrow> ss_state s' = SsConfigured)"
  by (auto simp: configure_def Let_def kinds_def [of "_\<lparr>ss_state := _\<rparr>"] kinds_def [symmetric]
      split: if_splits option.splits sum.splits dest!: exchange_kinds)

lemma send_batch_kinds:
  "send_batch T cd A b s = Some (r, s') \<Longrightarrow>
     (kinds s' = kinds s @ [KRecordBatch] \<or> kinds s' = kinds s \<and> \<not> is_ok r) \<and> ss_state s' = ss_state s"
  by (auto simp: send_batch_def split: if_splits sum.splits dest!: exchange_kinds)

lemma commit_kinds:
  "commit T cd s = Some (r, s') \<Longrightarrow> kinds s' = kinds s @ [KCommit] \<and> (is_ok r \<longrightarrow> ss_state s' = SsCommitted) \<and>
     (\<not> is_ok r \<longrightarrow> ss_state s' = ss_state s)"
  by (auto simp: commit_def kinds_def [of "_\<lparr>ss_state := _\<rparr>"] kinds_def [symmetric]
      split: if_splits option.splits sum.splits dest!: exchange_kinds)

lemma abort_kinds:
  "abort T cd reason s = Some s' \<Longrightarrow> ss_state s = SsConfigured \<Longrightarrow> kinds s' = kinds s @ [KAbort]"
  by (auto simp: abort_def send_json_def kinds_def [of "_\<lparr>ss_state := _\<rparr>"] kinds_def [symmetric]
      split: if_splits option.splits dest!: recv_kinds)
    (metis prod.collapse send_kinds)

lemma shutdown_kinds: "ss_state s = SsCommitted \<Longrightarrow> kinds (shutdown T cd s) = kinds s @ [KShutdown]"
  by (simp add: shutdown_def send_json_def kinds_def [of "_\<lparr>ss_state := _\<rparr>"] kinds_def [symmetric])
    (metis prod.collapse send_kinds)

lemma send_batches_kinds:
  "send_batches T cd A show_e data rows s = Some (r, s') \<Longrightarrow> ss_state s = SsConfigured \<Longrightarrow>
    (case r of Inr _ \<Rightarrow> kinds s' = kinds s @ replicate (length data) KRecordBatch \<and> ss_state s' = SsConfigured
     | Inl e \<Rightarrow> (\<exists>b. e = SkBatch b) \<and>
         (\<exists>k \<le> length data. kinds s' = kinds s @ replicate k KRecordBatch @ [KAbort]))"
proof (induction data arbitrary: rows s)
  case Nil
  then show ?case by auto
next
  case (Cons b bs)
  from Cons.prems obtain q s1 where b: "send_batch T cd A b s = Some (q, s1)" by (auto split: option.splits)
  note k = send_batch_kinds [OF b]
  show ?case
  proof (cases q)
    case (Inl e)
    with Cons.prems b obtain s2 where r: "r = Err (SkBatch e)" "s' = s2"
      and a: "abort T cd (''send_batch failed: '' @ show_e e) s1 = Some s2" by auto
    have "kinds s' = kinds s1 @ [KAbort]" using abort_kinds [OF a] k Cons.prems(2) r by simp
    then show ?thesis using k r
      by (auto intro: exI [of _ 0] exI [of _ "Suc 0"])
  next
    case (Inr ack)
    with Cons.prems b have rest: "send_batches T cd A show_e bs (rows + ba_rows_accepted ack) s1 = Some (r, s')" by simp
    have k1: "kinds s1 = kinds s @ [KRecordBatch]" "ss_state s1 = SsConfigured" using k Inr Cons.prems(2) by auto
    from Cons.IH [OF rest k1(2)] show ?thesis
    proof (cases r)
      case (Inl e)
      with Cons.IH [OF rest k1(2)] obtain j where "\<exists>b. e = SkBatch b" "j \<le> length bs"
        "kinds s' = kinds s1 @ replicate j KRecordBatch @ [KAbort]" by auto
      then show ?thesis using Inl k1(1) by (auto intro!: exI [of _ "Suc j"])
    qed (simp add: k1)
  qed
qed

lemma drive_sink_kinds:
  assumes "drive_sink T cd A show_e st c m sc data s = Some (r, s')" "kinds s = []"
  shows "host_log (length data) r (kinds s')"
proof -
  from assms(1) obtain r1 s1 where h: "handshake T cd s = Some (r1, s1)" by (auto simp: drive_sink_def split: option.splits)
  note k1 = handshake_kinds [OF h]
  show ?thesis
  proof (cases r1)
    case (Inl e)
    with assms h k1 show ?thesis by (auto simp: drive_sink_def)
  next
    case (Inr ack)
    with assms(1) h obtain r2 s2 where c: "configure T cd A st c sc m s1 = Some (r2, s2)"
      by (auto simp: drive_sink_def split: option.splits)
    note k2 = configure_kinds [OF c]
    show ?thesis
    proof (cases r2)
      case (Inl e)
      with assms h c k1 k2 Inr show ?thesis by (auto simp: drive_sink_def)
    next
      case conf: (Inr u)
      have s2: "kinds s2 = [KHello, KConfigureSink]" "ss_state s2 = SsConfigured"
        using k1 k2 conf Inr assms(2) by auto
      from assms(1) h c Inr conf obtain r3 s3 where b: "send_batches T cd A show_e data 0 s2 = Some (r3, s3)"
        by (auto simp: drive_sink_def split: option.splits)
      note k3 = send_batches_kinds [OF b s2(2)]
      show ?thesis
      proof (cases r3)
        case (Inl e)
        then have "r = Err e" "s' = s3" using assms(1) h c Inr conf b by (auto simp: drive_sink_def)
        then show ?thesis using k3 Inl s2(1) by auto
      next
        case sent: (Inr rows)
        from assms(1) h c Inr conf b sent obtain r4 s4 where m: "commit T cd s3 = Some (r4, s4)"
          by (auto simp: drive_sink_def split: option.splits)
        note k4 = commit_kinds [OF m]
        show ?thesis
        proof (cases r4)
          case (Inl e)
          with assms(1) h c Inr conf b sent m obtain s5
            where "abort T cd (''commit failed: '' @ show_e e) s4 = Some s5" "r = Err (SkCommit e)" "s' = s5"
            by (auto simp: drive_sink_def)
          then show ?thesis using abort_kinds k4 k3 sent Inl s2(1) by auto
        next
          case (Inr ack)
          then have "r = Ok (commit_stats ack rows)" "s' = shutdown T cd s4"
            using assms(1) h c \<open>r1 = Inr _\<close> conf b sent m by (auto simp: drive_sink_def)
          then show ?thesis using shutdown_kinds k4 k3 sent Inr s2(1) by auto
        qed
      qed
    qed
  qed
qed

end

text \<open>A transport and the log of what it was asked to send.\<close>

definition logged :: "'t transport \<Rightarrow> ('t \<times> message_kind list) transport" where
  "logged T = \<lparr>tp_send = (\<lambda>k p (t, ks). case tp_send T k p t of (r, t') \<Rightarrow> (r, (t', ks @ [k]))),
     tp_recv = (\<lambda>phase (t, ks). case tp_recv T phase t of (r, t') \<Rightarrow> (r, (t', ks)))\<rparr>"

interpretation logged: host_transport "logged T" snd for T :: "'t transport"
  by unfold_locales (auto simp: logged_def split: prod.splits)


text \<open>A scripted plugin, which answers the four messages of a run with one batch.\<close>

definition w_frame :: "message_kind \<Rightarrow> frame" where "w_frame k = \<lparr>fr_kind = k, fr_payload = []\<rparr>"

definition w_script :: "frame list transport" where
  "w_script = \<lparr>tp_send = (\<lambda>k p t. (Ok (), t)),
     tp_recv = (\<lambda>phase t. case t of [] \<Rightarrow> (Err (TpTimeout phase), []) | f # fs \<Rightarrow> (Ok f, fs))\<rparr>"

definition w_codec :: codec where
  "w_codec = \<lparr>cd_encode = (\<lambda>_. []), cd_hello = (\<lambda>_. Ok \<lparr>hl_protocol = 1, hl_armillary_version = []\<rparr>),
     cd_hello_ack = (\<lambda>_. Ok \<lparr>ha_protocol = 1, ha_plugin_name = [], ha_plugin_version = [], ha_capabilities = []\<rparr>),
     cd_configure_sink = (\<lambda>_. Err []), cd_configure_ack = (\<lambda>_. Ok \<lparr>cx_accepted = True, cx_reason = None\<rparr>),
     cd_declare_resource = (\<lambda>_. Ok ''r''), cd_batch_ack = (\<lambda>_. Ok \<lparr>ba_rows_accepted = 3, ba_warning = None\<rparr>),
     cd_commit_ack = (\<lambda>_. Ok \<lparr>cm_rows = 0, cm_bytes = 7, cm_duration_ms = 0, cm_rows_updated = 0, cm_rows_deleted = 0\<rparr>),
     cd_abort = (\<lambda>_. Ok []), cd_error = (\<lambda>_. Ok ''e'')\<rparr>"

definition w_arrow :: "(unit, unit) arrow" where
  "w_arrow = \<lparr>ar_write_schema = (\<lambda>_. Ok []), ar_write_batch = (\<lambda>_. Ok [1]),
     ar_read = (\<lambda>bs. Ok ((), if bs = [] then [] else [Ok ()])), ar_rows = (\<lambda>_. 3), ar_schema = (\<lambda>_. ()),
     ar_b64 = map (\<lambda>b. char_of (unat b)), ar_unb64 = (\<lambda>cs. Ok (map (\<lambda>c. of_nat (of_char c)) cs))\<rparr>"

definition w_drive :: "frame list \<Rightarrow> ((sink_error + sink_stats) \<times> (frame list \<times> message_kind list) session) option" where
  "w_drive fs = drive_sink (logged w_script) w_codec w_arrow (\<lambda>_. []) [] JNull None () [()] (new_session (fs, []) 1 [])"

lemmas w_drive_sims = w_drive_def drive_sink_def handshake_def configure_def send_batch_def commit_def abort_def shutdown_def exchange_def
  send_def send_json_def expect_json_def recv.simps logged_def w_script_def w_codec_def w_arrow_def w_frame_def
  new_session_def commit_stats_def encode_schema_b64_def encode_record_batch_def Let_def


text \<open>
  The protocol document lets the host send \<open>Abort\<close> instead of \<open>Commit\<close> on any error, and then \<open>Shutdown\<close>: a
  failed configuration is followed by neither, and after a failed commit \<open>Abort\<close> follows \<open>Commit\<close>.
\<close>

lemma failed_configure_sends_nothing:
  "\<exists>s e. w_drive (map w_frame [KHelloAck, KError]) = Some (Err (SkConfigure e), s) \<and> snd (ss_transport s) = [KHello, KConfigureSink]"
  by (simp add: w_drive_sims)

lemma failed_commit_aborts_after:
  "\<exists>s e. w_drive (map w_frame [KHelloAck, KConfigureAck, KBatchAck, KError]) = Some (Err (SkCommit e), s) \<and>
     snd (ss_transport s) = [KHello, KConfigureSink, KRecordBatch, KCommit, KAbort]"
  by (simp add: w_drive_sims)

end
