(* ===== verification/Plugin_Sdk.thy ===== *)
theory Plugin_Sdk
  imports Plugin_Protocol
begin

text \<open>
  \<open>lib.rs\<close> of the plugin SDK: the input-output loop of a sink plugin.  The sink is the record
  \<open>sink_ops\<close> of the methods of the trait with a state of type \<open>'k\<close>, the writer is a record of its
  two methods with a state of type \<open>'w\<close>, the reader is that of \<open>Frame\<close>.
\<close>

datatype sink_failure =
    SchemaMismatch string string
  | InvalidConfig string
  | WriteFailed string
  | Fatal string

fun failure_text :: "sink_failure \<Rightarrow> string" where
  "failure_text (SchemaMismatch expected got) = ''schema mismatch: expected '' @ expected @ '', got '' @ got"
| "failure_text (InvalidConfig e) = ''invalid config: '' @ e"
| "failure_text (WriteFailed e) = ''write failed: '' @ e"
| "failure_text (Fatal e) = ''fatal: '' @ e"

record write_stats =
  ws_rows_written :: u64
  ws_bytes_written :: u64
  ws_duration :: nat

text \<open>The trait, with the reading of its configuration type.  Durations are in nanoseconds.\<close>

record ('c, 'sc, 'ba, 'k) sink_ops =
  so_parse :: "json \<Rightarrow> string + 'c"
  so_configure :: "'c \<Rightarrow> 'sc \<Rightarrow> 'k \<Rightarrow> (sink_failure + unit) \<times> 'k"
  so_write :: "'ba \<Rightarrow> 'k \<Rightarrow> (sink_failure + unit) \<times> 'k"
  so_commit :: "'k \<Rightarrow> (sink_failure + write_stats) \<times> 'k"
  so_abort :: "string \<Rightarrow> 'k \<Rightarrow> (sink_failure + unit) \<times> 'k"
  so_fingerprint :: "'k \<Rightarrow> string option"

record plugin_info =
  pi_name :: string
  pi_version :: string

record 'w writer =
  wr_write_all :: "byte list \<Rightarrow> 'w \<Rightarrow> (string + unit) \<times> 'w"
  wr_flush :: "'w \<Rightarrow> (string + unit) \<times> 'w"

record ('k, 'w) sdk =
  sd_sink :: 'k
  sd_reader :: reader
  sd_writer :: 'w

datatype run_error =
    RnControl control_error
  | RnFrame frame_error
  | RnArrow arrow_error
  | RnJson string
  | RnIo string
  | RnUnexpectedFrame message_kind
  | RnProtocolMismatch u32 u32

text \<open>The operator \<open>?\<close>: go on with a result, stop at an error.\<close>

definition then_do ::
  "('e + 'a) \<times> 's \<Rightarrow> ('a \<Rightarrow> 's \<Rightarrow> ('e + 'b) \<times> 's) \<Rightarrow> ('e + 'b) \<times> 's" where
  "then_do r k = (case r of (Inl e, s) \<Rightarrow> (Err e, s) | (Inr a, s) \<Rightarrow> k a s)"

lemma then_do_simps [simp]:
  "then_do (Inl e, s) k = (Err e, s)"
  "then_do (Inr a, s) k = k a s"
  by (simp_all add: then_do_def)

lemma then_do_cases:
  "then_do r k = (q, s') \<longleftrightarrow>
     (\<exists>e. r = (Err e, s') \<and> q = Err e) \<or> (\<exists>a s1. r = (Ok a, s1) \<and> k a s1 = (q, s'))"
  by (auto simp: then_do_def split: prod.splits sum.splits)

subsection \<open>Frames on the writer and the reader\<close>

definition write_frame_to ::
  "'w writer \<Rightarrow> message_kind \<Rightarrow> byte list \<Rightarrow> 'w \<Rightarrow> (frame_error + unit) \<times> 'w" where
  "write_frame_to W kind payload w =
     (if length payload > MAX_PAYLOAD_LEN then (Err (PayloadTooLarge (length payload)), w)
      else case wr_write_all W (to_le_bytes (of_nat (length payload))) w of
          (Inl e, w1) \<Rightarrow> (Err (FrameIo e), w1)
        | (Inr _, w1) \<Rightarrow> (case wr_write_all W [as_u8 kind] w1 of
            (Inl e, w2) \<Rightarrow> (Err (FrameIo e), w2)
          | (Inr _, w2) \<Rightarrow> (case wr_write_all W payload w2 of
              (Inl e, w3) \<Rightarrow> (Err (FrameIo e), w3)
            | (Inr _, w3) \<Rightarrow> (Ok (), w3))))"

definition sdk_write_frame ::
  "'w writer \<Rightarrow> message_kind \<Rightarrow> byte list \<Rightarrow> ('k, 'w) sdk \<Rightarrow> (frame_error + unit) \<times> ('k, 'w) sdk" where
  "sdk_write_frame W kind payload s = (case write_frame_to W kind payload (sd_writer s) of
      (r, w) \<Rightarrow> (r, s\<lparr>sd_writer := w\<rparr>))"

definition sdk_write_json ::
  "'w writer \<Rightarrow> codec \<Rightarrow> message_kind \<Rightarrow> control \<Rightarrow> ('k, 'w) sdk \<Rightarrow> (run_error + unit) \<times> ('k, 'w) sdk" where
  "sdk_write_json W cd kind m s = (case sdk_write_frame W kind (cd_encode cd m) s of
      (Inl e, s1) \<Rightarrow> (Err (RnControl (CtFrame e)), s1)
    | (Inr _, s1) \<Rightarrow> (Ok (), s1))"

definition sdk_flush :: "'w writer \<Rightarrow> ('k, 'w) sdk \<Rightarrow> (run_error + unit) \<times> ('k, 'w) sdk" where
  "sdk_flush W s = (case wr_flush W (sd_writer s) of
      (Inl e, w) \<Rightarrow> (Err (RnIo e), s\<lparr>sd_writer := w\<rparr>)
    | (Inr _, w) \<Rightarrow> (Ok (), s\<lparr>sd_writer := w\<rparr>))"

definition sdk_read_json ::
  "(byte list \<Rightarrow> string + 'm) \<Rightarrow> message_kind \<Rightarrow> ('k, 'w) sdk \<Rightarrow> (run_error + 'm) \<times> ('k, 'w) sdk" where
  "sdk_read_json parse expected s = (case read_frame (sd_reader s) of
      (r, rd) \<Rightarrow> ((case read_json_frame parse expected r of Inl e \<Rightarrow> Err (RnControl e) | Inr m \<Rightarrow> Ok m),
        s\<lparr>sd_reader := rd\<rparr>))"

definition send_error ::
  "'w writer \<Rightarrow> codec \<Rightarrow> string \<Rightarrow> ('k, 'w) sdk \<Rightarrow> (run_error + unit) \<times> ('k, 'w) sdk" where
  "send_error W cd message s = sdk_write_json W cd KError (CError message None) s"

subsection \<open>The three phases\<close>

definition sdk_handshake ::
  "'w writer \<Rightarrow> codec \<Rightarrow> plugin_info \<Rightarrow> ('k, 'w) sdk \<Rightarrow> (run_error + unit) \<times> ('k, 'w) sdk" where
  "sdk_handshake W cd info s = then_do (sdk_read_json (cd_hello cd) KHello s) (\<lambda>hello s1.
     if hl_protocol hello \<noteq> PROTOCOL_VERSION
     then (Err (RnProtocolMismatch (hl_protocol hello) PROTOCOL_VERSION),
           snd (send_error W cd (''plugin protocol mismatch: host speaks '' @ show_nat (unat (hl_protocol hello)) @
             '', SDK speaks '' @ show_nat (unat PROTOCOL_VERSION)) s1))
     else then_do (sdk_write_json W cd KHelloAck (CHelloAck \<lparr>ha_protocol = PROTOCOL_VERSION,
            ha_plugin_name = pi_name info, ha_plugin_version = pi_version info, ha_capabilities = []\<rparr>) s1)
          (\<lambda>_. sdk_flush W))"

text \<open>The answer to a configuration, \<open>True\<close> when the plugin goes on.\<close>

definition configure_answer ::
  "'w writer \<Rightarrow> codec \<Rightarrow> bool \<Rightarrow> string option \<Rightarrow> ('k, 'w) sdk \<Rightarrow> (run_error + bool) \<times> ('k, 'w) sdk" where
  "configure_answer W cd accepted reason s =
     then_do (sdk_write_json W cd KConfigureAck (CConfigureAck \<lparr>cx_accepted = accepted, cx_reason = reason\<rparr>) s)
       (\<lambda>_ s1. then_do (sdk_flush W s1) (\<lambda>_ s2. (Ok accepted, s2)))"

definition sdk_configure ::
  "'w writer \<Rightarrow> codec \<Rightarrow> ('sc, 'ba) arrow \<Rightarrow> ('c, 'sc, 'ba, 'k) sink_ops \<Rightarrow> ('k, 'w) sdk \<Rightarrow>
   (run_error + bool) \<times> ('k, 'w) sdk" where
  "sdk_configure W cd A S s = then_do (sdk_read_json (cd_configure_sink cd) KConfigureSink s) (\<lambda>cfg s1.
     case decode_schema_b64 A (cs_input_schema cfg) of
       Inl e \<Rightarrow> (Err (RnArrow e), s1)
     | Inr schema \<Rightarrow> (case so_parse S (cs_config cfg) of
         Inl e \<Rightarrow> configure_answer W cd False (Some (''invalid config: '' @ e)) s1
       | Inr c \<Rightarrow> (case so_configure S c schema (sd_sink s1) of
           (Inl e, k) \<Rightarrow> configure_answer W cd False (Some (failure_text e)) (s1\<lparr>sd_sink := k\<rparr>)
         | (Inr _, k) \<Rightarrow>
             then_do (case so_fingerprint S k of
                 None \<Rightarrow> (Ok (), s1\<lparr>sd_sink := k\<rparr>)
               | Some fp \<Rightarrow> sdk_write_json W cd KDeclareResource (CDeclareResource fp) (s1\<lparr>sd_sink := k\<rparr>))
             (\<lambda>_. configure_answer W cd True None))))"

text \<open>One batch; the result is \<open>True\<close> when the loop goes on.\<close>

definition on_batch ::
  "'w writer \<Rightarrow> codec \<Rightarrow> ('sc, 'ba) arrow \<Rightarrow> ('c, 'sc, 'ba, 'k) sink_ops \<Rightarrow> byte list \<Rightarrow> ('k, 'w) sdk \<Rightarrow>
   (run_error + bool) \<times> ('k, 'w) sdk" where
  "on_batch W cd A S payload s = (case decode_record_batch A payload of
      Inl e \<Rightarrow> (Err (RnArrow e), s)
    | Inr batch \<Rightarrow> (case so_write S batch (sd_sink s) of
        (Inr _, k) \<Rightarrow>
          then_do (sdk_write_json W cd KBatchAck (CBatchAck \<lparr>ba_rows_accepted = ar_rows A batch, ba_warning = None\<rparr>)
            (s\<lparr>sd_sink := k\<rparr>)) (\<lambda>_ s1. then_do (sdk_flush W s1) (\<lambda>_ s2. (Ok True, s2)))
      | (Inl e, k) \<Rightarrow>
          then_do (send_error W cd (failure_text e) (s\<lparr>sd_sink := k\<rparr>))
            (\<lambda>_ s1. then_do (sdk_flush W s1) (\<lambda>_ s2. (Ok False, s2)))))"

text \<open>\<open>as_millis() as u64\<close> keeps the low 64 bits.\<close>

definition commit_answer ::
  "'w writer \<Rightarrow> codec \<Rightarrow> ('c, 'sc, 'ba, 'k) sink_ops \<Rightarrow> ('k, 'w) sdk \<Rightarrow> (run_error + unit) \<times> ('k, 'w) sdk" where
  "commit_answer W cd S s = then_do (case so_commit S (sd_sink s) of
      (Inr stats, k) \<Rightarrow> sdk_write_json W cd KCommitAck (CCommitAck \<lparr>cm_rows = ws_rows_written stats,
          cm_bytes = ws_bytes_written stats, cm_duration_ms = of_nat (ws_duration stats div 1000000),
          cm_rows_updated = 0, cm_rows_deleted = 0\<rparr>) (s\<lparr>sd_sink := k\<rparr>)
    | (Inl e, k) \<Rightarrow> send_error W cd (failure_text e) (s\<lparr>sd_sink := k\<rparr>)) (\<lambda>_. sdk_flush W)"

definition on_abort ::
  "'w writer \<Rightarrow> codec \<Rightarrow> ('c, 'sc, 'ba, 'k) sink_ops \<Rightarrow> byte list \<Rightarrow> ('k, 'w) sdk \<Rightarrow>
   (run_error + unit) \<times> ('k, 'w) sdk" where
  "on_abort W cd S payload s = (case cd_abort cd payload of
      Inl e \<Rightarrow> (Err (RnJson e), s)
    | Inr reason \<Rightarrow>
        then_do (case sdk_write_frame W KAbortAck [] (s\<lparr>sd_sink := snd (so_abort S reason (sd_sink s))\<rparr>) of
            (Inl e, s1) \<Rightarrow> (Err (RnFrame e), s1)
          | (Inr _, s1) \<Rightarrow> (Ok (), s1))
        (\<lambda>_. sdk_flush W))"

section \<open>The loops\<close>

text \<open>A frame that was read has left the reader, so the loops end on every input.\<close>

fun event_size :: "read_event \<Rightarrow> nat" where
  "event_size (Chunk bs) = Suc (length bs)"
| "event_size _ = 1"

definition reader_size :: "reader \<Rightarrow> nat" where
  "reader_size r = sum_list (map event_size r)"

lemma read_exact_size:
  "read_exact n got r = (q, r') \<Longrightarrow> reader_size r' \<le> reader_size r \<and> (is_ok q \<and> length got < n \<longrightarrow> reader_size r' < reader_size r)"
proof (induction r arbitrary: got)
  case Nil
  then show ?case by (auto split: if_splits)
next
  case (Cons ev r)
  then show ?case
    by (cases ev) (auto simp: reader_size_def split: if_splits dest!: Cons.IH)
qed

lemma read_frame_size: "read_frame r = (Ok f, r') \<Longrightarrow> reader_size r' < reader_size r"
  by (auto simp: read_frame_def Let_def split: prod.splits sum.splits if_splits dest!: read_exact_size)

function (sequential) drain_until_shutdown :: "reader \<Rightarrow> (run_error + unit) \<times> reader" where
  "drain_until_shutdown r = (case read_frame r of
      (Inr f, r1) \<Rightarrow> if fr_kind f = KShutdown then (Ok (), r1) else drain_until_shutdown r1
    | (Inl e, r1) \<Rightarrow> (case e of
        UnexpectedEof _ _ \<Rightarrow> (Ok (), r1) | FrameIo _ \<Rightarrow> (Ok (), r1) | _ \<Rightarrow> (Err (RnFrame e), r1)))"
  by auto
termination by (relation "measure reader_size") (auto dest: read_frame_size [OF sym])

definition on_commit ::
  "'w writer \<Rightarrow> codec \<Rightarrow> ('c, 'sc, 'ba, 'k) sink_ops \<Rightarrow> ('k, 'w) sdk \<Rightarrow> (run_error + unit) \<times> ('k, 'w) sdk" where
  "on_commit W cd S s = then_do (commit_answer W cd S s) (\<lambda>_ s1.
     case drain_until_shutdown (sd_reader s1) of (r, rd) \<Rightarrow> (r, s1\<lparr>sd_reader := rd\<rparr>))"

lemma sdk_write_frame_keeps [simp]:
  "sdk_write_frame W kind payload s = (r, s') \<Longrightarrow> sd_reader s' = sd_reader s \<and> sd_sink s' = sd_sink s"
  by (auto simp: sdk_write_frame_def split: prod.splits)

lemma sdk_write_json_keeps:
  "sdk_write_json W cd kind m s = (r, s') \<Longrightarrow> sd_reader s' = sd_reader s \<and> sd_sink s' = sd_sink s"
  by (auto simp: sdk_write_json_def split: prod.splits sum.splits dest: sdk_write_frame_keeps)

lemma sdk_flush_keeps: "sdk_flush W s = (r, s') \<Longrightarrow> sd_reader s' = sd_reader s \<and> sd_sink s' = sd_sink s"
  by (auto simp: sdk_flush_def split: prod.splits sum.splits)

lemmas sdk_keeps = sdk_write_frame_keeps sdk_write_json_keeps sdk_flush_keeps

lemma on_batch_reader: "on_batch W cd A S payload s = (r, s') \<Longrightarrow> sd_reader s' = sd_reader s"
  by (auto simp: on_batch_def send_error_def then_do_cases split: sum.splits prod.splits dest!: sdk_keeps)

function (sequential) sdk_loop ::
  "'w writer \<Rightarrow> codec \<Rightarrow> ('sc, 'ba) arrow \<Rightarrow> ('c, 'sc, 'ba, 'k) sink_ops \<Rightarrow> ('k, 'w) sdk \<Rightarrow>
   (run_error + unit) \<times> ('k, 'w) sdk" where
  "sdk_loop W cd A S s = (case read_frame (sd_reader s) of
      (Inl e, rd) \<Rightarrow> (Err (RnFrame e), s\<lparr>sd_reader := rd\<rparr>)
    | (Inr f, rd) \<Rightarrow>
        if fr_kind f = KRecordBatch
        then (case on_batch W cd A S (fr_payload f) (s\<lparr>sd_reader := rd\<rparr>) of
            (Inl e, s1) \<Rightarrow> (Err e, s1)
          | (Inr goes_on, s1) \<Rightarrow> if goes_on then sdk_loop W cd A S s1 else (Ok (), s1))
        else if fr_kind f = KCommit then on_commit W cd S (s\<lparr>sd_reader := rd\<rparr>)
        else if fr_kind f = KAbort then on_abort W cd S (fr_payload f) (s\<lparr>sd_reader := rd\<rparr>)
        else if fr_kind f = KShutdown then (Ok (), s\<lparr>sd_reader := rd\<rparr>)
        else (Err (RnUnexpectedFrame (fr_kind f)), s\<lparr>sd_reader := rd\<rparr>))"
  by auto
termination
  by (relation "measure (\<lambda>(_, _, _, _, s). reader_size (sd_reader s))")
    (auto dest!: read_frame_size [OF sym] on_batch_reader [OF sym])

declare drain_until_shutdown.simps [simp del] sdk_loop.simps [simp del]

definition run_io ::
  "'w writer \<Rightarrow> codec \<Rightarrow> ('sc, 'ba) arrow \<Rightarrow> ('c, 'sc, 'ba, 'k) sink_ops \<Rightarrow> plugin_info \<Rightarrow> 'k \<Rightarrow> reader \<Rightarrow> 'w \<Rightarrow>
   (run_error + unit) \<times> ('k, 'w) sdk" where
  "run_io W cd A S info sink r w =
     then_do (sdk_handshake W cd info \<lparr>sd_sink = sink, sd_reader = r, sd_writer = w\<rparr>) (\<lambda>_ s1.
       then_do (sdk_configure W cd A S s1) (\<lambda>configured s2.
         if configured then sdk_loop W cd A S s2 else (Ok (), s2)))"

text \<open>The exit code of the process.\<close>

definition run_exit_code :: "(run_error + unit) \<times> ('k, 'w) sdk \<Rightarrow> nat" where
  "run_exit_code r = (case fst r of Inr _ \<Rightarrow> 0 | Inl _ \<Rightarrow> 1)"

section \<open>The calls a sink sees\<close>

text \<open>A sink with the log of the calls it has seen.\<close>

datatype sink_call = Configured | Wrote | Committed | Aborted

definition log_call :: "sink_call \<Rightarrow> ('k \<Rightarrow> 'r \<times> 'k) \<Rightarrow> 'k \<times> sink_call list \<Rightarrow> 'r \<times> 'k \<times> sink_call list" where
  "log_call c f = (\<lambda>(k, l). case f k of (r, k') \<Rightarrow> (r, (k', l @ [c])))"

definition logged_sink :: "('c, 'sc, 'ba, 'k) sink_ops \<Rightarrow> ('c, 'sc, 'ba, 'k \<times> sink_call list) sink_ops" where
  "logged_sink S = \<lparr>so_parse = so_parse S, so_configure = (\<lambda>c sc. log_call Configured (so_configure S c sc)),
     so_write = (\<lambda>b. log_call Wrote (so_write S b)), so_commit = log_call Committed (so_commit S),
     so_abort = (\<lambda>reason. log_call Aborted (so_abort S reason)), so_fingerprint = (\<lambda>s. so_fingerprint S (fst s))\<rparr>"

definition calls :: "('k \<times> sink_call list, 'w) sdk \<Rightarrow> sink_call list" where
  "calls s = snd (sd_sink s)"

text \<open>The life of a sink: configured once, then written to, then committed or aborted at most once.\<close>

definition sink_life :: "sink_call list \<Rightarrow> bool" where
  "sink_life l \<longleftrightarrow> l = [] \<or> (\<exists>n e. l = Configured # replicate n Wrote @ e \<and> e \<in> {[], [Committed], [Aborted]})"

lemma logged_sink_sel [simp]:
  "so_parse (logged_sink S) = so_parse S"
  "so_configure (logged_sink S) c sc = log_call Configured (so_configure S c sc)"
  "so_write (logged_sink S) b = log_call Wrote (so_write S b)"
  "so_commit (logged_sink S) = log_call Committed (so_commit S)"
  "so_abort (logged_sink S) reason = log_call Aborted (so_abort S reason)"
  by (simp_all add: logged_sink_def)

lemma calls_upd [simp]: "calls (s\<lparr>sd_reader := r\<rparr>) = calls s" "calls (s\<lparr>sd_sink := k\<rparr>) = snd k"
  by (simp_all add: calls_def)

lemma sdk_keeps_calls:
  "sdk_write_json W cd kind m s = (r, s') \<Longrightarrow> calls s' = calls s"
  "sdk_flush W s = (q, s') \<Longrightarrow> calls s' = calls s"
  "sdk_write_frame W kind payload s = (p, s') \<Longrightarrow> calls s' = calls s"
  by (auto simp: calls_def dest: sdk_keeps)

lemma log_call_calls: "log_call c f (sd_sink s) = (r, k) \<Longrightarrow> snd k = calls s @ [c]"
  by (auto simp: log_call_def calls_def split: prod.splits)

lemma sink_life_cases:
  "l = Configured # replicate n Wrote \<Longrightarrow> sink_life l \<and> sink_life (l @ [Committed]) \<and> sink_life (l @ [Aborted])"
  unfolding sink_life_def by fastforce

lemma on_batch_calls:
  "on_batch W cd A (logged_sink S) payload s = (r, s') \<Longrightarrow> calls s' = calls s \<and> \<not> is_ok r \<or> calls s' = calls s @ [Wrote]"
  by (auto simp: on_batch_def send_error_def then_do_cases split: sum.splits prod.splits
      dest!: sdk_keeps_calls log_call_calls)

lemma commit_answer_calls:
  "commit_answer W cd (logged_sink S) s = (r, s') \<Longrightarrow> calls s' = calls s @ [Committed]"
  by (auto simp: commit_answer_def send_error_def then_do_cases split: sum.splits prod.splits
      dest!: sdk_keeps_calls log_call_calls)

lemma on_commit_calls:
  "on_commit W cd (logged_sink S) s = (r, s') \<Longrightarrow> calls s' = calls s @ [Committed]"
  by (cases "commit_answer W cd (logged_sink S) s")
    (auto simp: on_commit_def then_do_def split: sum.splits prod.splits dest: commit_answer_calls)

lemma on_abort_calls:
  assumes "on_abort W cd (logged_sink S) payload s = (r, s')"
  shows "calls s' = calls s \<or> calls s' = calls s @ [Aborted]"
proof (cases "cd_abort cd payload")
  case (Inr reason)
  obtain q k where "log_call Aborted (so_abort S reason) (sd_sink s) = (q, k)" by (rule prod.exhaust)
  with assms Inr show ?thesis
    by (auto simp: on_abort_def then_do_cases split: sum.splits prod.splits dest!: sdk_keeps_calls log_call_calls)
qed (use assms in \<open>simp add: on_abort_def\<close>)

lemma sdk_loop_calls:
  "sdk_loop W cd A (logged_sink S) s = (r, s') \<Longrightarrow> calls s = Configured # replicate n Wrote \<Longrightarrow> sink_life (calls s')"
proof (induction W cd A "logged_sink S" s arbitrary: n rule: sdk_loop.induct)
  case (1 W cd A s)
  show ?case
  proof (cases "read_frame (sd_reader s)")
    case (Pair q rd)
    show ?thesis
    proof (cases q)
      case (Inl e)
      with 1(2,3) Pair show ?thesis by (auto simp: sdk_loop.simps [of _ _ _ _ s] sink_life_cases)
    next
      case (Inr f)
      show ?thesis
      proof (cases "fr_kind f = KRecordBatch")
        case True
        obtain q1 s1 where b: "on_batch W cd A (logged_sink S) (fr_payload f) (s\<lparr>sd_reader := rd\<rparr>) = (q1, s1)" by fastforce
        note c = on_batch_calls [OF this]
        show ?thesis
        proof (cases "q1 = Inr True")
          case go: True
          have l: "sdk_loop W cd A (logged_sink S) s1 = (r, s')"
            using 1(2) Pair Inr True b go by (simp add: sdk_loop.simps [of _ _ _ _ s])
          have "calls s1 = Configured # replicate (Suc n) Wrote"
            using c go 1(3) by (simp add: replicate_append_same)
          then show ?thesis using 1(1) [OF Pair [symmetric] Inr True b [symmetric] go TrueI l] by blast
        next
          case False
          then have "s' = s1" using 1(2) Pair Inr True b by (auto simp: sdk_loop.simps [of _ _ _ _ s] split: sum.splits if_splits)
          then show ?thesis using c 1(3) sink_life_cases [OF refl, of n] sink_life_cases [OF refl, of "Suc n"]
            by (auto simp: replicate_append_same)
        qed
      next
        case False
        then have "calls s' \<in> {calls s, calls s @ [Committed], calls s @ [Aborted]}"
          using 1(2) Pair Inr
          by (auto simp: sdk_loop.simps [of _ _ _ _ s] split: if_splits dest!: on_commit_calls on_abort_calls)
        then show ?thesis using sink_life_cases [OF 1(3)] by auto
      qed
    qed
  qed
qed

lemma send_error_calls: "calls (snd (send_error W cd message s)) = calls s"
  by (metis send_error_def sdk_keeps_calls(1) prod.collapse)

lemma sdk_handshake_calls: "sdk_handshake W cd info s = (r, s') \<Longrightarrow> calls s' = calls s"
  by (auto simp: sdk_handshake_def sdk_read_json_def then_do_cases send_error_calls split: prod.splits sum.splits if_splits
      dest!: sdk_keeps_calls)

lemma configure_answer_calls:
  "configure_answer W cd b reason s = (r, s') \<Longrightarrow> calls s' = calls s \<and> r \<noteq> Ok (\<not> b)"
  by (auto simp: configure_answer_def then_do_cases dest!: sdk_keeps_calls)

lemma sdk_configure_calls:
  assumes "sdk_configure W cd A (logged_sink S) s = (r, s')"
  shows "calls s' = calls s \<and> r \<noteq> Ok True \<or> calls s' = calls s @ [Configured]"
proof -
  obtain q s1 where q: "sdk_read_json (cd_configure_sink cd) KConfigureSink s = (q, s1)" by (rule prod.exhaust)
  then have c1: "calls s1 = calls s" by (auto simp: sdk_read_json_def split: prod.splits)
  show ?thesis
  proof (cases "\<exists>cfg schema c. q = Ok cfg \<and> decode_schema_b64 A (cs_input_schema cfg) = Ok schema \<and>
      so_parse S (cs_config cfg) = Ok c")
    case False
    consider (e) e where "q = Err e"
      | (schema) cfg e where "q = Ok cfg" "decode_schema_b64 A (cs_input_schema cfg) = Err e"
      | (parse) cfg schema e where "q = Ok cfg" "decode_schema_b64 A (cs_input_schema cfg) = Ok schema"
          "so_parse S (cs_config cfg) = Err e"
      using False by (metis sum.exhaust)
    then show ?thesis
      by cases (use assms q c1 in \<open>auto simp: sdk_configure_def dest!: configure_answer_calls\<close>)
  next
    case True
    then obtain cfg schema c where ok: "q = Ok cfg" "decode_schema_b64 A (cs_input_schema cfg) = Ok schema"
      "so_parse S (cs_config cfg) = Ok c" by blast
    obtain q2 k where k: "log_call Configured (so_configure S c schema) (sd_sink s1) = (q2, k)" by (rule prod.exhaust)
    have ck: "snd k = calls s @ [Configured]" using log_call_calls [OF k] c1 by simp
    show ?thesis
    proof (cases q2)
      case (Inl e)
      then show ?thesis using assms q ok k ck by (auto simp: sdk_configure_def dest!: configure_answer_calls)
    next
      case (Inr u)
      let ?s = "s1\<lparr>sd_sink := k\<rparr>"
      obtain q3 s3 where d: "(case so_fingerprint (logged_sink S) k of None \<Rightarrow> (Ok (), ?s)
        | Some fp \<Rightarrow> sdk_write_json W cd KDeclareResource (CDeclareResource fp) ?s) = (q3, s3)" by (rule prod.exhaust)
      then have "calls s3 = calls s @ [Configured]"
        using ck by (auto split: option.splits dest!: sdk_keeps_calls)
      moreover have "then_do (q3, s3) (\<lambda>_. configure_answer W cd True None) = (r, s')"
        using assms unfolding sdk_configure_def q then_do_simps ok logged_sink_sel sum.case k prod.case Inr d .
      ultimately show ?thesis by (cases q3) (auto dest!: configure_answer_calls)
    qed
  qed
qed

text \<open>
  C20: whatever bytes arrive, in whatever chunks, with whatever errors of the reader, the writer and
  the sink itself, the sink is configured at most once and before anything else, is then given
  batches, and is then committed or aborted at most once and never both.
\<close>

theorem sdk_sink_life:
  "sink_life (calls (snd (run_io W cd A (logged_sink S) info (k, []) r w)))"
proof -
  let ?s = "\<lparr>sd_sink = (k, [] :: sink_call list), sd_reader = r, sd_writer = w\<rparr>"
  obtain q1 s1 where h: "sdk_handshake W cd info ?s = (q1, s1)" by (rule prod.exhaust)
  have c1: "calls s1 = []" using sdk_handshake_calls [OF h] by (simp add: calls_def)
  obtain q2 s2 where c: "sdk_configure W cd A (logged_sink S) s1 = (q2, s2)" by (rule prod.exhaust)
  note c2 = sdk_configure_calls [OF c]
  obtain q3 s3 where l: "sdk_loop W cd A (logged_sink S) s2 = (q3, s3)" by (rule prod.exhaust)
  note life = sink_life_cases [OF refl, of 0]
  show ?thesis
  proof (cases "is_ok q1 \<and> q2 = Ok True")
    case True
    then have "sink_life (calls s3)" using sdk_loop_calls [OF l, of 0] c1 c2 by auto
    then show ?thesis using True h c l by (auto simp: run_io_def is_ok_def split: sum.splits)
  next
    case False
    then have "snd (run_io W cd A (logged_sink S) info (k, []) r w) \<in> {s1, s2}"
      using h c by (cases q1; cases q2) (auto simp: run_io_def)
    then show ?thesis using c1 c2 life by (auto simp: sink_life_def)
  qed
qed

end
