(* ===== verification/Plugin_Link.thy ===== *)
theory Plugin_Link
  imports Plugin_Session Plugin_Sdk
begin

text \<open>
  The two ends of the plugin protocol put together: the host of \<open>Plugin_Session\<close> drives the loop of
  \<open>Plugin_Sdk\<close> over byte streams.  The plugin is deterministic, so what it has written, once it waits
  for more, is what \<open>run_io\<close> writes on the bytes sent so far.
\<close>

text \<open>A writer that keeps what is written, as a pipe does.\<close>

definition pipe_writer :: "byte list writer" where
  "pipe_writer = \<lparr>wr_write_all = (\<lambda>bs w. (Ok (), w @ bs)), wr_flush = (\<lambda>w. (Ok (), w))\<rparr>"

definition reader_of :: "byte list \<Rightarrow> reader" where
  "reader_of bs = (if bs = [] then [] else [Chunk bs])"

definition plugin_run ::
  "codec \<Rightarrow> ('sc, 'ba) arrow \<Rightarrow> ('c, 'sc, 'ba, 'k) sink_ops \<Rightarrow> plugin_info \<Rightarrow> 'k \<Rightarrow> byte list \<Rightarrow>
   (run_error + unit) \<times> ('k, byte list) sdk" where
  "plugin_run cd A S info sink bs = run_io pipe_writer cd A S info sink (reader_of bs) []"

text \<open>Bytes sent to the plugin, and how many of its own bytes the host has taken.\<close>

record pipe =
  pp_in :: "byte list"
  pp_taken :: nat

definition link ::
  "codec \<Rightarrow> ('sc, 'ba) arrow \<Rightarrow> ('c, 'sc, 'ba, 'k) sink_ops \<Rightarrow> plugin_info \<Rightarrow> 'k \<Rightarrow> pipe transport" where
  "link cd A S info sink = \<lparr>
     tp_send = (\<lambda>kind payload t. case write_frame kind payload of
         Inl e \<Rightarrow> (Err (TpFrame e), t)
       | Inr bs \<Rightarrow> (Ok (), t\<lparr>pp_in := pp_in t @ bs\<rparr>)),
     tp_recv = (\<lambda>phase t.
       case read_frame (reader_of (drop (pp_taken t) (sd_writer (snd (plugin_run cd A S info sink (pp_in t)))))) of
         (Inl e, _) \<Rightarrow> (Err (TpTimeout phase), t)
       | (Inr f, _) \<Rightarrow> (Ok f, t\<lparr>pp_taken := pp_taken t + 5 + length (fr_payload f)\<rparr>))\<rparr>"

section \<open>The plugin's side\<close>

definition fits :: "byte list \<Rightarrow> bool" where
  "fits payload \<longleftrightarrow> length payload \<le> MAX_PAYLOAD_LEN"

definition enc :: "message_kind \<Rightarrow> byte list \<Rightarrow> byte list" where
  "enc kind payload = to_le_bytes (of_nat (length payload)) @ [as_u8 kind] @ payload"

lemma length_enc [simp]: "length (enc kind payload) = 5 + length payload"
  by (simp add: enc_def)

lemma write_frame_enc: "fits payload \<Longrightarrow> write_frame kind payload = Ok (enc kind payload)"
  by (simp add: write_frame_def enc_def fits_def)

lemma reader_of_simps [simp]: "clean (reader_of bs)" "bytes_in (reader_of bs) = bs"
  by (simp_all add: reader_of_def)

lemma read_enc:
  assumes "clean r" "bytes_in r = enc kind payload @ rest" "fits payload"
  obtains r' where "read_frame r = (Ok \<lparr>fr_kind = kind, fr_payload = payload\<rparr>, r')" "clean r'" "bytes_in r' = rest"
  using read_frame_Ok [OF write_frame_enc assms(1,2)] assms(3) by blast

lemma read_frame_end:
  assumes "clean r" "bytes_in r = []"
  obtains e r' where "read_frame r = (Err e, r')"
  using read_exact_short [OF assms(1), of 4] assms(2) by (simp add: read_frame_def)

text \<open>The sink, what is still to be read and what has been written.\<close>

definition holds :: "('k, byte list) sdk \<Rightarrow> 'k \<Rightarrow> byte list \<Rightarrow> byte list \<Rightarrow> bool" where
  "holds s k rest out \<longleftrightarrow> sd_sink s = k \<and> clean (sd_reader s) \<and> bytes_in (sd_reader s) = rest \<and> sd_writer s = out"

lemma write_frame_to_pipe: "fits payload \<Longrightarrow> write_frame_to pipe_writer kind payload w = (Ok (), w @ enc kind payload)"
  unfolding write_frame_to_def pipe_writer_def fits_def enc_def by simp

lemma sdk_write_json_pipe:
  "holds s k rest out \<Longrightarrow> fits (cd_encode cd m) \<Longrightarrow>
     \<exists>s'. sdk_write_json pipe_writer cd kind m s = (Ok (), s') \<and> holds s' k rest (out @ enc kind (cd_encode cd m))"
  by (simp add: sdk_write_json_def sdk_write_frame_def write_frame_to_pipe holds_def)

lemma sdk_flush_pipe: "sdk_flush pipe_writer s = (Ok (), s)"
  by (simp add: sdk_flush_def pipe_writer_def)

lemma sdk_read_json_pipe:
  assumes "holds s k (enc kind payload @ rest) out" "fits payload" "parse payload = Ok m"
  shows "\<exists>s'. sdk_read_json parse kind s = (Ok m, s') \<and> holds s' k rest out"
proof -
  from assms(1) have "clean (sd_reader s)" "bytes_in (sd_reader s) = enc kind payload @ rest" by (simp_all add: holds_def)
  from read_enc [OF this assms(2)] obtain r'
    where "read_frame (sd_reader s) = (Ok \<lparr>fr_kind = kind, fr_payload = payload\<rparr>, r')" "clean r'" "bytes_in r' = rest" .
  then show ?thesis using assms(1,3) by (simp add: sdk_read_json_def read_json_frame_def holds_def)
qed

lemma sdk_read_json_end:
  assumes "holds s k [] out"
  shows "\<exists>e s'. sdk_read_json parse kind s = (Err e, s') \<and> sd_sink s' = k \<and> sd_writer s' = out"
proof -
  from assms obtain e r' where "read_frame (sd_reader s) = (Err e, r')"
    by (auto simp: holds_def elim: read_frame_end)
  then show ?thesis using assms by (simp add: sdk_read_json_def read_json_frame_def holds_def)
qed

definition hello_ack_of :: "plugin_info \<Rightarrow> hello_ack" where
  "hello_ack_of info = \<lparr>ha_protocol = PROTOCOL_VERSION, ha_plugin_name = pi_name info,
     ha_plugin_version = pi_version info, ha_capabilities = []\<rparr>"

lemma sdk_handshake_pipe:
  assumes "holds s k (enc KHello hello @ rest) out" "fits hello" "cd_hello cd hello = Ok h" "hl_protocol h = PROTOCOL_VERSION"
    "fits (cd_encode cd (CHelloAck (hello_ack_of info)))"
  shows "\<exists>s'. sdk_handshake pipe_writer cd info s = (Ok (), s') \<and>
    holds s' k rest (out @ enc KHelloAck (cd_encode cd (CHelloAck (hello_ack_of info))))"
proof -
  from sdk_read_json_pipe [OF assms(1,2), of "cd_hello cd"] assms(3) obtain s1
    where s1: "sdk_read_json (cd_hello cd) KHello s = (Ok h, s1)" "holds s1 k rest out" by auto
  from sdk_write_json_pipe [OF s1(2) assms(5), of KHelloAck] show ?thesis
    using s1(1) assms(4) by (auto simp: sdk_handshake_def hello_ack_of_def sdk_flush_pipe)
qed

text \<open>The declaration a plugin makes before it accepts its configuration.\<close>

definition declared_bytes :: "codec \<Rightarrow> string option \<Rightarrow> byte list" where
  "declared_bytes cd fp = (case fp of None \<Rightarrow> [] | Some x \<Rightarrow> enc KDeclareResource (cd_encode cd (CDeclareResource x)))"

definition accepted :: configure_ack where
  "accepted = \<lparr>cx_accepted = True, cx_reason = None\<rparr>"

lemma sdk_configure_pipe:
  assumes "holds s k (enc KConfigureSink cfg @ rest) out" "fits cfg" "cd_configure_sink cd cfg = Ok m"
    "decode_schema_b64 A (cs_input_schema m) = Ok schema" "so_parse S (cs_config m) = Ok c"
    "so_configure S c schema k = (Ok (), k1)"
    "\<forall>x. so_fingerprint S k1 = Some x \<longrightarrow> fits (cd_encode cd (CDeclareResource x))"
    "fits (cd_encode cd (CConfigureAck accepted))"
  shows "\<exists>s'. sdk_configure pipe_writer cd A S s = (Ok True, s') \<and>
    holds s' k1 rest (out @ declared_bytes cd (so_fingerprint S k1) @ enc KConfigureAck (cd_encode cd (CConfigureAck accepted)))"
proof -
  from sdk_read_json_pipe [OF assms(1,2), of "cd_configure_sink cd"] assms(3) obtain s1
    where s1: "sdk_read_json (cd_configure_sink cd) KConfigureSink s = (Ok m, s1)" "holds s1 k rest out" by auto
  let ?s2 = "s1\<lparr>sd_sink := k1\<rparr>"
  have "holds ?s2 k1 rest out" using s1(2) by (simp add: holds_def)
  then obtain s3 where s3: "(case so_fingerprint S k1 of None \<Rightarrow> (Ok (), ?s2)
      | Some fp \<Rightarrow> sdk_write_json pipe_writer cd KDeclareResource (CDeclareResource fp) ?s2) = (Ok (), s3)"
    "holds s3 k1 rest (out @ declared_bytes cd (so_fingerprint S k1))"
    using sdk_write_json_pipe assms(7) by (fastforce simp: declared_bytes_def split: option.splits)
  have "sd_sink s1 = k" using s1(2) by (simp add: holds_def)
  then show ?thesis using sdk_write_json_pipe [OF s3(2) assms(8), of KConfigureAck] s1(1) s3(1) assms(4,5,6)
    by (auto simp: sdk_configure_def configure_answer_def sdk_flush_pipe accepted_def)
qed

lemma sdk_loop_read:
  assumes "holds s k (enc kind payload @ rest) out" "fits payload"
  obtains rd where "read_frame (sd_reader s) = (Ok \<lparr>fr_kind = kind, fr_payload = payload\<rparr>, rd)"
    "holds (s\<lparr>sd_reader := rd\<rparr>) k rest out"
  using assms read_enc [of "sd_reader s" kind payload rest] by (auto simp: holds_def)

lemma sdk_loop_end:
  assumes "holds s k [] out"
  shows "\<exists>e s'. sdk_loop W cd A S s = (Err e, s') \<and> sd_sink s' = k \<and> sd_writer s' = out"
proof -
  from assms obtain e r' where "read_frame (sd_reader s) = (Err e, r')"
    by (auto simp: holds_def elim: read_frame_end)
  then show ?thesis using assms by (simp add: sdk_loop.simps [of _ _ _ _ s] holds_def)
qed

lemma sdk_loop_batch:
  assumes "holds s k (enc KRecordBatch payload @ rest) out" "fits payload" "decode_record_batch A payload = Ok b"
    "so_write S b k = (Ok (), k1)" "fits (cd_encode cd (CBatchAck \<lparr>ba_rows_accepted = ar_rows A b, ba_warning = None\<rparr>))"
  shows "\<exists>s'. sdk_loop pipe_writer cd A S s = sdk_loop pipe_writer cd A S s' \<and>
    holds s' k1 rest (out @ enc KBatchAck (cd_encode cd (CBatchAck \<lparr>ba_rows_accepted = ar_rows A b, ba_warning = None\<rparr>)))"
proof -
  from sdk_loop_read [OF assms(1,2)] obtain rd
    where rd: "read_frame (sd_reader s) = (Ok \<lparr>fr_kind = KRecordBatch, fr_payload = payload\<rparr>, rd)"
      and s1: "holds (s\<lparr>sd_reader := rd\<rparr>) k rest out" .
  let ?s2 = "s\<lparr>sd_reader := rd, sd_sink := k1\<rparr>"
  have "holds ?s2 k1 rest out" using s1 by (simp add: holds_def)
  from sdk_write_json_pipe [OF this assms(5), of KBatchAck] obtain s3
    where s3: "sdk_write_json pipe_writer cd KBatchAck (CBatchAck \<lparr>ba_rows_accepted = ar_rows A b, ba_warning = None\<rparr>) ?s2 = (Ok (), s3)"
      "holds s3 k1 rest (out @ enc KBatchAck (cd_encode cd (CBatchAck \<lparr>ba_rows_accepted = ar_rows A b, ba_warning = None\<rparr>)))"
    by blast
  have "sd_sink s = k" using s1 by (simp add: holds_def)
  then have "on_batch pipe_writer cd A S payload (s\<lparr>sd_reader := rd\<rparr>) = (Ok True, s3)"
    using assms(3,4) s3(1) by (simp add: on_batch_def sdk_flush_pipe)
  then have "sdk_loop pipe_writer cd A S s = sdk_loop pipe_writer cd A S s3"
    using rd by (simp add: sdk_loop.simps [of _ _ _ _ s])
  with s3(2) show ?thesis by blast
qed

definition commit_ack_of :: "write_stats \<Rightarrow> commit_ack" where
  "commit_ack_of stats = \<lparr>cm_rows = ws_rows_written stats, cm_bytes = ws_bytes_written stats,
     cm_duration_ms = of_nat (ws_duration stats div 1000000), cm_rows_updated = 0, cm_rows_deleted = 0\<rparr>"

lemma drain_end: "clean r \<Longrightarrow> bytes_in r = [] \<Longrightarrow> fst (drain_until_shutdown r) = Ok ()"
  using read_exact_short [of r 4] by (simp add: read_frame_def drain_until_shutdown.simps [of r])

lemma drain_shutdown:
  assumes "clean r" "bytes_in r = enc KShutdown payload @ rest" "fits payload"
  shows "fst (drain_until_shutdown r) = Ok ()"
  by (rule read_enc [OF assms]) (simp add: drain_until_shutdown.simps [of r])

lemma sdk_loop_commit:
  assumes "holds s k (enc KCommit payload @ rest) out" "fits payload" "so_commit S k = (Ok stats, k1)"
    "fits (cd_encode cd (CCommitAck (commit_ack_of stats)))"
    "rest = [] \<or> rest = enc KShutdown bye \<and> fits bye"
  shows "\<exists>s'. sdk_loop pipe_writer cd A S s = (Ok (), s') \<and> sd_sink s' = k1 \<and>
    sd_writer s' = out @ enc KCommitAck (cd_encode cd (CCommitAck (commit_ack_of stats)))"
proof -
  from sdk_loop_read [OF assms(1,2)] obtain rd
    where rd: "read_frame (sd_reader s) = (Ok \<lparr>fr_kind = KCommit, fr_payload = payload\<rparr>, rd)"
      and s1: "holds (s\<lparr>sd_reader := rd\<rparr>) k rest out" .
  let ?s2 = "s\<lparr>sd_reader := rd, sd_sink := k1\<rparr>"
  have "holds ?s2 k1 rest out" using s1 by (simp add: holds_def)
  from sdk_write_json_pipe [OF this assms(4), of KCommitAck] obtain s3
    where s3: "sdk_write_json pipe_writer cd KCommitAck (CCommitAck (commit_ack_of stats)) ?s2 = (Ok (), s3)"
      "holds s3 k1 rest (out @ enc KCommitAck (cd_encode cd (CCommitAck (commit_ack_of stats))))"
    by blast
  have "sd_sink s = k" using s1 by (simp add: holds_def)
  then have "commit_answer pipe_writer cd S (s\<lparr>sd_reader := rd\<rparr>) = (Ok (), s3)"
    using assms(3) s3(1) by (simp add: commit_answer_def sdk_flush_pipe commit_ack_of_def)
  moreover have "fst (drain_until_shutdown (sd_reader s3)) = Ok ()"
    using assms(5) s3(2) drain_end drain_shutdown [of _ bye "[]"] by (auto simp: holds_def)
  ultimately show ?thesis using rd s3(2)
    by (cases "drain_until_shutdown (sd_reader s3)")
      (simp add: sdk_loop.simps [of _ _ _ _ s] on_commit_def holds_def)
qed

section \<open>The host's side\<close>

lemma read_reader_of:
  "fits payload \<Longrightarrow> \<exists>r'. read_frame (reader_of (enc kind payload @ rest)) = (Ok \<lparr>fr_kind = kind, fr_payload = payload\<rparr>, r')"
  by (rule read_enc [of "reader_of (enc kind payload @ rest)" kind payload rest]) auto

text \<open>What the plugin has written once it has read \<open>i\<close>.\<close>

definition written ::
  "codec \<Rightarrow> ('sc, 'ba) arrow \<Rightarrow> ('c, 'sc, 'ba, 'k) sink_ops \<Rightarrow> plugin_info \<Rightarrow> 'k \<Rightarrow> byte list \<Rightarrow> byte list" where
  "written cd A S info sink i = sd_writer (snd (plugin_run cd A S info sink i))"

lemma link_recv_frame:
  assumes "written cd A S info sink i = o1 @ enc k p @ o2" "fits p"
  shows "tp_recv (link cd A S info sink) phase \<lparr>pp_in = i, pp_taken = length o1\<rparr> =
    (Ok \<lparr>fr_kind = k, fr_payload = p\<rparr>, \<lparr>pp_in = i, pp_taken = length (o1 @ enc k p)\<rparr>)"
  using read_reader_of [OF assms(2), of k o2] assms(1) by (auto simp: link_def written_def)

lemma link_send: "fits p \<Longrightarrow> ss_transport s = \<lparr>pp_in = i, pp_taken = n\<rparr> \<Longrightarrow>
    send (link cd A S info sink) k p s = (Ok (), s\<lparr>ss_transport := \<lparr>pp_in = i @ enc k p, pp_taken = n\<rparr>\<rparr>)"
  by (simp add: send_def link_def write_frame_enc)

lemma recv_plain:
  assumes "ss_transport s = \<lparr>pp_in = i, pp_taken = length o1\<rparr>" "written cd A S info sink i = o1 @ enc k p" "fits p"
    "k \<noteq> KError" "k \<noteq> KDeclareResource"
  shows "recv (link cd A S info sink) cd phase s =
    Some (Ok \<lparr>fr_kind = k, fr_payload = p\<rparr>, s\<lparr>ss_transport := \<lparr>pp_in = i, pp_taken = length (o1 @ enc k p)\<rparr>\<rparr>)"
  using link_recv_frame [of cd A S info sink i o1 k p "[]"] assms by (simp add: recv.simps)

lemma recv_declared:
  assumes "ss_transport s = \<lparr>pp_in = i, pp_taken = length o1\<rparr>"
    "written cd A S info sink i = o1 @ declared_bytes cd fp @ enc k p" "fits p"
    "k \<noteq> KError" "k \<noteq> KDeclareResource"
    "\<forall>x. fp = Some x \<longrightarrow> fits (cd_encode cd (CDeclareResource x)) \<and>
      cd_declare_resource cd (cd_encode cd (CDeclareResource x)) = Ok x"
  shows "recv (link cd A S info sink) cd phase s =
    Some (Ok \<lparr>fr_kind = k, fr_payload = p\<rparr>,
      s\<lparr>ss_transport := \<lparr>pp_in = i, pp_taken = length (o1 @ declared_bytes cd fp @ enc k p)\<rparr>,
        ss_declared_resource := coalesce fp (ss_declared_resource s)\<rparr>)"
proof (cases fp)
  case None
  then show ?thesis using recv_plain [of s i o1] assms by (simp add: declared_bytes_def coalesce_def)
next
  case (Some x)
  let ?d = "cd_encode cd (CDeclareResource x)"
  let ?s = "s\<lparr>ss_transport := \<lparr>pp_in = i, pp_taken = length (o1 @ enc KDeclareResource ?d)\<rparr>, ss_declared_resource := Some x\<rparr>"
  have r: "tp_recv (link cd A S info sink) phase \<lparr>pp_in = i, pp_taken = length o1\<rparr> =
      (Ok \<lparr>fr_kind = KDeclareResource, fr_payload = ?d\<rparr>, \<lparr>pp_in = i, pp_taken = length (o1 @ enc KDeclareResource ?d)\<rparr>)"
    using assms(2,6) Some by (intro link_recv_frame) (auto simp: declared_bytes_def)
  have "recv (link cd A S info sink) cd phase s = recv (link cd A S info sink) cd phase ?s"
    using assms(1,6) Some r by (subst recv.simps) simp
  also have "\<dots> = Some (Ok \<lparr>fr_kind = k, fr_payload = p\<rparr>,
      ?s\<lparr>ss_transport := \<lparr>pp_in = i, pp_taken = length ((o1 @ enc KDeclareResource ?d) @ enc k p)\<rparr>\<rparr>)"
    using assms Some by (intro recv_plain) (auto simp: declared_bytes_def)
  finally show ?thesis using Some by (simp add: declared_bytes_def coalesce_def)
qed

lemma exchange_link:
  assumes "ss_transport s = \<lparr>pp_in = i, pp_taken = length o1\<rparr>" "fits payload"
    "written cd A S info sink (i @ enc kind payload) = o1 @ declared_bytes cd fp @ enc k p" "fits p"
    "k \<noteq> KError" "k \<noteq> KDeclareResource" "parse p = Ok m"
    "\<forall>x. fp = Some x \<longrightarrow> fits (cd_encode cd (CDeclareResource x)) \<and>
      cd_declare_resource cd (cd_encode cd (CDeclareResource x)) = Ok x"
  shows "exchange (link cd A S info sink) cd kind payload parse k phase s =
    Some (Ok m, s\<lparr>ss_transport := \<lparr>pp_in = i @ enc kind payload, pp_taken = length (o1 @ declared_bytes cd fp @ enc k p)\<rparr>,
        ss_declared_resource := coalesce fp (ss_declared_resource s)\<rparr>)"
proof -
  let ?s = "s\<lparr>ss_transport := \<lparr>pp_in = i @ enc kind payload, pp_taken = length o1\<rparr>\<rparr>"
  have "send (link cd A S info sink) kind payload s = (Ok (), ?s)" using assms(1,2) by (simp add: link_send)
  moreover have "recv (link cd A S info sink) cd phase ?s =
    Some (Ok \<lparr>fr_kind = k, fr_payload = p\<rparr>, ?s\<lparr>ss_transport := \<lparr>pp_in = i @ enc kind payload,
        pp_taken = length (o1 @ declared_bytes cd fp @ enc k p)\<rparr>, ss_declared_resource := coalesce fp (ss_declared_resource ?s)\<rparr>)"
    by (rule recv_declared) (use assms in auto)
  ultimately show ?thesis using assms(7) by (simp add: exchange_def expect_json_def)
qed

text \<open>The same, when the plugin declares nothing.\<close>

lemma exchange_link_plain:
  assumes "ss_transport s = \<lparr>pp_in = i, pp_taken = length o1\<rparr>" "fits payload"
    "written cd A S info sink (i @ enc kind payload) = o1 @ enc k p" "fits p"
    "k \<noteq> KError" "k \<noteq> KDeclareResource" "parse p = Ok m"
  shows "exchange (link cd A S info sink) cd kind payload parse k phase s =
    Some (Ok m, s\<lparr>ss_transport := \<lparr>pp_in = i @ enc kind payload, pp_taken = length (o1 @ enc k p)\<rparr>\<rparr>)"
  using exchange_link [OF assms(1,2), of cd A S info sink kind None k p parse m phase] assms(3-7)
  by (simp add: declared_bytes_def coalesce_def)

section \<open>A whole run\<close>

text \<open>The sink itself, without the protocol: configured, given the batches, committed.\<close>

fun write_each :: "('c, 'sc, 'ba, 'k) sink_ops \<Rightarrow> 'ba list \<Rightarrow> 'k \<Rightarrow> 'k option" where
  "write_each S [] k = Some k"
| "write_each S (b # bs) k = (case so_write S b k of (Inl _, _) \<Rightarrow> None | (Inr _, k1) \<Rightarrow> write_each S bs k1)"

definition use_sink ::
  "('c, 'sc, 'ba, 'k) sink_ops \<Rightarrow> json \<Rightarrow> 'sc \<Rightarrow> 'ba list \<Rightarrow> 'k \<Rightarrow> ('k \<times> write_stats \<times> 'k) option" where
  "use_sink S config schema data k = (case so_parse S config of
      Inl _ \<Rightarrow> None
    | Inr c \<Rightarrow> (case so_configure S c schema k of
        (Inl _, _) \<Rightarrow> None
      | (Inr _, k1) \<Rightarrow> (case write_each S data k1 of
          None \<Rightarrow> None
        | Some k2 \<Rightarrow> (case so_commit S k2 of (Inl _, _) \<Rightarrow> None | (Inr stats, k3) \<Rightarrow> Some (k1, stats, k3)))))"

text \<open>A message serde carries: it is not too long and is read back from its text.\<close>

fun carries :: "codec \<Rightarrow> control \<Rightarrow> bool" where
  "carries cd m = (fits (cd_encode cd m) \<and> (case m of
      CHello x \<Rightarrow> cd_hello cd (cd_encode cd m) = Ok x
    | CHelloAck x \<Rightarrow> cd_hello_ack cd (cd_encode cd m) = Ok x
    | CConfigureSink x \<Rightarrow> cd_configure_sink cd (cd_encode cd m) = Ok x
    | CConfigureAck x \<Rightarrow> cd_configure_ack cd (cd_encode cd m) = Ok x
    | CDeclareResource x \<Rightarrow> cd_declare_resource cd (cd_encode cd m) = Ok x
    | CBatchAck x \<Rightarrow> cd_batch_ack cd (cd_encode cd m) = Ok x
    | CCommitAck x \<Rightarrow> cd_commit_ack cd (cd_encode cd m) = Ok x
    | CAbort x \<Rightarrow> cd_abort cd (cd_encode cd m) = Ok x
    | CError x _ \<Rightarrow> cd_error cd (cd_encode cd m) = Ok x
    | CEmpty \<Rightarrow> True))"

definition batch_ack_of :: "('sc, 'ba) arrow \<Rightarrow> 'ba \<Rightarrow> batch_ack" where
  "batch_ack_of A b = \<lparr>ba_rows_accepted = ar_rows A b, ba_warning = None\<rparr>"

definition batch_bytes :: "('sc, 'ba) arrow \<Rightarrow> 'ba \<Rightarrow> byte list" where
  "batch_bytes A b = (case encode_record_batch A b of Inl _ \<Rightarrow> [] | Inr bs \<Rightarrow> bs)"

definition batches_in :: "('sc, 'ba) arrow \<Rightarrow> 'ba list \<Rightarrow> byte list" where
  "batches_in A bs = concat (map (\<lambda>b. enc KRecordBatch (batch_bytes A b)) bs)"

definition batches_out :: "codec \<Rightarrow> ('sc, 'ba) arrow \<Rightarrow> 'ba list \<Rightarrow> byte list" where
  "batches_out cd A bs = concat (map (\<lambda>b. enc KBatchAck (cd_encode cd (CBatchAck (batch_ack_of A b)))) bs)"

definition batch_fits :: "codec \<Rightarrow> ('sc, 'ba) arrow \<Rightarrow> 'ba \<Rightarrow> bool" where
  "batch_fits cd A b \<longleftrightarrow> is_ok (encode_record_batch A b) \<and> fits (batch_bytes A b) \<and> carries cd (CBatchAck (batch_ack_of A b))"

lemma batch_fits_bytes:
  "arrow_ok A \<Longrightarrow> batch_fits cd A b \<Longrightarrow>
     encode_record_batch A b = Ok (batch_bytes A b) \<and> decode_record_batch A (batch_bytes A b) = Ok b"
  by (cases "encode_record_batch A b") (auto simp: batch_fits_def batch_bytes_def is_ok_def dest: batch_roundtrip)

lemma sdk_loop_batches:
  "arrow_ok A \<Longrightarrow> \<forall>b \<in> set bs. batch_fits cd A b \<Longrightarrow> write_each S bs k = Some k2 \<Longrightarrow> holds s k (batches_in A bs @ rest) out \<Longrightarrow>
   \<exists>s'. sdk_loop pipe_writer cd A S s = sdk_loop pipe_writer cd A S s' \<and> holds s' k2 rest (out @ batches_out cd A bs)"
proof (induction bs arbitrary: s k out)
  case Nil
  then show ?case by (auto simp: batches_in_def batches_out_def)
next
  case (Cons b bs)
  have fb: "batch_fits cd A b" using Cons.prems(2) by simp
  note bb = batch_fits_bytes [OF Cons.prems(1) fb]
  obtain k1 where w: "so_write S b k = (Ok (), k1)" and rest: "write_each S bs k1 = Some k2"
    using Cons.prems(3) by (auto split: prod.splits sum.splits)
  have h: "holds s k (enc KRecordBatch (batch_bytes A b) @ batches_in A bs @ rest) out"
    using Cons.prems(4) by (simp add: batches_in_def)
  obtain s1 where s1: "sdk_loop pipe_writer cd A S s = sdk_loop pipe_writer cd A S s1"
    "holds s1 k1 (batches_in A bs @ rest) (out @ enc KBatchAck (cd_encode cd (CBatchAck (batch_ack_of A b))))"
    using sdk_loop_batch [OF h _ conjunct2 [OF bb] w, of cd] fb by (auto simp: batch_fits_def batch_ack_of_def)
  from Cons.IH [OF Cons.prems(1) _ rest s1(2)] Cons.prems(2) s1(1) show ?case
    by (simp add: batches_out_def)
qed

definition answers :: "codec \<Rightarrow> ('c, 'sc, 'ba, 'k) sink_ops \<Rightarrow> plugin_info \<Rightarrow> 'k \<Rightarrow> byte list" where
  "answers cd S info k1 = enc KHelloAck (cd_encode cd (CHelloAck (hello_ack_of info))) @
     declared_bytes cd (so_fingerprint S k1) @ enc KConfigureAck (cd_encode cd (CConfigureAck accepted))"

lemma plugin_run_start:
  "holds \<lparr>sd_sink = k, sd_reader = reader_of bs, sd_writer = []\<rparr> k bs []"
  by (simp add: holds_def)

lemma written_hello:
  assumes "carries cd (CHello h)" "hl_protocol h = PROTOCOL_VERSION" "carries cd (CHelloAck (hello_ack_of info))"
  shows "written cd A S info k (enc KHello (cd_encode cd (CHello h))) =
    enc KHelloAck (cd_encode cd (CHelloAck (hello_ack_of info)))"
proof -
  have "holds \<lparr>sd_sink = k, sd_reader = reader_of (enc KHello (cd_encode cd (CHello h))), sd_writer = []\<rparr> k
      (enc KHello (cd_encode cd (CHello h)) @ []) []"
    by (simp add: plugin_run_start)
  from sdk_handshake_pipe [OF this, of cd h info] assms obtain s1
    where "sdk_handshake pipe_writer cd info \<lparr>sd_sink = k, sd_reader = reader_of (enc KHello (cd_encode cd (CHello h))),
        sd_writer = []\<rparr> = (Ok (), s1)"
      and s1: "holds s1 k [] (enc KHelloAck (cd_encode cd (CHelloAck (hello_ack_of info))))" by auto
  moreover obtain e s2 where "sdk_read_json (cd_configure_sink cd) KConfigureSink s1 = (Err e, s2)"
    "sd_writer s2 = enc KHelloAck (cd_encode cd (CHelloAck (hello_ack_of info)))"
    using sdk_read_json_end [OF s1] by blast
  ultimately show ?thesis by (simp add: written_def plugin_run_def run_io_def sdk_configure_def)
qed

text \<open>From the configuration on, the run is the loop.\<close>

lemma plugin_run_loop:
  assumes "carries cd (CHello h)" "hl_protocol h = PROTOCOL_VERSION" "carries cd (CHelloAck (hello_ack_of info))"
    "carries cd (CConfigureSink m)" "carries cd (CConfigureAck accepted)"
    "\<forall>x. so_fingerprint S k1 = Some x \<longrightarrow> carries cd (CDeclareResource x)"
    "decode_schema_b64 A (cs_input_schema m) = Ok schema" "so_parse S (cs_config m) = Ok c"
    "so_configure S c schema k = (Ok (), k1)"
  shows "\<exists>s. plugin_run cd A S info k (enc KHello (cd_encode cd (CHello h)) @
      enc KConfigureSink (cd_encode cd (CConfigureSink m)) @ rest) = sdk_loop pipe_writer cd A S s \<and>
    holds s k1 rest (answers cd S info k1)"
proof -
  let ?i = "enc KHello (cd_encode cd (CHello h)) @ enc KConfigureSink (cd_encode cd (CConfigureSink m)) @ rest"
  let ?s = "\<lparr>sd_sink = k, sd_reader = reader_of ?i, sd_writer = []\<rparr>"
  have "holds ?s k ?i []" by (rule plugin_run_start)
  from sdk_handshake_pipe [OF this, of cd h info] assms obtain s1
    where h: "sdk_handshake pipe_writer cd info ?s = (Ok (), s1)"
      and s1: "holds s1 k (enc KConfigureSink (cd_encode cd (CConfigureSink m)) @ rest)
        (enc KHelloAck (cd_encode cd (CHelloAck (hello_ack_of info))))" by auto
  from sdk_configure_pipe [OF s1, of cd m A schema S c k1] assms obtain s2
    where "sdk_configure pipe_writer cd A S s1 = (Ok True, s2)" "holds s2 k1 rest (answers cd S info k1)"
    by (auto simp: answers_def)
  with h show ?thesis by (auto simp: plugin_run_def run_io_def)
qed

lemma write_each_append:
  "write_each S (xs @ ys) k = Some k2 \<Longrightarrow> \<exists>k1. write_each S xs k = Some k1 \<and> write_each S ys k1 = Some k2"
  by (induction xs arbitrary: k) (auto split: prod.splits sum.splits)

text \<open>A plugin that is in its loop once it has read \<open>i0\<close>.\<close>

definition loops_after ::
  "codec \<Rightarrow> ('sc, 'ba) arrow \<Rightarrow> ('c, 'sc, 'ba, 'k) sink_ops \<Rightarrow> plugin_info \<Rightarrow> 'k \<Rightarrow> byte list \<Rightarrow> 'k \<Rightarrow> byte list \<Rightarrow> bool" where
  "loops_after cd A S info k i0 k1 o0 \<longleftrightarrow>
     (\<forall>x. \<exists>s. plugin_run cd A S info k (i0 @ x) = sdk_loop pipe_writer cd A S s \<and> holds s k1 x o0)"

lemma loops_after_batches:
  assumes "loops_after cd A S info k i0 k1 o0" "arrow_ok A" "\<forall>b \<in> set bs. batch_fits cd A b" "write_each S bs k1 = Some k2"
  shows "loops_after cd A S info k (i0 @ batches_in A bs) k2 (o0 @ batches_out cd A bs)"
  unfolding loops_after_def
proof
  fix x
  from assms(1) obtain s where s: "plugin_run cd A S info k (i0 @ batches_in A bs @ x) = sdk_loop pipe_writer cd A S s"
    "holds s k1 (batches_in A bs @ x) o0"
    unfolding loops_after_def by blast
  from sdk_loop_batches [OF assms(2,3,4) s(2)] s(1)
  show "\<exists>s. plugin_run cd A S info k ((i0 @ batches_in A bs) @ x) = sdk_loop pipe_writer cd A S s \<and>
      holds s k2 x (o0 @ batches_out cd A bs)"
    by auto
qed

lemma written_loop:
  assumes "loops_after cd A S info k i0 k1 o0"
  shows "written cd A S info k i0 = o0"
proof -
  from assms obtain s where "plugin_run cd A S info k (i0 @ []) = sdk_loop pipe_writer cd A S s" "holds s k1 [] o0"
    unfolding loops_after_def by blast
  with sdk_loop_end [of s k1 o0 pipe_writer cd A S] show ?thesis by (auto simp: written_def)
qed

lemma run_commit:
  assumes "loops_after cd A S info k i0 k1 o0" "fits (cd_encode cd CEmpty)" "so_commit S k1 = (Ok stats, k2)"
    "carries cd (CCommitAck (commit_ack_of stats))" "rest = [] \<or> rest = enc KShutdown (cd_encode cd CEmpty)"
  shows "\<exists>s. plugin_run cd A S info k (i0 @ enc KCommit (cd_encode cd CEmpty) @ rest) = (Ok (), s) \<and> sd_sink s = k2 \<and>
    sd_writer s = o0 @ enc KCommitAck (cd_encode cd (CCommitAck (commit_ack_of stats)))"
proof -
  from assms(1) obtain s where s: "plugin_run cd A S info k (i0 @ enc KCommit (cd_encode cd CEmpty) @ rest) =
      sdk_loop pipe_writer cd A S s" "holds s k1 (enc KCommit (cd_encode cd CEmpty) @ rest) o0"
    unfolding loops_after_def by blast
  show ?thesis using sdk_loop_commit [OF s(2) assms(2,3), of cd "cd_encode cd CEmpty" A] s(1) assms by simp
qed

lemma send_batches_link:
  "loops_after cd A S info k i0 k1 o0 \<Longrightarrow> arrow_ok A \<Longrightarrow> \<forall>b \<in> set bs. batch_fits cd A b \<Longrightarrow> write_each S bs k1 = Some k2 \<Longrightarrow>
   ss_state s = SsConfigured \<Longrightarrow> ss_transport s = \<lparr>pp_in = i0, pp_taken = length o0\<rparr> \<Longrightarrow>
   send_batches (link cd A S info k) cd A show_e bs rows s = Some (Ok (rows + sum_list (map (ar_rows A) bs)),
     s\<lparr>ss_transport := \<lparr>pp_in = i0 @ batches_in A bs, pp_taken = length (o0 @ batches_out cd A bs)\<rparr>\<rparr>)"
proof (induction bs arbitrary: i0 k1 o0 rows s)
  case Nil
  then show ?case by (simp add: batches_in_def batches_out_def)
next
  case (Cons b bs)
  let ?i = "i0 @ enc KRecordBatch (batch_bytes A b)"
  let ?p = "cd_encode cd (CBatchAck (batch_ack_of A b))"
  have fb: "batch_fits cd A b" using Cons.prems(3) by simp
  note bb = batch_fits_bytes [OF Cons.prems(2) fb]
  obtain k' where w: "write_each S [b] k1 = Some k'" and rest: "write_each S bs k' = Some k2"
    using write_each_append [of S "[b]" bs] Cons.prems(4) by auto
  have l: "loops_after cd A S info k ?i k' (o0 @ enc KBatchAck ?p)"
    using loops_after_batches [OF Cons.prems(1,2) _ w] fb by (simp add: batches_in_def batches_out_def)
  let ?s = "s\<lparr>ss_transport := \<lparr>pp_in = ?i, pp_taken = length (o0 @ enc KBatchAck ?p)\<rparr>\<rparr>"
  have "exchange (link cd A S info k) cd KRecordBatch (batch_bytes A b) (cd_batch_ack cd) KBatchAck ''batch_ack'' s =
      Some (Ok (batch_ack_of A b), ?s)"
    using fb by (intro exchange_link_plain [OF Cons.prems(6)] written_loop [OF l]) (auto simp: batch_fits_def)
  then have "send_batch (link cd A S info k) cd A b s = Some (Ok (batch_ack_of A b), ?s)"
    using bb Cons.prems(5) by (simp add: send_batch_def)
  moreover have "send_batches (link cd A S info k) cd A show_e bs (rows + ar_rows A b) ?s =
      Some (Ok (rows + ar_rows A b + sum_list (map (ar_rows A) bs)),
        ?s\<lparr>ss_transport := \<lparr>pp_in = ?i @ batches_in A bs, pp_taken = length ((o0 @ enc KBatchAck ?p) @ batches_out cd A bs)\<rparr>\<rparr>)"
    using Cons.prems by (intro Cons.IH [OF l _ _ rest]) auto
  ultimately show ?case by (simp add: batch_ack_of_def batches_in_def batches_out_def add.assoc)
qed

lemma commit_link:
  assumes "loops_after cd A S info k i0 k1 o0" "carries cd CEmpty" "so_commit S k1 = (Ok stats, k2)"
    "carries cd (CCommitAck (commit_ack_of stats))"
    "ss_state s = SsConfigured" "ss_transport s = \<lparr>pp_in = i0, pp_taken = length o0\<rparr>"
  shows "\<exists>n. commit (link cd A S info k) cd s = Some (Ok (commit_ack_of stats),
     s\<lparr>ss_transport := \<lparr>pp_in = i0 @ enc KCommit (cd_encode cd CEmpty), pp_taken = n\<rparr>, ss_state := SsCommitted\<rparr>)"
proof -
  let ?p = "cd_encode cd (CCommitAck (commit_ack_of stats))"
  have "written cd A S info k (i0 @ enc KCommit (cd_encode cd CEmpty)) = o0 @ enc KCommitAck ?p"
    using run_commit [OF assms(1) _ assms(3,4), of "[]"] assms(2) by (auto simp: written_def)
  then have "exchange (link cd A S info k) cd KCommit (cd_encode cd CEmpty) (cd_commit_ack cd) KCommitAck ''commit'' s =
      Some (Ok (commit_ack_of stats), s\<lparr>ss_transport :=
        \<lparr>pp_in = i0 @ enc KCommit (cd_encode cd CEmpty), pp_taken = length (o0 @ enc KCommitAck ?p)\<rparr>\<rparr>)"
    using assms by (intro exchange_link_plain [OF assms(6)]) auto
  then show ?thesis using assms(5) by (auto simp: commit_def)
qed

lemma shutdown_link:
  "ss_state s = SsCommitted \<Longrightarrow> carries cd CEmpty \<Longrightarrow> ss_transport s = \<lparr>pp_in = i, pp_taken = n\<rparr> \<Longrightarrow>
   shutdown (link cd A S info k) cd s = s\<lparr>ss_transport := \<lparr>pp_in = i @ enc KShutdown (cd_encode cd CEmpty), pp_taken = n\<rparr>,
     ss_state := SsClosed\<rparr>"
  by (simp add: shutdown_def send_json_def link_send)

lemma handshake_link:
  assumes "carries cd (CHello \<lparr>hl_protocol = PROTOCOL_VERSION, hl_armillary_version = version\<rparr>)"
    "carries cd (CHelloAck (hello_ack_of info))"
  defines "hello \<equiv> enc KHello (cd_encode cd (CHello \<lparr>hl_protocol = PROTOCOL_VERSION, hl_armillary_version = version\<rparr>))"
    and "s0 \<equiv> new_session \<lparr>pp_in = [], pp_taken = 0\<rparr> PROTOCOL_VERSION version"
  shows "handshake (link cd A S info k) cd s0 = Some (Ok (hello_ack_of info),
    s0\<lparr>ss_transport := \<lparr>pp_in = hello, pp_taken = length (enc KHelloAck (cd_encode cd (CHelloAck (hello_ack_of info))))\<rparr>,
      ss_plugin_info := Some (hello_ack_of info), ss_state := SsHandshaked\<rparr>)"
proof -
  let ?h = "\<lparr>hl_protocol = PROTOCOL_VERSION, hl_armillary_version = version\<rparr>"
  have "exchange (link cd A S info k) cd KHello (cd_encode cd (CHello ?h)) (cd_hello_ack cd) KHelloAck ''handshake'' s0 =
      Some (Ok (hello_ack_of info), s0\<lparr>ss_transport := \<lparr>pp_in = [] @ hello,
        pp_taken = length ([] @ enc KHelloAck (cd_encode cd (CHelloAck (hello_ack_of info))))\<rparr>\<rparr>)"
    unfolding hello_def
    by (rule exchange_link_plain) (use assms(1,2) written_hello [of cd ?h info A S k] in \<open>simp_all add: new_session_def s0_def\<close>)
  then show ?thesis by (simp add: handshake_def new_session_def hello_ack_of_def s0_def)
qed

lemma configure_link:
  assumes "loops_after cd A S info k (i0 @ enc KConfigureSink (cd_encode cd (CConfigureSink m))) k1 (answers cd S info k1)"
    "m = \<lparr>cs_sink_type = st, cs_config = config, cs_input_schema = b64, cs_materialization = mat\<rparr>"
    "encode_schema_b64 A schema = Ok b64" "carries cd (CConfigureSink m)" "carries cd (CConfigureAck accepted)"
    "\<forall>x. so_fingerprint S k1 = Some x \<longrightarrow> carries cd (CDeclareResource x)"
    "ss_transport s = \<lparr>pp_in = i0, pp_taken = length (enc KHelloAck (cd_encode cd (CHelloAck (hello_ack_of info))))\<rparr>"
    "ss_state s = SsHandshaked" "ss_declared_resource s = None"
  shows "configure (link cd A S info k) cd A st config schema mat s = Some (Ok (),
    s\<lparr>ss_transport := \<lparr>pp_in = i0 @ enc KConfigureSink (cd_encode cd (CConfigureSink m)), pp_taken = length (answers cd S info k1)\<rparr>,
      ss_declared_resource := so_fingerprint S k1, ss_state := SsConfigured\<rparr>)"
proof -
  have "exchange (link cd A S info k) cd KConfigureSink (cd_encode cd (CConfigureSink m)) (cd_configure_ack cd) KConfigureAck
        ''configure'' s =
      Some (Ok accepted, s\<lparr>ss_transport := \<lparr>pp_in = i0 @ enc KConfigureSink (cd_encode cd (CConfigureSink m)),
          pp_taken = length (enc KHelloAck (cd_encode cd (CHelloAck (hello_ack_of info))) @
            declared_bytes cd (so_fingerprint S k1) @ enc KConfigureAck (cd_encode cd (CConfigureAck accepted)))\<rparr>,
        ss_declared_resource := coalesce (so_fingerprint S k1) (ss_declared_resource s)\<rparr>)"
    by (rule exchange_link [OF assms(7)]) (use assms(4-6) written_loop [OF assms(1)] in \<open>simp_all add: answers_def\<close>)
  then show ?thesis
    using assms(2,3,8,9) by (cases "so_fingerprint S k1") (simp_all add: configure_def accepted_def answers_def coalesce_def)
qed

lemma use_sink_SomeD:
  assumes "use_sink S config schema data k = Some (k1, stats, k3)"
  obtains c k2 where "so_parse S config = Ok c" "so_configure S c schema k = (Ok (), k1)"
    "write_each S data k1 = Some k2" "so_commit S k2 = (Ok stats, k3)"
  using assms that by (auto simp: use_sink_def split: sum.splits prod.splits option.splits)

text \<open>
  C18: when the host drives an SDK plugin whose sink accepts its configuration and batches, the run
  succeeds with the statistics of the sink's commit and the resource it declared; the plugin's loop
  ends normally and its sink was configured, given every batch once in order and committed.
\<close>

theorem session_end_to_end:
  assumes "arrow_ok A" "encode_schema_b64 A schema = Ok b64" "\<forall>b \<in> set data. batch_fits cd A b"
    "\<forall>m \<in> {CHello \<lparr>hl_protocol = PROTOCOL_VERSION, hl_armillary_version = version\<rparr>, CHelloAck (hello_ack_of info),
        CConfigureSink \<lparr>cs_sink_type = st, cs_config = config, cs_input_schema = b64, cs_materialization = mat\<rparr>,
        CConfigureAck accepted, CEmpty, CCommitAck (commit_ack_of stats)}. carries cd m"
    "\<forall>x. so_fingerprint S k1 = Some x \<longrightarrow> carries cd (CDeclareResource x)"
    "use_sink S config schema data k = Some (k1, stats, k3)"
  shows "\<exists>s'. drive_sink (link cd A S info k) cd A show_e st config mat schema data
        (new_session \<lparr>pp_in = [], pp_taken = 0\<rparr> PROTOCOL_VERSION version) =
      Some (Ok (commit_stats (commit_ack_of stats) (sum_list (map (ar_rows A) data))), s') \<and>
    ss_declared_resource s' = so_fingerprint S k1 \<and>
    (\<exists>p. plugin_run cd A S info k (pp_in (ss_transport s')) = (Ok (), p) \<and> sd_sink p = k3)"
proof -
  let ?h = "\<lparr>hl_protocol = PROTOCOL_VERSION, hl_armillary_version = version\<rparr>"
  let ?m = "\<lparr>cs_sink_type = st, cs_config = config, cs_input_schema = b64, cs_materialization = mat\<rparr>"
  let ?T = "link cd A S info k"
  let ?ih = "enc KHello (cd_encode cd (CHello ?h))" and ?ic = "enc KConfigureSink (cd_encode cd (CConfigureSink ?m))"
  let ?oh = "enc KHelloAck (cd_encode cd (CHelloAck (hello_ack_of info)))"
  have carried: "carries cd (CHello ?h)" "carries cd (CHelloAck (hello_ack_of info))" "carries cd (CConfigureSink ?m)"
    "carries cd (CConfigureAck accepted)" "carries cd CEmpty" "carries cd (CCommitAck (commit_ack_of stats))"
    using assms(4) by (simp_all del: carries.simps)
  obtain c k2 where c: "so_parse S config = Ok c" "so_configure S c schema k = (Ok (), k1)"
    "write_each S data k1 = Some k2" "so_commit S k2 = (Ok stats, k3)"
    using use_sink_SomeD [OF assms(6)] .
  have l1: "loops_after cd A S info k (?ih @ ?ic) k1 (answers cd S info k1)"
    unfolding loops_after_def append.assoc
    by (intro allI plugin_run_loop) (use carried assms(5) c(1,2) schema_roundtrip [OF assms(1,2)] in \<open>simp_all del: carries.simps\<close>)
  note l2 = loops_after_batches [OF l1 assms(1,3) c(3)]
  let ?s0 = "new_session \<lparr>pp_in = [], pp_taken = 0\<rparr> PROTOCOL_VERSION version"
  let ?s1 = "?s0\<lparr>ss_transport := \<lparr>pp_in = ?ih, pp_taken = length ?oh\<rparr>,
    ss_plugin_info := Some (hello_ack_of info), ss_state := SsHandshaked\<rparr>"
  let ?s2 = "?s1\<lparr>ss_transport := \<lparr>pp_in = ?ih @ ?ic, pp_taken = length (answers cd S info k1)\<rparr>,
    ss_declared_resource := so_fingerprint S k1, ss_state := SsConfigured\<rparr>"
  have s1: "handshake ?T cd ?s0 = Some (Ok (hello_ack_of info), ?s1)" by (rule handshake_link [OF carried(1,2)])
  have s2: "configure ?T cd A st config schema mat ?s1 = Some (Ok (), ?s2)"
    by (rule configure_link [OF l1 [unfolded append_assoc [symmetric]] refl assms(2) carried(3,4) assms(5)])
      (simp_all add: new_session_def)
  let ?o = "answers cd S info k1 @ batches_out cd A data" and ?i = "(?ih @ ?ic) @ batches_in A data"
  let ?s3 = "?s2\<lparr>ss_transport := \<lparr>pp_in = ?i, pp_taken = length ?o\<rparr>\<rparr>"
  have s3: "send_batches ?T cd A show_e data 0 ?s2 = Some (Ok (0 + sum_list (map (ar_rows A) data)), ?s3)"
    by (rule send_batches_link [OF l1 assms(1,3) c(3)]) simp_all
  obtain n where s4: "commit ?T cd ?s3 = Some (Ok (commit_ack_of stats),
      ?s3\<lparr>ss_transport := \<lparr>pp_in = ?i @ enc KCommit (cd_encode cd CEmpty), pp_taken = n\<rparr>, ss_state := SsCommitted\<rparr>)"
    using commit_link [OF l2 carried(5) c(4) carried(6), of ?s3] by auto
  let ?s4 = "?s3\<lparr>ss_transport := \<lparr>pp_in = ?i @ enc KCommit (cd_encode cd CEmpty), pp_taken = n\<rparr>, ss_state := SsCommitted\<rparr>"
  have s5: "shutdown ?T cd ?s4 = ?s4\<lparr>ss_transport := \<lparr>pp_in = (?i @ enc KCommit (cd_encode cd CEmpty)) @
      enc KShutdown (cd_encode cd CEmpty), pp_taken = n\<rparr>, ss_state := SsClosed\<rparr>"
    by (rule shutdown_link) (use carried(5) in simp_all)
  have drive: "drive_sink ?T cd A show_e st config mat schema data ?s0 =
      Some (Ok (commit_stats (commit_ack_of stats) (sum_list (map (ar_rows A) data))), shutdown ?T cd ?s4)"
    unfolding drive_sink_def s1 option.case prod.case sum.case s2 s3 s4 by simp
  show ?thesis
    unfolding drive s5
    using run_commit [OF l2 _ c(4) carried(6), of "enc KShutdown (cd_encode cd CEmpty)"] carried(5) by auto
qed

text \<open>A sink that counts its batches, from a state that forgets what it held before.\<close>

definition w_count_sink :: "(unit, unit, unit, nat) sink_ops" where
  "w_count_sink = \<lparr>so_parse = (\<lambda>_. Ok ()), so_configure = (\<lambda>_ _ _. (Ok (), 0)), so_write = (\<lambda>_ n. (Ok (), n + 1)),
     so_commit = (\<lambda>n. (Ok \<lparr>ws_rows_written = of_nat n, ws_bytes_written = 7, ws_duration = 3000000\<rparr>, n)),
     so_abort = (\<lambda>_ n. (Ok (), n)), so_fingerprint = (\<lambda>_. Some ''r'')\<rparr>"

definition w_info :: plugin_info where "w_info = \<lparr>pi_name = ''p'', pi_version = ''1''\<rparr>"

definition w_cfg :: configure_sink where
  "w_cfg = \<lparr>cs_sink_type = ''count'', cs_config = JNull, cs_input_schema = [], cs_materialization = None\<rparr>"

definition w_stats :: write_stats where
  "w_stats = \<lparr>ws_rows_written = 2, ws_bytes_written = 7, ws_duration = 3000000\<rparr>"

definition w_link_codec :: codec where
  "w_link_codec = w_codec\<lparr>cd_hello := (\<lambda>_. Ok \<lparr>hl_protocol = PROTOCOL_VERSION, hl_armillary_version = []\<rparr>),
     cd_hello_ack := (\<lambda>_. Ok (hello_ack_of w_info)), cd_configure_sink := (\<lambda>_. Ok w_cfg),
     cd_commit_ack := (\<lambda>_. Ok (commit_ack_of w_stats))\<rparr>"

lemma byte_char: "of_nat (of_char (char_of (unat b))) = (b :: byte)"
proof -
  have "unat b < 256" using unsigned_less [of b, where ?'a = nat] by simp
  then show ?thesis by simp
qed

lemma w_arrow_ok: "arrow_ok w_arrow"
  by (simp add: arrow_ok_def w_arrow_def comp_def byte_char del: of_char_of)

theorem session_end_to_end_witness:
  "\<exists>s'. drive_sink (link w_link_codec w_arrow w_count_sink w_info 9) w_link_codec w_arrow (\<lambda>_. []) ''count'' JNull None () [(), ()]
        (new_session \<lparr>pp_in = [], pp_taken = 0\<rparr> PROTOCOL_VERSION []) =
      Some (Ok \<lparr>st_rows_written = 2, st_bytes_written = 7, st_duration_ms = 3, st_rows_updated = 0, st_rows_deleted = 0\<rparr>, s') \<and>
    ss_declared_resource s' = Some ''r'' \<and>
    (\<exists>p. plugin_run w_link_codec w_arrow w_count_sink w_info 9 (pp_in (ss_transport s')) = (Ok (), p) \<and> sd_sink p = 2)"
proof -
  note w = w_link_codec_def w_codec_def w_arrow_def w_cfg_def accepted_def fits_def MAX_PAYLOAD_LEN_def
  have 1: "encode_schema_b64 w_arrow () = Ok []" by (simp add: encode_schema_b64_def w_arrow_def)
  have 2: "\<forall>b \<in> set [(), ()]. batch_fits w_link_codec w_arrow b"
    by (simp add: batch_fits_def encode_record_batch_def batch_bytes_def batch_ack_of_def is_ok_def w)
  have 3: "\<forall>m \<in> {CHello \<lparr>hl_protocol = PROTOCOL_VERSION, hl_armillary_version = []\<rparr>, CHelloAck (hello_ack_of w_info),
      CConfigureSink \<lparr>cs_sink_type = ''count'', cs_config = JNull, cs_input_schema = [], cs_materialization = None\<rparr>,
      CConfigureAck accepted, CEmpty, CCommitAck (commit_ack_of w_stats)}. carries w_link_codec m"
    by (simp add: w)
  have 4: "\<forall>x. so_fingerprint w_count_sink 0 = Some x \<longrightarrow> carries w_link_codec (CDeclareResource x)"
    by (simp add: w w_count_sink_def)
  have 5: "use_sink w_count_sink JNull () [(), ()] 9 = Some (0, w_stats, 2)"
    by (simp add: use_sink_def w_count_sink_def w_stats_def)
  show ?thesis
    using session_end_to_end [OF w_arrow_ok 1 2 3 4 5, of "\<lambda>_. []"]
    by (simp add: commit_stats_def commit_ack_of_def w_stats_def w_count_sink_def)
qed

end
