(* ===== verification/Schema_Diff.thy ===== *)
theory Schema_Diff
  imports Pipeline_Model Snapshot
begin

text \<open>
  \<open>schema_diff.rs\<close>: what changed between the schema of the last successful run of an incremental
  sink and that of the current stream, and what the sink's policy makes of it.  The \<open>Display\<close> text of
  Arrow types outside the list of \<open>parse_data_type\<close>, the JSON text of a schema and the standard
  hasher are parameters.
\<close>

datatype data_type =
    DtInt8 | DtInt16 | DtInt32 | DtInt64 | DtUInt8 | DtUInt16 | DtUInt32 | DtUInt64
  | DtFloat32 | DtFloat64 | DtBoolean | DtUtf8 | DtLargeUtf8 | DtDate32 | DtDate64
  | DtTimestamp string "string option"
  | DtOther string

record field =
  fd_name :: string
  fd_type :: data_type
  fd_nullable :: bool

type_synonym schema = "field list"

text \<open>\<open>Display\<close> of a type; \<open>other\<close> is the text of the types outside the list.\<close>

fun show_type :: "(data_type \<Rightarrow> string) \<Rightarrow> data_type \<Rightarrow> string" where
  "show_type other DtInt8 = ''Int8''"
| "show_type other DtInt16 = ''Int16''"
| "show_type other DtInt32 = ''Int32''"
| "show_type other DtInt64 = ''Int64''"
| "show_type other DtUInt8 = ''UInt8''"
| "show_type other DtUInt16 = ''UInt16''"
| "show_type other DtUInt32 = ''UInt32''"
| "show_type other DtUInt64 = ''UInt64''"
| "show_type other DtFloat32 = ''Float32''"
| "show_type other DtFloat64 = ''Float64''"
| "show_type other DtBoolean = ''Boolean''"
| "show_type other DtUtf8 = ''Utf8''"
| "show_type other DtLargeUtf8 = ''LargeUtf8''"
| "show_type other DtDate32 = ''Date32''"
| "show_type other DtDate64 = ''Date64''"
| "show_type other t = other t"

record schema_field =
  sf_name :: string
  sf_data_type :: string

record schema_type_change =
  stc_name :: string
  stc_from :: string
  stc_to :: string

record schema_diff =
  df_added :: "schema_field list"
  df_removed :: "schema_field list"
  df_type_changed :: "schema_type_change list"

definition diff_is_empty :: "schema_diff \<Rightarrow> bool" where
  "diff_is_empty d \<longleftrightarrow> df_added d = [] \<and> df_removed d = [] \<and> df_type_changed d = []"

datatype schema_action = Proceed | ProceedWithAlter | AbortRun string

subsection \<open>The diff\<close>

text \<open>Collecting into a hash map: a later field of the same name replaces an earlier one.\<close>

definition field_map :: "schema \<Rightarrow> (string \<times> field) list" where
  "field_map s = foldl (\<lambda>m f. AList.update (fd_name f) f m) [] s"

definition compute_schema_diff ::
  "(data_type \<Rightarrow> string) \<Rightarrow> ((string \<times> field) list \<Rightarrow> (string \<times> field) list) \<Rightarrow> schema \<Rightarrow> schema \<Rightarrow> schema_diff" where
  "compute_schema_diff other ord prev current =
     (let p = field_map prev; c = field_map current
      in \<lparr>df_added = sort_key sf_name (concat (map (\<lambda>(n, f). case map_of p n of
              None \<Rightarrow> [\<lparr>sf_name = n, sf_data_type = show_type other (fd_type f)\<rparr>] | Some _ \<Rightarrow> []) (ord c))),
          df_removed = sort_key sf_name (concat (map (\<lambda>(n, f).
              if map_of c n = None then [\<lparr>sf_name = n, sf_data_type = show_type other (fd_type f)\<rparr>] else []) (ord p))),
          df_type_changed = sort_key stc_name (concat (map (\<lambda>(n, f). case map_of p n of
              None \<Rightarrow> []
            | Some g \<Rightarrow>
                if fd_type g \<noteq> fd_type f
                then [\<lparr>stc_name = n, stc_from = show_type other (fd_type g), stc_to = show_type other (fd_type f)\<rparr>]
                else []) (ord c)))\<rparr>)"

subsection \<open>The stored form\<close>

record ser_field =
  se_name :: string
  se_data_type :: string
  se_nullable :: bool

record schema_json =
  sj_encode :: "ser_field list \<Rightarrow> string option"
  sj_decode :: "string \<Rightarrow> ser_field list option"

definition ser_fields :: "(data_type \<Rightarrow> string) \<Rightarrow> schema \<Rightarrow> ser_field list" where
  "ser_fields other s = map (\<lambda>f. \<lparr>se_name = fd_name f, se_data_type = show_type other (fd_type f),
     se_nullable = fd_nullable f\<rparr>) s"

definition serialize_schema :: "(data_type \<Rightarrow> string) \<Rightarrow> schema_json \<Rightarrow> schema \<Rightarrow> string" where
  "serialize_schema other J s =
     (case sj_encode J (ser_fields other s) of
        Some t \<Rightarrow> t | None \<Rightarrow> ''[]'')"

definition parse_data_type :: "string \<Rightarrow> data_type" where
  "parse_data_type s =
     (if s = ''Int8'' then DtInt8 else if s = ''Int16'' then DtInt16
      else if s = ''Int32'' then DtInt32 else if s = ''Int64'' then DtInt64
      else if s = ''UInt8'' then DtUInt8 else if s = ''UInt16'' then DtUInt16
      else if s = ''UInt32'' then DtUInt32 else if s = ''UInt64'' then DtUInt64
      else if s = ''Float32'' then DtFloat32 else if s = ''Float64'' then DtFloat64
      else if s = ''Boolean'' then DtBoolean else if s = ''Utf8'' then DtUtf8
      else if s = ''LargeUtf8'' then DtLargeUtf8 else if s = ''Date32'' then DtDate32
      else if s = ''Date64'' then DtDate64 else DtUtf8)"

definition deserialize_schema :: "schema_json \<Rightarrow> string \<Rightarrow> schema option" where
  "deserialize_schema J text = map_option (map (\<lambda>e. \<lparr>fd_name = se_name e, fd_type = parse_data_type (se_data_type e),
     fd_nullable = se_nullable e\<rparr>)) (sj_decode J text)"

text \<open>The fields, sorted and joined by record separators, hashed and printed in hexadecimal.\<close>

definition schema_fingerprint :: "(data_type \<Rightarrow> string) \<Rightarrow> (string \<Rightarrow> u64) \<Rightarrow> schema \<Rightarrow> string" where
  "schema_fingerprint other hash s =
     hex16 (hash (join [CHR 0x1e] (sort (map (\<lambda>f. fd_name f @ [CHR 0x1f] @ show_type other (fd_type f)) s))))"

subsection \<open>The policy\<close>

definition render_diff :: "schema_diff \<Rightarrow> string" where
  "render_diff d = join '' '' (
     (if df_added d \<noteq> []
      then [''added=['' @ join '','' (map (\<lambda>f. sf_name f @ '':'' @ sf_data_type f) (df_added d)) @ '']''] else []) @
     (if df_removed d \<noteq> []
      then [''removed=['' @ join '','' (map (\<lambda>f. sf_name f @ '':'' @ sf_data_type f) (df_removed d)) @ '']''] else []) @
     (if df_type_changed d \<noteq> []
      then [''type_changed=['' @ join '','' (map (\<lambda>c. stc_name c @ '':'' @ stc_from c @ ''->'' @ stc_to c) (df_type_changed d)) @ '']'']
      else []))"

definition apply_policy :: "schema_diff \<Rightarrow> on_schema_change \<Rightarrow> schema_action" where
  "apply_policy d policy =
     (if diff_is_empty d then Proceed
      else (case policy of
          ScFail \<Rightarrow> AbortRun (render_diff d)
        | ScIgnore \<Rightarrow> Proceed
        | AppendNewColumns \<Rightarrow>
            if df_type_changed d \<noteq> []
            then AbortRun (''on_schema_change=append_new_columns refuses type changes: '' @ render_diff d)
            else if df_added d \<noteq> [] then ProceedWithAlter else Proceed
        | SyncAllColumns \<Rightarrow>
            if df_type_changed d \<noteq> []
            then AbortRun (''on_schema_change=sync_all_columns refuses non-trivial type changes: '' @ render_diff d)
            else ProceedWithAlter))"

section \<open>Properties\<close>

lemma field_map_snoc: "field_map (s @ [f]) = AList.update (fd_name f) f (field_map s)"
  by (simp add: field_map_def)

lemma distinct_field_map: "distinct (map fst (field_map s))"
  by (induction s rule: rev_induct) (simp_all add: field_map_snoc field_map_def [of "[]"] distinct_update)

lemma map_of_field_map: "map_of (field_map s) = map_of (rev (map (\<lambda>f. (fd_name f, f)) s))"
  by (induction s rule: rev_induct) (simp_all add: field_map_snoc field_map_def [of "[]"] update_conv)

text \<open>The field of a name, the last one when a name is repeated.\<close>

definition field_of :: "schema \<Rightarrow> string \<Rightarrow> field option" where
  "field_of s = map_of (rev (map (\<lambda>f. (fd_name f, f)) s))"

lemma set_field_map: "(n, f) \<in> set (field_map s) \<longleftrightarrow> field_of s n = Some f"
  using distinct_field_map [of s] by (simp add: field_of_def map_of_field_map [symmetric] map_of_eq_Some_iff)

lemma field_of_name: "field_of s n = Some f \<Longrightarrow> fd_name f = n \<and> f \<in> set s"
  by (auto simp: field_of_def dest!: map_of_SomeD)

lemma field_of_None: "field_of s n = None \<longleftrightarrow> n \<notin> fd_name ` set s"
  by (force simp: field_of_def map_of_eq_None_iff)

lemma diff_sets:
  fixes other prev cur
  assumes "hash_order ord"
  defines "d \<equiv> compute_schema_diff other ord prev cur"
  shows "set (df_added d) = {\<lparr>sf_name = n, sf_data_type = show_type other (fd_type f)\<rparr> | n f.
      field_of cur n = Some f \<and> field_of prev n = None}"
    "set (df_removed d) = {\<lparr>sf_name = n, sf_data_type = show_type other (fd_type f)\<rparr> | n f.
      field_of prev n = Some f \<and> field_of cur n = None}"
    "set (df_type_changed d) = {\<lparr>stc_name = n, stc_from = show_type other (fd_type g), stc_to = show_type other (fd_type f)\<rparr> | n f g.
      field_of cur n = Some f \<and> field_of prev n = Some g \<and> fd_type g \<noteq> fd_type f}"
  using hash_orderD(2) [OF assms(1)]
  by (fastforce simp: d_def compute_schema_diff_def Let_def set_field_map map_of_field_map field_of_def [symmetric]
      split: option.splits if_splits)+

lemma sort_key_cong_mset:
  assumes "mset xs = mset ys" "distinct (map f ys)"
  shows "sort_key f xs = sort_key f ys"
proof (rule properties_for_sort_key)
  have inj: "inj_on f (set ys)" using assms(2) by (simp add: distinct_map)
  have m: "mset (sort_key f ys) = mset xs" using assms(1) by simp
  from m show "mset (sort_key f ys) = mset xs" .
  show "sorted (map f (sort_key f ys))" by simp
  fix k
  assume "k \<in> set (sort_key f ys)"
  then have k: "k \<in> set ys" by simp
  have one: "filter (\<lambda>x. f k = f x) zs = replicate (count (mset zs) k) k" if "set zs = set ys" for zs
  proof -
    have "filter (\<lambda>x. f k = f x) zs = filter ((=) k) zs"
      by (rule filter_cong) (use k that inj in \<open>auto dest: inj_onD\<close>)
    then show ?thesis by (simp add: replicate_count_mset_eq_filter_eq)
  qed
  have sets: "set (sort_key f ys) = set ys" "set xs = set ys"
    using mset_eq_setD [OF assms(1)] by simp_all
  show "filter (\<lambda>x. f k = f x) (sort_key f ys) = filter (\<lambda>x. f k = f x) xs"
    unfolding one [OF sets(1)] one [OF sets(2)] by (simp only: m)
qed

lemma distinct_names_concat:
  assumes "distinct (map fst xs)" "\<And>n f y. (n, f) \<in> set xs \<Longrightarrow> y \<in> set (g (n, f)) \<Longrightarrow> name y = n"
    "\<And>x. length (g x) \<le> 1"
  shows "distinct (map name (concat (map g xs)))"
  using assms(1,2)
proof (induction xs)
  case (Cons x xs)
  obtain n f where x: "x = (n, f)" by (cases x)
  have "distinct (map name (concat (map g xs)))"
    by (rule Cons.IH) (use Cons.prems in auto)
  moreover have "distinct (map name (g x))" using assms(3) [of x] by (cases "g x") auto
  moreover have "name y = n" if "y \<in> set (g x)" for y using Cons.prems(2) [of n f y] that x by simp
  moreover have "name y \<noteq> n" if "y \<in> set (concat (map g xs))" for y
  proof -
    from that obtain m h where mh: "(m, h) \<in> set xs" "y \<in> set (g (m, h))" by auto
    then have "name y = m" using Cons.prems(2) [of m h y] by simp
    moreover have "m \<noteq> n" using Cons.prems(1) x mh(1) by force
    ultimately show ?thesis by simp
  qed
  ultimately show ?case by fastforce
qed simp

text \<open>The order of the hash maps does not show in the diff.\<close>

lemma diff_order:
  assumes "hash_order ord"
  shows "compute_schema_diff other ord prev cur = compute_schema_diff other (\<lambda>m. m) prev cur"
proof -
  have c: "mset (concat (map g xs)) = (\<Sum>x \<in># mset xs. mset (g x))" for g :: "string \<times> field \<Rightarrow> 'b list" and xs
    by (induction xs) auto
  have m: "mset (concat (map g (ord (field_map s)))) = mset (concat (map g (field_map s)))"
    for g :: "string \<times> field \<Rightarrow> 'b list" and s
    unfolding c hash_orderD(1) [OF assms] ..
  note d = distinct_names_concat [OF distinct_field_map]
  show ?thesis
    unfolding compute_schema_diff_def Let_def schema_diff.ext_inject
    by (intro conjI refl sort_key_cong_mset m d) (auto split: option.splits if_splits)
qed

lemma field_of_distinct: "distinct (map fd_name s) \<Longrightarrow> f \<in> set s \<Longrightarrow> field_of s (fd_name f) = Some f"
  by (auto simp: field_of_def intro!: map_of_is_SomeI simp flip: rev_map simp: comp_def)

text \<open>
  The diff lists exactly the new, the missing and the retyped names, whatever the order of the
  hash maps; it is empty exactly when the two schemas give every name the same type.
\<close>

theorem schema_diff_correct:
  assumes "hash_order ord"
  shows "(let d = compute_schema_diff other ord prev cur
    in d = compute_schema_diff other (\<lambda>m. m) prev cur \<and>
      sf_name ` set (df_added d) = fd_name ` set cur - fd_name ` set prev \<and>
      sf_name ` set (df_removed d) = fd_name ` set prev - fd_name ` set cur \<and>
      stc_name ` set (df_type_changed d) = {n. \<exists>f g. field_of cur n = Some f \<and> field_of prev n = Some g \<and> fd_type g \<noteq> fd_type f} \<and>
      (diff_is_empty d \<longleftrightarrow> (\<forall>n. map_option fd_type (field_of cur n) = map_option fd_type (field_of prev n))))"
proof -
  let ?d = "compute_schema_diff other ord prev cur"
  note s = diff_sets [OF assms, of other prev cur]
  have named: "n \<in> fd_name ` set x \<longleftrightarrow> (\<exists>f. field_of x n = Some f)" for n x
    using field_of_None [of x n] by (metis not_Some_eq)
  have added: "sf_name ` set (df_added ?d) = fd_name ` set cur - fd_name ` set prev"
    unfolding s set_eq_iff Diff_iff named by (force simp: image_iff)
  have removed: "sf_name ` set (df_removed ?d) = fd_name ` set prev - fd_name ` set cur"
    unfolding s set_eq_iff Diff_iff named by (force simp: image_iff)
  have changed: "stc_name ` set (df_type_changed ?d) =
      {n. \<exists>f g. field_of cur n = Some f \<and> field_of prev n = Some g \<and> fd_type g \<noteq> fd_type f}"
    unfolding s by (force simp: image_iff)
  have "diff_is_empty ?d \<longleftrightarrow> sf_name ` set (df_added ?d) = {} \<and> sf_name ` set (df_removed ?d) = {} \<and>
      stc_name ` set (df_type_changed ?d) = {}"
    by (simp add: diff_is_empty_def)
  also have "\<dots> \<longleftrightarrow> (\<forall>n. map_option fd_type (field_of cur n) = map_option fd_type (field_of prev n))"
  proof -
    have "map_option fd_type (field_of cur n) = map_option fd_type (field_of prev n) \<longleftrightarrow>
        n \<notin> sf_name ` set (df_added ?d) \<and> n \<notin> sf_name ` set (df_removed ?d) \<and> n \<notin> stc_name ` set (df_type_changed ?d)" for n
      unfolding added removed changed Diff_iff named by (cases "field_of cur n"; cases "field_of prev n") auto
    moreover have "A = {} \<and> B = {} \<and> C = {} \<longleftrightarrow> (\<forall>n. n \<notin> A \<and> n \<notin> B \<and> n \<notin> C)" for A B C :: "string set" by blast
    ultimately show ?thesis by (simp only:)
  qed
  finally have empty: "diff_is_empty ?d \<longleftrightarrow> (\<forall>n. map_option fd_type (field_of cur n) = map_option fd_type (field_of prev n))" .
  show ?thesis unfolding Let_def by (intro conjI diff_order [OF assms] added removed changed empty)
qed

text \<open>The types that \<open>parse_data_type\<close> reads back.\<close>

fun listed :: "data_type \<Rightarrow> bool" where
  "listed (DtTimestamp u tz) = False"
| "listed (DtOther t) = False"
| "listed _ = True"

lemma parse_listed: "listed t \<Longrightarrow> parse_data_type (show_type other t) = t"
  by (cases t) (simp_all add: parse_data_type_def)

text \<open>What the parameters promise: the JSON text is read back, and no other type has the text of a listed one.\<close>

definition stored_form_ok :: "(data_type \<Rightarrow> string) \<Rightarrow> schema_json \<Rightarrow> schema \<Rightarrow> bool" where
  "stored_form_ok other J s \<longleftrightarrow>
     (case sj_encode J (ser_fields other s) of None \<Rightarrow> False | Some t \<Rightarrow> sj_decode J t = Some (ser_fields other s)) \<and>
     list_all (\<lambda>f. listed (fd_type f) \<or> parse_data_type (other (fd_type f)) = DtUtf8) s"

definition stored_type :: "data_type \<Rightarrow> data_type" where
  "stored_type t = (if listed t then t else DtUtf8)"

lemma stored_schema:
  assumes "stored_form_ok other J s"
  shows "deserialize_schema J (serialize_schema other J s) =
    Some (map (\<lambda>f. f\<lparr>fd_type := stored_type (fd_type f)\<rparr>) s)"
proof -
  have st: "show_type other t = other t" if "\<not> listed t" for t using that by (cases t) simp_all
  have "parse_data_type (show_type other (fd_type f)) = stored_type (fd_type f)" if "f \<in> set s" for f
    using assms parse_listed [of "fd_type f" other] st [of "fd_type f"] that
    by (auto simp: stored_type_def stored_form_ok_def list_all_iff)
  then show ?thesis
    using assms by (auto simp: stored_form_ok_def serialize_schema_def deserialize_schema_def ser_fields_def split: option.splits)
qed

lemma field_of_map: "(\<And>f. fd_name (g f) = fd_name f) \<Longrightarrow> field_of (map g s) n = map_option g (field_of s n)"
proof -
  assume g: "\<And>f. fd_name (g f) = fd_name f"
  have "rev (map (\<lambda>f. (fd_name f, f)) (map g s)) = map (\<lambda>(n, f). (n, g f)) (rev (map (\<lambda>f. (fd_name f, f)) s))"
    by (simp add: rev_map comp_def g)
  then show ?thesis by (simp only: field_of_def map_of_map comp_apply)
qed

text \<open>
  A schema that did not change passes its own stored record under every policy when all its types
  are in the list; otherwise, with a timestamp column for one, the column counts as retyped and
  every policy but \<open>ignore\<close> aborts the run.
\<close>

theorem unchanged_schema_verdict:
  assumes "hash_order ord" "stored_form_ok other J s" "distinct (map fd_name s)"
  shows "\<exists>s'. deserialize_schema J (serialize_schema other J s) = Some s' \<and>
    (if list_all (\<lambda>f. listed (fd_type f)) s \<or> policy = ScIgnore
     then apply_policy (compute_schema_diff other ord s' s) policy = Proceed
     else \<exists>why. apply_policy (compute_schema_diff other ord s' s) policy = AbortRun why)"
proof (intro exI conjI)
  let ?g = "\<lambda>f. f\<lparr>fd_type := stored_type (fd_type f)\<rparr>"
  let ?d = "compute_schema_diff other ord (map ?g s) s"
  show "deserialize_schema J (serialize_schema other J s) = Some (map ?g s)"
    by (rule stored_schema [OF assms(2)])
  have f: "field_of (map ?g s) n = map_option ?g (field_of s n)" for n by (rule field_of_map) simp
  note d = diff_sets [OF assms(1), of other "map ?g s" s, unfolded f]
  have "set (df_added ?d) = {}" unfolding d(1) by auto
  moreover have "set (df_removed ?d) = {}" unfolding d(2) by auto
  ultimately have no_new: "df_added ?d = []" "df_removed ?d = []" by (simp_all only: set_empty)
  show "if list_all (\<lambda>f. listed (fd_type f)) s \<or> policy = ScIgnore then apply_policy ?d policy = Proceed
     else \<exists>why. apply_policy ?d policy = AbortRun why"
  proof (cases "list_all (\<lambda>f. listed (fd_type f)) s")
    case True
    then have "field_of s n = Some h \<Longrightarrow> stored_type (fd_type h) = fd_type h" for n h
      using field_of_name [of s n h] by (auto simp: list_all_iff stored_type_def)
    then have "set (df_type_changed ?d) = {}" unfolding d(3) by auto
    then show ?thesis using True no_new by (simp add: apply_policy_def diff_is_empty_def)
  next
    case False
    then obtain h where h: "h \<in> set s" "\<not> listed (fd_type h)" by (auto simp: list_all_iff)
    then have "field_of s (fd_name h) = Some h" by (intro field_of_distinct assms(3))
    moreover have "stored_type (fd_type h) \<noteq> fd_type h"
      using h(2) by (cases "fd_type h") (auto simp: stored_type_def)
    ultimately have "set (df_type_changed ?d) \<noteq> {}" unfolding d(3) by fastforce
    then have "df_type_changed ?d \<noteq> []" by simp
    then show ?thesis using False
      by (cases policy) (simp_all add: apply_policy_def diff_is_empty_def)
  qed
qed

lemma fingerprint_order: "mset s = mset s' \<Longrightarrow> schema_fingerprint other hash s = schema_fingerprint other hash s'"
proof -
  assume "mset s = mset s'"
  then have "mset (map (\<lambda>f. fd_name f @ [CHR 0x1f] @ show_type other (fd_type f)) s) =
      mset (map (\<lambda>f. fd_name f @ [CHR 0x1f] @ show_type other (fd_type f)) s')"
    by (simp only: mset_map)
  then have "sort (map (\<lambda>f. fd_name f @ [CHR 0x1f] @ show_type other (fd_type f)) s) =
      sort (map (\<lambda>f. fd_name f @ [CHR 0x1f] @ show_type other (fd_type f)) s')"
    by (intro properties_for_sort) (simp_all only: mset_sort sorted_sort)
  then show ?thesis unfolding schema_fingerprint_def by (simp only:)
qed

definition w_schema :: schema where
  "w_schema = [\<lparr>fd_name = ''id'', fd_type = DtInt64, fd_nullable = False\<rparr>,
     \<lparr>fd_name = ''ts'', fd_type = DtTimestamp ''ns'' (Some ''UTC''), fd_nullable = True\<rparr>]"

definition w_other :: "data_type \<Rightarrow> string" where "w_other t = ''Timestamp''"

definition w_json :: schema_json where
  "w_json = \<lparr>sj_encode = (\<lambda>_. Some ''x''), sj_decode = (\<lambda>_. Some (ser_fields w_other w_schema))\<rparr>"

theorem schema_diff_correct_witness:
  "df_type_changed (compute_schema_diff w_other rev w_schema [\<lparr>fd_name = ''id'', fd_type = DtUtf8, fd_nullable = False\<rparr>]) =
     [\<lparr>stc_name = ''id'', stc_from = ''Int64'', stc_to = ''Utf8''\<rparr>]"
  using schema_diff_correct [OF hash_order_rev, of w_other w_schema "[\<lparr>fd_name = ''id'', fd_type = DtUtf8, fd_nullable = False\<rparr>]"]
  by (simp add: Let_def compute_schema_diff_def field_map_def w_schema_def)

theorem unchanged_schema_verdict_witness:
  "\<exists>why. apply_policy (compute_schema_diff w_other rev
      (the (deserialize_schema w_json (serialize_schema w_other w_json w_schema))) w_schema) AppendNewColumns = AbortRun why"
proof -
  have "stored_form_ok w_other w_json w_schema"
    by (simp add: stored_form_ok_def w_json_def w_other_def w_schema_def parse_data_type_def)
  moreover have "distinct (map fd_name w_schema)" "\<not> list_all (\<lambda>f. listed (fd_type f)) w_schema"
    by (simp_all add: w_schema_def)
  ultimately show ?thesis
    using unchanged_schema_verdict [OF hash_order_rev, of w_other w_json w_schema AppendNewColumns] by auto
qed

end
