(* ===== verification/Watermark.thy ===== *)
theory Watermark
  imports Interval Schema_Diff
begin

text \<open>
  \<open>watermark.rs\<close>: the lookback, the filter a stored watermark puts on a read, and the largest
  watermark of the batches that were written.  Timestamps are nanoseconds; RFC 3339 text, the range
  of \<open>chrono\<close> and Arrow's casts are parameters.  The outer option is \<open>None\<close> for a panic: an overflow
  of \<open>i64\<close> arithmetic or of \<open>chrono\<close>.
\<close>

datatype watermark_error =
    ColumnMissingFromSource string string string
  | TypeMismatch string string string string
  | UnparseableStoredValue string string string string
  | InvalidLookback string

subsection \<open>Lookback\<close>

definition lookback_unit :: "bool \<Rightarrow> char \<Rightarrow> int option" where
  "lookback_unit in_time c =
     (if c = CHR ''D'' \<and> \<not> in_time then Some 86400
      else if c = CHR ''H'' \<and> in_time then Some 3600
      else if c = CHR ''M'' \<and> in_time then Some 60
      else if c = CHR ''S'' \<and> in_time then Some 1
      else None)"

fun lookback_loop ::
  "string \<Rightarrow> bool \<Rightarrow> string \<Rightarrow> bool \<Rightarrow> int \<Rightarrow> string \<Rightarrow> (watermark_error + int) option" where
  "lookback_loop s in_time current saw_unit seconds [] =
     Some (if current \<noteq> [] \<or> \<not> saw_unit then Err (InvalidLookback s) else Ok seconds)"
| "lookback_loop s in_time current saw_unit seconds (c # cs) =
     (if c = CHR ''T''
      then (if in_time \<or> current \<noteq> [] then Some (Err (InvalidLookback s))
            else lookback_loop s True current saw_unit seconds cs)
      else if is_digit c then lookback_loop s in_time (current @ [c]) saw_unit seconds cs
      else (case lookback_unit in_time c of
          None \<Rightarrow> Some (Err (InvalidLookback s))
        | Some unit \<Rightarrow> (case parse_i64 current of
            None \<Rightarrow> Some (Err (InvalidLookback s))
          | Some n \<Rightarrow> (case checked (n * unit) of
              None \<Rightarrow> None
            | Some m \<Rightarrow> (case checked (seconds + m) of
                None \<Rightarrow> None
              | Some secs \<Rightarrow> lookback_loop s in_time [] True secs cs)))))"

definition parse_lookback :: "string \<Rightarrow> (watermark_error + int) option" where
  "parse_lookback s = (case s of
      [] \<Rightarrow> Some (Err (InvalidLookback s))
    | c # cs \<Rightarrow> if c \<noteq> CHR ''P'' then Some (Err (InvalidLookback s)) else lookback_loop s False [] False 0 cs)"

subsection \<open>Stored values and scalars\<close>

datatype scalar = ScTimestamp int | ScInt64 int | ScUtf8 string

record time_text =
  tt_parse :: "string \<Rightarrow> string + int"
  tt_print :: "int \<Rightarrow> string"
  tt_ok :: "int \<Rightarrow> bool"

text \<open>The message of a \<open>ParseIntError\<close> of an \<open>i64\<close>.\<close>

fun digits_error :: "bool \<Rightarrow> nat \<Rightarrow> string \<Rightarrow> string" where
  "digits_error neg acc [] = []"
| "digits_error neg acc (c # s) =
     (let n = 10 * acc + digit_val c
      in if \<not> is_digit c then ''invalid digit found in string''
         else if neg \<and> - int n < i64_min then ''number too small to fit in target type''
         else if \<not> neg \<and> int n > i64_max then ''number too large to fit in target type''
         else digits_error neg n s)"

definition parse_int_error :: "string \<Rightarrow> string" where
  "parse_int_error s = (case s of
      [] \<Rightarrow> ''cannot parse integer from empty string''
    | c # r \<Rightarrow>
        if c \<in> {CHR ''-'', CHR ''+''} \<and> r = [] then ''invalid digit found in string''
        else if c = CHR ''-'' then digits_error True 0 r
        else if c = CHR ''+'' then digits_error False 0 r
        else digits_error False 0 s)"

definition stored_to_scalar ::
  "time_text \<Rightarrow> string \<Rightarrow> watermark_type \<Rightarrow> string \<Rightarrow> int \<Rightarrow> (watermark_error + scalar) option" where
  "stored_to_scalar T node_id wtype v lookback = (case wtype of
      WmTimestamp \<Rightarrow> (case tt_parse T v of
          Inl e \<Rightarrow> Some (Err (UnparseableStoredValue node_id ''timestamp'' v e))
        | Inr dt \<Rightarrow> (case delta_seconds lookback of
            None \<Rightarrow> None
          | Some d \<Rightarrow> (case time_add (tt_ok T) dt (- d) of
              None \<Rightarrow> None
            | Some dt' \<Rightarrow>
                Some (if i64_min \<le> dt' \<and> dt' \<le> i64_max then Ok (ScTimestamp dt')
                  else Err (UnparseableStoredValue node_id ''timestamp'' v ''value out of nanosecond range'')))))
    | WmInt64 \<Rightarrow> Some (case parse_i64 v of
          None \<Rightarrow> Err (UnparseableStoredValue node_id ''int64'' v (parse_int_error v))
        | Some n \<Rightarrow> Ok (ScInt64 n))
    | WmString \<Rightarrow> Some (Ok (ScUtf8 v)))"

definition scalar_to_stored :: "time_text \<Rightarrow> watermark_type \<Rightarrow> scalar \<Rightarrow> string option" where
  "scalar_to_stored T wtype s = (case (wtype, s) of
      (WmTimestamp, ScTimestamp n) \<Rightarrow> Some (tt_print T n)
    | (WmInt64, ScInt64 n) \<Rightarrow> Some (show_int n)
    | (WmString, ScUtf8 v) \<Rightarrow> Some v
    | _ \<Rightarrow> None)"

fun scalar_gt :: "scalar \<Rightarrow> scalar \<Rightarrow> bool" where
  "scalar_gt (ScTimestamp x) (ScTimestamp y) = (x > y)"
| "scalar_gt (ScInt64 x) (ScInt64 y) = (x > y)"
| "scalar_gt (ScUtf8 x) (ScUtf8 y) = (x > y)"
| "scalar_gt _ _ = False"

subsection \<open>The largest watermark\<close>

text \<open>A batch is its fields with their columns; Arrow's casts of a column give its cells.\<close>

record 'c batch =
  rb_columns :: "(field \<times> 'c) list"
  rb_num_rows :: nat

definition batch_schema :: "'c batch \<Rightarrow> schema" where
  "batch_schema b = map fst (rb_columns b)"

record 'c arrays =
  ac_is_empty :: "'c \<Rightarrow> bool"
  ac_timestamps :: "'c \<Rightarrow> string + int option list"
  ac_ints :: "'c \<Rightarrow> string + int option list"
  ac_texts :: "'c \<Rightarrow> string + string option list"

fun cells_max :: "'a::linorder option \<Rightarrow> 'a option list \<Rightarrow> 'a option" where
  "cells_max m [] = m"
| "cells_max m (None # vs) = cells_max m vs"
| "cells_max m (Some v # vs) = cells_max (Some (case m of None \<Rightarrow> v | Some x \<Rightarrow> max x v)) vs"

datatype incremental_error = IeSqlite string | IeDatabase string | IeNotFound string string string

definition array_max :: "'c arrays \<Rightarrow> 'c \<Rightarrow> watermark_type \<Rightarrow> incremental_error + scalar option" where
  "array_max A c wtype =
     (if ac_is_empty A c then Ok None
      else (case wtype of
          WmTimestamp \<Rightarrow> (case ac_timestamps A c of
              Inl e \<Rightarrow> Err (IeDatabase (''watermark cast to ts(ns,UTC) failed: '' @ e))
            | Inr vs \<Rightarrow> Ok (map_option ScTimestamp (cells_max None vs)))
        | WmInt64 \<Rightarrow> (case ac_ints A c of
              Inl e \<Rightarrow> Err (IeDatabase (''watermark cast to i64 failed: '' @ e))
            | Inr vs \<Rightarrow> Ok (map_option ScInt64 (cells_max None vs)))
        | WmString \<Rightarrow> (case ac_texts A c of
              Inl e \<Rightarrow> Err (IeDatabase (''watermark cast to utf8 failed: '' @ e))
            | Inr vs \<Rightarrow> Ok (map_option ScUtf8 (cells_max None vs)))))"

fun fold_max ::
  "'c arrays \<Rightarrow> string \<Rightarrow> watermark_type \<Rightarrow> 'c batch list \<Rightarrow> scalar option \<Rightarrow> incremental_error + scalar option" where
  "fold_max A column wtype [] current = Ok current"
| "fold_max A column wtype (b # bs) current =
     (case find (\<lambda>(f, _). fd_name f = column) (rb_columns b) of
        None \<Rightarrow> fold_max A column wtype bs current
      | Some (_, c) \<Rightarrow> (case array_max A c wtype of
          Inl e \<Rightarrow> Err e
        | Inr m \<Rightarrow> fold_max A column wtype bs (case (current, m) of
            (None, m) \<Rightarrow> m
          | (Some x, None) \<Rightarrow> Some x
          | (Some x, Some y) \<Rightarrow> Some (if scalar_gt y x then y else x))))"

definition fold_max_watermark ::
  "'c arrays \<Rightarrow> 'c batch list \<Rightarrow> string \<Rightarrow> watermark_type \<Rightarrow> incremental_error + scalar option" where
  "fold_max_watermark A batches column wtype = fold_max A column wtype batches None"

definition watermark_type_matches :: "data_type \<Rightarrow> watermark_type \<Rightarrow> bool" where
  "watermark_type_matches t wtype = (case wtype of
      WmTimestamp \<Rightarrow> (case t of DtTimestamp _ _ \<Rightarrow> True | DtDate32 \<Rightarrow> True | DtDate64 \<Rightarrow> True | _ \<Rightarrow> False)
    | WmInt64 \<Rightarrow> t \<in> {DtInt8, DtInt16, DtInt32, DtInt64, DtUInt8, DtUInt16, DtUInt32}
    | WmString \<Rightarrow> t \<in> {DtUtf8, DtLargeUtf8})"

section \<open>Properties\<close>

lemma parse_i64_show_int:
  assumes "i64_min \<le> i" "i \<le> i64_max"
  shows "parse_i64 (show_int i) = Some i"
proof (cases "i < 0")
  case True
  then show ?thesis using assms by (simp add: show_int_def parse_i64_def Let_def i64_max_def)
next
  case False
  then show ?thesis using assms parse_i64_show_nat [of "nat i"] by (simp add: show_int_def)
qed

text \<open>The scalars of a watermark type, in the ranges their Arrow types have.\<close>

definition scalar_ok :: "time_text \<Rightarrow> watermark_type \<Rightarrow> scalar \<Rightarrow> bool" where
  "scalar_ok T wtype s = (case (wtype, s) of
      (WmTimestamp, ScTimestamp n) \<Rightarrow> tt_parse T (tt_print T n) = Ok n \<and> tt_ok T n \<and> i64_min \<le> n \<and> n \<le> i64_max
    | (WmInt64, ScInt64 n) \<Rightarrow> i64_min \<le> n \<and> n \<le> i64_max
    | (WmString, ScUtf8 v) \<Rightarrow> True
    | _ \<Rightarrow> False)"

lemma watermark_roundtrip:
  "scalar_ok T wtype s \<Longrightarrow> \<exists>v. scalar_to_stored T wtype s = Some v \<and> stored_to_scalar T i wtype v 0 = Some (Ok s)"
  by (cases wtype; cases s)
    (auto simp: scalar_ok_def scalar_to_stored_def stored_to_scalar_def parse_i64_show_int delta_seconds_def
      duration_seconds_def time_add_def i64_max_def)

text \<open>The non-null cells of the watermark column.\<close>

definition array_cells :: "'c arrays \<Rightarrow> watermark_type \<Rightarrow> 'c \<Rightarrow> scalar list" where
  "array_cells A wtype c =
     (if ac_is_empty A c then []
      else (case wtype of
          WmTimestamp \<Rightarrow> (case ac_timestamps A c of Inl _ \<Rightarrow> [] | Inr vs \<Rightarrow> map ScTimestamp (List.map_filter (\<lambda>v. v) vs))
        | WmInt64 \<Rightarrow> (case ac_ints A c of Inl _ \<Rightarrow> [] | Inr vs \<Rightarrow> map ScInt64 (List.map_filter (\<lambda>v. v) vs))
        | WmString \<Rightarrow> (case ac_texts A c of Inl _ \<Rightarrow> [] | Inr vs \<Rightarrow> map ScUtf8 (List.map_filter (\<lambda>v. v) vs))))"

definition column_cells :: "'c arrays \<Rightarrow> string \<Rightarrow> watermark_type \<Rightarrow> 'c batch list \<Rightarrow> scalar list" where
  "column_cells A column wtype bs = concat (map (\<lambda>b. case find (\<lambda>(f, _). fd_name f = column) (rb_columns b) of
      None \<Rightarrow> [] | Some (_, c) \<Rightarrow> array_cells A wtype c) bs)"

text \<open>The largest of some scalars of one type, and \<open>None\<close> of none.\<close>

definition is_largest :: "scalar option \<Rightarrow> scalar list \<Rightarrow> bool" where
  "is_largest m xs \<longleftrightarrow> (case m of None \<Rightarrow> xs = [] | Some x \<Rightarrow> x \<in> set xs \<and> (\<forall>y \<in> set xs. \<not> scalar_gt y x))"

fun same_kind :: "watermark_type \<Rightarrow> scalar \<Rightarrow> bool" where
  "same_kind WmTimestamp (ScTimestamp n) = True"
| "same_kind WmInt64 (ScInt64 n) = True"
| "same_kind WmString (ScUtf8 v) = True"
| "same_kind _ _ = False"

lemma scalar_gt_linear:
  assumes "same_kind t x" "same_kind t y" "same_kind t z"
  shows "\<not> scalar_gt x x" "scalar_gt x y \<Longrightarrow> \<not> scalar_gt y x" "\<not> scalar_gt x y \<Longrightarrow> \<not> scalar_gt y z \<Longrightarrow> \<not> scalar_gt x z"
  using assms by (cases t; cases x; cases y; cases z; simp)+

lemma cells_max_Some:
  "cells_max m vs = (let all = (case m of None \<Rightarrow> [] | Some x \<Rightarrow> [x]) @ List.map_filter (\<lambda>v. v) vs
    in if all = [] then None else Some (Max (set all)))"
proof (induction m vs rule: cells_max.induct)
  case (3 m v vs)
  have "Max (insert (max x v) A) = Max (insert x (insert v A))" if "finite A" for x A
    using that by (cases "A = {}") (simp_all add: max.assoc)
  then show ?case using 3 by (cases m) (simp_all add: Let_def map_filter_simps)
qed (auto simp: Let_def map_filter_simps split: option.splits)

lemma largest_Max:
  fixes vs :: "'a::linorder list"
  assumes "\<And>x y. scalar_gt (c x) (c y) = (x > y)" "vs \<noteq> []"
  shows "is_largest (Some (c (Max (set vs)))) (map c vs)"
proof -
  have "Max (set vs) \<in> set vs" "\<And>y. y \<in> set vs \<Longrightarrow> y \<le> Max (set vs)" using assms(2) by simp_all
  then show ?thesis using assms(1) by (auto simp: is_largest_def not_less)
qed

lemma array_max_largest: "array_max A c wtype = Ok m \<Longrightarrow> is_largest m (array_cells A wtype c)"
  by (cases wtype)
    (auto simp: array_max_def array_cells_def cells_max_Some Let_def is_largest_def [of None "[]"]
      split: sum.splits if_splits intro!: largest_Max)

lemma array_cells_kind: "x \<in> set (array_cells A wtype c) \<Longrightarrow> same_kind wtype x"
  by (cases wtype) (auto simp: array_cells_def split: if_splits sum.splits)

lemma is_largest_append:
  assumes "is_largest m xs" "is_largest n ys" "\<forall>x \<in> set (xs @ ys). same_kind t x"
  shows "is_largest (case (m, n) of (None, n) \<Rightarrow> n | (Some x, None) \<Rightarrow> Some x
    | (Some x, Some y) \<Rightarrow> Some (if scalar_gt y x then y else x)) (xs @ ys)"
proof (cases m)
  case None
  then show ?thesis using assms by (simp add: is_largest_def)
next
  case m: (Some x)
  show ?thesis
  proof (cases n)
    case None
    then show ?thesis using assms m by (simp add: is_largest_def)
  next
    case (Some y)
    have x: "x \<in> set xs" "\<And>z. z \<in> set xs \<Longrightarrow> \<not> scalar_gt z x" and y: "y \<in> set ys" "\<And>z. z \<in> set ys \<Longrightarrow> \<not> scalar_gt z y"
      using assms m Some by (simp_all add: is_largest_def)
    have k: "same_kind t z" if "z \<in> set (xs @ ys)" for z using assms(3) that by blast
    show ?thesis
    proof (cases "scalar_gt y x")
      case True
      have "\<not> scalar_gt z y" if "z \<in> set xs" for z
        using scalar_gt_linear(3) [of t z x y] scalar_gt_linear(2) [of t y x x] x y k that True by simp
      then show ?thesis using m Some True x y by (auto simp: is_largest_def)
    next
      case False
      have "\<not> scalar_gt z x" if "z \<in> set ys" for z
        using scalar_gt_linear(3) [of t z y x] x y k that False by simp
      then show ?thesis using m Some False x y by (auto simp: is_largest_def)
    qed
  qed
qed

lemma column_cells_kind: "x \<in> set (column_cells A column wtype bs) \<Longrightarrow> same_kind wtype x"
  by (auto simp: column_cells_def split: option.splits dest: array_cells_kind)

lemma fold_max_largest:
  "fold_max A column wtype bs m = Ok r \<Longrightarrow> is_largest m xs \<Longrightarrow> \<forall>x \<in> set xs. same_kind wtype x \<Longrightarrow>
     is_largest r (xs @ column_cells A column wtype bs)"
proof (induction bs arbitrary: m xs)
  case Nil
  then show ?case by (simp add: column_cells_def)
next
  case (Cons b bs)
  show ?case
  proof (cases "find (\<lambda>(f, _). fd_name f = column) (rb_columns b)")
    case None
    with Cons show ?thesis by (simp add: column_cells_def)
  next
    case (Some fc)
    obtain f c where fc: "fc = (f, c)" by (cases fc)
    with Some Cons.prems(1) obtain n where n: "array_max A c wtype = Ok n" by (auto split: sum.splits)
    have k: "\<forall>x \<in> set (xs @ array_cells A wtype c). same_kind wtype x"
      using Cons.prems(3) array_cells_kind by auto
    show ?thesis
      using Cons.IH [OF _ is_largest_append [OF Cons.prems(2) array_max_largest [OF n] k] k] Cons.prems(1) Some fc n
      by (simp add: column_cells_def)
  qed
qed

text \<open>
  The watermark of a write is the largest non-null value of the watermark column over all the
  batches that have the column, and there is none exactly when there is no such value.
\<close>

theorem fold_max_watermark_correct:
  assumes "fold_max_watermark A batches column wtype = Ok m"
  shows "is_largest m (column_cells A column wtype batches)"
  using fold_max_largest [of A column wtype batches None m "[]"] assms
  by (simp add: fold_max_watermark_def is_largest_def)

definition w_arrays :: "(int option list) arrays" where
  "w_arrays = \<lparr>ac_is_empty = (\<lambda>c. c = []), ac_timestamps = (\<lambda>_. Err ''no''), ac_ints = (\<lambda>c. Ok c), ac_texts = (\<lambda>_. Err ''no'')\<rparr>"

definition w_batch :: "int option list \<Rightarrow> (int option list) batch" where
  "w_batch c = \<lparr>rb_columns = [(\<lparr>fd_name = ''n'', fd_type = DtInt64, fd_nullable = True\<rparr>, c)], rb_num_rows = length c\<rparr>"

theorem fold_max_watermark_correct_witness:
  "is_largest (Some (ScInt64 9)) (map ScInt64 [2, 9, - 5])"
proof -
  have "fold_max_watermark w_arrays [w_batch [Some 2, None], w_batch [], w_batch [Some 9, Some (- 5)]] ''n'' WmInt64 =
      Ok (Some (ScInt64 9))"
    by (simp add: fold_max_watermark_def w_arrays_def w_batch_def array_max_def)
  from fold_max_watermark_correct [OF this] show ?thesis
    by (simp add: column_cells_def w_batch_def array_cells_def w_arrays_def map_filter_simps)
qed

end
