(* ===== verification/Incremental.thy ===== *)
theory Incremental
  imports Dag Watermark
begin

text \<open>
  \<open>incremental_state.rs\<close> and \<open>incremental_coordinator.rs\<close>: the pre-pass that turns the incremental
  policies of the sinks into filters on the sources, before anything is read.  The store is its
  lookup \<open>load\<close>.  The outer option is \<open>None\<close> for a panic: a policy without watermark, which
  validation excludes, or an overflow while a lookback is read.
\<close>

record incremental_state =
  is_pipeline_id :: string
  is_node_id :: string
  is_environment :: string
  is_watermark_column :: string
  is_watermark_value :: string
  is_watermark_type :: string
  is_last_run_at_ms :: int
  is_last_run_id :: string
  is_rows_processed :: u64
  is_schema_fingerprint :: "string option"

record schema_record =
  sr_pipeline_id :: string
  sr_node_id :: string
  sr_environment :: string
  sr_run_id :: string
  sr_schema_json :: string
  sr_fingerprint :: string
  sr_recorded_at_ms :: int

record read_plan =
  rp_sink :: node_id
  rp_column :: string
  rp_wtype :: watermark_type
  rp_state :: "incremental_state option"
  rp_lookback :: int
  rp_first_run :: first_run

record sink_plan =
  kp_policy :: materialization_policy
  kp_state :: "incremental_state option"
  kp_lookback :: int

record plans =
  pl_sources :: "node_id \<rightharpoonup> read_plan"
  pl_sinks :: "node_id \<rightharpoonup> sink_plan"

definition no_plans :: plans where
  "no_plans = \<lparr>pl_sources = Map.empty, pl_sinks = Map.empty\<rparr>"

datatype coordinator_error =
    ConflictingWatermarkColumn string string string string string
  | ConflictingWatermarkType string string string watermark_type watermark_type
  | NoUpstreamSource string
  | BootstrapRequired string
  | StateError incremental_error
  | WatermarkErr watermark_error

subsection \<open>The sources of a sink\<close>

text \<open>A node without upstream that is a source.\<close>

definition leaf_source :: "pipeline \<Rightarrow> node_id \<Rightarrow> bool" where
  "leaf_source p i = (case node_of p i of None \<Rightarrow> False | Some n \<Rightarrow> is_source (n_kind n))"

lemma open_edges:
  "c \<notin> set visited \<Longrightarrow> length (filter (\<lambda>e. e_to e \<notin> set visited) es) =
     length (filter (\<lambda>e. e_to e \<notin> set (c # visited)) es) + length (filter (\<lambda>e. e_to e = c) es)"
  by (induction es) auto

function upstream_loop :: "pipeline \<Rightarrow> node_id list \<Rightarrow> node_id list \<Rightarrow> node_id list \<Rightarrow> node_id list" where
  "upstream_loop p [] visited srcs = srcs"
| "upstream_loop p (c # q) visited srcs =
     (if c \<in> set visited then upstream_loop p q visited srcs
      else if upstream_of p c = []
      then upstream_loop p q (c # visited) (if leaf_source p c then srcs @ [c] else srcs)
      else upstream_loop p (q @ upstream_of p c) (c # visited) srcs)"
  by pat_completeness auto
termination
proof (relation "measure (\<lambda>(p, q, visited, srcs).
    length (filter (\<lambda>e. e_to e \<notin> set visited) (p_edges p)) + length q)", goal_cases)
  case (3 p c q visited srcs)
  then show ?case using open_edges [of c visited "p_edges p"] by simp
next
  case (4 p c q visited srcs)
  then show ?case using open_edges [of c visited "p_edges p"] by (simp add: upstream_of_def)
qed simp_all

definition collect_upstream_sources :: "pipeline \<Rightarrow> node_id \<Rightarrow> node_id list" where
  "collect_upstream_sources p sink = upstream_loop p [sink] [] []"

subsection \<open>Building the plans\<close>

text \<open>The read plan of one source: a first one is kept, a second one merged into it.\<close>

definition add_read_plan ::
  "node_id \<Rightarrow> read_plan \<Rightarrow> (node_id \<rightharpoonup> read_plan) \<Rightarrow> node_id \<Rightarrow> coordinator_error + (node_id \<rightharpoonup> read_plan)" where
  "add_read_plan sink new m src = (case m src of
      None \<Rightarrow> Ok (m(src \<mapsto> new))
    | Some old \<Rightarrow>
        if rp_column old \<noteq> rp_column new
        then Err (ConflictingWatermarkColumn sink (rp_sink old) src (rp_column old) (rp_column new))
        else if rp_wtype old \<noteq> rp_wtype new
        then Err (ConflictingWatermarkType sink (rp_sink old) src (rp_wtype old) (rp_wtype new))
        else Ok (m(src \<mapsto> old\<lparr>
               rp_state := (case (rp_state old, rp_state new) of
                   (Some a, Some b) \<Rightarrow> Some (if is_watermark_value a \<le> is_watermark_value b then a else b)
                 | _ \<Rightarrow> None),
               rp_lookback := max (rp_lookback old) (rp_lookback new)\<rparr>)))"

fun add_read_plans ::
  "node_id \<Rightarrow> read_plan \<Rightarrow> (node_id \<rightharpoonup> read_plan) \<Rightarrow> node_id list \<Rightarrow> coordinator_error + (node_id \<rightharpoonup> read_plan)" where
  "add_read_plans sink new m [] = Ok m"
| "add_read_plans sink new m (s # ss) = (case add_read_plan sink new m s of
      Inl e \<Rightarrow> Err e | Inr m' \<Rightarrow> add_read_plans sink new m' ss)"

record plan_opts =
  po_pipeline_id :: string
  po_environment :: string
  po_full_refresh :: bool
  po_bootstrap :: bool

text \<open>The policy of an incremental sink.\<close>

definition incremental_policy :: "node \<Rightarrow> materialization_policy option" where
  "incremental_policy n = (case n_kind n of
      Sink c \<Rightarrow> (case snk_materialization c of
          None \<Rightarrow> None | Some p \<Rightarrow> if mp_read_mode p \<noteq> Incremental then None else Some p)
    | _ \<Rightarrow> None)"

definition load_for ::
  "(string \<Rightarrow> string \<Rightarrow> string \<Rightarrow> incremental_error + incremental_state option) option \<Rightarrow> plan_opts \<Rightarrow> node_id \<Rightarrow>
   incremental_error + incremental_state option" where
  "load_for store opts i = (case store of
      None \<Rightarrow> Ok None | Some load \<Rightarrow> load (po_pipeline_id opts) i (po_environment opts))"

definition plan_sink ::
  "pipeline \<Rightarrow> (string \<Rightarrow> string \<Rightarrow> string \<Rightarrow> incremental_error + incremental_state option) option \<Rightarrow> plan_opts \<Rightarrow>
   node_id \<Rightarrow> materialization_policy \<Rightarrow> plans \<Rightarrow> (coordinator_error + plans) option" where
  "plan_sink p store opts i policy plans = (case mp_watermark policy of
      None \<Rightarrow> None
    | Some w \<Rightarrow> (case parse_lookback (mp_lookback policy) of
        None \<Rightarrow> None
      | Some (Inl e) \<Rightarrow> Some (Err (WatermarkErr e))
      | Some (Inr lookback) \<Rightarrow> Some (case load_for store opts i of
          Inl e \<Rightarrow> Err (StateError e)
        | Inr state \<Rightarrow>
            if state = None \<and> \<not> po_full_refresh opts \<and> mp_first_run policy = FrFail \<and> \<not> po_bootstrap opts
            then Err (BootstrapRequired i)
            else
              let plans' = plans\<lparr>pl_sinks := (pl_sinks plans)(i \<mapsto>
                    \<lparr>kp_policy = policy, kp_state = state, kp_lookback = lookback\<rparr>)\<rparr>;
                  srcs = collect_upstream_sources p i
              in if po_full_refresh opts then Ok plans'
                 else if srcs = [] then Err (NoUpstreamSource i)
                 else (case add_read_plans i \<lparr>rp_sink = i, rp_column = wm_column w, rp_wtype = wm_type w,
                       rp_state = state, rp_lookback = lookback, rp_first_run = mp_first_run policy\<rparr>
                       (pl_sources plans') srcs of
                     Inl e \<Rightarrow> Err e | Inr m \<Rightarrow> Ok (plans'\<lparr>pl_sources := m\<rparr>)))))"

fun plan_nodes ::
  "pipeline \<Rightarrow> (string \<Rightarrow> string \<Rightarrow> string \<Rightarrow> incremental_error + incremental_state option) option \<Rightarrow> plan_opts \<Rightarrow>
   node list \<Rightarrow> plans \<Rightarrow> (coordinator_error + plans) option" where
  "plan_nodes p store opts [] plans = Some (Ok plans)"
| "plan_nodes p store opts (n # ns) plans = (case incremental_policy n of
      None \<Rightarrow> plan_nodes p store opts ns plans
    | Some policy \<Rightarrow> (case plan_sink p store opts (n_id n) policy plans of
        Some (Inr plans') \<Rightarrow> plan_nodes p store opts ns plans'
      | r \<Rightarrow> r))"

definition build_plans ::
  "pipeline \<Rightarrow> (string \<Rightarrow> string \<Rightarrow> string \<Rightarrow> incremental_error + incremental_state option) option \<Rightarrow> plan_opts \<Rightarrow>
   (coordinator_error + plans) option" where
  "build_plans p store opts = plan_nodes p store opts (p_nodes p) no_plans"

section \<open>Properties\<close>

subsection \<open>The sources of a sink\<close>

definition upstream_inv :: "pipeline \<Rightarrow> node_id \<Rightarrow> node_id list \<Rightarrow> node_id list \<Rightarrow> node_id list \<Rightarrow> bool" where
  "upstream_inv p sink q vis srcs \<longleftrightarrow>
     (\<forall>x \<in> set q \<union> set vis. (x, sink) \<in> (set (edge_pairs p))\<^sup>*) \<and> sink \<in> set vis \<union> set q \<and>
     (\<forall>x \<in> set vis. set (upstream_of p x) \<subseteq> set vis \<union> set q) \<and>
     set srcs = {x \<in> set vis. upstream_of p x = [] \<and> leaf_source p x} \<and> distinct srcs"

lemma upstream_of_edge: "u \<in> set (upstream_of p c) \<longleftrightarrow> (u, c) \<in> set (edge_pairs p)"
  by (force simp: upstream_of_def edge_pairs_def)

lemma upstream_loop_inv:
  "upstream_inv p sink q vis srcs \<Longrightarrow> \<exists>vis'. upstream_inv p sink [] vis' (upstream_loop p q vis srcs)"
proof (induction p q vis srcs rule: upstream_loop.induct)
  case (1 p vis srcs)
  then show ?case by auto
next
  case (2 p c q vis srcs)
  note inv = 2(4)
  show ?case
  proof (cases "c \<in> set vis")
    case True
    then have "upstream_inv p sink q vis srcs" using inv unfolding upstream_inv_def by auto
    with 2(1) True show ?thesis by simp
  next
    case new: False
    show ?thesis
    proof (cases "upstream_of p c = []")
      case True
      have "upstream_inv p sink q (c # vis) (if leaf_source p c then srcs @ [c] else srcs)"
        using inv new True unfolding upstream_inv_def by auto
      with 2(2) new True show ?thesis by simp
    next
      case False
      have "(u, sink) \<in> (set (edge_pairs p))\<^sup>*" if "u \<in> set (upstream_of p c)" for u
        using that inv unfolding upstream_inv_def upstream_of_edge by (auto intro: converse_rtrancl_into_rtrancl)
      then have "upstream_inv p sink (q @ upstream_of p c) (c # vis) srcs"
        using inv new False unfolding upstream_inv_def by auto
      with 2(3) new False show ?thesis by simp
    qed
  qed
qed

lemma collect_upstream_sources_correct:
  "set (collect_upstream_sources p sink) =
     {s. (s, sink) \<in> (set (edge_pairs p))\<^sup>* \<and> upstream_of p s = [] \<and> leaf_source p s} \<and>
   distinct (collect_upstream_sources p sink)"
proof -
  have "upstream_inv p sink [sink] [] []" by (simp add: upstream_inv_def)
  from upstream_loop_inv [OF this] obtain vis where
    inv: "upstream_inv p sink [] vis (collect_upstream_sources p sink)" by (auto simp: collect_upstream_sources_def)
  have "x \<in> set vis" if "(x, sink) \<in> (set (edge_pairs p))\<^sup>*" for x
    using that
  proof (induction rule: converse_rtrancl_induct)
    case base
    then show ?case using inv by (simp add: upstream_inv_def)
  next
    case (step y z)
    then have "y \<in> set (upstream_of p z)" by (simp add: upstream_of_edge)
    then show ?case using inv step(3) by (auto simp: upstream_inv_def)
  qed
  then show ?thesis using inv unfolding upstream_inv_def by auto
qed

subsection \<open>What the plans promise\<close>

text \<open>A merged plan starts no later, in the order of the stored text, and looks back no less.\<close>

definition below :: "read_plan \<Rightarrow> read_plan \<Rightarrow> bool" where
  "below m own \<longleftrightarrow> rp_column m = rp_column own \<and> rp_wtype m = rp_wtype own \<and> rp_lookback own \<le> rp_lookback m \<and>
     (case rp_state m of None \<Rightarrow> True
      | Some a \<Rightarrow> (case rp_state own of None \<Rightarrow> False | Some b \<Rightarrow> is_watermark_value a \<le> is_watermark_value b))"

lemma below_refl [simp]: "below m m"
  by (simp add: below_def split: option.splits)

lemma below_trans: "below a b \<Longrightarrow> below b c \<Longrightarrow> below a c"
  by (auto simp: below_def split: option.splits)

lemma add_read_plan_merges:
  assumes "add_read_plan sink new m src = Ok m'"
  shows "\<exists>r. m' = m(src \<mapsto> r) \<and> below r new \<and> (\<forall>old. m src = Some old \<longrightarrow> below r old)"
proof (cases "m src")
  case None
  then show ?thesis using assms by (auto simp: add_read_plan_def)
next
  case (Some old)
  let ?r = "old\<lparr>rp_state := (case (rp_state old, rp_state new) of
      (Some a, Some b) \<Rightarrow> Some (if is_watermark_value a \<le> is_watermark_value b then a else b) | _ \<Rightarrow> None),
    rp_lookback := max (rp_lookback old) (rp_lookback new)\<rparr>"
  have eq: "rp_column old = rp_column new" "rp_wtype old = rp_wtype new"
    using assms Some unfolding add_read_plan_def by (simp_all split: if_splits)
  then have m': "m' = m(src \<mapsto> ?r)"
    using assms Some unfolding add_read_plan_def by simp
  have "below ?r new \<and> below ?r old"
  proof (cases "rp_state old")
    case None
    then show ?thesis using eq unfolding below_def by simp
  next
    case a: (Some a)
    show ?thesis
    proof (cases "rp_state new")
      case None
      then show ?thesis using eq a unfolding below_def by simp
    next
      case (Some b)
      have "is_watermark_value a \<le> is_watermark_value b \<or> is_watermark_value b \<le> is_watermark_value a" by (rule linear)
      then show ?thesis using eq a Some unfolding below_def by auto
    qed
  qed
  then show ?thesis using Some m' by (intro exI [of _ ?r]) simp
qed

lemma add_read_plan_below:
  "add_read_plan sink new m src = Ok m' \<Longrightarrow>
     (\<exists>r. m' src = Some r \<and> below r new) \<and> (\<forall>s r. m s = Some r \<longrightarrow> (\<exists>r'. m' s = Some r' \<and> below r' r))"
  by (drule add_read_plan_merges) (metis below_refl fun_upd_other fun_upd_same)

lemma add_read_plans_below:
  "add_read_plans sink new m srcs = Ok m' \<Longrightarrow>
     (\<forall>s \<in> set srcs. \<exists>r. m' s = Some r \<and> below r new) \<and>
     (\<forall>s r. m s = Some r \<longrightarrow> (\<exists>r'. m' s = Some r' \<and> below r' r))"
proof (induction srcs arbitrary: m)
  case Nil
  then show ?case by (auto intro: exI)
next
  case (Cons s ss)
  then obtain m1 where m1: "add_read_plan sink new m s = Ok m1" and rest: "add_read_plans sink new m1 ss = Ok m'"
    by (auto split: sum.splits)
  note a = add_read_plan_below [OF m1] and b = Cons.IH [OF rest]
  have "\<exists>r'. m' t = Some r' \<and> below r' r" if "m t = Some r" for t r
    using a b that by (meson below_trans)
  moreover have "\<exists>r. m' s = Some r \<and> below r new" using a b by (meson below_trans)
  ultimately show ?case using b by simp
qed

text \<open>The plan a sink makes for itself.\<close>

definition own_plan :: "node_id \<Rightarrow> materialization_policy \<Rightarrow> incremental_state option \<Rightarrow> int \<Rightarrow> watermark \<Rightarrow> read_plan" where
  "own_plan i policy state lookback w = \<lparr>rp_sink = i, rp_column = wm_column w, rp_wtype = wm_type w,
     rp_state = state, rp_lookback = lookback, rp_first_run = mp_first_run policy\<rparr>"

definition sink_covered :: "pipeline \<Rightarrow> plan_opts \<Rightarrow> plans \<Rightarrow> node_id \<Rightarrow> sink_plan \<Rightarrow> bool" where
  "sink_covered p opts plans i k \<longleftrightarrow> (\<exists>w. mp_watermark (kp_policy k) = Some w \<and>
     (\<not> po_full_refresh opts \<longrightarrow> collect_upstream_sources p i \<noteq> [] \<and>
       (\<forall>s \<in> set (collect_upstream_sources p i). \<exists>r. pl_sources plans s = Some r \<and>
          below r (own_plan i (kp_policy k) (kp_state k) (kp_lookback k) w))))"

lemma plan_sink_covers:
  assumes "plan_sink p store opts i policy plans = Some (Ok plans')"
  shows "\<exists>k. pl_sinks plans' = (pl_sinks plans)(i \<mapsto> k) \<and> kp_policy k = policy \<and>
      load_for store opts i = Ok (kp_state k) \<and> parse_lookback (mp_lookback policy) = Some (Ok (kp_lookback k)) \<and>
      sink_covered p opts plans' i k \<and>
      (\<forall>s r. pl_sources plans s = Some r \<longrightarrow> (\<exists>r'. pl_sources plans' s = Some r' \<and> below r' r))"
proof -
  obtain w lookback state where
    w: "mp_watermark policy = Some w" "parse_lookback (mp_lookback policy) = Some (Ok lookback)"
    "load_for store opts i = Ok state"
    using assms by (auto simp: plan_sink_def split: option.splits sum.splits)
  let ?k = "\<lparr>kp_policy = policy, kp_state = state, kp_lookback = lookback\<rparr>"
  let ?mid = "plans\<lparr>pl_sinks := (pl_sinks plans)(i \<mapsto> ?k)\<rparr>"
  show ?thesis
  proof (cases "po_full_refresh opts")
    case True
    then have "plans' = ?mid" using assms w by (auto simp: plan_sink_def Let_def split: if_splits)
    then show ?thesis using w True by (auto simp: sink_covered_def intro!: exI [of _ ?k])
  next
    case False
    then obtain m where m: "add_read_plans i (own_plan i policy state lookback w) (pl_sources plans) (collect_upstream_sources p i) = Ok m"
      and p': "plans' = ?mid\<lparr>pl_sources := m\<rparr>" and ne: "collect_upstream_sources p i \<noteq> []"
      using assms w by (auto simp: plan_sink_def Let_def own_plan_def split: if_splits sum.splits)
    from add_read_plans_below [OF m] show ?thesis
      using w False p' ne by (auto simp: sink_covered_def intro!: exI [of _ ?k])
  qed
qed

lemma sink_covered_mono:
  assumes "sink_covered p opts plans i k" "\<forall>s r. pl_sources plans s = Some r \<longrightarrow> (\<exists>r'. pl_sources plans' s = Some r' \<and> below r' r)"
  shows "sink_covered p opts plans' i k"
  using assms unfolding sink_covered_def by (meson below_trans)

text \<open>What the plans hold for the nodes planned so far.\<close>

definition node_planned ::
  "pipeline \<Rightarrow> (string \<Rightarrow> string \<Rightarrow> string \<Rightarrow> incremental_error + incremental_state option) option \<Rightarrow> plan_opts \<Rightarrow>
   plans \<Rightarrow> node \<Rightarrow> bool" where
  "node_planned p store opts plans n \<longleftrightarrow> (case incremental_policy n of
      None \<Rightarrow> True
    | Some policy \<Rightarrow> \<exists>k. pl_sinks plans (n_id n) = Some k \<and> kp_policy k = policy \<and>
        load_for store opts (n_id n) = Ok (kp_state k) \<and> parse_lookback (mp_lookback policy) = Some (Ok (kp_lookback k)) \<and>
        sink_covered p opts plans (n_id n) k)"

lemma plan_nodes_planned:
  "plan_nodes p store opts ns plans = Some (Ok plans') \<Longrightarrow> distinct (map n_id (ds @ ns)) \<Longrightarrow>
   \<forall>n \<in> set ds. node_planned p store opts plans n \<Longrightarrow> \<forall>n \<in> set (ds @ ns). node_planned p store opts plans' n"
proof (induction ns arbitrary: plans ds)
  case Nil
  then show ?case by simp
next
  case (Cons n ns)
  show ?case
  proof (cases "incremental_policy n")
    case None
    then have "node_planned p store opts plans n" by (simp add: node_planned_def)
    then have "\<forall>m \<in> set ((ds @ [n]) @ ns). node_planned p store opts plans' m"
      using Cons.prems None by (intro Cons.IH) auto
    then show ?thesis by simp
  next
    case (Some policy)
    with Cons.prems(1) obtain plans1 where
      p1: "plan_sink p store opts (n_id n) policy plans = Some (Ok plans1)" and rest: "plan_nodes p store opts ns plans1 = Some (Ok plans')"
      by (auto split: option.splits sum.splits)
    from plan_sink_covers [OF p1] obtain k where
      k: "pl_sinks plans1 = (pl_sinks plans)(n_id n \<mapsto> k)" "kp_policy k = policy" "load_for store opts (n_id n) = Ok (kp_state k)"
        "parse_lookback (mp_lookback policy) = Some (Ok (kp_lookback k))" "sink_covered p opts plans1 (n_id n) k"
      and mono: "\<forall>s r. pl_sources plans s = Some r \<longrightarrow> (\<exists>r'. pl_sources plans1 s = Some r' \<and> below r' r)" by blast
    have "node_planned p store opts plans1 m" if "m \<in> set ds" for m
    proof -
      have "n_id m \<in> n_id ` set ds" using that by simp
      then have "n_id m \<noteq> n_id n" using Cons.prems(2) by auto
      moreover have "node_planned p store opts plans m" using Cons.prems(3) that by simp
      ultimately show ?thesis using k(1) sink_covered_mono [OF _ mono]
        by (fastforce simp: node_planned_def split: option.splits)
    qed
    moreover have "node_planned p store opts plans1 n" using k Some by (simp add: node_planned_def)
    ultimately have "\<forall>m \<in> set ((ds @ [n]) @ ns). node_planned p store opts plans' m"
      using Cons.prems(2) rest by (intro Cons.IH) auto
    then show ?thesis by simp
  qed
qed

text \<open>A read under a plan: \<open>None\<close> is a failure before any row is read.\<close>

definition read_bound :: "time_text \<Rightarrow> read_plan \<Rightarrow> scalar option option" where
  "read_bound T r = (case rp_state r of
      None \<Rightarrow> Some None
    | Some st \<Rightarrow> (case stored_to_scalar T (rp_sink r) (rp_wtype r) (is_watermark_value st) (rp_lookback r) of
        Some (Inr s) \<Rightarrow> Some (Some s) | _ \<Rightarrow> None))"

fun passes :: "scalar option \<Rightarrow> scalar \<Rightarrow> bool" where
  "passes None x = True"
| "passes (Some s) x = scalar_gt x s"

text \<open>Two stored values that compare as text the way they do as values.\<close>

definition text_order :: "time_text \<Rightarrow> watermark_type \<Rightarrow> string \<Rightarrow> string \<Rightarrow> bool" where
  "text_order T wtype a b \<longleftrightarrow> (case wtype of
      WmString \<Rightarrow> True
    | WmInt64 \<Rightarrow> a \<le> b \<longrightarrow> (case (parse_i64 a, parse_i64 b) of (Some m, Some n) \<Rightarrow> m \<le> n | _ \<Rightarrow> True)
    | WmTimestamp \<Rightarrow> a \<le> b \<longrightarrow> (case (tt_parse T a, tt_parse T b) of (Inr m, Inr n) \<Rightarrow> m \<le> n | _ \<Rightarrow> True))"

lemma stored_to_scalar_mono:
  assumes "a \<le> b" "text_order T wtype a b" "lb \<le> la"
    "stored_to_scalar T i wtype a la = Some (Ok s)" "stored_to_scalar T j wtype b lb = Some (Ok t)" "scalar_gt x t"
  shows "scalar_gt x s"
proof (cases wtype)
  case WmTimestamp
  obtain m where m: "tt_parse T a = Ok m" "s = ScTimestamp (m - la * ns_per_sec)"
    using assms(4) WmTimestamp by (auto simp: stored_to_scalar_def time_add_def delta_seconds_Some split: sum.splits option.splits if_splits)
  obtain n where n: "tt_parse T b = Ok n" "t = ScTimestamp (n - lb * ns_per_sec)"
    using assms(5) WmTimestamp by (auto simp: stored_to_scalar_def time_add_def delta_seconds_Some split: sum.splits option.splits if_splits)
  have "m \<le> n" using assms(1,2) WmTimestamp m n by (simp add: text_order_def)
  moreover have "lb * ns_per_sec \<le> la * ns_per_sec" using assms(3) by (simp add: ns_per_sec_def)
  ultimately show ?thesis using assms(6) m n by (cases x) simp_all
next
  case WmInt64
  then show ?thesis using assms by (cases x) (auto simp: stored_to_scalar_def text_order_def split: option.splits)
next
  case WmString
  then show ?thesis using assms by (cases x) (auto simp: stored_to_scalar_def)
qed

lemma below_passes:
  assumes "below r own" "read_bound T r = Some l" "read_bound T own = Some l0" "passes l0 x"
    "\<And>a b. rp_state r = Some a \<Longrightarrow> rp_state own = Some b \<Longrightarrow>
      text_order T (rp_wtype own) (is_watermark_value a) (is_watermark_value b)"
  shows "passes l x"
proof (cases "rp_state r")
  case None
  then show ?thesis using assms(2) by (simp add: read_bound_def)
next
  case (Some a)
  with assms(1) obtain b where b: "rp_state own = Some b" "is_watermark_value a \<le> is_watermark_value b"
    "rp_wtype r = rp_wtype own" "rp_lookback own \<le> rp_lookback r"
    by (auto simp: below_def split: option.splits)
  obtain s t where "l = Some s" "l0 = Some t"
    "stored_to_scalar T (rp_sink r) (rp_wtype own) (is_watermark_value a) (rp_lookback r) = Some (Ok s)"
    "stored_to_scalar T (rp_sink own) (rp_wtype own) (is_watermark_value b) (rp_lookback own) = Some (Ok t)"
    using assms(2,3) Some b by (auto simp: read_bound_def split: option.splits sum.splits)
  then show ?thesis
    using stored_to_scalar_mono [OF b(2) assms(5) [OF Some b(1)] b(4)] assms(4) by simp
qed

text \<open>
  C29: every source that feeds an incremental sink gets a filter that lets through every row the
  sink's own stored watermark asks for, whatever other sinks share the source, provided the stored
  watermarks compare as text the way they do as values.
\<close>

theorem build_plans_cover:
  assumes "build_plans p store opts = Some (Ok plans)" "distinct (node_ids p)" "n \<in> set (p_nodes p)"
    "incremental_policy n = Some policy" "mp_watermark policy = Some w" "\<not> po_full_refresh opts"
    "(s, n_id n) \<in> (set (edge_pairs p))\<^sup>*" "upstream_of p s = []" "leaf_source p s"
  shows "\<exists>k r. pl_sinks plans (n_id n) = Some k \<and> load_for store opts (n_id n) = Ok (kp_state k) \<and> pl_sources plans s = Some r \<and>
    rp_column r = wm_column w \<and> rp_wtype r = wm_type w \<and>
    (\<forall>T l l0 x. read_bound T r = Some l \<and> read_bound T (own_plan (n_id n) policy (kp_state k) (kp_lookback k) w) = Some l0 \<and>
      (\<forall>a b. rp_state r = Some a \<and> kp_state k = Some b \<longrightarrow>
        text_order T (wm_type w) (is_watermark_value a) (is_watermark_value b)) \<longrightarrow>
      passes l0 x \<longrightarrow> passes l x)"
proof -
  have "\<forall>m \<in> set ([] @ p_nodes p). node_planned p store opts plans m"
    by (rule plan_nodes_planned [of _ _ _ _ no_plans]) (use assms(1,2) in \<open>simp_all add: build_plans_def\<close>)
  then have "node_planned p store opts plans n" using assms(3) by simp
  then obtain k where k: "pl_sinks plans (n_id n) = Some k" "kp_policy k = policy"
    "load_for store opts (n_id n) = Ok (kp_state k)" "sink_covered p opts plans (n_id n) k"
    using assms(4) by (auto simp: node_planned_def)
  have "s \<in> set (collect_upstream_sources p (n_id n))"
    using assms(7-9) by (simp add: collect_upstream_sources_correct)
  then obtain r where r: "pl_sources plans s = Some r" "below r (own_plan (n_id n) policy (kp_state k) (kp_lookback k) w)"
    using k(2,4) assms(5,6) by (auto simp: sink_covered_def)
  let ?own = "own_plan (n_id n) policy (kp_state k) (kp_lookback k) w"
  have own: "rp_column (own_plan (n_id n) policy st (kp_lookback k) w) = wm_column w"
    "rp_wtype (own_plan (n_id n) policy st (kp_lookback k) w) = wm_type w"
    "rp_state (own_plan (n_id n) policy st (kp_lookback k) w) = st" for st
    by (simp_all add: own_plan_def)
  have passed: "passes l x" if "read_bound T r = Some l \<and> read_bound T ?own = Some l0 \<and>
      (\<forall>a b. rp_state r = Some a \<and> kp_state k = Some b \<longrightarrow>
        text_order T (wm_type w) (is_watermark_value a) (is_watermark_value b))" "passes l0 x" for T l l0 x
    by (rule below_passes [OF r(2), of T l l0]) (use that in \<open>auto simp: own\<close>)
  have "rp_column r = wm_column w" "rp_wtype r = wm_type w" using r(2) own by (simp_all add: below_def)
  then show ?thesis using k(1,3) r(1) passed by (intro exI [of _ k] exI [of _ r]) blast
qed

subsection \<open>Samples\<close>

definition w_policy :: "materialization_policy" where
  "w_policy = default_policy\<lparr>mp_read_mode := Incremental,
     mp_watermark := Some \<lparr>wm_column = ''n'', wm_type = WmInt64\<rparr>\<rparr>"

definition w_incremental_sink :: "node_id \<Rightarrow> node" where
  "w_incremental_sink i = plain_node i (Sink \<lparr>snk_connector = ''postgres'', snk_config = JNull,
     snk_materialization = Some w_policy\<rparr>)"

definition w_shared_source :: pipeline where
  "w_shared_source = plain_pipeline ''p'' [source_node ''s'', w_incremental_sink ''a'', w_incremental_sink ''b'']
     [Edge ''s'' ''a'', Edge ''s'' ''b'']"

definition w_state :: "node_id \<Rightarrow> string \<Rightarrow> incremental_state" where
  "w_state i v = \<lparr>is_pipeline_id = ''p'', is_node_id = i, is_environment = ''dev'', is_watermark_column = ''n'',
     is_watermark_value = v, is_watermark_type = ''int64'', is_last_run_at_ms = 0, is_last_run_id = ''r'',
     is_rows_processed = 0, is_schema_fingerprint = None\<rparr>"

definition w_load :: "string \<Rightarrow> string \<Rightarrow> string \<Rightarrow> string \<Rightarrow> string \<Rightarrow> incremental_error + incremental_state option" where
  "w_load va vb = (\<lambda>_ i _. Ok (if i = ''a'' then Some (w_state ''a'' va) else Some (w_state ''b'' vb)))"

definition w_opts :: plan_opts where
  "w_opts = \<lparr>po_pipeline_id = ''p'', po_environment = ''dev'', po_full_refresh = False, po_bootstrap = False\<rparr>"

lemma w_build:
  "\<exists>plans. build_plans w_shared_source (Some (w_load va vb)) w_opts = Some (Ok plans) \<and>
     map_option rp_state (pl_sources plans ''s'') = Some (Some (if va \<le> vb then w_state ''a'' va else w_state ''b'' vb))"
  by (simp add: build_plans_def w_shared_source_def w_incremental_sink_def sample_defs incremental_policy_def w_policy_def
      default_policy_def default_lookback_def plan_sink_def parse_lookback_def lookback_unit_def parse_i64_def parse_digits_def
      is_digit_def digit_val_def checked_def i64_min_def i64_max_def load_for_def w_opts_def w_load_def
      collect_upstream_sources_def upstream_of_def leaf_source_def node_of_def add_read_plan_def no_plans_def w_state_def Let_def)

theorem build_plans_cover_witness:
  "\<exists>plans r. build_plans w_shared_source (Some (w_load ''12'' ''57'')) w_opts = Some (Ok plans) \<and>
     pl_sources plans ''s'' = Some r \<and> rp_column r = ''n''"
proof -
  obtain plans where p: "build_plans w_shared_source (Some (w_load ''12'' ''57'')) w_opts = Some (Ok plans)"
    using w_build by blast
  have "distinct (node_ids w_shared_source)" "w_incremental_sink ''a'' \<in> set (p_nodes w_shared_source)"
    "incremental_policy (w_incremental_sink ''a'') = Some w_policy"
    "mp_watermark w_policy = Some \<lparr>wm_column = ''n'', wm_type = WmInt64\<rparr>" "\<not> po_full_refresh w_opts"
    "(''s'', n_id (w_incremental_sink ''a'')) \<in> (set (edge_pairs w_shared_source))\<^sup>*"
    "upstream_of w_shared_source ''s'' = []" "leaf_source w_shared_source ''s''"
    by (auto simp: w_shared_source_def w_incremental_sink_def sample_defs incremental_policy_def w_policy_def default_policy_def
        w_opts_def edge_pairs_def upstream_of_def leaf_source_def node_of_def)
  from build_plans_cover [OF p this] p show ?thesis by auto
qed

text \<open>
  Decimal text does not compare as its number does: of the watermarks 9 and 10 the merged plan
  keeps 10, and the row 10, which the first sink has not seen, is filtered out for both.
\<close>

theorem int_watermarks_lose_rows:
  "\<exists>plans r. build_plans w_shared_source (Some (w_load ''9'' ''10'')) w_opts = Some (Ok plans) \<and>
     pl_sources plans ''s'' = Some r \<and> read_bound T r = Some (Some (ScInt64 10)) \<and>
     map_option (\<lambda>k. read_bound T (own_plan ''a'' (kp_policy k) (kp_state k) 0 \<lparr>wm_column = ''n'', wm_type = WmInt64\<rparr>))
       (pl_sinks plans ''a'') = Some (Some (Some (ScInt64 9))) \<and>
     passes (Some (ScInt64 9)) (ScInt64 10) \<and> \<not> passes (Some (ScInt64 10)) (ScInt64 10)"
  by (simp add: build_plans_def w_shared_source_def w_incremental_sink_def sample_defs incremental_policy_def w_policy_def
      default_policy_def default_lookback_def plan_sink_def parse_lookback_def lookback_unit_def parse_i64_def parse_digits_def
      is_digit_def digit_val_def checked_def i64_min_def i64_max_def load_for_def w_opts_def w_load_def
      collect_upstream_sources_def upstream_of_def leaf_source_def node_of_def add_read_plan_def no_plans_def w_state_def Let_def
      read_bound_def own_plan_def stored_to_scalar_def)

end
