(* ===== verification/Run_Model.thy ===== *)
theory Run_Model
  imports Incremental Column_Lineage Sla
begin

text \<open>
  \<open>run.rs\<close>, \<open>stats.rs\<close>, \<open>provider.rs\<close> and \<open>failure_report.rs\<close>: runs, the statistics of their nodes,
  the receipts of sinks, test summaries and failure reports.  A run id is the text of its uuid.
  Times of the wall clock are nanoseconds since the epoch, durations are nanoseconds.
\<close>

type_synonym run_id = string

datatype run_status = RsPending | RsRunning | RsSuccess | RsFailed | RsCancelled

fun run_status_str :: "run_status \<Rightarrow> string" where
  "run_status_str RsPending = ''pending''"
| "run_status_str RsRunning = ''running''"
| "run_status_str RsSuccess = ''success''"
| "run_status_str RsFailed = ''failed''"
| "run_status_str RsCancelled = ''cancelled''"

definition parse_run_status :: "string \<Rightarrow> run_status option" where
  "parse_run_status s =
     (if s = ''pending'' then Some RsPending else if s = ''running'' then Some RsRunning
      else if s = ''success'' then Some RsSuccess else if s = ''failed'' then Some RsFailed
      else if s = ''cancelled'' then Some RsCancelled else None)"

lemma parse_run_status_str [simp]: "parse_run_status (run_status_str s) = Some s"
  by (cases s) (simp_all add: parse_run_status_def)

subsection \<open>Receipts\<close>

record watermark_value =
  wv_value :: string
  wv_type :: string

record write_stats =
  ws_rows_written :: u64
  ws_bytes_written :: u64
  ws_duration :: int

record mat_context =
  mc_read_mode :: read_mode
  mc_write_strategy :: write_strategy
  mc_unique_keys :: "string list"
  mc_partition_column :: "string option"
  mc_watermark_column :: "string option"
  mc_apply_schema_changes :: bool

record receipt =
  rc_write_strategy :: write_strategy
  rc_read_mode :: read_mode
  rc_rows_scanned :: u64
  rc_rows_filtered :: u64
  rc_rows_written :: u64
  rc_rows_inserted :: u64
  rc_rows_updated :: u64
  rc_rows_deleted :: u64
  rc_watermark_before :: "watermark_value option"
  rc_watermark_after :: "watermark_value option"
  rc_schema_diff :: "schema_diff option"
  rc_duration :: int

definition default_context :: mat_context where
  "default_context = \<lparr>mc_read_mode = Full, mc_write_strategy = Append, mc_unique_keys = [],
     mc_partition_column = None, mc_watermark_column = None, mc_apply_schema_changes = False\<rparr>"

definition context_from_policy :: "materialization_policy option \<Rightarrow> mat_context" where
  "context_from_policy policy = (case policy of
      None \<Rightarrow> default_context
    | Some p \<Rightarrow> \<lparr>mc_read_mode = mp_read_mode p, mc_write_strategy = mp_write_strategy p,
        mc_unique_keys = (case mp_unique_keys p of None \<Rightarrow> [] | Some ks \<Rightarrow> ks),
        mc_partition_column = mp_partition_column p,
        mc_watermark_column = map_option wm_column (mp_watermark p), mc_apply_schema_changes = False\<rparr>)"

definition from_write_stats :: "write_stats \<Rightarrow> mat_context \<Rightarrow> receipt" where
  "from_write_stats st ctx = \<lparr>rc_write_strategy = mc_write_strategy ctx, rc_read_mode = mc_read_mode ctx,
     rc_rows_scanned = ws_rows_written st, rc_rows_filtered = 0, rc_rows_written = ws_rows_written st,
     rc_rows_inserted = (case mc_write_strategy ctx of Append \<Rightarrow> ws_rows_written st | _ \<Rightarrow> 0),
     rc_rows_updated = 0, rc_rows_deleted = 0, rc_watermark_before = None, rc_watermark_after = None,
     rc_schema_diff = None, rc_duration = ws_duration st\<rparr>"

definition from_write_stats_default :: "write_stats \<Rightarrow> receipt" where
  "from_write_stats_default st = from_write_stats st default_context"

subsection \<open>Runs\<close>

record node_run_stats =
  nr_node_id :: node_id
  nr_start_time :: int
  nr_end_time :: int
  nr_rows_in :: u64
  nr_rows_out :: u64
  nr_error :: "string option"
  nr_receipt :: "receipt option"

text \<open>\<open>duration_since(..).unwrap_or_default().as_millis() as u64\<close>.\<close>

definition elapsed_ms :: "int \<Rightarrow> int \<Rightarrow> u64" where
  "elapsed_ms start end_time = word_of_int (max 0 (end_time - start) div 1000000)"

definition node_duration_ms :: "node_run_stats \<Rightarrow> u64" where
  "node_duration_ms st = elapsed_ms (nr_start_time st) (nr_end_time st)"

record assertion_summary =
  as_name :: string
  as_passed :: bool
  as_violation_count :: u64
  as_violating_rows :: "json list"
  as_message :: "string option"

record test_summary =
  tsm_node_id :: node_id
  tsm_passed :: bool
  tsm_severity :: test_severity
  tsm_assertions :: "assertion_summary list"

record pipeline_run =
  pr_id :: run_id
  pr_pipeline_name :: string
  pr_environment :: string
  pr_status :: run_status
  pr_start_time :: "int option"
  pr_end_time :: "int option"
  pr_node_stats :: "node_run_stats list"
  pr_error :: "string option"
  pr_test_results :: "test_summary list"
  pr_triggered_by :: "string option"

definition new_run :: "run_id \<Rightarrow> string \<Rightarrow> string \<Rightarrow> pipeline_run" where
  "new_run i pname env = \<lparr>pr_id = i, pr_pipeline_name = pname, pr_environment = env, pr_status = RsPending,
     pr_start_time = None, pr_end_time = None, pr_node_stats = [], pr_error = None, pr_test_results = [],
     pr_triggered_by = None\<rparr>"

definition run_duration_ms :: "pipeline_run \<Rightarrow> u64 option" where
  "run_duration_ms r = (case (pr_start_time r, pr_end_time r) of
      (Some s, Some e) \<Rightarrow> Some (elapsed_ms s e) | _ \<Rightarrow> None)"

subsection \<open>Failure reports\<close>

record report_field =
  rf_name :: string
  rf_data_type :: string
  rf_nullable :: bool

record input_schema =
  ins_node_id :: string
  ins_fields :: "report_field list"

record plugin_diagnostics =
  pdi_plugin_name :: "string option"
  pdi_exit_code :: "int option"
  pdi_stderr_tail :: "string option"
  pdi_last_messages :: "string list"

record failure_report =
  fr_run_id :: string
  fr_node_id :: string
  fr_pipeline_name :: string
  fr_environment :: string
  fr_error_chain :: "string list"
  fr_node_config :: "json option"
  fr_input_schemas :: "input_schema list"
  fr_input_sample :: "json list"
  fr_input_total_rows :: u64
  fr_executed_sql :: "string option"
  fr_plugin_diagnostics :: "plugin_diagnostics option"
  fr_source_query :: "string option"
  fr_captured_at_ms :: int

definition DEFAULT_SAMPLE_ROW_LIMIT :: nat where "DEFAULT_SAMPLE_ROW_LIMIT = 25"
definition MAX_SAMPLE_ROW_LIMIT :: nat where "MAX_SAMPLE_ROW_LIMIT = 500"

definition schema_to_fields :: "(data_type \<Rightarrow> string) \<Rightarrow> schema \<Rightarrow> report_field list" where
  "schema_to_fields other s = map (\<lambda>f. \<lparr>rf_name = fd_name f, rf_data_type = show_type other (fd_type f),
     rf_nullable = fd_nullable f\<rparr>) s"

definition extract_input_schemas ::
  "(data_type \<Rightarrow> string) \<Rightarrow> (node_id \<times> 'c batch list) list \<Rightarrow> input_schema list" where
  "extract_input_schemas other upstream = concat (map (\<lambda>(i, bs). case bs of
      [] \<Rightarrow> []
    | b # _ \<Rightarrow> [\<lparr>ins_node_id = i, ins_fields = schema_to_fields other (batch_schema b)\<rparr>]) upstream)"

text \<open>\<open>rows n b\<close> are the JSON rows of the first \<open>n\<close> rows of a batch, as Arrow writes them.\<close>

fun sample_loop :: "(nat \<Rightarrow> 'c batch \<Rightarrow> json list) \<Rightarrow> nat \<Rightarrow> 'c batch list \<Rightarrow> json list" where
  "sample_loop rows remaining [] = []"
| "sample_loop rows remaining (b # bs) =
     (if remaining = 0 then []
      else let n = min (rb_num_rows b) remaining
           in (if n > 0 then rows n b else []) @ sample_loop rows (remaining - n) bs)"

definition sample_input_rows ::
  "(nat \<Rightarrow> 'c batch \<Rightarrow> json list) \<Rightarrow> (node_id \<times> 'c batch list) list \<Rightarrow> nat \<Rightarrow> json list \<times> u64" where
  "sample_input_rows rows upstream limit =
     (let bs = concat (map snd upstream)
      in (sample_loop rows (min limit MAX_SAMPLE_ROW_LIMIT) bs, of_nat (sum_list (map rb_num_rows bs))))"

record reproduce_context =
  rx_pipeline_name :: string
  rx_environment :: string
  rx_run_id :: string
  rx_node_id :: string
  rx_captured_at_ms :: int

record reproduce_bundle =
  rbd_version :: u32
  rbd_instructions :: "string list"
  rbd_context :: reproduce_context
  rbd_node_config :: "json option"
  rbd_input_schemas :: "input_schema list"
  rbd_input_sample :: "json list"
  rbd_input_total_rows :: u64
  rbd_executed_sql :: "string option"
  rbd_source_query :: "string option"
  rbd_error_chain :: "string list"

definition reproduce_from_report :: "failure_report \<Rightarrow> reproduce_bundle" where
  "reproduce_from_report r = \<lparr>rbd_version = 1,
     rbd_instructions =
       [''This bundle captures the failure of node '' @ [CHR 0x27] @ fr_node_id r @ [CHR 0x27] @ '' in pipeline '' @ [CHR 0x27] @
          fr_pipeline_name r @ [CHR 0x27] @ '' (environment: '' @ [CHR 0x27] @ fr_environment r @ [CHR 0x27] @ '').'',
        ''Run ID: '' @ fr_run_id r,
        ''The '' @ [CHR 0x27] @ ''input_sample'' @ [CHR 0x27] @ '' field contains the rows the node was processing when it failed.''] @
       (if fr_executed_sql r \<noteq> None
        then [''The '' @ [CHR 0x27] @ ''executed_sql'' @ [CHR 0x27] @ '' field contains the fully resolved SQL after variable interpolation.'']
        else []) @
       (if fr_source_query r \<noteq> None
        then [''The '' @ [CHR 0x27] @ ''source_query'' @ [CHR 0x27] @ '' field contains the generated upstream query with pushdowns applied.'']
        else []) @
       [''To reproduce: create a pipeline with a CSV source pointing at the sample data and apply the same transform.''],
     rbd_context = \<lparr>rx_pipeline_name = fr_pipeline_name r, rx_environment = fr_environment r, rx_run_id = fr_run_id r,
       rx_node_id = fr_node_id r, rx_captured_at_ms = fr_captured_at_ms r\<rparr>,
     rbd_node_config = fr_node_config r, rbd_input_schemas = fr_input_schemas r, rbd_input_sample = fr_input_sample r,
     rbd_input_total_rows = fr_input_total_rows r, rbd_executed_sql = fr_executed_sql r,
     rbd_source_query = fr_source_query r, rbd_error_chain = fr_error_chain r\<rparr>"

section \<open>Properties\<close>

text \<open>A sample has at most as many rows as asked for, whatever the batches are.\<close>

lemma sample_loop_bound:
  "(\<And>n b. length (rows n b) \<le> n) \<Longrightarrow> length (sample_loop rows remaining bs) \<le> remaining"
proof (induction rows remaining bs rule: sample_loop.induct)
  case (2 rows remaining b bs)
  let ?n = "min (rb_num_rows b) remaining"
  show ?case
  proof (cases "remaining = 0")
    case False
    have "length (rows ?n b) \<le> ?n" by (rule 2(2))
    moreover have "length (sample_loop rows (remaining - ?n) bs) \<le> remaining - ?n"
      using 2(1) [OF False refl] 2(2) by blast
    ultimately show ?thesis using False by (auto simp: Let_def)
  qed simp
qed simp

end
