(* ===== verification/Run_Store.thy ===== *)
theory Run_Store
  imports Run_Model "HOL-Library.Option_ord"
begin

text \<open>
  \<open>run_store.rs\<close>: the SQLite store of runs, node statistics, failure reports, incremental state,
  schema history, resource bindings, lineage observations, column lineage and SLA evaluations.  A
  table is the list of its rows in insertion order; values that are stored as JSON text keep their
  type (what \<open>serde_json\<close> writes it reads back).  Keys, checks and the foreign key of node
  statistics are enforced; errors of the disk are not modelled.
\<close>

datatype run_store_error = RsConstraint | RsNotFound run_id | RsInvalidStatus string | RsOutOfRange

subsection \<open>Times\<close>

definition as_i64 :: "int \<Rightarrow> int" where
  "as_i64 i = sint (word_of_int i :: u64)"

definition system_time_to_ms :: "int \<Rightarrow> int" where
  "system_time_to_ms t = as_i64 (max t 0 div 1000000)"

definition ms_to_system_time :: "int \<Rightarrow> int" where
  "ms_to_system_time ms = uint (word_of_int ms :: u64) * 1000000"

subsection \<open>The tables\<close>

record run_row =
  rr_id :: run_id
  rr_pipeline_name :: string
  rr_environment :: string
  rr_status :: string
  rr_start_ms :: "int option"
  rr_end_ms :: "int option"
  rr_error :: "string option"
  rr_test_results :: "test_summary list option"
  rr_triggered_by :: "string option"

record stats_row =
  sw_run_id :: run_id
  sw_node_id :: node_id
  sw_start_ms :: int
  sw_end_ms :: int
  sw_rows_in :: int
  sw_rows_out :: int
  sw_error :: "string option"
  sw_receipt :: "receipt option"

record stored_binding =
  sbd_pipeline_id :: string
  sbd_node_id :: string
  sbd_direction :: binding_direction
  sbd_fingerprint :: fingerprint
  sbd_environment :: string
  sbd_updated_at_ms :: int

record observation =
  ob_pipeline_id :: string
  ob_node_id :: string
  ob_run_id :: string
  ob_direction :: binding_direction
  ob_fingerprint :: fingerprint
  ob_environment :: string
  ob_observed_at_ms :: int

record stored_column_edge =
  sce_id :: "int option"
  sce_pipeline_id :: string
  sce_environment :: string
  sce_edge :: column_edge
  sce_derived_at :: string
  sce_source_run_id :: "string option"

record column_edge_row =
  cw_id :: int
  cw_pipeline_id :: string
  cw_environment :: string
  cw_down_node :: string
  cw_down_column :: string
  cw_down_external :: bool
  cw_down_resource :: "fingerprint option"
  cw_up_node :: "string option"
  cw_up_column :: string
  cw_up_external :: bool
  cw_up_resource :: "fingerprint option"
  cw_relationship :: string
  cw_expression :: "string option"
  cw_confidence :: string
  cw_derived_at :: string
  cw_source_run_id :: "string option"

record sla_evaluation =
  se_fingerprint :: string
  se_evaluated_at :: string
  se_status :: sla_status
  se_age :: "string option"
  se_max_age :: string
  se_warn_at :: "string option"
  se_producer :: "string option"
  se_last_success_at :: "string option"

text \<open>\<open>rd_next_edge\<close> is the counter behind \<open>AUTOINCREMENT\<close>.\<close>

record run_db =
  rd_runs :: "run_row list"
  rd_stats :: "stats_row list"
  rd_reports :: "failure_report list"
  rd_states :: "incremental_state list"
  rd_schemas :: "schema_record list"
  rd_bindings :: "stored_binding list"
  rd_observations :: "observation list"
  rd_column_edges :: "column_edge_row list"
  rd_next_edge :: int
  rd_evaluations :: "sla_evaluation list"

definition run_init_schema :: run_db where
  "run_init_schema = \<lparr>rd_runs = [], rd_stats = [], rd_reports = [], rd_states = [], rd_schemas = [], rd_bindings = [],
     rd_observations = [], rd_column_edges = [], rd_next_edge = 1, rd_evaluations = []\<rparr>"

text \<open>\<open>INSERT OR REPLACE\<close>: the rows with the new row's key are deleted first.  An upsert changes the
  row in place.\<close>

definition insert_or_replace :: "('a \<Rightarrow> 'k) \<Rightarrow> 'a \<Rightarrow> 'a list \<Rightarrow> 'a list" where
  "insert_or_replace key r rows = filter (\<lambda>x. key x \<noteq> key r) rows @ [r]"

definition insert_or_ignore :: "('a \<Rightarrow> 'k) \<Rightarrow> 'a \<Rightarrow> 'a list \<Rightarrow> 'a list" where
  "insert_or_ignore key r rows = (if key r \<in> key ` set rows then rows else rows @ [r])"

definition upsert :: "('a \<Rightarrow> 'k) \<Rightarrow> 'a \<Rightarrow> 'a list \<Rightarrow> 'a list" where
  "upsert key r rows = (if key r \<in> key ` set rows then map (\<lambda>x. if key x = key r then r else x) rows else rows @ [r])"

definition run_ids :: "run_db \<Rightarrow> run_id list" where
  "run_ids db = map rr_id (rd_runs db)"

definition stats_key :: "stats_row \<Rightarrow> run_id \<times> node_id" where
  "stats_key s = (sw_run_id s, sw_node_id s)"

subsection \<open>Runs\<close>

definition stats_to_row :: "run_id \<Rightarrow> node_run_stats \<Rightarrow> stats_row" where
  "stats_to_row i st = \<lparr>sw_run_id = i, sw_node_id = nr_node_id st, sw_start_ms = system_time_to_ms (nr_start_time st),
     sw_end_ms = system_time_to_ms (nr_end_time st), sw_rows_in = sint (nr_rows_in st),
     sw_rows_out = sint (nr_rows_out st), sw_error = nr_error st, sw_receipt = nr_receipt st\<rparr>"

definition row_to_stats :: "stats_row \<Rightarrow> node_run_stats" where
  "row_to_stats r = \<lparr>nr_node_id = sw_node_id r, nr_start_time = ms_to_system_time (sw_start_ms r),
     nr_end_time = ms_to_system_time (sw_end_ms r), nr_rows_in = word_of_int (sw_rows_in r),
     nr_rows_out = word_of_int (sw_rows_out r), nr_error = sw_error r, nr_receipt = sw_receipt r\<rparr>"

definition row_to_pipeline_run :: "run_row \<Rightarrow> run_store_error + pipeline_run" where
  "row_to_pipeline_run r = (case parse_run_status (rr_status r) of
      None \<Rightarrow> Err (RsInvalidStatus (rr_status r))
    | Some st \<Rightarrow> Ok \<lparr>pr_id = rr_id r, pr_pipeline_name = rr_pipeline_name r, pr_environment = rr_environment r,
        pr_status = st, pr_start_time = map_option ms_to_system_time (rr_start_ms r),
        pr_end_time = map_option ms_to_system_time (rr_end_ms r), pr_node_stats = [], pr_error = rr_error r,
        pr_test_results = (case rr_test_results r of None \<Rightarrow> [] | Some ts \<Rightarrow> ts),
        pr_triggered_by = rr_triggered_by r\<rparr>)"

definition load_node_stats :: "run_db \<Rightarrow> run_id \<Rightarrow> node_run_stats list" where
  "load_node_stats db i = map row_to_stats (sort_key sw_start_ms (filter (\<lambda>s. sw_run_id s = i) (rd_stats db)))"

text \<open>The new run has the id the caller's \<open>uuid\<close> draws.\<close>

definition create_run :: "run_id \<Rightarrow> string \<Rightarrow> string \<Rightarrow> run_db \<Rightarrow> (run_store_error + pipeline_run) \<times> run_db" where
  "create_run i pname env db =
     (if i \<in> set (run_ids db) then (Err RsConstraint, db)
      else (Ok (new_run i pname env), db\<lparr>rd_runs := rd_runs db @ [\<lparr>rr_id = i, rr_pipeline_name = pname,
        rr_environment = env, rr_status = run_status_str RsPending, rr_start_ms = None, rr_end_ms = None,
        rr_error = None, rr_test_results = None, rr_triggered_by = None\<rparr>]\<rparr>))"

definition update_run :: "run_id \<Rightarrow> (run_row \<Rightarrow> run_row) \<Rightarrow> run_db \<Rightarrow> run_db" where
  "update_run i f db = db\<lparr>rd_runs := map (\<lambda>r. if rr_id r = i then f r else r) (rd_runs db)\<rparr>"

definition set_running :: "run_id \<Rightarrow> int \<Rightarrow> string option \<Rightarrow> run_db \<Rightarrow> (run_store_error + unit) \<times> run_db" where
  "set_running i start by db =
     (if i \<notin> set (run_ids db) then (Err (RsNotFound i), db)
      else (Ok (), update_run i (\<lambda>r. r\<lparr>rr_status := run_status_str RsRunning, rr_start_ms := Some (system_time_to_ms start),
        rr_triggered_by := by\<rparr>) db))"

definition finish_run ::
  "run_id \<Rightarrow> run_status \<Rightarrow> int \<Rightarrow> string option \<Rightarrow> run_db \<Rightarrow> (run_store_error + unit) \<times> run_db" where
  "finish_run i status end_time err db =
     (if i \<notin> set (run_ids db) then (Err (RsNotFound i), db)
      else (Ok (), update_run i (\<lambda>r. r\<lparr>rr_status := run_status_str status, rr_end_ms := Some (system_time_to_ms end_time),
        rr_error := err\<rparr>) db))"

definition save_test_results :: "run_id \<Rightarrow> test_summary list \<Rightarrow> run_db \<Rightarrow> (run_store_error + unit) \<times> run_db" where
  "save_test_results i ts db = (Ok (), update_run i (\<lambda>r. r\<lparr>rr_test_results := Some ts\<rparr>) db)"

definition save_node_stats :: "run_id \<Rightarrow> node_run_stats \<Rightarrow> run_db \<Rightarrow> (run_store_error + unit) \<times> run_db" where
  "save_node_stats i st db =
     (if i \<notin> set (run_ids db) then (Err RsConstraint, db)
      else (Ok (), db\<lparr>rd_stats := insert_or_replace stats_key (stats_to_row i st) (rd_stats db)\<rparr>))"

definition load_run :: "run_db \<Rightarrow> run_row \<Rightarrow> run_store_error + pipeline_run" where
  "load_run db r = (case row_to_pipeline_run r of
      Inl e \<Rightarrow> Err e
    | Inr run \<Rightarrow> Ok (run\<lparr>pr_node_stats := load_node_stats db (pr_id run)\<rparr>))"

definition get_run :: "run_db \<Rightarrow> run_id \<Rightarrow> run_store_error + pipeline_run option" where
  "get_run db i = (case find (\<lambda>r. rr_id r = i) (rd_runs db) of
      None \<Rightarrow> Ok None
    | Some r \<Rightarrow> (case load_run db r of Inl e \<Rightarrow> Err e | Inr run \<Rightarrow> Ok (Some run)))"

text \<open>A missing start time sorts below every other.\<close>

definition runs_of :: "run_db \<Rightarrow> string option \<Rightarrow> run_row list" where
  "runs_of db name = filter (\<lambda>r. case name of None \<Rightarrow> True | Some n \<Rightarrow> rr_pipeline_name r = n) (rd_runs db)"

definition list_runs :: "run_db \<Rightarrow> string option \<Rightarrow> nat \<Rightarrow> nat \<Rightarrow> run_store_error + pipeline_run list" where
  "list_runs db name limit offset =
     try_map (load_run db) (take limit (drop offset (sort_desc rr_start_ms (runs_of db name))))"

definition count_runs :: "run_db \<Rightarrow> string option \<Rightarrow> run_store_error + u32" where
  "count_runs db name =
     (let n = length (runs_of db name) in if n < 2 ^ 32 then Ok (of_nat n) else Err RsOutOfRange)"

definition list_runs_since :: "run_db \<Rightarrow> int \<Rightarrow> nat \<Rightarrow> run_store_error + pipeline_run list" where
  "list_runs_since db since limit =
     (let since_ms = system_time_to_ms since
      in try_map row_to_pipeline_run (take limit (sort_desc rr_start_ms (filter (\<lambda>r. case rr_start_ms r of
           Some ms \<Rightarrow> ms \<ge> since_ms
         | None \<Rightarrow> rr_status r \<in> {''pending'', ''running''}) (rd_runs db)))))"

text \<open>The statistics are inserted one by one, also when the run itself was already there.\<close>

definition import_run :: "pipeline_run \<Rightarrow> run_db \<Rightarrow> run_db" where
  "import_run run db =
     (let db1 = db\<lparr>rd_runs := insert_or_ignore rr_id
            \<lparr>rr_id = pr_id run, rr_pipeline_name = pr_pipeline_name run, rr_environment = pr_environment run,
             rr_status = run_status_str (pr_status run), rr_start_ms = map_option system_time_to_ms (pr_start_time run),
             rr_end_ms = map_option system_time_to_ms (pr_end_time run), rr_error = pr_error run,
             rr_test_results = (if pr_test_results run = [] then None else Some (pr_test_results run)),
             rr_triggered_by = pr_triggered_by run\<rparr> (rd_runs db)\<rparr>
      in db1\<lparr>rd_stats := fold (\<lambda>st. insert_or_ignore stats_key (stats_to_row (pr_id run) st))
           (pr_node_stats run) (rd_stats db1)\<rparr>)"

subsection \<open>Failure reports\<close>

definition save_failure_report :: "failure_report \<Rightarrow> run_db \<Rightarrow> (run_store_error + unit) \<times> run_db" where
  "save_failure_report r db =
     (Ok (), db\<lparr>rd_reports := insert_or_replace (\<lambda>x. (fr_run_id x, fr_node_id x)) r (rd_reports db)\<rparr>)"

definition get_failure_report :: "run_db \<Rightarrow> run_id \<Rightarrow> node_id \<Rightarrow> failure_report option" where
  "get_failure_report db i n = find (\<lambda>r. fr_run_id r = i \<and> fr_node_id r = n) (rd_reports db)"

subsection \<open>Incremental state\<close>

definition state_key :: "incremental_state \<Rightarrow> string \<times> string \<times> string" where
  "state_key s = (is_pipeline_id s, is_node_id s, is_environment s)"

definition schema_key :: "schema_record \<Rightarrow> string \<times> string \<times> string \<times> string" where
  "schema_key r = (sr_pipeline_id r, sr_node_id r, sr_environment r, sr_run_id r)"

definition load_state :: "run_db \<Rightarrow> string \<Rightarrow> string \<Rightarrow> string \<Rightarrow> incremental_error + incremental_state option" where
  "load_state db pid i env = Ok (find (\<lambda>s. state_key s = (pid, i, env)) (rd_states db))"

definition state_type_ok :: "incremental_state \<Rightarrow> bool" where
  "state_type_ok s \<longleftrightarrow> is_watermark_type s \<in> {''timestamp'', ''int64'', ''string''}"

definition save_state :: "incremental_state \<Rightarrow> run_db \<Rightarrow> (incremental_error + unit) \<times> run_db" where
  "save_state s db =
     (if \<not> state_type_ok s then (Err (IeSqlite ''CHECK constraint failed''), db)
      else (Ok (), db\<lparr>rd_states := upsert state_key s (rd_states db)\<rparr>))"

definition reset_state :: "string \<Rightarrow> string \<Rightarrow> string \<Rightarrow> run_db \<Rightarrow> bool \<times> run_db" where
  "reset_state pid i env db =
     ((pid, i, env) \<in> state_key ` set (rd_states db),
      db\<lparr>rd_states := filter (\<lambda>s. state_key s \<noteq> (pid, i, env)) (rd_states db)\<rparr>)"

definition list_states :: "run_db \<Rightarrow> string option \<Rightarrow> incremental_state list" where
  "list_states db env = (case env of
      Some e \<Rightarrow> sort_key (\<lambda>s. (is_pipeline_id s, is_node_id s)) (filter (\<lambda>s. is_environment s = e) (rd_states db))
    | None \<Rightarrow> sort_key (\<lambda>s. (is_environment s, is_pipeline_id s, is_node_id s)) (rd_states db))"

definition record_schema :: "schema_record \<Rightarrow> run_db \<Rightarrow> (incremental_error + unit) \<times> run_db" where
  "record_schema r db = (Ok (), db\<lparr>rd_schemas := upsert schema_key r (rd_schemas db)\<rparr>)"

definition latest_schema :: "run_db \<Rightarrow> string \<Rightarrow> string \<Rightarrow> string \<Rightarrow> incremental_error + schema_record option" where
  "latest_schema db pid i env = Ok (case sort_desc sr_recorded_at_ms
      (filter (\<lambda>r. (sr_pipeline_id r, sr_node_id r, sr_environment r) = (pid, i, env)) (rd_schemas db)) of
        [] \<Rightarrow> None | r # _ \<Rightarrow> Some r)"

text \<open>\<open>OR IGNORE\<close> also skips a row that fails the check of its watermark type.\<close>

definition import_state :: "incremental_state \<Rightarrow> run_db \<Rightarrow> run_db" where
  "import_state s db = (if \<not> state_type_ok s then db else db\<lparr>rd_states := insert_or_ignore state_key s (rd_states db)\<rparr>)"

definition import_schema_record :: "schema_record \<Rightarrow> run_db \<Rightarrow> run_db" where
  "import_schema_record r db = db\<lparr>rd_schemas := insert_or_ignore schema_key r (rd_schemas db)\<rparr>"

subsection \<open>Bindings and observations\<close>

definition binding_key :: "stored_binding \<Rightarrow> string \<times> string \<times> string" where
  "binding_key b = (sbd_pipeline_id b, sbd_node_id b, sbd_environment b)"

fun insert_bindings :: "stored_binding list \<Rightarrow> stored_binding list \<Rightarrow> (run_store_error + unit) \<times> stored_binding list" where
  "insert_bindings [] rows = (Ok (), rows)"
| "insert_bindings (b # bs) rows =
     (if binding_key b \<in> binding_key ` set rows then (Err RsConstraint, rows) else insert_bindings bs (rows @ [b]))"

text \<open>The old bindings are deleted first; nothing is undone when an insertion fails.\<close>

definition save_bindings :: "string \<Rightarrow> string \<Rightarrow> stored_binding list \<Rightarrow> run_db \<Rightarrow> (run_store_error + unit) \<times> run_db" where
  "save_bindings pid env bs db =
     (case insert_bindings bs (filter (\<lambda>b. \<not> (sbd_pipeline_id b = pid \<and> sbd_environment b = env)) (rd_bindings db)) of
        (r, rows) \<Rightarrow> (r, db\<lparr>rd_bindings := rows\<rparr>))"

definition load_bindings :: "run_db \<Rightarrow> string \<Rightarrow> string \<Rightarrow> stored_binding list" where
  "load_bindings db pid env =
     sort_key sbd_node_id (filter (\<lambda>b. sbd_pipeline_id b = pid \<and> sbd_environment b = env) (rd_bindings db))"

definition all_bindings :: "run_db \<Rightarrow> string \<Rightarrow> stored_binding list" where
  "all_bindings db env =
     sort_key (\<lambda>b. (sbd_pipeline_id b, sbd_node_id b)) (filter (\<lambda>b. sbd_environment b = env) (rd_bindings db))"

definition delete_bindings :: "string \<Rightarrow> run_db \<Rightarrow> run_db" where
  "delete_bindings pid db = db\<lparr>rd_bindings := filter (\<lambda>b. sbd_pipeline_id b \<noteq> pid) (rd_bindings db)\<rparr>"

definition record_observation :: "observation \<Rightarrow> run_db \<Rightarrow> (run_store_error + unit) \<times> run_db" where
  "record_observation ob db =
     (Ok (), db\<lparr>rd_observations := insert_or_replace (\<lambda>x. (ob_run_id x, ob_node_id x)) ob (rd_observations db)\<rparr>)"

definition query_observations :: "run_db \<Rightarrow> string \<Rightarrow> int \<Rightarrow> observation list" where
  "query_observations db env since_ms =
     sort_desc ob_observed_at_ms (filter (\<lambda>x. ob_environment x = env \<and> ob_observed_at_ms x \<ge> since_ms) (rd_observations db))"

definition enforce_retention :: "int \<Rightarrow> run_db \<Rightarrow> u64 \<times> run_db" where
  "enforce_retention older_than db =
     (of_nat (length (filter (\<lambda>x. ob_observed_at_ms x < older_than) (rd_observations db))),
      db\<lparr>rd_observations := filter (\<lambda>x. \<not> ob_observed_at_ms x < older_than) (rd_observations db)\<rparr>)"

subsection \<open>Column lineage\<close>

definition parse_relationship_kind :: "string \<Rightarrow> relationship_kind" where
  "parse_relationship_kind s =
     (if s = ''direct'' then Direct else if s = ''derived'' then Derived else if s = ''cast'' then Cast
      else if s = ''filter'' then Filter else if s = ''join_key'' then JoinKey
      else if s = ''join_passthrough'' then JoinPassthrough else if s = ''group_by'' then GroupBy
      else if s = ''aggregate_input'' then AggregateInput else if s = ''window_partition'' then WindowPartition
      else if s = ''window_order'' then WindowOrder else if s = ''window_input'' then WindowInput else OpaqueRel)"

definition parse_confidence :: "string \<Rightarrow> confidence" where
  "parse_confidence s =
     (if s = ''exact'' then Exact else if s = ''lazyframe'' then LazyFrame
      else if s = ''annotation'' then Annotation else OpaqueConf)"

definition edge_to_row :: "int \<Rightarrow> stored_column_edge \<Rightarrow> column_edge_row" where
  "edge_to_row i e = (let ce = sce_edge e in
     \<lparr>cw_id = i, cw_pipeline_id = sce_pipeline_id e, cw_environment = sce_environment e,
      cw_down_node = (case ce_down_node ce of None \<Rightarrow> [] | Some n \<Rightarrow> n), cw_down_column = ce_down_column ce,
      cw_down_external = (ce_down_resource ce \<noteq> None), cw_down_resource = ce_down_resource ce,
      cw_up_node = ce_up_node ce, cw_up_column = ce_up_column ce,
      cw_up_external = (ce_up_resource ce \<noteq> None), cw_up_resource = ce_up_resource ce,
      cw_relationship = relationship_str (ce_relationship ce), cw_expression = ce_expression ce,
      cw_confidence = confidence_str (ce_confidence ce), cw_derived_at = sce_derived_at e,
      cw_source_run_id = sce_source_run_id e\<rparr>)"

definition row_to_stored_column_edge :: "column_edge_row \<Rightarrow> stored_column_edge" where
  "row_to_stored_column_edge r = \<lparr>sce_id = Some (cw_id r), sce_pipeline_id = cw_pipeline_id r,
     sce_environment = cw_environment r,
     sce_edge = \<lparr>ce_up_column = cw_up_column r,
       ce_up_node = (case cw_up_node r of None \<Rightarrow> None | Some n \<Rightarrow> if n = [] then None else Some n),
       ce_up_resource = (if cw_up_external r then cw_up_resource r else None),
       ce_down_column = cw_down_column r,
       ce_down_node = (if cw_down_node r = [] then None else Some (cw_down_node r)),
       ce_down_resource = (if cw_down_external r then cw_down_resource r else None),
       ce_relationship = parse_relationship_kind (cw_relationship r), ce_expression = cw_expression r,
       ce_confidence = parse_confidence (cw_confidence r)\<rparr>,
     sce_derived_at = cw_derived_at r, sce_source_run_id = cw_source_run_id r\<rparr>"

definition numbered_rows :: "int \<Rightarrow> stored_column_edge list \<Rightarrow> column_edge_row list" where
  "numbered_rows next es = map (\<lambda>(n, e). edge_to_row (next + int n) e) (enumerate 0 es)"

text \<open>The edges of every downstream node of the batch are deleted before the batch is inserted.\<close>

definition save_column_edges :: "string \<Rightarrow> string \<Rightarrow> stored_column_edge list \<Rightarrow> run_db \<Rightarrow> (run_store_error + unit) \<times> run_db" where
  "save_column_edges pid env es db =
     (Ok (), db\<lparr>rd_column_edges := filter (\<lambda>r. \<not> (cw_pipeline_id r = pid \<and> cw_environment r = env \<and>
            Some (cw_down_node r) \<in> (\<lambda>e. ce_down_node (sce_edge e)) ` set es)) (rd_column_edges db) @
          numbered_rows (rd_next_edge db) es,
        rd_next_edge := rd_next_edge db + int (length es)\<rparr>)"

definition load_column_edges :: "run_db \<Rightarrow> string \<Rightarrow> string \<Rightarrow> stored_column_edge list" where
  "load_column_edges db pid env = map row_to_stored_column_edge (sort_key (\<lambda>r. (cw_down_node r, cw_down_column r))
     (filter (\<lambda>r. cw_pipeline_id r = pid \<and> cw_environment r = env) (rd_column_edges db)))"

definition load_column_edges_for_node :: "run_db \<Rightarrow> string \<Rightarrow> string \<Rightarrow> node_id \<Rightarrow> stored_column_edge list" where
  "load_column_edges_for_node db pid env n = map row_to_stored_column_edge (sort_key cw_down_column
     (filter (\<lambda>r. cw_pipeline_id r = pid \<and> cw_environment r = env \<and> cw_down_node r = n) (rd_column_edges db)))"

definition all_column_edges :: "run_db \<Rightarrow> string \<Rightarrow> stored_column_edge list" where
  "all_column_edges db env = map row_to_stored_column_edge
     (sort_key (\<lambda>r. (cw_pipeline_id r, cw_down_node r, cw_down_column r))
       (filter (\<lambda>r. cw_environment r = env) (rd_column_edges db)))"

definition delete_column_edges :: "string \<Rightarrow> run_db \<Rightarrow> run_db" where
  "delete_column_edges pid db = db\<lparr>rd_column_edges := filter (\<lambda>r. cw_pipeline_id r \<noteq> pid) (rd_column_edges db)\<rparr>"

definition enforce_column_lineage_retention :: "string \<Rightarrow> run_db \<Rightarrow> u64 \<times> run_db" where
  "enforce_column_lineage_retention older_than db =
     (of_nat (length (filter (\<lambda>r. cw_derived_at r < older_than) (rd_column_edges db))),
      db\<lparr>rd_column_edges := filter (\<lambda>r. \<not> cw_derived_at r < older_than) (rd_column_edges db)\<rparr>)"

subsection \<open>SLA evaluations\<close>

definition sla_key :: "sla_evaluation \<Rightarrow> string \<times> string" where
  "sla_key e = (se_fingerprint e, se_evaluated_at e)"

definition save_evaluations :: "sla_evaluation list \<Rightarrow> run_db \<Rightarrow> run_db" where
  "save_evaluations es db = db\<lparr>rd_evaluations := fold (insert_or_replace sla_key) es (rd_evaluations db)\<rparr>"

definition evaluations_of :: "run_db \<Rightarrow> string \<Rightarrow> sla_evaluation list" where
  "evaluations_of db fp = filter (\<lambda>e. se_fingerprint e = fp) (rd_evaluations db)"

definition latest_evaluations :: "run_db \<Rightarrow> sla_evaluation list" where
  "latest_evaluations db = sort_key se_fingerprint (filter (\<lambda>e1.
     se_evaluated_at e1 = Max (set (map se_evaluated_at (evaluations_of db (se_fingerprint e1))))) (rd_evaluations db))"

definition evaluation_history :: "run_db \<Rightarrow> string \<Rightarrow> nat \<Rightarrow> sla_evaluation list" where
  "evaluation_history db fp limit = take limit (sort_desc se_evaluated_at (evaluations_of db fp))"

definition latest_evaluation :: "run_db \<Rightarrow> string \<Rightarrow> sla_evaluation option" where
  "latest_evaluation db fp = (case evaluation_history db fp 1 of [] \<Rightarrow> None | e # _ \<Rightarrow> Some e)"

section \<open>Properties\<close>

lemma words_roundtrip [simp]: "word_of_int (sint (w :: u64)) = w"
  by simp

lemma ms_roundtrip:
  assumes "0 \<le> t" "t div 1000000 < 2 ^ 63"
  shows "ms_to_system_time (system_time_to_ms t) = t - t mod 1000000"
proof -
  have d: "0 \<le> t div 1000000" using assms(1) by (simp add: pos_imp_zdiv_nonneg_iff)
  have "as_i64 (t div 1000000) = t div 1000000"
    unfolding as_i64_def using d assms(2) by (simp add: Word.sint_sbintrunc' signed_take_bit_int_eq_self)
  moreover have "uint (word_of_int (t div 1000000) :: u64) = t div 1000000"
    using d assms(2) by (simp add: uint_word_of_int take_bit_int_eq_self)
  ultimately have "ms_to_system_time (system_time_to_ms t) = t div 1000000 * 1000000"
    using assms(1) by (simp add: ms_to_system_time_def system_time_to_ms_def)
  also have "\<dots> = t - t mod 1000000" by (simp add: minus_mod_eq_div_mult)
  finally show ?thesis .
qed

subsection \<open>Keys\<close>

lemma keys_insert_or_replace:
  "distinct (map key rows) \<Longrightarrow> distinct (map key (insert_or_replace key r rows))"
  by (induction rows) (auto simp: insert_or_replace_def)

lemma keys_insert_or_ignore:
  "distinct (map key rows) \<Longrightarrow> distinct (map key (insert_or_ignore key r rows))"
  by (auto simp: insert_or_ignore_def)

lemma map_key_upsert: "key r \<in> key ` set rows \<Longrightarrow> map key (upsert key r rows) = map key rows"
  by (auto simp: upsert_def)

lemma keys_upsert: "distinct (map key rows) \<Longrightarrow> distinct (map key (upsert key r rows))"
  by (cases "key r \<in> key ` set rows") (simp_all add: map_key_upsert, simp add: upsert_def)

lemma keys_filter: "distinct (map key rows) \<Longrightarrow> distinct (map key (filter P rows))"
  by (rule distinct_map_filter)

lemma set_insert_or_replace: "set (insert_or_replace key r rows) = insert r {x \<in> set rows. key x \<noteq> key r}"
  by (auto simp: insert_or_replace_def)

lemma set_insert_or_ignore: "set (insert_or_ignore key r rows) \<subseteq> insert r (set rows)"
  by (auto simp: insert_or_ignore_def)

lemma set_upsert: "set (upsert key r rows) \<subseteq> insert r (set rows)"
  by (auto simp: upsert_def)

lemma find_replaced:
  "find (\<lambda>x. key x = k) (map (\<lambda>x. if key x = key r then r else x) rows) =
     (if k = key r then (if key r \<in> key ` set rows then Some r else None) else find (\<lambda>x. key x = k) rows)"
  by (induction rows) auto

lemma find_upsert:
  "find (\<lambda>x. key x = k) (upsert key r rows) = (if k = key r then Some r else find (\<lambda>x. key x = k) rows)"
proof (cases "key r \<in> key ` set rows")
  case True
  then show ?thesis unfolding upsert_def by (simp add: find_replaced)
next
  case False
  moreover from this have "find (\<lambda>x. key x = key r) rows = None" by (simp add: find_key_None)
  ultimately show ?thesis unfolding upsert_def by (simp add: find_snoc split: option.splits)
qed

lemmas keys_simps = keys_insert_or_replace keys_insert_or_ignore keys_upsert keys_filter

subsection \<open>The invariant of the store\<close>

definition status_ok :: "run_row \<Rightarrow> bool" where
  "status_ok r \<longleftrightarrow> parse_run_status (rr_status r) \<noteq> None"

definition runs_ok :: "run_db \<Rightarrow> bool" where
  "runs_ok db \<longleftrightarrow> distinct (run_ids db) \<and> list_all status_ok (rd_runs db) \<and>
     distinct (map stats_key (rd_stats db)) \<and> sw_run_id ` set (rd_stats db) \<subseteq> set (run_ids db)"

definition records_ok :: "run_db \<Rightarrow> bool" where
  "records_ok db \<longleftrightarrow>
     distinct (map (\<lambda>r. (fr_run_id r, fr_node_id r)) (rd_reports db)) \<and>
     distinct (map state_key (rd_states db)) \<and> list_all state_type_ok (rd_states db) \<and>
     distinct (map schema_key (rd_schemas db)) \<and>
     distinct (map binding_key (rd_bindings db)) \<and>
     distinct (map (\<lambda>x. (ob_run_id x, ob_node_id x)) (rd_observations db)) \<and>
     distinct (map cw_id (rd_column_edges db)) \<and> (\<forall>r \<in> set (rd_column_edges db). cw_id r < rd_next_edge db) \<and>
     distinct (map sla_key (rd_evaluations db))"

definition run_db_ok :: "run_db \<Rightarrow> bool" where
  "run_db_ok db \<longleftrightarrow> runs_ok db \<and> records_ok db"

text \<open>Every operation that writes, as a step of the database.\<close>

inductive run_step :: "run_db \<Rightarrow> run_db \<Rightarrow> bool" where
  "run_step db (snd (create_run i pname env db))"
| "run_step db (snd (set_running i start by db))"
| "run_step db (snd (finish_run i status end_time err db))"
| "run_step db (snd (save_test_results i ts db))"
| "run_step db (snd (save_node_stats i st db))"
| "run_step db (import_run run db)"
| "run_step db (snd (save_failure_report rep db))"
| "run_step db (snd (save_state s db))"
| "run_step db (snd (reset_state pid i env db))"
| "run_step db (snd (record_schema r db))"
| "run_step db (import_state s db)"
| "run_step db (import_schema_record r db)"
| "run_step db (snd (save_bindings pid env bs db))"
| "run_step db (delete_bindings pid db)"
| "run_step db (snd (record_observation ob db))"
| "run_step db (snd (enforce_retention older_ms db))"
| "run_step db (snd (save_column_edges pid env es db))"
| "run_step db (delete_column_edges pid db)"
| "run_step db (snd (enforce_column_lineage_retention older db))"
| "run_step db (save_evaluations evs db)"

inductive run_reachable :: "run_db \<Rightarrow> bool" where
  "run_reachable run_init_schema"
| "run_reachable db \<Longrightarrow> run_step db db' \<Longrightarrow> run_reachable db'"

lemma status_ok_str [simp]: "rr_status r = run_status_str s \<Longrightarrow> status_ok r"
  by (simp add: status_ok_def)

lemma records_ok_runs [simp]:
  "records_ok (db\<lparr>rd_runs := rs\<rparr>) = records_ok db" "records_ok (db\<lparr>rd_stats := ss\<rparr>) = records_ok db"
  by (simp_all add: records_ok_def)

lemma runs_ok_same: "rd_runs db' = rd_runs db \<Longrightarrow> rd_stats db' = rd_stats db \<Longrightarrow> runs_ok db' = runs_ok db"
  by (simp add: runs_ok_def run_ids_def)

lemma run_ids_update [simp]: "(\<And>r. rr_id (f r) = rr_id r) \<Longrightarrow> run_ids (update_run i f db) = run_ids db"
  by (simp add: run_ids_def update_run_def comp_def if_distrib cong: if_cong)

lemma runs_ok_update:
  assumes "runs_ok db" "\<And>r. rr_id (f r) = rr_id r" "\<And>r. status_ok r \<Longrightarrow> status_ok (f r)"
  shows "runs_ok (update_run i f db)"
proof -
  have "rd_stats (update_run i f db) = rd_stats db" by (simp add: update_run_def)
  moreover have "list_all status_ok (rd_runs (update_run i f db))"
    using assms(1,3) by (auto simp: runs_ok_def update_run_def list_all_iff)
  ultimately show ?thesis using assms(1,2) by (simp add: runs_ok_def)
qed

lemma records_ok_update [simp]: "records_ok (update_run i f db) = records_ok db"
  by (simp add: update_run_def)

lemma run_db_ok_create: "run_db_ok db \<Longrightarrow> run_db_ok (snd (create_run i pname env db))"
  by (auto simp: run_db_ok_def create_run_def runs_ok_def run_ids_def status_ok_def parse_run_status_def)

lemma run_db_ok_running: "run_db_ok db \<Longrightarrow> run_db_ok (snd (set_running i start by db))"
  by (auto simp: run_db_ok_def set_running_def status_ok_def parse_run_status_def intro!: runs_ok_update)

lemma run_db_ok_finish: "run_db_ok db \<Longrightarrow> run_db_ok (snd (finish_run i status end_time err db))"
  by (auto simp: run_db_ok_def finish_run_def status_ok_def intro!: runs_ok_update)

lemma run_db_ok_tests: "run_db_ok db \<Longrightarrow> run_db_ok (snd (save_test_results i ts db))"
  by (auto simp: run_db_ok_def save_test_results_def status_ok_def intro!: runs_ok_update)

lemma run_db_ok_stats: "run_db_ok db \<Longrightarrow> run_db_ok (snd (save_node_stats i st db))"
  by (auto simp: run_db_ok_def save_node_stats_def runs_ok_def run_ids_def keys_simps set_insert_or_replace stats_to_row_def)

lemma fold_ignore_keys:
  "distinct (map key rows) \<Longrightarrow> distinct (map key (fold (\<lambda>x. insert_or_ignore key (f x)) xs rows)) \<and>
     set (fold (\<lambda>x. insert_or_ignore key (f x)) xs rows) \<subseteq> f ` set xs \<union> set rows"
proof (induction xs arbitrary: rows)
  case (Cons x xs)
  then show ?case using Cons.IH [OF keys_insert_or_ignore [OF Cons.prems, of "f x"]] set_insert_or_ignore [of key "f x" rows]
    by auto
qed simp

lemma run_ids_import: "run_ids (import_run run db) = (if pr_id run \<in> set (run_ids db) then run_ids db else run_ids db @ [pr_id run])"
  by (auto simp: import_run_def run_ids_def insert_or_ignore_def Let_def)

lemma run_db_ok_import:
  assumes "run_db_ok db"
  shows "run_db_ok (import_run run db)"
proof -
  note f = fold_ignore_keys [of stats_key "rd_stats db" "stats_to_row (pr_id run)" "pr_node_stats run"]
  have st: "rd_stats (import_run run db) = fold (\<lambda>x. insert_or_ignore stats_key (stats_to_row (pr_id run) x)) (pr_node_stats run) (rd_stats db)"
    by (simp add: import_run_def Let_def)
  have "list_all status_ok (rd_runs (import_run run db))"
    using assms by (auto simp: import_run_def Let_def insert_or_ignore_def run_db_ok_def runs_ok_def)
  moreover have "sw_run_id ` set (rd_stats (import_run run db)) \<subseteq> set (run_ids (import_run run db))"
    using assms f unfolding st run_ids_import run_db_ok_def runs_ok_def by (fastforce simp: stats_to_row_def)
  moreover have "distinct (map stats_key (rd_stats (import_run run db)))" "distinct (run_ids (import_run run db))"
    using assms f unfolding st by (simp_all add: run_db_ok_def runs_ok_def run_ids_import)
  moreover have "records_ok (import_run run db)" using assms by (simp add: run_db_ok_def import_run_def Let_def)
  ultimately show ?thesis by (simp add: run_db_ok_def runs_ok_def)
qed

lemma fold_replace_keys:
  "distinct (map key rows) \<Longrightarrow> distinct (map key (fold (insert_or_replace key) xs rows))"
  by (induction xs arbitrary: rows) (simp_all add: keys_insert_or_replace)

lemma insert_bindings_keys:
  "insert_bindings bs rows = (r, rows') \<Longrightarrow> distinct (map binding_key rows) \<Longrightarrow> distinct (map binding_key rows')"
  by (induction bs rows rule: insert_bindings.induct) (auto split: if_splits)

lemma cw_id_numbered [simp]: "map cw_id (numbered_rows next es) = map (\<lambda>n. next + int n) [0..<length es]"
proof -
  have "map cw_id (numbered_rows next es) = map (\<lambda>n. next + int n) (map fst (enumerate 0 es))"
    by (simp add: numbered_rows_def edge_to_row_def Let_def split_beta comp_def del: map_fst_enumerate)
  then show ?thesis by simp
qed

lemma records_ok_edges:
  assumes "records_ok db" "set kept \<subseteq> set (rd_column_edges db)" "distinct (map cw_id kept)"
  shows "records_ok (db\<lparr>rd_column_edges := kept @ numbered_rows (rd_next_edge db) es, rd_next_edge := rd_next_edge db + int (length es)\<rparr>)"
proof -
  let ?new = "numbered_rows (rd_next_edge db) es"
  have new: "cw_id ` set ?new = (\<lambda>n. rd_next_edge db + int n) ` {0..<length es}"
    by (metis cw_id_numbered list.set_map set_upt)
  have old: "\<forall>r \<in> set kept. cw_id r < rd_next_edge db" using assms(1,2) unfolding records_ok_def by auto
  have "distinct (map cw_id ?new)" by (simp add: distinct_map inj_on_def)
  moreover have "cw_id ` set kept \<inter> cw_id ` set ?new = {}" using old unfolding new by auto
  ultimately have "distinct (map cw_id (kept @ ?new))" using assms(3) by (simp del: cw_id_numbered)
  moreover have "\<forall>r \<in> set (kept @ ?new). cw_id r < rd_next_edge db + int (length es)"
  proof
    fix r
    assume "r \<in> set (kept @ ?new)"
    then consider "r \<in> set kept" | "cw_id r \<in> cw_id ` set ?new" by auto
    then show "cw_id r < rd_next_edge db + int (length es)"
      using old unfolding new by cases force+
  qed
  ultimately show ?thesis using assms(1) unfolding records_ok_def by simp
qed

text \<open>The writes that leave runs and statistics alone.\<close>

lemma runs_ok_records:
  "runs_ok (snd (save_failure_report rep db)) = runs_ok db"
  "runs_ok (snd (save_state s db)) = runs_ok db" "runs_ok (snd (reset_state pid i env db)) = runs_ok db"
  "runs_ok (snd (record_schema r db)) = runs_ok db" "runs_ok (import_state s db) = runs_ok db"
  "runs_ok (import_schema_record r db) = runs_ok db" "runs_ok (snd (save_bindings pid env bs db)) = runs_ok db"
  "runs_ok (delete_bindings pid db) = runs_ok db" "runs_ok (snd (record_observation ob db)) = runs_ok db"
  "runs_ok (snd (enforce_retention older_ms db)) = runs_ok db"
  "runs_ok (snd (save_column_edges pid env es db)) = runs_ok db"
  "runs_ok (delete_column_edges pid db) = runs_ok db"
  "runs_ok (snd (enforce_column_lineage_retention older db)) = runs_ok db"
  "runs_ok (save_evaluations evs db) = runs_ok db"
  by (rule runs_ok_same; simp add: save_failure_report_def save_state_def reset_state_def record_schema_def import_state_def
      import_schema_record_def save_bindings_def delete_bindings_def record_observation_def enforce_retention_def
      save_column_edges_def delete_column_edges_def enforce_column_lineage_retention_def save_evaluations_def split_beta)+

lemma list_all_upsert: "list_all P rows \<Longrightarrow> P r \<Longrightarrow> list_all P (upsert key r rows)"
  using set_upsert [of key r rows] by (auto simp: list_all_iff)

lemma list_all_ignore: "list_all P rows \<Longrightarrow> P r \<Longrightarrow> list_all P (insert_or_ignore key r rows)"
  using set_insert_or_ignore [of key r rows] by (auto simp: list_all_iff)

lemma list_all_filter: "list_all P rows \<Longrightarrow> list_all P (filter Q rows)"
  by (auto simp: list_all_iff)

lemma records_ok_step:
  assumes "records_ok db"
  shows "records_ok (snd (save_failure_report rep db))" "records_ok (snd (save_state s db))"
    "records_ok (snd (reset_state pid i env db))" "records_ok (snd (record_schema r db))" "records_ok (import_state s db)"
    "records_ok (import_schema_record r db)" "records_ok (delete_bindings pid db)"
    "records_ok (snd (record_observation ob db))" "records_ok (snd (enforce_retention older_ms db))"
    "records_ok (delete_column_edges pid db)" "records_ok (snd (enforce_column_lineage_retention older db))"
    "records_ok (save_evaluations evs db)"
  using assms unfolding records_ok_def
  by (simp_all add: save_failure_report_def save_state_def reset_state_def record_schema_def import_state_def
      import_schema_record_def delete_bindings_def record_observation_def enforce_retention_def
      delete_column_edges_def enforce_column_lineage_retention_def save_evaluations_def keys_simps fold_replace_keys
      list_all_upsert list_all_ignore list_all_filter)

lemma records_ok_bindings: "records_ok db \<Longrightarrow> records_ok (snd (save_bindings pid env bs db))"
  by (auto simp: save_bindings_def records_ok_def keys_filter insert_bindings_keys split: prod.splits)

lemma records_ok_column_edges: "records_ok db \<Longrightarrow> records_ok (snd (save_column_edges pid env es db))"
  unfolding save_column_edges_def snd_conv by (rule records_ok_edges) (auto simp: records_ok_def keys_filter)

lemmas run_db_ok_steps = run_db_ok_create run_db_ok_running run_db_ok_finish run_db_ok_tests run_db_ok_stats run_db_ok_import

lemma run_db_ok_step: "run_step db db' \<Longrightarrow> run_db_ok db \<Longrightarrow> run_db_ok db'"
  by (induction rule: run_step.induct)
     (simp_all add: run_db_ok_steps, simp_all add: run_db_ok_def runs_ok_records records_ok_step records_ok_bindings records_ok_column_edges)

text \<open>
  In every state the store can reach its keys are unique, the statistics belong to stored runs,
  every stored status can be read back and every incremental state has one of the three types.
\<close>

theorem run_store_invariant: "run_reachable db \<Longrightarrow> run_db_ok db"
proof (induction rule: run_reachable.induct)
  case 1
  then show ?case by (simp add: run_db_ok_def runs_ok_def records_ok_def run_init_schema_def run_ids_def)
next
  case (2 db db')
  then show ?case using run_db_ok_step by blast
qed

definition w_stats :: node_run_stats where
  "w_stats = \<lparr>nr_node_id = ''n'', nr_start_time = 5000000, nr_end_time = 9000000, nr_rows_in = 0, nr_rows_out = 3,
     nr_error = None, nr_receipt = None\<rparr>"

theorem run_store_invariant_witness:
  "run_db_ok (snd (save_node_stats ''r'' w_stats (snd (create_run ''r'' ''p'' ''dev'' run_init_schema))))"
proof (rule run_store_invariant)
  have "run_reachable (snd (create_run ''r'' ''p'' ''dev'' run_init_schema))"
    by (rule run_reachable.intros(2) [OF run_reachable.intros(1)]) (rule run_step.intros(1))
  then show "run_reachable (snd (save_node_stats ''r'' w_stats (snd (create_run ''r'' ''p'' ''dev'' run_init_schema))))"
    by (rule run_reachable.intros(2)) (rule run_step.intros(5))
qed

subsection \<open>Runs read back\<close>

definition stored_time :: "int \<Rightarrow> int" where
  "stored_time t = t - t mod 1000000"

definition time_ok :: "int \<Rightarrow> bool" where
  "time_ok t \<longleftrightarrow> 0 \<le> t \<and> t div 1000000 < 2 ^ 63"

definition stored_stats :: "node_run_stats \<Rightarrow> node_run_stats" where
  "stored_stats st = st\<lparr>nr_start_time := stored_time (nr_start_time st), nr_end_time := stored_time (nr_end_time st)\<rparr>"

lemma stored_time_roundtrip [simp]: "time_ok t \<Longrightarrow> ms_to_system_time (system_time_to_ms t) = stored_time t"
  by (simp add: time_ok_def stored_time_def ms_roundtrip)

lemma row_to_stats_roundtrip:
  "time_ok (nr_start_time st) \<Longrightarrow> time_ok (nr_end_time st) \<Longrightarrow> row_to_stats (stats_to_row i st) = stored_stats st"
  by (simp add: row_to_stats_def stats_to_row_def stored_stats_def)

text \<open>A run as the store gives it back: times in whole milliseconds, statistics in order of their start.\<close>

definition stored_run :: "pipeline_run \<Rightarrow> pipeline_run" where
  "stored_run r = r\<lparr>pr_start_time := map_option stored_time (pr_start_time r),
     pr_end_time := map_option stored_time (pr_end_time r),
     pr_node_stats := map stored_stats (sort_key (\<lambda>st. system_time_to_ms (nr_start_time st)) (pr_node_stats r))\<rparr>"

definition run_times_ok :: "pipeline_run \<Rightarrow> bool" where
  "run_times_ok r \<longleftrightarrow> pred_option time_ok (pr_start_time r) \<and> pred_option time_ok (pr_end_time r) \<and>
     (\<forall>st \<in> set (pr_node_stats r). time_ok (nr_start_time st) \<and> time_ok (nr_end_time st))"

lemma fold_ignore_fresh:
  "distinct (map (\<lambda>x. key (f x)) xs) \<Longrightarrow> (\<lambda>x. key (f x)) ` set xs \<inter> key ` set rows = {} \<Longrightarrow>
     fold (\<lambda>x. insert_or_ignore key (f x)) xs rows = rows @ map f xs"
proof (induction xs arbitrary: rows)
  case (Cons x xs)
  have "insert_or_ignore key (f x) rows = rows @ [f x]"
    using Cons.prems(2) by (auto simp: insert_or_ignore_def)
  moreover have "(\<lambda>x. key (f x)) ` set xs \<inter> key ` set (rows @ [f x]) = {}" using Cons.prems by auto
  ultimately show ?case using Cons.IH [of "rows @ [f x]"] Cons.prems(1) by simp
qed simp

lemma insort_key_map: "insort_key f (g x) (map g xs) = map g (insort_key (\<lambda>x. f (g x)) x xs)"
  by (induction xs) simp_all

lemma sort_key_map_eq: "sort_key f (map g xs) = map g (sort_key (\<lambda>x. f (g x)) xs)"
  by (induction xs) (simp_all add: insort_key_map)

lemma sw_start_stats [simp]: "sw_start_ms (stats_to_row i st) = system_time_to_ms (nr_start_time st)"
  by (simp add: stats_to_row_def)

text \<open>
  C27: a run that is imported under a new id is read back as it was, but for the fractions of
  milliseconds and the order of its statistics.
\<close>

theorem import_run_roundtrip:
  assumes "run_db_ok db" "pr_id run \<notin> set (run_ids db)" "distinct (map nr_node_id (pr_node_stats run))" "run_times_ok run"
  shows "get_run (import_run run db) (pr_id run) = Ok (Some (stored_run run))"
proof -
  let ?i = "pr_id run" and ?db = "import_run run db"
  have stats: "rd_stats ?db = rd_stats db @ map (stats_to_row ?i) (pr_node_stats run)"
  proof -
    have "distinct (map (\<lambda>st. stats_key (stats_to_row ?i st)) (pr_node_stats run))"
      using assms(3) by (auto simp: stats_key_def stats_to_row_def distinct_map inj_on_def)
    moreover have "(\<lambda>st. stats_key (stats_to_row ?i st)) ` set (pr_node_stats run) \<inter> stats_key ` set (rd_stats db) = {}"
      using assms(1,2) by (auto simp: run_db_ok_def runs_ok_def stats_key_def stats_to_row_def)
    ultimately show ?thesis by (simp add: import_run_def Let_def fold_ignore_fresh)
  qed
  have "filter (\<lambda>s. sw_run_id s = ?i) (rd_stats db) = []"
    using assms(1,2) by (auto simp: run_db_ok_def runs_ok_def filter_empty_conv)
  then have "filter (\<lambda>s. sw_run_id s = ?i) (rd_stats ?db) = map (stats_to_row ?i) (pr_node_stats run)"
    by (simp add: stats filter_map comp_def stats_to_row_def)
  then have "load_node_stats ?db ?i =
      map (\<lambda>st. row_to_stats (stats_to_row ?i st)) (sort_key (\<lambda>st. sw_start_ms (stats_to_row ?i st)) (pr_node_stats run))"
    by (simp add: load_node_stats_def sort_key_map_eq)
  also have "\<dots> = map stored_stats (sort_key (\<lambda>st. system_time_to_ms (nr_start_time st)) (pr_node_stats run))"
    using assms(4) by (simp add: run_times_ok_def row_to_stats_roundtrip)
  finally have loaded: "load_node_stats ?db ?i = map stored_stats (sort_key (\<lambda>st. system_time_to_ms (nr_start_time st)) (pr_node_stats run))" .
  have "find (\<lambda>r. rr_id r = ?i) (rd_runs db) = None" using assms(2) by (simp add: find_key_None run_ids_def)
  then obtain r where "find (\<lambda>r. rr_id r = ?i) (rd_runs ?db) = Some r" "row_to_pipeline_run r = Ok (run\<lparr>
      pr_start_time := map_option stored_time (pr_start_time run), pr_end_time := map_option stored_time (pr_end_time run),
      pr_node_stats := []\<rparr>)"
    using assms(2,4) by (cases "pr_start_time run"; cases "pr_end_time run")
      (auto simp: import_run_def Let_def insert_or_ignore_def run_ids_def find_snoc row_to_pipeline_run_def run_times_ok_def)
  then show ?thesis by (simp add: get_run_def load_run_def loaded stored_run_def)
qed

theorem import_run_roundtrip_witness:
  "\<exists>r. get_run (import_run ((new_run ''r'' ''p'' ''dev'')\<lparr>pr_node_stats := [w_stats]\<rparr>) run_init_schema) ''r'' = Ok (Some r) \<and>
     map nr_rows_out (pr_node_stats r) = [3]"
proof -
  let ?run = "(new_run ''r'' ''p'' ''dev'')\<lparr>pr_node_stats := [w_stats]\<rparr>"
  have "run_db_ok run_init_schema" "pr_id ?run \<notin> set (run_ids run_init_schema)" "distinct (map nr_node_id (pr_node_stats ?run))" "run_times_ok ?run"
    by (simp_all add: run_db_ok_def runs_ok_def records_ok_def run_init_schema_def run_ids_def new_run_def run_times_ok_def w_stats_def time_ok_def)
  from import_run_roundtrip [OF this] show ?thesis
    by (simp add: new_run_def stored_run_def w_stats_def stored_stats_def)
qed

subsection \<open>Column edges read back\<close>

lemma parse_relationship_kind_str [simp]: "parse_relationship_kind (relationship_str k) = k"
  by (cases k) (simp_all add: parse_relationship_kind_def)

lemma parse_confidence_str [simp]: "parse_confidence (confidence_str c) = c"
  by (cases c) (simp_all add: parse_confidence_def)

definition named_ends :: "stored_column_edge \<Rightarrow> bool" where
  "named_ends e \<longleftrightarrow> ce_up_node (sce_edge e) \<noteq> Some [] \<and> ce_down_node (sce_edge e) \<noteq> Some []"

lemma edge_row_roundtrip: "named_ends e \<Longrightarrow> row_to_stored_column_edge (edge_to_row i e) = e\<lparr>sce_id := Some i\<rparr>"
  by (cases "ce_up_node (sce_edge e)"; cases "ce_down_node (sce_edge e)"; cases "ce_up_resource (sce_edge e)";
      cases "ce_down_resource (sce_edge e)")
     (simp_all add: named_ends_def row_to_stored_column_edge_def edge_to_row_def Let_def)

definition without_id :: "stored_column_edge \<Rightarrow> stored_column_edge" where
  "without_id e = e\<lparr>sce_id := None\<rparr>"

lemma numbered_roundtrip:
  "list_all named_ends es \<Longrightarrow> map (\<lambda>r. without_id (row_to_stored_column_edge r)) (numbered_rows next es) = map without_id es"
proof -
  assume "list_all named_ends es"
  then have "\<forall>x \<in> set (enumerate 0 es). named_ends (snd x)" by (auto simp: list_all_iff in_set_enumerate_eq)
  then have "map (\<lambda>r. without_id (row_to_stored_column_edge r)) (numbered_rows next es) =
      map (\<lambda>x. without_id (snd x)) (enumerate 0 es)"
    by (auto simp: numbered_rows_def split_beta edge_row_roundtrip without_id_def)
  also have "\<dots> = map without_id (map snd (enumerate 0 es))" by (simp add: comp_def del: map_snd_enumerate)
  finally show ?thesis by simp
qed

text \<open>
  C28: a batch of column edges into one node replaces all the node had: afterwards the store holds
  for it exactly the batch, whoever wrote the earlier edges.
\<close>

theorem save_column_edges_replaces:
  assumes "es \<noteq> []" "list_all named_ends es"
    "\<forall>e \<in> set es. sce_pipeline_id e = pid \<and> sce_environment e = env \<and> ce_down_node (sce_edge e) = Some n"
  shows "mset (map without_id (load_column_edges_for_node (snd (save_column_edges pid env es db)) pid env n)) = mset (map without_id es)"
proof -
  let ?rows = "numbered_rows (rd_next_edge db) es"
  have "(\<lambda>e. ce_down_node (sce_edge e)) ` set es = {Some n}" using assms(1,3) by (cases es) auto
  then have kept: "filter (\<lambda>r. cw_pipeline_id r = pid \<and> cw_environment r = env \<and> cw_down_node r = n)
      (filter (\<lambda>r. \<not> (cw_pipeline_id r = pid \<and> cw_environment r = env \<and>
         Some (cw_down_node r) \<in> (\<lambda>e. ce_down_node (sce_edge e)) ` set es)) (rd_column_edges db)) = []"
    by (auto simp: filter_empty_conv)
  have "\<forall>r \<in> set ?rows. cw_pipeline_id r = pid \<and> cw_environment r = env \<and> cw_down_node r = n"
    using assms(3) by (auto simp: numbered_rows_def edge_to_row_def Let_def in_set_enumerate_eq split_beta)
  then have "filter (\<lambda>r. cw_pipeline_id r = pid \<and> cw_environment r = env \<and> cw_down_node r = n) ?rows = ?rows"
    by (simp add: filter_id_conv)
  then have "load_column_edges_for_node (snd (save_column_edges pid env es db)) pid env n =
      map row_to_stored_column_edge (sort_key cw_down_column ?rows)"
    using kept by (simp add: load_column_edges_for_node_def save_column_edges_def)
  then have "mset (map without_id (load_column_edges_for_node (snd (save_column_edges pid env es db)) pid env n)) =
      mset (map (\<lambda>r. without_id (row_to_stored_column_edge r)) ?rows)"
    by (simp add: comp_def flip: image_mset.compositionality)
  then show ?thesis by (simp only: numbered_roundtrip [OF assms(2)])
qed

definition w_edge :: "node_id \<Rightarrow> stored_column_edge" where
  "w_edge up = \<lparr>sce_id = None, sce_pipeline_id = ''p'', sce_environment = ''dev'',
     sce_edge = \<lparr>ce_up_column = ''c'', ce_up_node = Some up, ce_up_resource = None, ce_down_column = ''c'',
       ce_down_node = Some ''k'', ce_down_resource = Some ''fp'', ce_relationship = Direct, ce_expression = None,
       ce_confidence = Exact\<rparr>, sce_derived_at = ''t'', sce_source_run_id = None\<rparr>"

theorem save_column_edges_replaces_witness:
  "map without_id (load_column_edges_for_node
     (snd (save_column_edges ''p'' ''dev'' [w_edge ''b''] (snd (save_column_edges ''p'' ''dev'' [w_edge ''a''] run_init_schema))))
     ''p'' ''dev'' ''k'') = [w_edge ''b'']"
proof -
  have "[w_edge ''b''] \<noteq> []" "list_all named_ends [w_edge ''b'']"
    "\<forall>e \<in> set [w_edge ''b'']. sce_pipeline_id e = ''p'' \<and> sce_environment e = ''dev'' \<and> ce_down_node (sce_edge e) = Some ''k''"
    "without_id (w_edge ''b'') = w_edge ''b''"
    by (simp_all add: w_edge_def named_ends_def without_id_def)
  from save_column_edges_replaces [OF this(1-3), of "snd (save_column_edges ''p'' ''dev'' [w_edge ''a''] run_init_schema)"] this(4)
  show ?thesis by (simp add: mset_single_iff_right del: mset_map)
qed

subsection \<open>Bindings\<close>

definition w_binding :: stored_binding where
  "w_binding = \<lparr>sbd_pipeline_id = ''p'', sbd_node_id = ''n'', sbd_direction = BdSink, sbd_fingerprint = ''fp'',
     sbd_environment = ''dev'', sbd_updated_at_ms = 0\<rparr>"

text \<open>A save that fails has already deleted what it was to replace.\<close>

theorem failed_save_loses_bindings:
  "save_bindings ''p'' ''dev'' [w_binding\<lparr>sbd_node_id := ''m''\<rparr>, w_binding\<lparr>sbd_node_id := ''m''\<rparr>]
     (run_init_schema\<lparr>rd_bindings := [w_binding]\<rparr>) =
   (Err RsConstraint, run_init_schema\<lparr>rd_bindings := [w_binding\<lparr>sbd_node_id := ''m''\<rparr>]\<rparr>)"
  by (simp add: save_bindings_def w_binding_def run_init_schema_def binding_key_def)

end
