(* ===== verification/Environments.thy ===== *)
theory Environments
  imports Run_Store
begin

text \<open>
  \<open>environment.rs\<close>: the environments with their fallbacks in SQLite, and \<open>resolver.rs\<close>: the lookup
  of a table along the fallback chain of the active environment.  Foreign keys are enforced, as in the
  bundled SQLite.
\<close>

section \<open>The store\<close>

datatype environment_error =
    EnSqlite
  | EnNotFound string
  | EnAlreadyExists string
  | EnFallbackNotFound string
  | EnCannotDeleteProd
  | EnProdCannotHaveFallback
  | EnCyclicFallback

record environment =
  ev_name :: string
  ev_fallback :: "string option"

record table_override =
  to_environment :: string
  to_schema :: string
  to_table :: string

record env_db =
  ed_envs :: "environment list"
  ed_overrides :: "table_override list"

definition prod_env :: string where "prod_env = ''prod''"

definition env_names :: "env_db \<Rightarrow> string list" where
  "env_names db = map ev_name (ed_envs db)"

definition ensure_defaults :: "env_db \<Rightarrow> env_db" where
  "ensure_defaults db = db\<lparr>ed_envs := insert_or_ignore ev_name \<lparr>ev_name = ''dev'', ev_fallback = Some prod_env\<rparr>
     (insert_or_ignore ev_name \<lparr>ev_name = prod_env, ev_fallback = None\<rparr> (ed_envs db))\<rparr>"

text \<open>Opening a store that is not there yet.\<close>

definition env_init_schema :: env_db where
  "env_init_schema = ensure_defaults \<lparr>ed_envs = [], ed_overrides = []\<rparr>"

definition create_env :: "string \<Rightarrow> string option \<Rightarrow> env_db \<Rightarrow> (environment_error + environment) \<times> env_db" where
  "create_env name fallback db =
     (case fallback of
        Some fb \<Rightarrow> if fb \<notin> set (env_names db) then (Err (EnFallbackNotFound fb), db)
          else if name \<in> set (env_names db) then (Err (EnAlreadyExists name), db)
          else (Ok \<lparr>ev_name = name, ev_fallback = fallback\<rparr>, db\<lparr>ed_envs := ed_envs db @ [\<lparr>ev_name = name, ev_fallback = fallback\<rparr>]\<rparr>)
      | None \<Rightarrow> if name \<in> set (env_names db) then (Err (EnAlreadyExists name), db)
          else (Ok \<lparr>ev_name = name, ev_fallback = fallback\<rparr>, db\<lparr>ed_envs := ed_envs db @ [\<lparr>ev_name = name, ev_fallback = fallback\<rparr>]\<rparr>))"

definition get_env :: "env_db \<Rightarrow> string \<Rightarrow> environment option" where
  "get_env db name = find (\<lambda>e. ev_name e = name) (ed_envs db)"

definition repoint :: "string \<Rightarrow> string option \<Rightarrow> environment \<Rightarrow> environment" where
  "repoint name fb e = (if ev_fallback e = Some name then e\<lparr>ev_fallback := fb\<rparr> else e)"

text \<open>
  Three statements without a transaction.  The last one fails when another environment still falls
  back to the deleted one, which takes an environment that is its own fallback.
\<close>

definition delete_env :: "string \<Rightarrow> env_db \<Rightarrow> (environment_error + unit) \<times> env_db" where
  "delete_env name db =
     (if name = prod_env then (Err EnCannotDeleteProd, db)
      else (case get_env db name of
          None \<Rightarrow> (Err (EnNotFound name), db)
        | Some e \<Rightarrow>
            let db1 = \<lparr>ed_envs = map (repoint name (ev_fallback e)) (ed_envs db),
                  ed_overrides = filter (\<lambda>t. to_environment t \<noteq> name) (ed_overrides db)\<rparr>;
                rest = filter (\<lambda>x. ev_name x \<noteq> name) (ed_envs db1)
            in if list_ex (\<lambda>x. ev_fallback x = Some name) rest then (Err EnSqlite, db1)
               else (Ok (), db1\<lparr>ed_envs := rest\<rparr>)))"

definition list_envs :: "env_db \<Rightarrow> environment list" where
  "list_envs db = sort_key ev_name (ed_envs db)"

definition set_fallback :: "string \<Rightarrow> string option \<Rightarrow> environment \<Rightarrow> environment" where
  "set_fallback name fallback e = (if ev_name e = name then e\<lparr>ev_fallback := fallback\<rparr> else e)"

definition update_fallback :: "string \<Rightarrow> string option \<Rightarrow> env_db \<Rightarrow> (environment_error + unit) \<times> env_db" where
  "update_fallback name fallback db =
     (if name = prod_env \<and> fallback \<noteq> None then (Err EnProdCannotHaveFallback, db)
      else if fallback = Some name then (Err EnCyclicFallback, db)
      else (case fallback of
          Some fb \<Rightarrow> if fb \<notin> set (env_names db) then (Err (EnFallbackNotFound fb), db)
            else if name \<notin> set (env_names db) then (Err (EnNotFound name), db)
            else (Ok (), db\<lparr>ed_envs := map (set_fallback name fallback) (ed_envs db)\<rparr>)
        | None \<Rightarrow> if name \<notin> set (env_names db) then (Err (EnNotFound name), db)
            else (Ok (), db\<lparr>ed_envs := map (set_fallback name fallback) (ed_envs db)\<rparr>)))"

lemma get_env_name: "get_env db i = Some e \<Longrightarrow> ev_name e = i \<and> e \<in> set (ed_envs db)"
  by (auto simp: get_env_def find_Some_iff)

function chain_loop :: "env_db \<Rightarrow> string list \<Rightarrow> string \<Rightarrow> environment_error + string list" where
  "chain_loop db chain current =
     (if current \<in> set chain then Err EnCyclicFallback
      else (case get_env db current of
          None \<Rightarrow> Err (EnNotFound current)
        | Some e \<Rightarrow> (case ev_fallback e of
            None \<Rightarrow> Ok (chain @ [current])
          | Some fb \<Rightarrow> chain_loop db (chain @ [current]) fb)))"
  by pat_completeness auto

termination
proof (relation "measure (\<lambda>(db, chain, current). card (set (env_names db) - set chain))")
  fix db chain current e and fb :: string
  assume new: "current \<notin> set chain" and e: "get_env db current = Some e"
  then have "current \<in> set (env_names db) - set chain" by (auto simp: env_names_def dest: get_env_name)
  then have "card (set (env_names db) - set (chain @ [current])) < card (set (env_names db) - set chain)"
    by (intro psubset_card_mono) auto
  then show "((db, chain @ [current], fb), (db, chain, current)) \<in>
      measure (\<lambda>(db, chain, current). card (set (env_names db) - set chain))" by simp
qed simp

declare chain_loop.simps [simp del]

definition fallback_chain :: "env_db \<Rightarrow> string \<Rightarrow> environment_error + string list" where
  "fallback_chain db start = chain_loop db [] start"

definition override_key :: "table_override \<Rightarrow> string \<times> string \<times> string" where
  "override_key t = (to_environment t, to_schema t, to_table t)"

definition register_override :: "table_override \<Rightarrow> env_db \<Rightarrow> (environment_error + unit) \<times> env_db" where
  "register_override t db =
     (if to_environment t \<notin> set (env_names db) then (Err EnSqlite, db)
      else (Ok (), db\<lparr>ed_overrides := insert_or_replace override_key t (ed_overrides db)\<rparr>))"

definition deregister_override :: "table_override \<Rightarrow> env_db \<Rightarrow> bool \<times> env_db" where
  "deregister_override t db = (override_key t \<in> override_key ` set (ed_overrides db),
     db\<lparr>ed_overrides := filter (\<lambda>x. override_key x \<noteq> override_key t) (ed_overrides db)\<rparr>)"

definition list_overrides :: "env_db \<Rightarrow> string \<Rightarrow> table_override list" where
  "list_overrides db env = sort_key (\<lambda>t. (to_schema t, to_table t)) (filter (\<lambda>t. to_environment t = env) (ed_overrides db))"

section \<open>The resolver\<close>

type_synonym 't env_schema = "string \<rightharpoonup> 't"
type_synonym 't env_catalog = "string \<rightharpoonup> 't env_schema"

record 't env_resolver =
  rv_active :: string
  rv_chain :: "string list"
  rv_catalogs :: "string \<rightharpoonup> 't env_catalog"

definition new_catalog :: "'t env_catalog" where
  "new_catalog = [''public'' \<mapsto> Map.empty]"

definition new_resolver :: "string \<Rightarrow> string list \<Rightarrow> 't env_resolver" where
  "new_resolver active chain = \<lparr>rv_active = active, rv_chain = chain,
     rv_catalogs = fold (\<lambda>env m. m(env \<mapsto> new_catalog)) chain Map.empty\<rparr>"

definition get_or_create_schema :: "'t env_catalog \<Rightarrow> string \<Rightarrow> 't env_schema" where
  "get_or_create_schema cat sch = (case cat sch of None \<Rightarrow> Map.empty | Some s \<Rightarrow> s)"

definition register_table :: "string \<Rightarrow> string \<Rightarrow> string \<Rightarrow> 't \<Rightarrow> 't env_resolver \<Rightarrow> string + 't env_resolver" where
  "register_table env sch name t R = (case rv_catalogs R env of
      None \<Rightarrow> Err (''environment `'' @ env @ ''` not found in resolver'')
    | Some cat \<Rightarrow> Ok (R\<lparr>rv_catalogs := (rv_catalogs R)(env \<mapsto> cat(sch \<mapsto> (get_or_create_schema cat sch)(name \<mapsto> t)))\<rparr>))"

definition filter_map :: "('a \<Rightarrow> 'b option) \<Rightarrow> 'a list \<Rightarrow> 'b list" where
  "filter_map f xs = concat (map (\<lambda>x. case f x of None \<Rightarrow> [] | Some y \<Rightarrow> [y]) xs)"

text \<open>The merged catalog is the chain of catalogs, one of its schemas the chain of schemas.\<close>

definition merged_catalog :: "'t env_resolver \<Rightarrow> 't env_catalog list" where
  "merged_catalog R = filter_map (rv_catalogs R) (rv_chain R)"

definition merged_schema :: "'t env_catalog list \<Rightarrow> string \<Rightarrow> 't env_schema list option" where
  "merged_schema cats sch = (case filter_map (\<lambda>cat. cat sch) cats of [] \<Rightarrow> None | ss \<Rightarrow> Some ss)"

fun first_table :: "'t env_schema list \<Rightarrow> string \<Rightarrow> 't option" where
  "first_table [] name = None"
| "first_table (s # ss) name = (case s name of Some t \<Rightarrow> Some t | None \<Rightarrow> first_table ss name)"

text \<open>How a query finds \<open>schema.table\<close> in the default catalog.\<close>

definition resolve_table :: "'t env_resolver \<Rightarrow> string \<Rightarrow> string \<Rightarrow> 't option" where
  "resolve_table R sch name = (case merged_schema (merged_catalog R) sch of
      None \<Rightarrow> None | Some ss \<Rightarrow> first_table ss name)"

section \<open>Chains\<close>

definition fallback_rel :: "env_db \<Rightarrow> (string \<times> string) set" where
  "fallback_rel db = {(a, b). \<exists>e. get_env db a = Some e \<and> ev_fallback e = Some b}"

text \<open>What every operation keeps.\<close>

definition env_ok :: "env_db \<Rightarrow> bool" where
  "env_ok db \<longleftrightarrow> distinct (env_names db) \<and> get_env db prod_env = Some \<lparr>ev_name = prod_env, ev_fallback = None\<rparr> \<and>
     (\<forall>e \<in> set (ed_envs db). \<forall>fb. ev_fallback e = Some fb \<longrightarrow> fb \<in> set (env_names db)) \<and>
     distinct (map override_key (ed_overrides db)) \<and> (\<forall>t \<in> set (ed_overrides db). to_environment t \<in> set (env_names db))"

lemma get_env_in: "i \<in> set (env_names db) \<Longrightarrow> \<exists>e. get_env db i = Some e"
  by (cases "get_env db i") (auto simp: get_env_def env_names_def find_key_None)

lemma get_env_names: "get_env db i = Some e \<Longrightarrow> i \<in> set (env_names db)"
  using get_env_name by (force simp: env_names_def)

text \<open>A walk along the fallbacks that ends at an environment without one.\<close>

fun root_walk :: "env_db \<Rightarrow> string list \<Rightarrow> bool" where
  "root_walk db [] = False"
| "root_walk db [x] = (\<exists>e. get_env db x = Some e \<and> ev_fallback e = None)"
| "root_walk db (x # y # zs) = ((\<exists>e. get_env db x = Some e \<and> ev_fallback e = Some y) \<and> root_walk db (y # zs))"

lemma root_walk_Cons:
  "root_walk db (x # zs) \<longleftrightarrow> (\<exists>e. get_env db x = Some e \<and>
     (case zs of [] \<Rightarrow> ev_fallback e = None | z # _ \<Rightarrow> ev_fallback e = Some z \<and> root_walk db zs))"
  by (cases zs) auto

lemma chain_loop_root_walk:
  "root_walk db ch \<Longrightarrow> distinct (pre @ ch) \<Longrightarrow> chain_loop db pre (hd ch) = Ok (pre @ ch)"
proof (induction ch arbitrary: pre)
  case (Cons x zs)
  show ?case
  proof (cases zs)
    case Nil
    then show ?thesis using Cons.prems by (auto simp: chain_loop.simps [of db pre])
  next
    case (Cons z zs')
    then have "chain_loop db (pre @ [x]) (hd zs) = Ok ((pre @ [x]) @ zs)"
      using Cons.prems by (intro Cons.IH) auto
    then show ?thesis using Cons.prems Cons by (auto simp: chain_loop.simps [of db pre])
  qed
qed simp

lemma reach_next: "get_env db a = Some e \<Longrightarrow> (fallback_rel db)\<^sup>* `` {a} =
   insert a (case ev_fallback e of None \<Rightarrow> {} | Some b \<Rightarrow> (fallback_rel db)\<^sup>* `` {b})"
  by (auto simp: fallback_rel_def Image_def elim: converse_rtranclE intro: converse_rtrancl_into_rtrancl split: option.split)

lemma chain_loop_Ok:
  "chain_loop db pre cur = Ok ch \<Longrightarrow> distinct pre \<Longrightarrow>
     \<exists>rest. ch = pre @ rest \<and> rest \<noteq> [] \<and> hd rest = cur \<and> root_walk db rest \<and> distinct ch \<and> set rest = (fallback_rel db)\<^sup>* `` {cur}"
proof (induction db pre cur rule: chain_loop.induct)
  case (1 db pre cur)
  from 1(2) obtain e where e: "cur \<notin> set pre" "get_env db cur = Some e"
    by (auto simp: chain_loop.simps [of db pre] split: if_splits option.splits)
  show ?case
  proof (cases "ev_fallback e")
    case None
    then show ?thesis using 1(2,3) e
      by (intro exI [of _ "[cur]"]) (auto simp: chain_loop.simps [of db pre] reach_next)
  next
    case (Some fb)
    then have "chain_loop db (pre @ [cur]) fb = Ok ch" using 1(2) e by (simp add: chain_loop.simps [of db pre])
    from 1(1) [OF e Some this] 1(3) e(1) obtain rest where rest: "ch = (pre @ [cur]) @ rest" "rest \<noteq> []" "hd rest = fb" "root_walk db rest"
        "distinct ch" "set rest = (fallback_rel db)\<^sup>* `` {fb}" by auto
    then have "root_walk db (cur # rest)" using e(2) Some by (cases rest) auto
    then show ?thesis using rest e(2) Some by (intro exI [of _ "cur # rest"]) (simp add: reach_next)
  qed
qed

lemma walk_cycle:
  "\<forall>i < length chain. ((chain @ [cur]) ! i, (chain @ [cur]) ! Suc i) \<in> r \<Longrightarrow> j < length chain \<Longrightarrow> (chain ! j, cur) \<in> r\<^sup>+"
proof (induction "length chain - j" arbitrary: j)
  case (Suc n)
  have step: "(chain ! j, (chain @ [cur]) ! Suc j) \<in> r" using Suc.prems by (force simp: nth_append)
  show ?case
  proof (cases "Suc j < length chain")
    case True
    then have "(chain ! Suc j, cur) \<in> r\<^sup>+" using Suc by simp
    then show ?thesis using step True by (simp add: nth_append trancl_into_trancl2)
  next
    case False
    then have "Suc j = length chain" using Suc.prems(2) by simp
    then show ?thesis using step by (simp add: nth_append)
  qed
qed simp

lemma chain_loop_Err:
  "chain_loop db chain cur = Err err \<Longrightarrow> env_ok db \<Longrightarrow> cur \<in> set (env_names db) \<Longrightarrow>
     \<forall>i < length chain. ((chain @ [cur]) ! i, (chain @ [cur]) ! Suc i) \<in> fallback_rel db \<Longrightarrow>
     err = EnCyclicFallback \<and> (\<exists>x. (cur, x) \<in> (fallback_rel db)\<^sup>* \<and> (x, x) \<in> (fallback_rel db)\<^sup>+)"
proof (induction db chain cur rule: chain_loop.induct)
  case (1 db chain cur)
  show ?case
  proof (cases "cur \<in> set chain")
    case True
    then obtain j where "j < length chain" "chain ! j = cur" by (auto simp: in_set_conv_nth)
    then have "(cur, cur) \<in> (fallback_rel db)\<^sup>+" using walk_cycle [OF 1(5)] by auto
    then show ?thesis using 1(2) True by (auto simp: chain_loop.simps [of db chain])
  next
    case False
    obtain e where e: "get_env db cur = Some e" using get_env_in [OF 1(4)] by blast
    then obtain fb where fb: "ev_fallback e = Some fb" using 1(2) False by (auto simp: chain_loop.simps [of db chain] split: option.splits)
    have rel: "(cur, fb) \<in> fallback_rel db" using e fb by (simp add: fallback_rel_def)
    have "fb \<in> set (env_names db)" using 1(3) get_env_name [OF e] fb by (auto simp: env_ok_def)
    moreover have "\<forall>i < length (chain @ [cur]). (((chain @ [cur]) @ [fb]) ! i, ((chain @ [cur]) @ [fb]) ! Suc i) \<in> fallback_rel db"
    proof (intro allI impI)
      fix i
      assume i: "i < length (chain @ [cur])"
      show "(((chain @ [cur]) @ [fb]) ! i, ((chain @ [cur]) @ [fb]) ! Suc i) \<in> fallback_rel db"
      proof (cases "i < length chain")
        case True
        then show ?thesis using 1(5) by (simp only: nth_append length_append) simp
      next
        case False
        then have "i = length chain" using i by simp
        then show ?thesis using rel by (simp add: nth_append)
      qed
    qed
    ultimately have "err = EnCyclicFallback \<and> (\<exists>x. (fb, x) \<in> (fallback_rel db)\<^sup>* \<and> (x, x) \<in> (fallback_rel db)\<^sup>+)"
      using 1(1) [OF False e fb] 1(2,3) False e fb by (simp add: chain_loop.simps [of db chain])
    then show ?thesis using rel by (meson converse_rtrancl_into_rtrancl)
  qed
qed

text \<open>
  The fallback chain of an environment always comes back: it is the list of all environments one
  reaches over fallbacks, each once, from the environment to one without a fallback; the only error is
  that a cycle is reached.
\<close>

theorem fallback_chain_correct:
  assumes "env_ok db" "start \<in> set (env_names db)"
  shows "case fallback_chain db start of
      Inr ch \<Rightarrow> hd ch = start \<and> root_walk db ch \<and> distinct ch \<and> set ch = (fallback_rel db)\<^sup>* `` {start}
    | Inl e \<Rightarrow> e = EnCyclicFallback \<and> (\<exists>x. (start, x) \<in> (fallback_rel db)\<^sup>* \<and> (x, x) \<in> (fallback_rel db)\<^sup>+)"
proof (cases "fallback_chain db start")
  case (Inl e)
  then show ?thesis using chain_loop_Err [of db "[]" start e] assms by (simp add: fallback_chain_def)
next
  case (Inr ch)
  then show ?thesis using chain_loop_Ok [of db "[]" start ch] by (auto simp: fallback_chain_def)
qed

text \<open>The default environments fall back from \<open>dev\<close> to \<open>prod\<close>.\<close>

lemma init_envs: "ed_envs env_init_schema = [\<lparr>ev_name = ''prod'', ev_fallback = None\<rparr>, \<lparr>ev_name = ''dev'', ev_fallback = Some ''prod''\<rparr>]"
  "ed_overrides env_init_schema = []"
  by (simp_all add: env_init_schema_def ensure_defaults_def prod_env_def insert_or_ignore_def)

lemma env_ok_init: "env_ok env_init_schema"
  by (simp add: env_ok_def env_names_def get_env_def init_envs prod_env_def)

theorem fallback_chain_correct_witness:
  "\<exists>ch. fallback_chain env_init_schema ''dev'' = Ok ch \<and> hd ch = ''dev'' \<and> root_walk env_init_schema ch"
proof -
  have dev: "''dev'' \<in> set (env_names env_init_schema)" by (simp add: env_names_def init_envs)
  have "fallback_chain env_init_schema ''dev'' = Ok [''dev'', ''prod'']"
    by (simp add: fallback_chain_def chain_loop.simps get_env_def init_envs)
  then show ?thesis using fallback_chain_correct [OF env_ok_init dev] by simp
qed

section \<open>Deleting an environment\<close>

lemma find_map_repoint: "find (\<lambda>e. ev_name e = i) (map (repoint name fb) es) = map_option (repoint name fb) (find (\<lambda>e. ev_name e = i) es)"
  by (induction es) (auto simp: repoint_def)

lemma find_other: "i \<noteq> name \<Longrightarrow> find (\<lambda>e. ev_name e = i) (filter (\<lambda>e. ev_name e \<noteq> name) es) = find (\<lambda>e. ev_name e = i) es"
  by (induction es) auto

lemma delete_env_Ok:
  assumes "delete_env name db = (Ok (), db')"
  obtains e where "get_env db name = Some e" "name \<noteq> prod_env"
    "db' = \<lparr>ed_envs = filter (\<lambda>x. ev_name x \<noteq> name) (map (repoint name (ev_fallback e)) (ed_envs db)),
       ed_overrides = filter (\<lambda>t. to_environment t \<noteq> name) (ed_overrides db)\<rparr>"
    "\<And>x. x \<in> set (ed_envs db') \<Longrightarrow> ev_fallback x \<noteq> Some name"
  using assms by (auto simp: delete_env_def Let_def list_ex_iff split: if_splits option.splits)

lemma get_deleted:
  assumes "get_env db name = Some e" "i \<noteq> name"
    "db' = \<lparr>ed_envs = filter (\<lambda>x. ev_name x \<noteq> name) (map (repoint name (ev_fallback e)) (ed_envs db)), ed_overrides = os\<rparr>"
  shows "get_env db' i = map_option (repoint name (ev_fallback e)) (get_env db i)"
  using assms(2) by (simp add: assms(3) get_env_def find_other find_map_repoint)

lemma root_walk_deleted:
  assumes "get_env db name = Some e" "db' = \<lparr>ed_envs = filter (\<lambda>x. ev_name x \<noteq> name) (map (repoint name (ev_fallback e)) (ed_envs db)),
      ed_overrides = os\<rparr>"
  shows "root_walk db ch \<Longrightarrow> distinct ch \<Longrightarrow> hd ch \<noteq> name \<Longrightarrow> root_walk db' (filter (\<lambda>x. x \<noteq> name) ch)"
proof (induction ch rule: length_induct)
  case (1 ch)
  then obtain x zs where ch: "ch = x # zs" by (cases ch) auto
  then have x: "x \<noteq> name" using 1 by simp
  obtain ex where ex: "get_env db x = Some ex" using 1(2) ch by (auto simp: root_walk_Cons)
  have get: "get_env db' x = Some (repoint name (ev_fallback e) ex)" using get_deleted [OF assms(1) x assms(2)] ex by simp
  show ?case
  proof (cases zs)
    case Nil
    then show ?thesis using ch x ex 1(2) get by (auto simp: repoint_def)
  next
    case (Cons y ys)
    then have walk: "ev_fallback ex = Some y" "root_walk db (y # ys)" using 1(2) ch ex by auto
    show ?thesis
    proof (cases "y = name")
      case False
      then have "root_walk db' (filter (\<lambda>x. x \<noteq> name) zs)"
        using 1(1) [rule_format, of zs] 1(3) ch Cons walk(2) by simp
      moreover have "repoint name (ev_fallback e) ex = ex" using walk(1) False by (simp add: repoint_def)
      ultimately show ?thesis using ch x get False walk Cons by simp
    next
      case True
      have none: "filter (\<lambda>x. x \<noteq> name) ys = ys" using 1(3) ch Cons True by (auto simp: filter_id_conv)
      have re: "ev_fallback (repoint name (ev_fallback e) ex) = ev_fallback e" using walk(1) True by (simp add: repoint_def)
      show ?thesis
      proof (cases ys)
        case Nil
        then show ?thesis using ch Cons True x get re walk(2) assms(1) by auto
      next
        case (Cons z zs')
        have "root_walk db' (filter (\<lambda>x. x \<noteq> name) ys)"
          using 1(1) [rule_format, of ys] 1(3) ch \<open>zs = y # ys\<close> walk(2) True Cons by auto
        then show ?thesis using ch \<open>zs = y # ys\<close> True x get re walk(2) assms(1) Cons none by auto
      qed
    qed
  qed
qed

text \<open>
  C40: deleting an environment takes it out of the chain of every other one and changes nothing else
  there: what fell back to it falls back to what it fell back to.
\<close>

theorem delete_env_splices:
  assumes "delete_env name db = (Ok (), db')" "fallback_chain db start = Ok ch" "start \<noteq> name"
  shows "fallback_chain db' start = Ok (filter (\<lambda>x. x \<noteq> name) ch)"
proof -
  obtain e where e: "get_env db name = Some e"
      "db' = \<lparr>ed_envs = filter (\<lambda>x. ev_name x \<noteq> name) (map (repoint name (ev_fallback e)) (ed_envs db)),
         ed_overrides = filter (\<lambda>t. to_environment t \<noteq> name) (ed_overrides db)\<rparr>"
    using assms(1) by (rule delete_env_Ok)
  have ch: "hd ch = start" "root_walk db ch" "distinct ch"
    using chain_loop_Ok [of db "[]" start ch] assms(2) by (auto simp: fallback_chain_def)
  then have "root_walk db' (filter (\<lambda>x. x \<noteq> name) ch)" using root_walk_deleted [OF e] assms(3) by simp
  from chain_loop_root_walk [OF this, of "[]"] ch assms(3) show ?thesis
    by (cases ch) (simp_all add: fallback_chain_def)
qed

definition w_envs :: env_db where
  "w_envs = snd (update_fallback ''dev'' (Some ''qa'') (snd (create_env ''qa'' (Some prod_env) env_init_schema)))"

lemma w_envs_rows: "w_envs = \<lparr>ed_envs = [\<lparr>ev_name = ''prod'', ev_fallback = None\<rparr>, \<lparr>ev_name = ''dev'', ev_fallback = Some ''qa''\<rparr>,
    \<lparr>ev_name = ''qa'', ev_fallback = Some ''prod''\<rparr>], ed_overrides = []\<rparr>"
  by (simp add: w_envs_def create_env_def update_fallback_def set_fallback_def env_names_def init_envs prod_env_def)

theorem delete_env_splices_witness:
  "\<exists>db. delete_env ''qa'' w_envs = (Ok (), db) \<and> fallback_chain db ''dev'' = Ok [''dev'', ''prod'']"
proof -
  obtain db where db: "delete_env ''qa'' w_envs = (Ok (), db)"
    by (simp add: delete_env_def get_env_def w_envs_rows prod_env_def Let_def repoint_def)
  moreover have "fallback_chain w_envs ''dev'' = Ok [''dev'', ''qa'', ''prod'']"
    by (simp add: fallback_chain_def chain_loop.simps get_env_def w_envs_rows)
  ultimately show ?thesis using delete_env_splices [OF db] by force
qed

section \<open>The invariant of the tables\<close>

inductive env_step :: "env_db \<Rightarrow> env_db \<Rightarrow> bool" where
  "env_step db (ensure_defaults db)"
| "env_step db (snd (create_env name fallback db))"
| "env_step db (snd (delete_env name db))"
| "env_step db (snd (update_fallback name fallback db))"
| "env_step db (snd (register_override t db))"
| "env_step db (snd (deregister_override t db))"

inductive env_reachable :: "env_db \<Rightarrow> bool" where
  "env_reachable env_init_schema"
| "env_reachable db \<Longrightarrow> env_step db db' \<Longrightarrow> env_reachable db'"

lemma env_ok_defaults:
  assumes "env_ok db"
  shows "env_ok (ensure_defaults db)"
proof -
  have "prod_env \<in> set (env_names db)" using assms get_env_names by (force simp: env_ok_def)
  then show ?thesis using assms
    by (auto simp: env_ok_def ensure_defaults_def insert_or_ignore_def env_names_def get_env_def find_snoc find_key_None image_iff)
qed

lemma env_ok_create:
  assumes "env_ok db"
  shows "env_ok (snd (create_env name fallback db))"
proof -
  have "env_ok (db\<lparr>ed_envs := ed_envs db @ [\<lparr>ev_name = name, ev_fallback = fallback\<rparr>]\<rparr>)"
    if "name \<notin> set (env_names db)" "\<And>fb. fallback = Some fb \<Longrightarrow> fb \<in> set (env_names db)"
    using assms that by (auto simp: env_ok_def env_names_def get_env_def find_snoc)
  then show ?thesis using assms by (cases fallback) (simp_all add: create_env_def)
qed

lemma repoint_name [simp]: "ev_name (repoint name fb e) = ev_name e" "ev_name \<circ> repoint name fb = ev_name"
  by (simp_all add: repoint_def fun_eq_iff)

lemma env_ok_remove:
  assumes "env_ok \<lparr>ed_envs = es, ed_overrides = os\<rparr>" "name \<noteq> prod_env" "\<forall>x \<in> set es. ev_name x = name \<or> ev_fallback x \<noteq> Some name"
    "\<forall>t \<in> set os. to_environment t \<noteq> name"
  shows "env_ok \<lparr>ed_envs = filter (\<lambda>x. ev_name x \<noteq> name) es, ed_overrides = os\<rparr>"
proof -
  have img: "ev_name ` set (filter (\<lambda>x. ev_name x \<noteq> name) es) = ev_name ` set es - {name}" by auto
  have fb: "fb \<in> ev_name ` set es \<and> fb \<noteq> name" if "x \<in> set es" "ev_name x \<noteq> name" "ev_fallback x = Some fb" for x fb
    using assms(1,3) that by (auto simp: env_ok_def env_names_def)
  have to: "to_environment t \<in> ev_name ` set es \<and> to_environment t \<noteq> name" if "t \<in> set os" for t
    using assms(1,4) that by (auto simp: env_ok_def env_names_def)
  have "\<forall>x \<in> set (filter (\<lambda>x. ev_name x \<noteq> name) es). \<forall>fb. ev_fallback x = Some fb \<longrightarrow> fb \<in> ev_name ` set es - {name}"
    using fb by auto
  moreover have "\<forall>t \<in> set os. to_environment t \<in> ev_name ` set es - {name}" using to by auto
  moreover have "distinct (map ev_name (filter (\<lambda>x. ev_name x \<noteq> name) es))"
    using assms(1) by (simp add: env_ok_def env_names_def distinct_map_filter)
  moreover have "find (\<lambda>x. ev_name x = prod_env) (filter (\<lambda>x. ev_name x \<noteq> name) es) = find (\<lambda>x. ev_name x = prod_env) es"
    by (rule find_other) (use assms(2) in simp)
  ultimately show ?thesis using assms(1) unfolding env_ok_def env_names_def get_env_def env_db.simps set_map img
    by (simp only: simp_thms)
qed

lemma env_ok_delete:
  assumes "env_ok db"
  shows "env_ok (snd (delete_env name db))"
proof (cases "name = prod_env \<or> get_env db name = None")
  case True
  then show ?thesis using assms by (auto simp: delete_env_def)
next
  case False
  then obtain e where e: "get_env db name = Some e" and np: "name \<noteq> prod_env" by auto
  let ?es = "map (repoint name (ev_fallback e)) (ed_envs db)" and ?os = "filter (\<lambda>t. to_environment t \<noteq> name) (ed_overrides db)"
  have names: "map ev_name ?es = env_names db" by (simp add: env_names_def)
  have root: "find (\<lambda>x. ev_name x = prod_env) ?es = Some \<lparr>ev_name = prod_env, ev_fallback = None\<rparr>"
    using assms by (simp add: find_map_repoint env_ok_def get_env_def repoint_def)
  have fb: "\<forall>x \<in> set ?es. \<forall>fb. ev_fallback x = Some fb \<longrightarrow> fb \<in> set (env_names db)"
    using assms get_env_name [OF e] by (auto simp: env_ok_def repoint_def)
  have os: "distinct (map override_key ?os)" using assms by (simp add: env_ok_def keys_filter)
  have db1: "env_ok \<lparr>ed_envs = ?es, ed_overrides = ?os\<rparr>"
    using assms names root fb os by (simp add: env_ok_def env_names_def get_env_def)
  have "env_ok \<lparr>ed_envs = filter (\<lambda>x. ev_name x \<noteq> name) ?es, ed_overrides = ?os\<rparr>"
    if "\<not> list_ex (\<lambda>x. ev_fallback x = Some name) (filter (\<lambda>x. ev_name x \<noteq> name) ?es)"
    by (rule env_ok_remove [OF db1 np]) (use that in \<open>auto simp: list_ex_iff\<close>)
  then show ?thesis using db1 e np by (simp add: delete_env_def Let_def)
qed

lemma env_ok_update:
  assumes "env_ok db"
  shows "env_ok (snd (update_fallback name fallback db))"
proof -
  have find: "find (\<lambda>e. ev_name e = i) (map (set_fallback name fallback) es) =
      map_option (set_fallback name fallback) (find (\<lambda>e. ev_name e = i) es)" for i es
    by (induction es) (auto simp: set_fallback_def)
  have names: "ev_name (set_fallback name fallback e) = ev_name e" "ev_name \<circ> set_fallback name fallback = ev_name" for e
    by (simp_all add: set_fallback_def fun_eq_iff)
  have "env_ok (db\<lparr>ed_envs := map (set_fallback name fallback) (ed_envs db)\<rparr>)"
    if "name = prod_env \<Longrightarrow> fallback = None" "\<And>fb. fallback = Some fb \<Longrightarrow> fb \<in> set (env_names db)"
  proof -
    have "set_fallback name fallback \<lparr>ev_name = prod_env, ev_fallback = None\<rparr> = \<lparr>ev_name = prod_env, ev_fallback = None\<rparr>"
      using that(1) by (simp add: set_fallback_def)
    moreover have "ev_fallback (set_fallback name fallback e) = Some fb \<Longrightarrow> ev_fallback e = Some fb \<or> fallback = Some fb" for e fb
      by (simp add: set_fallback_def split: if_splits)
    moreover have "map ev_name (map (set_fallback name fallback) (ed_envs db)) = env_names db" by (simp add: names env_names_def)
    ultimately show ?thesis using assms that(2)
      unfolding env_ok_def env_names_def [of "ed_envs_update _ _"] get_env_def
      by (simp add: find) metis
  qed
  then show ?thesis using assms by (cases fallback) (auto simp: update_fallback_def)
qed

lemma env_ok_step: "env_step db db' \<Longrightarrow> env_ok db \<Longrightarrow> env_ok db'"
proof (induction rule: env_step.induct)
  case (5 db t)
  then show ?case by (auto simp: env_ok_def register_override_def env_names_def get_env_def keys_insert_or_replace set_insert_or_replace)
next
  case (6 db t)
  then show ?case by (auto simp: env_ok_def deregister_override_def env_names_def get_env_def keys_filter)
qed (auto intro: env_ok_defaults env_ok_create env_ok_delete env_ok_update)

text \<open>
  Whatever operations are applied, failed ones included, \<open>prod\<close> is there and is a root, names are
  unique, and every fallback and every table override names an environment that is there.
\<close>

theorem env_store_invariant: "env_reachable db \<Longrightarrow> env_ok db"
proof (induction rule: env_reachable.induct)
  case 1
  show ?case by (rule env_ok_init)
next
  case (2 db db')
  then show ?case by (intro env_ok_step [OF 2(2)])
qed

theorem env_store_invariant_witness: "env_ok (snd (delete_env ''dev'' env_init_schema))"
  by (rule env_store_invariant [OF env_reachable.intros(2) [OF env_reachable.intros(1) env_step.intros(3)]])

text \<open>Only a fallback to oneself is refused: two environments can fall back to each other.\<close>

lemma update_makes_cycle:
  "\<exists>db db'. create_env ''qa'' (Some ''dev'') env_init_schema = (Ok \<lparr>ev_name = ''qa'', ev_fallback = Some ''dev''\<rparr>, db) \<and>
     update_fallback ''dev'' (Some ''qa'') db = (Ok (), db') \<and> fallback_chain db' ''dev'' = Err EnCyclicFallback"
  by (simp add: create_env_def update_fallback_def set_fallback_def env_names_def init_envs prod_env_def fallback_chain_def chain_loop.simps get_env_def)

section \<open>Resolving tables\<close>

definition table_of :: "'t env_resolver \<Rightarrow> string \<Rightarrow> string \<Rightarrow> string \<Rightarrow> 't option" where
  "table_of R sch name env = (case rv_catalogs R env of None \<Rightarrow> None | Some cat \<Rightarrow>
     (case cat sch of None \<Rightarrow> None | Some s \<Rightarrow> s name))"

lemma filter_map_simps [simp]:
  "filter_map f [] = []" "filter_map f (x # xs) = (case f x of None \<Rightarrow> filter_map f xs | Some y \<Rightarrow> y # filter_map f xs)"
  by (simp_all add: filter_map_def split: option.split)

text \<open>
  A query finds a table in the first environment of the chain that has it under its schema, and
  finds none when no environment of the chain has it.
\<close>

theorem resolve_table_first:
  "resolve_table R sch name = (case find (\<lambda>env. table_of R sch name env \<noteq> None) (rv_chain R) of
     None \<Rightarrow> None | Some env \<Rightarrow> table_of R sch name env)"
proof -
  have "first_table (filter_map (\<lambda>cat. cat sch) (filter_map (rv_catalogs R) envs)) name =
      (case find (\<lambda>env. table_of R sch name env \<noteq> None) envs of None \<Rightarrow> None | Some env \<Rightarrow> table_of R sch name env)" for envs
    by (induction envs) (auto simp: table_of_def split: option.split)
  note fold = this [of "rv_chain R", symmetric]
  show ?thesis unfolding fold resolve_table_def merged_schema_def merged_catalog_def
    by (cases "filter_map (\<lambda>cat. cat sch) (filter_map (rv_catalogs R) (rv_chain R))") simp_all
qed

end
