(* ===== verification/Node_Lineage.thy ===== *)
theory Node_Lineage
  imports Run_Store
begin

text \<open>
  \<open>column_lineage.rs\<close> of \<open>armillary-datafusion\<close>, without the walk over DataFusion's plans: the
  column edges of a node from its annotations, from what the Python walker reports, the conservative
  ones, and those at the boundary of a pipeline.
\<close>

record python_edge =
  pe_up_column :: string
  pe_down_column :: string
  pe_relationship :: string
  pe_expression :: "string option"

record python_lineage =
  py_edges :: "python_edge list"
  py_confidence :: string
  py_warnings :: "string list"

definition new_lineage :: "node_id \<Rightarrow> node_column_lineage" where
  "new_lineage i = \<lparr>nl_node_id = i, nl_edges = [], nl_warnings = []\<rparr>"

definition parse_relationship :: "string \<Rightarrow> relationship_kind" where
  "parse_relationship s =
     (if s = ''direct'' then Direct else if s = ''derived'' then Derived else if s = ''cast'' then Cast
      else if s = ''filter'' then Filter else if s = ''join_key'' then JoinKey
      else if s = ''join_passthrough'' then JoinPassthrough else if s = ''group_by'' then GroupBy
      else if s = ''aggregate_input'' then AggregateInput else if s = ''window_partition'' then WindowPartition
      else if s = ''window_order'' then WindowOrder else if s = ''window_input'' then WindowInput else OpaqueRel)"

text \<open>The node of an input column: the first that has it.\<close>

definition column_node :: "(node_id \<times> string list) list \<Rightarrow> string \<Rightarrow> node_id option" where
  "column_node inputs c = map_option fst (find (\<lambda>(_, cols). c \<in> set cols) inputs)"

definition derive_opaque_lineage :: "node_id \<Rightarrow> (node_id \<times> string list) list \<Rightarrow> string list \<Rightarrow> node_column_lineage" where
  "derive_opaque_lineage i inputs outs = (new_lineage i)\<lparr>nl_edges :=
     concat (map (\<lambda>out. concat (map (\<lambda>(up, cols). map (\<lambda>c.
       \<lparr>ce_up_column = c, ce_up_node = Some up, ce_up_resource = None, ce_down_column = out, ce_down_node = Some i,
        ce_down_resource = None, ce_relationship = OpaqueRel, ce_expression = None, ce_confidence = OpaqueConf\<rparr>) cols) inputs)) outs)\<rparr>"

definition derive_python_lineage :: "node_id \<Rightarrow> python_lineage \<Rightarrow> (node_id \<times> string list) list \<Rightarrow> node_column_lineage" where
  "derive_python_lineage i py inputs =
     (let conf = (if py_confidence py = ''lazyframe'' then LazyFrame
                  else if py_confidence py = ''annotation'' then Annotation else OpaqueConf)
      in (new_lineage i)\<lparr>nl_edges := map (\<lambda>e.
           \<lparr>ce_up_column = pe_up_column e, ce_up_node = column_node inputs (pe_up_column e), ce_up_resource = None,
            ce_down_column = pe_down_column e, ce_down_node = Some i, ce_down_resource = None,
            ce_relationship = parse_relationship (pe_relationship e), ce_expression = pe_expression e,
            ce_confidence = conf\<rparr>) (py_edges py)\<rparr>)"

definition annotation_warnings ::
  "(node_id \<times> string list) list \<Rightarrow> string list option \<Rightarrow> lineage_annotation_edge \<Rightarrow> string list" where
  "annotation_warnings inputs outs e =
     (if column_node inputs (la_upstream_column e) = None
      then [''annotation references upstream column '' @ [CHR 0x27] @ la_upstream_column e @ [CHR 0x27] @
            '' which does not exist in any input schema'']
      else []) @
     (case outs of
        Some cols \<Rightarrow> if la_downstream_column e \<notin> set cols
          then [''annotation references downstream column '' @ [CHR 0x27] @ la_downstream_column e @ [CHR 0x27] @
                '' which does not exist in the output schema'']
          else []
      | None \<Rightarrow> [])"

definition derive_annotation_lineage ::
  "node_id \<Rightarrow> lineage_annotations \<Rightarrow> (node_id \<times> string list) list \<Rightarrow> string list option \<Rightarrow> node_column_lineage" where
  "derive_annotation_lineage i annot inputs outs = (new_lineage i)\<lparr>
     nl_edges := map (\<lambda>e.
       \<lparr>ce_up_column = la_upstream_column e, ce_up_node = column_node inputs (la_upstream_column e), ce_up_resource = None,
        ce_down_column = la_downstream_column e, ce_down_node = Some i, ce_down_resource = None,
        ce_relationship = la_relationship e, ce_expression = None, ce_confidence = Annotation\<rparr>) annot,
     nl_warnings := concat (map (annotation_warnings inputs outs) annot)\<rparr>"

definition derive_source_boundary_lineage :: "node_id \<Rightarrow> fingerprint \<Rightarrow> string list \<Rightarrow> node_column_lineage" where
  "derive_source_boundary_lineage i fp cols = (new_lineage i)\<lparr>nl_edges := map (\<lambda>c.
     \<lparr>ce_up_column = c, ce_up_node = None, ce_up_resource = Some fp, ce_down_column = c, ce_down_node = Some i,
      ce_down_resource = None, ce_relationship = Direct, ce_expression = None, ce_confidence = Exact\<rparr>) cols\<rparr>"

definition derive_sink_boundary_lineage :: "node_id \<Rightarrow> fingerprint \<Rightarrow> string list \<Rightarrow> node_id \<Rightarrow> node_column_lineage" where
  "derive_sink_boundary_lineage i fp cols up = (new_lineage i)\<lparr>nl_edges := map (\<lambda>c.
     \<lparr>ce_up_column = c, ce_up_node = Some up, ce_up_resource = None, ce_down_column = c, ce_down_node = Some i,
      ce_down_resource = Some fp, ce_relationship = Direct, ce_expression = None, ce_confidence = Exact\<rparr>) cols\<rparr>"

end
