(* ===== verification/Storage.thy ===== *)
theory Storage
  imports Node_Lineage
begin

text \<open>
  \<open>storage.rs\<close>: the storage traits the executor is given.  A trait object is the record of its
  operations over a state; what a client relies on are the laws of two locales, both interpreted on
  the SQLite store.
\<close>

record 's storage =
  so_create_run :: "run_id \<Rightarrow> string \<Rightarrow> string \<Rightarrow> 's \<Rightarrow> (run_store_error + pipeline_run) \<times> 's"
  so_set_running :: "run_id \<Rightarrow> int \<Rightarrow> string option \<Rightarrow> 's \<Rightarrow> (run_store_error + unit) \<times> 's"
  so_finish_run :: "run_id \<Rightarrow> run_status \<Rightarrow> int \<Rightarrow> string option \<Rightarrow> 's \<Rightarrow> (run_store_error + unit) \<times> 's"
  so_save_test_results :: "run_id \<Rightarrow> test_summary list \<Rightarrow> 's \<Rightarrow> (run_store_error + unit) \<times> 's"
  so_save_node_stats :: "run_id \<Rightarrow> node_run_stats \<Rightarrow> 's \<Rightarrow> (run_store_error + unit) \<times> 's"
  so_save_failure_report :: "failure_report \<Rightarrow> 's \<Rightarrow> (run_store_error + unit) \<times> 's"
  so_load_state :: "'s \<Rightarrow> string \<Rightarrow> string \<Rightarrow> string \<Rightarrow> incremental_error + incremental_state option"
  so_save_state :: "incremental_state \<Rightarrow> 's \<Rightarrow> (incremental_error + unit) \<times> 's"
  so_latest_schema :: "'s \<Rightarrow> string \<Rightarrow> string \<Rightarrow> string \<Rightarrow> incremental_error + schema_record option"
  so_record_schema :: "schema_record \<Rightarrow> 's \<Rightarrow> (incremental_error + unit) \<times> 's"
  so_record_observation :: "observation \<Rightarrow> 's \<Rightarrow> (run_store_error + unit) \<times> 's"
  so_save_column_edges :: "string \<Rightarrow> string \<Rightarrow> stored_column_edge list \<Rightarrow> 's \<Rightarrow> (run_store_error + unit) \<times> 's"

definition sqlite_store :: "run_db storage" where
  "sqlite_store = \<lparr>so_create_run = create_run, so_set_running = set_running, so_finish_run = finish_run,
     so_save_test_results = save_test_results, so_save_node_stats = save_node_stats,
     so_save_failure_report = save_failure_report, so_load_state = load_state, so_save_state = save_state,
     so_latest_schema = latest_schema, so_record_schema = record_schema,
     so_record_observation = record_observation, so_save_column_edges = save_column_edges\<rparr>"

subsection \<open>The laws\<close>

text \<open>The statistics of a run by node.\<close>

definition node_view :: "node_run_stats list \<Rightarrow> node_id \<rightharpoonup> node_run_stats" where
  "node_view sts = map_of (map (\<lambda>st. (nr_node_id st, st)) sts)"

locale run_storage =
  fixes S :: "'s storage"
    and get :: "'s \<Rightarrow> run_id \<Rightarrow> run_store_error + pipeline_run option"
    and inv :: "'s \<Rightarrow> bool"
    and tm :: "int \<Rightarrow> int"
  assumes create: "inv s \<Longrightarrow> get s i = Ok None \<Longrightarrow>
      \<exists>s'. so_create_run S i pname env s = (Ok (new_run i pname env), s') \<and> inv s' \<and> get s' i = Ok (Some (new_run i pname env))"
    and running: "inv s \<Longrightarrow> get s i = Ok (Some r) \<Longrightarrow> time_ok t \<Longrightarrow>
      \<exists>s'. so_set_running S i t by s = (Ok (), s') \<and> inv s' \<and>
        get s' i = Ok (Some (r\<lparr>pr_status := RsRunning, pr_start_time := Some (tm t), pr_triggered_by := by\<rparr>))"
    and finish: "inv s \<Longrightarrow> get s i = Ok (Some r) \<Longrightarrow> time_ok t \<Longrightarrow>
      \<exists>s'. so_finish_run S i status t err s = (Ok (), s') \<and> inv s' \<and>
        get s' i = Ok (Some (r\<lparr>pr_status := status, pr_end_time := Some (tm t), pr_error := err\<rparr>))"
    and tests: "inv s \<Longrightarrow> get s i = Ok (Some r) \<Longrightarrow>
      \<exists>s'. so_save_test_results S i ts s = (Ok (), s') \<and> inv s' \<and> get s' i = Ok (Some (r\<lparr>pr_test_results := ts\<rparr>))"
    and stats: "inv s \<Longrightarrow> get s i = Ok (Some r) \<Longrightarrow> time_ok (nr_start_time st) \<Longrightarrow> time_ok (nr_end_time st) \<Longrightarrow>
      \<exists>s' ns. so_save_node_stats S i st s = (Ok (), s') \<and> inv s' \<and> get s' i = Ok (Some (r\<lparr>pr_node_stats := ns\<rparr>)) \<and>
        node_view ns = (node_view (pr_node_stats r))(nr_node_id st \<mapsto>
          st\<lparr>nr_start_time := tm (nr_start_time st), nr_end_time := tm (nr_end_time st)\<rparr>)"
    and others: "inv s \<Longrightarrow> f \<in> {so_save_failure_report S rep, \<lambda>s. (Ok (), snd (so_save_state S state s)),
        \<lambda>s. (Ok (), snd (so_record_schema S sch s)), so_record_observation S ob, so_save_column_edges S pid env es} \<Longrightarrow>
      inv (snd (f s)) \<and> get (snd (f s)) i = get s i"

locale state_storage =
  fixes S :: "'s storage"
    and inv :: "'s \<Rightarrow> bool"
  assumes save: "inv s \<Longrightarrow> state_type_ok st \<Longrightarrow> \<exists>s'. so_save_state S st s = (Ok (), s') \<and> inv s' \<and>
      so_load_state S s' pid i env = (if (pid, i, env) = state_key st then Ok (Some st) else so_load_state S s pid i env)"
    and keeps: "inv s \<Longrightarrow> f \<in> {\<lambda>s. snd (so_create_run S ri pname env s), \<lambda>s. snd (so_set_running S ri t by s),
        \<lambda>s. snd (so_finish_run S ri status t err s), \<lambda>s. snd (so_save_test_results S ri ts s),
        \<lambda>s. snd (so_save_node_stats S ri ns s), \<lambda>s. snd (so_save_failure_report S rep s),
        \<lambda>s. snd (so_record_schema S sch s), \<lambda>s. snd (so_record_observation S ob s),
        \<lambda>s. snd (so_save_column_edges S cpid cenv es s)} \<Longrightarrow>
      inv (f s) \<and> so_load_state S (f s) = so_load_state S s"

subsection \<open>The SQLite store keeps them\<close>

lemma get_run_found:
  "get_run db i = Ok (Some r) \<Longrightarrow> \<exists>row. find (\<lambda>r. rr_id r = i) (rd_runs db) = Some row \<and> load_run db row = Ok r \<and>
     rr_id row = i \<and> pr_id r = i \<and> i \<in> set (run_ids db)"
proof -
  assume "get_run db i = Ok (Some r)"
  then obtain row where row: "find (\<lambda>r. rr_id r = i) (rd_runs db) = Some row" "load_run db row = Ok r"
    by (auto simp: get_run_def split: option.splits sum.splits)
  then have "rr_id row = i" "row \<in> set (rd_runs db)" by (auto simp: find_Some_iff)
  then show ?thesis using row by (auto simp: load_run_def row_to_pipeline_run_def run_ids_def split: option.splits)
qed

lemma get_run_none: "runs_ok db \<Longrightarrow> get_run db i = Ok None \<longleftrightarrow> i \<notin> set (run_ids db)"
  by (cases "find (\<lambda>r. rr_id r = i) (rd_runs db)")
     (auto simp: get_run_def run_ids_def find_key_None [symmetric] split: sum.splits)

text \<open>Updating a row updates what is read of it.\<close>

lemma find_update_run:
  assumes "\<And>r. rr_id (f r) = rr_id r"
  shows "find (\<lambda>r. rr_id r = i) (rd_runs (update_run i f db)) = map_option f (find (\<lambda>r. rr_id r = i) (rd_runs db))"
proof -
  have "find (\<lambda>r. rr_id r = i) (map (\<lambda>r. if rr_id r = i then f r else r) rs) = map_option f (find (\<lambda>r. rr_id r = i) rs)" for rs
    by (induction rs) (simp_all add: assms)
  then show ?thesis by (simp add: update_run_def)
qed

lemma get_update_run:
  assumes "get_run db i = Ok (Some r)" "\<And>r. rr_id (f r) = rr_id r"
    "\<And>row r. row_to_pipeline_run row = Ok r \<Longrightarrow> row_to_pipeline_run (f row) = Ok (g r)"
    "\<And>r. pr_id (g r) = pr_id r" "\<And>r ns. g (r\<lparr>pr_node_stats := ns\<rparr>) = (g r)\<lparr>pr_node_stats := ns\<rparr>"
  shows "get_run (update_run i f db) i = Ok (Some (g r))"
proof -
  obtain row where row: "find (\<lambda>r. rr_id r = i) (rd_runs db) = Some row" "load_run db row = Ok r"
    using get_run_found [OF assms(1)] by blast
  then obtain r0 where r0: "row_to_pipeline_run row = Ok r0" "r = r0\<lparr>pr_node_stats := load_node_stats db (pr_id r0)\<rparr>"
    by (auto simp: load_run_def split: sum.splits)
  have "load_node_stats (update_run i f db) = load_node_stats db" by (simp add: load_node_stats_def update_run_def fun_eq_iff)
  then have "load_run (update_run i f db) (f row) = Ok (g r)"
    using assms(3) [OF r0(1)] r0(2) assms(4,5) by (simp add: load_run_def)
  then show ?thesis using row(1) find_update_run [of f i db, OF assms(2)] by (simp add: get_run_def)
qed

lemma node_view_iff:
  assumes "runs_ok db"
  shows "node_view (load_node_stats db i) n = Some st \<longleftrightarrow> (\<exists>s \<in> set (rd_stats db). stats_key s = (i, n) \<and> st = row_to_stats s)"
proof -
  let ?rows = "filter (\<lambda>s. sw_run_id s = i) (rd_stats db)"
  let ?xs = "map (\<lambda>s. (sw_node_id s, row_to_stats s)) (sort_key sw_start_ms ?rows)"
  have view: "node_view (load_node_stats db i) = map_of ?xs"
    by (simp add: node_view_def load_node_stats_def comp_def row_to_stats_def)
  have "distinct (map stats_key ?rows)" using assms by (auto simp: runs_ok_def keys_filter)
  then have "distinct (map sw_node_id ?rows)"
    by (auto simp: distinct_map inj_on_def stats_key_def)
  then have "distinct (map fst ?xs)" by (simp add: comp_def distinct_map)
  then show ?thesis unfolding view map_of_eq_Some_iff by (force simp: stats_key_def)
qed

lemma option_eqI: "(\<And>y. a = Some y \<longleftrightarrow> b = Some y) \<Longrightarrow> a = b"
  by (cases a; cases b) auto

lemma node_view_saved:
  assumes "runs_ok db" "i \<in> set (run_ids db)" "time_ok (nr_start_time st)" "time_ok (nr_end_time st)"
  shows "node_view (load_node_stats (snd (save_node_stats i st db)) i) =
    (node_view (load_node_stats db i))(nr_node_id st \<mapsto> stored_stats st)"
proof (rule ext, rule option_eqI)
  fix n y
  let ?db = "snd (save_node_stats i st db)" and ?row = "stats_to_row i st"
  have "run_ids ?db = run_ids db" "rd_runs ?db = rd_runs db" by (simp_all add: save_node_stats_def run_ids_def)
  then have "runs_ok ?db"
    using assms(1,2) by (auto simp: runs_ok_def save_node_stats_def keys_simps set_insert_or_replace stats_to_row_def)
  then have "node_view (load_node_stats ?db i) n = Some y \<longleftrightarrow>
      (\<exists>s \<in> insert ?row {s \<in> set (rd_stats db). stats_key s \<noteq> stats_key ?row}. stats_key s = (i, n) \<and> y = row_to_stats s)"
    using assms(2) by (simp add: node_view_iff save_node_stats_def set_insert_or_replace)
  also have "\<dots> \<longleftrightarrow> (if n = nr_node_id st then y = stored_stats st
      else (\<exists>s \<in> set (rd_stats db). stats_key s = (i, n) \<and> y = row_to_stats s))"
    using row_to_stats_roundtrip [OF assms(3,4), of i] by (auto simp: stats_key_def stats_to_row_def)
  also have "\<dots> \<longleftrightarrow> ((node_view (load_node_stats db i))(nr_node_id st \<mapsto> stored_stats st)) n = Some y"
    using node_view_iff [OF assms(1), of i n y] by auto
  finally show "node_view (load_node_stats ?db i) n = Some y \<longleftrightarrow>
      ((node_view (load_node_stats db i))(nr_node_id st \<mapsto> stored_stats st)) n = Some y" .
qed

lemma get_saved_stats:
  assumes "get_run db i = Ok (Some r)"
  shows "get_run (snd (save_node_stats i st db)) i =
    Ok (Some (r\<lparr>pr_node_stats := load_node_stats (snd (save_node_stats i st db)) i\<rparr>))"
proof -
  obtain row where row: "find (\<lambda>r. rr_id r = i) (rd_runs db) = Some row" "load_run db row = Ok r" "pr_id r = i" "i \<in> set (run_ids db)"
    using get_run_found [OF assms] by blast
  have "rd_runs (snd (save_node_stats i st db)) = rd_runs db" by (simp add: save_node_stats_def)
  then show ?thesis using row by (auto simp: get_run_def load_run_def split: sum.splits)
qed

lemma get_run_stats: "get_run db i = Ok (Some r) \<Longrightarrow> pr_node_stats r = load_node_stats db i"
proof -
  assume "get_run db i = Ok (Some r)"
  then obtain row where row: "load_run db row = Ok r" "pr_id r = i" using get_run_found by blast
  then obtain r0 where "r = r0\<lparr>pr_node_stats := load_node_stats db (pr_id r0)\<rparr>"
    by (auto simp: load_run_def split: sum.splits)
  then show ?thesis using row(2) by simp
qed

lemma get_run_same: "rd_runs db' = rd_runs db \<Longrightarrow> rd_stats db' = rd_stats db \<Longrightarrow> get_run db' i = get_run db i"
proof -
  assume same: "rd_runs db' = rd_runs db" "rd_stats db' = rd_stats db"
  then have "load_node_stats db' = load_node_stats db" by (simp add: load_node_stats_def fun_eq_iff)
  then have "load_run db' = load_run db" by (intro ext) (simp add: load_run_def split: sum.split)
  then show ?thesis using same by (simp add: get_run_def split: option.split)
qed

lemma get_created:
  assumes "run_db_ok db" "i \<notin> set (run_ids db)"
  shows "get_run (snd (create_run i pname env db)) i = Ok (Some (new_run i pname env))"
proof -
  have "find (\<lambda>r. rr_id r = i) (rd_runs db) = None" using assms(2) by (simp add: find_key_None run_ids_def)
  moreover have "filter (\<lambda>s. sw_run_id s = i) (rd_stats db) = []"
    using assms by (auto simp: run_db_ok_def runs_ok_def filter_empty_conv)
  ultimately show ?thesis using assms(2)
    by (simp add: create_run_def get_run_def find_snoc load_run_def row_to_pipeline_run_def parse_run_status_def
        load_node_stats_def new_run_def)
qed

interpretation sql: run_storage sqlite_store get_run run_db_ok stored_time
proof (unfold_locales, goal_cases)
  case (1 s i pname env)
  then have "i \<notin> set (run_ids s)" by (simp add: run_db_ok_def get_run_none)
  moreover from this have "create_run i pname env s = (Ok (new_run i pname env), snd (create_run i pname env s))"
    by (simp add: create_run_def)
  ultimately show ?case using 1 run_db_ok_create get_created by (simp add: sqlite_store_def) blast
next
  case (2 s i r t tb)
  note mem = get_run_found [OF 2(2)]
  let ?f = "\<lambda>r. r\<lparr>rr_status := run_status_str RsRunning, rr_start_ms := Some (system_time_to_ms t), rr_triggered_by := tb\<rparr>"
  have "get_run (update_run i ?f s) i = Ok (Some (r\<lparr>pr_status := RsRunning, pr_start_time := Some (stored_time t), pr_triggered_by := tb\<rparr>))"
    by (rule get_update_run [OF 2(2)]) (use 2(3) in \<open>auto simp: row_to_pipeline_run_def parse_run_status_def split: option.splits\<close>)
  then show ?case using mem run_db_ok_running [OF 2(1), of i t tb] by (auto simp: sqlite_store_def set_running_def)
next
  case (3 s i r t status err)
  note mem = get_run_found [OF 3(2)]
  let ?f = "\<lambda>r. r\<lparr>rr_status := run_status_str status, rr_end_ms := Some (system_time_to_ms t), rr_error := err\<rparr>"
  have "get_run (update_run i ?f s) i = Ok (Some (r\<lparr>pr_status := status, pr_end_time := Some (stored_time t), pr_error := err\<rparr>))"
    by (rule get_update_run [OF 3(2)]) (use 3(3) in \<open>auto simp: row_to_pipeline_run_def split: option.splits\<close>)
  then show ?case using mem run_db_ok_finish [OF 3(1), of i status t err] by (auto simp: sqlite_store_def finish_run_def)
next
  case (4 s i r ts)
  have "get_run (update_run i (\<lambda>r. r\<lparr>rr_test_results := Some ts\<rparr>) s) i = Ok (Some (r\<lparr>pr_test_results := ts\<rparr>))"
    by (rule get_update_run [OF 4(2)]) (auto simp: row_to_pipeline_run_def split: option.splits)
  then show ?case using run_db_ok_tests [OF 4(1), of i ts] by (auto simp: sqlite_store_def save_test_results_def)
next
  case (5 s i r st)
  have mem: "i \<in> set (run_ids s)" using get_run_found [OF 5(2)] by blast
  have ok: "runs_ok s" using 5(1) by (simp add: run_db_ok_def)
  have "save_node_stats i st s = (Ok (), snd (save_node_stats i st s))" using mem by (simp add: save_node_stats_def)
  then show ?case
    using get_saved_stats [OF 5(2), of st] node_view_saved [OF ok _ 5(3,4), of i] mem run_db_ok_stats [OF 5(1), of i st]
      get_run_stats [OF 5(2)]
    by (simp add: sqlite_store_def stored_stats_def) blast
next
  case (6 s f rep state sch ob pid env es i)
  have "snd (f s) = snd (save_failure_report rep s) \<or> snd (f s) = snd (save_state state s) \<or> snd (f s) = snd (record_schema sch s) \<or>
      snd (f s) = snd (record_observation ob s) \<or> snd (f s) = snd (save_column_edges pid env es s)"
    using 6(2) by (auto simp: sqlite_store_def)
  note options = this
  from options have "run_step s (snd (f s))" by (elim disjE) (simp_all only: run_step.intros)
  moreover from options have "rd_runs (snd (f s)) = rd_runs s \<and> rd_stats (snd (f s)) = rd_stats s"
    by (elim disjE) (simp_all add: save_failure_report_def save_state_def record_schema_def
        record_observation_def save_column_edges_def)
  ultimately show ?case using run_db_ok_step 6(1) get_run_same by blast
qed

interpretation sqls: state_storage sqlite_store run_db_ok
proof (unfold_locales, goal_cases)
  case (1 s st pid i env)
  then have "save_state st s = (Ok (), snd (save_state st s))" by (simp add: save_state_def)
  moreover have "run_db_ok (snd (save_state st s))" using 1(1) by (simp add: run_db_ok_def runs_ok_records records_ok_step)
  moreover have "load_state (snd (save_state st s)) pid i env = (if (pid, i, env) = state_key st then Ok (Some st) else load_state s pid i env)"
    using 1(2) by (simp add: load_state_def save_state_def find_upsert)
  ultimately show ?case by (intro exI [of _ "snd (save_state st s)"]) (simp add: sqlite_store_def)
next
  case (2 s f ri pname env t tb status err ts ns rep sch ob cpid cenv es)
  have "f s = snd (create_run ri pname env s) \<or> f s = snd (set_running ri t tb s) \<or> f s = snd (finish_run ri status t err s) \<or>
      f s = snd (save_test_results ri ts s) \<or> f s = snd (save_node_stats ri ns s) \<or> f s = snd (save_failure_report rep s) \<or>
      f s = snd (record_schema sch s) \<or> f s = snd (record_observation ob s) \<or> f s = snd (save_column_edges cpid cenv es s)"
    using 2(2) by (auto simp: sqlite_store_def)
  note options = this
  from options have "run_step s (f s)" by (elim disjE) (simp_all only: run_step.intros)
  moreover from options have "rd_states (f s) = rd_states s"
    by (elim disjE) (simp_all add: create_run_def set_running_def finish_run_def save_test_results_def
        save_node_stats_def save_failure_report_def record_schema_def record_observation_def save_column_edges_def update_run_def)
  ultimately show ?case using run_db_ok_step 2(1) by (auto simp: sqlite_store_def load_state_def fun_eq_iff)
qed

end
