(* ===== verification/Secrets.thy ===== *)
theory Secrets
  imports Json "HOL-Library.Product_Lexorder"
begin

text \<open>
  The crate \<open>armillary-secrets\<close>: the encrypted store (\<open>store.rs\<close>, \<open>crypto.rs\<close>), the references
  to secrets in configurations (\<open>resolve.rs\<close>) and their removal from messages (\<open>scrub.rs\<close>).
  Bytes are characters.  AES-256-GCM, Argon2, the random salt and nonce, the clock and the two
  regular expressions are parameters; errors of SQLite other than a missing row are not modelled.
\<close>

datatype secret_error =
    SxNotFound string
  | SxEncryption string
  | SxDecryption string
  | SxDatabase string
  | SxNotInitialized
  | SxAlreadyInitialized
  | SxInvalidReference string

fun show_secret_error :: "secret_error \<Rightarrow> string" where
  "show_secret_error (SxNotFound s) = ''secret not found: '' @ s"
| "show_secret_error (SxEncryption s) = ''encryption error: '' @ s"
| "show_secret_error (SxDecryption s) = ''decryption error: '' @ s"
| "show_secret_error (SxDatabase s) = ''database error: '' @ s"
| "show_secret_error SxNotInitialized =
     ''secret store not initialized '' @ [CHR 0xe2, CHR 0x80, CHR 0x94] @ '' run `armillary secret init` first''"
| "show_secret_error SxAlreadyInitialized = ''secret store already initialized''"
| "show_secret_error (SxInvalidReference s) = ''invalid secret reference: '' @ s"

subsection \<open>Encryption\<close>

text \<open>The cipher under a key and nonce, and the key derivation; their errors as text.\<close>

record crypto =
  cy_seal :: "string \<Rightarrow> string \<Rightarrow> string \<Rightarrow> string + string"
  cy_open :: "string \<Rightarrow> string \<Rightarrow> string \<Rightarrow> string + string"
  cy_derive :: "string \<Rightarrow> string \<Rightarrow> string + string"

definition NONCE_LEN :: nat where "NONCE_LEN = 12"

definition derive_key :: "crypto \<Rightarrow> string \<Rightarrow> string \<Rightarrow> secret_error + string" where
  "derive_key C password salt = (case cy_derive C password salt of
      Inl e \<Rightarrow> Err (SxEncryption (''key derivation failed: '' @ e)) | Inr key \<Rightarrow> Ok key)"

definition encrypt :: "crypto \<Rightarrow> string \<Rightarrow> string \<Rightarrow> string \<Rightarrow> secret_error + string" where
  "encrypt C key nonce plaintext = (case cy_seal C key nonce plaintext of
      Inl e \<Rightarrow> Err (SxEncryption (''encryption failed: '' @ e)) | Inr ct \<Rightarrow> Ok (nonce @ ct))"

definition decrypt :: "crypto \<Rightarrow> string \<Rightarrow> string \<Rightarrow> secret_error + string" where
  "decrypt C key data =
     (if length data < NONCE_LEN then Err (SxDecryption ''ciphertext too short'')
      else (case cy_open C key (take NONCE_LEN data) (drop NONCE_LEN data) of
          Inl e \<Rightarrow> Err (SxDecryption (''decryption failed: '' @ e)) | Inr pt \<Rightarrow> Ok pt))"

subsection \<open>The store\<close>

record secret_row =
  sx_name :: string
  sx_environment :: string
  sx_value :: string
  sx_created_at :: string
  sx_updated_at :: string

record secret_db =
  sd_salt :: "string option"
  sd_verification :: "string option"
  sd_rows :: "secret_row list"

record secret_store =
  ss_db :: secret_db
  ss_key :: string

record secret_metadata =
  sm_name :: string
  sm_environment :: "string option"
  sm_created_at :: string
  sm_updated_at :: string

definition empty_secret_db :: secret_db where
  "empty_secret_db = \<lparr>sd_salt = None, sd_verification = None, sd_rows = []\<rparr>"

definition verification_text :: string where
  "verification_text = ''horizon-armillary-secrets''"

text \<open>The file at the path is an option; \<open>salt\<close> and \<open>nonce\<close> are what the generator draws.\<close>

definition init_store ::
  "crypto \<Rightarrow> string \<Rightarrow> string \<Rightarrow> string \<Rightarrow> secret_db option \<Rightarrow> (secret_error + secret_store) \<times> secret_db option" where
  "init_store C salt nonce password file =
     (let db = (case file of None \<Rightarrow> empty_secret_db | Some db \<Rightarrow> db)
      in if sd_salt db \<noteq> None \<or> sd_verification db \<noteq> None then (Err SxAlreadyInitialized, Some db)
         else (case derive_key C password salt of
             Inl e \<Rightarrow> (Err e, Some db)
           | Inr key \<Rightarrow> (case encrypt C key nonce verification_text of
                 Inl e \<Rightarrow> (Err e, Some db)
               | Inr v \<Rightarrow> let db' = db\<lparr>sd_salt := Some salt, sd_verification := Some v\<rparr>
                   in (Ok \<lparr>ss_db = db', ss_key = key\<rparr>, Some db'))))"

definition open_store :: "crypto \<Rightarrow> string \<Rightarrow> secret_db option \<Rightarrow> secret_error + secret_store" where
  "open_store C password file = (case file of
      None \<Rightarrow> Err SxNotInitialized
    | Some db \<Rightarrow> (case sd_salt db of
          None \<Rightarrow> Err SxNotInitialized
        | Some salt \<Rightarrow> (case derive_key C password salt of
              Inl e \<Rightarrow> Err e
            | Inr key \<Rightarrow> (case sd_verification db of
                  None \<Rightarrow> Err (SxDatabase ''Query returned no rows'')
                | Some v \<Rightarrow> (case decrypt C key v of
                      Inl _ \<Rightarrow> Err (SxDecryption ''incorrect password'')
                    | Inr pt \<Rightarrow>
                        if pt \<noteq> verification_text then Err (SxDecryption ''incorrect password'')
                        else Ok \<lparr>ss_db = db, ss_key = key\<rparr>)))))"

definition open_or_init ::
  "crypto \<Rightarrow> string \<Rightarrow> string \<Rightarrow> string \<Rightarrow> secret_db option \<Rightarrow> (secret_error + secret_store) \<times> secret_db option" where
  "open_or_init C salt nonce password file =
     (if file \<noteq> None then (open_store C password file, file) else init_store C salt nonce password file)"

definition is_initialized :: "secret_db option \<Rightarrow> bool" where
  "is_initialized file = (case file of None \<Rightarrow> False | Some db \<Rightarrow> sd_salt db \<noteq> None)"

definition env_text_of :: "string option \<Rightarrow> string" where
  "env_text_of environment = (case environment of None \<Rightarrow> [] | Some e \<Rightarrow> e)"

definition row_key :: "secret_row \<Rightarrow> string \<times> string" where
  "row_key r = (sx_name r, sx_environment r)"




definition list_secrets :: "secret_store \<Rightarrow> secret_metadata list" where
  "list_secrets S = map (\<lambda>r. \<lparr>sm_name = sx_name r,
     sm_environment = (if sx_environment r = [] then None else Some (sx_environment r)),
     sm_created_at = sx_created_at r, sm_updated_at = sx_updated_at r\<rparr>) (sort_key row_key (sd_rows (ss_db S)))"

definition delete_secret :: "string \<Rightarrow> string option \<Rightarrow> secret_store \<Rightarrow> secret_error + secret_store" where
  "delete_secret name environment S =
     (let k = (name, env_text_of environment); rows = sd_rows (ss_db S)
      in if k \<notin> row_key ` set rows then Err (SxNotFound name)
         else Ok (S\<lparr>ss_db := (ss_db S)\<lparr>sd_rows := filter (\<lambda>r. row_key r \<noteq> k) rows\<rparr>\<rparr>))"

subsection \<open>References in configurations\<close>

definition byte :: "char \<Rightarrow> nat" where "byte c = of_char c"

definition continuation :: "char \<Rightarrow> bool" where
  "continuation c \<longleftrightarrow> 0x80 \<le> byte c \<and> byte c \<le> 0xbf"

text \<open>What \<open>String::from_utf8\<close> accepts.\<close>

function valid_utf8 :: "string \<Rightarrow> bool" where
  "valid_utf8 [] = True"
| "valid_utf8 (a # s) =
     (if byte a < 0x80 then valid_utf8 s
      else if 0xc2 \<le> byte a \<and> byte a \<le> 0xdf then (case s of
          b # t \<Rightarrow> continuation b \<and> valid_utf8 t | _ \<Rightarrow> False)
      else if 0xe0 \<le> byte a \<and> byte a \<le> 0xef then (case s of
          b # c # t \<Rightarrow> continuation b \<and> (byte a = 0xe0 \<longrightarrow> 0xa0 \<le> byte b) \<and> (byte a = 0xed \<longrightarrow> byte b \<le> 0x9f) \<and>
            continuation c \<and> valid_utf8 t
        | _ \<Rightarrow> False)
      else if 0xf0 \<le> byte a \<and> byte a \<le> 0xf4 then (case s of
          b # c # d # t \<Rightarrow> continuation b \<and> (byte a = 0xf0 \<longrightarrow> 0x90 \<le> byte b) \<and> (byte a = 0xf4 \<longrightarrow> byte b \<le> 0x8f) \<and>
            continuation c \<and> continuation d \<and> valid_utf8 t
        | _ \<Rightarrow> False)
      else False)"
  by pat_completeness auto
termination
  by (relation "measure length") auto

lemma find_str_length: "find_str p s = Some (a, b) \<Longrightarrow> length s = length a + length p + length b"
  by (drule find_str_Some) simp

text \<open>What stands between two pairs of braces: the secret's name if it is a reference to one.\<close>

definition secret_name :: "string \<Rightarrow> string option" where
  "secret_name body = map_option trim (strip_prefix ''secret:'' (trim body))"

definition secret_text :: "(string \<Rightarrow> secret_error + string) \<Rightarrow> string \<Rightarrow> secret_error + string" where
  "secret_text look name =
     (if name = [] then Err (SxInvalidReference ''empty secret name in {{ secret: }}'')
      else (case look name of
          Inl e \<Rightarrow> Err e
        | Inr v \<Rightarrow>
            if valid_utf8 v then Ok v
            else Err (SxDecryption (''secret '' @ [CHR 0x27] @ name @ [CHR 0x27] @ '' is not valid UTF-8''))))"

function resolve_secrets :: "(string \<Rightarrow> secret_error + string) \<Rightarrow> string \<Rightarrow> secret_error + string" where
  "resolve_secrets look s = (case find_str ''{{'' s of
      None \<Rightarrow> Ok s
    | Some (a, after) \<Rightarrow> (case find_str ''}}'' after of
          None \<Rightarrow> Ok s
        | Some (body, rest) \<Rightarrow>
            (case (case secret_name body of
                None \<Rightarrow> Ok (''{{'' @ body @ ''}}'')
              | Some name \<Rightarrow> secret_text look name) of
               Inl e \<Rightarrow> Err e
             | Inr t \<Rightarrow> (case resolve_secrets look rest of
                   Inl e \<Rightarrow> Err e
                 | Inr r \<Rightarrow> Ok (a @ t @ r)))))"
  by pat_completeness auto
termination
  by (relation "measure (\<lambda>(look, s). length s)") (auto dest!: find_str_length)

function resolve_secrets_collecting ::
  "(string \<Rightarrow> secret_error + string) \<Rightarrow> string \<Rightarrow> secret_error + string \<times> string list" where
  "resolve_secrets_collecting look s = (case find_str ''{{'' s of
      None \<Rightarrow> Ok (s, [])
    | Some (a, after) \<Rightarrow> (case find_str ''}}'' after of
          None \<Rightarrow> Ok (s, [])
        | Some (body, rest) \<Rightarrow>
            (case (case secret_name body of
                None \<Rightarrow> Ok (''{{'' @ body @ ''}}'', [])
              | Some name \<Rightarrow> (case secret_text look name of Inl e \<Rightarrow> Err e | Inr v \<Rightarrow> Ok (v, [v]))) of
               Inl e \<Rightarrow> Err e
             | Inr (t, vs) \<Rightarrow> (case resolve_secrets_collecting look rest of
                   Inl e \<Rightarrow> Err e
                 | Inr (r, ws) \<Rightarrow> Ok (a @ t @ r, vs @ ws)))))"
  by pat_completeness auto
termination
  by (relation "measure (\<lambda>(look, s). length s)") (auto dest!: find_str_length)

function has_secret_refs :: "string \<Rightarrow> bool" where
  "has_secret_refs s = (case find_str ''{{'' s of
      None \<Rightarrow> False
    | Some (a, after) \<Rightarrow> (case find_str ''}}'' after of
          None \<Rightarrow> False
        | Some (body, rest) \<Rightarrow> starts_with ''secret:'' (trim body) \<or> has_secret_refs rest))"
  by pat_completeness auto
termination
  by (relation "measure length") (auto dest!: find_str_length)

declare resolve_secrets.simps [simp del] resolve_secrets_collecting.simps [simp del] has_secret_refs.simps [simp del]

fun resolve_json_secrets :: "(string \<Rightarrow> secret_error + string) \<Rightarrow> json \<Rightarrow> secret_error + json"
  and resolve_fields :: "(string \<Rightarrow> secret_error + string) \<Rightarrow> (string \<times> json) list \<Rightarrow> secret_error + (string \<times> json) list"
  and resolve_values :: "(string \<Rightarrow> secret_error + string) \<Rightarrow> json list \<Rightarrow> secret_error + json list" where
  "resolve_json_secrets look (JString s) =
     (if has_secret_refs s then (case resolve_secrets look s of Inl e \<Rightarrow> Err e | Inr t \<Rightarrow> Ok (JString t)) else Ok (JString s))"
| "resolve_json_secrets look (JObject m) = (case resolve_fields look m of Inl e \<Rightarrow> Err e | Inr m' \<Rightarrow> Ok (JObject m'))"
| "resolve_json_secrets look (JArray vs) = (case resolve_values look vs of Inl e \<Rightarrow> Err e | Inr ws \<Rightarrow> Ok (JArray ws))"
| "resolve_json_secrets look JNull = Ok JNull"
| "resolve_json_secrets look (JBool b) = Ok (JBool b)"
| "resolve_json_secrets look (JNumber n) = Ok (JNumber n)"
| "resolve_fields look [] = Ok []"
| "resolve_fields look ((k, v) # m) = (case resolve_json_secrets look v of
      Inl e \<Rightarrow> Err e
    | Inr v' \<Rightarrow> (case resolve_fields look m of Inl e \<Rightarrow> Err e | Inr m' \<Rightarrow> Ok ((k, v') # m')))"
| "resolve_values look [] = Ok []"
| "resolve_values look (v # vs) = (case resolve_json_secrets look v of
      Inl e \<Rightarrow> Err e
    | Inr v' \<Rightarrow> (case resolve_values look vs of Inl e \<Rightarrow> Err e | Inr ws \<Rightarrow> Ok (v' # ws)))"

text \<open>The collecting traversal threads the list of the values substituted so far.\<close>

fun collect_json :: "(string \<Rightarrow> secret_error + string) \<Rightarrow> json \<Rightarrow> string list \<Rightarrow> secret_error + json \<times> string list"
  and collect_fields ::
    "(string \<Rightarrow> secret_error + string) \<Rightarrow> (string \<times> json) list \<Rightarrow> string list \<Rightarrow> secret_error + (string \<times> json) list \<times> string list"
  and collect_values :: "(string \<Rightarrow> secret_error + string) \<Rightarrow> json list \<Rightarrow> string list \<Rightarrow> secret_error + json list \<times> string list" where
  "collect_json look (JString s) acc =
     (if has_secret_refs s then (case resolve_secrets_collecting look s of
          Inl e \<Rightarrow> Err e | Inr (t, vs) \<Rightarrow> Ok (JString t, acc @ vs))
      else Ok (JString s, acc))"
| "collect_json look (JObject m) acc = (case collect_fields look m acc of
      Inl e \<Rightarrow> Err e | Inr (m', acc') \<Rightarrow> Ok (JObject m', acc'))"
| "collect_json look (JArray vs) acc = (case collect_values look vs acc of
      Inl e \<Rightarrow> Err e | Inr (ws, acc') \<Rightarrow> Ok (JArray ws, acc'))"
| "collect_json look JNull acc = Ok (JNull, acc)"
| "collect_json look (JBool b) acc = Ok (JBool b, acc)"
| "collect_json look (JNumber n) acc = Ok (JNumber n, acc)"
| "collect_fields look [] acc = Ok ([], acc)"
| "collect_fields look ((k, v) # m) acc = (case collect_json look v acc of
      Inl e \<Rightarrow> Err e
    | Inr (v', acc') \<Rightarrow> (case collect_fields look m acc' of
        Inl e \<Rightarrow> Err e | Inr (m', acc'') \<Rightarrow> Ok ((k, v') # m', acc'')))"
| "collect_values look [] acc = Ok ([], acc)"
| "collect_values look (v # vs) acc = (case collect_json look v acc of
      Inl e \<Rightarrow> Err e
    | Inr (v', acc') \<Rightarrow> (case collect_values look vs acc' of
        Inl e \<Rightarrow> Err e | Inr (ws, acc'') \<Rightarrow> Ok (v' # ws, acc'')))"

definition resolve_json_secrets_collecting ::
  "(string \<Rightarrow> secret_error + string) \<Rightarrow> json \<Rightarrow> secret_error + json \<times> string list" where
  "resolve_json_secrets_collecting look v = collect_json look v []"

subsection \<open>Scrubbing\<close>

definition redacted :: string where "redacted = ''[REDACTED]''"

text \<open>\<open>str::replace\<close> of a non-empty text.\<close>

function replace_str :: "string \<Rightarrow> string \<Rightarrow> string \<Rightarrow> string" where
  "replace_str pat new s = (case find_str pat s of
      None \<Rightarrow> s
    | Some (a, rest) \<Rightarrow> if pat = [] then s else a @ new @ replace_str pat new rest)"
  by pat_completeness auto
termination
  by (relation "measure (\<lambda>(pat, new, s). length s)") (auto dest!: find_str_length)

declare replace_str.simps [simp del]

text \<open>The two replacements by regular expression, of a password in a URI and behind a key.\<close>

record scrub_regexes =
  sr_uri :: "string \<Rightarrow> string"
  sr_kv :: "string \<Rightarrow> string"

definition scrub_connection_strings :: "scrub_regexes \<Rightarrow> string \<Rightarrow> string" where
  "scrub_connection_strings R text =
     (let t1 = (if sr_uri R text \<noteq> text then sr_uri R text else text)
      in if sr_kv R t1 \<noteq> t1 then sr_kv R t1 else t1)"

definition scrub_secrets :: "scrub_regexes \<Rightarrow> string \<Rightarrow> string list \<Rightarrow> string" where
  "scrub_secrets R text known =
     (if text = [] then []
      else scrub_connection_strings R (fold (\<lambda>v s. replace_str v redacted s)
        (sort_desc length (filter (\<lambda>v. v \<noteq> []) known)) text))"

section \<open>Properties\<close>

subsection \<open>Collecting\<close>

definition forget :: "secret_error + 'a \<times> 'b \<Rightarrow> secret_error + 'a" where
  "forget r = (case r of Inl e \<Rightarrow> Err e | Inr (a, _) \<Rightarrow> Ok a)"

lemma forget_simps [simp]: "forget (Inl e) = Err e" "forget (Inr p) = Ok (fst p)"
  by (simp_all add: forget_def split_beta)

lemma collecting_text: "resolve_secrets look s = forget (resolve_secrets_collecting look s)"
proof (induction look s rule: resolve_secrets.induct)
  case (1 look s)
  show ?case
  proof (cases "find_str ''{{'' s")
    case None
    then show ?thesis by (simp add: resolve_secrets.simps [of look s] resolve_secrets_collecting.simps [of look s])
  next
    case (Some p)
    obtain a after where p: "p = (a, after)" by (cases p)
    show ?thesis
    proof (cases "find_str ''}}'' after")
      case None
      then show ?thesis using Some p
        by (simp add: resolve_secrets.simps [of look s] resolve_secrets_collecting.simps [of look s])
    next
      case closed: (Some q)
      obtain body rest where q: "q = (body, rest)" by (cases q)
      note found = Some [unfolded p] closed [unfolded q]
      have ih: "resolve_secrets look rest = forget (resolve_secrets_collecting look rest)"
        if "(case secret_name body of None \<Rightarrow> Ok (''{{'' @ body @ ''}}'') | Some name \<Rightarrow> secret_text look name) = Ok t" for t
        by (rule 1 [OF found(1) refl found(2) refl that])
      show ?thesis using ih
        by (cases "secret_name body"; cases "secret_text look (the (secret_name body))";
            cases "resolve_secrets_collecting look rest")
           (auto simp: resolve_secrets.simps [of look s] resolve_secrets_collecting.simps [of look s] found)
    qed
  qed
qed

lemma collecting_json:
  "resolve_json_secrets look v = forget (collect_json look v acc)"
  "resolve_fields look m = forget (collect_fields look m acc)"
  "resolve_values look vs = forget (collect_values look vs acc)"
proof (induction look v and look m and look vs arbitrary: acc and acc and acc
    rule: resolve_json_secrets_resolve_fields_resolve_values.induct)
  case (1 look s)
  then show ?case by (cases "resolve_secrets_collecting look s") (simp_all add: collecting_text split_beta)
next
  case (2 look m)
  show ?case using 2 [of acc] by (cases "collect_fields look m acc") (simp_all add: split_beta)
next
  case (3 look vs)
  show ?case using 3 [of acc] by (cases "collect_values look vs acc") (simp_all add: split_beta)
next
  case (8 look k v m)
  show ?case
  proof (cases "collect_json look v acc")
    case (Inl e)
    then show ?thesis using 8(1) [of acc] by simp
  next
    case (Inr p)
    then show ?thesis using 8(1) [of acc] 8(2) [of _ "snd p"]
      by (cases "collect_fields look m (snd p)") (simp_all add: split_beta)
  qed
next
  case (10 look v vs)
  show ?case
  proof (cases "collect_json look v acc")
    case (Inl e)
    then show ?thesis using 10(1) [of acc] by simp
  next
    case (Inr p)
    then show ?thesis using 10(1) [of acc] 10(2) [of _ "snd p"]
      by (cases "collect_values look vs (snd p)") (simp_all add: split_beta)
  qed
qed simp_all

subsection \<open>The store\<close>




subsection \<open>Scrubbing\<close>

text \<open>A text without brackets that does not stand inside the marker.\<close>

definition plain_value :: "string \<Rightarrow> bool" where
  "plain_value v \<longleftrightarrow> v \<noteq> [] \<and> CHR ''['' \<notin> set v \<and> CHR '']'' \<notin> set v \<and> \<not> contains_str v ''REDACTED''"

lemma infix_split:
  assumes "x @ c # y = a @ v @ b" "c \<notin> set v"
  shows "contains_str v x \<or> contains_str v y"
proof -
  from assms(1) consider us where "x = a @ us" "us @ c # y = v @ b" | us where "a = x @ us" "c # y = us @ v @ b"
    by (auto simp: append_eq_append_conv2)
  then show ?thesis
  proof cases
    case 1
    then consider ws where "us = v @ ws" | ws where "v = us @ ws" "c # y = ws @ b"
      by (auto simp: append_eq_append_conv2)
    then show ?thesis
    proof cases
      case (1 ws)
      then have "x = a @ v @ ws" using \<open>x = a @ us\<close> by simp
      then show ?thesis by (auto simp: contains_str_iff)
    next
      case (2 ws)
      then have "ws = []" using assms(2) by (cases ws) auto
      then have "x = a @ v @ []" using 2 \<open>x = a @ us\<close> by simp
      then show ?thesis unfolding contains_str_iff by blast
    qed
  next
    case (2 us)
    show ?thesis
    proof (cases us)
      case Nil
      with 2 assms(2) have "v = []" by (cases v) auto
      then show ?thesis unfolding contains_str_iff by (metis append_Nil)
    next
      case (Cons u us')
      then have "y = us' @ v @ b" using 2 by simp
      then show ?thesis by (auto simp: contains_str_iff)
    qed
  qed
qed

lemma contains_around_marker:
  assumes "plain_value v" "contains_str v (l @ redacted @ r)"
  shows "contains_str v l \<or> contains_str v r"
proof -
  from assms(2) obtain a b where "l @ CHR ''['' # (''REDACTED]'' @ r) = a @ v @ b"
    by (auto simp: contains_str_iff redacted_def)
  then have "contains_str v l \<or> contains_str v (''REDACTED]'' @ r)"
    using infix_split assms(1) unfolding plain_value_def by blast
  moreover have "contains_str v r" if "contains_str v (''REDACTED]'' @ r)"
  proof -
    from that obtain a b where "''REDACTED'' @ CHR '']'' # r = a @ v @ b" by (auto simp: contains_str_iff)
    then show ?thesis using infix_split assms(1) unfolding plain_value_def by blast
  qed
  ultimately show ?thesis by blast
qed

lemma contains_join:
  "plain_value v \<Longrightarrow> contains_str v (join redacted ls) \<Longrightarrow> \<exists>l \<in> set ls. contains_str v l"
proof (induction ls rule: induct_list012)
  case 1
  then show ?case by (auto simp: contains_str_iff plain_value_def)
next
  case (3 l l' ls)
  then show ?case using contains_around_marker [of v l "join redacted (l' # ls)"] by auto
qed auto

lemma contains_trans: "contains_str a b \<Longrightarrow> contains_str b c \<Longrightarrow> contains_str a c"
  by (auto simp: contains_str_iff) (metis append.assoc)

lemma find_str_first: "find_str p s = Some (a, b) \<Longrightarrow> p \<noteq> [] \<Longrightarrow> \<not> contains_str p a"
proof (induction s arbitrary: a)
  case Nil
  then show ?case by simp
next
  case (Cons x s)
  show ?case
  proof (cases "strip_prefix p (x # s)")
    case (Some r)
    then show ?thesis using Cons.prems by (auto simp: contains_str_iff)
  next
    case None
    then obtain a' where a': "find_str p s = Some (a', b)" "a = x # a'" using Cons.prems(1) by auto
    have "strip_prefix p (x # a') = None"
    proof (rule ccontr)
      assume "strip_prefix p (x # a') \<noteq> None"
      then obtain r where "x # a' = p @ r" by (auto simp: strip_prefix_Some_iff)
      then have "x # s = p @ (r @ p @ b)" using find_str_Some [OF a'(1)] by (metis append.assoc append_Cons)
      then show False using None by (metis strip_prefix_Some_iff option.distinct(1))
    qed
    then show ?thesis using Cons.IH [OF a'(1) Cons.prems(2)] a'(2) by (simp add: contains_str_def)
  qed
qed

lemma join_Cons: "ls \<noteq> [] \<Longrightarrow> join sep (l # ls) = l @ sep @ join sep ls"
  by (cases ls) simp_all

lemma replace_str_pieces:
  "pat \<noteq> [] \<Longrightarrow> \<exists>ls. ls \<noteq> [] \<and> replace_str pat new s = join new ls \<and> (\<forall>l \<in> set ls. contains_str l s \<and> \<not> contains_str pat l)"
proof (induction pat new s rule: replace_str.induct)
  case (1 pat new s)
  show ?case
  proof (cases "find_str pat s")
    case None
    have "contains_str s s" unfolding contains_str_iff by (metis append_Nil append_Nil2)
    with None show ?thesis
      by (intro exI [of _ "[s]"]) (simp add: replace_str.simps [of pat new s] contains_str_def)
  next
    case (Some p)
    obtain a rest where p: "p = (a, rest)" by (cases p)
    note f = Some [unfolded p]
    from 1(1) [OF f refl 1(2)] 1(2) obtain ls where
      ls: "ls \<noteq> []" "replace_str pat new rest = join new ls" "\<forall>l \<in> set ls. contains_str l rest \<and> \<not> contains_str pat l"
      by blast
    note s = find_str_Some [OF f]
    have "contains_str a s" "contains_str rest s" unfolding contains_str_iff s by (metis append_Nil append.assoc append_Nil2)+
    then have "\<forall>l \<in> set (a # ls). contains_str l s \<and> \<not> contains_str pat l"
      using ls(3) find_str_first [OF f 1(2)] contains_trans by auto
    then show ?thesis using ls 1(2)
      by (intro exI [of _ "a # ls"]) (simp add: replace_str.simps [of pat new s] f join_Cons)
  qed
qed

text \<open>What a replacement by the marker gives: pieces of the text around markers.\<close>

definition redacts :: "(string \<Rightarrow> string) \<Rightarrow> bool" where
  "redacts f \<longleftrightarrow> (\<forall>t. \<exists>ls. ls \<noteq> [] \<and> f t = join redacted ls \<and> (\<forall>l \<in> set ls. contains_str l t))"

lemma redacts_keeps:
  assumes "redacts f" "plain_value v" "\<not> contains_str v t"
  shows "\<not> contains_str v (f t)"
proof
  assume c: "contains_str v (f t)"
  from assms(1) obtain ls where "f t = join redacted ls" "\<forall>l \<in> set ls. contains_str l t"
    unfolding redacts_def by blast
  with contains_join [OF assms(2)] c contains_trans assms(3) show False by metis
qed

lemma redacts_replace: "pat \<noteq> [] \<Longrightarrow> redacts (replace_str pat redacted)"
  unfolding redacts_def
proof
  fix t
  assume "pat \<noteq> []"
  from replace_str_pieces [OF this, of redacted t]
  show "\<exists>ls. ls \<noteq> [] \<and> replace_str pat redacted t = join redacted ls \<and> (\<forall>l \<in> set ls. contains_str l t)"
    by meson
qed

lemma replace_removes: "plain_value v \<Longrightarrow> \<not> contains_str v (replace_str v redacted t)"
proof -
  assume v: "plain_value v"
  then obtain ls where "replace_str v redacted t = join redacted ls" "\<forall>l \<in> set ls. \<not> contains_str v l"
    using replace_str_pieces [of v redacted t] by (auto simp: plain_value_def)
  then show ?thesis using contains_join [OF v] by metis
qed

lemma fold_replace_removes:
  "\<forall>w \<in> set vs. w \<noteq> [] \<Longrightarrow> plain_value v \<Longrightarrow> v \<in> set vs \<or> \<not> contains_str v t \<Longrightarrow>
     \<not> contains_str v (fold (\<lambda>w s. replace_str w redacted s) vs t)"
proof (induction vs arbitrary: t)
  case (Cons w vs)
  have "v \<in> set vs \<or> \<not> contains_str v (replace_str w redacted t)"
    using Cons.prems replace_removes redacts_keeps [OF redacts_replace, of w v t] by auto
  then show ?case using Cons by simp
qed simp

text \<open>
  C21: after scrubbing no known secret value occurs in a message: whatever the two regular
  expressions cut out, values without brackets that do not stand inside the marker itself are gone.
\<close>

theorem scrub_secrets_removes:
  assumes "redacts (sr_uri R)" "redacts (sr_kv R)" "v \<in> set known" "plain_value v"
  shows "\<not> contains_str v (scrub_secrets R text known)"
proof -
  let ?t = "fold (\<lambda>w s. replace_str w redacted s) (sort_desc length (filter (\<lambda>v. v \<noteq> []) known)) text"
  have "\<not> contains_str v ?t"
    by (rule fold_replace_removes) (use assms in \<open>simp_all add: plain_value_def\<close>)
  then have "\<not> contains_str v (sr_kv R (sr_uri R ?t))" using redacts_keeps assms by blast
  moreover have "scrub_connection_strings R ?t = sr_kv R (sr_uri R ?t)" by (simp add: scrub_connection_strings_def Let_def)
  moreover have "\<not> contains_str v []" using assms(4) by (auto simp: contains_str_iff plain_value_def)
  ultimately show ?thesis by (simp add: scrub_secrets_def)
qed

definition w_regexes :: scrub_regexes where
  "w_regexes = \<lparr>sr_uri = (\<lambda>t. t), sr_kv = (\<lambda>t. t)\<rparr>"

lemma redacts_id: "redacts (\<lambda>t. t)"
  unfolding redacts_def
proof
  fix t
  have "contains_str t t" unfolding contains_str_iff by (metis append_Nil append_Nil2)
  then show "\<exists>ls. ls \<noteq> [] \<and> t = join redacted ls \<and> (\<forall>l \<in> set ls. contains_str l t)"
    by (intro exI [of _ "[t]"]) simp
qed

theorem scrub_secrets_removes_witness:
  "\<not> contains_str ''abc'' (scrub_secrets w_regexes ''key=abc123 token=abc'' [''abc'', ''abc123''])"
proof -
  have "plain_value ''abc''" by (simp add: plain_value_def contains_str_def)
  then show ?thesis using redacts_id by (intro scrub_secrets_removes) (simp_all add: w_regexes_def)
qed

text \<open>
  Collecting the values for the scrubber does not change what a configuration resolves to, nor
  which error it ends with.
\<close>

theorem collecting_agrees: "forget (resolve_json_secrets_collecting look v) = resolve_json_secrets look v"
  by (simp add: resolve_json_secrets_collecting_def collecting_json(1) [of look v "[]"])


text \<open>References: the braces, the name between spaces.\<close>

definition spaces :: "nat \<Rightarrow> string" where "spaces n = replicate n (CHR '' '')"

definition plain_text :: "string \<Rightarrow> bool" where "plain_text s \<longleftrightarrow> (\<forall>c \<in> set s. is_graph c \<or> c = CHR '' '')"

lemma plain_text_simps [simp]: "plain_text (s @ t) \<longleftrightarrow> plain_text s \<and> plain_text t" "plain_text (spaces n)" "plain_text ''secret:''"
  by (auto simp: plain_text_def spaces_def is_graph_def)












end
