(* ===== verification/Assertions.thy ===== *)
theory Assertions
  imports Run_Model Secrets
begin

text \<open>
  \<open>test_assertion.rs\<close> and the errors of nodes (\<open>error.rs\<close>): the assertions of a test node become
  queries for violating rows over the table of all upstream rows.  DataFusion is a parameter.  An
  error from outside is its text and the texts of its chain of causes.
\<close>

datatype ext_error = ExtError (ext_text: string) (ext_causes: "string list")

record 'c assertion_result =
  ar_name :: string
  ar_passed :: bool
  ar_violation_count :: u64
  ar_violating_rows :: "'c batch list"
  ar_message :: "string option"

record 'c test_result =
  tr_node_id :: node_id
  tr_passed :: bool
  tr_severity :: test_severity
  tr_assertions :: "'c assertion_result list"

datatype 'c node_error =
    NeSourceProviderNotFound string
  | NeSinkNotFound string
  | NeMissingUpstreamOutput node_id
  | NeDataFusion ext_error
  | NeArrow ext_error
  | NeSource string
  | NeSink string
  | NePreprocess ext_error
  | NeUdf ext_error
  | NePython string
  | NePythonTimeout string
  | NePythonMemoryExceeded string string
  | NePythonNotFound string
  | NeCodeFileRead string ext_error
  | NeTestAssertionFailed string "'c test_result"
  | NeTestExecution string

fun show_node_error :: "'c node_error \<Rightarrow> string" where
  "show_node_error (NeSourceProviderNotFound s) = ''source provider `'' @ s @ ''` not registered''"
| "show_node_error (NeSinkNotFound s) = ''sink connector `'' @ s @ ''` not registered''"
| "show_node_error (NeMissingUpstreamOutput i) = ''no output found for upstream node `'' @ i @ ''`''"
| "show_node_error (NeDataFusion e) = ''DataFusion error: '' @ ext_text e"
| "show_node_error (NeArrow e) = ''Arrow error: '' @ ext_text e"
| "show_node_error (NeSource s) = ''source provider error: '' @ s"
| "show_node_error (NeSink s) = ''sink error: '' @ s"
| "show_node_error (NePreprocess e) = ''SQL preprocessing error: '' @ ext_text e"
| "show_node_error (NeUdf e) = ''UDF error: '' @ ext_text e"
| "show_node_error (NePython s) = ''Python transform error: '' @ s"
| "show_node_error (NePythonTimeout d) = ''Python transform timed out after '' @ d"
| "show_node_error (NePythonMemoryExceeded used limit) =
     ''Python transform exceeded memory limit ('' @ used @ '' MiB used, '' @ limit @ '' MiB limit)''"
| "show_node_error (NePythonNotFound s) =
     ''Python interpreter not found (`'' @ s @ ''`). Ensure Python 3 is installed and on your PATH.''"
| "show_node_error (NeCodeFileRead path e) = ''failed to read code file `'' @ path @ ''`: '' @ ext_text e"
| "show_node_error (NeTestAssertionFailed summary r) = ''test assertion failed: '' @ summary"
| "show_node_error (NeTestExecution s) = ''test execution error: '' @ s"

text \<open>\<open>build_error_chain\<close>: the message, then those of the causes a variant declares.\<close>

fun node_error_source :: "'c node_error \<Rightarrow> ext_error option" where
  "node_error_source (NeDataFusion e) = Some e"
| "node_error_source (NeArrow e) = Some e"
| "node_error_source (NePreprocess e) = Some e"
| "node_error_source (NeUdf e) = Some e"
| "node_error_source (NeCodeFileRead path e) = Some e"
| "node_error_source _ = None"

definition build_error_chain :: "'c node_error \<Rightarrow> string list" where
  "build_error_chain e = show_node_error e # (case node_error_source e of None \<Rightarrow> [] | Some x \<Rightarrow> ext_text x # ext_causes x)"

subsection \<open>Queries\<close>

definition INPUT_TABLE :: string where "INPUT_TABLE = ''__test_input''"

definition quoted :: "string \<Rightarrow> string" where
  "quoted c = [CHR 0x22] @ c @ [CHR 0x22]"

definition sql_text :: "string \<Rightarrow> string" where
  "sql_text s = [CHR 0x27] @ replace_str [CHR 0x27] [CHR 0x27, CHR 0x27] s @ [CHR 0x27]"

definition show_u64 :: "u64 \<Rightarrow> string" where
  "show_u64 n = show_nat (unat n)"

fun sql_literal :: "(json \<Rightarrow> string) \<Rightarrow> json \<Rightarrow> string" where
  "sql_literal js (JString s) = sql_text s"
| "sql_literal js v = js v"

fun compile_assertion_sql :: "(json \<Rightarrow> string) \<Rightarrow> assertion \<Rightarrow> string \<times> string" where
  "compile_assertion_sql js (NotNull cols) =
     (''not_null('' @ join '', '' cols @ '')'',
      ''SELECT * FROM '' @ INPUT_TABLE @ '' WHERE '' @ join '' OR '' (map (\<lambda>c. quoted c @ '' IS NULL'') cols))"
| "compile_assertion_sql js (Unique cols) =
     (let cs = join '', '' (map quoted cols)
      in (''unique('' @ join '', '' cols @ '')'',
          ''SELECT '' @ cs @ '', COUNT(*) AS __dup_count FROM '' @ INPUT_TABLE @ '' GROUP BY '' @ cs @ '' HAVING COUNT(*) > 1''))"
| "compile_assertion_sql js (AcceptedValues c vs) =
     (''accepted_values('' @ c @ '')'',
      ''SELECT '' @ quoted c @ '' FROM '' @ INPUT_TABLE @ '' WHERE '' @ quoted c @ '' NOT IN ('' @
        join '', '' (map (sql_literal js) vs) @ '')'')"
| "compile_assertion_sql js (RowCountBetween lo hi) =
     (''row_count_between('' @ show_u64 lo @ '', '' @ show_u64 hi @ '')'',
      ''SELECT cnt AS row_count, '' @ show_u64 lo @ '' AS expected_min, '' @ show_u64 hi @
        '' AS expected_max FROM (SELECT COUNT(*) AS cnt FROM '' @ INPUT_TABLE @ '') WHERE cnt < '' @ show_u64 lo @
        '' OR cnt > '' @ show_u64 hi)"
| "compile_assertion_sql js (RowCountEqualTo n) =
     (''row_count_equal_to('' @ show_u64 n @ '')'',
      ''SELECT cnt AS row_count, '' @ show_u64 n @ '' AS expected FROM (SELECT COUNT(*) AS cnt FROM '' @ INPUT_TABLE @
        '') WHERE cnt != '' @ show_u64 n)"
| "compile_assertion_sql js NoDuplicates =
     (''no_duplicates'',
      ''SELECT *, COUNT(*) AS __dup_count FROM '' @ INPUT_TABLE @ '' GROUP BY ALL HAVING COUNT(*) > 1'')"
| "compile_assertion_sql js (ColumnValuesMatchRegex c pat) =
     (''column_values_match_regex('' @ c @ '')'',
      ''SELECT '' @ quoted c @ '' FROM '' @ INPUT_TABLE @ '' WHERE '' @ quoted c @ '' IS NOT NULL AND '' @ quoted c @
        '' !~ '' @ sql_text pat)"
| "compile_assertion_sql js (ExpressionTrue ex) =
     (''expression_true('' @ ex @ '')'', ''SELECT * FROM '' @ INPUT_TABLE @ '' WHERE NOT ('' @ ex @ '')'')"
| "compile_assertion_sql js (SqlAssertion nm query) =
     (nm, ''SELECT failing FROM ('' @ replace_str ''${input}'' INPUT_TABLE query @ '') WHERE failing > 0'')"

subsection \<open>Running a test\<close>

datatype 'c query_result = QCompileError string | QExecError string | QRows "'c batch list"

text \<open>\<open>tq_table\<close> registers the input table, \<open>tq_query\<close> runs a query over it, \<open>tq_slice\<close> cuts a batch.\<close>

record 'c test_engine =
  tq_table :: "'c batch list \<Rightarrow> ext_error + unit"
  tq_query :: "'c batch list \<Rightarrow> string \<Rightarrow> 'c query_result"
  tq_slice :: "nat \<Rightarrow> 'c batch \<Rightarrow> 'c batch"
  tq_print :: "json \<Rightarrow> string"

definition total_rows :: "'c batch list \<Rightarrow> u64" where
  "total_rows bs = of_nat (sum_list (map rb_num_rows bs))"

fun limit_batches :: "(nat \<Rightarrow> 'c batch \<Rightarrow> 'c batch) \<Rightarrow> 'c batch list \<Rightarrow> nat \<Rightarrow> 'c batch list" where
  "limit_batches trunc [] remaining = []"
| "limit_batches trunc (b # bs) remaining =
     (if remaining = 0 then []
      else trunc (min (rb_num_rows b) remaining) b # limit_batches trunc bs (remaining - min (rb_num_rows b) remaining))"

definition run_assertion :: "'c test_engine \<Rightarrow> 'c batch list \<Rightarrow> nat \<Rightarrow> assertion \<Rightarrow> 'c assertion_result" where
  "run_assertion Q bs max_rows a = (case compile_assertion_sql (tq_print Q) a of (nm, sql) \<Rightarrow>
     (case tq_query Q bs sql of
        QRows out \<Rightarrow>
          let n = total_rows out
          in \<lparr>ar_name = nm, ar_passed = (n = 0), ar_violation_count = n,
              ar_violating_rows = (if n > 0 then limit_batches (tq_slice Q) out max_rows else []),
              ar_message = (if n = 0 then None
                else Some (''assertion `'' @ nm @ ''` failed: '' @ show_u64 n @ '' violation(s) found''))\<rparr>
      | QExecError e \<Rightarrow> \<lparr>ar_name = nm, ar_passed = False, ar_violation_count = 0, ar_violating_rows = [],
          ar_message = Some (''assertion query execution failed: '' @ e)\<rparr>
      | QCompileError e \<Rightarrow> \<lparr>ar_name = nm, ar_passed = False, ar_violation_count = 0, ar_violating_rows = [],
          ar_message = Some (''assertion query compilation failed: '' @ e)\<rparr>))"

definition failure_messages :: "'c test_result \<Rightarrow> string list" where
  "failure_messages r = concat (map (\<lambda>a. case ar_message a of Some m \<Rightarrow> [m] | None \<Rightarrow> [])
     (filter (\<lambda>a. \<not> ar_passed a) (tr_assertions r)))"

text \<open>\<open>bs\<close> are the upstream batches in the order the hash map of the inputs gives them.\<close>

definition execute_test ::
  "'c test_engine \<Rightarrow> node_id \<Rightarrow> test_config \<Rightarrow> 'c batch list \<Rightarrow> 'c node_error + 'c batch list \<times> 'c test_result" where
  "execute_test Q i cfg bs =
     (if bs = [] then Err (NeTestExecution ''test node has no upstream data'')
      else (case tq_table Q bs of
          Inl e \<Rightarrow> Err (NeDataFusion e)
        | Inr _ \<Rightarrow>
            let results = map (run_assertion Q bs (tc_max_violations cfg)) (tc_assertions cfg);
                r = \<lparr>tr_node_id = i, tr_passed = list_all ar_passed results, tr_severity = tc_severity cfg, tr_assertions = results\<rparr>
            in if \<not> tr_passed r \<and> tc_severity cfg = SevError
               then Err (NeTestAssertionFailed (join ''; '' (failure_messages r)) r)
               else Ok ([], r)))"

definition summary_of :: "('c batch list \<Rightarrow> json list) \<Rightarrow> 'c test_result \<Rightarrow> test_summary" where
  "summary_of rows r = \<lparr>tsm_node_id = tr_node_id r, tsm_passed = tr_passed r, tsm_severity = tr_severity r,
     tsm_assertions = map (\<lambda>a. \<lparr>as_name = ar_name a, as_passed = ar_passed a, as_violation_count = ar_violation_count a,
       as_violating_rows = rows (ar_violating_rows a), as_message = ar_message a\<rparr>) (tr_assertions r)\<rparr>"

section \<open>Properties\<close>

text \<open>The query of an assertion found a violating row, or could not be run.\<close>

definition violated :: "'c test_engine \<Rightarrow> 'c batch list \<Rightarrow> assertion \<Rightarrow> bool" where
  "violated Q bs a \<longleftrightarrow> (\<forall>out. tq_query Q bs (snd (compile_assertion_sql (tq_print Q) a)) = QRows out \<longrightarrow> total_rows out \<noteq> 0)"

lemma run_assertion_passed: "ar_passed (run_assertion Q bs n a) \<longleftrightarrow> \<not> violated Q bs a"
  by (cases "compile_assertion_sql (tq_print Q) a"; cases "tq_query Q bs (snd (compile_assertion_sql (tq_print Q) a))")
     (simp_all add: run_assertion_def violated_def Let_def)

text \<open>
  A test node fails exactly when one of its assertions is violated and its severity is error;
  without upstream rows it fails in any case.  It never hands data on.
\<close>

theorem execute_test_verdict:
  assumes "tq_table Q bs = Ok ()"
  shows "execute_test Q i cfg bs =
    (if bs = [] then Err (NeTestExecution ''test node has no upstream data'')
     else let r = \<lparr>tr_node_id = i, tr_passed = (\<forall>a \<in> set (tc_assertions cfg). \<not> violated Q bs a), tr_severity = tc_severity cfg,
                tr_assertions = map (run_assertion Q bs (tc_max_violations cfg)) (tc_assertions cfg)\<rparr>
          in if (\<exists>a \<in> set (tc_assertions cfg). violated Q bs a) \<and> tc_severity cfg = SevError
             then Err (NeTestAssertionFailed (join ''; '' (failure_messages r)) r)
             else Ok ([], r))"
proof -
  have "list_all ar_passed (map (run_assertion Q bs (tc_max_violations cfg)) (tc_assertions cfg)) \<longleftrightarrow>
      (\<forall>a \<in> set (tc_assertions cfg). \<not> violated Q bs a)"
    by (simp add: list_all_iff run_assertion_passed)
  then show ?thesis using assms by (auto simp: execute_test_def Let_def)
qed

definition w_engine :: "int test_engine" where
  "w_engine = \<lparr>tq_table = (\<lambda>_. Ok ()), tq_query = (\<lambda>bs _. QRows bs), tq_slice = (\<lambda>n b. b\<lparr>rb_num_rows := n\<rparr>), tq_print = (\<lambda>_. [])\<rparr>"

theorem execute_test_verdict_witness:
  "is_ok (execute_test w_engine ''t'' \<lparr>tc_severity = SevWarn, tc_assertions = [NoDuplicates], tc_max_violations = 25\<rparr>
     [\<lparr>rb_columns = [], rb_num_rows = 2\<rparr>])"
proof -
  have "tq_table w_engine [\<lparr>rb_columns = [], rb_num_rows = 2\<rparr>] = Ok ()" by (simp add: w_engine_def)
  from execute_test_verdict [OF this, of "''t''" "\<lparr>tc_severity = SevWarn, tc_assertions = [NoDuplicates], tc_max_violations = 25\<rparr>"]
  show ?thesis by (simp add: Let_def)
qed

end
