(* ===== verification/Executor.thy ===== *)
theory Executor
  imports Storage Assertions Pipeline_Ops
begin

text \<open>
  \<open>executor.rs\<close>: a run of a pipeline.  What the run touches is a \<open>world\<close>: the state of the stores,
  the count of clock readings, the progress events and the calls made to sources, engines and sinks.
  What is outside is a field of \<open>exec_env\<close>: its answers may depend on all calls made before.  The
  outer option is \<open>None\<close> for a panic.  Logging, metrics and OpenLineage are left out.
\<close>

subsection \<open>Errors as text\<close>

fun watermark_debug :: "watermark_type \<Rightarrow> string" where
  "watermark_debug WmTimestamp = ''Timestamp''"
| "watermark_debug WmInt64 = ''Int64''"
| "watermark_debug WmString = ''String''"

fun show_incremental_error :: "incremental_error \<Rightarrow> string" where
  "show_incremental_error (IeSqlite e) = ''SQLite error: '' @ e"
| "show_incremental_error (IeDatabase e) = ''database error: '' @ e"
| "show_incremental_error (IeNotFound p n e) =
     ''incremental state not found for pipeline `'' @ p @ ''`, node `'' @ n @ ''`, env `'' @ e @ ''`''"

fun show_watermark_error :: "watermark_error \<Rightarrow> string" where
  "show_watermark_error (ColumnMissingFromSource n s c) =
     ''incremental sink `'' @ n @ ''`: watermark column `'' @ c @ ''` is missing from source `'' @ s @ ''` schema''"
| "show_watermark_error (TypeMismatch n c d a) =
     ''incremental sink `'' @ n @ ''`: watermark `'' @ c @ ''` declared as `'' @ d @ ''` but source column type is `'' @ a @ ''`''"
| "show_watermark_error (UnparseableStoredValue n t v r) =
     ''incremental sink `'' @ n @ ''`: stored watermark `'' @ v @ ''` is not a valid `'' @ t @ ''`: '' @ r"
| "show_watermark_error (InvalidLookback s) = ''invalid ISO 8601 duration `'' @ s @ ''`''"

definition em_dash :: string where "em_dash = [CHR 0xe2, CHR 0x80, CHR 0x94]"

fun show_coordinator_error :: "coordinator_error \<Rightarrow> string" where
  "show_coordinator_error (ConflictingWatermarkColumn snk other src existing c) =
     ''incremental sink `'' @ snk @ ''`: conflicting watermark column on source `'' @ src @ ''` (already declared as `'' @
     existing @ ''` by sink `'' @ other @ ''`, this sink declared `'' @ c @ ''`)''"
| "show_coordinator_error (ConflictingWatermarkType snk other src existing t) =
     ''incremental sink `'' @ snk @ ''`: conflicting watermark type on source `'' @ src @ ''` (already declared as `'' @
     watermark_debug existing @ ''` by sink `'' @ other @ ''`, this sink declared `'' @ watermark_debug t @ ''`)''"
| "show_coordinator_error (NoUpstreamSource snk) =
     ''incremental sink `'' @ snk @ ''` has no upstream source nodes '' @ em_dash @
     '' incremental read mode requires at least one source''"
| "show_coordinator_error (BootstrapRequired snk) =
     ''incremental sink `'' @ snk @ ''`: first_run policy is `fail` and no incremental state exists yet '' @ em_dash @
     '' rerun with `--bootstrap-incremental` to perform the initial load''"
| "show_coordinator_error (StateError e) = ''incremental state load failed: '' @ show_incremental_error e"
| "show_coordinator_error (WatermarkErr e) = ''watermark error: '' @ show_watermark_error e"

datatype 'c executor_error =
    ExValidation "dag_error list"
  | ExNode node_id "'c node_error"
  | ExCancelled
  | ExRunStore run_store_error

subsection \<open>Options, the world and what is outside\<close>

record options =
  eo_environment :: string
  eo_run_store :: bool
  eo_overrides :: "(string \<times> json) list"
  eo_secret_resolver :: "(json \<Rightarrow> string \<Rightarrow> string + json \<times> string list) option"
  eo_state_store :: bool
  eo_full_refresh :: bool
  eo_bootstrap :: bool
  eo_dry_run_no_sinks :: bool
  eo_lineage_store :: bool
  eo_fingerprint_fn :: "fingerprint_fn option"
  eo_pipeline_id :: "string option"
  eo_column_store :: bool
  eo_on_column_lineage :: bool
  eo_triggered_by :: "string option"

text \<open>The last event is the call of \<open>on_column_lineage_updated\<close>.\<close>

datatype exec_event =
    EvRunStarted run_id string
  | EvNodeStarted run_id node_id
  | EvNodeCompleted run_id node_id u64 u64 "receipt option"
  | EvNodeFailed run_id node_id string
  | EvTestNodePassed run_id node_id nat
  | EvTestNodeFailed run_id node_id test_severity "string list"
  | EvRunCompleted run_id run_status u64
  | EvLineageUpdated string string nat

datatype 'c ext_call =
    CRead node_id source_config
  | CSql node_id string
  | CPython node_id string
  | CWrite node_id sink_config "'c batch list" mat_context

record ('c, 's) world =
  wo_store :: 's
  wo_tick :: nat
  wo_events :: "exec_event list"
  wo_calls :: "'c ext_call list"

text \<open>
  \<open>xe_provider\<close> is the lookup of the connector and the creation of its table provider,
  \<open>xe_register\<close> the registration of the table and the query over it, \<open>xe_plan\<close> the plan of a
  query: its schema and the lineage derived from it.
\<close>

record ('c, 's, 'u) exec_env =
  xe_host :: host
  xe_storage :: "'s storage"
  xe_uuid :: run_id
  xe_wall :: "nat \<Rightarrow> int"
  xe_instant :: "nat \<Rightarrow> int"
  xe_utc_ms :: "nat \<Rightarrow> int"
  xe_rfc3339 :: "nat \<Rightarrow> string"
  xe_run_date :: string
  xe_cancel :: "nat \<Rightarrow> bool"
  xe_load_udfs :: "string \<Rightarrow> ext_error + 'u"
  xe_no_udfs :: 'u
  xe_udfs_empty :: "'u \<Rightarrow> bool"
  xe_inline :: "'u \<Rightarrow> string \<Rightarrow> ext_error + string"
  xe_preprocess :: "string \<Rightarrow> (node_id \<rightharpoonup> schema) \<Rightarrow> ext_error + string"
  xe_provider :: "source_config \<Rightarrow> (string + schema) option"
  xe_configure :: "source_config \<Rightarrow> string + unit"
  xe_register :: "node_id \<Rightarrow> ext_error + unit"
  xe_filter :: "string \<Rightarrow> scalar \<Rightarrow> ext_error + unit"
  xe_collect :: "'c ext_call list \<Rightarrow> node_id \<Rightarrow> source_config \<Rightarrow> (string \<times> scalar) option \<Rightarrow> ext_error + 'c batch list"
  xe_table :: "node_id \<Rightarrow> 'c batch list \<Rightarrow> ext_error + unit"
  xe_plan :: "string \<Rightarrow> (node_id \<times> 'c batch list) list \<Rightarrow> ext_error + schema \<times> (node_id \<Rightarrow> node_column_lineage)"
  xe_run_sql :: "'c ext_call list \<Rightarrow> string \<Rightarrow> (node_id \<times> 'c batch list) list \<Rightarrow> ext_error + 'c batch list"
  xe_empty_column :: "field \<Rightarrow> 'c"
  xe_python :: "'c ext_call list \<Rightarrow> string \<Rightarrow> (node_id \<times> 'c batch list) list \<Rightarrow> resolved_variables \<Rightarrow>
    'c node_error + 'c batch list \<times> python_lineage option"
  xe_tests :: "'c test_engine"
  xe_has_sink :: "string \<Rightarrow> bool"
  xe_write :: "'c ext_call list \<Rightarrow> node_id \<Rightarrow> sink_config \<Rightarrow> 'c batch list \<Rightarrow> mat_context \<Rightarrow> string + receipt"
  xe_file_error :: "string option \<Rightarrow> ext_error"
  xe_arrays :: "'c arrays"
  xe_time_text :: time_text
  xe_other_type :: "data_type \<Rightarrow> string"
  xe_schema_json :: schema_json
  xe_hash :: "string \<Rightarrow> u64"
  xe_field_order :: "(string \<times> field) list \<Rightarrow> (string \<times> field) list"
  xe_rows :: "'c batch list \<Rightarrow> json list"
  xe_head_rows :: "nat \<Rightarrow> 'c batch \<Rightarrow> json list"
  xe_node_json :: "node_kind \<Rightarrow> json option"
  xe_regexes :: scrub_regexes

definition tick :: "('c, 's) world \<Rightarrow> ('c, 's) world" where
  "tick w = w\<lparr>wo_tick := Suc (wo_tick w)\<rparr>"

definition emit :: "exec_event \<Rightarrow> ('c, 's) world \<Rightarrow> ('c, 's) world" where
  "emit ev w = w\<lparr>wo_events := wo_events w @ [ev]\<rparr>"

definition note_call :: "'c ext_call \<Rightarrow> ('c, 's) world \<Rightarrow> ('c, 's) world" where
  "note_call c w = w\<lparr>wo_calls := wo_calls w @ [c]\<rparr>"

text \<open>\<open>let _ = store.op(..)\<close>, if the store is configured.\<close>

definition ignoring :: "bool \<Rightarrow> ('s \<Rightarrow> 'a \<times> 's) \<Rightarrow> ('c, 's) world \<Rightarrow> ('c, 's) world" where
  "ignoring configured f w = (if configured then w\<lparr>wo_store := snd (f (wo_store w))\<rparr> else w)"

subsection \<open>Handlers of one node\<close>

definition io_error :: "string \<Rightarrow> 'c node_error" where
  "io_error s = NeSource s"

text \<open>The filter of an incremental read, checked against the schema of the source.\<close>

definition read_filter ::
  "('c, 's, 'u) exec_env \<Rightarrow> node_id \<Rightarrow> schema \<Rightarrow> read_plan option \<Rightarrow> ('c node_error + (string \<times> scalar) option) option" where
  "read_filter E i sch plan = (case plan of
      None \<Rightarrow> Some (Ok None)
    | Some r \<Rightarrow> (case find (\<lambda>f. fd_name f = rp_column r) sch of
        None \<Rightarrow> Some (Err (io_error (''incremental sink `'' @ rp_sink r @ ''`: watermark column `'' @ rp_column r @
          ''` is missing from source `'' @ i @ ''` schema'')))
      | Some f \<Rightarrow>
          if \<not> watermark_type_matches (fd_type f) (rp_wtype r)
          then Some (Err (io_error (''incremental sink `'' @ rp_sink r @ ''`: watermark `'' @ rp_column r @
            ''` declared as `'' @ watermark_debug (rp_wtype r) @ ''` but source column type is `'' @
            show_type (xe_other_type E) (fd_type f) @ ''`'')))
          else (case rp_state r of
              None \<Rightarrow> Some (Ok None)
            | Some st \<Rightarrow> (case stored_to_scalar (xe_time_text E) (rp_sink r) (rp_wtype r) (is_watermark_value st) (rp_lookback r) of
                None \<Rightarrow> None
              | Some (Inl e) \<Rightarrow> Some (Err (io_error (show_watermark_error e)))
              | Some (Inr s) \<Rightarrow> Some (Ok (Some (rp_column r, s)))))))"

definition execute_source ::
  "('c, 's, 'u) exec_env \<Rightarrow> node_id \<Rightarrow> source_config \<Rightarrow> read_plan option \<Rightarrow> ('c, 's) world \<Rightarrow>
   (('c node_error + 'c batch list) \<times> ('c, 's) world) option" where
  "execute_source E i cfg plan w = (case xe_provider E cfg of
      None \<Rightarrow> Some (Err (NeSourceProviderNotFound (src_connector cfg)), w)
    | Some (Inl e) \<Rightarrow> Some (Err (NeSource e), w)
    | Some (Inr sch) \<Rightarrow> (case xe_configure E cfg of
        Inl e \<Rightarrow> Some (Err (NeSource e), w)
      | Inr _ \<Rightarrow> (case xe_register E i of
          Inl e \<Rightarrow> Some (Err (NeDataFusion e), w)
        | Inr _ \<Rightarrow> (case read_filter E i sch plan of
            None \<Rightarrow> None
          | Some (Inl e) \<Rightarrow> Some (Err e, w)
          | Some (Inr f) \<Rightarrow> (case (case f of None \<Rightarrow> Ok () | Some (c, s) \<Rightarrow> xe_filter E c s) of
              Inl e \<Rightarrow> Some (Err (NeDataFusion e), w)
            | Inr _ \<Rightarrow> Some (case xe_collect E (wo_calls w) i cfg f of
                  Inl e \<Rightarrow> Err (NeDataFusion e) | Inr bs \<Rightarrow> Ok bs, note_call (CRead i cfg) w))))))"

text \<open>The inputs of a node, with the rows counted so far; a hash map, later read in its order.\<close>

fun gather_upstream ::
  "(node_id \<rightharpoonup> 'c batch list) \<Rightarrow> node_id list \<Rightarrow> (node_id \<times> 'c batch list) list \<Rightarrow> u64 \<Rightarrow>
   ('c node_error + (node_id \<times> 'c batch list) list) \<times> u64" where
  "gather_upstream outputs [] acc n = (Ok acc, n)"
| "gather_upstream outputs (u # us) acc n = (case outputs u of
      None \<Rightarrow> (Err (NeMissingUpstreamOutput u), n)
    | Some bs \<Rightarrow> gather_upstream outputs us (AList.update u bs acc) (n + total_rows bs))"

definition hash_values :: "('c, 's, 'u) exec_env \<Rightarrow> (node_id \<times> 'c batch list) list \<Rightarrow> (node_id \<times> 'c batch list) list" where
  "hash_values E m = concat (map (\<lambda>i. case map_of m i of None \<Rightarrow> [] | Some bs \<Rightarrow> [(i, bs)]) (h_order (xe_host E) (map fst m)))"

definition first_schema :: "'c batch list \<Rightarrow> schema option" where
  "first_schema bs = (case bs of [] \<Rightarrow> None | b # _ \<Rightarrow> Some (batch_schema b))"

definition extract_column_names :: "'c batch list \<Rightarrow> string list" where
  "extract_column_names bs = (case first_schema bs of None \<Rightarrow> [] | Some s \<Rightarrow> map fd_name s)"

definition new_empty :: "('c, 's, 'u) exec_env \<Rightarrow> schema \<Rightarrow> 'c batch" where
  "new_empty E s = \<lparr>rb_columns = map (\<lambda>f. (f, xe_empty_column E f)) s, rb_num_rows = 0\<rparr>"

text \<open>\<open>derive\<close> says whether the lineage of the plan is wanted.\<close>

definition execute_sql_transform ::
  "('c, 's, 'u) exec_env \<Rightarrow> 'u \<Rightarrow> node_id \<Rightarrow> string \<Rightarrow> (node_id \<times> 'c batch list) list \<Rightarrow> bool \<Rightarrow> ('c, 's) world \<Rightarrow>
   ('c node_error + 'c batch list \<times> node_column_lineage option) \<times> ('c, 's) world" where
  "execute_sql_transform E udfs i sql upstream derive w =
     (let tables = filter (\<lambda>(_, bs). bs \<noteq> []) (hash_values E upstream)
      in case try_map (\<lambda>(u, bs). xe_table E u bs) tables of
           Inl e \<Rightarrow> (Err (NeDataFusion e), w)
         | Inr _ \<Rightarrow> (case (if xe_udfs_empty E udfs then Ok sql else xe_inline E udfs sql) of
             Inl e \<Rightarrow> (Err (NeUdf e), w)
           | Inr inlined \<Rightarrow> (case xe_preprocess E inlined (\<lambda>u. case map_of tables u of None \<Rightarrow> None | Some bs \<Rightarrow> first_schema bs) of
               Inl e \<Rightarrow> (Err (NePreprocess e), w)
             | Inr processed \<Rightarrow> (case xe_plan E processed tables of
                 Inl e \<Rightarrow> (Err (NeDataFusion e), w)
               | Inr (sch, lineage) \<Rightarrow> (case xe_run_sql E (wo_calls w) processed tables of
                   Inl e \<Rightarrow> (Err (NeDataFusion e), note_call (CSql i processed) w)
                 | Inr bs \<Rightarrow> (Ok (if bs = [] then [new_empty E sch] else bs, if derive then Some (lineage i) else None),
                     note_call (CSql i processed) w))))))"

definition merge_override :: "json \<Rightarrow> json \<Rightarrow> json" where
  "merge_override base over = (case (base, over) of
      (JObject b, JObject ov) \<Rightarrow> JObject (fold (\<lambda>(k, v). bt_insert k v) ov b)
    | _ \<Rightarrow> base)"

text \<open>The configuration a connector gets, and the secret values that went into it.\<close>

definition prepare_config ::
  "('c, 's, 'u) exec_env \<Rightarrow> options \<Rightarrow> pipeline \<Rightarrow> resolved_variables \<Rightarrow> node_id \<Rightarrow> json \<Rightarrow> string + json \<times> string list" where
  "prepare_config E opts p vars i cfg =
     (let merged = (case map_of (p_environment_overrides p) (eo_environment opts) of
            None \<Rightarrow> cfg
          | Some m \<Rightarrow> (case map_of m i of None \<Rightarrow> cfg | Some ov \<Rightarrow> merge_override cfg ov));
          interpolated = interpolate_json (h_env (xe_host E)) (h_print (xe_host E)) vars merged
      in case eo_secret_resolver opts of
           None \<Rightarrow> Ok (interpolated, [])
         | Some resolver \<Rightarrow> resolver interpolated (eo_environment opts))"

definition persist_column_lineage ::
  "('c, 's, 'u) exec_env \<Rightarrow> options \<Rightarrow> string \<Rightarrow> run_id \<Rightarrow> node_column_lineage \<Rightarrow> ('c, 's) world \<Rightarrow> ('c, 's) world" where
  "persist_column_lineage E opts pid run_id nl w0 =
     (let now = xe_rfc3339 E (wo_tick w0); w = tick w0;
          edges = map (\<lambda>e. \<lparr>sce_id = None, sce_pipeline_id = pid, sce_environment = eo_environment opts, sce_edge = e,
            sce_derived_at = now, sce_source_run_id = Some run_id\<rparr>) (nl_edges nl)
      in case so_save_column_edges (xe_storage E) pid (eo_environment opts) edges (wo_store w) of
           (r, s) \<Rightarrow>
             if is_ok r \<and> eo_on_column_lineage opts
             then emit (EvLineageUpdated pid (eo_environment opts) (length edges)) (w\<lparr>wo_store := s\<rparr>)
             else w\<lparr>wo_store := s\<rparr>)"

text \<open>With a column store and a pipeline id only.\<close>

definition persist_if ::
  "('c, 's, 'u) exec_env \<Rightarrow> options \<Rightarrow> run_id \<Rightarrow> node_column_lineage option \<Rightarrow> ('c, 's) world \<Rightarrow> ('c, 's) world" where
  "persist_if E opts run_id nl w = (case (eo_column_store opts, eo_pipeline_id opts, nl) of
      (True, Some pid, Some l) \<Rightarrow> persist_column_lineage E opts pid run_id l w
    | _ \<Rightarrow> w)"

definition run_sql_node ::
  "('c, 's, 'u) exec_env \<Rightarrow> options \<Rightarrow> 'u \<Rightarrow> run_id \<Rightarrow> (node_id \<rightharpoonup> 'c batch list) \<Rightarrow> node_id \<Rightarrow> node_id list \<Rightarrow> transform_config \<Rightarrow>
   string \<Rightarrow> (node_id \<times> 'c batch list) list \<Rightarrow> ('c, 's) world \<Rightarrow> ('c node_error + 'c batch list) \<times> ('c, 's) world" where
  "run_sql_node E opts udfs run_id outputs i ups xf sql data w =
     (let annotated = (case xf_lineage_annotations xf of None \<Rightarrow> False | Some a \<Rightarrow> a \<noteq> [])
      in case execute_sql_transform E udfs i sql data (eo_column_store opts \<and> \<not> annotated) w of
           (Inl e, w1) \<Rightarrow> (Err e, w1)
         | (Inr (bs, lineage), w1) \<Rightarrow>
             let nl = (if annotated
                   then Some (derive_annotation_lineage i (case xf_lineage_annotations xf of None \<Rightarrow> [] | Some a \<Rightarrow> a)
                     (concat (map (\<lambda>u. case outputs u of None \<Rightarrow> [] | Some ubs \<Rightarrow> [(u, extract_column_names ubs)]) ups))
                     (Some (extract_column_names bs)))
                   else lineage)
             in (Ok bs, persist_if E opts run_id nl w1))"

definition run_python_node ::
  "('c, 's, 'u) exec_env \<Rightarrow> options \<Rightarrow> resolved_variables \<Rightarrow> run_id \<Rightarrow> node_id \<Rightarrow> transform_config \<Rightarrow>
   string \<Rightarrow> (node_id \<times> 'c batch list) list \<Rightarrow> ('c, 's) world \<Rightarrow> ('c node_error + 'c batch list) \<times> ('c, 's) world" where
  "run_python_node E opts vars run_id i xf code data w =
     (let inputs = map (\<lambda>(u, bs). (u, extract_column_names bs)) (hash_values E data); w1 = note_call (CPython i code) w
      in case xe_python E (wo_calls w) code data vars of
           Inl e \<Rightarrow> (Err e, w1)
         | Inr (bs, py) \<Rightarrow>
             let nl = (case xf_lineage_annotations xf of
                   Some (a # as) \<Rightarrow> derive_annotation_lineage i (a # as) inputs (Some (extract_column_names bs))
                 | _ \<Rightarrow> (case py of
                       Some l \<Rightarrow> derive_python_lineage i l inputs
                     | None \<Rightarrow> derive_opaque_lineage i inputs (extract_column_names bs)))
             in (Ok bs, persist_if E opts run_id (Some nl) w1))"

subsection \<open>Sinks\<close>

text \<open>The schema change since the last run, and whether the sink is to adapt its target.\<close>

definition sink_schema_check ::
  "('c, 's, 'u) exec_env \<Rightarrow> options \<Rightarrow> string \<Rightarrow> node_id \<Rightarrow> sink_plan option \<Rightarrow> 'c batch list \<Rightarrow> 's \<Rightarrow>
   'c node_error + schema_diff option \<times> bool" where
  "sink_schema_check E opts pname i plan bs s = (case (plan, eo_state_store opts, first_schema bs) of
      (Some pl, True, Some current) \<Rightarrow> (case so_latest_schema (xe_storage E) s pname i (eo_environment opts) of
          Inl e \<Rightarrow> Err (NeSink (show_incremental_error e))
        | Inr None \<Rightarrow> Ok (None, False)
        | Inr (Some prev) \<Rightarrow> (case deserialize_schema (xe_schema_json E) (sr_schema_json prev) of
            None \<Rightarrow> Ok (None, False)
          | Some prev_schema \<Rightarrow>
              let diff = compute_schema_diff (xe_other_type E) (xe_field_order E) prev_schema current;
                  reported = (if diff_is_empty diff then None else Some diff)
              in case apply_policy diff (mp_on_schema_change (kp_policy pl)) of
                   Proceed \<Rightarrow> Ok (reported, False)
                 | ProceedWithAlter \<Rightarrow> Ok (reported, True)
                 | AbortRun reason \<Rightarrow> Err (NeSink (''schema change rejected: '' @ reason))))
    | _ \<Rightarrow> Ok (None, False))"

text \<open>The receipt of an incremental sink, and the value its watermark moves to.\<close>

definition enrich_receipt ::
  "time_text \<Rightarrow> watermark \<Rightarrow> sink_plan \<Rightarrow> scalar option \<Rightarrow> schema_diff option \<Rightarrow> receipt \<Rightarrow> receipt \<times> string option" where
  "enrich_receipt T wm pl new_max diff rc =
     (let new_value = (case new_max of None \<Rightarrow> None | Some s \<Rightarrow> scalar_to_stored T (wm_type wm) s);
          advanced = (case new_value of Some v \<Rightarrow> Some v | None \<Rightarrow> map_option is_watermark_value (kp_state pl))
      in (rc\<lparr>rc_watermark_before := map_option (\<lambda>st. \<lparr>wv_value = is_watermark_value st, wv_type = is_watermark_type st\<rparr>) (kp_state pl),
             rc_watermark_after := map_option (\<lambda>v. \<lparr>wv_value = v, wv_type = watermark_type_str (wm_type wm)\<rparr>) advanced,
             rc_schema_diff := diff\<rparr>, advanced))"

definition fingerprint_of_schema :: "('c, 's, 'u) exec_env \<Rightarrow> schema \<Rightarrow> string" where
  "fingerprint_of_schema E s = schema_fingerprint (xe_other_type E) (xe_hash E) s"

definition new_state ::
  "('c, 's, 'u) exec_env \<Rightarrow> options \<Rightarrow> string \<Rightarrow> node_id \<Rightarrow> run_id \<Rightarrow> watermark \<Rightarrow> 'c batch list \<Rightarrow> receipt \<Rightarrow> string \<Rightarrow> int \<Rightarrow>
   incremental_state" where
  "new_state E opts pname i run_id wm bs rc v now = \<lparr>is_pipeline_id = pname, is_node_id = i,
     is_environment = eo_environment opts, is_watermark_column = wm_column wm, is_watermark_value = v,
     is_watermark_type = watermark_type_str (wm_type wm), is_last_run_at_ms = now, is_last_run_id = run_id,
     is_rows_processed = rc_rows_written rc, is_schema_fingerprint = map_option (fingerprint_of_schema E) (first_schema bs)\<rparr>"

text \<open>After the write: the state and the schema record are saved, errors ignored.\<close>

definition persist_state ::
  "('c, 's, 'u) exec_env \<Rightarrow> options \<Rightarrow> string \<Rightarrow> node_id \<Rightarrow> run_id \<Rightarrow> watermark \<Rightarrow> 'c batch list \<Rightarrow> receipt \<Rightarrow> string option \<Rightarrow>
   ('c, 's) world \<Rightarrow> ('c, 's) world" where
  "persist_state E opts pname i run_id wm bs rc advanced w0 =
     (if \<not> eo_state_store opts then w0
      else
        let w1 = (case advanced of
              None \<Rightarrow> w0
            | Some v \<Rightarrow> ignoring True
                (so_save_state (xe_storage E) (new_state E opts pname i run_id wm bs rc v (xe_utc_ms E (wo_tick w0)))) (tick w0))
        in case first_schema bs of
             None \<Rightarrow> w1
           | Some s \<Rightarrow> ignoring True (so_record_schema (xe_storage E) \<lparr>sr_pipeline_id = pname, sr_node_id = i,
               sr_environment = eo_environment opts, sr_run_id = run_id,
               sr_schema_json = serialize_schema (xe_other_type E) (xe_schema_json E) s,
               sr_fingerprint = fingerprint_of_schema E s, sr_recorded_at_ms = xe_utc_ms E (wo_tick w1)\<rparr>) (tick w1))"

definition execute_sink ::
  "('c, 's, 'u) exec_env \<Rightarrow> options \<Rightarrow> string \<Rightarrow> node_id \<Rightarrow> run_id \<Rightarrow> sink_config \<Rightarrow> 'c batch list \<Rightarrow> sink_plan option \<Rightarrow>
   ('c, 's) world \<Rightarrow> (('c node_error + 'c batch list \<times> receipt) \<times> ('c, 's) world) option" where
  "execute_sink E opts pname i run_id cfg bs plan w =
     (if \<not> xe_has_sink E (snk_connector cfg) then Some (Err (NeSinkNotFound (snk_connector cfg)), w)
      else (case sink_schema_check E opts pname i plan bs (wo_store w) of
          Inl e \<Rightarrow> Some (Err e, w)
        | Inr (diff, alter) \<Rightarrow>
            let ctx = (context_from_policy (snk_materialization cfg))\<lparr>mc_apply_schema_changes := alter\<rparr>;
                write = (case xe_write E (wo_calls w) i cfg bs ctx of Inl e \<Rightarrow> Err (NeSink e) | Inr rc \<Rightarrow> Ok rc);
                w1 = note_call (CWrite i cfg bs ctx) w
            in case plan of
                 None \<Rightarrow> Some (case write of Inl e \<Rightarrow> Err e | Inr rc \<Rightarrow> Ok (bs, rc), w1)
               | Some pl \<Rightarrow> (case mp_watermark (kp_policy pl) of
                   None \<Rightarrow> None
                 | Some wm \<Rightarrow> (case fold_max_watermark (xe_arrays E) bs (wm_column wm) (wm_type wm) of
                     Inl e \<Rightarrow> Some (Err (NeSink (show_incremental_error e)), w)
                   | Inr new_max \<Rightarrow> (case write of
                       Inl e \<Rightarrow> Some (Err e, w1)
                     | Inr rc \<Rightarrow> (case enrich_receipt (xe_time_text E) wm pl new_max diff rc of
                         (rc', advanced) \<Rightarrow>
                           Some (Ok (bs, rc'), persist_state E opts pname i run_id wm bs rc' advanced w1)))))))"

subsection \<open>One node\<close>

record node_info =
  ni_rows_in :: u64
  ni_secrets :: "string list"
  ni_receipt :: "receipt option"
  ni_boundary :: "(string list \<times> node_id list) option"
  ni_sql :: "string option"

definition no_info :: node_info where
  "no_info = \<lparr>ni_rows_in = 0, ni_secrets = [], ni_receipt = None, ni_boundary = None, ni_sql = None\<rparr>"

text \<open>\<open>Early\<close> is an error that returns from the run at once.\<close>

datatype 'c outcome = Early "'c node_error" | Done "'c node_error + 'c batch list" node_info "'c test_result option"

text \<open>What does not change during a run.\<close>

record ('c, 's, 'u) run_ctx =
  rx_env :: "('c, 's, 'u) exec_env"
  rx_opts :: options
  rx_pipeline :: pipeline
  rx_udfs :: 'u
  rx_plans :: plans
  rx_vars :: resolved_variables
  rx_id :: run_id

definition run_source :: "('c, 's, 'u) run_ctx \<Rightarrow> node_id \<Rightarrow> source_config \<Rightarrow> ('c, 's) world \<Rightarrow> ('c outcome \<times> ('c, 's) world) option" where
  "run_source X i src w = (case prepare_config (rx_env X) (rx_opts X) (rx_pipeline X) (rx_vars X) i (src_config src) of
      Inl e \<Rightarrow> Some (Early (NeSource e), w)
    | Inr (cfg, secrets) \<Rightarrow> map_option (\<lambda>(r, w1). (Done r (no_info\<lparr>ni_secrets := secrets\<rparr>) None, w1))
        (execute_source (rx_env X) i (src\<lparr>src_config := cfg\<rparr>) (pl_sources (rx_plans X) i) w))"

definition run_transform ::
  "('c, 's, 'u) run_ctx \<Rightarrow> (node_id \<rightharpoonup> 'c batch list) \<Rightarrow> node_id \<Rightarrow> transform_config \<Rightarrow> ('c, 's) world \<Rightarrow> 'c outcome \<times> ('c, 's) world" where
  "run_transform X outputs i xf w = (case resolve_code (xe_host (rx_env X)) (rx_pipeline X) xf of
      None \<Rightarrow> (Done (Err (NeCodeFileRead (case xf_code_path xf of None \<Rightarrow> ''(inline)'' | Some path \<Rightarrow> path)
        (xe_file_error (rx_env X) (xf_code_path xf)))) no_info None, w)
    | Some code \<Rightarrow>
        let ups = upstream_of (rx_pipeline X) i
        in case gather_upstream outputs ups [] 0 of
             (Inl e, n) \<Rightarrow> (Done (Err e) (no_info\<lparr>ni_rows_in := n\<rparr>) None, w)
           | (Inr data, n) \<Rightarrow> (case xf_mode xf of
               Sql \<Rightarrow>
                 let sql = interpolate (h_env (xe_host (rx_env X))) (h_print (xe_host (rx_env X))) (rx_vars X) code
                 in (case run_sql_node (rx_env X) (rx_opts X) (rx_udfs X) (rx_id X) outputs i ups xf sql data w of
                       (r, w1) \<Rightarrow> (Done r (no_info\<lparr>ni_rows_in := n, ni_sql := Some sql\<rparr>) None, w1))
             | Python \<Rightarrow> (case run_python_node (rx_env X) (rx_opts X) (rx_vars X) (rx_id X) i xf code data w of
                   (r, w1) \<Rightarrow> (Done r (no_info\<lparr>ni_rows_in := n\<rparr>) None, w1))))"

definition boundary_info :: "options \<Rightarrow> 'c batch list \<Rightarrow> node_id list \<Rightarrow> (string list \<times> node_id list) option" where
  "boundary_info opts bs ups =
     (if eo_column_store opts \<and> eo_pipeline_id opts \<noteq> None \<and> eo_fingerprint_fn opts \<noteq> None
      then Some (extract_column_names bs, ups) else None)"

definition run_sink ::
  "('c, 's, 'u) run_ctx \<Rightarrow> (node_id \<rightharpoonup> 'c batch list) \<Rightarrow> node_id \<Rightarrow> sink_config \<Rightarrow> ('c, 's) world \<Rightarrow> ('c outcome \<times> ('c, 's) world) option" where
  "run_sink X outputs i snk w =
     (if eo_dry_run_no_sinks (rx_opts X) then Some (Done (Ok []) no_info None, w)
      else
        let ups = upstream_of (rx_pipeline X) i
        in case gather_upstream outputs ups [] 0 of
             (Inl e, n) \<Rightarrow> Some (Done (Err e) (no_info\<lparr>ni_rows_in := n\<rparr>) None, w)
           | (Inr data, n) \<Rightarrow>
               let bs = concat (map snd (hash_values (rx_env X) data))
               in case prepare_config (rx_env X) (rx_opts X) (rx_pipeline X) (rx_vars X) i (snk_config snk) of
                    Inl e \<Rightarrow> Some (Early (NeSink e), w)
                  | Inr (cfg, secrets) \<Rightarrow> map_option (\<lambda>(r, w1).
                        (Done (case r of Inl e \<Rightarrow> Err e | Inr (out, _) \<Rightarrow> Ok out)
                          \<lparr>ni_rows_in = n, ni_secrets = secrets,
                           ni_receipt = (case r of Inl _ \<Rightarrow> None | Inr (_, rc) \<Rightarrow> Some rc),
                           ni_boundary = boundary_info (rx_opts X) bs ups, ni_sql = None\<rparr> None, w1))
                      (execute_sink (rx_env X) (rx_opts X) (p_name (rx_pipeline X)) i (rx_id X) (snk\<lparr>snk_config := cfg\<rparr>) bs
                        (pl_sinks (rx_plans X) i) w))"

definition run_test ::
  "('c, 's, 'u) run_ctx \<Rightarrow> (node_id \<rightharpoonup> 'c batch list) \<Rightarrow> node_id \<Rightarrow> test_config \<Rightarrow> ('c, 's) world \<Rightarrow> 'c outcome \<times> ('c, 's) world" where
  "run_test X outputs i cfg w = (case gather_upstream outputs (upstream_of (rx_pipeline X) i) [] 0 of
      (Inl e, n) \<Rightarrow> (Done (Err e) (no_info\<lparr>ni_rows_in := n\<rparr>) None, w)
    | (Inr data, n) \<Rightarrow>
        let info = no_info\<lparr>ni_rows_in := n\<rparr>
        in case execute_test (xe_tests (rx_env X)) i cfg (concat (map snd (hash_values (rx_env X) data))) of
             Inr (out, r) \<Rightarrow> (Done (Ok out) info (Some r), emit (EvTestNodePassed (rx_id X) i (length (tr_assertions r))) w)
           | Inl (NeTestAssertionFailed summary r) \<Rightarrow>
               (Done (Err (NeTestAssertionFailed summary r)) info (Some r),
                emit (EvTestNodeFailed (rx_id X) i (tr_severity r) (failure_messages r)) w)
           | Inl e \<Rightarrow> (Done (Err e) info None, w))"

definition run_node ::
  "('c, 's, 'u) run_ctx \<Rightarrow> (node_id \<rightharpoonup> 'c batch list) \<Rightarrow> node \<Rightarrow> ('c, 's) world \<Rightarrow> ('c outcome \<times> ('c, 's) world) option" where
  "run_node X outputs n w = (case n_kind n of
      Source src \<Rightarrow> run_source X (n_id n) src w
    | Transform xf \<Rightarrow> Some (run_transform X outputs (n_id n) xf w)
    | Sink snk \<Rightarrow> run_sink X outputs (n_id n) snk w
    | Test cfg \<Rightarrow> Some (run_test X outputs (n_id n) cfg w)
    | Snippet _ \<Rightarrow> None)"

subsection \<open>The run\<close>

record node_stats =
  nst_node_id :: node_id
  nst_start :: int
  nst_end :: int
  nst_rows_in :: u64
  nst_rows_out :: u64
  nst_error :: "string option"

record 'c progress =
  pg_run :: pipeline_run
  pg_outputs :: "node_id \<rightharpoonup> 'c batch list"
  pg_stats :: "node_stats list"
  pg_tests :: "'c test_result list"

record 'c pipeline_result =
  res_pipeline_name :: string
  res_start :: int
  res_end :: int
  res_outputs :: "node_id \<rightharpoonup> 'c batch list"
  res_stats :: "node_stats list"
  res_tests :: "'c test_result list"

definition add_stats ::
  "('c, 's, 'u) run_ctx \<Rightarrow> node_id \<Rightarrow> int \<times> int \<Rightarrow> int \<times> int \<Rightarrow> u64 \<Rightarrow> u64 \<Rightarrow> string option \<Rightarrow> receipt option \<Rightarrow>
   'c progress \<Rightarrow> ('c, 's) world \<Rightarrow> 'c progress \<times> ('c, 's) world" where
  "add_stats X i started ended rows_in rows_out err rc pg w =
     (let st = \<lparr>nr_node_id = i, nr_start_time = snd started, nr_end_time = snd ended, nr_rows_in = rows_in,
            nr_rows_out = rows_out, nr_error = err, nr_receipt = rc\<rparr>
      in (pg\<lparr>pg_stats := pg_stats pg @ [\<lparr>nst_node_id = i, nst_start = fst started, nst_end = fst ended,
              nst_rows_in = rows_in, nst_rows_out = rows_out, nst_error = err\<rparr>],
            pg_run := (pg_run pg)\<lparr>pr_node_stats := pr_node_stats (pg_run pg) @ [st]\<rparr>\<rparr>,
          ignoring (eo_run_store (rx_opts X)) (so_save_node_stats (xe_storage (rx_env X)) (rx_id X) st) w))"

text \<open>The resource a source reads or a sink writes.\<close>

definition resource_of :: "fingerprint_fn \<Rightarrow> node \<Rightarrow> (binding_direction \<times> fingerprint) option" where
  "resource_of fp n = (case n_kind n of
      Source src \<Rightarrow> map_option (Pair BdSource) (fp (src_connector src) (src_config src))
    | Sink snk \<Rightarrow> map_option (Pair BdSink) (fp (snk_connector snk) (snk_config snk))
    | _ \<Rightarrow> None)"

definition record_lineage :: "('c, 's, 'u) run_ctx \<Rightarrow> node \<Rightarrow> int \<Rightarrow> ('c, 's) world \<Rightarrow> ('c, 's) world" where
  "record_lineage X n end_wall w = (case (eo_fingerprint_fn (rx_opts X), eo_pipeline_id (rx_opts X)) of
      (Some fp, Some pid) \<Rightarrow> (case resource_of fp n of
          None \<Rightarrow> w
        | Some (dir, f) \<Rightarrow> ignoring (eo_lineage_store (rx_opts X)) (so_record_observation (xe_storage (rx_env X))
            \<lparr>ob_pipeline_id = pid, ob_node_id = n_id n, ob_run_id = rx_id X, ob_direction = dir, ob_fingerprint = f,
             ob_environment = eo_environment (rx_opts X), ob_observed_at_ms = system_time_to_ms end_wall\<rparr>) w)
    | _ \<Rightarrow> w)"

definition record_boundary ::
  "('c, 's, 'u) run_ctx \<Rightarrow> node \<Rightarrow> 'c batch list \<Rightarrow> (string list \<times> node_id list) option \<Rightarrow> ('c, 's) world \<Rightarrow> ('c, 's) world" where
  "record_boundary X n bs boundary w = (case eo_fingerprint_fn (rx_opts X) of
      None \<Rightarrow> w
    | Some fp \<Rightarrow> (case resource_of fp n of
        None \<Rightarrow> w
      | Some (BdSource, f) \<Rightarrow> persist_if (rx_env X) (rx_opts X) (rx_id X)
          (Some (derive_source_boundary_lineage (n_id n) f (extract_column_names bs))) w
      | Some (BdSink, f) \<Rightarrow> (case boundary of
          None \<Rightarrow> w
        | Some (cols, ups) \<Rightarrow> fold (\<lambda>u. persist_if (rx_env X) (rx_opts X) (rx_id X)
            (Some (derive_sink_boundary_lineage (n_id n) f cols u))) ups w)))"

definition finish_ok ::
  "('c, 's, 'u) run_ctx \<Rightarrow> node \<Rightarrow> int \<times> int \<Rightarrow> int \<times> int \<Rightarrow> node_info \<Rightarrow> 'c batch list \<Rightarrow> 'c progress \<Rightarrow> ('c, 's) world \<Rightarrow>
   'c progress \<times> ('c, 's) world" where
  "finish_ok X n started ended info bs pg w =
     (case add_stats X (n_id n) started ended (ni_rows_in info) (total_rows bs) None (ni_receipt info) pg w of (pg1, w1) \<Rightarrow>
      (pg1\<lparr>pg_outputs := (pg_outputs pg1)(n_id n \<mapsto> bs)\<rparr>,
       emit (EvNodeCompleted (rx_id X) (n_id n) (total_rows bs) (elapsed_ms (fst started) (fst ended)) (ni_receipt info))
         (record_boundary X n bs (ni_boundary info) (record_lineage X n (snd ended) w1))))"

text \<open>The end of a run: the test results and the status are saved, the last event is sent.\<close>

definition close_run ::
  "('c, 's, 'u) run_ctx \<Rightarrow> run_status \<Rightarrow> string option \<Rightarrow> int \<Rightarrow> 'c progress \<Rightarrow> ('c, 's) world \<Rightarrow> 'c progress \<times> ('c, 's) world" where
  "close_run X status err end_wall pg w =
     (let ts = map (summary_of (xe_rows (rx_env X))) (pg_tests pg); opts = rx_opts X; S = xe_storage (rx_env X)
      in (pg\<lparr>pg_run := (pg_run pg)\<lparr>pr_test_results := ts, pr_status := status, pr_end_time := Some end_wall,
            pr_error := (case err of None \<Rightarrow> pr_error (pg_run pg) | Some e \<Rightarrow> Some e)\<rparr>\<rparr>,
          ignoring (eo_run_store opts) (so_finish_run S (rx_id X) status end_wall err)
            (ignoring (eo_run_store opts \<and> ts \<noteq> []) (so_save_test_results S (rx_id X) ts) w)))"

definition failure_report_of ::
  "('c, 's, 'u) run_ctx \<Rightarrow> node \<Rightarrow> node_info \<Rightarrow> 'c node_error \<Rightarrow> (node_id \<rightharpoonup> 'c batch list) \<Rightarrow> int \<Rightarrow> failure_report" where
  "failure_report_of X n info kind outputs now =
     (let E = rx_env X;
          ups = concat (map (\<lambda>u. case outputs u of None \<Rightarrow> [] | Some bs \<Rightarrow> [(u, bs)]) (upstream_of (rx_pipeline X) (n_id n)));
          sample = sample_input_rows (xe_head_rows E) ups DEFAULT_SAMPLE_ROW_LIMIT
      in \<lparr>fr_run_id = rx_id X, fr_node_id = n_id n, fr_pipeline_name = p_name (rx_pipeline X),
          fr_environment = eo_environment (rx_opts X),
          fr_error_chain = map (\<lambda>m. scrub_secrets (xe_regexes E) m (ni_secrets info)) (build_error_chain kind),
          fr_node_config = xe_node_json E (n_kind n), fr_input_schemas = extract_input_schemas (xe_other_type E) ups,
          fr_input_sample = fst sample, fr_input_total_rows = snd sample, fr_executed_sql = ni_sql info,
          fr_plugin_diagnostics = None, fr_source_query = None, fr_captured_at_ms = system_time_to_ms now\<rparr>)"

definition finish_err ::
  "('c, 's, 'u) run_ctx \<Rightarrow> int \<Rightarrow> node \<Rightarrow> int \<times> int \<Rightarrow> int \<times> int \<Rightarrow> node_info \<Rightarrow> 'c node_error \<Rightarrow> 'c progress \<Rightarrow> ('c, 's) world \<Rightarrow>
   'c executor_error \<times> ('c, 's) world" where
  "finish_err X run_start n started ended info kind pg w =
     (let E = rx_env X; opts = rx_opts X;
          msg = scrub_secrets (xe_regexes E) (show_node_error kind) (ni_secrets info)
      in case add_stats X (n_id n) started ended (ni_rows_in info) 0 (Some msg) None pg w of (pg1, w1) \<Rightarrow>
         let w2 = (if eo_run_store opts
               then ignoring True (so_save_failure_report (xe_storage E)
                 (failure_report_of X n info kind (pg_outputs pg1) (xe_wall E (wo_tick w1)))) (tick w1)
               else w1);
             w3 = emit (EvNodeFailed (rx_id X) (n_id n) msg) w2;
             w4 = snd (close_run X RsFailed (Some msg) (xe_wall E (wo_tick w3)) pg1 (tick w3));
             w5 = emit (EvRunCompleted (rx_id X) RsFailed (elapsed_ms run_start (xe_instant E (wo_tick w4)))) (tick w4)
         in (ExNode (n_id n) kind, w5))"

definition cancel_run ::
  "('c, 's, 'u) run_ctx \<Rightarrow> int \<Rightarrow> ('c, 's) world \<Rightarrow> ('c, 's) world" where
  "cancel_run X run_start w =
     (let E = rx_env X;
          w1 = ignoring (eo_run_store (rx_opts X)) (so_finish_run (xe_storage E) (rx_id X) RsCancelled (xe_wall E (wo_tick w)) None) (tick w)
      in emit (EvRunCompleted (rx_id X) RsCancelled (elapsed_ms run_start (xe_instant E (wo_tick w1)))) (tick w1))"

definition add_test :: "'c test_result option \<Rightarrow> 'c progress \<Rightarrow> 'c progress" where
  "add_test test pg = (case test of None \<Rightarrow> pg | Some t \<Rightarrow> pg\<lparr>pg_tests := pg_tests pg @ [t]\<rparr>)"

text \<open>One turn of the loop over the order: the node between its two clock readings.\<close>

definition step_node ::
  "('c, 's, 'u) run_ctx \<Rightarrow> int \<Rightarrow> node \<Rightarrow> 'c progress \<Rightarrow> ('c, 's) world \<Rightarrow>
   (('c executor_error + 'c progress) \<times> ('c, 's) world) option" where
  "step_node X run_start n pg w0 =
     (let E = rx_env X; w1 = emit (EvNodeStarted (rx_id X) (n_id n)) w0;
          started = (xe_instant E (wo_tick w1), xe_wall E (Suc (wo_tick w1)))
      in case run_node X (pg_outputs pg) n (tick (tick w1)) of
           None \<Rightarrow> None
         | Some (Early e, w2) \<Rightarrow> Some (Err (ExNode (n_id n) e), w2)
         | Some (Done r info test, w2) \<Rightarrow>
             let ended = (xe_instant E (wo_tick w2), xe_wall E (Suc (wo_tick w2))); w3 = tick (tick w2);
                 pg1 = add_test test pg
             in Some (case r of
                  Inr bs \<Rightarrow> (case finish_ok X n started ended info bs pg1 w3 of (pg2, w4) \<Rightarrow> (Ok pg2, w4))
                | Inl kind \<Rightarrow> (case finish_err X run_start n started ended info kind pg1 w3 of (e, w4) \<Rightarrow> (Err e, w4))))"

fun run_nodes ::
  "('c, 's, 'u) run_ctx \<Rightarrow> int \<Rightarrow> node_id list \<Rightarrow> 'c progress \<Rightarrow> ('c, 's) world \<Rightarrow>
   (('c executor_error + 'c progress) \<times> ('c, 's) world) option" where
  "run_nodes X run_start [] pg w = Some (Ok pg, w)"
| "run_nodes X run_start (i # is) pg w =
     (if xe_cancel (rx_env X) (wo_tick w) then Some (Err ExCancelled, cancel_run X run_start (tick w))
      else (case node_of (rx_pipeline X) i of
          None \<Rightarrow> None
        | Some n \<Rightarrow> (case step_node X run_start n pg (tick w) of
              None \<Rightarrow> None
            | Some (Inl e, w1) \<Rightarrow> Some (Err e, w1)
            | Some (Inr pg1, w1) \<Rightarrow> run_nodes X run_start is pg1 w1)))"

text \<open>What happens before the run is recorded: the SQL functions and the incremental plans.\<close>

definition first_node_id :: "(node \<Rightarrow> bool) \<Rightarrow> pipeline \<Rightarrow> node_id \<Rightarrow> node_id" where
  "first_node_id P p missing = (case find P (p_nodes p) of None \<Rightarrow> missing | Some n \<Rightarrow> n_id n)"

definition is_sql :: "node \<Rightarrow> bool" where
  "is_sql n = (case n_kind n of Transform xf \<Rightarrow> xf_mode xf = Sql | _ \<Rightarrow> False)"

definition prepare_run ::
  "('c, 's, 'u) exec_env \<Rightarrow> options \<Rightarrow> pipeline \<Rightarrow> 's \<Rightarrow> ('c executor_error + 'u \<times> plans) option" where
  "prepare_run E opts p s =
     (case (case p_udfs_dir p of None \<Rightarrow> Ok (xe_no_udfs E) | Some dir \<Rightarrow> xe_load_udfs E dir) of
        Inl e \<Rightarrow> Some (Err (ExNode (first_node_id is_sql p ''<udf-load>'') (NeUdf e)))
      | Inr udfs \<Rightarrow>
          (case (if eo_dry_run_no_sinks opts then Some (Ok no_plans)
             else build_plans p (if eo_state_store opts then Some (so_load_state (xe_storage E) s) else None)
               \<lparr>po_pipeline_id = p_name p, po_environment = eo_environment opts, po_full_refresh = eo_full_refresh opts,
                po_bootstrap = eo_bootstrap opts\<rparr>) of
             None \<Rightarrow> None
           | Some (Inl e) \<Rightarrow> Some (Err (ExNode (first_node_id (\<lambda>n. is_sink (n_kind n)) p ''<pre-pass>'')
               (NeSource (show_coordinator_error e))))
           | Some (Inr plans) \<Rightarrow> Some (Ok (udfs, plans))))"

definition run_order ::
  "('c, 's, 'u) run_ctx \<Rightarrow> node_id list \<Rightarrow> pipeline_run \<Rightarrow> ('c, 's) world \<Rightarrow>
   (('c executor_error + 'c pipeline_result \<times> pipeline_run) \<times> ('c, 's) world) option" where
  "run_order X order run0 w0 =
     (let E = rx_env X; opts = rx_opts X;
          start_wall = xe_wall E (wo_tick w0); run_start = xe_instant E (Suc (wo_tick w0));
          run = run0\<lparr>pr_status := RsRunning, pr_start_time := Some start_wall, pr_triggered_by := eo_triggered_by opts\<rparr>;
          w1 = ignoring (eo_run_store opts) (so_set_running (xe_storage E) (rx_id X) start_wall (eo_triggered_by opts)) (tick (tick w0));
          w2 = emit (EvRunStarted (rx_id X) (p_name (rx_pipeline X))) w1
      in case run_nodes X run_start order \<lparr>pg_run = run, pg_outputs = Map.empty, pg_stats = [], pg_tests = []\<rparr> w2 of
           None \<Rightarrow> None
         | Some (Inl e, w3) \<Rightarrow> Some (Err e, w3)
         | Some (Inr pg, w3) \<Rightarrow>
             let run_end = xe_instant E (wo_tick w3)
             in (case close_run X RsSuccess None (xe_wall E (Suc (wo_tick w3))) pg (tick (tick w3)) of (pg1, w4) \<Rightarrow>
                 Some (Ok (\<lparr>res_pipeline_name = p_name (rx_pipeline X), res_start = run_start, res_end = run_end,
                     res_outputs = pg_outputs pg1, res_stats = pg_stats pg1, res_tests = pg_tests pg1\<rparr>, pg_run pg1),
                   emit (EvRunCompleted (rx_id X) RsSuccess (elapsed_ms run_start run_end)) w4)))"

definition execute ::
  "('c, 's, 'u) exec_env \<Rightarrow> options \<Rightarrow> pipeline \<Rightarrow> ('c, 's) world \<Rightarrow>
   (('c executor_error + 'c pipeline_result \<times> pipeline_run) \<times> ('c, 's) world) option" where
  "execute E opts p w = (case validate (h_order (xe_host E)) p of
      None \<Rightarrow> None
    | Some (Inl es) \<Rightarrow> Some (Err (ExValidation es), w)
    | Some (Inr _) \<Rightarrow> (case topological_sort (h_order (xe_host E)) p of
        None \<Rightarrow> None
      | Some order \<Rightarrow> (case prepare_run E opts p (wo_store w) of
          None \<Rightarrow> None
        | Some (Inl e) \<Rightarrow> Some (Err e, w)
        | Some (Inr (udfs, plans)) \<Rightarrow>
            (case (if eo_run_store opts then so_create_run (xe_storage E) (xe_uuid E) (p_name p) (eo_environment opts) (wo_store w)
               else (Ok (new_run (xe_uuid E) (p_name p) (eo_environment opts)), wo_store w)) of
               (Inl e, s) \<Rightarrow> Some (Err (ExRunStore e), w\<lparr>wo_store := s\<rparr>)
             | (Inr run, s) \<Rightarrow>
                 run_order \<lparr>rx_env = E, rx_opts = opts, rx_pipeline = p, rx_udfs = udfs, rx_plans = plans,
                   rx_vars = resolve p (eo_overrides opts) \<lparr>bc_run_date = xe_run_date E, bc_run_id = pr_id run,
                     bc_pipeline_name = p_name p, bc_environment = eo_environment opts\<rparr>, rx_id = pr_id run\<rparr>
                   order run (w\<lparr>wo_store := s\<rparr>)))))"

end
