(* ===== verification/Output_Cache.thy ===== *)
theory Output_Cache
  imports Executor Snapshot "HOL-Library.Countable"
begin

text \<open>
  \<open>output_cache.rs\<close>: the files that keep the outputs of nodes for previews, and their manifest with a
  fingerprint per node.  The directory is a map from a directory and a file name to the bytes of the
  file.  Which calls of the file system fail, Arrow's IPC format, JSON and the hasher are parameters.
\<close>

section \<open>Types\<close>

datatype cache_error = CeIo string | CeArrow string | CeJson

record cache_node_entry =
  cne_fingerprint :: string
  cne_cached_at :: u64
  cne_rows :: u64
  cne_size_bytes :: u64

type_synonym cache_manifest = "(string \<times> cache_node_entry) list"
type_synonym cache_path = "string \<times> string"

record cache_fs =
  cf_dirs :: "string list"
  cf_files :: "cache_path \<rightharpoonup> string"

datatype io_op =
    IoMakeDir string | IoCreate cache_path | IoWrite cache_path | IoRead cache_path | IoStat cache_path
  | IoRemove cache_path | IoRemoveDir string

text \<open>What is fed to the hasher: strings and vectors of strings, each with its own end.\<close>

datatype hash_item = HStr string | HVec "string list"

text \<open>
  \<open>ke_fault\<close> gives the error of a call that fails.  \<open>ke_torn\<close> is what a failing write leaves in the
  file.  \<open>ke_ipc_write\<close> gives the bytes Arrow leaves in the file and its error, if there is one.
\<close>

record 'c cache_env =
  ke_host :: host
  ke_now :: u64
  ke_fault :: "io_op \<Rightarrow> string option"
  ke_torn :: "cache_path \<Rightarrow> string \<Rightarrow> string"
  ke_slice :: "nat \<Rightarrow> nat \<Rightarrow> 'c \<Rightarrow> 'c"
  ke_ipc_write :: "'c batch list \<Rightarrow> string \<times> string option"
  ke_ipc_read :: "string \<Rightarrow> string + 'c batch list"
  ke_manifest_text :: "cache_manifest \<Rightarrow> string"
  ke_manifest_parse :: "string \<Rightarrow> cache_manifest option"
  ke_test_json :: "test_config \<Rightarrow> string option"
  ke_hash :: "hash_item list \<Rightarrow> u64"

section \<open>Names\<close>

definition sanitize_char :: "char \<Rightarrow> char" where
  "sanitize_char c = (if c \<in> set [CHR ''/'', CHR 0x5c, CHR 0x00, CHR '':'', CHR ''*'', CHR ''?'', CHR 0x22, CHR ''<'', CHR ''>'', CHR ''|'']
     then CHR ''_'' else c)"

definition sanitize_name :: "string \<Rightarrow> string" where
  "sanitize_name s = map sanitize_char s"

definition pipeline_dir :: "string \<Rightarrow> string" where
  "pipeline_dir name = sanitize_name name"

definition node_path :: "string \<Rightarrow> node_id \<Rightarrow> cache_path" where
  "node_path name i = (pipeline_dir name, sanitize_name i @ ''.arrow'')"

definition manifest_path :: "string \<Rightarrow> cache_path" where
  "manifest_path name = (pipeline_dir name, ''manifest.json'')"

section \<open>Files\<close>

definition create_dir_all :: "'c cache_env \<Rightarrow> string \<Rightarrow> cache_fs \<Rightarrow> (cache_error + unit) \<times> cache_fs" where
  "create_dir_all K d fs = (case ke_fault K (IoMakeDir d) of
      Some e \<Rightarrow> (Err (CeIo e), fs)
    | None \<Rightarrow> (Ok (), fs\<lparr>cf_dirs := List.insert d (cf_dirs fs)\<rparr>))"

text \<open>\<open>std::fs::write\<close>: the file is emptied first; writing nothing cannot fail.\<close>

definition write_file :: "'c cache_env \<Rightarrow> cache_path \<Rightarrow> string \<Rightarrow> cache_fs \<Rightarrow> (cache_error + unit) \<times> cache_fs" where
  "write_file K path data fs = (case ke_fault K (IoCreate path) of
      Some e \<Rightarrow> (Err (CeIo e), fs)
    | None \<Rightarrow> (case (if data = [] then None else ke_fault K (IoWrite path)) of
        Some e \<Rightarrow> (Err (CeIo e), fs\<lparr>cf_files := (cf_files fs)(path \<mapsto> ke_torn K path data)\<rparr>)
      | None \<Rightarrow> (Ok (), fs\<lparr>cf_files := (cf_files fs)(path \<mapsto> data)\<rparr>)))"

definition write_ipc :: "'c cache_env \<Rightarrow> cache_path \<Rightarrow> 'c batch list \<Rightarrow> cache_fs \<Rightarrow> (cache_error + unit) \<times> cache_fs" where
  "write_ipc K path bs fs =
     (if bs = [] then write_file K path [] fs
      else (case ke_fault K (IoCreate path) of
          Some e \<Rightarrow> (Err (CeIo e), fs)
        | None \<Rightarrow> (case ke_ipc_write K bs of (data, err) \<Rightarrow>
            (case err of None \<Rightarrow> Ok () | Some e \<Rightarrow> Err (CeArrow e), fs\<lparr>cf_files := (cf_files fs)(path \<mapsto> data)\<rparr>))))"

definition read_ipc :: "'c cache_env \<Rightarrow> cache_path \<Rightarrow> string \<Rightarrow> cache_error + 'c batch list" where
  "read_ipc K path data = (case ke_fault K (IoStat path) of
      Some e \<Rightarrow> Err (CeIo e)
    | None \<Rightarrow>
        if data = [] then Ok []
        else (case ke_fault K (IoRead path) of
            Some e \<Rightarrow> Err (CeIo e)
          | None \<Rightarrow> (case ke_ipc_read K data of Inl e \<Rightarrow> Err (CeArrow e) | Inr bs \<Rightarrow> Ok bs)))"

definition batch_slice :: "(nat \<Rightarrow> nat \<Rightarrow> 'c \<Rightarrow> 'c) \<Rightarrow> nat \<Rightarrow> nat \<Rightarrow> 'c batch \<Rightarrow> 'c batch" where
  "batch_slice sl off n b = \<lparr>rb_columns = map (apsnd (sl off n)) (rb_columns b), rb_num_rows = n\<rparr>"

fun cap_loop :: "(nat \<Rightarrow> nat \<Rightarrow> 'c \<Rightarrow> 'c) \<Rightarrow> nat \<Rightarrow> 'c batch list \<Rightarrow> 'c batch list" where
  "cap_loop sl remaining [] = []"
| "cap_loop sl remaining (b # bs) =
     (if remaining = 0 then []
      else if rb_num_rows b \<le> remaining then b # cap_loop sl (remaining - rb_num_rows b) bs
      else batch_slice sl 0 remaining b # cap_loop sl 0 bs)"

definition cap_batches :: "(nat \<Rightarrow> nat \<Rightarrow> 'c \<Rightarrow> 'c) \<Rightarrow> 'c batch list \<Rightarrow> nat \<Rightarrow> 'c batch list" where
  "cap_batches sl bs limit = cap_loop sl limit bs"

section \<open>Fingerprints\<close>

fun transform_mode_debug :: "transform_mode \<Rightarrow> string" where
  "transform_mode_debug Sql = ''Sql''" | "transform_mode_debug Python = ''Python''"

text \<open>\<open>None\<close> is the panic on a snippet.\<close>

definition hash_kind :: "'c cache_env \<Rightarrow> pipeline \<Rightarrow> node_kind \<Rightarrow> hash_item list option" where
  "hash_kind K p k = (case k of
      Source cfg \<Rightarrow> Some [HStr ''source'', HStr (src_connector cfg), HStr (h_print (ke_host K) (src_config cfg))]
    | Transform cfg \<Rightarrow> Some [HStr ''transform'', HStr (transform_mode_debug (xf_mode cfg)),
        HStr (case resolve_code (ke_host K) p cfg of Some code \<Rightarrow> code | None \<Rightarrow> xf_code cfg)]
    | Sink cfg \<Rightarrow> Some [HStr ''sink'', HStr (snk_connector cfg), HStr (h_print (ke_host K) (snk_config cfg))]
    | Test cfg \<Rightarrow> Some [HStr ''test'', HStr (case ke_test_json K cfg of None \<Rightarrow> [] | Some s \<Rightarrow> s)]
    | Snippet _ \<Rightarrow> None)"

definition hash_node :: "'c cache_env \<Rightarrow> pipeline \<Rightarrow> node \<Rightarrow> hash_item list option" where
  "hash_node K p n = map_option (\<lambda>items. items @ [HVec (sort (upstream_of p (n_id n)))]) (hash_kind K p (n_kind n))"

definition compute_node_fingerprint :: "'c cache_env \<Rightarrow> pipeline \<Rightarrow> node \<Rightarrow> string option" where
  "compute_node_fingerprint K p n = map_option (\<lambda>items. hex16 (ke_hash K items)) (hash_node K p n)"

section \<open>Writing\<close>

definition write_node ::
  "'c cache_env \<Rightarrow> string \<Rightarrow> node_id \<Rightarrow> 'c batch list \<Rightarrow> nat \<Rightarrow> cache_fs \<Rightarrow> (cache_error + cache_node_entry) \<times> cache_fs" where
  "write_node K name i bs limit fs = (case create_dir_all K (pipeline_dir name) fs of
      (Inl e, fs1) \<Rightarrow> (Err e, fs1)
    | (Inr _, fs1) \<Rightarrow>
        let capped = cap_batches (ke_slice K) bs limit; path = node_path name i
        in case write_ipc K path capped fs1 of
             (Inl e, fs2) \<Rightarrow> (Err e, fs2)
           | (Inr _, fs2) \<Rightarrow> (Ok \<lparr>cne_fingerprint = [], cne_cached_at = ke_now K, cne_rows = total_rows capped,
               cne_size_bytes = (case (ke_fault K (IoStat path), cf_files fs2 path) of (None, Some data) \<Rightarrow> of_nat (length data) | _ \<Rightarrow> 0)\<rparr>, fs2))"

definition read_manifest :: "'c cache_env \<Rightarrow> string \<Rightarrow> cache_fs \<Rightarrow> cache_manifest option" where
  "read_manifest K name fs = (case cf_files fs (manifest_path name) of
      None \<Rightarrow> None
    | Some data \<Rightarrow> (case ke_fault K (IoRead (manifest_path name)) of Some _ \<Rightarrow> None | None \<Rightarrow> ke_manifest_parse K data))"

definition write_manifest :: "'c cache_env \<Rightarrow> string \<Rightarrow> cache_manifest \<Rightarrow> cache_fs \<Rightarrow> (cache_error + unit) \<times> cache_fs" where
  "write_manifest K name m fs = (case create_dir_all K (pipeline_dir name) fs of
      (Inl e, fs1) \<Rightarrow> (Err e, fs1)
    | (Inr _, fs1) \<Rightarrow> write_file K (manifest_path name) (ke_manifest_text K m) fs1)"

text \<open>The loop over the outputs of a run, in the order of their hash map.\<close>

fun cache_loop ::
  "'c cache_env \<Rightarrow> pipeline \<Rightarrow> (node_id \<times> 'c batch list) list \<Rightarrow> cache_manifest \<Rightarrow> nat \<Rightarrow> cache_fs \<Rightarrow>
   ((cache_error + cache_manifest \<times> nat) \<times> cache_fs) option" where
  "cache_loop K p [] m cnt fs = Some (Ok (m, cnt), fs)"
| "cache_loop K p ((i, bs) # rest) m cnt fs = (case node_of p i of
      None \<Rightarrow> cache_loop K p rest m cnt fs
    | Some n \<Rightarrow>
        if is_sink (n_kind n) then cache_loop K p rest m cnt fs
        else (case write_node K (p_name p) i bs (effective_cache_row_limit p n) fs of
            (Inl e, fs1) \<Rightarrow> Some (Err e, fs1)
          | (Inr entry, fs1) \<Rightarrow> (case compute_node_fingerprint K p n of
              None \<Rightarrow> None
            | Some fp \<Rightarrow> cache_loop K p rest (AList.update i (entry\<lparr>cne_fingerprint := fp\<rparr>) m) (Suc cnt) fs1)))"

definition cache_pipeline_outputs ::
  "'c cache_env \<Rightarrow> pipeline \<Rightarrow> (node_id \<times> 'c batch list) list \<Rightarrow> cache_fs \<Rightarrow> ((cache_error + nat) \<times> cache_fs) option" where
  "cache_pipeline_outputs K p outs fs =
     (case cache_loop K p outs (case read_manifest K (p_name p) fs of None \<Rightarrow> [] | Some m \<Rightarrow> m) 0 fs of
        None \<Rightarrow> None
      | Some (Inl e, fs1) \<Rightarrow> Some (Err e, fs1)
      | Some (Inr (m, cnt), fs1) \<Rightarrow> (case write_manifest K (p_name p) m fs1 of
          (Inl e, fs2) \<Rightarrow> Some (Err e, fs2)
        | (Inr _, fs2) \<Rightarrow> Some (Ok cnt, fs2)))"

section \<open>Reading\<close>

definition read_node :: "'c cache_env \<Rightarrow> string \<Rightarrow> node_id \<Rightarrow> cache_fs \<Rightarrow> cache_error + 'c batch list option" where
  "read_node K name i fs = (case cf_files fs (node_path name i) of
      None \<Rightarrow> Ok None
    | Some data \<Rightarrow> (case read_ipc K (node_path name i) data of Inl e \<Rightarrow> Err e | Inr bs \<Rightarrow> Ok (Some bs)))"

definition node_exists :: "string \<Rightarrow> node_id \<Rightarrow> cache_fs \<Rightarrow> bool" where
  "node_exists name i fs \<longleftrightarrow> cf_files fs (node_path name i) \<noteq> None"

section \<open>Invalidation\<close>

fun changed_nodes :: "'c cache_env \<Rightarrow> pipeline \<Rightarrow> cache_manifest \<Rightarrow> node list \<Rightarrow> node_id list option" where
  "changed_nodes K p m [] = Some []"
| "changed_nodes K p m (n # ns) = (case compute_node_fingerprint K p n of
      None \<Rightarrow> None
    | Some fp \<Rightarrow> map_option (\<lambda>rest. if map_option cne_fingerprint (map_of m (n_id n)) \<noteq> Some fp then n_id n # rest else rest)
        (changed_nodes K p m ns))"

definition to_invalidate :: "'c cache_env \<Rightarrow> pipeline \<Rightarrow> cache_manifest \<Rightarrow> node_id list \<Rightarrow> node_id list" where
  "to_invalidate K p m changed = h_order (ke_host K) (remdups
     (concat (map (\<lambda>i. i # all_downstream_of (h_order (ke_host K)) p i) changed) @
      filter (\<lambda>k. k \<notin> set (node_ids p)) (map fst m)))"

text \<open>A file that cannot be removed is logged and stays.\<close>

definition remove_output :: "'c cache_env \<Rightarrow> string \<Rightarrow> node_id \<Rightarrow> cache_fs \<Rightarrow> cache_fs" where
  "remove_output K name i fs =
     (if cf_files fs (node_path name i) \<noteq> None \<and> ke_fault K (IoRemove (node_path name i)) = None
      then fs\<lparr>cf_files := (cf_files fs)(node_path name i := None)\<rparr> else fs)"

definition invalidate_changed :: "'c cache_env \<Rightarrow> pipeline \<Rightarrow> cache_fs \<Rightarrow> ((cache_error + node_id list) \<times> cache_fs) option" where
  "invalidate_changed K p fs = (case read_manifest K (p_name p) fs of
      None \<Rightarrow> Some (Ok [], fs)
    | Some m \<Rightarrow> (case changed_nodes K p m (p_nodes p) of
        None \<Rightarrow> None
      | Some changed \<Rightarrow>
          let inv = to_invalidate K p m changed; fs1 = fold (remove_output K (p_name p)) inv fs
          in case write_manifest K (p_name p) (fold AList.delete inv m) fs1 of
               (Inl e, fs2) \<Rightarrow> Some (Err e, fs2)
             | (Inr _, fs2) \<Rightarrow> Some (Ok inv, fs2)))"

definition delete_node :: "'c cache_env \<Rightarrow> string \<Rightarrow> node_id \<Rightarrow> cache_fs \<Rightarrow> (cache_error + unit) \<times> cache_fs" where
  "delete_node K name i fs =
     (case (if cf_files fs (node_path name i) = None then None else ke_fault K (IoRemove (node_path name i))) of
        Some e \<Rightarrow> (Err (CeIo e), fs)
      | None \<Rightarrow>
          let fs1 = fs\<lparr>cf_files := (cf_files fs)(node_path name i := None)\<rparr>
          in case read_manifest K name fs1 of
               None \<Rightarrow> (Ok (), fs1)
             | Some m \<Rightarrow> write_manifest K name (AList.delete i m) fs1)"

definition delete_pipeline :: "'c cache_env \<Rightarrow> string \<Rightarrow> cache_fs \<Rightarrow> (cache_error + unit) \<times> cache_fs" where
  "delete_pipeline K name fs =
     (if pipeline_dir name \<notin> set (cf_dirs fs) then (Ok (), fs)
      else (case ke_fault K (IoRemoveDir (pipeline_dir name)) of
          Some e \<Rightarrow> (Err (CeIo e), fs)
        | None \<Rightarrow> (Ok (), \<lparr>cf_dirs = filter (\<lambda>d. d \<noteq> pipeline_dir name) (cf_dirs fs),
            cf_files = (\<lambda>path. if fst path = pipeline_dir name then None else cf_files fs path)\<rparr>)))"

section \<open>Lemmas\<close>

text \<open>
  A file system that does not fail, JSON that reads back what it wrote, and batches that Arrow writes
  and reads back.
\<close>

definition cache_env_ok :: "'c cache_env \<Rightarrow> bool" where
  "cache_env_ok K \<longleftrightarrow> (\<forall>c. ke_fault K c = None) \<and> (\<forall>m. ke_manifest_parse K (ke_manifest_text K m) = Some m) \<and>
     hash_order (h_order (ke_host K))"

definition ipc_ok :: "'c cache_env \<Rightarrow> 'c batch list \<Rightarrow> bool" where
  "ipc_ok K bs \<longleftrightarrow> bs = [] \<or> (\<exists>data. data \<noteq> [] \<and> ke_ipc_write K bs = (data, None) \<and> ke_ipc_read K data = Ok bs)"

lemma cache_env_okD:
  assumes "cache_env_ok K"
  shows "ke_fault K c = None" "ke_manifest_parse K (ke_manifest_text K m) = Some m" "hash_order (h_order (ke_host K))"
  using assms by (simp_all add: cache_env_ok_def)

lemma node_path_manifest [simp]: "node_path name i \<noteq> manifest_path name" "manifest_path name \<noteq> node_path name i"
proof -
  have "hd (rev (sanitize_name i @ ''.arrow'')) \<noteq> hd (rev ''manifest.json'')" by simp
  then have "sanitize_name i @ ''.arrow'' \<noteq> ''manifest.json''" by (rule contrapos_nn) (rule arg_cong)
  then show "node_path name i \<noteq> manifest_path name" "manifest_path name \<noteq> node_path name i"
    unfolding node_path_def manifest_path_def prod.inject by (metis (no_types))+
qed

lemma node_path_eq: "node_path name i = node_path name j \<longleftrightarrow> sanitize_name i = sanitize_name j"
  by (simp add: node_path_def)

lemma write_file_ok:
  "cache_env_ok K \<Longrightarrow> write_file K path data fs = (Ok (), fs\<lparr>cf_files := (cf_files fs)(path \<mapsto> data)\<rparr>)"
  by (simp add: write_file_def cache_env_okD)

lemma write_manifest_ok:
  assumes "cache_env_ok K"
  shows "\<exists>fs'. write_manifest K name m fs = (Ok (), fs') \<and> read_manifest K name fs' = Some m \<and>
    (\<forall>i. cf_files fs' (node_path name i) = cf_files fs (node_path name i))"
  using assms by (simp add: write_manifest_def create_dir_all_def read_manifest_def write_file_ok cache_env_okD)

lemma write_ipc_ok:
  assumes "cache_env_ok K" "ipc_ok K bs"
  shows "\<exists>data. write_ipc K path bs fs = (Ok (), fs\<lparr>cf_files := (cf_files fs)(path \<mapsto> data)\<rparr>) \<and> read_ipc K path data = Ok bs"
proof (cases "bs = []")
  case True
  then show ?thesis using assms(1) by (intro exI [of _ "[]"]) (simp add: write_ipc_def read_ipc_def write_file_ok cache_env_okD)
next
  case False
  then obtain data where "data \<noteq> []" "ke_ipc_write K bs = (data, None)" "ke_ipc_read K data = Ok bs"
    using assms(2) by (auto simp: ipc_ok_def)
  then show ?thesis using assms(1) False by (intro exI [of _ data]) (simp add: write_ipc_def read_ipc_def cache_env_okD)
qed

lemma write_node_ok:
  assumes "cache_env_ok K" "ipc_ok K (cap_batches (ke_slice K) bs limit)"
  shows "\<exists>data entry fs'. write_node K name i bs limit fs = (Ok entry, fs') \<and> cf_files fs' = (cf_files fs)(node_path name i \<mapsto> data) \<and>
    read_ipc K (node_path name i) data = Ok (cap_batches (ke_slice K) bs limit)"
proof -
  let ?fs = "fs\<lparr>cf_dirs := List.insert (pipeline_dir name) (cf_dirs fs)\<rparr>"
  obtain data where "write_ipc K (node_path name i) (cap_batches (ke_slice K) bs limit) ?fs =
      (Ok (), ?fs\<lparr>cf_files := (cf_files ?fs)(node_path name i \<mapsto> data)\<rparr>)"
    "read_ipc K (node_path name i) data = Ok (cap_batches (ke_slice K) bs limit)"
    using write_ipc_ok [OF assms] by blast
  then show ?thesis using assms(1) by (intro exI [of _ data]) (simp add: write_node_def create_dir_all_def cache_env_okD)
qed

section \<open>No stale outputs\<close>

text \<open>
  \<open>Q\<close> are the versions of a pipeline that occur: they have a node for each id, file names tell their
  ids apart and no two of their nodes collide in the hash.
\<close>

definition versions_ok :: "'c cache_env \<Rightarrow> pipeline set \<Rightarrow> bool" where
  "versions_ok K Q \<longleftrightarrow>
     (\<forall>p \<in> Q. no_snippets p \<and> distinct (node_ids p) \<and> edges_known p) \<and>
     inj_on sanitize_name (\<Union>p \<in> Q. set (node_ids p)) \<and>
     (\<forall>p \<in> Q. \<forall>q \<in> Q. \<forall>n \<in> set (p_nodes p). \<forall>n' \<in> set (p_nodes q).
        compute_node_fingerprint K p n = compute_node_fingerprint K q n' \<longrightarrow> hash_node K p n = hash_node K q n')"

definition node_key :: "'c cache_env \<Rightarrow> pipeline \<Rightarrow> node_id \<Rightarrow> hash_item list option option" where
  "node_key K p i = map_option (hash_node K p) (node_of p i)"

text \<open>The node and everything above it are defined in \<open>q\<close> as they are in \<open>p\<close>.\<close>

definition same_above :: "'c cache_env \<Rightarrow> pipeline \<Rightarrow> pipeline \<Rightarrow> node_id \<Rightarrow> bool" where
  "same_above K q p i \<longleftrightarrow> (\<forall>j. (j, i) \<in> (edge_rel p)\<^sup>* \<longrightarrow> node_key K q j = node_key K p j)"

definition cached_from :: "'c cache_env \<Rightarrow> pipeline \<Rightarrow> (node_id \<times> 'c batch list) list \<Rightarrow> node_id \<Rightarrow> 'c batch list \<Rightarrow> bool" where
  "cached_from K q outs i bs \<longleftrightarrow>
     (\<exists>n out. node_of q i = Some n \<and> (i, out) \<in> set outs \<and> bs = cap_batches (ke_slice K) out (effective_cache_row_limit q n))"

text \<open>
  The outputs cached so far, with the versions that gave them; the versions loaded by the runs in
  progress; the version the store holds; the files.
\<close>

type_synonym 'c cache_state = "(pipeline \<times> (node_id \<times> 'c batch list) list) list \<times> pipeline list \<times> pipeline \<times> cache_fs"

text \<open>
  A run loads the pipeline, and caches its outputs when it has succeeded, under the version it loaded,
  whatever was saved since.  A save over the API invalidates; an import that overwrites and the restoring of a version (\<open>imported\<close>) do not.
  Outputs are deleted, one by one or all.  The flag tells the steps that keep the cache current.
\<close>

inductive cache_step :: "'c cache_env \<Rightarrow> pipeline set \<Rightarrow> bool \<Rightarrow> 'c cache_state \<Rightarrow> 'c cache_state \<Rightarrow> bool" for K Q where
  loaded: "cache_step K Q True (h, L, p, fs) (h, L @ [p], p, fs)"
| ran: "L = us @ q # vs \<Longrightarrow> \<forall>(i, bs) \<in> set outs. \<forall>n. ipc_ok K (cap_batches (ke_slice K) bs n) \<Longrightarrow>
    cache_pipeline_outputs K q outs fs = Some (r, fs') \<Longrightarrow>
    cache_step K Q (q = p) (h, L, p, fs) (h @ [(q, outs)], us @ vs, p, fs')"
| run_failed: "L = us @ q # vs \<Longrightarrow> cache_step K Q True (h, L, p, fs) (h, us @ vs, p, fs)"
| saved: "p' \<in> Q \<Longrightarrow> p_name p' = p_name p \<Longrightarrow> invalidate_changed K p' fs = Some (r, fs') \<Longrightarrow>
    cache_step K Q True (h, L, p, fs) (h, L, p', fs')"
| imported: "p' \<in> Q \<Longrightarrow> p_name p' = p_name p \<Longrightarrow> cache_step K Q False (h, L, p, fs) (h, L, p', fs)"
| dropped: "delete_node K (p_name p) i fs = (r, fs') \<Longrightarrow> cache_step K Q True (h, L, p, fs) (h, L, p, fs')"
| cleared: "delete_pipeline K (p_name p) fs = (r, fs') \<Longrightarrow> cache_step K Q True (h, L, p, fs) (h, L, p, fs')"

definition no_cache :: cache_fs where
  "no_cache = \<lparr>cf_dirs = [], cf_files = Map.empty\<rparr>"

text \<open>The flag is kept when every step so far kept the cache current.\<close>

inductive cache_reachable :: "'c cache_env \<Rightarrow> pipeline set \<Rightarrow> bool \<Rightarrow> 'c cache_state \<Rightarrow> bool" for K Q where
  fresh: "p \<in> Q \<Longrightarrow> cache_reachable K Q True ([], [], p, no_cache)"
| step: "cache_reachable K Q b s \<Longrightarrow> cache_step K Q c s s' \<Longrightarrow> cache_reachable K Q (b \<and> c) s'"

definition entry_current :: "'c cache_env \<Rightarrow> pipeline \<Rightarrow> node_id \<Rightarrow> cache_node_entry \<Rightarrow> bool" where
  "entry_current K p i e \<longleftrightarrow> (\<exists>n. node_of p i = Some n \<and> compute_node_fingerprint K p n = Some (cne_fingerprint e))"

definition file_fresh ::
  "'c cache_env \<Rightarrow> (pipeline \<times> (node_id \<times> 'c batch list) list) list \<Rightarrow> pipeline \<Rightarrow> node_id \<Rightarrow> string \<Rightarrow> bool" where
  "file_fresh K h p i data \<longleftrightarrow> (\<exists>q outs bs. (q, outs) \<in> set h \<and> cached_from K q outs i bs \<and>
     read_ipc K (node_path (p_name p) i) data = Ok bs \<and> same_above K q p i)"

fun cache_inv :: "'c cache_env \<Rightarrow> pipeline set \<Rightarrow> 'c cache_state \<Rightarrow> bool" where
  "cache_inv K Q (h, L, p, fs) \<longleftrightarrow> p \<in> Q \<and>
     (case read_manifest K (p_name p) fs of
        None \<Rightarrow> \<forall>i. cf_files fs (node_path (p_name p) i) = None
      | Some m \<Rightarrow> \<forall>i e. map_of m i = Some e \<longrightarrow> entry_current K p i e) \<and>
     (\<forall>i \<in> set (node_ids p). \<forall>data. cf_files fs (node_path (p_name p) i) = Some data \<longrightarrow> file_fresh K h p i data)"

lemma node_of_Some: "node_of p i = Some n \<Longrightarrow> n \<in> set (p_nodes p) \<and> n_id n = i \<and> i \<in> set (node_ids p)"
  by (auto simp: node_of_def find_Some_iff)

lemma node_of_ids: "i \<in> set (node_ids p) \<Longrightarrow> \<exists>n. node_of p i = Some n"
  by (cases "node_of p i") (auto simp: node_of_def find_None_iff)

lemma path_inj:
  assumes "versions_ok K Q" "p \<in> Q" "q \<in> Q" "i \<in> set (node_ids p)" "j \<in> set (node_ids q)"
  shows "node_path name i = node_path name j \<longleftrightarrow> i = j"
  using assms by (auto simp: versions_ok_def node_path_eq dest!: inj_onD)

lemma same_above_refl [simp]: "same_above K p p i"
  by (simp add: same_above_def)

lemma cache_loop_inv:
  assumes "cache_env_ok K" "versions_ok K Q" "p \<in> Q"
    "\<forall>(i, bs) \<in> set outs. \<forall>n. ipc_ok K (cap_batches (ke_slice K) bs n)" "set rest \<subseteq> set outs"
    "cache_loop K p rest m cnt fs = Some (r, fs')"
    "\<forall>i e. map_of m i = Some e \<longrightarrow> entry_current K p i e"
    "\<forall>i \<in> set (node_ids p). \<forall>data. cf_files fs (node_path (p_name p) i) = Some data \<longrightarrow> file_fresh K (h @ [(p, outs)]) p i data"
  shows "\<exists>m' cnt'. r = Ok (m', cnt') \<and> (\<forall>i e. map_of m' i = Some e \<longrightarrow> entry_current K p i e) \<and>
    (\<forall>i \<in> set (node_ids p). \<forall>data. cf_files fs' (node_path (p_name p) i) = Some data \<longrightarrow> file_fresh K (h @ [(p, outs)]) p i data)"
  using assms(5-)
proof (induction rest arbitrary: m cnt fs)
  case Nil
  then show ?case by auto
next
  case (Cons x rest)
  obtain i bs where x: "x = (i, bs)" by (cases x)
  show ?case
  proof (cases "\<exists>n. node_of p i = Some n \<and> \<not> is_sink (n_kind n)")
    case False
    then have "cache_loop K p rest m cnt fs = Some (r, fs')" using Cons.prems(2) x by (auto split: option.splits if_splits)
    then show ?thesis using Cons.IH [of m cnt fs] Cons.prems x by auto
  next
    case True
    then obtain n where n: "node_of p i = Some n" "\<not> is_sink (n_kind n)" by blast
    let ?path = "node_path (p_name p) i" and ?bs = "cap_batches (ke_slice K) bs (effective_cache_row_limit p n)"
    have inp: "(i, bs) \<in> set outs" using Cons.prems(1) x by auto
    then have "ipc_ok K ?bs" using assms(4) by auto
    then obtain data entry fs1 where w: "write_node K (p_name p) i bs (effective_cache_row_limit p n) fs = (Ok entry, fs1)"
      "cf_files fs1 = (cf_files fs)(?path \<mapsto> data)" "read_ipc K ?path data = Ok ?bs"
      using write_node_ok [OF assms(1)] by blast
    obtain fp where fp: "compute_node_fingerprint K p n = Some fp"
      using Cons.prems(2) n w(1) x by (auto split: option.splits)
    have run: "cache_loop K p rest (AList.update i (entry\<lparr>cne_fingerprint := fp\<rparr>) m) (Suc cnt) fs1 = Some (r, fs')"
      using Cons.prems(2) n w(1) fp x by simp
    have m: "\<forall>j e. map_of (AList.update i (entry\<lparr>cne_fingerprint := fp\<rparr>) m) j = Some e \<longrightarrow> entry_current K p j e"
      using Cons.prems(3) n(1) fp by (auto simp: update_conv' entry_current_def)
    have "file_fresh K (h @ [(p, outs)]) p i data"
      using w(3) n(1) inp by (auto simp: file_fresh_def cached_from_def intro!: exI [of _ p] exI [of _ outs])
    then have f: "\<forall>j \<in> set (node_ids p). \<forall>d. cf_files fs1 (node_path (p_name p) j) = Some d \<longrightarrow> file_fresh K (h @ [(p, outs)]) p j d"
      using Cons.prems(4) w(2) path_inj [OF assms(2,3,3)] node_of_Some [OF n(1)] by (metis fun_upd_apply option.inject)
    show ?thesis by (rule Cons.IH [OF _ run m f]) (use Cons.prems(1) in auto)
  qed
qed

lemma file_fresh_more: "file_fresh K h p i data \<Longrightarrow> file_fresh K (h @ h') p i data"
  by (auto simp: file_fresh_def)

lemma inv_ran:
  assumes "cache_env_ok K" "versions_ok K Q" "cache_inv K Q (h, L, p, fs)"
    "\<forall>(i, bs) \<in> set outs. \<forall>n. ipc_ok K (cap_batches (ke_slice K) bs n)"
    "cache_pipeline_outputs K p outs fs = Some (r, fs')"
  shows "cache_inv K Q (h @ [(p, outs)], L', p, fs')"
proof -
  let ?m = "case read_manifest K (p_name p) fs of None \<Rightarrow> [] | Some m \<Rightarrow> m"
  have p: "p \<in> Q" using assms(3) by simp
  obtain r1 fs1 where l: "cache_loop K p outs ?m 0 fs = Some (r1, fs1)"
    using assms(5) by (auto simp: cache_pipeline_outputs_def split: option.splits)
  have m: "\<forall>i e. map_of ?m i = Some e \<longrightarrow> entry_current K p i e" using assms(3) by (auto split: option.splits)
  have f: "\<forall>i \<in> set (node_ids p). \<forall>data. cf_files fs (node_path (p_name p) i) = Some data \<longrightarrow> file_fresh K (h @ [(p, outs)]) p i data"
    using assms(3) file_fresh_more by fastforce
  obtain m' c where r1: "r1 = Ok (m', c)" "\<forall>i e. map_of m' i = Some e \<longrightarrow> entry_current K p i e"
    "\<forall>i \<in> set (node_ids p). \<forall>data. cf_files fs1 (node_path (p_name p) i) = Some data \<longrightarrow> file_fresh K (h @ [(p, outs)]) p i data"
    using cache_loop_inv [OF assms(1,2) p assms(4) subset_refl l m f] by blast
  obtain fs2 where "write_manifest K (p_name p) m' fs1 = (Ok (), fs2)" "read_manifest K (p_name p) fs2 = Some m'"
    "\<forall>i. cf_files fs2 (node_path (p_name p) i) = cf_files fs1 (node_path (p_name p) i)"
    using write_manifest_ok [OF assms(1)] by blast
  then show ?thesis using assms(5) l r1 p by (auto simp: cache_pipeline_outputs_def)
qed

definition node_changed :: "'c cache_env \<Rightarrow> pipeline \<Rightarrow> cache_manifest \<Rightarrow> node \<Rightarrow> bool" where
  "node_changed K p m n \<longleftrightarrow> map_option cne_fingerprint (map_of m (n_id n)) \<noteq> compute_node_fingerprint K p n"

lemma set_changed_nodes: "changed_nodes K p m ns = Some ch \<Longrightarrow> set ch = n_id ` {n \<in> set ns. node_changed K p m n}"
proof (induction ns arbitrary: ch)
  case (Cons n ns)
  obtain fp rest where n: "compute_node_fingerprint K p n = Some fp" "changed_nodes K p m ns = Some rest"
    and ch: "ch = (if map_option cne_fingerprint (map_of m (n_id n)) \<noteq> Some fp then n_id n # rest else rest)"
    using Cons.prems by (auto split: option.splits)
  have "ch = (if node_changed K p m n then n_id n # rest else rest)" using n(1) ch by (simp add: node_changed_def)
  moreover have "{n' \<in> set (n # ns). node_changed K p m n'} =
      (if node_changed K p m n then insert n {n' \<in> set ns. node_changed K p m n'} else {n' \<in> set ns. node_changed K p m n'})"
    by auto
  ultimately show ?case using Cons.IH [OF n(2)] by simp
qed simp

lemma set_to_invalidate:
  assumes "cache_env_ok K"
  shows "set (to_invalidate K p m ch) = {j. \<exists>i \<in> set ch. (i, j) \<in> (edge_rel p)\<^sup>*} \<union> (fst ` set m - set (node_ids p))"
proof -
  have "set (all_downstream_of (h_order (ke_host K)) p i) = {k. (i, k) \<in> (edge_rel p)\<^sup>+}" for i
    using all_downstream_of_correct [OF cache_env_okD(3) [OF assms]] by blast
  then show ?thesis using hash_orderD(2) [OF cache_env_okD(3) [OF assms]]
    by (auto simp: to_invalidate_def rtrancl_eq_or_trancl)
qed

lemma files_fold_remove:
  "cache_env_ok K \<Longrightarrow> cf_files (fold (remove_output K name) ks fs) path =
     (if path \<in> node_path name ` set ks then None else cf_files fs path)"
  by (induction ks arbitrary: fs) (auto simp: remove_output_def cache_env_okD)

lemma map_of_fold_delete: "map_of (fold AList.delete ks m) i = (if i \<in> set ks then None else map_of m i)"
  by (induction ks arbitrary: m) (auto simp: delete_conv')

text \<open>Equal keys have equal inputs, so equal keys all the way up mean the same nodes above.\<close>

lemma upstream_mem: "j \<in> set (upstream_of p i) \<longleftrightarrow> (j, i) \<in> edge_rel p"
  by (auto simp: upstream_of_def edge_rel_def)

lemma node_key_upstream:
  assumes "node_key K p i = node_key K q i" "no_snippets p" "i \<in> set (node_ids p)"
  shows "(j, i) \<in> edge_rel p \<longleftrightarrow> (j, i) \<in> edge_rel q"
proof -
  obtain n where n: "node_of p i = Some n" using node_of_ids [OF assms(3)] by blast
  then obtain n' where n': "node_of q i = Some n'" and h: "hash_node K p n = hash_node K q n'"
    using assms(1) by (cases "node_of q i") (simp_all add: node_key_def)
  have "hash_kind K p (n_kind n) \<noteq> None"
    using assms(2) node_of_Some [OF n] by (auto simp: hash_kind_def no_snippets_def split: node_kind.split)
  with h have "sort (upstream_of p (n_id n)) = sort (upstream_of q (n_id n'))"
    by (cases "hash_kind K q (n_kind n')") (auto simp: hash_node_def)
  then have "set (upstream_of p i) = set (upstream_of q i)"
    using node_of_Some [OF n] node_of_Some [OF n'] by (metis set_sort)
  then show ?thesis by (simp flip: upstream_mem)
qed

lemma same_above_trans:
  assumes "same_above K q p i" "no_snippets p'" "edges_known p'" "i \<in> set (node_ids p')"
    "\<And>j. (j, i) \<in> (edge_rel p')\<^sup>* \<Longrightarrow> node_key K p' j = node_key K p j"
  shows "same_above K q p' i"
proof -
  have "(j, i) \<in> (edge_rel p)\<^sup>* \<and> j \<in> set (node_ids p')" if "(j, i) \<in> (edge_rel p')\<^sup>*" for j
    using that
  proof (induction rule: converse_rtrancl_induct)
    case base
    then show ?case using assms(4) by simp
  next
    case (step j k)
    have "(j, k) \<in> edge_rel p" using node_key_upstream [OF assms(5)] step assms(2) by blast
    moreover have "j \<in> set (node_ids p')" using step(1) assms(3) by (auto simp: edge_rel_def edges_known_def)
    ultimately show ?case using step(3) by (meson converse_rtrancl_into_rtrancl)
  qed
  then show ?thesis using assms(1,5) by (simp add: same_above_def)
qed

lemma above_known: "edges_known p \<Longrightarrow> (j, i) \<in> (edge_rel p)\<^sup>* \<Longrightarrow> i \<in> set (node_ids p) \<Longrightarrow> j \<in> set (node_ids p)"
  by (erule converse_rtranclE) (auto simp: edge_rel_def edges_known_def)

lemma unchanged_current:
  assumes "versions_ok K Q" "p \<in> Q" "p' \<in> Q" "changed_nodes K p' m (p_nodes p') = Some ch" "j \<notin> set ch" "j \<in> set (node_ids p')"
    "\<And>i e. map_of m i = Some e \<Longrightarrow> entry_current K p i e"
  shows "node_key K p' j = node_key K p j \<and> (\<exists>e. map_of m j = Some e \<and> entry_current K p' j e) \<and> j \<in> set (node_ids p)"
proof -
  obtain n where n: "node_of p' j = Some n" using node_of_ids [OF assms(6)] by blast
  have "\<not> node_changed K p' m n" using set_changed_nodes [OF assms(4)] node_of_Some [OF n] assms(5) by auto
  then have eq: "map_option cne_fingerprint (map_of m j) = compute_node_fingerprint K p' n"
    using node_of_Some [OF n] by (simp add: node_changed_def)
  have "\<not> is_snippet (n_kind n)" using assms(1,3) node_of_Some [OF n] by (simp add: versions_ok_def no_snippets_def)
  then obtain fp where fp: "compute_node_fingerprint K p' n = Some fp"
    by (cases "n_kind n") (simp_all add: compute_node_fingerprint_def hash_node_def hash_kind_def)
  with eq obtain e where e: "map_of m j = Some e" "cne_fingerprint e = fp" by auto
  obtain n' where n': "node_of p j = Some n'" "compute_node_fingerprint K p n' = Some fp"
    using assms(7) [OF e(1)] e(2) by (auto simp: entry_current_def)
  have "hash_node K p n' = hash_node K p' n"
    using assms(1-3) node_of_Some [OF n] node_of_Some [OF n'(1)] fp n'(2) by (simp add: versions_ok_def)
  then show ?thesis using n n'(1) e fp node_of_Some [OF n'(1)] by (simp add: node_key_def entry_current_def)
qed

lemma inv_saved:
  assumes "cache_env_ok K" "versions_ok K Q" "cache_inv K Q (h, L, p, fs)" "p' \<in> Q" "p_name p' = p_name p"
    "invalidate_changed K p' fs = Some (r, fs')"
  shows "cache_inv K Q (h, L, p', fs')"
proof (cases "read_manifest K (p_name p) fs")
  case None
  then show ?thesis using assms(3-) by (simp add: invalidate_changed_def)
next
  case (Some m)
  let ?name = "p_name p"
  obtain ch where ch: "changed_nodes K p' m (p_nodes p') = Some ch"
    using assms(5,6) Some by (auto simp: invalidate_changed_def split: option.splits)
  define gone where "gone = to_invalidate K p' m ch"
  let ?fs = "fold (remove_output K ?name) gone fs" and ?m = "fold AList.delete gone m"
  obtain fs2 where w: "write_manifest K ?name ?m ?fs = (Ok (), fs2)" "read_manifest K ?name fs2 = Some ?m"
    "\<forall>i. cf_files fs2 (node_path ?name i) = cf_files ?fs (node_path ?name i)"
    using write_manifest_ok [OF assms(1)] by blast
  then have fs': "fs' = fs2" using assms(5,6) Some ch by (simp add: invalidate_changed_def gone_def Let_def)
  have p: "p \<in> Q" and current: "\<And>i e. map_of m i = Some e \<Longrightarrow> entry_current K p i e" and
    fresh: "\<And>i d. i \<in> set (node_ids p) \<Longrightarrow> cf_files fs (node_path ?name i) = Some d \<Longrightarrow> file_fresh K h p i d"
    using assms(3) Some by auto
  have kept: "node_key K p' j = node_key K p j \<and> (\<exists>e. map_of m j = Some e \<and> entry_current K p' j e) \<and> j \<in> set (node_ids p)"
    if "j \<notin> set gone" "j \<in> set (node_ids p')" for j
    using unchanged_current [OF assms(2) p assms(4) ch _ that(2) current] that(1) set_to_invalidate [OF assms(1)]
    by (auto simp: gone_def)
  have entries: "entry_current K p' i e" if "map_of ?m i = Some e" for i e
  proof -
    have i: "i \<notin> set gone" "map_of m i = Some e" using that by (auto simp: map_of_fold_delete split: if_splits)
    then have "i \<in> fst ` set m" by (metis domI dom_map_of_conv_image_fst)
    then have "i \<in> set (node_ids p')" using i(1) set_to_invalidate [OF assms(1), of p' m ch] by (auto simp: gone_def)
    from kept [OF i(1) this] i(2) show ?thesis by auto
  qed
  have known: "edges_known p'" "no_snippets p'" using assms(2,4) by (simp_all add: versions_ok_def)
  have files: "file_fresh K h p' i d" if i: "i \<in> set (node_ids p')" and d: "cf_files fs2 (node_path ?name i) = Some d" for i d
  proof -
    have d': "cf_files fs (node_path ?name i) = Some d" and ng: "i \<notin> set gone"
      using d w(3) files_fold_remove [OF assms(1), of ?name gone fs "node_path ?name i"] by (auto split: if_splits)
    have above: "j \<notin> set gone \<and> j \<in> set (node_ids p')" if r: "(j, i) \<in> (edge_rel p')\<^sup>*" for j
    proof -
      have ids: "j \<in> set (node_ids p')" by (rule above_known [OF known(1) r i])
      moreover have "j \<notin> set gone"
        using ng r ids set_to_invalidate [OF assms(1), of p' m ch] unfolding gone_def by (auto intro: rtrancl_trans)
      ultimately show ?thesis by simp
    qed
    obtain q outs bs where q: "(q, outs) \<in> set h" "cached_from K q outs i bs" "read_ipc K (node_path ?name i) d = Ok bs" "same_above K q p i"
      using fresh [OF conjunct2 [OF conjunct2 [OF kept [OF ng i]]] d'] unfolding file_fresh_def by blast
    have "same_above K q p' i"
    proof (rule same_above_trans [OF q(4) _ _ i])
      show "node_key K p' j = node_key K p j" if r: "(j, i) \<in> (edge_rel p')\<^sup>*" for j using above [OF r] kept by blast
    qed (use known in simp_all)
    then show ?thesis using q assms(5) by (auto simp: file_fresh_def)
  qed
  show ?thesis using assms(4,5) fs' w(2) entries files by simp
qed

lemma inv_dropped:
  assumes "cache_env_ok K" "cache_inv K Q (h, L, p, fs)" "delete_node K (p_name p) i fs = (r, fs')"
  shows "cache_inv K Q (h, L, p, fs')"
proof -
  let ?name = "p_name p"
  let ?fs = "fs\<lparr>cf_files := (cf_files fs)(node_path ?name i := None)\<rparr>"
  have m: "read_manifest K ?name ?fs = read_manifest K ?name fs" by (simp add: read_manifest_def)
  have r: "(r, fs') = (case read_manifest K ?name fs of None \<Rightarrow> (Ok (), ?fs)
      | Some m \<Rightarrow> write_manifest K ?name (AList.delete i m) ?fs)"
  proof -
    have "(if cf_files fs (node_path ?name i) = None then None else ke_fault K (IoRemove (node_path ?name i))) = None"
      by (simp add: cache_env_okD [OF assms(1)])
    then show ?thesis using assms(3) m by (simp add: delete_node_def Let_def)
  qed
  show ?thesis
  proof (cases "read_manifest K ?name fs")
    case None
    then show ?thesis using r m assms(2) by auto
  next
    case (Some m)
    obtain fs2 where w: "write_manifest K ?name (AList.delete i m) ?fs = (Ok (), fs2)" "read_manifest K ?name fs2 = Some (AList.delete i m)"
      "\<forall>j. cf_files fs2 (node_path ?name j) = cf_files ?fs (node_path ?name j)"
      using write_manifest_ok [OF assms(1)] by blast
    have "map_of (AList.delete i m) j = Some e \<Longrightarrow> map_of m j = Some e" for j e by (simp add: delete_conv' split: if_splits)
    moreover have "cf_files ?fs (node_path ?name j) = Some d \<Longrightarrow> cf_files fs (node_path ?name j) = Some d" for j d
      by (simp split: if_splits)
    ultimately show ?thesis using r Some w assms(2) by auto
  qed
qed

lemma inv_cleared:
  assumes "cache_env_ok K" "cache_inv K Q (h, L, p, fs)" "delete_pipeline K (p_name p) fs = (r, fs')"
  shows "cache_inv K Q (h, L, p, fs')"
  using assms by (auto simp: delete_pipeline_def cache_env_okD read_manifest_def node_path_def manifest_path_def split: if_splits)

lemma cache_inv_running: "cache_inv K Q (h, L, p, fs) \<Longrightarrow> cache_inv K Q (h, L', p, fs)"
  by simp

lemma cache_inv_step:
  assumes "cache_env_ok K" "versions_ok K Q" "cache_step K Q True s s'" "cache_inv K Q s"
  shows "cache_inv K Q s'"
  using assms(3)
proof (cases rule: cache_step.cases)
  case (loaded h L p fs)
  then show ?thesis using assms(4) cache_inv_running by blast
next
  case (ran L us q vs outs fs r fs' p h)
  then show ?thesis using inv_ran [OF assms(1,2)] assms(4) by blast
next
  case (run_failed L us q vs h p fs)
  then show ?thesis using assms(4) cache_inv_running by blast
next
  case (saved p' p fs r fs' h L)
  then show ?thesis using inv_saved [OF assms(1,2)] assms(4) by blast
next
  case (dropped p i fs r fs' h L)
  then show ?thesis using inv_dropped [OF assms(1)] assms(4) by blast
next
  case (cleared p fs r fs' h L)
  then show ?thesis using inv_cleared [OF assms(1)] assms(4) by blast
qed simp

lemma cache_reachable_inv:
  assumes "cache_env_ok K" "versions_ok K Q" "cache_reachable K Q b s" "b"
  shows "cache_inv K Q s"
  using assms(3,4)
proof (induction rule: cache_reachable.induct)
  case (fresh p)
  then show ?case by (simp add: no_cache_def read_manifest_def)
next
  case (step b s c s')
  then have "b" "cache_step K Q True s s'" by simp_all
  then show ?case using step.IH cache_inv_step [OF assms(1,2)] by blast
qed

text \<open>
  As long as no run was overtaken by a save and no import or restored version replaced the pipeline, a cached output that is read is the output, cut to
  the row limit, of a run of a version that defines the node and everything above it as the current
  version does.
\<close>

lemma read_current:
  assumes "cache_env_ok K" "versions_ok K Q" "cache_reachable K Q True (h, L, p, fs)" "i \<in> set (node_ids p)"
    "read_node K (p_name p) i fs = Ok (Some bs)"
  shows "\<exists>q outs. (q, outs) \<in> set h \<and> cached_from K q outs i bs \<and> same_above K q p i"
proof -
  obtain d where "cf_files fs (node_path (p_name p) i) = Some d" "read_ipc K (node_path (p_name p) i) d = Ok bs"
    using assms(5) by (auto simp: read_node_def split: option.splits sum.splits)
  then show ?thesis using cache_reachable_inv [OF assms(1-3) TrueI] assms(4) by (auto simp: file_fresh_def)
qed

text \<open>Two versions of a pipeline that differ in the code of \<open>t\<close>; the batch is one row of one column.\<close>

definition w_version :: "string \<Rightarrow> pipeline" where
  "w_version code = plain_pipeline ''orders'' [source_node ''s'', transform_node ''t'' code, sink_node ''k'']
     [Edge ''s'' ''t'', Edge ''t'' ''k'']"

definition w_cached :: "unit batch" where
  "w_cached = \<lparr>rb_columns = [(\<lparr>fd_name = ''n'', fd_type = DtInt64, fd_nullable = True\<rparr>, ())], rb_num_rows = 1\<rparr>"

definition w_hash :: "hash_item list \<Rightarrow> u64" where
  "w_hash items = (case items of
      HStr kind # rest \<Rightarrow>
        if kind = ''source'' then 1
        else if kind = ''transform'' then (case rest of [_, HStr code, _] \<Rightarrow> if code = ''a'' then 2 else 3 | _ \<Rightarrow> 0)
        else 4
    | _ \<Rightarrow> 0)"

definition w_manifest_key :: "cache_manifest \<Rightarrow> (string \<times> string \<times> u64 \<times> u64 \<times> u64) list" where
  "w_manifest_key m = map (\<lambda>(i, e). (i, cne_fingerprint e, cne_cached_at e, cne_rows e, cne_size_bytes e)) m"

definition w_manifest_of :: "(string \<times> string \<times> u64 \<times> u64 \<times> u64) list \<Rightarrow> cache_manifest" where
  "w_manifest_of ks = map (\<lambda>(i, f, c, r, s). (i, \<lparr>cne_fingerprint = f, cne_cached_at = c, cne_rows = r, cne_size_bytes = s\<rparr>)) ks"

definition w_cache_env :: "(io_op \<Rightarrow> string option) \<Rightarrow> unit cache_env" where
  "w_cache_env fault = \<lparr>ke_host = sample_host (w_version []), ke_now = 7, ke_fault = fault, ke_torn = (\<lambda>_ _. []),
     ke_slice = (\<lambda>_ _. id), ke_ipc_write = (\<lambda>_. (''x'', None)), ke_ipc_read = (\<lambda>_. Ok [w_cached]),
     ke_manifest_text = (\<lambda>m. replicate (to_nat (w_manifest_key m)) CHR ''x''),
     ke_manifest_parse = (\<lambda>s. Some (w_manifest_of (from_nat (length s)))),
     ke_test_json = (\<lambda>_. None), ke_hash = w_hash\<rparr>"

lemma w_manifest: "w_manifest_of (w_manifest_key m) = m"
  unfolding w_manifest_of_def w_manifest_key_def by (induction m) auto

lemma w_cache_env_ok: "cache_env_ok (w_cache_env (\<lambda>_. None))"
  by (simp add: cache_env_ok_def w_cache_env_def sample_host_def w_manifest)

lemma wc_nodes: "p_nodes (w_version c) = [source_node ''s'', transform_node ''t'' c, sink_node ''k'']"
  "n_id (source_node i) = i" "n_id (transform_node i c) = i" "n_id (sink_node i) = i" "p_name (w_version c) = ''orders''"
  "p_cache_row_limit (w_version c) = None"
  by (simp_all add: w_version_def sample_defs)

lemma w_hash_nodes:
  "hash_node (w_cache_env fault) (w_version c) (source_node ''s'') = Some [HStr ''source'', HStr ''csv'', HStr [], HVec []]"
  "hash_node (w_cache_env fault) (w_version c) (transform_node ''t'' c) = Some [HStr ''transform'', HStr ''Sql'', HStr c, HVec [''s'']]"
  "hash_node (w_cache_env fault) (w_version c) (sink_node ''k'') = Some [HStr ''sink'', HStr ''stdout'', HStr [], HVec [''t'']]"
  by (simp_all add: w_version_def sample_defs hash_node_def hash_kind_def w_cache_env_def resolve_code_def sample_host_def upstream_of_def)

lemma w_fingerprints:
  "compute_node_fingerprint (w_cache_env fault) (w_version c) (source_node ''s'') = Some (hex16 1)"
  "compute_node_fingerprint (w_cache_env fault) (w_version c) (transform_node ''t'' c) = Some (hex16 (if c = ''a'' then 2 else 3))"
  "compute_node_fingerprint (w_cache_env fault) (w_version c) (sink_node ''k'') = Some (hex16 4)"
  unfolding compute_node_fingerprint_def w_hash_nodes by (simp_all add: w_hash_def w_cache_env_def)

lemma w_versions_ok: "versions_ok (w_cache_env fault) {w_version ''a'', w_version ''b''}"
proof (unfold versions_ok_def, intro conjI)
  let ?K = "w_cache_env fault" and ?Q = "{w_version ''a'', w_version ''b''}"
  show "inj_on sanitize_name (\<Union>p \<in> ?Q. set (node_ids p))"
    by (rule inj_onI) (auto simp: wc_nodes sanitize_name_def sanitize_char_def)
  show "\<forall>p \<in> ?Q. no_snippets p \<and> distinct (node_ids p) \<and> edges_known p"
    by (simp add: w_version_def sample_defs no_snippets_def edges_known_def)
  show "\<forall>p \<in> ?Q. \<forall>q \<in> ?Q. \<forall>n \<in> set (p_nodes p). \<forall>n' \<in> set (p_nodes q).
      compute_node_fingerprint ?K p n = compute_node_fingerprint ?K q n' \<longrightarrow> hash_node ?K p n = hash_node ?K q n'"
    by (simp add: wc_nodes w_fingerprints w_hash_nodes hex16_eq_iff)
qed

lemma w_node_of: "node_of (w_version c) ''s'' = Some (source_node ''s'')" "node_of (w_version c) ''t'' = Some (transform_node ''t'' c)"
  by (simp_all add: node_of_def wc_nodes)

lemma w_limits: "effective_cache_row_limit (w_version c) (source_node i) = 10000"
  "effective_cache_row_limit (w_version c) (transform_node i code) = 10000" "\<not> is_sink (n_kind (source_node i))"
  "\<not> is_sink (n_kind (transform_node i code))"
  by (simp_all add: effective_cache_row_limit_def w_version_def sample_defs DEFAULT_CACHE_ROW_LIMIT_def)

lemma w_capped: "cap_batches sl [w_cached] n = (if n = 0 then [] else [w_cached])"
  by (simp add: cap_batches_def w_cached_def)

text \<open>What is on disk after a run of the first version.\<close>

definition w_ran :: "unit cache_env \<Rightarrow> ((cache_error + nat) \<times> cache_fs) option" where
  "w_ran K = cache_pipeline_outputs K (w_version ''a'') [(''s'', [w_cached]), (''t'', [w_cached])] no_cache"

lemma w_dir: "pipeline_dir ''orders'' = ''orders''"
  by (simp add: pipeline_dir_def sanitize_name_def sanitize_char_def)

lemma w_write_node:
  assumes "ke_fault K (IoMakeDir ''orders'') = None" "ke_fault K (IoCreate (node_path ''orders'' i)) = None" "ke_ipc_write K = (\<lambda>_. (''x'', None))"
  shows "\<exists>entry. write_node K ''orders'' i [w_cached] 10000 fs = (Ok entry,
    fs\<lparr>cf_dirs := List.insert ''orders'' (cf_dirs fs), cf_files := (cf_files fs)(node_path ''orders'' i \<mapsto> ''x'')\<rparr>)"
  using assms by (simp add: write_node_def create_dir_all_def w_capped write_ipc_def w_dir Let_def)

lemma w_cache_loop:
  assumes "fault (IoMakeDir ''orders'') = None" "\<And>i. fault (IoCreate (node_path ''orders'' i)) = None"
  shows "\<exists>es et fs. cache_loop (w_cache_env fault) (w_version ''a'') [(''s'', [w_cached]), (''t'', [w_cached])] [] 0 no_cache =
      Some (Ok ([(''s'', es), (''t'', et)], 2), fs) \<and> cne_fingerprint es = hex16 1 \<and> cne_fingerprint et = hex16 2 \<and>
      cf_files fs = [node_path ''orders'' ''s'' \<mapsto> ''x'', node_path ''orders'' ''t'' \<mapsto> ''x''] \<and> cf_dirs fs = [''orders'']"
proof -
  let ?K = "w_cache_env fault"
  have f: "ke_fault ?K (IoMakeDir ''orders'') = None" "\<And>i. ke_fault ?K (IoCreate (node_path ''orders'' i)) = None"
    "ke_ipc_write ?K = (\<lambda>_. (''x'', None))" using assms by (simp_all add: w_cache_env_def)
  let ?f1 = "no_cache\<lparr>cf_dirs := List.insert ''orders'' (cf_dirs no_cache), cf_files := (cf_files no_cache)(node_path ''orders'' ''s'' \<mapsto> ''x'')\<rparr>"
  obtain e1 where s: "write_node ?K ''orders'' ''s'' [w_cached] 10000 no_cache = (Ok e1, ?f1)"
    using w_write_node [OF f(1) f(2) f(3)] by blast
  obtain e2 where t: "write_node ?K ''orders'' ''t'' [w_cached] 10000 ?f1 =
      (Ok e2, ?f1\<lparr>cf_dirs := List.insert ''orders'' (cf_dirs ?f1), cf_files := (cf_files ?f1)(node_path ''orders'' ''t'' \<mapsto> ''x'')\<rparr>)"
    using w_write_node [OF f(1) f(2) f(3)] by blast
  show ?thesis using s t by (simp add: w_node_of w_limits wc_nodes w_fingerprints no_cache_def)
qed

lemma w_ran_ok:
  "\<exists>m fs. w_ran (w_cache_env (\<lambda>_. None)) = Some (Ok 2, fs) \<and> read_manifest (w_cache_env (\<lambda>_. None)) ''orders'' fs = Some m \<and>
    map_option cne_fingerprint (map_of m ''s'') = Some (hex16 1) \<and> fst ` set m = {''s'', ''t''} \<and>
    cf_files fs (node_path ''orders'' ''s'') = Some ''x''"
proof -
  let ?K = "w_cache_env (\<lambda>_. None)"
  obtain es et fs where l: "cache_loop ?K (w_version ''a'') [(''s'', [w_cached]), (''t'', [w_cached])] [] 0 no_cache =
      Some (Ok ([(''s'', es), (''t'', et)], 2), fs)" "cne_fingerprint es = hex16 1"
    "cf_files fs = [node_path ''orders'' ''s'' \<mapsto> ''x'', node_path ''orders'' ''t'' \<mapsto> ''x'']"
    using w_cache_loop [of "\<lambda>_. None"] by auto
  obtain fs2 where w: "write_manifest ?K ''orders'' [(''s'', es), (''t'', et)] fs = (Ok (), fs2)"
    "read_manifest ?K ''orders'' fs2 = Some [(''s'', es), (''t'', et)]"
    "\<forall>i. cf_files fs2 (node_path ''orders'' i) = cf_files fs (node_path ''orders'' i)"
    using write_manifest_ok [OF w_cache_env_ok] by blast
  have none: "read_manifest ?K ''orders'' no_cache = None" by (simp add: read_manifest_def no_cache_def)
  have "node_path ''orders'' ''s'' \<noteq> node_path ''orders'' ''t''" by (simp add: node_path_eq sanitize_name_def sanitize_char_def)
  then show ?thesis using l w none by (simp add: w_ran_def cache_pipeline_outputs_def wc_nodes)
qed

lemma w_ran_t:
  "\<exists>fs. w_ran (w_cache_env (\<lambda>_. None)) = Some (Ok 2, fs) \<and> cf_files fs (node_path ''orders'' ''t'') = Some ''x''"
proof -
  let ?K = "w_cache_env (\<lambda>_. None)"
  obtain m fs where l: "cache_loop ?K (w_version ''a'') [(''s'', [w_cached]), (''t'', [w_cached])] [] 0 no_cache = Some (Ok (m, 2), fs)"
    "cf_files fs = [node_path ''orders'' ''s'' \<mapsto> ''x'', node_path ''orders'' ''t'' \<mapsto> ''x'']"
    using w_cache_loop [of "\<lambda>_. None"] by auto
  obtain fs2 where w: "write_manifest ?K ''orders'' m fs = (Ok (), fs2)"
    "\<forall>i. cf_files fs2 (node_path ''orders'' i) = cf_files fs (node_path ''orders'' i)"
    using write_manifest_ok [OF w_cache_env_ok] by blast
  have none: "read_manifest ?K ''orders'' no_cache = None" by (simp add: read_manifest_def no_cache_def)
  then show ?thesis using l w none by (simp add: w_ran_def cache_pipeline_outputs_def wc_nodes)
qed

lemma w_saved_ok:
  assumes "read_manifest (w_cache_env (\<lambda>_. None)) ''orders'' fs = Some m" "map_option cne_fingerprint (map_of m ''s'') = Some (hex16 1)"
    "fst ` set m = {''s'', ''t''}" "cf_files fs (node_path ''orders'' ''s'') = Some ''x''"
  shows "\<exists>r fs'. invalidate_changed (w_cache_env (\<lambda>_. None)) (w_version ''b'') fs = Some (r, fs') \<and>
    cf_files fs' (node_path ''orders'' ''s'') = Some ''x''"
proof -
  let ?K = "w_cache_env (\<lambda>_. None)" and ?p = "w_version ''b''"
  obtain ch where ch: "changed_nodes ?K ?p m (p_nodes ?p) = Some ch" by (simp add: wc_nodes w_fingerprints)
  have "\<not> node_changed ?K ?p m (source_node ''s'')" using assms(2) by (simp add: node_changed_def wc_nodes w_fingerprints)
  then have sub: "set ch \<subseteq> {''t'', ''k''}" using set_changed_nodes [OF ch] by (auto simp: wc_nodes)
  have edges: "edge_rel ?p = {(''s'', ''t''), (''t'', ''k'')}" by (simp add: w_version_def sample_defs edge_rel_def)
  have reach: "(i, j) \<in> (edge_rel ?p)\<^sup>* \<Longrightarrow> i \<in> {''t'', ''k''} \<Longrightarrow> j \<in> {''t'', ''k''}" for i j
    by (induction rule: rtrancl_induct) (auto simp: edges)
  define gone where "gone = to_invalidate ?K ?p m ch"
  have gone: "set gone \<subseteq> {''t'', ''k''}"
    using set_to_invalidate [OF w_cache_env_ok, of ?p m ch] sub reach assms(3) by (fastforce simp: gone_def wc_nodes)
  have "node_path ''orders'' ''s'' \<notin> node_path ''orders'' ` {''t'', ''k''}"
    by (simp add: node_path_eq sanitize_name_def sanitize_char_def)
  then have s: "cf_files (fold (remove_output ?K ''orders'') gone fs) (node_path ''orders'' ''s'') = Some ''x''"
    using files_fold_remove [OF w_cache_env_ok, of "''orders''" gone fs] gone assms(4) by auto
  obtain fs2 where "write_manifest ?K ''orders'' (fold AList.delete gone m) (fold (remove_output ?K ''orders'') gone fs) = (Ok (), fs2)"
    "\<forall>i. cf_files fs2 (node_path ''orders'' i) = cf_files (fold (remove_output ?K ''orders'') gone fs) (node_path ''orders'' i)"
    using write_manifest_ok [OF w_cache_env_ok] by blast
  then show ?thesis using ch assms(1) s by (simp add: invalidate_changed_def wc_nodes(5) Let_def flip: gone_def)
qed

lemma w_read: "cf_files fs (node_path ''orders'' i) = Some ''x'' \<Longrightarrow> read_node (w_cache_env (\<lambda>_. None)) ''orders'' i fs = Ok (Some [w_cached])"
  by (simp add: read_node_def read_ipc_def w_cache_env_def)

lemma w_ipc_ok: "ipc_ok (w_cache_env fault) (cap_batches sl [w_cached] n)"
  by (simp add: w_capped ipc_ok_def w_cache_env_def)

lemma w_saved_reachable:
  "\<exists>outs fs. cache_reachable (w_cache_env (\<lambda>_. None)) {w_version ''a'', w_version ''b''} True ([(w_version ''a'', outs)], [], w_version ''b'', fs) \<and>
     read_node (w_cache_env (\<lambda>_. None)) ''orders'' ''s'' fs = Ok (Some [w_cached])"
proof -
  let ?K = "w_cache_env (\<lambda>_. None)" and ?Q = "{w_version ''a'', w_version ''b''}"
  let ?outs = "[(''s'', [w_cached]), (''t'', [w_cached])]"
  obtain m fs where ran: "w_ran ?K = Some (Ok 2, fs)" and m: "read_manifest ?K ''orders'' fs = Some m"
    "map_option cne_fingerprint (map_of m ''s'') = Some (hex16 1)" "fst ` set m = {''s'', ''t''}"
    "cf_files fs (node_path ''orders'' ''s'') = Some ''x''" using w_ran_ok by (elim exE conjE) (rule that)
  obtain r fs' where saved: "invalidate_changed ?K (w_version ''b'') fs = Some (r, fs')"
    and s: "cf_files fs' (node_path ''orders'' ''s'') = Some ''x''" using w_saved_ok [OF m] by blast
  have "cache_reachable ?K ?Q True ([], [], w_version ''a'', no_cache)" by (rule cache_reachable.fresh) simp
  from cache_reachable.step [OF this cache_step.loaded]
  have l: "cache_reachable ?K ?Q True ([], [w_version ''a''], w_version ''a'', no_cache)" by simp
  have "cache_step ?K ?Q (w_version ''a'' = w_version ''a'') ([], [w_version ''a''], w_version ''a'', no_cache)
      ([] @ [(w_version ''a'', ?outs)], [] @ [], w_version ''a'', fs)"
    by (rule cache_step.ran [OF _ _ ran [unfolded w_ran_def]]) (simp_all add: w_ipc_ok)
  from cache_reachable.step [OF l this]
  have r: "cache_reachable ?K ?Q True ([(w_version ''a'', ?outs)], [], w_version ''a'', fs)" by simp
  have "cache_step ?K ?Q True ([(w_version ''a'', ?outs)], [], w_version ''a'', fs) ([(w_version ''a'', ?outs)], [], w_version ''b'', fs')"
    by (rule cache_step.saved [OF _ _ saved]) (simp_all add: wc_nodes(5))
  from cache_reachable.step [OF r this] show ?thesis using w_read [OF s] by auto
qed

text \<open>
  A save between the load of a run and the caching of its outputs finds nothing to invalidate: the
  outputs of the old version are then cached and shown for the new one.
\<close>

lemma overtaken_run_caches_stale:
  "\<exists>outs fs. cache_reachable (w_cache_env (\<lambda>_. None)) {w_version ''a'', w_version ''b''} False ([(w_version ''a'', outs)], [], w_version ''b'', fs) \<and>
     read_node (w_cache_env (\<lambda>_. None)) ''orders'' ''t'' fs = Ok (Some [w_cached]) \<and>
     \<not> same_above (w_cache_env (\<lambda>_. None)) (w_version ''a'') (w_version ''b'') ''t''"
proof -
  let ?K = "w_cache_env (\<lambda>_. None)" and ?Q = "{w_version ''a'', w_version ''b''}"
  let ?outs = "[(''s'', [w_cached]), (''t'', [w_cached])]"
  obtain fs where ran: "w_ran ?K = Some (Ok 2, fs)" "cf_files fs (node_path ''orders'' ''t'') = Some ''x''"
    using w_ran_t by blast
  have "cache_reachable ?K ?Q True ([], [], w_version ''a'', no_cache)" by (rule cache_reachable.fresh) simp
  from cache_reachable.step [OF this cache_step.loaded]
  have l: "cache_reachable ?K ?Q True ([], [w_version ''a''], w_version ''a'', no_cache)" by simp
  have "invalidate_changed ?K (w_version ''b'') no_cache = Some (Ok [], no_cache)"
    by (simp add: invalidate_changed_def read_manifest_def no_cache_def)
  then have "cache_step ?K ?Q True ([], [w_version ''a''], w_version ''a'', no_cache) ([], [w_version ''a''], w_version ''b'', no_cache)"
    by (rule cache_step.saved [rotated 2]) (simp_all add: wc_nodes(5))
  from cache_reachable.step [OF l this]
  have l2: "cache_reachable ?K ?Q True ([], [w_version ''a''], w_version ''b'', no_cache)" by simp
  have differ: "w_version ''a'' \<noteq> w_version ''b''" using wc_nodes(1) [of "''a''"] wc_nodes(1) [of "''b''"] by (auto simp: sample_defs)
  have "cache_step ?K ?Q (w_version ''a'' = w_version ''b'') ([], [w_version ''a''], w_version ''b'', no_cache)
      ([] @ [(w_version ''a'', ?outs)], [] @ [], w_version ''b'', fs)"
    by (rule cache_step.ran [OF _ _ ran(1) [unfolded w_ran_def]]) (simp_all add: w_ipc_ok)
  from cache_reachable.step [OF l2 this] differ
  have "cache_reachable ?K ?Q False ([(w_version ''a'', ?outs)], [], w_version ''b'', fs)" by simp
  moreover have "node_key ?K (w_version ''a'') ''t'' \<noteq> node_key ?K (w_version ''b'') ''t''"
    by (simp add: node_key_def w_node_of w_hash_nodes)
  then have "\<not> same_above ?K (w_version ''a'') (w_version ''b'') ''t''" unfolding same_above_def by blast
  ultimately show ?thesis using w_read [OF ran(2)] by blast
qed

text \<open>Without a manifest nothing is invalidated: a run whose manifest is not written leaves outputs that stay.\<close>

definition no_manifest :: "io_op \<Rightarrow> string option" where
  "no_manifest c = (if c = IoCreate (manifest_path ''orders'') then Some ''disk full'' else None)"

lemma stale_without_manifest:
  "\<exists>fs. w_ran (w_cache_env no_manifest) = Some (Err (CeIo ''disk full''), fs) \<and>
     invalidate_changed (w_cache_env no_manifest) (w_version ''b'') fs = Some (Ok [], fs) \<and>
     read_node (w_cache_env no_manifest) ''orders'' ''t'' fs = Ok (Some [w_cached])"
proof -
  let ?K = "w_cache_env no_manifest"
  obtain m fs where l: "cache_loop ?K (w_version ''a'') [(''s'', [w_cached]), (''t'', [w_cached])] [] 0 no_cache = Some (Ok (m, 2), fs)"
    "cf_files fs = [node_path ''orders'' ''s'' \<mapsto> ''x'', node_path ''orders'' ''t'' \<mapsto> ''x'']" "cf_dirs fs = [''orders'']"
    using w_cache_loop [of no_manifest] by (auto simp: no_manifest_def)
  have none: "read_manifest ?K ''orders'' fs = None" "read_manifest ?K ''orders'' no_cache = None"
    by (simp_all add: read_manifest_def no_cache_def l(2))
  have w: "write_manifest ?K ''orders'' m fs = (Err (CeIo ''disk full''), fs)"
    using l(3) by (simp add: write_manifest_def create_dir_all_def write_file_def w_cache_env_def no_manifest_def w_dir)
  have "read_node ?K ''orders'' ''t'' fs = Ok (Some [w_cached])"
    using l(2) by (simp add: read_node_def read_ipc_def w_cache_env_def no_manifest_def)
  then show ?thesis using l(1) none w by (simp add: w_ran_def cache_pipeline_outputs_def invalidate_changed_def wc_nodes(5))
qed

text \<open>What a variable or an environment changes is not in the fingerprint.\<close>

lemma variables_not_hashed:
  "compute_node_fingerprint K (p\<lparr>p_variables := vs, p_environment_overrides := os, p_udfs_dir := d\<rparr>) n = compute_node_fingerprint K p n"
  by (cases "n_kind n") (simp_all add: compute_node_fingerprint_def hash_node_def hash_kind_def resolve_code_def upstream_of_def split: option.split)

text \<open>Two nodes whose ids differ in characters that are replaced share a file.\<close>

lemma nodes_share_file: "node_path name ''a/b'' = node_path name ''a:b''"
  by (simp add: node_path_def sanitize_name_def sanitize_char_def)

end
