(* ===== verification/Run_Facts.thy ===== *)
theory Run_Facts
  imports Executor
begin

text \<open>
  What a run of the executor does: it runs every node once and in order, its record in the store is
  the one it returns, its incremental states move only behind a successful write.
\<close>

section \<open>The loop over the nodes\<close>

lemma ignoring_simps [simp]:
  "wo_tick (ignoring b f w) = wo_tick w" "wo_events (ignoring b f w) = wo_events w" "wo_calls (ignoring b f w) = wo_calls w"
  by (simp_all add: ignoring_def)

lemma world_simps [simp]:
  "wo_store (tick w) = wo_store w" "wo_events (tick w) = wo_events w" "wo_calls (tick w) = wo_calls w" "wo_tick (tick w) = Suc (wo_tick w)"
  "wo_store (emit ev w) = wo_store w" "wo_events (emit ev w) = wo_events w @ [ev]" "wo_calls (emit ev w) = wo_calls w" "wo_tick (emit ev w) = wo_tick w"
  "wo_store (note_call c w) = wo_store w" "wo_events (note_call c w) = wo_events w" "wo_calls (note_call c w) = wo_calls w @ [c]" "wo_tick (note_call c w) = wo_tick w"
  by (simp_all add: tick_def emit_def note_call_def)

text \<open>A node that succeeded adds its output and its statistics, nothing else.\<close>

definition node_added :: "node_id \<Rightarrow> 'c batch list \<Rightarrow> 'c progress \<Rightarrow> 'c progress \<Rightarrow> bool" where
  "node_added i bs pg pg' \<longleftrightarrow> pg_outputs pg' = (pg_outputs pg)(i \<mapsto> bs) \<and>
     (\<exists>st. nst_node_id st = i \<and> nst_error st = None \<and> pg_stats pg' = pg_stats pg @ [st]) \<and>
     (\<exists>st. nr_node_id st = i \<and> nr_error st = None \<and> pg_run pg' = (pg_run pg)\<lparr>pr_node_stats := pr_node_stats (pg_run pg) @ [st]\<rparr>)"

lemma add_test_same [simp]:
  "pg_outputs (add_test t pg) = pg_outputs pg" "pg_stats (add_test t pg) = pg_stats pg" "pg_run (add_test t pg) = pg_run pg"
  by (simp_all add: add_test_def split: option.splits)

lemma add_stats_added:
  assumes "add_stats X i started ended rows_in rows_out err rc pg w = (pg', w')"
  obtains st rst where "pg' = pg\<lparr>pg_stats := pg_stats pg @ [st], pg_run := (pg_run pg)\<lparr>pr_node_stats := pr_node_stats (pg_run pg) @ [rst]\<rparr>\<rparr>"
    "nst_node_id st = i" "nst_error st = err" "nr_node_id rst = i" "nr_error rst = err" "nr_rows_in rst = rows_in" "nr_rows_out rst = rows_out"
    "nr_receipt rst = rc" "nr_start_time rst = snd started" "nr_end_time rst = snd ended"
    "w' = ignoring (eo_run_store (rx_opts X)) (so_save_node_stats (xe_storage (rx_env X)) (rx_id X) rst) w"
proof -
  show ?thesis
    by (rule that [where st =
      "\<lparr>nst_node_id = i, nst_start = fst started, nst_end = fst ended, nst_rows_in = rows_in, nst_rows_out = rows_out, nst_error = err\<rparr>" and
      rst = "\<lparr>nr_node_id = i, nr_start_time = snd started, nr_end_time = snd ended, nr_rows_in = rows_in,
            nr_rows_out = rows_out, nr_error = err, nr_receipt = rc\<rparr>"])
      (use assms in \<open>simp_all add: add_stats_def Let_def\<close>)
qed

lemma finish_ok_added:
  assumes "finish_ok X n started ended info bs pg w = (pg', w')"
  shows "node_added (n_id n) bs pg pg'"
proof -
  obtain pg1 w1 where st: "add_stats X (n_id n) started ended (ni_rows_in info) (total_rows bs) None (ni_receipt info) pg w = (pg1, w1)"
    by (metis surj_pair)
  from st obtain s t where "pg1 = pg\<lparr>pg_stats := pg_stats pg @ [s], pg_run := (pg_run pg)\<lparr>pr_node_stats := pr_node_stats (pg_run pg) @ [t]\<rparr>\<rparr>"
      "nst_node_id s = n_id n" "nst_error s = None" "nr_node_id t = n_id n" "nr_error t = None"
    by (rule add_stats_added)
  moreover have "pg' = pg1\<lparr>pg_outputs := (pg_outputs pg1)(n_id n \<mapsto> bs)\<rparr>"
    using assms st by (simp add: finish_ok_def)
  ultimately show ?thesis unfolding node_added_def by simp metis
qed

lemma step_node_Ok:
  assumes "step_node X rs n pg w = Some (Ok pg', w')"
  obtains bs info test w1 w2 started ended where
    "w1 = tick (tick (emit (EvNodeStarted (rx_id X) (n_id n)) w))" "run_node X (pg_outputs pg) n w1 = Some (Done (Ok bs) info test, w2)"
    "finish_ok X n started ended info bs (add_test test pg) (tick (tick w2)) = (pg', w')"
    "started = (xe_instant (rx_env X) (Suc (wo_tick w) - 1), xe_wall (rx_env X) (Suc (wo_tick w)))"
    "ended = (xe_instant (rx_env X) (wo_tick w2), xe_wall (rx_env X) (Suc (wo_tick w2)))"
  using assms unfolding step_node_def Let_def
  by (auto split: option.splits outcome.splits sum.splits prod.splits simp: emit_def)

lemma step_node_added: "step_node X rs n pg w = Some (Ok pg', w') \<Longrightarrow> \<exists>bs. node_added (n_id n) bs pg pg'"
  by (erule step_node_Ok) (drule finish_ok_added, auto simp: node_added_def)

lemma node_of_id: "node_of p i = Some n \<Longrightarrow> n_id n = i \<and> n \<in> set (p_nodes p)"
  by (auto simp: node_of_def find_Some_iff)

lemma run_nodes_Cons:
  assumes "run_nodes X rs (i # is) pg w = Some (r, w')"
  obtains (cancelled) "xe_cancel (rx_env X) (wo_tick w)" "r = Err ExCancelled" "w' = cancel_run X rs (tick w)"
  | (failed) n e where "\<not> xe_cancel (rx_env X) (wo_tick w)" "node_of (rx_pipeline X) i = Some n" "n_id n = i"
      "step_node X rs n pg (tick w) = Some (Err e, w')" "r = Err e"
  | (next_node) n pg1 w1 where "\<not> xe_cancel (rx_env X) (wo_tick w)" "node_of (rx_pipeline X) i = Some n" "n_id n = i"
      "step_node X rs n pg (tick w) = Some (Ok pg1, w1)" "run_nodes X rs is pg1 w1 = Some (r, w')"
  using assms node_of_id [of "rx_pipeline X" i]
  by (auto split: if_splits option.splits sum.splits)

declare run_nodes.simps(2) [simp del]

lemma run_nodes_Ok:
  "run_nodes X rs is pg w = Some (Ok pg', w') \<Longrightarrow>
     map nst_node_id (pg_stats pg') = map nst_node_id (pg_stats pg) @ is \<and>
     map nr_node_id (pr_node_stats (pg_run pg')) = map nr_node_id (pr_node_stats (pg_run pg)) @ is \<and>
     dom (pg_outputs pg') = dom (pg_outputs pg) \<union> set is"
proof (induction "is" arbitrary: pg w)
  case (Cons i "is")
  from Cons.prems show ?case
  proof (cases rule: run_nodes_Cons)
    case (next_node n pg1 w1)
    obtain bs where "node_added i bs pg pg1" using step_node_added [OF next_node(4)] next_node(3) by blast
    with Cons.IH [OF next_node(5)] show ?thesis by (auto simp: node_added_def)
  qed simp_all
qed simp

lemma validate_no_snippets:
  assumes "validate ord p = Some (Ok ())"
  shows "no_snippets p"
proof -
  have "check_kinds p (p_nodes p) \<noteq> None" "p_nodes p \<noteq> []" using assms by (auto simp: validate_def split: if_splits option.splits)
  then show ?thesis by (simp add: check_kinds_None_iff no_snippets_def)
qed

text \<open>The steps before the first node.\<close>

lemma execute_Some:
  assumes "execute E opts p w = Some (r, w')" "hash_order (h_order (xe_host E))"
  obtains (early) e where "r = Err e" "w' = w"
  | (store) e s where "eo_run_store opts" "so_create_run (xe_storage E) (xe_uuid E) (p_name p) (eo_environment opts) (wo_store w) = (Err e, s)"
      "r = Err (ExRunStore e)" "w' = w\<lparr>wo_store := s\<rparr>"
  | (started) order udfs plans run s where "valid_dag p" "topological_sort (h_order (xe_host E)) p = Some order"
      "mset order = mset (node_ids p)" "\<forall>e \<in> set (p_edges p). \<exists>xs ys zs. order = xs @ e_from e # ys @ e_to e # zs"
      "prepare_run E opts p (wo_store w) = Some (Ok (udfs, plans))"
      "(if eo_run_store opts then so_create_run (xe_storage E) (xe_uuid E) (p_name p) (eo_environment opts) (wo_store w)
        else (Ok (new_run (xe_uuid E) (p_name p) (eo_environment opts)), wo_store w)) = (Ok run, s)"
      "run_order \<lparr>rx_env = E, rx_opts = opts, rx_pipeline = p, rx_udfs = udfs, rx_plans = plans,
         rx_vars = resolve p (eo_overrides opts) \<lparr>bc_run_date = xe_run_date E, bc_run_id = pr_id run,
           bc_pipeline_name = p_name p, bc_environment = eo_environment opts\<rparr>, rx_id = pr_id run\<rparr>
         order run (w\<lparr>wo_store := s\<rparr>) = Some (r, w')"
proof (cases "validate (h_order (xe_host E)) p")
  case None
  then show ?thesis using assms(1) by (simp add: execute_def)
next
  case (Some v)
  show ?thesis
  proof (cases v)
    case (Inl es)
    then show ?thesis using assms(1) Some early [of "ExValidation es"] by (simp add: execute_def)
  next
    case (Inr u)
    then have ok: "validate (h_order (xe_host E)) p = Some (Ok ())" using Some by simp
    then have dag: "valid_dag p" using validate_accepts [OF assms(2)] validate_no_snippets by blast
    from topological_sort_valid [OF assms(2) dag] obtain order where
      order: "topological_sort (h_order (xe_host E)) p = Some order" "mset order = mset (node_ids p)"
        "\<forall>e \<in> set (p_edges p). \<exists>xs ys zs. order = xs @ e_from e # ys @ e_to e # zs" by blast
    show ?thesis
    proof (cases "prepare_run E opts p (wo_store w)")
      case None
      then show ?thesis using assms(1) ok order(1) by (simp add: execute_def)
    next
      case prep: (Some q)
      show ?thesis
      proof (cases q)
        case (Inl e)
        then show ?thesis using assms(1) ok order(1) prep early [of e] by (simp add: execute_def)
      next
        case (Inr up)
        obtain udfs plans where up: "up = (udfs, plans)" by (cases up)
        obtain c s where cs: "(if eo_run_store opts then so_create_run (xe_storage E) (xe_uuid E) (p_name p) (eo_environment opts) (wo_store w)
            else (Ok (new_run (xe_uuid E) (p_name p) (eo_environment opts)), wo_store w)) = (c, s)"
          by (metis surj_pair)
        show ?thesis
        proof (cases c)
          case (Inl e)
          then show ?thesis using assms(1) ok order(1) prep \<open>q = Inr up\<close> up cs store by (auto simp: execute_def split: if_splits)
        next
          case (Inr run)
          show ?thesis
            by (rule started [OF dag order]) (use assms(1) ok order(1) prep \<open>q = Inr up\<close> up cs Inr in \<open>simp_all add: execute_def\<close>)
        qed
      qed
    qed
  qed
qed

section \<open>What a node does to the store\<close>

text \<open>
  A property of the store's state that the operations of a node keep: the incremental state and
  schemas, the observations and the column edges are written, the runs are not.
\<close>

definition lineage_keeps :: "'s storage \<Rightarrow> ('s \<Rightarrow> bool) \<Rightarrow> bool" where
  "lineage_keeps S P \<longleftrightarrow> (\<forall>s. P s \<longrightarrow>
     (\<forall>ob. P (snd (so_record_observation S ob s))) \<and> (\<forall>pid env es. P (snd (so_save_column_edges S pid env es s))))"

definition node_keeps :: "'s storage \<Rightarrow> ('s \<Rightarrow> bool) \<Rightarrow> bool" where
  "node_keeps S P \<longleftrightarrow> lineage_keeps S P \<and>
     (\<forall>s. P s \<longrightarrow> (\<forall>st. P (snd (so_save_state S st s))) \<and> (\<forall>r. P (snd (so_record_schema S r s))))"

lemma lineage_keepsD:
  assumes "lineage_keeps S P" "P s"
  shows "P (snd (so_record_observation S ob s))" "P (snd (so_save_column_edges S pid env es s))"
  using assms by (simp_all add: lineage_keeps_def)

lemma node_keepsD:
  assumes "node_keeps S P"
  shows "lineage_keeps S P" "P s \<Longrightarrow> P (snd (so_save_state S st s))" "P s \<Longrightarrow> P (snd (so_record_schema S r s))"
  using assms by (simp_all add: node_keeps_def)

lemma ignoring_keeps: "(b \<Longrightarrow> P (snd (f (wo_store w)))) \<Longrightarrow> P (wo_store w) \<Longrightarrow> P (wo_store (ignoring b f w))"
  by (simp add: ignoring_def)

lemma persist_column_lineage_store:
  "wo_store (persist_column_lineage E opts pid i l w) = wo_store w \<or>
   (\<exists>es. wo_store (persist_column_lineage E opts pid i l w) =
      snd (so_save_column_edges (xe_storage E) pid (eo_environment opts) es (wo_store w)))"
  by (simp add: persist_column_lineage_def Let_def split: prod.split) (metis snd_conv)

lemma persist_if_keeps:
  assumes "lineage_keeps (xe_storage E) P" "P (wo_store w)"
  shows "P (wo_store (persist_if E opts i nl w))"
proof -
  have "P (wo_store (persist_column_lineage E opts pid i l w))" for pid l
    using persist_column_lineage_store [of E opts pid i l w] lineage_keepsD(2) [OF assms] assms(2) by metis
  then show ?thesis using assms(2) by (simp add: persist_if_def split: option.split bool.split)
qed

lemma record_lineage_keeps:
  assumes "lineage_keeps (xe_storage (rx_env X)) P" "P (wo_store w)"
  shows "P (wo_store (record_lineage X n t w))"
  using lineage_keepsD(1) [OF assms] assms(2)
  by (simp add: record_lineage_def ignoring_def split: option.split)

lemma record_boundary_keeps:
  assumes "lineage_keeps (xe_storage (rx_env X)) P" "P (wo_store w)"
  shows "P (wo_store (record_boundary X n bs b w))"
proof -
  have "P (wo_store (fold (\<lambda>u. persist_if (rx_env X) (rx_opts X) (rx_id X) (f u)) us w))" for us f
    using assms(2) by (induction us arbitrary: w) (simp_all add: persist_if_keeps [OF assms(1)])
  then show ?thesis using assms persist_if_keeps [OF assms(1)]
    by (auto simp: record_boundary_def split: option.split binding_direction.split)
qed

lemma execute_source_keeps:
  "execute_source E i cfg plan w = Some (r, w') \<Longrightarrow> wo_store w' = wo_store w"
  by (auto simp: execute_source_def split: option.splits sum.splits)

lemma execute_sql_keeps: "wo_store (snd (execute_sql_transform E udfs i sql ups derive w)) = wo_store w"
  by (simp add: execute_sql_transform_def Let_def split: sum.split prod.split)

lemma persist_state_keeps:
  assumes "node_keeps (xe_storage E) P" "P (wo_store w)"
  shows "P (wo_store (persist_state E opts pname i run_id wm bs rc advanced w))"
proof -
  let ?w = "case advanced of None \<Rightarrow> w | Some v \<Rightarrow> ignoring True
    (so_save_state (xe_storage E) (new_state E opts pname i run_id wm bs rc v (xe_utc_ms E (wo_tick w)))) (tick w)"
  have "P (wo_store ?w)"
    using node_keepsD(2) [OF assms] assms(2) by (simp add: ignoring_def split: option.split)
  from this node_keepsD(3) [OF assms(1) this] show ?thesis
    using assms(2) by (simp add: persist_state_def Let_def ignoring_def split: option.split)
qed

text \<open>The ways a sink ends.\<close>

lemma execute_sink_cases:
  assumes "execute_sink E opts pname i run_id cfg bs plan w = Some (r, w')"
  obtains (no_call) e where "r = Err e" "w' = w"
  | (failed) e ctx where "r = Err e" "w' = note_call (CWrite i cfg bs ctx) w"
  | (written) rc ctx where "r = Ok (bs, rc)" "plan = None" "xe_write E (wo_calls w) i cfg bs ctx = Ok rc"
      "w' = note_call (CWrite i cfg bs ctx) w"
  | (advanced) pl wm rc0 rc ctx adv where "r = Ok (bs, rc)" "plan = Some pl" "mp_watermark (kp_policy pl) = Some wm"
      "xe_write E (wo_calls w) i cfg bs ctx = Ok rc0"
      "w' = persist_state E opts pname i run_id wm bs rc adv (note_call (CWrite i cfg bs ctx) w)"
proof (cases "xe_has_sink E (snk_connector cfg)")
  case False
  then show ?thesis using assms no_call by (auto simp: execute_sink_def)
next
  case True
  show ?thesis
  proof (cases "sink_schema_check E opts pname i plan bs (wo_store w)")
    case (Inl e)
    then show ?thesis using assms True no_call by (auto simp: execute_sink_def)
  next
    case (Inr da)
    obtain diff alter where da: "da = (diff, alter)" by (cases da)
    let ?ctx = "(context_from_policy (snk_materialization cfg))\<lparr>mc_apply_schema_changes := alter\<rparr>"
    show ?thesis
    proof (cases plan)
      case None
      then show ?thesis
        by (cases "xe_write E (wo_calls w) i cfg bs ?ctx")
          (use assms True Inr da failed [of _ ?ctx] written [of _ ?ctx] in \<open>auto simp: execute_sink_def Let_def\<close>)
    next
      case (Some pl)
      show ?thesis
      proof (cases "mp_watermark (kp_policy pl)")
        case None
        then show ?thesis using assms True Inr da Some by (simp add: execute_sink_def Let_def)
      next
        case wm: (Some wm)
        show ?thesis
        proof (cases "fold_max_watermark (xe_arrays E) bs (wm_column wm) (wm_type wm)")
          case (Inl e)
          then show ?thesis using assms True Inr da Some wm no_call [of "NeSink (show_incremental_error e)"] by (simp add: execute_sink_def Let_def)
        next
          case m: (Inr mx)
          show ?thesis
          proof (cases "xe_write E (wo_calls w) i cfg bs ?ctx")
            case (Inl e)
            then show ?thesis using assms True Inr da Some wm m failed [of "NeSink e" ?ctx] by (simp add: execute_sink_def Let_def)
          next
            case rc: (Inr rc)
            obtain rc' adv where en: "enrich_receipt (xe_time_text E) wm pl mx diff rc = (rc', adv)"
              by (metis surj_pair)
            show ?thesis
              by (rule advanced [of rc' pl wm ?ctx rc adv])
                (use assms True Inr da Some wm m rc en in \<open>simp_all add: execute_sink_def Let_def\<close>)
          qed
        qed
      qed
    qed
  qed
qed

lemma execute_sink_keeps:
  assumes "node_keeps (xe_storage E) P" "P (wo_store w)" "execute_sink E opts pname i run_id cfg bs plan w = Some (r, w')"
  shows "P (wo_store w')"
  using assms(3)
proof (cases rule: execute_sink_cases)
  case (advanced pl wm rc0 rc ctx adv)
  then show ?thesis using persist_state_keeps [OF assms(1)] assms(2) by simp
qed (use assms(2) in simp_all)

lemma run_sql_node_keeps:
  assumes "lineage_keeps (xe_storage E) P" "P (wo_store w)"
  shows "P (wo_store (snd (run_sql_node E opts udfs i out j ups xf sql data w)))"
proof -
  let ?annotated = "case xf_lineage_annotations xf of None \<Rightarrow> False | Some a \<Rightarrow> a \<noteq> []"
  obtain r w1 where r: "execute_sql_transform E udfs j sql data (eo_column_store opts \<and> \<not> ?annotated) w = (r, w1)"
    by (metis surj_pair)
  then have "wo_store w1 = wo_store w" using execute_sql_keeps by (metis snd_conv)
  then have "P (wo_store w1)" using assms(2) by simp
  with persist_if_keeps [OF assms(1) this] r show ?thesis
    by (simp add: run_sql_node_def Let_def split: sum.split prod.split)
qed

lemma run_python_node_keeps:
  assumes "lineage_keeps (xe_storage E) P" "P (wo_store w)"
  shows "P (wo_store (snd (run_python_node E opts vars i j xf code data w)))"
  using assms(2) persist_if_keeps [OF assms(1), of "note_call (CPython j code) w"]
  by (simp add: run_python_node_def Let_def split: sum.split prod.split)

lemma run_transform_keeps:
  assumes "lineage_keeps (xe_storage (rx_env X)) P" "P (wo_store w)"
  shows "P (wo_store (snd (run_transform X outputs i xf w)))"
  using assms(2) run_sql_node_keeps [OF assms] run_python_node_keeps [OF assms]
  by (simp add: run_transform_def Let_def split: option.split sum.split prod.split transform_mode.split) (metis snd_conv)

lemma run_test_store: "wo_store (snd (run_test X outputs i cfg w)) = wo_store w"
  by (simp add: run_test_def Let_def split: sum.split prod.split node_error.split)

lemma run_node_keeps:
  assumes keeps: "node_keeps (xe_storage (rx_env X)) P" and P: "P (wo_store w)" and run: "run_node X outputs n w = Some (r, w')"
  shows "P (wo_store w')"
proof (cases "n_kind n")
  case (Source src)
  then show ?thesis using P run
    by (auto simp: run_node_def run_source_def dest!: execute_source_keeps split: sum.splits)
next
  case (Transform xf)
  then show ?thesis using run run_transform_keeps [OF node_keepsD(1) [OF keeps] P, of outputs "n_id n" xf] by (simp add: run_node_def)
next
  case (Sink snk)
  then show ?thesis using P run execute_sink_keeps [OF keeps P]
    by (simp add: run_node_def run_sink_def Let_def split: if_splits sum.splits prod.splits) blast+
next
  case (Test cfg)
  then show ?thesis using P run run_test_store [of X outputs "n_id n" cfg w] by (simp add: run_node_def)
next
  case (Snippet x)
  then show ?thesis using run by (simp add: run_node_def)
qed

section \<open>The record of a run\<close>

text \<open>
  The record in the store while the run goes on: it is open and its statistics are those of the run
  the executor holds, their times as the store keeps them.
\<close>

definition timed :: "(int \<Rightarrow> int) \<Rightarrow> node_run_stats \<Rightarrow> node_run_stats" where
  "timed tm st = st\<lparr>nr_start_time := tm (nr_start_time st), nr_end_time := tm (nr_end_time st)\<rparr>"

definition stats_match :: "(int \<Rightarrow> int) \<Rightarrow> pipeline_run \<Rightarrow> pipeline_run \<Rightarrow> bool" where
  "stats_match tm r run \<longleftrightarrow> node_view (pr_node_stats r) = map_option (timed tm) \<circ> node_view (pr_node_stats run)"

definition open_record :: "(int \<Rightarrow> int) \<Rightarrow> pipeline_run \<Rightarrow> pipeline_run \<Rightarrow> bool" where
  "open_record tm r run \<longleftrightarrow> pr_status r = RsRunning \<and> pr_error r = None \<and> stats_match tm r run"

text \<open>
  The error with which the resolver of secrets refuses the configuration of a node. It is the only
  error a node returns without its statistics, its report and the end of the run being recorded.
\<close>

definition refused :: "('c, 's, 'u) exec_env \<Rightarrow> options \<Rightarrow> pipeline \<Rightarrow> resolved_variables \<Rightarrow> node \<Rightarrow> 'c node_error \<Rightarrow> bool" where
  "refused E opts p vars n e \<longleftrightarrow> (case n_kind n of
       Source src \<Rightarrow> (\<exists>msg. prepare_config E opts p vars (n_id n) (src_config src) = Err msg \<and> e = NeSource msg)
     | Sink snk \<Rightarrow> (\<exists>msg. prepare_config E opts p vars (n_id n) (snk_config snk) = Err msg \<and> e = NeSink msg)
     | _ \<Rightarrow> False)"

lemma not_refused: "eo_secret_resolver opts = None \<Longrightarrow> \<not> refused E opts p vars n e"
  by (simp add: refused_def prepare_config_def Let_def split: node_kind.split)

lemma run_node_early:
  assumes "run_node X outputs n w = Some (Early e, w')"
  shows "refused (rx_env X) (rx_opts X) (rx_pipeline X) (rx_vars X) n e \<and> w' = w"
proof (cases "n_kind n")
  case (Source src)
  then show ?thesis using assms by (auto simp: run_node_def run_source_def refused_def split: sum.splits)
next
  case (Transform xf)
  then show ?thesis using assms
    by (auto simp: run_node_def run_transform_def Let_def split: option.splits sum.splits prod.splits transform_mode.splits)
next
  case (Sink snk)
  then show ?thesis using assms
    by (auto simp: run_node_def run_sink_def refused_def Let_def split: if_splits sum.splits prod.splits)
next
  case (Test cfg)
  then show ?thesis using assms
    by (auto simp: run_node_def run_test_def Let_def split: sum.splits prod.splits node_error.splits)
next
  case (Snippet x)
  then show ?thesis using assms by (simp add: run_node_def)
qed

lemma node_view_snoc:
  "nr_node_id st \<notin> nr_node_id ` set sts \<Longrightarrow> node_view (sts @ [st]) = (node_view sts)(nr_node_id st \<mapsto> st)"
  by (rule ext) (auto simp: node_view_def map_add_Some_iff map_add_def map_of_eq_None_iff image_image
      intro: sym split: option.split dest!: map_of_SomeD)

context run_storage begin

lemma other_ops:
  assumes "inv s"
  shows "inv (snd (so_save_failure_report S rep s)) \<and> get (snd (so_save_failure_report S rep s)) i = get s i"
    "inv (snd (so_save_state S st s)) \<and> get (snd (so_save_state S st s)) i = get s i"
    "inv (snd (so_record_schema S sch s)) \<and> get (snd (so_record_schema S sch s)) i = get s i"
    "inv (snd (so_record_observation S ob s)) \<and> get (snd (so_record_observation S ob s)) i = get s i"
    "inv (snd (so_save_column_edges S pid env es s)) \<and> get (snd (so_save_column_edges S pid env es s)) i = get s i"
  using others [OF assms, where f = "so_save_failure_report S rep" and rep = rep]
    others [OF assms, where f = "\<lambda>s. (Ok (), snd (so_save_state S st s))" and state = st]
    others [OF assms, where f = "\<lambda>s. (Ok (), snd (so_record_schema S sch s))" and sch = sch]
    others [OF assms, where f = "so_record_observation S ob" and ob = ob]
    others [OF assms, where f = "so_save_column_edges S pid env es" and pid = pid and env = env and es = es]
  by simp_all

lemma keeps_record: "node_keeps S (\<lambda>s. inv s \<and> get s i = Ok (Some r))"
  by (simp add: node_keeps_def lineage_keeps_def other_ops)

text \<open>A place in the run: the store satisfies its invariant, the record is open and up to date.\<close>

lemma add_stats_stored:
  assumes "add_stats X i started ended rows_in rows_out err rc pg w = (pg', w')"
    "xe_storage (rx_env X) = S" "eo_run_store (rx_opts X)" "time_ok (snd started)" "time_ok (snd ended)"
    "inv (wo_store w)" "get (wo_store w) (rx_id X) = Ok (Some r)" "open_record tm r (pg_run pg)"
    "i \<notin> nr_node_id ` set (pr_node_stats (pg_run pg))"
  shows "inv (wo_store w') \<and> (\<exists>r'. get (wo_store w') (rx_id X) = Ok (Some r') \<and> open_record tm r' (pg_run pg'))"
proof -
  from assms(1) obtain st rst where new:
      "pg' = pg\<lparr>pg_stats := pg_stats pg @ [st], pg_run := (pg_run pg)\<lparr>pr_node_stats := pr_node_stats (pg_run pg) @ [rst]\<rparr>\<rparr>"
      "nr_node_id rst = i" "nr_start_time rst = snd started" "nr_end_time rst = snd ended"
      "w' = ignoring (eo_run_store (rx_opts X)) (so_save_node_stats (xe_storage (rx_env X)) (rx_id X) rst) w"
    by (rule add_stats_added)
  from stats [OF assms(6,7), of rst] assms(4,5) new obtain s' ns where saved:
      "so_save_node_stats S (rx_id X) rst (wo_store w) = (Ok (), s')" "inv s'" "get s' (rx_id X) = Ok (Some (r\<lparr>pr_node_stats := ns\<rparr>))"
      "node_view ns = (node_view (pr_node_stats r))(nr_node_id rst \<mapsto> timed tm rst)"
    by (auto simp: timed_def)
  have "open_record tm (r\<lparr>pr_node_stats := ns\<rparr>) (pg_run pg')"
    using assms(8,9) new(1,2) saved(4) by (auto simp: open_record_def stats_match_def node_view_snoc fun_eq_iff)
  then show ?thesis using saved assms(2,3) new(5) by (simp add: ignoring_def)
qed

lemma close_stored:
  assumes "close_run X status err end_wall pg w = (pg', w')"
    "xe_storage (rx_env X) = S" "eo_run_store (rx_opts X)" "time_ok end_wall"
    "inv (wo_store w)" "get (wo_store w) (rx_id X) = Ok (Some r)" "open_record tm r (pg_run pg)"
  shows "inv (wo_store w') \<and> (\<exists>r'. get (wo_store w') (rx_id X) = Ok (Some r') \<and> pr_status r' = status \<and> pr_error r' = err \<and>
    pr_end_time r' = Some (tm end_wall) \<and> stats_match tm r' (pg_run pg'))"
proof -
  let ?ts = "map (summary_of (xe_rows (rx_env X))) (pg_tests pg)"
  obtain s1 r1 where one: "inv s1" "get s1 (rx_id X) = Ok (Some r1)" "pr_node_stats r1 = pr_node_stats r"
      "s1 = wo_store (ignoring (eo_run_store (rx_opts X) \<and> ?ts \<noteq> []) (so_save_test_results S (rx_id X) ?ts) w)"
    using tests [OF assms(5,6), of ?ts] assms(5,6) by (cases "?ts = []") (auto simp: ignoring_def assms(3))
  from finish [OF one(1,2) assms(4), of status err] obtain s2 where
      "so_finish_run S (rx_id X) status end_wall err s1 = (Ok (), s2)" "inv s2"
      "get s2 (rx_id X) = Ok (Some (r1\<lparr>pr_status := status, pr_end_time := Some (tm end_wall), pr_error := err\<rparr>))" by blast
  moreover have "w' = ignoring True (so_finish_run S (rx_id X) status end_wall err)
      (ignoring (eo_run_store (rx_opts X) \<and> ?ts \<noteq> []) (so_save_test_results S (rx_id X) ?ts) w)"
    "pr_node_stats (pg_run pg') = pr_node_stats (pg_run pg)"
    using assms(1,2,3) by (auto simp: close_run_def Let_def)
  ultimately show ?thesis using one assms(7) by (simp add: ignoring_def open_record_def stats_match_def)
qed

end

lemma step_node_Err:
  assumes "step_node X rs n pg w = Some (Err e, w')"
  obtains (refused) kind where "e = ExNode (n_id n) kind" "refused (rx_env X) (rx_opts X) (rx_pipeline X) (rx_vars X) n kind"
      "wo_store w' = wo_store w"
  | (failed) kind info test w2 started ended where
    "run_node X (pg_outputs pg) n (tick (tick (emit (EvNodeStarted (rx_id X) (n_id n)) w))) = Some (Done (Err kind) info test, w2)"
    "finish_err X rs n started ended info kind (add_test test pg) (tick (tick w2)) = (e, w')"
    "started = (xe_instant (rx_env X) (wo_tick w), xe_wall (rx_env X) (Suc (wo_tick w)))"
    "ended = (xe_instant (rx_env X) (wo_tick w2), xe_wall (rx_env X) (Suc (wo_tick w2)))"
proof (cases "\<exists>kind. run_node X (pg_outputs pg) n (tick (tick (emit (EvNodeStarted (rx_id X) (n_id n)) w))) = Some (Early kind, w') \<and>
    e = ExNode (n_id n) kind")
  case True
  then show ?thesis using run_node_early refused by fastforce
next
  case False
  then show ?thesis using assms failed unfolding step_node_def Let_def
    by (auto split: option.splits outcome.splits sum.splits prod.splits)
qed

lemma finish_err_node: "finish_err X rs n started ended info kind pg w = (e, w') \<Longrightarrow> e = ExNode (n_id n) kind"
  by (auto simp: finish_err_def Let_def split: prod.splits)

text \<open>The record once the run has ended with \<open>status\<close>.\<close>

definition closed_record :: "(run_id \<Rightarrow> run_store_error + pipeline_run option) \<Rightarrow> run_id \<Rightarrow> run_status \<Rightarrow> string option \<Rightarrow> bool" where
  "closed_record g i status err \<longleftrightarrow> (\<exists>r. g i = Ok (Some r) \<and> pr_status r = status \<and> pr_error r = err \<and> pr_end_time r \<noteq> None)"

text \<open>The record of a run that has not ended.\<close>

definition left_running :: "(run_id \<Rightarrow> run_store_error + pipeline_run option) \<Rightarrow> run_id \<Rightarrow> bool" where
  "left_running g i \<longleftrightarrow> (\<exists>r. g i = Ok (Some r) \<and> pr_status r = RsRunning \<and> pr_error r = None)"

text \<open>The status the record ends with when the nodes have run.\<close>

fun error_status :: "'c executor_error \<Rightarrow> run_status" where
  "error_status ExCancelled = RsCancelled"
| "error_status _ = RsFailed"

context run_storage begin

lemma node_stored:
  assumes "run_node X outs n w1 = Some (q, w2)" "xe_storage (rx_env X) = S"
    "inv (wo_store w1)" "get (wo_store w1) (rx_id X) = Ok (Some r)"
  shows "inv (wo_store w2) \<and> get (wo_store w2) (rx_id X) = Ok (Some r)"
  using run_node_keeps [OF _ _ assms(1), of "\<lambda>s. inv s \<and> get s (rx_id X) = Ok (Some r)"] keeps_record assms(2-4) by simp

lemma step_stored_Ok:
  assumes "step_node X rs n pg w = Some (Ok pg', w')"
    "xe_storage (rx_env X) = S" "eo_run_store (rx_opts X)" "\<And>k. time_ok (xe_wall (rx_env X) k)"
    "inv (wo_store w)" "get (wo_store w) (rx_id X) = Ok (Some r)" "open_record tm r (pg_run pg)"
    "n_id n \<notin> nr_node_id ` set (pr_node_stats (pg_run pg))"
  shows "inv (wo_store w') \<and> (\<exists>r'. get (wo_store w') (rx_id X) = Ok (Some r') \<and> open_record tm r' (pg_run pg'))"
proof -
  obtain bs info test w1 w2 started ended where run:
    "w1 = tick (tick (emit (EvNodeStarted (rx_id X) (n_id n)) w))" "run_node X (pg_outputs pg) n w1 = Some (Done (Ok bs) info test, w2)"
    "finish_ok X n started ended info bs (add_test test pg) (tick (tick w2)) = (pg', w')"
    "started = (xe_instant (rx_env X) (Suc (wo_tick w) - 1), xe_wall (rx_env X) (Suc (wo_tick w)))"
    "ended = (xe_instant (rx_env X) (wo_tick w2), xe_wall (rx_env X) (Suc (wo_tick w2)))"
    using assms(1) by (rule step_node_Ok)
  obtain pg3 w3 where st: "add_stats X (n_id n) started ended (ni_rows_in info) (total_rows bs) None (ni_receipt info) (add_test test pg)
      (tick (tick w2)) = (pg3, w3)" by (metis surj_pair)
  from add_stats_stored [OF st assms(2,3), of r] node_stored [OF run(2) assms(2), of r] run(1,4,5) assms(4-8) obtain r' where
      three: "inv (wo_store w3)" "get (wo_store w3) (rx_id X) = Ok (Some r')" "open_record tm r' (pg_run pg3)" by auto
  let ?P = "\<lambda>s. inv s \<and> get s (rx_id X) = Ok (Some r')"
  have "?P (wo_store w')" "pg_run pg' = pg_run pg3"
    using run(3) record_boundary_keeps [where P = ?P and X = X] record_lineage_keeps [where P = ?P and X = X]
      node_keepsD(1) [OF keeps_record] assms(2) three st
    by (auto simp: finish_ok_def)
  then show ?thesis using three(3) by auto
qed

lemma step_stored_Err:
  assumes "step_node X rs n pg w = Some (Err e, w')"
    "xe_storage (rx_env X) = S" "eo_run_store (rx_opts X)" "\<And>k. time_ok (xe_wall (rx_env X) k)"
    "inv (wo_store w)" "get (wo_store w) (rx_id X) = Ok (Some r)" "open_record tm r (pg_run pg)"
    "n_id n \<notin> nr_node_id ` set (pr_node_stats (pg_run pg))"
  shows "inv (wo_store w') \<and>
    ((\<exists>kind msg. e = ExNode (n_id n) kind \<and> closed_record (get (wo_store w')) (rx_id X) RsFailed (Some msg)) \<or>
     (\<exists>kind. e = ExNode (n_id n) kind \<and> refused (rx_env X) (rx_opts X) (rx_pipeline X) (rx_vars X) n kind \<and>
       left_running (get (wo_store w')) (rx_id X)))"
  using assms(1)
proof (cases rule: step_node_Err)
  case (refused kind)
  then show ?thesis using assms(5-7) by (simp add: left_running_def open_record_def)
next
  case run: (failed kind info test w2 started ended)
  let ?msg = "scrub_secrets (xe_regexes (rx_env X)) (show_node_error kind) (ni_secrets info)"
  obtain pg3 w3 where st: "add_stats X (n_id n) started ended (ni_rows_in info) 0 (Some ?msg) None (add_test test pg)
      (tick (tick w2)) = (pg3, w3)" by (metis surj_pair)
  from add_stats_stored [OF st assms(2,3), of r] node_stored [OF run(1) assms(2), of r] run(3,4) assms(4-8) obtain r' where
      three: "inv (wo_store w3)" "get (wo_store w3) (rx_id X) = Ok (Some r')" "open_record tm r' (pg_run pg3)" by auto
  let ?rep = "failure_report_of X n info kind (pg_outputs pg3) (xe_wall (rx_env X) (wo_tick w3))"
  let ?w4 = "emit (EvNodeFailed (rx_id X) (n_id n) ?msg)
    (ignoring True (so_save_failure_report (xe_storage (rx_env X)) ?rep) (tick w3))"
  have four: "inv (wo_store ?w4)" "get (wo_store ?w4) (rx_id X) = Ok (Some r')"
    using other_ops(1) [OF three(1)] three(2) assms(2) by (simp_all add: ignoring_def)
  obtain pg5 w5 where cl: "close_run X RsFailed (Some ?msg) (xe_wall (rx_env X) (wo_tick ?w4)) pg3 (tick ?w4) = (pg5, w5)" by (metis surj_pair)
  have "inv (wo_store w5) \<and> closed_record (get (wo_store w5)) (rx_id X) RsFailed (Some ?msg)"
    using close_stored [OF cl assms(2,3)] assms(4) four three(3) by (auto simp: closed_record_def)
  moreover have "wo_store w' = wo_store w5" "e = ExNode (n_id n) kind"
    using run(2) st cl assms(3) by (auto simp: finish_err_def Let_def)
  ultimately show ?thesis by auto
qed

lemma run_nodes_stored:
  assumes "run_nodes X rs is pg w = Some (res, w')"
    "xe_storage (rx_env X) = S" "eo_run_store (rx_opts X)" "\<And>k. time_ok (xe_wall (rx_env X) k)"
    "inv (wo_store w)" "get (wo_store w) (rx_id X) = Ok (Some r)" "open_record tm r (pg_run pg)"
    "distinct (map nr_node_id (pr_node_stats (pg_run pg)) @ is)"
  shows "inv (wo_store w') \<and> (case res of
      Inr pg' \<Rightarrow> (\<exists>r'. get (wo_store w') (rx_id X) = Ok (Some r') \<and> open_record tm r' (pg_run pg'))
    | Inl e \<Rightarrow> (\<exists>msg. closed_record (get (wo_store w')) (rx_id X) (error_status e) msg) \<or>
        (\<exists>n kind. n \<in> set (p_nodes (rx_pipeline X)) \<and> e = ExNode (n_id n) kind \<and>
          refused (rx_env X) (rx_opts X) (rx_pipeline X) (rx_vars X) n kind \<and> left_running (get (wo_store w')) (rx_id X)))"
  using assms(1,5-8)
proof (induction "is" arbitrary: pg w r)
  case (Cons i "is")
  from Cons.prems(5) have fresh: "i \<notin> nr_node_id ` set (pr_node_stats (pg_run pg))" by auto
  have tw: "inv (wo_store (tick w))" "get (wo_store (tick w)) (rx_id X) = Ok (Some r)" using Cons.prems(2,3) by simp_all
  from Cons.prems(1) show ?case
  proof (cases rule: run_nodes_Cons)
    case cancelled
    have "\<exists>s'. so_finish_run S (rx_id X) RsCancelled (xe_wall (rx_env X) (Suc (wo_tick w))) None (wo_store w) = (Ok (), s') \<and> inv s' \<and>
        closed_record (get s') (rx_id X) RsCancelled None"
      using finish [OF Cons.prems(2,3) assms(4), of RsCancelled "Suc (wo_tick w)" None] by (auto simp: closed_record_def)
    then show ?thesis using cancelled assms(2,3) by (auto simp: cancel_run_def Let_def ignoring_def)
  next
    case (failed n e)
    then show ?thesis
      using step_stored_Err [OF failed(4) assms(2-4) tw Cons.prems(4)] fresh node_of_id [OF failed(2)] by fastforce
  next
    case (next_node n pg1 w1)
    obtain r1 where one: "inv (wo_store w1)" "get (wo_store w1) (rx_id X) = Ok (Some r1)" "open_record tm r1 (pg_run pg1)"
      using step_stored_Ok [OF next_node(4) assms(2-4) tw Cons.prems(4)] fresh next_node(3) by auto
    obtain bs where "node_added i bs pg pg1" using step_node_added [OF next_node(4)] next_node(3) by blast
    then obtain st where "pr_node_stats (pg_run pg1) = pr_node_stats (pg_run pg) @ [st]" "nr_node_id st = i"
      by (auto simp: node_added_def)
    then have "distinct (map nr_node_id (pr_node_stats (pg_run pg1)) @ is)" using Cons.prems(5) by simp
    then show ?thesis using Cons.IH [OF next_node(5) one] by simp
  qed
qed auto

text \<open>From the record as it was created to the end of the run.\<close>

lemma run_order_stored:
  assumes "run_order X order run w = Some (res, w')"
    "xe_storage (rx_env X) = S" "eo_run_store (rx_opts X)" "\<And>k. time_ok (xe_wall (rx_env X) k)"
    "inv (wo_store w)" "get (wo_store w) (rx_id X) = Ok (Some (new_run i pname env))" "run = new_run i pname env" "distinct order"
  shows "inv (wo_store w') \<and> (case res of
      Inr (_, run') \<Rightarrow> (\<exists>r. get (wo_store w') (rx_id X) = Ok (Some r) \<and> pr_status r = RsSuccess \<and> pr_error r = None \<and>
        pr_end_time r \<noteq> None \<and> stats_match tm r run')
    | Inl e \<Rightarrow> (\<exists>msg. closed_record (get (wo_store w')) (rx_id X) (error_status e) msg) \<or>
        (\<exists>n kind. n \<in> set (p_nodes (rx_pipeline X)) \<and> e = ExNode (n_id n) kind \<and>
          refused (rx_env X) (rx_opts X) (rx_pipeline X) (rx_vars X) n kind \<and> left_running (get (wo_store w')) (rx_id X)))"
proof -
  let ?start = "xe_wall (rx_env X) (wo_tick w)" and ?rs = "xe_instant (rx_env X) (Suc (wo_tick w))"
  let ?run = "run\<lparr>pr_status := RsRunning, pr_start_time := Some ?start, pr_triggered_by := eo_triggered_by (rx_opts X)\<rparr>"
  let ?w2 = "emit (EvRunStarted (rx_id X) (p_name (rx_pipeline X))) (ignoring (eo_run_store (rx_opts X))
    (so_set_running (xe_storage (rx_env X)) (rx_id X) ?start (eo_triggered_by (rx_opts X))) (tick (tick w)))"
  let ?pg = "\<lparr>pg_run = ?run, pg_outputs = Map.empty, pg_stats = [], pg_tests = []\<rparr>"
  from running [OF assms(5,6) assms(4) [of "wo_tick w"]] obtain s r where
      run: "so_set_running S (rx_id X) ?start (eo_triggered_by (rx_opts X)) (wo_store w) = (Ok (), s)" "inv s"
      "get s (rx_id X) = Ok (Some r)" "r = (new_run i pname env)\<lparr>pr_status := RsRunning, pr_start_time := Some (tm ?start),
        pr_triggered_by := eo_triggered_by (rx_opts X)\<rparr>"
    by blast
  have w2: "wo_store ?w2 = s" using assms(2,3) run(1) by (simp add: ignoring_def)
  have rec: "open_record tm r (pg_run ?pg)" using run(4) assms(7)
    by (simp add: open_record_def stats_match_def new_run_def node_view_def fun_eq_iff)
  have dist: "distinct (map nr_node_id (pr_node_stats (pg_run ?pg)) @ order)" using assms(7,8) by (simp add: new_run_def)
  obtain q w3 where nodes: "run_nodes X ?rs order ?pg ?w2 = Some (q, w3)"
    using assms(1) by (auto simp: run_order_def Let_def split: option.splits)
  note kept = run_nodes_stored [OF nodes assms(2-4), of r, unfolded w2, OF run(2,3) rec dist]
  show ?thesis
  proof (cases q)
    case (Inl e)
    then show ?thesis using kept nodes assms(1) by (auto simp: run_order_def Let_def)
  next
    case (Inr pg)
    then obtain r' where r': "inv (wo_store (tick (tick w3)))" "get (wo_store (tick (tick w3))) (rx_id X) = Ok (Some r')"
        "open_record tm r' (pg_run pg)"
      using kept by auto
    obtain pg1 w4 where cl: "close_run X RsSuccess None (xe_wall (rx_env X) (Suc (wo_tick w3))) pg (tick (tick w3)) = (pg1, w4)"
      by (metis surj_pair)
    have "wo_store w' = wo_store w4" "\<exists>res'. res = Ok (res', pg_run pg1)"
      using assms(1) nodes Inr cl by (auto simp: run_order_def Let_def)
    then show ?thesis using close_stored [OF cl assms(2,3) assms(4) r'] by auto
  qed
qed

end

end
