(* ===== verification/Run_State.thy ===== *)
theory Run_State
  imports Run_Facts
begin

text \<open>
  The incremental states under a run: only a sink moves one, only its own, and only after its
  connector has written the rows.
\<close>

section \<open>The calls of a node\<close>

lemma ignoring_calls [simp]: "wo_calls (ignoring b f w) = wo_calls w"
  by (simp add: ignoring_def)

lemma persist_if_calls [simp]: "wo_calls (persist_if E opts i nl w) = wo_calls w"
  by (simp add: persist_if_def persist_column_lineage_def Let_def emit_def tick_def split: option.split bool.split prod.split)

lemma record_calls [simp]: "wo_calls (record_lineage X n t w) = wo_calls w" "wo_calls (record_boundary X n bs b w) = wo_calls w"
proof -
  have "wo_calls (fold (\<lambda>u. persist_if (rx_env X) (rx_opts X) (rx_id X) (f u)) us w) = wo_calls w" for us :: "node_id list" and f
    by (induction us arbitrary: w) simp_all
  then show "wo_calls (record_lineage X n t w) = wo_calls w" "wo_calls (record_boundary X n bs b w) = wo_calls w"
    by (simp_all add: record_lineage_def record_boundary_def split: option.split binding_direction.split)
qed

lemma persist_state_calls [simp]: "wo_calls (persist_state E opts pname i r wm bs rc adv w) = wo_calls w"
  by (simp add: persist_state_def Let_def split: option.split)

definition calls_extend :: "('c, 's) world \<Rightarrow> ('c, 's) world \<Rightarrow> bool" where
  "calls_extend w w' \<longleftrightarrow> (\<exists>cs. wo_calls w' = wo_calls w @ cs)"

lemma calls_extend_same: "wo_calls w' = wo_calls w \<Longrightarrow> calls_extend w w'"
  by (simp add: calls_extend_def)

lemma execute_source_calls: "execute_source E i cfg plan w = Some (r, w') \<Longrightarrow> calls_extend w w'"
  by (auto simp: execute_source_def calls_extend_def split: option.splits sum.splits)

lemma execute_sql_calls: "calls_extend w (snd (execute_sql_transform E udfs i sql ups derive w))"
  by (simp add: execute_sql_transform_def Let_def calls_extend_def split: sum.split prod.split)

lemma run_sql_node_calls:
  assumes "run_sql_node E opts udfs r out j ups xf sql data w = (q, w')"
  shows "calls_extend w w'"
proof -
  let ?annotated = "case xf_lineage_annotations xf of None \<Rightarrow> False | Some a \<Rightarrow> a \<noteq> []"
  obtain q1 w1 where "execute_sql_transform E udfs j sql data (eo_column_store opts \<and> \<not> ?annotated) w = (q1, w1)"
    by (metis surj_pair)
  moreover from this have "calls_extend w w1" using execute_sql_calls by (metis snd_conv)
  ultimately show ?thesis using assms
    by (auto simp: run_sql_node_def Let_def calls_extend_def split: sum.splits)
qed

lemma run_python_node_calls: "run_python_node E opts vars r j xf code data w = (q, w') \<Longrightarrow> calls_extend w w'"
  by (auto simp: run_python_node_def Let_def calls_extend_def split: sum.splits prod.splits)

lemma run_transform_calls: "calls_extend w (snd (run_transform X outputs i xf w))"
  by (simp add: run_transform_def Let_def calls_extend_same split: option.split sum.split prod.split transform_mode.split)
    (blast intro: run_sql_node_calls run_python_node_calls)

lemma run_test_calls: "wo_calls (snd (run_test X outputs i cfg w)) = wo_calls w"
  by (simp add: run_test_def Let_def split: sum.split prod.split node_error.split)

section \<open>States move behind writes\<close>

definition wrote_between :: "('c, 's, 'u) exec_env \<Rightarrow> ('c, 's) world \<Rightarrow> ('c, 's) world \<Rightarrow> node_id \<Rightarrow> bool" where
  "wrote_between E w w' i \<longleftrightarrow> (\<exists>pre cfg bs ctx rc post. wo_calls w' = wo_calls w @ pre @ CWrite i cfg bs ctx # post \<and>
     xe_write E (wo_calls w @ pre) i cfg bs ctx = Ok rc)"

definition states_behind_writes ::
  "('c, 's, 'u) exec_env \<Rightarrow> string \<Rightarrow> string \<Rightarrow> ('c, 's) world \<Rightarrow> ('c, 's) world \<Rightarrow> bool" where
  "states_behind_writes E pname environment w w' \<longleftrightarrow> calls_extend w w' \<and>
     (\<forall>pid i env. so_load_state (xe_storage E) (wo_store w') pid i env \<noteq> so_load_state (xe_storage E) (wo_store w) pid i env \<longrightarrow>
        pid = pname \<and> env = environment \<and> wrote_between E w w' i)"

lemma states_behind_trans:
  assumes "states_behind_writes E pname env w w1" "states_behind_writes E pname env w1 w2"
  shows "states_behind_writes E pname env w w2"
proof -
  from assms obtain c1 c2 where calls: "wo_calls w1 = wo_calls w @ c1" "wo_calls w2 = wo_calls w1 @ c2"
    by (auto simp: states_behind_writes_def calls_extend_def)
  have "wrote_between E w w2 i" if "wrote_between E w w1 i \<or> wrote_between E w1 w2 i" for i
    using that
  proof
    assume "wrote_between E w w1 i"
    then show ?thesis using calls unfolding wrote_between_def by (metis append.assoc append_Cons)
  next
    assume "wrote_between E w1 w2 i"
    then show ?thesis using calls unfolding wrote_between_def by (metis append.assoc)
  qed
  then show ?thesis using assms calls unfolding states_behind_writes_def calls_extend_def by (metis append.assoc)
qed

lemma states_behind_same:
  "calls_extend w w' \<Longrightarrow> so_load_state (xe_storage E) (wo_store w') = so_load_state (xe_storage E) (wo_store w) \<Longrightarrow>
     states_behind_writes E pname env w w'"
  by (simp add: states_behind_writes_def)

lemma ignoring_store: "wo_store (ignoring True f w) = snd (f (wo_store w))"
  by (simp add: ignoring_def)

context state_storage begin

lemma state_ops:
  assumes "inv s"
  shows "inv (snd (so_create_run S ri pname env s)) \<and> so_load_state S (snd (so_create_run S ri pname env s)) = so_load_state S s"
    "inv (snd (so_set_running S ri t tb s)) \<and> so_load_state S (snd (so_set_running S ri t tb s)) = so_load_state S s"
    "inv (snd (so_finish_run S ri status t err s)) \<and> so_load_state S (snd (so_finish_run S ri status t err s)) = so_load_state S s"
    "inv (snd (so_save_test_results S ri ts s)) \<and> so_load_state S (snd (so_save_test_results S ri ts s)) = so_load_state S s"
    "inv (snd (so_save_node_stats S ri ns s)) \<and> so_load_state S (snd (so_save_node_stats S ri ns s)) = so_load_state S s"
    "inv (snd (so_save_failure_report S rep s)) \<and> so_load_state S (snd (so_save_failure_report S rep s)) = so_load_state S s"
    "inv (snd (so_record_schema S sch s)) \<and> so_load_state S (snd (so_record_schema S sch s)) = so_load_state S s"
    "inv (snd (so_record_observation S ob s)) \<and> so_load_state S (snd (so_record_observation S ob s)) = so_load_state S s"
    "inv (snd (so_save_column_edges S cpid cenv es s)) \<and> so_load_state S (snd (so_save_column_edges S cpid cenv es s)) = so_load_state S s"
proof -
  show "inv (snd (so_create_run S ri pname env s)) \<and> so_load_state S (snd (so_create_run S ri pname env s)) = so_load_state S s"
    by (rule keeps [OF assms, where f = "\<lambda>s. snd (so_create_run S ri pname env s)"], (rule insertI1 | rule insertI2)+)
  show "inv (snd (so_set_running S ri t tb s)) \<and> so_load_state S (snd (so_set_running S ri t tb s)) = so_load_state S s"
    by (rule keeps [OF assms, where f = "\<lambda>s. snd (so_set_running S ri t tb s)"], (rule insertI1 | rule insertI2)+)
  show "inv (snd (so_finish_run S ri status t err s)) \<and> so_load_state S (snd (so_finish_run S ri status t err s)) = so_load_state S s"
    by (rule keeps [OF assms, where f = "\<lambda>s. snd (so_finish_run S ri status t err s)"], (rule insertI1 | rule insertI2)+)
  show "inv (snd (so_save_test_results S ri ts s)) \<and> so_load_state S (snd (so_save_test_results S ri ts s)) = so_load_state S s"
    by (rule keeps [OF assms, where f = "\<lambda>s. snd (so_save_test_results S ri ts s)"], (rule insertI1 | rule insertI2)+)
  show "inv (snd (so_save_node_stats S ri ns s)) \<and> so_load_state S (snd (so_save_node_stats S ri ns s)) = so_load_state S s"
    by (rule keeps [OF assms, where f = "\<lambda>s. snd (so_save_node_stats S ri ns s)"], (rule insertI1 | rule insertI2)+)
  show "inv (snd (so_save_failure_report S rep s)) \<and> so_load_state S (snd (so_save_failure_report S rep s)) = so_load_state S s"
    by (rule keeps [OF assms, where f = "\<lambda>s. snd (so_save_failure_report S rep s)"], (rule insertI1 | rule insertI2)+)
  show "inv (snd (so_record_schema S sch s)) \<and> so_load_state S (snd (so_record_schema S sch s)) = so_load_state S s"
    by (rule keeps [OF assms, where f = "\<lambda>s. snd (so_record_schema S sch s)"], (rule insertI1 | rule insertI2)+)
  show "inv (snd (so_record_observation S ob s)) \<and> so_load_state S (snd (so_record_observation S ob s)) = so_load_state S s"
    by (rule keeps [OF assms, where f = "\<lambda>s. snd (so_record_observation S ob s)"], (rule insertI1 | rule insertI2)+)
  show "inv (snd (so_save_column_edges S cpid cenv es s)) \<and> so_load_state S (snd (so_save_column_edges S cpid cenv es s)) = so_load_state S s"
    by (rule keeps [OF assms, where f = "\<lambda>s. snd (so_save_column_edges S cpid cenv es s)"], (rule insertI1 | rule insertI2)+)
qed

text \<open>A store that keeps the states of \<open>s\<close>.\<close>

lemma lineage_keeps_states: "lineage_keeps S (\<lambda>s. inv s \<and> so_load_state S s = L)"
  by (simp add: lineage_keeps_def state_ops)

lemma save_new_state:
  assumes "inv s" "so_load_state S (snd (so_save_state S (new_state E opts pname i r wm bs rc v now) s)) pid j env \<noteq> so_load_state S s pid j env"
  shows "pid = pname \<and> j = i \<and> env = eo_environment opts"
proof -
  let ?st = "new_state E opts pname i r wm bs rc v now"
  have "state_type_ok ?st" by (cases "wm_type wm") (simp_all add: new_state_def state_type_ok_def)
  from save [OF assms(1) this, of pid j env] assms(2) show ?thesis
    by (auto simp: state_key_def new_state_def split: if_splits)
qed

lemma save_new_state_inv: "inv s \<Longrightarrow> inv (snd (so_save_state S (new_state E opts pname i r wm bs rc v now) s))"
proof -
  assume inv: "inv s"
  let ?st = "new_state E opts pname i r wm bs rc v now"
  have "state_type_ok ?st" by (cases "wm_type wm") (simp_all add: new_state_def state_type_ok_def)
  from save [OF inv this] show ?thesis by (metis snd_conv)
qed

lemma persist_state_moves:
  assumes "xe_storage E = S" "inv (wo_store w)"
  shows "inv (wo_store (persist_state E opts pname i r wm bs rc adv w)) \<and>
    (so_load_state S (wo_store (persist_state E opts pname i r wm bs rc adv w)) pid j env \<noteq> so_load_state S (wo_store w) pid j env \<longrightarrow>
      pid = pname \<and> j = i \<and> env = eo_environment opts)"
proof -
  let ?w = "case adv of None \<Rightarrow> w | Some v \<Rightarrow> ignoring True
    (so_save_state S (new_state E opts pname i r wm bs rc v (xe_utc_ms E (wo_tick w)))) (tick w)"
  have inv1: "inv (wo_store ?w)"
    using save_new_state_inv [OF assms(2)] assms(2) by (cases adv) (simp_all add: ignoring_def)
  have moves: "so_load_state S (wo_store ?w) pid j env \<noteq> so_load_state S (wo_store w) pid j env \<longrightarrow>
      pid = pname \<and> j = i \<and> env = eo_environment opts"
    using save_new_state [OF assms(2), of E opts pname i r wm bs rc "the adv" "xe_utc_ms E (wo_tick w)" pid j env]
    by (cases adv) (simp_all add: ignoring_def)
  let ?p = "persist_state E opts pname i r wm bs rc adv w"
  have "wo_store ?p = wo_store w \<or> wo_store ?p = wo_store ?w \<or> (\<exists>sch. wo_store ?p = snd (so_record_schema S sch (wo_store ?w)))"
  proof (cases "eo_state_store opts")
    case True
    then show ?thesis unfolding persist_state_def Let_def assms(1)
      by (cases "first_schema bs") (simp_all only: if_False if_True not_True_eq_False option.case ignoring_store world_simps, blast+)
  qed (simp add: persist_state_def)
  then show ?thesis
    using assms(2) inv1 moves state_ops(7) [OF inv1] by (elim disjE exE) (simp_all only:, blast)
qed

lemma same_states:
  assumes "inv (wo_store w') \<and> so_load_state S (wo_store w') = so_load_state S (wo_store w)" "calls_extend w w'" "xe_storage E = S"
  shows "inv (wo_store w') \<and> states_behind_writes E pname env w w'"
  using assms states_behind_same [of w w' E] by simp

lemma run_sink_moves:
  assumes "execute_sink E opts pname i r cfg bs plan w = Some (q, w')" "xe_storage E = S" "inv (wo_store w)"
  shows "inv (wo_store w') \<and> states_behind_writes E pname (eo_environment opts) w w'"
  using assms(1)
proof (cases rule: execute_sink_cases)
  case (advanced pl wm rc0 rc ctx adv)
  have "wrote_between E w w' i" unfolding wrote_between_def
    using advanced by (intro exI [of _ "[]"] exI [of _ cfg] exI [of _ bs] exI [of _ ctx] exI [of _ rc0]) simp
  moreover have "calls_extend w w'" using advanced by (simp add: calls_extend_def)
  ultimately show ?thesis
    using persist_state_moves [OF assms(2), of "note_call (CWrite i cfg bs ctx) w" opts pname i r wm bs rc adv]
      assms(2,3) advanced(5)
    unfolding states_behind_writes_def by (simp only: world_simps) metis
qed (use assms(2,3) in \<open>auto intro!: states_behind_same simp: calls_extend_def\<close>)

lemma run_node_moves:
  assumes "run_node X outs n w = Some (q, w')" "xe_storage (rx_env X) = S" "inv (wo_store w)"
  shows "inv (wo_store w') \<and> states_behind_writes (rx_env X) (p_name (rx_pipeline X)) (eo_environment (rx_opts X)) w w'"
proof (cases "n_kind n")
  case (Source src)
  then have "wo_store w' = wo_store w" "calls_extend w w'" using assms(1)
    by (auto simp: run_node_def run_source_def calls_extend_same dest: execute_source_keeps execute_source_calls split: sum.splits)
  then show ?thesis using assms(2,3) by (intro same_states) simp_all
next
  case (Transform xf)
  then have w': "w' = snd (run_transform X outs (n_id n) xf w)" using assms(1) by (simp add: run_node_def)
  then have "inv (wo_store w') \<and> so_load_state S (wo_store w') = so_load_state S (wo_store w)"
    using run_transform_keeps [where P = "\<lambda>s. inv s \<and> so_load_state S s = so_load_state S (wo_store w)" and w = w,
      of X outs "n_id n" xf] lineage_keeps_states assms(2,3) by simp
  then show ?thesis using w' run_transform_calls assms(2) by (intro same_states) simp_all
next
  case (Sink snk)
  then show ?thesis using assms(1,3) run_sink_moves [OF _ assms(2,3)] same_states [OF _ _ assms(2), of w w]
    by (auto simp: run_node_def run_sink_def Let_def calls_extend_same split: if_splits sum.splits prod.splits)
next
  case (Test cfg)
  then have w': "w' = snd (run_test X outs (n_id n) cfg w)" using assms(1) by (simp add: run_node_def)
  then show ?thesis using run_test_store [of X outs] run_test_calls [of X outs] assms(2,3)
    by (intro same_states) (simp_all add: calls_extend_same)
next
  case (Snippet x)
  then show ?thesis using assms(1) by (simp add: run_node_def)
qed

text \<open>What follows a node writes no incremental state.\<close>

lemma finish_ok_moves:
  assumes "finish_ok X n started ended info bs pg w = (pg', w')" "xe_storage (rx_env X) = S" "inv (wo_store w)"
  shows "inv (wo_store w') \<and> states_behind_writes (rx_env X) pname env w w'"
proof -
  let ?P = "\<lambda>s. inv s \<and> so_load_state S s = so_load_state S (wo_store w)"
  obtain pg1 w1 where st: "add_stats X (n_id n) started ended (ni_rows_in info) (total_rows bs) None (ni_receipt info) pg w = (pg1, w1)"
    by (metis surj_pair)
  then have "?P (wo_store w1) \<and> wo_calls w1 = wo_calls w"
    using state_ops(5) [OF assms(3)] assms(2,3) by (auto simp: add_stats_def Let_def ignoring_def)
  moreover from this have "?P (wo_store (record_boundary X n bs (ni_boundary info) (record_lineage X n (snd ended) w1)))"
    using record_boundary_keeps [where P = ?P and X = X] record_lineage_keeps [where P = ?P and X = X] lineage_keeps_states assms(2)
    by simp
  ultimately show ?thesis using assms(1,2) st by (intro same_states) (auto simp: finish_ok_def calls_extend_same)
qed

lemma close_run_moves:
  assumes "close_run X status err t pg w = (pg', w')" "xe_storage (rx_env X) = S" "inv (wo_store w)"
  shows "inv (wo_store w') \<and> so_load_state S (wo_store w') = so_load_state S (wo_store w) \<and> wo_calls w' = wo_calls w"
proof -
  let ?ts = "map (summary_of (xe_rows (rx_env X))) (pg_tests pg)"
  let ?w1 = "ignoring (eo_run_store (rx_opts X) \<and> ?ts \<noteq> []) (so_save_test_results S (rx_id X) ?ts) w"
  have "inv (wo_store ?w1) \<and> so_load_state S (wo_store ?w1) = so_load_state S (wo_store w)"
    using state_ops(4) [OF assms(3)] assms(3) by (simp add: ignoring_def)
  moreover have "w' = ignoring (eo_run_store (rx_opts X)) (so_finish_run S (rx_id X) status t err) ?w1"
    using assms(1,2) by (auto simp: close_run_def Let_def)
  moreover have "wo_calls ?w1 = wo_calls w" by simp
  ultimately show ?thesis using state_ops(3) [of "wo_store ?w1"]
    by (cases "eo_run_store (rx_opts X)") (simp_all only: ignoring_store ignoring_calls ignoring_simps, simp_all add: ignoring_def)
qed

lemma finish_err_moves:
  assumes "finish_err X rs n started ended info kind pg w = (e, w')" "xe_storage (rx_env X) = S" "inv (wo_store w)"
  shows "inv (wo_store w') \<and> states_behind_writes (rx_env X) pname env w w'"
proof -
  let ?msg = "scrub_secrets (xe_regexes (rx_env X)) (show_node_error kind) (ni_secrets info)"
  obtain pg1 w1 where st: "add_stats X (n_id n) started ended (ni_rows_in info) 0 (Some ?msg) None pg w = (pg1, w1)"
    by (metis surj_pair)
  then have one: "inv (wo_store w1)" "so_load_state S (wo_store w1) = so_load_state S (wo_store w)" "wo_calls w1 = wo_calls w"
    using state_ops(5) [OF assms(3)] assms(2,3) by (auto simp: add_stats_def Let_def ignoring_def)
  let ?rep = "failure_report_of X n info kind (pg_outputs pg1) (xe_wall (rx_env X) (wo_tick w1))"
  let ?w3 = "emit (EvNodeFailed (rx_id X) (n_id n) ?msg)
    (if eo_run_store (rx_opts X) then ignoring True (so_save_failure_report S ?rep) (tick w1) else w1)"
  have three: "inv (wo_store ?w3)" "so_load_state S (wo_store ?w3) = so_load_state S (wo_store w)" "wo_calls ?w3 = wo_calls w"
    using state_ops(6) [OF one(1)] one by (simp_all add: ignoring_def)
  obtain pg4 w4 where cl: "close_run X RsFailed (Some ?msg) (xe_wall (rx_env X) (wo_tick ?w3)) pg1 (tick ?w3) = (pg4, w4)"
    by (metis surj_pair)
  then have "inv (wo_store w4) \<and> so_load_state S (wo_store w4) = so_load_state S (wo_store w) \<and> wo_calls w4 = wo_calls w"
    using close_run_moves [OF cl assms(2)] three by simp
  moreover have "wo_store w' = wo_store w4" "wo_calls w' = wo_calls w4"
    using assms(1,2) st cl by (auto simp: finish_err_def Let_def split: if_splits)
  ultimately show ?thesis using assms(2) by (intro same_states) (simp_all add: calls_extend_same)
qed

lemma step_node_moves:
  assumes "step_node X rs n pg w = Some (r, w')" "xe_storage (rx_env X) = S" "inv (wo_store w)"
  shows "inv (wo_store w') \<and> states_behind_writes (rx_env X) (p_name (rx_pipeline X)) (eo_environment (rx_opts X)) w w'"
proof -
  let ?w1 = "tick (tick (emit (EvNodeStarted (rx_id X) (n_id n)) w))"
  let ?moves = "\<lambda>w w'. inv (wo_store w') \<and> states_behind_writes (rx_env X) (p_name (rx_pipeline X)) (eo_environment (rx_opts X)) w w'"
  have trans: "?moves w w2 \<Longrightarrow> ?moves w2 w3 \<Longrightarrow> ?moves w w3" for w w2 w3 using states_behind_trans by blast
  obtain oc w2 where node: "run_node X (pg_outputs pg) n ?w1 = Some (oc, w2)"
    using assms(1) by (auto simp: step_node_def Let_def split: option.splits)
  have "?moves w ?w1" using assms(2,3) by (intro same_states) (simp_all add: calls_extend_same)
  moreover from this have "?moves ?w1 w2" using run_node_moves [OF node assms(2)] by blast
  ultimately have two: "?moves w w2" by (rule trans)
  show ?thesis
  proof (cases oc)
    case (Early e)
    then show ?thesis using assms(1) node two by (simp add: step_node_def Let_def)
  next
    case (Done q info test)
    have tick: "?moves w2 (tick (tick w2))" using two assms(2) by (intro same_states) (simp_all add: calls_extend_same)
    then have inv2: "inv (wo_store (tick (tick w2)))" by blast
    have "?moves (tick (tick w2)) w'"
      using assms(1) node Done finish_ok_moves [OF _ assms(2) inv2] finish_err_moves [OF _ assms(2) inv2]
      by (simp add: step_node_def Let_def split: sum.splits prod.splits)
    with trans [OF two tick] show ?thesis by (rule trans)
  qed
qed

lemma run_nodes_moves:
  assumes "run_nodes X rs is pg w = Some (r, w')" "xe_storage (rx_env X) = S" "inv (wo_store w)"
  shows "inv (wo_store w') \<and> states_behind_writes (rx_env X) (p_name (rx_pipeline X)) (eo_environment (rx_opts X)) w w'"
  using assms(1,3)
proof (induction "is" arbitrary: pg w)
  case Nil
  then show ?case using assms(2) same_states [of w w "rx_env X"] by (simp add: calls_extend_same)
next
  case (Cons i "is")
  have tick: "inv (wo_store (tick w)) \<and> states_behind_writes (rx_env X) (p_name (rx_pipeline X)) (eo_environment (rx_opts X)) w (tick w)"
    using Cons.prems(2) assms(2) by (intro same_states) (simp_all add: calls_extend_same)
  from Cons.prems(1) show ?case
  proof (cases rule: run_nodes_Cons)
    case cancelled
    then have "so_load_state S (wo_store w') = so_load_state S (wo_store w) \<and> inv (wo_store w') \<and> wo_calls w' = wo_calls w"
      using state_ops(3) [OF Cons.prems(2)] Cons.prems(2) assms(2) by (simp add: cancel_run_def Let_def ignoring_def)
    then show ?thesis using assms(2) by (intro same_states) (simp_all add: calls_extend_same)
  next
    case (failed n e)
    then show ?thesis using step_node_moves [OF failed(4) assms(2)] tick states_behind_trans by blast
  next
    case (next_node n pg1 w1)
    have "inv (wo_store w1) \<and> states_behind_writes (rx_env X) (p_name (rx_pipeline X)) (eo_environment (rx_opts X)) w w1"
      using step_node_moves [OF next_node(4) assms(2)] tick states_behind_trans by blast
    with Cons.IH [OF next_node(5)] show ?thesis using states_behind_trans by blast
  qed
qed

lemma run_order_moves:
  assumes "run_order X order run w = Some (r, w')" "xe_storage (rx_env X) = S" "inv (wo_store w)"
  shows "inv (wo_store w') \<and> states_behind_writes (rx_env X) (p_name (rx_pipeline X)) (eo_environment (rx_opts X)) w w'"
proof -
  let ?moves = "\<lambda>w w'. inv (wo_store w') \<and> states_behind_writes (rx_env X) (p_name (rx_pipeline X)) (eo_environment (rx_opts X)) w w'"
  let ?w = "emit (EvRunStarted (rx_id X) (p_name (rx_pipeline X))) (ignoring (eo_run_store (rx_opts X))
    (so_set_running S (rx_id X) (xe_wall (rx_env X) (wo_tick w)) (eo_triggered_by (rx_opts X))) (tick (tick w)))"
  have start: "?moves w ?w" using state_ops(2) [OF assms(3)] assms(2,3)
    by (intro same_states) (simp_all add: calls_extend_same ignoring_def)
  let ?rs = "xe_instant (rx_env X) (Suc (wo_tick w))"
  let ?pg = "\<lparr>pg_run = run\<lparr>pr_status := RsRunning, pr_start_time := Some (xe_wall (rx_env X) (wo_tick w)),
    pr_triggered_by := eo_triggered_by (rx_opts X)\<rparr>, pg_outputs = Map.empty, pg_stats = [], pg_tests = []\<rparr>"
  obtain q w3 where nodes: "run_nodes X ?rs order ?pg ?w = Some (q, w3)"
    using assms(1,2) by (auto simp: run_order_def Let_def split: option.splits)
  have three: "?moves w w3" using run_nodes_moves [OF nodes assms(2)] start states_behind_trans by blast
  show ?thesis
  proof (cases q)
    case (Inl e)
    then show ?thesis using assms(1,2) nodes three by (simp add: run_order_def Let_def)
  next
    case (Inr pg1)
    obtain pg2 w4 where cl: "close_run X RsSuccess None (xe_wall (rx_env X) (Suc (wo_tick w3))) pg1 (tick (tick w3)) = (pg2, w4)"
      by (metis surj_pair)
    have "wo_store w' = wo_store w4" "wo_calls w' = wo_calls w4"
      using assms(1,2) nodes Inr cl by (auto simp: run_order_def Let_def)
    then have "?moves w3 w'"
      using close_run_moves [OF cl assms(2)] three assms(2) by (intro same_states) (simp_all add: calls_extend_same)
    then show ?thesis using three states_behind_trans by blast
  qed
qed

end

end
