(* ===== verification/Run_Claims.thy ===== *)
theory Run_Claims
  imports Run_State
begin

text \<open>
  The properties of \<open>execute\<close>, each with a run of a small pipeline on a SQLite store, and the
  places where the executor does not do what it means to.
\<close>

section \<open>A small run\<close>

definition w_rows :: "unit batch list" where
  "w_rows = [\<lparr>rb_columns = [(\<lparr>fd_name = ''v'', fd_type = DtInt64, fd_nullable = False\<rparr>, ())], rb_num_rows = 2\<rparr>]"

definition w_receipt :: receipt where
  "w_receipt = from_write_stats_default \<lparr>ws_rows_written = 2, ws_bytes_written = 0, ws_duration = 0\<rparr>"

text \<open>Every call succeeds, a write as \<open>f\<close> says; the clock on the wall stands still.\<close>

definition w_with :: "(sink_config \<Rightarrow> string + receipt) \<Rightarrow> (unit, run_db, unit) exec_env" where
  "w_with f = \<lparr>xe_host = sample_host sample_dag, xe_storage = sqlite_store, xe_uuid = ''r1'',
     xe_wall = (\<lambda>k. 0), xe_instant = (\<lambda>k. int k), xe_utc_ms = int, xe_rfc3339 = (\<lambda>_. []), xe_run_date = [],
     xe_cancel = (\<lambda>_. False), xe_load_udfs = (\<lambda>_. Ok ()), xe_no_udfs = (), xe_udfs_empty = (\<lambda>_. True),
     xe_inline = (\<lambda>_ s. Ok s), xe_preprocess = (\<lambda>s _. Ok s), xe_provider = (\<lambda>_. Some (Ok [])), xe_configure = (\<lambda>_. Ok ()),
     xe_register = (\<lambda>_. Ok ()), xe_filter = (\<lambda>_ _. Ok ()), xe_collect = (\<lambda>_ _ _ _. Ok w_rows), xe_table = (\<lambda>_ _. Ok ()),
     xe_plan = (\<lambda>_ _. Ok ([], \<lambda>i. \<lparr>nl_node_id = i, nl_edges = [], nl_warnings = []\<rparr>)), xe_run_sql = (\<lambda>_ _ _. Ok w_rows), xe_empty_column = (\<lambda>_. ()),
     xe_python = (\<lambda>_ _ _ _. Ok (w_rows, None)), xe_tests = \<lparr>tq_table = (\<lambda>_. Ok ()), tq_query = (\<lambda>bs _. QRows bs), tq_slice = (\<lambda>n b. b), tq_print = (\<lambda>_. [])\<rparr>,
     xe_has_sink = (\<lambda>_. True), xe_write = (\<lambda>_ _ cfg _ _. f cfg), xe_file_error = (\<lambda>_. ExtError [] []), 
     xe_arrays = \<lparr>ac_is_empty = (\<lambda>_. False), ac_timestamps = (\<lambda>_. Ok []), ac_ints = (\<lambda>_. Ok [Some 7]), ac_texts = (\<lambda>_. Ok [])\<rparr>,
     xe_time_text = \<lparr>tt_parse = (\<lambda>_. Ok 0), tt_print = (\<lambda>_. []), tt_ok = (\<lambda>_. True)\<rparr>, xe_other_type = (\<lambda>_. []),
     xe_schema_json = \<lparr>sj_encode = (\<lambda>_. None), sj_decode = (\<lambda>_. None)\<rparr>, xe_hash = (\<lambda>_. 0), xe_field_order = (\<lambda>fs. fs),
     xe_rows = (\<lambda>_. []), xe_head_rows = (\<lambda>_ _. []), xe_node_json = (\<lambda>_. None),
     xe_regexes = \<lparr>sr_uri = (\<lambda>t. t), sr_kv = (\<lambda>t. t)\<rparr>\<rparr>"

definition w_env :: "(unit, run_db, unit) exec_env" where
  "w_env = w_with (\<lambda>_. Ok w_receipt)"

text \<open>The resolver over a store of secrets that holds nothing: it refuses every reference to a secret.\<close>

definition w_resolver :: "json \<Rightarrow> string \<Rightarrow> string + json \<times> string list" where
  "w_resolver j env = (case resolve_json_secrets_collecting (\<lambda>_. Err (SxNotFound ''pw'')) j of Inl _ \<Rightarrow> Err ''no secret'' | Inr r \<Rightarrow> Ok r)"

definition w_options :: options where
  "w_options = \<lparr>eo_environment = ''dev'', eo_run_store = True, eo_overrides = [], eo_secret_resolver = Some w_resolver, eo_state_store = True,
     eo_full_refresh = False, eo_bootstrap = False, eo_dry_run_no_sinks = False, eo_lineage_store = False, eo_fingerprint_fn = None,
     eo_pipeline_id = None, eo_column_store = False, eo_on_column_lineage = False, eo_triggered_by = None\<rparr>"

definition w_world :: "(unit, run_db) world" where
  "w_world = \<lparr>wo_store = run_init_schema, wo_tick = 0, wo_events = [], wo_calls = []\<rparr>"

definition run_ids_started :: "exec_event list \<Rightarrow> node_id list" where
  "run_ids_started evs = concat (map (\<lambda>e. case e of EvNodeStarted _ i \<Rightarrow> [i] | _ \<Rightarrow> []) evs)"

lemma some_Suc: "(\<exists>d. x = Some (Suc d)) \<longleftrightarrow> (case x of None \<Rightarrow> False | Some n \<Rightarrow> n \<noteq> 0)"
  by (cases x) (auto simp: gr0_conv_Suc)

lemmas detect_cycle_code [code] = detect_cycle_def [unfolded some_Suc]

lemma w_order: "topological_sort rev sample_dag = Some [''s'', ''t'', ''k'']"
  by (simp add: sample_dag_def dag_eval topological_sort_def)

lemma w_prep: "prepare_run (E :: (unit, 's, unit) exec_env) opts sample_dag s = Some (Ok ((), no_plans))"
  by (simp add: prepare_run_def sample_dag_def sample_defs build_plans_def incremental_policy_def)

lemmas run_eval = step_node_def run_node_def run_source_def run_transform_def run_sink_def prepare_config_def execute_source_def
  read_filter_def gather_upstream.simps hash_values_def run_sql_node_def execute_sql_transform_def execute_sink_def
  sink_schema_check_def finish_ok_def add_stats_def record_lineage_def record_boundary_def persist_if_def add_test_def
  boundary_info_def node_of_def upstream_of_def resolve_code_def no_plans_def

lemmas w_eval = w_with_def w_options_def w_resolver_def resolve_json_secrets_collecting_def sample_dag_def sample_defs sample_host_def w_rows_def

text \<open>The context of a run of the small pipeline under some options.\<close>

definition w_ctx :: "(unit, run_db, unit) exec_env \<Rightarrow> options \<Rightarrow> (unit, run_db, unit) run_ctx" where
  "w_ctx E opts = \<lparr>rx_env = E, rx_opts = opts, rx_pipeline = sample_dag, rx_udfs = (), rx_plans = no_plans,
     rx_vars = resolve sample_dag (eo_overrides opts) \<lparr>bc_run_date = xe_run_date E, bc_run_id = ''r1'',
       bc_pipeline_name = p_name sample_dag, bc_environment = eo_environment opts\<rparr>, rx_id = ''r1''\<rparr>"

lemma step_node_succeeds:
  assumes "\<And>w. \<exists>info test w2. run_node X (pg_outputs pg) n w = Some (Done (Ok bs) info test, w2)"
  shows "\<exists>pg1 w1. step_node X rs n pg w = Some (Ok pg1, w1) \<and> pg_outputs pg1 = (pg_outputs pg)(n_id n \<mapsto> bs)"
  using assms [of "tick (tick (emit (EvNodeStarted (rx_id X) (n_id n)) w))"]
  by (force simp: step_node_def Let_def finish_ok_def add_stats_def)

lemma w_source: "\<exists>info test w2. run_node (w_ctx (w_with f) w_options) outs (source_node ''s'') w = Some (Done (Ok w_rows) info test, w2)"
  by (simp add: run_node_def run_source_def prepare_config_def execute_source_def read_filter_def w_ctx_def no_plans_def w_eval)

lemma w_transform: "outs ''s'' = Some w_rows \<Longrightarrow>
   \<exists>info test w2. run_node (w_ctx (w_with f) w_options) outs (transform_node ''t'' ''select 1'') w = Some (Done (Ok w_rows) info test, w2)"
  by (simp add: run_node_def run_transform_def resolve_code_def upstream_of_def hash_values_def run_sql_node_def
      execute_sql_transform_def persist_if_def w_ctx_def w_eval Let_def)

lemma w_sink: "outs ''t'' = Some w_rows \<Longrightarrow> \<exists>info test w2. run_node (w_ctx (w_with f) w_options) outs (sink_node ''k'') w =
   Some (Done (case f \<lparr>snk_connector = ''stdout'', snk_config = JNull, snk_materialization = None\<rparr> of Inl e \<Rightarrow> Err (NeSink e)
     | Inr _ \<Rightarrow> Ok w_rows) info test, w2)"
  by (simp add: run_node_def run_sink_def prepare_config_def upstream_of_def hash_values_def execute_sink_def
      sink_schema_check_def boundary_info_def no_plans_def w_ctx_def w_eval Let_def split: sum.split)

lemma run_nodes_next:
  assumes "node_of (rx_pipeline X) i = Some n" "n_id n = i" "\<And>k. \<not> xe_cancel (rx_env X) k"
    "\<And>w. \<exists>info test w2. run_node X (pg_outputs pg) n w = Some (Done (Ok bs) info test, w2)"
  shows "\<exists>pg1 w1. pg_outputs pg1 = (pg_outputs pg)(i \<mapsto> bs) \<and> run_nodes X rs (i # is) pg w = run_nodes X rs is pg1 w1"
proof -
  obtain pg1 w1 where step: "step_node X rs n pg (tick w) = Some (Ok pg1, w1)" "pg_outputs pg1 = (pg_outputs pg)(i \<mapsto> bs)"
    using step_node_succeeds [OF assms(4), of rs "tick w"] assms(2) by auto
  then show ?thesis using assms(1,3) by (auto simp: run_nodes.simps)
qed

lemma w_lookup:
  "node_of (rx_pipeline (w_ctx E opts)) ''s'' = Some (source_node ''s'')"
  "node_of (rx_pipeline (w_ctx E opts)) ''t'' = Some (transform_node ''t'' ''select 1'')"
  "node_of (rx_pipeline (w_ctx E opts)) ''k'' = Some (sink_node ''k'')"
  "n_id (source_node i) = i" "n_id (transform_node i q) = i" "n_id (sink_node i) = i" "\<not> xe_cancel (rx_env (w_ctx (w_with f) opts)) c"
  "\<not> xe_cancel (rx_env (w_ctx w_env opts)) c"
  by (simp_all add: w_ctx_def node_of_def w_eval w_env_def)

text \<open>The run reaches the sink with the rows of the transform.\<close>

lemma w_upto_sink:
  assumes "pg_outputs pg = Map.empty"
  shows "\<exists>pg2 w2. pg_outputs pg2 ''t'' = Some w_rows \<and>
    run_nodes (w_ctx (w_with f) w_options) rs [''s'', ''t'', ''k''] pg w = run_nodes (w_ctx (w_with f) w_options) rs [''k''] pg2 w2"
proof -
  let ?X = "w_ctx (w_with f) w_options"
  obtain pg1 w1 where one: "pg_outputs pg1 = (pg_outputs pg)(''s'' \<mapsto> w_rows)"
      "run_nodes ?X rs [''s'', ''t'', ''k''] pg w = run_nodes ?X rs [''t'', ''k''] pg1 w1"
    using run_nodes_next [of ?X "''s''" "source_node ''s''" pg w_rows] w_lookup w_source by metis
  have "\<exists>info test w2. run_node ?X (pg_outputs pg1) (transform_node ''t'' ''select 1'') w = Some (Done (Ok w_rows) info test, w2)" for w
    by (rule w_transform) (simp add: one(1))
  then obtain pg2 w2 where "pg_outputs pg2 = (pg_outputs pg1)(''t'' \<mapsto> w_rows)"
      "run_nodes ?X rs [''t'', ''k''] pg1 w1 = run_nodes ?X rs [''k''] pg2 w2"
    using run_nodes_next [of ?X "''t''" "transform_node ''t'' ''select 1''" pg1 w_rows] w_lookup by metis
  then show ?thesis using one(2) by (intro exI [of _ pg2] exI [of _ w2]) simp
qed

lemma w_nodes:
  assumes "pg_outputs pg = Map.empty"
  shows "\<exists>pg2 w2. run_nodes (w_ctx w_env w_options) rs [''s'', ''t'', ''k''] pg w = Some (Ok pg2, w2)"
proof -
  obtain pg2 w2 where two: "pg_outputs pg2 ''t'' = Some w_rows"
      "run_nodes (w_ctx w_env w_options) rs [''s'', ''t'', ''k''] pg w = run_nodes (w_ctx w_env w_options) rs [''k''] pg2 w2"
    using w_upto_sink [OF assms, of "\<lambda>_. Ok w_receipt" rs w] by (auto simp: w_env_def)
  have "\<exists>info test w2. run_node (w_ctx w_env w_options) (pg_outputs pg2) (sink_node ''k'') w = Some (Done (Ok w_rows) info test, w2)" for w
    using w_sink [of "pg_outputs pg2" "\<lambda>_. Ok w_receipt" w] two(1) by (simp add: w_env_def)
  then obtain pg3 w3 where "run_nodes (w_ctx w_env w_options) rs [''k''] pg2 w2 = run_nodes (w_ctx w_env w_options) rs [] pg3 w3"
    using run_nodes_next [of "w_ctx w_env w_options" "''k''" "sink_node ''k''" pg2 w_rows] w_lookup unfolding w_env_def by metis
  then show ?thesis using two(2) by simp
qed

definition w_created :: "run_db" where
  "w_created = snd (create_run ''r1'' ''orders'' ''dev'' run_init_schema)"

lemma w_execute:
  assumes "h_order (xe_host E) = rev" "xe_storage E = sqlite_store" "xe_uuid E = ''r1''"
    "prepare_run E opts sample_dag run_init_schema = Some (Ok ((), no_plans))" "eo_run_store opts" "eo_environment opts = ''dev''"
  shows "execute E opts sample_dag w_world = run_order (w_ctx E opts) [''s'', ''t'', ''k'']
    (new_run ''r1'' ''orders'' ''dev'') (w_world\<lparr>wo_store := w_created\<rparr>)"
proof -
  have env: "so_create_run sqlite_store = create_run"
      "p_name sample_dag = ''orders''" "pr_id (new_run ''r1'' nm env) = ''r1''" "wo_store w_world = run_init_schema" for nm env
    by (simp_all add: sqlite_store_def sample_dag_def plain_pipeline_def new_run_def w_world_def)
  have "create_run ''r1'' ''orders'' ''dev'' run_init_schema = (Ok (new_run ''r1'' ''orders'' ''dev''), w_created)"
    by (simp add: create_run_def run_ids_def run_init_schema_def w_created_def)
  then show ?thesis using assms by (simp add: execute_def sample_dag_validate w_order w_ctx_def env)
qed

lemma w_host: "h_order (xe_host w_env) = rev" "xe_storage w_env = sqlite_store" "xe_uuid w_env = ''r1''"
  by (simp_all add: w_env_def w_with_def sample_host_def)

lemma run_order_succeeds:
  assumes "\<And>rs pg w. pg_outputs pg = Map.empty \<Longrightarrow> \<exists>pg2 w2. run_nodes X rs order pg w = Some (Ok pg2, w2)"
  shows "\<exists>res run w'. run_order X order run0 w = Some (Ok (res, run), w')"
proof -
  let ?w = "emit (EvRunStarted (rx_id X) (p_name (rx_pipeline X))) (ignoring (eo_run_store (rx_opts X))
    (so_set_running (xe_storage (rx_env X)) (rx_id X) (xe_wall (rx_env X) (wo_tick w)) (eo_triggered_by (rx_opts X))) (tick (tick w)))"
  let ?run = "run0\<lparr>pr_status := RsRunning, pr_start_time := Some (xe_wall (rx_env X) (wo_tick w)),
    pr_triggered_by := eo_triggered_by (rx_opts X)\<rparr>"
  obtain pg2 w2 where nodes: "run_nodes X (xe_instant (rx_env X) (Suc (wo_tick w))) order
      \<lparr>pg_run = ?run, pg_outputs = Map.empty, pg_stats = [], pg_tests = []\<rparr> ?w = Some (Ok pg2, w2)"
    using assms [of "\<lparr>pg_run = ?run, pg_outputs = Map.empty, pg_stats = [], pg_tests = []\<rparr>"
      "xe_instant (rx_env X) (Suc (wo_tick w))" ?w] by (simp del: fun_upd_apply) blast
  obtain pg3 w3 where "close_run X RsSuccess None (xe_wall (rx_env X) (Suc (wo_tick w2))) pg2 (tick (tick w2)) = (pg3, w3)"
    by (metis surj_pair)
  then show ?thesis by (simp add: run_order_def Let_def nodes)
qed

lemma w_run: "\<exists>res run w'. execute w_env w_options sample_dag w_world = Some (Ok (res, run), w')"
  using run_order_succeeds [of "w_ctx w_env w_options", OF w_nodes] w_execute [OF w_host w_prep] by (simp add: w_options_def)

section \<open>A successful run\<close>

lemma run_order_Ok:
  assumes "run_order X order run0 w = Some (Ok (res, run), w')"
  shows "map nst_node_id (res_stats res) = order \<and> dom (res_outputs res) = set order \<and> pr_status run = RsSuccess \<and>
    map nr_node_id (pr_node_stats run) = map nr_node_id (pr_node_stats run0) @ order"
proof -
  let ?w = "emit (EvRunStarted (rx_id X) (p_name (rx_pipeline X))) (ignoring (eo_run_store (rx_opts X))
    (so_set_running (xe_storage (rx_env X)) (rx_id X) (xe_wall (rx_env X) (wo_tick w)) (eo_triggered_by (rx_opts X))) (tick (tick w)))"
  let ?pg = "\<lparr>pg_run = run0\<lparr>pr_status := RsRunning, pr_start_time := Some (xe_wall (rx_env X) (wo_tick w)),
    pr_triggered_by := eo_triggered_by (rx_opts X)\<rparr>, pg_outputs = Map.empty, pg_stats = [], pg_tests = []\<rparr>"
  obtain pg w3 where nodes: "run_nodes X (xe_instant (rx_env X) (Suc (wo_tick w))) order ?pg ?w = Some (Ok pg, w3)"
    using assms unfolding run_order_def Let_def by (simp split: option.splits prod.splits sum.splits)
  obtain pg1 w4 where cl: "close_run X RsSuccess None (xe_wall (rx_env X) (Suc (wo_tick w3))) pg (tick (tick w3)) = (pg1, w4)"
    by (metis surj_pair)
  then have "pg_stats pg1 = pg_stats pg" "pg_outputs pg1 = pg_outputs pg" "pr_status (pg_run pg1) = RsSuccess"
      "pr_node_stats (pg_run pg1) = pr_node_stats (pg_run pg)"
    by (auto simp: close_run_def Let_def)
  moreover have "res_stats res = pg_stats pg1 \<and> res_outputs res = pg_outputs pg1 \<and> run = pg_run pg1"
    using assms nodes cl by (auto simp: run_order_def Let_def)
  ultimately show ?thesis using run_nodes_Ok [OF nodes] by simp
qed

text \<open>
  C3: a run that succeeds has run every node of the pipeline once, each after all the nodes it reads
  from; its result has the statistics of the nodes in the order they ran and an output for each.
\<close>

theorem execute_success:
  assumes "execute E opts p w = Some (Ok (res, run), w')" "hash_order (h_order (xe_host E))"
  shows "mset (map nst_node_id (res_stats res)) = mset (node_ids p) \<and> dom (res_outputs res) = set (node_ids p) \<and>
    (\<forall>e \<in> set (p_edges p). \<exists>xs ys zs. map nst_node_id (res_stats res) = xs @ e_from e # ys @ e_to e # zs) \<and>
    pr_status run = RsSuccess"
  using assms
proof (cases rule: execute_Some)
  case (started order udfs plans run0 s)
  from run_order_Ok [OF started(7)] started(3,4) show ?thesis by (metis mset_eq_setD set_mset_mset)
qed simp_all

theorem execute_success_witness:
  "\<exists>res run w'. execute w_env w_options sample_dag w_world = Some (Ok (res, run), w') \<and>
     mset (map nst_node_id (res_stats res)) = {#''s'', ''t'', ''k''#}"
proof -
  obtain res run w' where ok: "execute w_env w_options sample_dag w_world = Some (Ok (res, run), w')" using w_run by blast
  moreover have "hash_order (h_order (xe_host w_env))" by (simp add: w_env_def w_with_def sample_host_def)
  ultimately show ?thesis using execute_success [OF ok] by (auto simp: sample_dag_def sample_defs)
qed

section \<open>The record in the store\<close>

text \<open>The variables of a run whose record has the next id.\<close>

definition run_vars :: "('c, 's, 'u) exec_env \<Rightarrow> options \<Rightarrow> pipeline \<Rightarrow> resolved_variables" where
  "run_vars E opts p = resolve p (eo_overrides opts) \<lparr>bc_run_date = xe_run_date E, bc_run_id = xe_uuid E,
     bc_pipeline_name = p_name p, bc_environment = eo_environment opts\<rparr>"

lemma execute_stored:
  assumes "execute E opts p w = Some (res, w')" "hash_order (h_order (xe_host E))" "xe_storage E = sqlite_store"
    "eo_run_store opts" "\<And>k. time_ok (xe_wall E k)" "run_db_ok (wo_store w)"
    "get_run (wo_store w) (xe_uuid E) = Ok None"
  obtains (before) e where "res = Err e" "w' = w"
  | (closed) e msg where "res = Err e" "closed_record (get_run (wo_store w')) (xe_uuid E) (error_status e) msg"
  | (refused) e n kind where "res = Err e" "n \<in> set (p_nodes p)" "e = ExNode (n_id n) kind"
      "refused E opts p (run_vars E opts p) n kind" "left_running (get_run (wo_store w')) (xe_uuid E)"
  | (success) res' run r where "res = Ok (res', run)" "get_run (wo_store w') (xe_uuid E) = Ok (Some r)" "pr_status r = RsSuccess"
      "pr_error r = None" "pr_end_time r \<noteq> None" "stats_match stored_time r run"
proof -
  obtain s1 where create: "so_create_run (xe_storage E) (xe_uuid E) (p_name p) (eo_environment opts) (wo_store w) =
      (Ok (new_run (xe_uuid E) (p_name p) (eo_environment opts)), s1)" "run_db_ok s1"
      "get_run s1 (xe_uuid E) = Ok (Some (new_run (xe_uuid E) (p_name p) (eo_environment opts)))"
    using sql.create [OF assms(6,7)] assms(3) by auto
  from assms(1,2) show ?thesis
  proof (cases rule: execute_Some)
    case (early e)
    then show ?thesis using before by blast
  next
    case (store e s)
    then show ?thesis using create(1) by simp
  next
    case (started order udfs plans run s)
    let ?X = "\<lparr>rx_env = E, rx_opts = opts, rx_pipeline = p, rx_udfs = udfs, rx_plans = plans,
         rx_vars = resolve p (eo_overrides opts) \<lparr>bc_run_date = xe_run_date E, bc_run_id = pr_id run,
           bc_pipeline_name = p_name p, bc_environment = eo_environment opts\<rparr>, rx_id = pr_id run\<rparr>"
    have run: "run = new_run (xe_uuid E) (p_name p) (eo_environment opts)" "s = s1" using started(6) create(1) assms(4) by simp_all
    then have id: "pr_id run = xe_uuid E" by (simp add: new_run_def)
    have dist: "distinct order"
      using started(1) mset_eq_imp_distinct_iff [OF started(3)] by (simp add: valid_dag_def well_shaped_def)
    show ?thesis
    proof (cases res)
      case (Inl e)
      then show ?thesis
        using sql.run_order_stored [OF started(7), of "xe_uuid E" "p_name p" "eo_environment opts"] assms(3-5) create run id dist closed refused
        by (fastforce simp: run_vars_def)
    next
      case (Inr q)
      then show ?thesis
        using sql.run_order_stored [OF started(7), of "xe_uuid E" "p_name p" "eo_environment opts"] assms(3-5) create run id dist success
        by (cases q) auto
    qed
  qed
qed

text \<open>
  C4: with a SQLite run store that holds no record of the run yet and times it can represent, a run that
  succeeds leaves a closed record of status success whose statistics by node are those of the run the
  executor returns, their times cut to milliseconds; secrets are resolved by any resolver.
\<close>

theorem run_record_matches:
  assumes "execute E opts p w = Some (Ok (res, run), w')" "hash_order (h_order (xe_host E))" "xe_storage E = sqlite_store"
    "eo_run_store opts" "\<And>k. time_ok (xe_wall E k)" "run_db_ok (wo_store w)"
    "get_run (wo_store w) (xe_uuid E) = Ok None"
  shows "\<exists>r. get_run (wo_store w') (xe_uuid E) = Ok (Some r) \<and> pr_status r = RsSuccess \<and> pr_error r = None \<and>
    pr_end_time r \<noteq> None \<and> node_view (pr_node_stats r) = map_option (timed stored_time) \<circ> node_view (pr_node_stats run)"
  using execute_stored [OF assms] by cases (auto simp: stats_match_def)

lemma w_start:
  "hash_order rev" "eo_run_store w_options" "time_ok (xe_wall w_env k)" "run_db_ok (wo_store w_world)"
  "get_run (wo_store w_world) i = Ok None"
  by (simp_all add: w_options_def w_world_def w_env_def w_with_def time_ok_def run_init_schema_def run_db_ok_def runs_ok_def
      records_ok_def run_ids_def get_run_def)

theorem run_record_matches_witness:
  "\<exists>res run w' r. execute w_env w_options sample_dag w_world = Some (Ok (res, run), w') \<and>
     get_run (wo_store w') ''r1'' = Ok (Some r) \<and> pr_status r = RsSuccess"
proof -
  obtain res run w' where ok: "execute w_env w_options sample_dag w_world = Some (Ok (res, run), w')" using w_run by blast
  have "\<exists>r. get_run (wo_store w') (xe_uuid w_env) = Ok (Some r) \<and> pr_status r = RsSuccess \<and> pr_error r = None \<and>
      pr_end_time r \<noteq> None \<and> node_view (pr_node_stats r) = map_option (timed stored_time) \<circ> node_view (pr_node_stats run)"
    by (rule run_record_matches [OF ok]) (simp_all add: w_host w_start)
  then show ?thesis using ok by (auto simp: w_host)
qed



section \<open>Incremental states\<close>

lemma execute_moves:
  assumes "execute E opts p w = Some (r, w')" "hash_order (h_order (xe_host E))" "xe_storage E = sqlite_store" "run_db_ok (wo_store w)"
  shows "states_behind_writes E (p_name p) (eo_environment opts) w w'"
  using assms(1,2)
proof (cases rule: execute_Some)
  case (early e)
  then show ?thesis by (simp add: states_behind_same calls_extend_same)
next
  case (store e s)
  then show ?thesis
    using sqls.state_ops(1) [OF assms(4), of "xe_uuid E" "p_name p" "eo_environment opts"] assms(3)
    by (intro states_behind_same) (simp_all add: calls_extend_same)
next
  case (started order udfs plans run s)
  have s: "run_db_ok s \<and> so_load_state sqlite_store s = so_load_state sqlite_store (wo_store w)"
    using sqls.state_ops(1) [OF assms(4), of "xe_uuid E" "p_name p" "eo_environment opts"] started(6) assms(3,4)
    by (auto split: if_splits)
  then have "states_behind_writes E (p_name p) (eo_environment opts) w (w\<lparr>wo_store := s\<rparr>)"
    using assms(3) by (intro states_behind_same) (simp_all add: calls_extend_same)
  moreover have "states_behind_writes E (p_name p) (eo_environment opts) (w\<lparr>wo_store := s\<rparr>) w'"
    using sqls.run_order_moves [OF started(7)] s assms(3) by simp
  ultimately show ?thesis by (rule states_behind_trans)
qed

text \<open>
  C6: a run on a SQLite store moves an incremental state only behind a write: the state of a pipeline,
  node and environment is the one before the run unless they are the run's own and the connector of
  the sink has written during the run without an error.
\<close>

theorem state_kept_without_write:
  assumes "execute E opts p w = Some (r, w')" "hash_order (h_order (xe_host E))" "xe_storage E = sqlite_store" "run_db_ok (wo_store w)"
    "pid \<noteq> p_name p \<or> env \<noteq> eo_environment opts \<or> \<not> wrote_between E w w' i"
  shows "load_state (wo_store w') pid i env = load_state (wo_store w) pid i env"
  using execute_moves [OF assms(1-4)] assms(3,5) by (auto simp: states_behind_writes_def sqlite_store_def)

theorem state_kept_without_write_witness:
  "\<exists>r w'. execute (w_with (\<lambda>_. Err ''disk full'')) w_options sample_dag w_world = Some (r, w') \<and>
     load_state (wo_store w') ''orders'' ''k'' ''dev'' = load_state (wo_store w_world) ''orders'' ''k'' ''dev''"
proof -
  let ?E = "w_with (\<lambda>_. Err ''disk full'')"
  have host: "h_order (xe_host ?E) = rev" "xe_storage ?E = sqlite_store" "xe_uuid ?E = ''r1''"
    by (simp_all add: w_with_def sample_host_def)
  have "run_nodes (w_ctx ?E w_options) rs [''s'', ''t'', ''k''] pg w \<noteq> None" if empty: "pg_outputs pg = Map.empty" for rs pg w
  proof -
    obtain pg2 w2 where two: "pg_outputs pg2 ''t'' = Some w_rows"
        "run_nodes (w_ctx ?E w_options) rs [''s'', ''t'', ''k''] pg w = run_nodes (w_ctx ?E w_options) rs [''k''] pg2 w2"
      using w_upto_sink [OF empty] by blast
    from w_sink [of "pg_outputs pg2", OF two(1), of "\<lambda>_. Err ''disk full''" "tick (tick (emit (EvNodeStarted ''r1'' ''k'') (tick w2)))"]
    have "step_node (w_ctx ?E w_options) rs (sink_node ''k'') pg2 (tick w2) \<noteq> None"
      by (auto simp: step_node_def Let_def w_lookup) (simp add: w_ctx_def)
    then show ?thesis unfolding two(2) by (auto simp: run_nodes.simps w_lookup split: option.split sum.split)
  qed
  then have "run_order (w_ctx ?E w_options) [''s'', ''t'', ''k''] run w \<noteq> None" for run w
    by (auto simp: run_order_def Let_def split: option.split sum.split prod.split)
  then obtain r w' where run: "execute ?E w_options sample_dag w_world = Some (r, w')"
    using w_execute [OF host w_prep] by (fastforce simp: w_options_def)
  have "load_state (wo_store w') ''orders'' ''k'' ''dev'' = load_state (wo_store w_world) ''orders'' ''k'' ''dev''"
    by (rule state_kept_without_write [OF run]) (use w_start in \<open>simp_all add: wrote_between_def w_with_def sample_host_def\<close>)
  then show ?thesis using run by blast
qed

section \<open>Where the code falls short\<close>

text \<open>
  An error of the resolver returns at once: the record stays running, no event says that the run ended.
\<close>

lemma secret_error_leaves_running:
  "\<exists>w'. execute w_env (w_options\<lparr>eo_secret_resolver := Some (\<lambda>_ _. Err ''no secret'')\<rparr>) sample_dag w_world =
       Some (Err (ExNode ''s'' (NeSource ''no secret'')), w') \<and>
     map rr_status (rd_runs (wo_store w')) = [''running''] \<and>
     wo_events w' = [EvRunStarted ''r1'' ''orders'', EvNodeStarted ''r1'' ''s'']"
proof -
  let ?opts = "w_options\<lparr>eo_secret_resolver := Some (\<lambda>_ _. Err ''no secret'')\<rparr>"
  have early: "run_node (w_ctx w_env ?opts) outs (source_node ''s'') w = Some (Early (NeSource ''no secret''), w)" for outs w
    by (simp add: run_node_def run_source_def prepare_config_def w_ctx_def source_node_def plain_node_def)
  have step: "step_node (w_ctx w_env ?opts) rs (source_node ''s'') pg w =
      Some (Err (ExNode ''s'' (NeSource ''no secret'')), tick (tick (emit (EvNodeStarted ''r1'' ''s'') w)))" for rs pg w
    using early by (simp add: step_node_def Let_def w_lookup) (simp add: w_ctx_def)
  have nodes: "run_nodes (w_ctx w_env ?opts) rs [''s'', ''t'', ''k''] pg w =
      Some (Err (ExNode ''s'' (NeSource ''no secret'')), tick (tick (emit (EvNodeStarted ''r1'' ''s'') (tick w))))" for rs pg w
    by (simp add: run_nodes.simps w_lookup step)
  have "execute w_env ?opts sample_dag w_world = run_order (w_ctx w_env ?opts) [''s'', ''t'', ''k'']
      (new_run ''r1'' ''orders'' ''dev'') (w_world\<lparr>wo_store := w_created\<rparr>)"
    by (rule w_execute [OF w_host w_prep]) (simp_all add: w_options_def)
  then show ?thesis
    by (simp add: run_order_def Let_def nodes)
      (simp add: w_ctx_def w_host w_options_def w_world_def ignoring_def sqlite_store_def set_running_def update_run_def
        w_created_def create_run_def run_ids_def run_init_schema_def sample_dag_def plain_pipeline_def emit_def tick_def)
qed

end
