(* ===== verification/Preview.thy ===== *)
theory Preview
  imports Output_Cache Run_Claims
begin

text \<open>
  \<open>preview.rs\<close>: a preview reads the cached outputs of a pipeline in its order, samples them, and may
  execute one node again on the cached outputs above it.  Durations are left out.
\<close>

section \<open>Sampling\<close>

definition take_first_n :: "(nat \<Rightarrow> nat \<Rightarrow> 'c \<Rightarrow> 'c) \<Rightarrow> 'c batch list \<Rightarrow> nat \<Rightarrow> 'c batch list" where
  "take_first_n sl bs limit = cap_loop sl limit bs"

definition xorshift64 :: "u64 \<Rightarrow> u64" where
  "xorshift64 s0 = (let s1 = xor s0 (push_bit 13 s0); s2 = xor s1 (drop_bit 7 s1) in xor s2 (push_bit 17 s2))"

definition swap_at :: "nat \<Rightarrow> nat \<Rightarrow> 'a list \<Rightarrow> 'a list" where
  "swap_at i j xs = xs[i := xs ! j, j := xs ! i]"

text \<open>The index runs down from the last to 1.\<close>

fun shuffle_loop :: "nat \<Rightarrow> u64 \<Rightarrow> nat list \<Rightarrow> nat list" where
  "shuffle_loop 0 rng xs = xs"
| "shuffle_loop (Suc i) rng xs = (let rng' = xorshift64 rng in shuffle_loop i rng' (swap_at (Suc i) (unat rng' mod (Suc i + 1)) xs))"

text \<open>Runs of consecutive indices, each with its first and last one.\<close>

fun contiguous :: "nat \<Rightarrow> nat \<Rightarrow> nat list \<Rightarrow> (nat \<times> nat) list" where
  "contiguous start stop [] = [(start, stop)]"
| "contiguous start stop (i # is) =
     (if i = stop + 1 then contiguous start i is else (start, stop) # contiguous i i is)"

definition sample_indices :: "nat \<Rightarrow> nat \<Rightarrow> u64 \<Rightarrow> nat list" where
  "sample_indices rows limit seed = sort (take limit (shuffle_loop (rows - 1) seed [0..<rows]))"

text \<open>
  \<open>None\<close> is a panic: batches that cannot be concatenated, or the first of no indices.
\<close>

definition take_random ::
  "(nat \<Rightarrow> nat \<Rightarrow> 'c \<Rightarrow> 'c) \<Rightarrow> (schema \<Rightarrow> 'c batch list \<Rightarrow> 'c batch option) \<Rightarrow> 'c batch list \<Rightarrow> nat \<Rightarrow> u64 \<Rightarrow> 'c batch list option" where
  "take_random sl cat bs limit seed = (case bs of
      [] \<Rightarrow> Some []
    | b # _ \<Rightarrow>
        let n = sum_list (map rb_num_rows bs)
        in if n \<le> limit then Some bs
           else (case cat (batch_schema b) bs of
               None \<Rightarrow> None
             | Some c \<Rightarrow> (case sample_indices n limit seed of
                   [] \<Rightarrow> None
                 | i # is \<Rightarrow> Some (map (\<lambda>(s, e). batch_slice sl s (e - s + 1) c) (contiguous i i is)))))"

fun sample_batches ::
  "(nat \<Rightarrow> nat \<Rightarrow> 'c \<Rightarrow> 'c) \<Rightarrow> (schema \<Rightarrow> 'c batch list \<Rightarrow> 'c batch option) \<Rightarrow> 'c batch list \<Rightarrow> sample_config \<Rightarrow> 'c batch list option" where
  "sample_batches sl cat bs FullData = Some bs"
| "sample_batches sl cat bs (FirstN n) = Some (take_first_n sl bs n)"
| "sample_batches sl cat bs (Random n seed) = take_random sl cat bs n seed"


section \<open>The preview\<close>
















section \<open>Samples\<close>

text \<open>What Arrow's slices and concatenations mean for the rows of a batch.\<close>

definition rows_ok :: "('c batch \<Rightarrow> 'r list) \<Rightarrow> (nat \<Rightarrow> nat \<Rightarrow> 'c \<Rightarrow> 'c) \<Rightarrow> (schema \<Rightarrow> 'c batch list \<Rightarrow> 'c batch option) \<Rightarrow> bool" where
  "rows_ok rw sl cat \<longleftrightarrow> (\<forall>b. length (rw b) = rb_num_rows b) \<and>
     (\<forall>off n b. off + n \<le> rb_num_rows b \<longrightarrow> rw (batch_slice sl off n b) = take n (drop off (rw b))) \<and>
     (\<forall>sch bs c. cat sch bs = Some c \<longrightarrow> rw c = concat (map rw bs))"

lemma rows_okD:
  assumes "rows_ok rw sl cat"
  shows "length (rw b) = rb_num_rows b" "off + n \<le> rb_num_rows b \<Longrightarrow> rw (batch_slice sl off n b) = take n (drop off (rw b))"
    "cat sch bs = Some c \<Longrightarrow> rw c = concat (map rw bs)"
  using assms by (simp_all add: rows_ok_def)

definition batch_rows :: "('c batch \<Rightarrow> 'r list) \<Rightarrow> 'c batch list \<Rightarrow> 'r list" where
  "batch_rows rw bs = concat (map rw bs)"

lemma rows_cap_loop: "rows_ok rw sl cat \<Longrightarrow> batch_rows rw (cap_loop sl n bs) = take n (batch_rows rw bs)"
proof (induction sl n bs rule: cap_loop.induct)
  case (2 sl n b bs)
  note rows = rows_okD [OF 2(3)]
  show ?case using 2(1,2) [OF _ _ 2(3)] rows(1) [of b] rows(2) [of 0 n b] by (auto simp: batch_rows_def)
qed (simp add: batch_rows_def)

lemma length_batch_rows: "rows_ok rw sl cat \<Longrightarrow> length (batch_rows rw bs) = sum_list (map rb_num_rows bs)"
  by (induction bs) (simp_all add: batch_rows_def rows_okD)

lemma mset_shuffle: "i < length xs \<Longrightarrow> mset (shuffle_loop i rng xs) = mset xs"
proof (induction i rng xs rule: shuffle_loop.induct)
  case (2 i rng xs)
  let ?j = "unat (xorshift64 rng) mod (Suc i + 1)"
  have "?j < Suc i + 1" by (rule mod_less_divisor) simp
  then have j: "?j < length xs" using 2(2) by linarith
  have "mset (swap_at (Suc i) ?j xs) = mset xs" unfolding swap_at_def by (rule mset_swap [OF j 2(2)])
  moreover have "mset (shuffle_loop i (xorshift64 rng) (swap_at (Suc i) ?j xs)) = mset (swap_at (Suc i) ?j xs)"
    by (rule 2(1) [OF refl]) (use 2(2) in \<open>simp add: swap_at_def\<close>)
  ultimately show ?case by (simp add: Let_def)
qed simp

text \<open>The indices are different rows, in order.\<close>

lemma sample_indices_spec:
  assumes "limit < n"
  shows "sorted_wrt (<) (sample_indices n limit seed)" "set (sample_indices n limit seed) \<subseteq> {..<n}"
    "length (sample_indices n limit seed) = limit"
proof -
  let ?xs = "shuffle_loop (n - 1) seed [0..<n]"
  have m: "mset ?xs = mset [0..<n]" by (rule mset_shuffle) (use assms in simp)
  then have "distinct ?xs" by (metis distinct_upt mset_eq_imp_distinct_iff)
  then show "sorted_wrt (<) (sample_indices n limit seed)"
    by (simp add: sample_indices_def strict_sorted_iff distinct_take)
  have "set ?xs = {..<n}" unfolding mset_eq_setD [OF m] by auto
  then have "set (take limit ?xs) \<subseteq> {..<n}" using set_take_subset [of limit ?xs] by simp
  then show "set (sample_indices n limit seed) \<subseteq> {..<n}" unfolding sample_indices_def set_sort .
  have "length ?xs = n" using mset_eq_length [OF m] by simp
  then show "length (sample_indices n limit seed) = limit" using assms by (simp add: sample_indices_def)
qed

lemma contiguous_cover:
  assumes "s \<le> e" "sorted_wrt (<) (e # is)"
  shows "concat (map (\<lambda>(s, e). [s..<Suc e]) (contiguous s e is)) = [s..<Suc e] @ is"
  using assms
proof (induction s e "is" rule: contiguous.induct)
  case (2 s e i "is")
  then show ?case
  proof (cases "i = e + 1")
    case True
    then have "concat (map (\<lambda>(s, e). [s..<Suc e]) (contiguous s i is)) = [s..<Suc i] @ is"
      using 2 by simp
    then show ?thesis using True 2(3) by simp
  next
    case False
    then have "concat (map (\<lambda>(s, e). [s..<Suc e]) (contiguous i i is)) = [i..<Suc i] @ is" using 2 by simp
    then show ?thesis using False by simp
  qed
qed simp

lemma contiguous_bounds:
  assumes "s \<le> e" "sorted_wrt (<) (e # is)" "(a, b) \<in> set (contiguous s e is)"
  shows "a \<le> b \<and> b \<in> set (e # is)"
  using assms by (induction s e "is" rule: contiguous.induct) (auto split: if_splits)

lemma take_drop_upt: "a \<le> b \<Longrightarrow> b < length xs \<Longrightarrow> take (b - a + 1) (drop a xs) = map ((!) xs) [a..<Suc b]"
  by (rule nth_equalityI) (auto simp del: upt_Suc)

text \<open>The rows at increasing positions \<open>idx\<close>, as many as asked for.\<close>

definition sample_size :: "sample_config \<Rightarrow> nat \<Rightarrow> nat" where
  "sample_size cfg n = (case cfg of FullData \<Rightarrow> n | FirstN k \<Rightarrow> min k n | Random k _ \<Rightarrow> min k n)"

definition picks :: "'r list \<Rightarrow> 'r list \<Rightarrow> nat \<Rightarrow> bool" where
  "picks xs out n \<longleftrightarrow> (\<exists>idx. sorted_wrt (<) idx \<and> set idx \<subseteq> {..<length xs} \<and> length idx = n \<and> out = map ((!) xs) idx)"

lemma picks_take: "n \<le> length xs \<Longrightarrow> picks xs (take n xs) n"
  unfolding picks_def by (rule exI [of _ "[0..<n]"]) (auto simp: take_map [symmetric] intro: nth_equalityI)

lemma rows_take_random:
  assumes "rows_ok rw sl cat" "take_random sl cat bs limit seed = Some out"
  shows "picks (batch_rows rw bs) (batch_rows rw out) (min limit (length (batch_rows rw bs)))"
proof -
  let ?n = "sum_list (map rb_num_rows bs)" and ?R = "batch_rows rw bs"
  note n = length_batch_rows [OF assms(1), of bs]
  show ?thesis
  proof (cases "bs = [] \<or> ?n \<le> limit")
    case True
    then have "out = bs" using assms(2) by (auto simp: take_random_def split: list.splits)
    then show ?thesis using True n picks_take [of "min limit (length ?R)" ?R] by (auto simp: batch_rows_def)
  next
    case False
    then obtain c i "is" where c: "cat (batch_schema (hd bs)) bs = Some c" and idx: "sample_indices ?n limit seed = i # is"
      and out: "out = map (\<lambda>(s, e). batch_slice sl s (e - s + 1) c) (contiguous i i is)"
      using assms(2) by (cases bs) (auto simp: take_random_def Let_def split: option.splits list.splits)
    have spec: "sorted_wrt (<) (i # is)" "set (i # is) \<subseteq> {..<length ?R}" "length (i # is) = limit"
      using sample_indices_spec [of limit ?n seed] False unfolding idx n by simp_all
    have R: "rw c = ?R" using rows_okD(3) [OF assms(1) c] by (simp add: batch_rows_def)
    have len: "rb_num_rows c = length ?R" using rows_okD(1) [OF assms(1), of c] R by simp
    have slice: "rw (batch_slice sl a (b - a + 1) c) = map ((!) ?R) [a..<Suc b]" if "(a, b) \<in> set (contiguous i i is)" for a b
    proof -
      have "a \<le> b" "b < length ?R" using contiguous_bounds [OF order_refl spec(1) that] spec(2) by auto
      then show ?thesis using rows_okD(2) [OF assms(1), of a "b - a + 1" c] len R take_drop_upt [of a b ?R] by simp
    qed
    have each: "map rw out = map (\<lambda>(a, b). map ((!) ?R) [a..<Suc b]) (contiguous i i is)"
      unfolding out map_map by (rule map_cong [OF refl]) (use slice in \<open>auto simp del: upt_Suc\<close>)
    have "batch_rows rw out = concat (map (\<lambda>(a, b). map ((!) ?R) [a..<Suc b]) (contiguous i i is))"
      unfolding each [symmetric] by (simp add: batch_rows_def)
    also have "\<dots> = map ((!) ?R) (concat (map (\<lambda>(a, b). [a..<Suc b]) (contiguous i i is)))"
      by (simp add: map_concat comp_def case_prod_beta' del: upt_Suc)
    also have "\<dots> = map ((!) ?R) (i # is)" using contiguous_cover [OF order_refl spec(1)] by simp
    finally show ?thesis unfolding picks_def using spec False n by (intro exI [of _ "i # is"]) simp
  qed
qed

text \<open>
  C32: a preview shows rows of the cached output in their order, each at most once, exactly as many as
  asked for or all there are; a random sample that returns too.
\<close>

theorem sample_rows:
  assumes "rows_ok rw sl cat" "sample_batches sl cat bs cfg = Some out"
  shows "picks (batch_rows rw bs) (batch_rows rw out) (sample_size cfg (length (batch_rows rw bs)))"
proof (cases cfg)
  case (FirstN k)
  then have "batch_rows rw out = take (min k (length (batch_rows rw bs))) (batch_rows rw bs)"
    using assms by (auto simp: take_first_n_def rows_cap_loop min_def)
  then show ?thesis using FirstN picks_take [of "min k (length (batch_rows rw bs))" "batch_rows rw bs"] by (simp add: sample_size_def)
next
  case (Random k seed)
  then show ?thesis using assms rows_take_random by (fastforce simp: sample_size_def)
next
  case FullData
  then show ?thesis using assms(2) picks_take [of "length (batch_rows rw bs)" "batch_rows rw bs"] by (simp add: sample_size_def)
qed

text \<open>Single columns of integers.\<close>

definition v_rows :: "int list batch \<Rightarrow> int list" where
  "v_rows b = map (\<lambda>k. case rb_columns b of [] \<Rightarrow> 0 | (_, c) # _ \<Rightarrow> if k < length c then c ! k else 0) [0..<rb_num_rows b]"

definition v_slice :: "nat \<Rightarrow> nat \<Rightarrow> int list \<Rightarrow> int list" where
  "v_slice off n c = map (\<lambda>k. if off + k < length c then c ! (off + k) else 0) [0..<n]"

definition v_batch :: "int list \<Rightarrow> int list batch" where
  "v_batch c = \<lparr>rb_columns = [(\<lparr>fd_name = ''n'', fd_type = DtInt64, fd_nullable = True\<rparr>, c)], rb_num_rows = length c\<rparr>"

definition v_concat :: "schema \<Rightarrow> int list batch list \<Rightarrow> int list batch option" where
  "v_concat sch bs = Some (v_batch (concat (map v_rows bs)))"

lemma v_rows_batch: "v_rows (v_batch c) = c"
  by (rule nth_equalityI) (simp_all add: v_rows_def v_batch_def)

lemma v_rows_ok: "rows_ok v_rows v_slice v_concat"
proof -
  have "v_rows (batch_slice v_slice off n b) = take n (drop off (v_rows b))" if "off + n \<le> rb_num_rows b" for off n b
    using that by (intro nth_equalityI) (auto simp: v_rows_def v_slice_def batch_slice_def split: list.split)
  then show ?thesis by (auto simp: rows_ok_def v_concat_def v_rows_batch) (simp add: v_rows_def)
qed

theorem sample_rows_witness:
  "\<exists>out. sample_batches v_slice v_concat [v_batch [1, 2, 3], v_batch [4, 5]] (Random 2 7) = Some out \<and> picks [1, 2, 3, 4, 5] (batch_rows v_rows out) 2"
proof -
  let ?bs = "[v_batch [1, 2, 3], v_batch [4, 5]]"
  have n: "sum_list (map rb_num_rows ?bs) = 5" by (simp add: v_batch_def)
  have "length (sample_indices 5 2 7) = 2" by (rule sample_indices_spec) simp
  then obtain i "is" where "sample_indices 5 2 7 = i # is" by (metis length_Suc_conv numeral_2_eq_2)
  then obtain out where out: "sample_batches v_slice v_concat ?bs (Random 2 7) = Some out"
    using n by (auto simp: take_random_def v_concat_def)
  moreover have "batch_rows v_rows ?bs = [1, 2, 3, 4, 5]" by (simp add: batch_rows_def v_rows_batch)
  ultimately show ?thesis using sample_rows [OF v_rows_ok out] by (simp add: sample_size_def numeral_2_eq_2)
qed

text \<open>A random sample of no rows panics when there are rows.\<close>

lemma random_zero_panics: "sum_list (map rb_num_rows bs) > 0 \<Longrightarrow> sample_batches sl cat bs (Random 0 seed) = None"
proof -
  assume "sum_list (map rb_num_rows bs) > 0"
  then have "\<not> sum_list (map rb_num_rows bs) \<le> 0" by linarith
  then show ?thesis by (cases bs) (auto simp: take_random_def sample_indices_def Let_def split: option.split)
qed

section \<open>What a preview shows\<close>













end
