(* ===== verification/Pipeline_Store.thy ===== *)
theory Pipeline_Store
  imports Run_Store
begin

text \<open>
  \<open>pipeline_store.rs\<close>: definitions in JSON files, one per pipeline, and a database with a row per
  pipeline and one per version.  Ids are the printed UUIDs; the clock, fresh ids, JSON, the calls on files and
  the statements that write the database which fail, and what a failed write leaves in a file are parameters.
\<close>

section \<open>Types\<close>

record pipeline_record =
  plr_id :: string
  plr_pipeline :: pipeline
  plr_created_at :: int
  plr_updated_at :: int
  plr_last_run_at :: "int option"
  plr_run_count :: u32

record pipeline_version =
  pv_pipeline_id :: string
  pv_version :: u32
  pv_saved_at :: int
  pv_snapshot :: pipeline

datatype pipeline_store_error =
    PsSqlite
  | PsJson
  | PsIo
  | PsNotFound string
  | PsNameConflict string

record pipeline_row =
  pw_id :: string
  pw_name :: string
  pw_created_at :: int
  pw_updated_at :: int
  pw_last_run_at :: "int option"
  pw_run_count :: int

record version_row =
  vw_pipeline_id :: string
  vw_version :: u32
  vw_saved_at :: int
  vw_snapshot :: string

record pipeline_db =
  pd_pipelines :: "pipeline_row list"
  pd_versions :: "version_row list"
  pd_files :: "string \<rightharpoonup> string"

definition pipeline_init_schema :: pipeline_db where
  "pipeline_init_schema = \<lparr>pd_pipelines = [], pd_versions = [], pd_files = Map.empty\<rparr>"

text \<open>The calls that may fail, with the id they are for.\<close>

datatype store_op =
    ReadFile string | WriteFile string | RemoveFile string
  | SqlInsertPipeline string | SqlUpdatePipeline string | SqlDeletePipeline string | SqlRecordRun string
  | SqlMaxVersion string | SqlInsertVersion string | SqlDeleteVersions string

fun op_id :: "store_op \<Rightarrow> string" where
  "op_id (ReadFile i) = i" | "op_id (WriteFile i) = i" | "op_id (RemoveFile i) = i"
| "op_id (SqlInsertPipeline i) = i" | "op_id (SqlUpdatePipeline i) = i" | "op_id (SqlDeletePipeline i) = i"
| "op_id (SqlRecordRun i) = i" | "op_id (SqlMaxVersion i) = i" | "op_id (SqlInsertVersion i) = i" | "op_id (SqlDeleteVersions i) = i"

record store_env =
  sv_now :: int
  sv_uuid :: string
  sv_print :: "pipeline \<Rightarrow> string"
  sv_parse :: "string \<Rightarrow> pipeline option"
  sv_fails :: "store_op \<Rightarrow> bool"
  sv_torn :: "string \<Rightarrow> string option"

section \<open>Rows\<close>

definition read_definition :: "store_env \<Rightarrow> pipeline_db \<Rightarrow> string \<Rightarrow> pipeline_store_error + pipeline" where
  "read_definition V db i = (case pd_files db i of
      None \<Rightarrow> Err (PsNotFound (''definition file missing for pipeline '' @ i))
    | Some json \<Rightarrow>
        if sv_fails V (ReadFile i) then Err PsIo
        else (case sv_parse V json of None \<Rightarrow> Err PsJson | Some p \<Rightarrow> Ok p))"

text \<open>The count is read as a \<open>u32\<close>.\<close>

definition row_to_metadata :: "pipeline_row \<Rightarrow> pipeline_store_error + (pipeline \<Rightarrow> pipeline_record)" where
  "row_to_metadata r =
     (if pw_run_count r < 0 \<or> pw_run_count r \<ge> 2 ^ 32 then Err PsSqlite
      else Ok (\<lambda>p. \<lparr>plr_id = pw_id r, plr_pipeline = p, plr_created_at = ms_to_system_time (pw_created_at r),
        plr_updated_at = ms_to_system_time (pw_updated_at r), plr_last_run_at = map_option ms_to_system_time (pw_last_run_at r),
        plr_run_count = word_of_int (pw_run_count r)\<rparr>))"

definition row_to_record :: "store_env \<Rightarrow> pipeline_db \<Rightarrow> pipeline_row \<Rightarrow> pipeline_store_error + pipeline_record" where
  "row_to_record V db r = (case row_to_metadata r of
      Inl e \<Rightarrow> Err e
    | Inr mk \<Rightarrow> (case read_definition V db (pw_id r) of Inl e \<Rightarrow> Err e | Inr p \<Rightarrow> Ok (mk p)))"

definition row_to_version :: "store_env \<Rightarrow> version_row \<Rightarrow> pipeline_store_error + pipeline_version" where
  "row_to_version V r = (case sv_parse V (vw_snapshot r) of
      None \<Rightarrow> Err PsJson
    | Some p \<Rightarrow> Ok \<lparr>pv_pipeline_id = vw_pipeline_id r, pv_version = vw_version r,
        pv_saved_at = ms_to_system_time (vw_saved_at r), pv_snapshot = p\<rparr>)"

text \<open>
  \<open>std::fs::write\<close> empties the file before it writes: a write that fails leaves \<open>sv_torn\<close> in the file,
  unless the file could not even be opened.
\<close>

definition write_definition :: "store_env \<Rightarrow> string \<Rightarrow> pipeline \<Rightarrow> pipeline_db \<Rightarrow> (pipeline_store_error + unit) \<times> pipeline_db" where
  "write_definition V i p db =
     (if sv_fails V (WriteFile i)
      then (Err PsIo, case sv_torn V i of None \<Rightarrow> db | Some text \<Rightarrow> db\<lparr>pd_files := (pd_files db)(i \<mapsto> text)\<rparr>)
      else (Ok (), db\<lparr>pd_files := (pd_files db)(i \<mapsto> sv_print V p)\<rparr>))"

definition version_key :: "version_row \<Rightarrow> string \<times> u32" where
  "version_key r = (vw_pipeline_id r, vw_version r)"

definition new_version_row :: "store_env \<Rightarrow> string \<Rightarrow> pipeline \<Rightarrow> version_row" where
  "new_version_row V i p = \<lparr>vw_pipeline_id = i, vw_version = p_version p, vw_saved_at = system_time_to_ms (sv_now V),
     vw_snapshot = sv_print V p\<rparr>"

text \<open>A version of a pipeline that has no row violates the foreign key.\<close>

definition insert_version :: "store_env \<Rightarrow> version_row \<Rightarrow> pipeline_db \<Rightarrow> (pipeline_store_error + unit) \<times> pipeline_db" where
  "insert_version V r db =
     (if sv_fails V (SqlInsertVersion (vw_pipeline_id r)) \<or> version_key r \<in> version_key ` set (pd_versions db) \<or>
         vw_pipeline_id r \<notin> pw_id ` set (pd_pipelines db)
      then (Err PsSqlite, db) else (Ok (), db\<lparr>pd_versions := pd_versions db @ [r]\<rparr>))"

section \<open>Operations\<close>

definition create_pipeline :: "store_env \<Rightarrow> pipeline \<Rightarrow> pipeline_db \<Rightarrow> (pipeline_store_error + pipeline_record) \<times> pipeline_db" where
  "create_pipeline V p0 db =
     (if p_name p0 \<in> pw_name ` set (pd_pipelines db) then (Err (PsNameConflict (p_name p0)), db)
      else let p = p0\<lparr>p_version := 1\<rparr>; i = sv_uuid V; now = system_time_to_ms (sv_now V) in
        case write_definition V i p db of
          (Inl e, db1) \<Rightarrow> (Err e, db1)
        | (Inr _, db1) \<Rightarrow>
            if i \<in> pw_id ` set (pd_pipelines db1) \<or> sv_fails V (SqlInsertPipeline i) then (Err PsSqlite, db1)
            else (case insert_version V (new_version_row V i p) (db1\<lparr>pd_pipelines := pd_pipelines db1 @
                [\<lparr>pw_id = i, pw_name = p_name p, pw_created_at = now, pw_updated_at = now, pw_last_run_at = None, pw_run_count = 0\<rparr>]\<rparr>) of
              (Inl e, db2) \<Rightarrow> (Err e, db2)
            | (Inr _, db2) \<Rightarrow> (Ok \<lparr>plr_id = i, plr_pipeline = p, plr_created_at = sv_now V, plr_updated_at = sv_now V,
                plr_last_run_at = None, plr_run_count = 0\<rparr>, db2)))"

definition find_record :: "store_env \<Rightarrow> pipeline_db \<Rightarrow> (pipeline_row \<Rightarrow> bool) \<Rightarrow> pipeline_store_error + pipeline_record option" where
  "find_record V db P = (case find P (pd_pipelines db) of
      None \<Rightarrow> Ok None
    | Some r \<Rightarrow> (case row_to_record V db r of Inl e \<Rightarrow> Err e | Inr x \<Rightarrow> Ok (Some x)))"

definition get_by_name :: "store_env \<Rightarrow> pipeline_db \<Rightarrow> string \<Rightarrow> pipeline_store_error + pipeline_record option" where
  "get_by_name V db name = find_record V db (\<lambda>r. pw_name r = name)"

definition get_pipeline :: "store_env \<Rightarrow> pipeline_db \<Rightarrow> string \<Rightarrow> pipeline_store_error + pipeline_record option" where
  "get_pipeline V db i = find_record V db (\<lambda>r. pw_id r = i)"

text \<open>All rows are read before the files.\<close>

definition list_pipelines :: "store_env \<Rightarrow> pipeline_db \<Rightarrow> nat \<Rightarrow> nat \<Rightarrow> pipeline_store_error + pipeline_record list" where
  "list_pipelines V db limit offset =
     (let rs = take limit (drop offset (sort_key pw_name (pd_pipelines db)))
      in case try_map row_to_metadata rs of Inl e \<Rightarrow> Err e | Inr _ \<Rightarrow> try_map (row_to_record V db) rs)"

definition count_pipelines :: "pipeline_db \<Rightarrow> nat" where
  "count_pipelines db = length (pd_pipelines db)"

definition versions_of :: "pipeline_db \<Rightarrow> string \<Rightarrow> version_row list" where
  "versions_of db i = filter (\<lambda>r. vw_pipeline_id r = i) (pd_versions db)"

definition max_version :: "pipeline_db \<Rightarrow> string \<Rightarrow> u32" where
  "max_version db i = fold max (map vw_version (versions_of db i)) 0"

text \<open>A query for the last version that fails counts as no version.\<close>

definition next_version :: "store_env \<Rightarrow> pipeline_db \<Rightarrow> string \<Rightarrow> pipeline \<Rightarrow> u32" where
  "next_version V db i p =
     (let current_max = (if sv_fails V (SqlMaxVersion i) then 0 else max_version db i)
      in if current_max > 0 then current_max + 1 else max (p_version p) 1 + 1)"

definition rename_row :: "string \<Rightarrow> string \<Rightarrow> int \<Rightarrow> pipeline_row \<Rightarrow> pipeline_row" where
  "rename_row i name now r = (if pw_id r = i then r\<lparr>pw_name := name, pw_updated_at := now\<rparr> else r)"

text \<open>The file is written before the row is known to exist.\<close>

definition update_pipeline ::
  "store_env \<Rightarrow> string \<Rightarrow> pipeline \<Rightarrow> pipeline_db \<Rightarrow> (pipeline_store_error + pipeline_record) \<times> pipeline_db" where
  "update_pipeline V i p0 db =
     (if list_ex (\<lambda>r. pw_name r = p_name p0 \<and> pw_id r \<noteq> i) (pd_pipelines db) then (Err (PsNameConflict (p_name p0)), db)
      else let p = p0\<lparr>p_version := next_version V db i p0\<rparr>; now = system_time_to_ms (sv_now V) in
        case write_definition V i p db of
          (Inl e, db1) \<Rightarrow> (Err e, db1)
        | (Inr _, db1) \<Rightarrow>
            if sv_fails V (SqlUpdatePipeline i) then (Err PsSqlite, db1)
            else if i \<notin> pw_id ` set (pd_pipelines db1) then (Err (PsNotFound i), db1)
            else (case insert_version V (new_version_row V i p)
                (db1\<lparr>pd_pipelines := map (rename_row i (p_name p) now) (pd_pipelines db1)\<rparr>) of
              (Inl e, db2) \<Rightarrow> (Err e, db2)
            | (Inr _, db2) \<Rightarrow> (case get_pipeline V db2 i of
                Inl e \<Rightarrow> Err e | Inr None \<Rightarrow> Err (PsNotFound i) | Inr (Some r) \<Rightarrow> Ok r, db2)))"

definition delete_stored :: "store_env \<Rightarrow> string \<Rightarrow> pipeline_db \<Rightarrow> (pipeline_store_error + unit) \<times> pipeline_db" where
  "delete_stored V i db =
     (if sv_fails V (SqlDeleteVersions i) then (Err PsSqlite, db)
      else let db1 = db\<lparr>pd_versions := filter (\<lambda>r. vw_pipeline_id r \<noteq> i) (pd_versions db)\<rparr>
      in if sv_fails V (SqlDeletePipeline i) then (Err PsSqlite, db1)
         else if i \<notin> pw_id ` set (pd_pipelines db1) then (Err (PsNotFound i), db1)
         else let db2 = db1\<lparr>pd_pipelines := filter (\<lambda>r. pw_id r \<noteq> i) (pd_pipelines db1)\<rparr>
           in if pd_files db2 i \<noteq> None \<and> sv_fails V (RemoveFile i) then (Err PsIo, db2)
              else (Ok (), db2\<lparr>pd_files := (pd_files db2)(i := None)\<rparr>))"

definition list_versions :: "store_env \<Rightarrow> pipeline_db \<Rightarrow> string \<Rightarrow> nat \<Rightarrow> nat \<Rightarrow> pipeline_store_error + pipeline_version list" where
  "list_versions V db i limit offset =
     try_map (row_to_version V) (take limit (drop offset (rev (sort_key vw_version (versions_of db i)))))"

definition get_version :: "store_env \<Rightarrow> pipeline_db \<Rightarrow> string \<Rightarrow> u32 \<Rightarrow> pipeline_store_error + pipeline_version option" where
  "get_version V db i v = (case find (\<lambda>r. version_key r = (i, v)) (pd_versions db) of
      None \<Rightarrow> Ok None
    | Some r \<Rightarrow> (case row_to_version V r of Inl e \<Rightarrow> Err e | Inr x \<Rightarrow> Ok (Some x)))"

definition count_versions :: "pipeline_db \<Rightarrow> string \<Rightarrow> nat" where
  "count_versions db i = length (versions_of db i)"

definition bump_run :: "string \<Rightarrow> int \<Rightarrow> pipeline_row \<Rightarrow> pipeline_row" where
  "bump_run i now r = (if pw_id r = i then r\<lparr>pw_last_run_at := Some now, pw_run_count := pw_run_count r + 1\<rparr> else r)"

definition record_run :: "store_env \<Rightarrow> string \<Rightarrow> pipeline_db \<Rightarrow> (pipeline_store_error + unit) \<times> pipeline_db" where
  "record_run V i db =
     (if sv_fails V (SqlRecordRun i) then (Err PsSqlite, db)
      else if i \<notin> pw_id ` set (pd_pipelines db) then (Err (PsNotFound i), db)
      else (Ok (), db\<lparr>pd_pipelines := map (bump_run i (system_time_to_ms (sv_now V))) (pd_pipelines db)\<rparr>))"

text \<open>Imports: the file is written even if the row is there already or the name is taken.\<close>

definition import_record :: "store_env \<Rightarrow> pipeline_record \<Rightarrow> pipeline_db \<Rightarrow> (pipeline_store_error + unit) \<times> pipeline_db" where
  "import_record V r db = (case write_definition V (plr_id r) (plr_pipeline r) db of
      (Inl e, db1) \<Rightarrow> (Err e, db1)
    | (Inr _, db1) \<Rightarrow>
        if sv_fails V (SqlInsertPipeline (plr_id r)) then (Err PsSqlite, db1)
        else if plr_id r \<in> pw_id ` set (pd_pipelines db1) \<or> p_name (plr_pipeline r) \<in> pw_name ` set (pd_pipelines db1) then (Ok (), db1)
        else (Ok (), db1\<lparr>pd_pipelines := pd_pipelines db1 @ [\<lparr>pw_id = plr_id r, pw_name = p_name (plr_pipeline r),
          pw_created_at = system_time_to_ms (plr_created_at r), pw_updated_at = system_time_to_ms (plr_updated_at r),
          pw_last_run_at = map_option system_time_to_ms (plr_last_run_at r), pw_run_count = uint (plr_run_count r)\<rparr>]\<rparr>))"

definition import_version :: "store_env \<Rightarrow> pipeline_version \<Rightarrow> pipeline_db \<Rightarrow> (pipeline_store_error + unit) \<times> pipeline_db" where
  "import_version V v db =
     (if (pv_pipeline_id v, pv_version v) \<in> version_key ` set (pd_versions db) then (Ok (), db)
      else insert_version V \<lparr>vw_pipeline_id = pv_pipeline_id v, vw_version = pv_version v,
        vw_saved_at = system_time_to_ms (pv_saved_at v), vw_snapshot = sv_print V (pv_snapshot v)\<rparr> db)"

section \<open>The history of a pipeline\<close>

text \<open>\<open>ps\<close> are the definitions that were saved, the first as version 1; the file has the last one.\<close>

definition history :: "(pipeline \<Rightarrow> string) \<Rightarrow> pipeline_db \<Rightarrow> string \<Rightarrow> pipeline list \<Rightarrow> bool" where
  "history pr db i ps \<longleftrightarrow> ps \<noteq> [] \<and> map p_version ps = map of_nat [1..<Suc (length ps)] \<and>
     map (\<lambda>r. (vw_version r, vw_snapshot r)) (versions_of db i) = map (\<lambda>p. (p_version p, pr p)) ps \<and>
     pd_files db i = Some (pr (last ps))"

definition keys_ok :: "pipeline_db \<Rightarrow> bool" where
  "keys_ok db \<longleftrightarrow> distinct (map pw_id (pd_pipelines db)) \<and> distinct (map pw_name (pd_pipelines db)) \<and>
     (\<forall>r \<in> set (pd_versions db). vw_pipeline_id r \<in> pw_id ` set (pd_pipelines db))"

text \<open>\<open>D\<close> are the ids for which a call has failed.\<close>

definition histories_ok :: "(pipeline \<Rightarrow> string) \<Rightarrow> nat \<Rightarrow> string set \<Rightarrow> pipeline_db \<Rightarrow> bool" where
  "histories_ok pr n D db \<longleftrightarrow> keys_ok db \<and>
     (\<forall>r \<in> set (pd_pipelines db). pw_id r \<notin> D \<longrightarrow>
       (\<exists>ps. length ps \<le> n \<and> history pr db (pw_id r) ps \<and> p_name (last ps) = pw_name r))"

lemma history_cong:
  "versions_of db' i = versions_of db i \<Longrightarrow> pd_files db' i = pd_files db i \<Longrightarrow> history pr db' i ps = history pr db i ps"
  by (simp add: history_def)

lemma of_nat_u32: "k < 2 ^ 32 \<Longrightarrow> unat (of_nat k :: u32) = k"
  by (simp add: unsigned_of_nat take_bit_nat_eq_self)

lemma fold_max_upto: "k < 2 ^ 32 \<Longrightarrow> fold max (map of_nat [1..<Suc k]) (0 :: u32) = of_nat k"
proof (induction k)
  case (Suc k)
  have "(of_nat k :: u32) \<le> of_nat (Suc k)" unfolding word_le_nat_alt using Suc.prems by (simp only: of_nat_u32 Suc_lessD)
  then show ?case using Suc by simp
qed simp

lemma history_versions:
  assumes "history pr db i ps"
  shows "map vw_version (versions_of db i) = map of_nat [1..<Suc (length ps)]"
proof -
  have "map vw_version (versions_of db i) = map fst (map (\<lambda>r. (vw_version r, vw_snapshot r)) (versions_of db i))" by simp
  also have "\<dots> = map fst (map (\<lambda>p. (p_version p, pr p)) ps)" using assms by (simp only: history_def)
  also have "\<dots> = map p_version ps" by simp
  also have "\<dots> = map of_nat [1..<Suc (length ps)]" using assms by (simp only: history_def)
  finally show ?thesis .
qed

text \<open>The next version is one more than the number of versions.\<close>

lemma history_next:
  assumes "history pr db i ps" "Suc (length ps) < 2 ^ 32" "\<not> sv_fails V (SqlMaxVersion i)"
  shows "next_version V db i p = of_nat (Suc (length ps))" "(i, next_version V db i p) \<notin> version_key ` set (pd_versions db)"
proof -
  have v: "map vw_version (versions_of db i) = map of_nat [1..<Suc (length ps)]" by (rule history_versions [OF assms(1)])
  have m: "max_version db i = of_nat (length ps)"
    unfolding max_version_def v by (rule fold_max_upto) (use assms(2) in simp)
  have "ps \<noteq> []" using assms(1) by (simp add: history_def)
  then have "unat (of_nat (length ps) :: u32) > 0" using assms(2) by (simp add: of_nat_u32)
  then have "max_version db i > 0" unfolding m by (simp add: word_less_nat_alt)
  then show n: "next_version V db i p = of_nat (Suc (length ps))" using assms(3) by (simp add: next_version_def m)
  show "(i, next_version V db i p) \<notin> version_key ` set (pd_versions db)"
  proof
    assume "(i, next_version V db i p) \<in> version_key ` set (pd_versions db)"
    then have "of_nat (Suc (length ps)) \<in> set (map vw_version (versions_of db i))" unfolding n by (force simp: version_key_def versions_of_def)
    then obtain k where k: "k \<in> {1..<Suc (length ps)}" "(of_nat (Suc (length ps)) :: u32) = of_nat k" unfolding v set_map set_upt by blast
    then have "Suc (length ps) = k" using assms(2) of_nat_u32 [of "Suc (length ps)"] of_nat_u32 [of k] by simp
    with k(1) show False by simp
  qed
qed

text \<open>What the operations do to the histories, under fresh ids; a step in which a call fails marks its id.\<close>

definition quiet :: "store_env \<Rightarrow> string \<Rightarrow> bool" where
  "quiet V i \<longleftrightarrow> (\<forall>c. op_id c = i \<longrightarrow> \<not> sv_fails V c)"

definition mark :: "store_env \<Rightarrow> string \<Rightarrow> string set \<Rightarrow> string set" where
  "mark V i D = (if quiet V i then D else insert i D)"

inductive pipeline_step ::
  "(pipeline \<Rightarrow> string) \<Rightarrow> string set \<Rightarrow> pipeline_db \<Rightarrow> string set \<Rightarrow> pipeline_db \<Rightarrow> bool" for pr where
  created: "sv_print V = pr \<Longrightarrow> sv_uuid V \<notin> pw_id ` set (pd_pipelines db) \<Longrightarrow>
    pipeline_step pr D db (mark V (sv_uuid V) D) (snd (create_pipeline V p db))"
| updated: "sv_print V = pr \<Longrightarrow> pipeline_step pr D db (mark V i D) (snd (update_pipeline V i p db))"
| deleted: "pipeline_step pr D db (mark V i D) (snd (delete_stored V i db))"
| recorded: "pipeline_step pr D db (mark V i D) (snd (record_run V i db))"

inductive pipeline_reach :: "(pipeline \<Rightarrow> string) \<Rightarrow> nat \<Rightarrow> string set \<Rightarrow> pipeline_db \<Rightarrow> bool" for pr where
  start: "pipeline_reach pr 0 {} pipeline_init_schema"
| next_: "pipeline_reach pr n D db \<Longrightarrow> pipeline_step pr D db D' db' \<Longrightarrow> pipeline_reach pr (Suc n) D' db'"

lemma quietD: "quiet V i \<Longrightarrow> op_id c = i \<Longrightarrow> \<not> sv_fails V c"
  by (simp add: quiet_def)

text \<open>A step on one pipeline keeps the keys and leaves the other pipelines as they are.\<close>

definition confined :: "string \<Rightarrow> pipeline_db \<Rightarrow> pipeline_db \<Rightarrow> bool" where
  "confined i db db' \<longleftrightarrow> (keys_ok db \<longrightarrow> keys_ok db') \<and>
     (\<forall>r \<in> set (pd_pipelines db'). pw_id r \<noteq> i \<longrightarrow> r \<in> set (pd_pipelines db)) \<and>
     (\<forall>j. j \<noteq> i \<longrightarrow> versions_of db' j = versions_of db j \<and> pd_files db' j = pd_files db j)"

lemma confined_refl [simp]: "confined i db db"
  by (simp add: confined_def)

lemma confined_trans: "confined i db db1 \<Longrightarrow> confined i db1 db2 \<Longrightarrow> confined i db db2"
  by (simp add: confined_def)

lemma confined_file [simp]: "confined i db (db\<lparr>pd_files := (pd_files db)(i := x)\<rparr>)"
  by (simp add: confined_def keys_ok_def versions_of_def)

lemma confined_write: "confined i db (snd (write_definition V i p db))"
  by (simp add: write_definition_def split: option.split)

lemma write_definition_rows [simp]: "pd_pipelines (snd (write_definition V i p db)) = pd_pipelines db"
  "pd_versions (snd (write_definition V i p db)) = pd_versions db"
  by (simp_all add: write_definition_def split: option.split)

lemma confined_version: "vw_pipeline_id r = i \<Longrightarrow> confined i db (snd (insert_version V r db))"
  by (auto simp: insert_version_def confined_def keys_ok_def versions_of_def)

lemma confined_row:
  assumes "pw_id r \<notin> pw_id ` set (pd_pipelines db)" "pw_name r \<notin> pw_name ` set (pd_pipelines db)"
  shows "confined (pw_id r) db (db\<lparr>pd_pipelines := pd_pipelines db @ [r]\<rparr>)"
  using assms by (auto simp: confined_def keys_ok_def versions_of_def)

lemma rename_row_simps [simp]:
  "pw_id (rename_row i name now r) = pw_id r" "pw_id \<circ> rename_row i name now = pw_id"
  "pw_name (rename_row i name now r) = (if pw_id r = i then name else pw_name r)"
  by (simp_all add: rename_row_def fun_eq_iff)

lemma distinct_renamed:
  assumes "distinct (map pw_id rs)" "distinct (map pw_name rs)" "\<forall>r \<in> set rs. pw_id r \<noteq> i \<longrightarrow> pw_name r \<noteq> name"
  shows "distinct (map (pw_name \<circ> rename_row i name now) rs)"
  using assms by (induction rs) (auto simp: image_iff)

lemma confined_rename:
  assumes "\<forall>r \<in> set (pd_pipelines db). pw_id r \<noteq> i \<longrightarrow> pw_name r \<noteq> name"
  shows "confined i db (db\<lparr>pd_pipelines := map (rename_row i name now) (pd_pipelines db)\<rparr>)"
proof -
  have "r \<in> set (pd_pipelines db) \<Longrightarrow> pw_id r \<noteq> i \<Longrightarrow> rename_row i name now r = r" for r by (simp add: rename_row_def)
  then show ?thesis using assms by (auto simp: confined_def keys_ok_def versions_of_def distinct_renamed image_image)
qed

lemma create_confined:
  assumes "sv_uuid V \<notin> pw_id ` set (pd_pipelines db)"
  shows "confined (sv_uuid V) db (snd (create_pipeline V p0 db))"
proof (cases "p_name p0 \<in> pw_name ` set (pd_pipelines db)")
  case False
  define p where "p = p0\<lparr>p_version := 1\<rparr>"
  define row where "row = \<lparr>pw_id = sv_uuid V, pw_name = p_name p0, pw_created_at = system_time_to_ms (sv_now V),
    pw_updated_at = system_time_to_ms (sv_now V), pw_last_run_at = None, pw_run_count = 0\<rparr>"
  let ?db1 = "snd (write_definition V (sv_uuid V) p db)"
  let ?db2 = "?db1\<lparr>pd_pipelines := pd_pipelines ?db1 @ [row]\<rparr>"
  have 1: "confined (sv_uuid V) db ?db1" by (rule confined_write)
  have 2: "confined (sv_uuid V) db ?db2"
    using confined_trans [OF 1 confined_row [of row ?db1, unfolded row_def pipeline_row.simps]] assms False by (simp add: row_def)
  have 3: "confined (sv_uuid V) db (snd (insert_version V (new_version_row V (sv_uuid V) p) ?db2))"
    by (rule confined_trans [OF 2 confined_version]) (simp add: new_version_row_def)
  have name: "p_name p = p_name p0" by (simp add: p_def)
  show ?thesis
  proof (cases "write_definition V (sv_uuid V) p db")
    case (Pair q db1)
    then show ?thesis using 1 2 3 False assms
      by (cases q; cases "insert_version V (new_version_row V (sv_uuid V) p) ?db2")
        (auto simp: create_pipeline_def Let_def p_def [symmetric] row_def name split: sum.split)
  qed
qed (simp add: create_pipeline_def)

lemma update_confined: "confined i db (snd (update_pipeline V i p0 db))"
proof (cases "list_ex (\<lambda>r. pw_name r = p_name p0 \<and> pw_id r \<noteq> i) (pd_pipelines db)")
  case False
  define p where "p = p0\<lparr>p_version := next_version V db i p0\<rparr>"
  let ?db1 = "snd (write_definition V i p db)"
  let ?db2 = "?db1\<lparr>pd_pipelines := map (rename_row i (p_name p) (system_time_to_ms (sv_now V))) (pd_pipelines ?db1)\<rparr>"
  have 1: "confined i db ?db1" by (rule confined_write)
  have 2: "confined i db ?db2"
    by (rule confined_trans [OF 1 confined_rename]) (use False in \<open>auto simp: list_ex_iff p_def\<close>)
  have 3: "confined i db (snd (insert_version V (new_version_row V i p) ?db2))"
    by (rule confined_trans [OF 2 confined_version]) (simp add: new_version_row_def)
  show ?thesis
  proof (cases "write_definition V i p db")
    case (Pair q db1)
    then show ?thesis using 1 2 3 False
      by (cases q; cases "insert_version V (new_version_row V i p) ?db2")
        (auto simp: update_pipeline_def Let_def p_def [symmetric] split: sum.split)
  qed
qed (simp add: update_pipeline_def)

lemma delete_confined: "confined i db (snd (delete_stored V i db))"
proof -
  let ?db1 = "db\<lparr>pd_versions := filter (\<lambda>r. vw_pipeline_id r \<noteq> i) (pd_versions db)\<rparr>"
  let ?db2 = "?db1\<lparr>pd_pipelines := filter (\<lambda>r. pw_id r \<noteq> i) (pd_pipelines ?db1)\<rparr>"
  have v: "versions_of ?db1 j = versions_of db j" if "j \<noteq> i" for j
    using that by (auto simp: versions_of_def intro!: filter_cong)
  then have 1: "confined i db ?db1" by (auto simp: confined_def keys_ok_def)
  have 2: "confined i db ?db2" using v by (auto simp: confined_def keys_ok_def distinct_map_filter versions_of_def)
  have 3: "confined i db (?db2\<lparr>pd_files := (pd_files ?db2)(i := None)\<rparr>)" by (rule confined_trans [OF 2 confined_file])
  show ?thesis using 1 2 3 by (simp add: delete_stored_def Let_def)
qed

lemma bump_run_simps [simp]:
  "pw_id (bump_run j now r) = pw_id r" "pw_name (bump_run j now r) = pw_name r"
  "pw_id \<circ> bump_run j now = pw_id" "pw_name \<circ> bump_run j now = pw_name"
  by (simp_all add: bump_run_def fun_eq_iff)

lemma record_confined: "confined i db (snd (record_run V i db))"
proof -
  have "pw_id r \<noteq> i \<Longrightarrow> bump_run i now r = r" for r now by (simp add: bump_run_def)
  then show ?thesis by (auto simp: record_run_def confined_def keys_ok_def versions_of_def image_image)
qed

text \<open>It remains to look at the pipeline of the step, and only when no call has failed for it.\<close>

lemma histories_okD:
  assumes "histories_ok pr n D db"
  shows "keys_ok db"
    "x \<in> set (pd_pipelines db) \<Longrightarrow> pw_id x \<notin> D \<Longrightarrow> \<exists>ps. length ps \<le> n \<and> history pr db (pw_id x) ps \<and> p_name (last ps) = pw_name x"
  using assms by (auto simp: histories_ok_def)

lemma histories_confined:
  assumes "histories_ok pr n D db" "confined i db db'"
    and "\<And>r. quiet V i \<Longrightarrow> i \<notin> D \<Longrightarrow> r \<in> set (pd_pipelines db') \<Longrightarrow> pw_id r = i \<Longrightarrow>
      \<exists>ps. length ps \<le> Suc n \<and> history pr db' i ps \<and> p_name (last ps) = pw_name r"
  shows "histories_ok pr (Suc n) (mark V i D) db'"
  unfolding histories_ok_def
proof (intro conjI ballI impI)
  show "keys_ok db'" using assms(1,2) by (simp add: confined_def histories_ok_def)
  fix r assume r: "r \<in> set (pd_pipelines db')" "pw_id r \<notin> mark V i D"
  show "\<exists>ps. length ps \<le> Suc n \<and> history pr db' (pw_id r) ps \<and> p_name (last ps) = pw_name r"
  proof (cases "pw_id r = i")
    case True
    then show ?thesis using assms(3) [of r] r by (auto simp: mark_def split: if_splits)
  next
    case False
    then have "r \<in> set (pd_pipelines db)" using assms(2) r(1) by (simp add: confined_def)
    moreover have "history pr db' (pw_id r) ps = history pr db (pw_id r) ps" for ps
      by (rule history_cong) (use assms(2) False in \<open>simp_all add: confined_def\<close>)
    moreover have "pw_id r \<notin> D" using r(2) by (simp add: mark_def split: if_splits)
    ultimately obtain ps where "length ps \<le> n" "history pr db' (pw_id r) ps" "p_name (last ps) = pw_name r"
      using histories_okD(2) [OF assms(1)] by blast
    then show ?thesis using le_SucI by blast
  qed
qed

lemma no_versions: "keys_ok db \<Longrightarrow> i \<notin> pw_id ` set (pd_pipelines db) \<Longrightarrow> versions_of db i = []"
  by (auto simp: versions_of_def filter_empty_conv keys_ok_def)

lemma histories_create:
  assumes "histories_ok pr n D db" "sv_print V = pr" "sv_uuid V \<notin> pw_id ` set (pd_pipelines db)"
  shows "histories_ok pr (Suc n) (mark V (sv_uuid V) D) (snd (create_pipeline V p0 db))"
proof (rule histories_confined [OF assms(1) create_confined [OF assms(3)]])
  fix r
  assume q: "quiet V (sv_uuid V)" and r: "r \<in> set (pd_pipelines (snd (create_pipeline V p0 db)))" "pw_id r = sv_uuid V"
  define p where "p = p0\<lparr>p_version := 1\<rparr>"
  have ok: "\<not> sv_fails V (WriteFile (sv_uuid V))" "\<not> sv_fails V (SqlInsertPipeline (sv_uuid V))" "\<not> sv_fails V (SqlInsertVersion (sv_uuid V))"
    using quietD [OF q] by simp_all
  have none: "versions_of db (sv_uuid V) = []" by (rule no_versions [OF histories_okD(1) [OF assms(1)] assms(3)])
  then have fresh: "version_key (new_version_row V (sv_uuid V) p) \<notin> version_key ` set (pd_versions db)"
    by (auto simp: version_key_def new_version_row_def versions_of_def filter_empty_conv)
  have new: "r \<notin> set (pd_pipelines db)" using r(2) assms(3) by (metis imageI)
  have name: "p_name p0 \<notin> pw_name ` set (pd_pipelines db)"
  proof
    assume "p_name p0 \<in> pw_name ` set (pd_pipelines db)"
    then show False using r(1) new by (simp add: create_pipeline_def)
  qed
  have "history pr (snd (create_pipeline V p0 db)) (sv_uuid V) [p] \<and> pw_name r = p_name p"
    using r name new assms(2,3) ok fresh none
    by (auto simp: create_pipeline_def write_definition_def insert_version_def Let_def p_def [symmetric] history_def versions_of_def
        new_version_row_def) (simp_all add: p_def)
  then show "\<exists>ps. length ps \<le> Suc n \<and> history pr (snd (create_pipeline V p0 db)) (sv_uuid V) ps \<and> p_name (last ps) = pw_name r"
    by (intro exI [of _ "[p]"]) simp
qed

text \<open>A save appends a version to the history.\<close>

lemma history_append:
  assumes "history pr db i ps" "Suc (length ps) < 2 ^ 32" "\<not> sv_fails V (SqlMaxVersion i)" "p_version p = next_version V db i p0"
    "versions_of db' i = versions_of db i @ [r]" "vw_version r = p_version p" "vw_snapshot r = pr p" "pd_files db' i = Some (pr p)"
  shows "history pr db' i (ps @ [p])"
  using assms history_next(1) [OF assms(1-3), of p0] by (simp add: history_def del: of_nat_Suc)

lemma histories_update:
  assumes "histories_ok pr n D db" "sv_print V = pr" "Suc n < 2 ^ 32"
  shows "histories_ok pr (Suc n) (mark V i D) (snd (update_pipeline V i p0 db))"
proof (rule histories_confined [OF assms(1) update_confined])
  fix r
  assume q: "quiet V i" and D: "i \<notin> D" and r: "r \<in> set (pd_pipelines (snd (update_pipeline V i p0 db)))" "pw_id r = i"
  have ok: "\<not> sv_fails V (WriteFile i)" "\<not> sv_fails V (SqlUpdatePipeline i)" "\<not> sv_fails V (SqlMaxVersion i)" "\<not> sv_fails V (SqlInsertVersion i)"
    using quietD [OF q] by simp_all
  define p where "p = p0\<lparr>p_version := next_version V db i p0\<rparr>"
  define now where "now = system_time_to_ms (sv_now V)"
  show "\<exists>ps. length ps \<le> Suc n \<and> history pr (snd (update_pipeline V i p0 db)) i ps \<and> p_name (last ps) = pw_name r"
  proof (cases "list_ex (\<lambda>r. pw_name r = p_name p0 \<and> pw_id r \<noteq> i) (pd_pipelines db)")
    case True
    then show ?thesis using r D histories_okD(2) [OF assms(1)] by (force simp: update_pipeline_def intro: le_SucI)
  next
    case False
    have mem: "i \<in> pw_id ` set (pd_pipelines db)"
      using r False ok by (auto simp: update_pipeline_def write_definition_def Let_def image_iff split: if_splits)
    then obtain x ps where ps: "length ps \<le> n" "history pr db i ps" using histories_okD(2) [OF assms(1)] D by blast
    have len: "Suc (length ps) < 2 ^ 32" using ps(1) assms(3) by linarith
    define db' where "db' = \<lparr>pd_pipelines = map (rename_row i (p_name p0) now) (pd_pipelines db),
      pd_versions = pd_versions db @ [new_version_row V i p], pd_files = (pd_files db)(i \<mapsto> pr p)\<rparr>"
    have "version_key (new_version_row V i p) \<notin> version_key ` set (pd_versions db)"
      using history_next(2) [OF ps(2) len ok(3), of p0] by (simp add: version_key_def new_version_row_def p_def)
    then have run: "snd (update_pipeline V i p0 db) = db'"
      using False assms(2) mem ok
      by (simp add: update_pipeline_def write_definition_def insert_version_def Let_def new_version_row_def db'_def p_def now_def image_image)
    have new: "history pr db' i (ps @ [p])"
      by (rule history_append [OF ps(2) len ok(3), of p p0 db' "new_version_row V i p"])
        (simp_all add: p_def db'_def versions_of_def new_version_row_def assms(2))
    obtain x where x: "r = rename_row i (p_name p0) now x" using r(1) unfolding run by (auto simp: db'_def)
    then have "pw_name r = p_name p" using r(2) by (simp add: p_def)
    then show ?thesis unfolding run using new ps(1) by (intro exI [of _ "ps @ [p]"]) simp
  qed
qed

lemma histories_delete:
  assumes "histories_ok pr n D db"
  shows "histories_ok pr (Suc n) (mark V i D) (snd (delete_stored V i db))"
proof (rule histories_confined [OF assms delete_confined])
  fix r
  assume q: "quiet V i" and r: "r \<in> set (pd_pipelines (snd (delete_stored V i db)))" "pw_id r = i"
  then have False using quietD [OF q] by (auto simp: delete_stored_def Let_def split: if_splits)
  then show "\<exists>ps. length ps \<le> Suc n \<and> history pr (snd (delete_stored V i db)) i ps \<and> p_name (last ps) = pw_name r" ..
qed

lemma histories_record:
  assumes "histories_ok pr n D db"
  shows "histories_ok pr (Suc n) (mark V i D) (snd (record_run V i db))"
proof (rule histories_confined [OF assms record_confined])
  fix r
  assume D: "i \<notin> D" and r: "r \<in> set (pd_pipelines (snd (record_run V i db)))" "pw_id r = i"
  have h: "history pr (snd (record_run V i db)) i ps = history pr db i ps" for ps
    by (rule history_cong) (simp_all add: record_run_def versions_of_def)
  obtain x where "x \<in> set (pd_pipelines db)" "pw_id x = i" "pw_name x = pw_name r"
    using r by (auto simp: record_run_def split: if_splits)
  then show "\<exists>ps. length ps \<le> Suc n \<and> history pr (snd (record_run V i db)) i ps \<and> p_name (last ps) = pw_name r"
    using histories_okD(2) [OF assms, of x] D h by (auto intro: le_SucI)
qed

lemma histories_step: "pipeline_step pr D db D' db' \<Longrightarrow> histories_ok pr n D db \<Longrightarrow> Suc n < 2 ^ 32 \<Longrightarrow> histories_ok pr (Suc n) D' db'"
  by (induction rule: pipeline_step.induct)
    (auto intro: histories_create histories_update histories_delete histories_record)

text \<open>
  C38: after fewer than \<open>2 ^ 32\<close> creations, saves, deletions and records of runs, whatever calls on files and
  statements failed and whatever failed writes left behind: ids and names are unique and versions belong to pipelines;
  and where no call has failed for a pipeline, its versions are 1, 2, 3 and so on with the definitions as they were
  saved, and its file has the last, under the name in its row.
\<close>

theorem pipeline_history:
  assumes "pipeline_reach pr n D db" "n < 2 ^ 32"
  shows "histories_ok pr n D db"
  using assms
proof (induction rule: pipeline_reach.induct)
  case start
  then show ?case by (simp add: histories_ok_def keys_ok_def pipeline_init_schema_def)
next
  case (next_ n D db D' db')
  then have "histories_ok pr n D db" by simp
  then show ?case using histories_step [OF next_.hyps(2)] next_.prems by simp
qed

definition w_store_env :: "string \<Rightarrow> store_env" where
  "w_store_env i = \<lparr>sv_now = 0, sv_uuid = i, sv_print = p_name, sv_parse = (\<lambda>_. None), sv_fails = (\<lambda>_. False), sv_torn = (\<lambda>_. None)\<rparr>"

text \<open>A pipeline is created and saved; the save of another one breaks off and leaves its file empty.\<close>

definition w_torn_env :: store_env where
  "w_torn_env = (w_store_env [])\<lparr>sv_fails := (\<lambda>c. c = WriteFile ''u2''), sv_torn := (\<lambda>_. Some [])\<rparr>"

definition w_saved_db :: pipeline_db where
  "w_saved_db = snd (update_pipeline w_torn_env ''u2'' (plain_pipeline ''c'' [] []) (snd (create_pipeline (w_store_env ''u2'') (plain_pipeline ''d'' [] [])
     (snd (update_pipeline (w_store_env ''u1'') ''u1'' (plain_pipeline ''b'' [] [])
       (snd (create_pipeline (w_store_env ''u1'') (plain_pipeline ''a'' [] []) pipeline_init_schema)))))))"

lemma w_quiet: "mark (w_store_env u) i D = D" "mark w_torn_env ''u2'' {} = {''u2''}"
  by (auto simp: mark_def quiet_def w_store_env_def w_torn_env_def intro: exI [of _ "WriteFile ''u2''"])

theorem pipeline_history_witness:
  "histories_ok p_name 4 {''u2''} w_saved_db \<and> pd_files w_saved_db ''u2'' = Some [] \<and> pd_files w_saved_db ''u1'' = Some ''b''"
proof (intro conjI)
  have pr: "sv_print (w_store_env i) = p_name" "sv_print w_torn_env = p_name" "sv_uuid (w_store_env i) = i" for i
    by (simp_all add: w_store_env_def w_torn_env_def)
  let ?d1 = "snd (create_pipeline (w_store_env ''u1'') (plain_pipeline ''a'' [] []) pipeline_init_schema)"
  let ?d2 = "snd (update_pipeline (w_store_env ''u1'') ''u1'' (plain_pipeline ''b'' [] []) ?d1)"
  let ?d3 = "snd (create_pipeline (w_store_env ''u2'') (plain_pipeline ''d'' [] []) ?d2)"
  have r1: "pipeline_reach p_name 1 {} ?d1"
    using pipeline_reach.next_ [OF pipeline_reach.start created [OF pr(1), of "''u1''" pipeline_init_schema "{}" "plain_pipeline ''a'' [] []"]]
    by (simp add: w_quiet pipeline_init_schema_def)
  from pipeline_reach.next_ [OF r1 updated [OF pr(1), of "{}" _ "''u1''" "''u1''" "plain_pipeline ''b'' [] []"]]
  have r2: "pipeline_reach p_name 2 {} ?d2" by (simp add: w_quiet numeral_2_eq_2)
  have ids: "sv_uuid (w_store_env ''u2'') \<notin> pw_id ` set (pd_pipelines ?d2)" by code_simp
  from pipeline_reach.next_ [OF r2 created [OF pr(1) ids, of "{}" "plain_pipeline ''d'' [] []"]]
  have r3: "pipeline_reach p_name 3 {} ?d3" by (simp add: w_quiet pr(3) numeral_3_eq_3 numeral_2_eq_2)
  from pipeline_reach.next_ [OF r3 updated [OF pr(2), of "{}" _ "''u2''" "plain_pipeline ''c'' [] []"]]
  have "pipeline_reach p_name 4 {''u2''} w_saved_db" by (simp add: w_quiet w_saved_db_def eval_nat_numeral)
  then show "histories_ok p_name 4 {''u2''} w_saved_db" by (rule pipeline_history) simp
  show "pd_files w_saved_db ''u2'' = Some []" "pd_files w_saved_db ''u1'' = Some ''b''" by code_simp+
qed

section \<open>Where files and rows part\<close>

text \<open>A save of a pipeline that is not there reports that, and leaves its file.\<close>

lemma update_missing_writes_file:
  "update_pipeline (w_store_env []) ''u9'' (plain_pipeline ''a'' [] []) pipeline_init_schema =
     (Err (PsNotFound ''u9''), pipeline_init_schema\<lparr>pd_files := [''u9'' \<mapsto> ''a'']\<rparr>)"
  by (simp add: update_pipeline_def write_definition_def w_store_env_def pipeline_init_schema_def plain_pipeline_def)

text \<open>An import of an id that is there already replaces the definition, but neither the row nor the versions.\<close>

lemma import_overwrites_definition:
  assumes "\<not> sv_fails V (WriteFile (plr_id r))" "\<not> sv_fails V (SqlInsertPipeline (plr_id r))" "plr_id r \<in> pw_id ` set (pd_pipelines db)"
  shows "import_record V r db = (Ok (), db\<lparr>pd_files := (pd_files db)(plr_id r \<mapsto> sv_print V (plr_pipeline r))\<rparr>)"
  using assms by (simp add: import_record_def write_definition_def)

text \<open>A save whose version cannot be stored has already replaced the file and the name.\<close>

lemma failed_save_leaves_new_definition:
  assumes "\<not> sv_fails V (WriteFile i)" "\<not> sv_fails V (SqlUpdatePipeline i)" "sv_fails V (SqlInsertVersion i)"
    "i \<in> pw_id ` set (pd_pipelines db)" "\<not> list_ex (\<lambda>r. pw_name r = p_name p \<and> pw_id r \<noteq> i) (pd_pipelines db)"
  shows "fst (update_pipeline V i p db) = Err PsSqlite"
    "pd_files (snd (update_pipeline V i p db)) i = Some (sv_print V (p\<lparr>p_version := next_version V db i p\<rparr>))"
    "pd_versions (snd (update_pipeline V i p db)) = pd_versions db"
  using assms by (simp_all add: update_pipeline_def write_definition_def insert_version_def new_version_row_def Let_def)

end
