(* ===== verification/Plugin_Registry.thy ===== *)
theory Plugin_Registry
  imports Plugin_Session Secrets
begin

text \<open>
  \<open>manifest.rs\<close>, \<open>discovery.rs\<close> and \<open>error.rs\<close> of the plugin host: manifests and their validation, the
  scan of the plugin directories and the registry of the plugins found.  TOML, SemVer, the platform
  directories and the file system are parameters; paths are joined as on Unix.
\<close>

section \<open>Manifests\<close>

record materialization_capabilities =
  mc_append :: bool
  mc_merge :: bool
  mc_delete_insert :: bool
  mc_insert_overwrite :: bool
  mc_truncate_insert :: bool
  mc_snapshot :: bool
  mc_on_schema_change :: "string list"

text \<open>\<open>'v\<close> is a TOML value.\<close>

record 'v sink_capabilities =
  kc_transactional :: bool
  kc_upsert :: bool
  kc_schema_validation :: bool
  kc_materialization :: "materialization_capabilities option"
  kc_extra :: "(string \<times> 'v) list"

record 'v sink_declaration =
  sd_type :: string
  sd_display_name :: string
  sd_description :: "string option"
  sd_config_schema :: string
  sd_capabilities :: "'v sink_capabilities"

record 'v manifest =
  mf_name :: string
  mf_version :: string
  mf_author :: "string option"
  mf_description :: "string option"
  mf_license :: "string option"
  mf_homepage :: "string option"
  mf_protocol :: u32
  mf_min_version :: string
  mf_executable :: string
  mf_args :: "string list"
  mf_env :: "(string \<times> string) list"
  mf_sinks :: "'v sink_declaration list"

definition supports_strategy :: "materialization_capabilities \<Rightarrow> string \<Rightarrow> bool" where
  "supports_strategy c s =
     (if s = ''append'' then mc_append c
      else if s = ''merge'' then mc_merge c
      else if s = ''delete_insert'' then mc_delete_insert c
      else if s = ''insert_overwrite'' then mc_insert_overwrite c
      else if s = ''truncate_insert'' then mc_truncate_insert c
      else if s = ''snapshot'' then mc_snapshot c
      else False)"

definition supports_on_schema_change :: "materialization_capabilities \<Rightarrow> string \<Rightarrow> bool" where
  "supports_on_schema_change c policy = (policy \<in> set (mc_on_schema_change c))"

datatype plugin_host_error = PhManifest string string | PhIo string string | PhDuplicateName string string
  | PhDuplicateSinkType string string | PhFrame frame_error

definition plugin_error_text :: "(frame_error \<Rightarrow> string) \<Rightarrow> plugin_host_error \<Rightarrow> string" where
  "plugin_error_text show_frame e = (case e of
      PhManifest path message \<Rightarrow> ''plugin manifest at '' @ path @ '': '' @ message
    | PhIo path source \<Rightarrow> ''io error at '' @ path @ '': '' @ source
    | PhDuplicateName name root \<Rightarrow> ''duplicate plugin name `'' @ name @ ''` in scan root '' @ root
    | PhDuplicateSinkType ty plugin \<Rightarrow> ''duplicate sink type `'' @ ty @ ''` declared by plugin `'' @ plugin @ ''`''
    | PhFrame f \<Rightarrow> show_frame f)"

text \<open>
  What lies outside: reading of directories, files and the environment, the TOML parser and SemVer,
  whose errors are their texts.
\<close>

record 'v plugin_env =
  pv_read_dir :: "string \<Rightarrow> string + string list"
  pv_is_dir :: "string \<Rightarrow> bool"
  pv_is_file :: "string \<Rightarrow> bool"
  pv_exists :: "string \<Rightarrow> bool"
  pv_read :: "string \<Rightarrow> string + string"
  pv_toml :: "string \<Rightarrow> string + 'v manifest"
  pv_semver :: "string \<Rightarrow> string option"
  pv_frame_text :: "frame_error \<Rightarrow> string"
  pv_data_dir :: "string option"
  pv_home :: "string option"
  pv_path_var :: "string option"

definition name_char :: "char \<Rightarrow> bool" where
  "name_char c \<longleftrightarrow> c \<in> set ''abcdefghijklmnopqrstuvwxyz0123456789_-''"

definition name_re :: "string \<Rightarrow> bool" where
  "name_re s \<longleftrightarrow> s \<noteq> [] \<and> list_all name_char s"

definition sink_type_re :: "string \<Rightarrow> bool" where
  "sink_type_re s \<longleftrightarrow> s \<noteq> [] \<and> list_all (\<lambda>c. name_char c \<and> c \<noteq> CHR ''-'') s"

text \<open>The loop over the sinks; \<open>seen\<close> is the set of the types so far.\<close>

fun validate_sinks :: "string list \<Rightarrow> 'v sink_declaration list \<Rightarrow> string option" where
  "validate_sinks seen [] = None"
| "validate_sinks seen (s # ss) =
     (if \<not> sink_type_re (sd_type s) then Some (''sink type `'' @ sd_type s @ ''` must match [a-z0-9_]+'')
      else if sd_type s \<in> set seen then Some (''duplicate sink type `'' @ sd_type s @ ''` within manifest'')
      else if trim (sd_display_name s) = [] then Some (''sink `'' @ sd_type s @ ''` display_name must not be empty'')
      else if trim (sd_config_schema s) = [] then Some (''sink `'' @ sd_type s @ ''` config_schema must not be empty'')
      else validate_sinks (sd_type s # seen) ss)"

definition manifest_message :: "'v plugin_env \<Rightarrow> 'v manifest \<Rightarrow> string option" where
  "manifest_message V m =
     (if \<not> name_re (mf_name m) then Some (''name `'' @ mf_name m @ ''` must match [a-z0-9_-]+'')
      else case pv_semver V (mf_version m) of
        Some e \<Rightarrow> Some (''version `'' @ mf_version m @ ''` is not SemVer: '' @ e)
      | None \<Rightarrow> (case pv_semver V (mf_min_version m) of
          Some e \<Rightarrow> Some (''armillary_min_version `'' @ mf_min_version m @ ''` is not SemVer: '' @ e)
        | None \<Rightarrow>
          if mf_protocol m \<noteq> PROTOCOL_VERSION then
            Some (''armillary_plugin_protocol = '' @ show_nat (unat (mf_protocol m)) @
              '' but this armillary build supports '' @ show_nat (unat PROTOCOL_VERSION))
          else if trim (mf_executable m) = [] then Some ''executable must not be empty''
          else if mf_sinks m = [] then Some ''at least one [[sinks]] entry is required in v1''
          else validate_sinks [] (mf_sinks m)))"

definition validate_manifest :: "'v plugin_env \<Rightarrow> string \<Rightarrow> 'v manifest \<Rightarrow> plugin_host_error option" where
  "validate_manifest V path m = map_option (PhManifest path) (manifest_message V m)"

definition manifest_from_str :: "'v plugin_env \<Rightarrow> string \<Rightarrow> string \<Rightarrow> plugin_host_error + 'v manifest" where
  "manifest_from_str V input path = (case pv_toml V input of
      Inl e \<Rightarrow> Err (PhManifest path (''invalid TOML: '' @ e))
    | Inr m \<Rightarrow> (case validate_manifest V path m of Some e \<Rightarrow> Err e | None \<Rightarrow> Ok m))"

definition manifest_from_path :: "'v plugin_env \<Rightarrow> string \<Rightarrow> plugin_host_error + 'v manifest" where
  "manifest_from_path V path = (case pv_read V path of
      Inl e \<Rightarrow> Err (PhIo path e)
    | Inr input \<Rightarrow> manifest_from_str V input path)"

text \<open>\<open>Path::join\<close>.\<close>

definition path_join :: "string \<Rightarrow> string \<Rightarrow> string" where
  "path_join a b = (if starts_with ''/'' b then b else if a = [] \<or> ends_with ''/'' a then a @ b else a @ ''/'' @ b)"

definition resolve_executable :: "'v manifest \<Rightarrow> string \<Rightarrow> string" where
  "resolve_executable m plugin_dir = path_join plugin_dir (mf_executable m)"

section \<open>Discovery\<close>

datatype plugin_status = PsOk | PsInvalid string

record 'v discovered_plugin =
  dp_name :: string
  dp_directory :: string
  dp_manifest :: "'v manifest option"
  dp_status :: plugin_status

record 'v plugin_registry =
  pg_plugins :: "(string \<times> 'v discovered_plugin) list"
  pg_sink_index :: "(string \<times> string) list"

definition empty_registry :: "'v plugin_registry" where
  "empty_registry = \<lparr>pg_plugins = [], pg_sink_index = []\<rparr>"

definition get_plugin :: "'v plugin_registry \<Rightarrow> string \<Rightarrow> 'v discovered_plugin option" where
  "get_plugin r name = map_of (pg_plugins r) name"

definition iter_plugins :: "'v plugin_registry \<Rightarrow> 'v discovered_plugin list" where
  "iter_plugins r = map snd (pg_plugins r)"

definition find_sink :: "'v plugin_registry \<Rightarrow> string \<Rightarrow> 'v discovered_plugin option" where
  "find_sink r ty = Option.bind (map_of (pg_sink_index r) ty) (map_of (pg_plugins r))"

text \<open>The sinks of a plugin that may enter the index.\<close>

definition ok_sinks :: "'v discovered_plugin \<Rightarrow> string list" where
  "ok_sinks p = (case dp_status p of
      PsInvalid _ \<Rightarrow> []
    | PsOk \<Rightarrow> (case dp_manifest p of None \<Rightarrow> [] | Some m \<Rightarrow> map sd_type (mf_sinks m)))"

text \<open>The first sink type that another plugin provides already.\<close>

fun sink_collision :: "(string \<times> string) list \<Rightarrow> string \<Rightarrow> string list \<Rightarrow> string option" where
  "sink_collision idx name [] = None"
| "sink_collision idx name (ty # tys) = (case map_of idx ty of
      Some existing \<Rightarrow>
        if existing \<noteq> name then Some (''sink type `'' @ ty @ ''` already provided by plugin `'' @ existing @ ''`'')
        else sink_collision idx name tys
    | None \<Rightarrow> sink_collision idx name tys)"

definition unindex_sink :: "string \<Rightarrow> string \<Rightarrow> (string \<times> string) list \<Rightarrow> (string \<times> string) list" where
  "unindex_sink name ty idx = (if map_of idx ty = Some name then bt_remove ty idx else idx)"

definition unindex_prev :: "'v discovered_plugin \<Rightarrow> (string \<times> string) list \<Rightarrow> (string \<times> string) list" where
  "unindex_prev prev idx = (case dp_manifest prev of
      None \<Rightarrow> idx
    | Some m \<Rightarrow> fold (unindex_sink (dp_name prev)) (map sd_type (mf_sinks m)) idx)"

definition install :: "'v discovered_plugin \<Rightarrow> 'v plugin_registry \<Rightarrow> 'v plugin_registry" where
  "install p r = (case sink_collision (pg_sink_index r) (dp_name p) (ok_sinks p) of
      Some e \<Rightarrow> r\<lparr>pg_plugins := bt_insert (dp_name p) (p\<lparr>dp_status := PsInvalid e\<rparr>) (pg_plugins r)\<rparr>
    | None \<Rightarrow>
        let idx = (case map_of (pg_plugins r) (dp_name p) of
              None \<Rightarrow> pg_sink_index r
            | Some prev \<Rightarrow> unindex_prev prev (pg_sink_index r))
        in \<lparr>pg_plugins = bt_insert (dp_name p) p (bt_remove (dp_name p) (pg_plugins r)),
            pg_sink_index = fold (\<lambda>ty. bt_insert ty (dp_name p)) (ok_sinks p) idx\<rparr>)"

definition load_plugin :: "'v plugin_env \<Rightarrow> string \<Rightarrow> string \<Rightarrow> string \<Rightarrow> 'v discovered_plugin" where
  "load_plugin V dir manifest_path dir_name = (case manifest_from_path V manifest_path of
      Inr m \<Rightarrow>
        if mf_name m \<noteq> dir_name then
          \<lparr>dp_name = dir_name, dp_directory = dir, dp_manifest = Some m, dp_status =
             PsInvalid (''manifest name `'' @ mf_name m @ ''` does not match directory `'' @ dir_name @ ''`'')\<rparr>
        else \<lparr>dp_name = mf_name m, dp_directory = dir, dp_manifest = Some m, dp_status = PsOk\<rparr>
    | Inl e \<Rightarrow> \<lparr>dp_name = dir_name, dp_directory = dir, dp_manifest = None,
        dp_status = PsInvalid (plugin_error_text (pv_frame_text V) e)\<rparr>)"

text \<open>The loop over the entries of a directory, with the names seen in it.\<close>

fun scan_entries :: "'v plugin_env \<Rightarrow> string \<Rightarrow> string list \<Rightarrow> string list \<Rightarrow> 'v plugin_registry \<Rightarrow> 'v plugin_registry" where
  "scan_entries V root seen [] r = r"
| "scan_entries V root seen (e # es) r =
     (let dir = path_join root e; manifest_path = path_join dir ''plugin.toml''
      in if \<not> pv_is_dir V dir then scan_entries V root seen es r
         else if \<not> pv_is_file V manifest_path then scan_entries V root seen es r
         else if \<not> valid_utf8 e then scan_entries V root seen es r
         else let p = load_plugin V dir manifest_path e
           in if dp_name p \<in> set seen then scan_entries V root seen es r
              else scan_entries V root (dp_name p # seen) es (install p r))"

definition scan_root :: "'v plugin_env \<Rightarrow> string \<Rightarrow> 'v plugin_registry \<Rightarrow> 'v plugin_registry" where
  "scan_root V root r = (case pv_read_dir V root of Inl _ \<Rightarrow> r | Inr es \<Rightarrow> scan_entries V root [] es r)"

definition discover_plugins_in :: "'v plugin_env \<Rightarrow> string list \<Rightarrow> 'v plugin_registry" where
  "discover_plugins_in V roots = fold (scan_root V) roots empty_registry"

definition scan_roots :: "'v plugin_env \<Rightarrow> string \<Rightarrow> string list" where
  "scan_roots V cwd =
     (case pv_data_dir V of None \<Rightarrow> [] | Some d \<Rightarrow> [path_join d ''plugins'']) @
     (case pv_home V of
        None \<Rightarrow> []
      | Some h \<Rightarrow> (let legacy = path_join (path_join h ''.armillary'') ''plugins''
          in if pv_exists V legacy then [legacy] else [])) @
     (case pv_path_var V of
        None \<Rightarrow> []
      | Some v \<Rightarrow> filter (\<lambda>e. e \<noteq> []) (split_on (\<lambda>c. c = CHR '':'') v)) @
     [path_join cwd ''plugins'']"

definition discover_plugins :: "'v plugin_env \<Rightarrow> string \<Rightarrow> 'v plugin_registry" where
  "discover_plugins V cwd = discover_plugins_in V (scan_roots V cwd)"

section \<open>What validation accepts\<close>

definition sink_valid :: "'v sink_declaration \<Rightarrow> bool" where
  "sink_valid s \<longleftrightarrow> sink_type_re (sd_type s) \<and> trim (sd_display_name s) \<noteq> [] \<and> trim (sd_config_schema s) \<noteq> []"

lemma validate_sinks_None_iff:
  "validate_sinks seen ss = None \<longleftrightarrow>
     list_all sink_valid ss \<and> distinct (map sd_type ss) \<and> set (map sd_type ss) \<inter> set seen = {}"
  by (induction seen ss rule: validate_sinks.induct) (auto simp: sink_valid_def)

definition manifest_valid :: "'v plugin_env \<Rightarrow> 'v manifest \<Rightarrow> bool" where
  "manifest_valid V m \<longleftrightarrow> name_re (mf_name m) \<and> pv_semver V (mf_version m) = None \<and>
     pv_semver V (mf_min_version m) = None \<and> mf_protocol m = PROTOCOL_VERSION \<and> trim (mf_executable m) \<noteq> [] \<and>
     mf_sinks m \<noteq> [] \<and> list_all sink_valid (mf_sinks m) \<and> distinct (map sd_type (mf_sinks m))"

lemma validate_manifest_None_iff: "validate_manifest V path m = None \<longleftrightarrow> manifest_valid V m"
  by (auto simp: validate_manifest_def manifest_message_def manifest_valid_def validate_sinks_None_iff split: option.splits)

lemma manifest_from_path_Ok:
  "manifest_from_path V path = Ok m \<longleftrightarrow> (\<exists>input. pv_read V path = Ok input \<and> pv_toml V input = Ok m \<and> manifest_valid V m)"
  using validate_manifest_None_iff [of V path m]
  by (auto simp: manifest_from_path_def manifest_from_str_def split: sum.splits option.splits)

lemma load_plugin_name [simp]: "dp_name (load_plugin V dir path name) = name"
  by (simp add: load_plugin_def split: sum.split)

lemma load_plugin_Ok:
  "dp_status (load_plugin V dir path name) = PsOk \<longleftrightarrow>
     (\<exists>m. dp_manifest (load_plugin V dir path name) = Some m \<and> manifest_from_path V path = Ok m \<and> mf_name m = name)"
  by (auto simp: load_plugin_def split: sum.splits)

section \<open>The registry\<close>

text \<open>
  What every registry keeps: both maps are ordered, a plugin is stored under its name, the index
  names stored plugins, and each sink of a plugin in good order is indexed under it.
\<close>

definition registry_ok :: "'v plugin_registry \<Rightarrow> bool" where
  "registry_ok r \<longleftrightarrow> bt_wf (pg_plugins r) \<and> bt_wf (pg_sink_index r) \<and>
     (\<forall>n p. map_of (pg_plugins r) n = Some p \<longrightarrow> dp_name p = n) \<and>
     (\<forall>ty n. map_of (pg_sink_index r) ty = Some n \<longrightarrow> map_of (pg_plugins r) n \<noteq> None) \<and>
     (\<forall>n p ty. map_of (pg_plugins r) n = Some p \<longrightarrow> ty \<in> set (ok_sinks p) \<longrightarrow> map_of (pg_sink_index r) ty = Some n)"

text \<open>What holds of it while no plugin shadows another: the index leads to plugins that provide the sink.\<close>

definition index_sound :: "'v plugin_registry \<Rightarrow> bool" where
  "index_sound r \<longleftrightarrow>
     (\<forall>ty n. map_of (pg_sink_index r) ty = Some n \<longrightarrow> (\<exists>p. map_of (pg_plugins r) n = Some p \<and> ty \<in> set (ok_sinks p)))"

lemma sink_collision_None:
  "sink_collision idx name tys = None \<longleftrightarrow> (\<forall>ty \<in> set tys. map_of idx ty \<in> {None, Some name})"
  by (induction tys) (auto split: option.splits)

lemma unindex_prev_spec:
  assumes "bt_wf idx"
  shows "bt_wf (unindex_prev prev idx)"
    and "map_of (unindex_prev prev idx) ty =
      (if map_of idx ty = Some (dp_name prev) \<and>
          (\<exists>m. dp_manifest prev = Some m \<and> ty \<in> set (map sd_type (mf_sinks m))) then None else map_of idx ty)"
proof -
  have "bt_wf (fold (unindex_sink n) tys idx) \<and> map_of (fold (unindex_sink n) tys idx) ty =
    (if map_of idx ty = Some n \<and> ty \<in> set tys then None else map_of idx ty)" if "bt_wf idx" for n tys idx
    using that
    by (induction tys arbitrary: idx) (auto simp: unindex_sink_def bt_wf_remove map_of_bt_remove)
  note f = this [OF assms]
  show "bt_wf (unindex_prev prev idx)" using assms by (simp add: unindex_prev_def f split: option.split)
  show "map_of (unindex_prev prev idx) ty =
      (if map_of idx ty = Some (dp_name prev) \<and>
          (\<exists>m. dp_manifest prev = Some m \<and> ty \<in> set (map sd_type (mf_sinks m))) then None else map_of idx ty)"
    by (simp add: unindex_prev_def f split: option.split)
qed

lemma fold_index:
  assumes "bt_wf idx"
  shows "bt_wf (fold (\<lambda>ty. bt_insert ty n) tys idx) \<and>
    map_of (fold (\<lambda>ty. bt_insert ty n) tys idx) ty = (if ty \<in> set tys then Some n else map_of idx ty)"
  using assms by (induction tys arbitrary: idx) (auto simp: bt_wf_insert map_of_bt_insert)

lemma ok_sinks_invalid [simp]: "ok_sinks (p\<lparr>dp_status := PsInvalid e\<rparr>) = []"
  by (simp add: ok_sinks_def)

lemma ok_sinks_declared: "ty \<in> set (ok_sinks p) \<Longrightarrow> dp_status p = PsOk \<and> (\<exists>m. dp_manifest p = Some m \<and> ty \<in> set (map sd_type (mf_sinks m)))"
  by (cases "dp_status p"; cases "dp_manifest p") (auto simp: ok_sinks_def)

text \<open>The two maps after an installation, in each case.\<close>

lemma install_refused:
  assumes "registry_ok r" "sink_collision (pg_sink_index r) (dp_name p) (ok_sinks p) = Some e"
  shows "bt_wf (pg_plugins (install p r))" "pg_sink_index (install p r) = pg_sink_index r"
    "map_of (pg_plugins (install p r)) = (map_of (pg_plugins r))(dp_name p \<mapsto> p\<lparr>dp_status := PsInvalid e\<rparr>)"
  using assms by (simp_all add: install_def registry_ok_def bt_wf_insert map_of_bt_insert)

definition freed_index :: "'v discovered_plugin \<Rightarrow> 'v plugin_registry \<Rightarrow> (string \<times> string) list" where
  "freed_index p r = (case map_of (pg_plugins r) (dp_name p) of
      None \<Rightarrow> pg_sink_index r | Some prev \<Rightarrow> unindex_prev prev (pg_sink_index r))"

lemma install_accepted:
  assumes "registry_ok r" "sink_collision (pg_sink_index r) (dp_name p) (ok_sinks p) = None"
  shows "bt_wf (pg_plugins (install p r))" "bt_wf (pg_sink_index (install p r))"
    "map_of (pg_plugins (install p r)) = (map_of (pg_plugins r))(dp_name p \<mapsto> p)"
    "map_of (pg_sink_index (install p r)) ty = (if ty \<in> set (ok_sinks p) then Some (dp_name p) else map_of (freed_index p r) ty)"
proof -
  have wf: "bt_wf (pg_plugins r)" "bt_wf (pg_sink_index r)" using assms(1) by (simp_all add: registry_ok_def)
  have i: "install p r = \<lparr>pg_plugins = bt_insert (dp_name p) p (bt_remove (dp_name p) (pg_plugins r)),
      pg_sink_index = fold (\<lambda>ty. bt_insert ty (dp_name p)) (ok_sinks p) (freed_index p r)\<rparr>"
    using assms(2) by (simp add: install_def freed_index_def Let_def)
  have fr: "bt_wf (freed_index p r)"
    using wf by (simp add: freed_index_def unindex_prev_spec split: option.split)
  show "bt_wf (pg_plugins (install p r))"
    "map_of (pg_plugins (install p r)) = (map_of (pg_plugins r))(dp_name p \<mapsto> p)"
    using wf by (simp_all add: i bt_wf_insert bt_wf_remove map_of_bt_insert map_of_bt_remove)
  show "bt_wf (pg_sink_index (install p r))"
    "map_of (pg_sink_index (install p r)) ty = (if ty \<in> set (ok_sinks p) then Some (dp_name p) else map_of (freed_index p r) ty)"
    using fold_index [OF fr] by (simp_all add: i)
qed

lemma freed_index_Some:
  assumes "registry_ok r" "map_of (freed_index p r) ty = Some n"
  shows "map_of (pg_sink_index r) ty = Some n"
  using assms by (auto simp: freed_index_def registry_ok_def unindex_prev_spec split: option.splits if_splits)

lemma freed_index_other:
  assumes "registry_ok r" "map_of (pg_sink_index r) ty = Some n" "n \<noteq> dp_name p"
  shows "map_of (freed_index p r) ty = Some n"
  using assms by (auto simp: freed_index_def registry_ok_def unindex_prev_spec split: option.splits)

lemma registry_ok_install:
  assumes r: "registry_ok r"
  shows "registry_ok (install p r)"
proof (cases "sink_collision (pg_sink_index r) (dp_name p) (ok_sinks p)")
  case (Some e)
  from r show ?thesis
    unfolding registry_ok_def [of "install p r"] install_refused(2,3) [OF r Some]
    using install_refused(1) [OF r Some] by (auto simp: registry_ok_def)
next
  case None
  note a = install_accepted [OF r None]
  have free: "ty \<in> set (ok_sinks p) \<Longrightarrow> map_of (pg_sink_index r) ty \<in> {None, Some (dp_name p)}" for ty
    using None sink_collision_None by blast
  have keyed: "map_of (pg_plugins r) n = Some q \<Longrightarrow> dp_name q = n" for n q using r by (simp add: registry_ok_def)
  have dom: "map_of (pg_sink_index r) ty = Some n \<Longrightarrow> map_of (pg_plugins r) n \<noteq> None" for ty n
    using r by (simp add: registry_ok_def)
  have compl: "map_of (pg_plugins r) n = Some q \<Longrightarrow> ty \<in> set (ok_sinks q) \<Longrightarrow> map_of (pg_sink_index r) ty = Some n" for n q ty
    using r by (simp add: registry_ok_def)
  show ?thesis
    unfolding registry_ok_def a(3)
  proof (intro conjI allI impI)
    fix ty n
    assume "map_of (pg_sink_index (install p r)) ty = Some n"
    then show "((map_of (pg_plugins r))(dp_name p \<mapsto> p)) n \<noteq> None"
      by (cases "ty \<in> set (ok_sinks p)") (auto simp: a(4) dest!: freed_index_Some [OF r] dest: dom)
  next
    fix n q ty
    assume q: "((map_of (pg_plugins r))(dp_name p \<mapsto> p)) n = Some q" "ty \<in> set (ok_sinks q)"
    show "map_of (pg_sink_index (install p r)) ty = Some n"
    proof (cases "n = dp_name p")
      case True
      with q show ?thesis using a(4) [of ty] by simp
    next
      case False
      with q compl have "map_of (pg_sink_index r) ty = Some n" by simp
      moreover from this free [of ty] False have "ty \<notin> set (ok_sinks p)" by auto
      ultimately show ?thesis using freed_index_other [OF r] False by (simp add: a(4))
    qed
  qed (use a keyed in \<open>auto split: if_splits\<close>)
qed

lemma index_sound_install:
  assumes r: "registry_ok r" and s: "index_sound r" and new: "map_of (pg_plugins r) (dp_name p) = None"
  shows "index_sound (install p r)"
proof (cases "sink_collision (pg_sink_index r) (dp_name p) (ok_sinks p)")
  case (Some e)
  from s new show ?thesis
    unfolding index_sound_def install_refused(2,3) [OF r Some] by fastforce
next
  case None
  note a = install_accepted [OF r None]
  have "freed_index p r = pg_sink_index r" using new by (simp add: freed_index_def)
  then have "map_of (pg_sink_index (install p r)) ty = (if ty \<in> set (ok_sinks p) then Some (dp_name p) else map_of (pg_sink_index r) ty)" for ty
    by (simp add: a(4))
  moreover have "n \<noteq> dp_name p" if "map_of (pg_sink_index r) ty = Some n" for ty n
    using s new that unfolding index_sound_def by force
  ultimately show ?thesis using s unfolding index_sound_def a(3) by (simp add: fun_upd_def)
qed

section \<open>The scan\<close>

lemma registry_ok_empty: "registry_ok empty_registry" "index_sound empty_registry"
  by (simp_all add: registry_ok_def index_sound_def empty_registry_def)

text \<open>The names of the subdirectories that hold a manifest: the plugins of a root.\<close>

definition plugin_dir :: "'v plugin_env \<Rightarrow> string \<Rightarrow> string \<Rightarrow> bool" where
  "plugin_dir V root e \<longleftrightarrow> pv_is_dir V (path_join root e) \<and>
     pv_is_file V (path_join (path_join root e) ''plugin.toml'') \<and> valid_utf8 e"

definition plugin_dirs :: "'v plugin_env \<Rightarrow> string \<Rightarrow> string list" where
  "plugin_dirs V root = (case pv_read_dir V root of Inl _ \<Rightarrow> [] | Inr es \<Rightarrow> filter (plugin_dir V root) es)"

definition load_at :: "'v plugin_env \<Rightarrow> string \<Rightarrow> string \<Rightarrow> 'v discovered_plugin" where
  "load_at V root e = load_plugin V (path_join root e) (path_join (path_join root e) ''plugin.toml'') e"

lemma load_at_name [simp]: "dp_name (load_at V root e) = e"
  by (simp add: load_at_def)

lemma scan_entries_fold:
  "\<exists>es'. scan_entries V root seen es r = fold (\<lambda>e. install (load_at V root e)) es' r \<and>
     set es' \<subseteq> set (filter (plugin_dir V root) es) \<and>
     (distinct (filter (plugin_dir V root) es) \<and> set (filter (plugin_dir V root) es) \<inter> set seen = {} \<longrightarrow>
        es' = filter (plugin_dir V root) es)"
proof (induction V root seen es r rule: scan_entries.induct)
  case (1 V root seen r)
  show ?case by (intro exI [of _ "[]"]) simp
next
  case (2 V root seen e es r)
  show ?case
  proof (cases "plugin_dir V root e")
    case False
    then have skip: "scan_entries V root seen (e # es) r = scan_entries V root seen es r"
      by (auto simp: plugin_dir_def Let_def)
    from False 2(1-3) [OF refl refl] show ?thesis unfolding skip by (auto simp: plugin_dir_def)
  next
    case True
    then have d: "pv_is_dir V (path_join root e)" "pv_is_file V (path_join (path_join root e) ''plugin.toml'')" "valid_utf8 e"
      by (simp_all add: plugin_dir_def)
    show ?thesis
    proof (cases "e \<in> set seen")
      case seen: True
      then have skip: "scan_entries V root seen (e # es) r = scan_entries V root seen es r"
        by (simp add: Let_def)
      from 2(4) [OF refl refl] d seen obtain es' where
        "scan_entries V root seen es r = fold (\<lambda>e. install (load_at V root e)) es' r"
        "set es' \<subseteq> set (filter (plugin_dir V root) es)" by auto
      with seen True show ?thesis unfolding skip by (intro exI [of _ es']) auto
    next
      case new: False
      with d have step: "scan_entries V root seen (e # es) r = scan_entries V root (e # seen) es (install (load_at V root e) r)"
        by (simp add: Let_def load_at_def)
      from 2(5) [OF refl refl] d new obtain es' where
        "scan_entries V root (e # seen) es (install (load_at V root e) r) =
           fold (\<lambda>e. install (load_at V root e)) es' (install (load_at V root e) r)"
        "set es' \<subseteq> set (filter (plugin_dir V root) es)"
        "distinct (filter (plugin_dir V root) es) \<and> set (filter (plugin_dir V root) es) \<inter> set (e # seen) = {} \<longrightarrow>
           es' = filter (plugin_dir V root) es" by (auto simp: load_at_def)
      with True new show ?thesis unfolding step by (intro exI [of _ "e # es'"]) auto
    qed
  qed
qed

lemma scan_root_fold:
  "\<exists>es'. scan_root V root r = fold (\<lambda>e. install (load_at V root e)) es' r \<and> set es' \<subseteq> set (plugin_dirs V root) \<and>
     (distinct (plugin_dirs V root) \<longrightarrow> es' = plugin_dirs V root)"
proof (cases "pv_read_dir V root")
  case (Inl e)
  then show ?thesis by (intro exI [of _ "[]"]) (simp add: scan_root_def plugin_dirs_def)
next
  case (Inr es)
  with scan_entries_fold [of V root "[]" es r] show ?thesis by (simp add: scan_root_def plugin_dirs_def)
qed

text \<open>What every installation of a loaded plugin keeps holds of the registry.\<close>

lemma fold_install_induct:
  assumes "P r" "\<And>e r. P r \<Longrightarrow> P (install (load_at V root e) r)"
  shows "P (fold (\<lambda>e. install (load_at V root e)) es r)"
  using assms(1) by (induction es arbitrary: r) (simp_all add: assms(2))

lemma discover_induct:
  assumes "P empty_registry" and step: "\<And>root e r. P r \<Longrightarrow> P (install (load_at V root e) r)"
  shows "P (discover_plugins_in V roots)"
proof -
  have "P (fold (scan_root V) roots r)" if "P r" for r
    using that
  proof (induction roots arbitrary: r)
    case Nil
    then show ?case by simp
  next
    case (Cons root roots)
    obtain es' where "scan_root V root r = fold (\<lambda>e. install (load_at V root e)) es' r"
      using scan_root_fold by blast
    with fold_install_induct [of P r, OF Cons.prems step] Cons.IH show ?case by simp
  qed
  with assms(1) show ?thesis by (simp add: discover_plugins_in_def)
qed

lemma registry_ok_discover: "registry_ok (discover_plugins_in V roots)"
  by (rule discover_induct) (simp_all add: registry_ok_empty registry_ok_install)

lemma install_keys:
  assumes "registry_ok r"
  shows "dom (map_of (pg_plugins (install p r))) = insert (dp_name p) (dom (map_of (pg_plugins r)))"
  by (cases "sink_collision (pg_sink_index r) (dp_name p) (ok_sinks p)")
    (auto simp: install_refused(3) [OF assms] install_accepted(3) [OF assms])

lemma fold_install_sound:
  assumes "registry_ok r" "index_sound r" "distinct es" "set es \<inter> dom (map_of (pg_plugins r)) = {}"
  shows "index_sound (fold (\<lambda>e. install (load_at V root e)) es r)"
    and "dom (map_of (pg_plugins (fold (\<lambda>e. install (load_at V root e)) es r))) = set es \<union> dom (map_of (pg_plugins r))"
proof -
  have "index_sound (fold (\<lambda>e. install (load_at V root e)) es r) \<and>
      dom (map_of (pg_plugins (fold (\<lambda>e. install (load_at V root e)) es r))) = set es \<union> dom (map_of (pg_plugins r))"
    using assms
  proof (induction es arbitrary: r)
    case Nil
    then show ?case by simp
  next
    case (Cons e es)
    have "index_sound (install (load_at V root e) r)"
      by (rule index_sound_install) (use Cons.prems in auto)
    with Cons.IH [of "install (load_at V root e) r"] Cons.prems show ?case
      by (simp add: registry_ok_install install_keys)
  qed
  then show "index_sound (fold (\<lambda>e. install (load_at V root e)) es r)"
    "dom (map_of (pg_plugins (fold (\<lambda>e. install (load_at V root e)) es r))) = set es \<union> dom (map_of (pg_plugins r))"
    by simp_all
qed

lemma index_sound_discover:
  assumes "distinct (concat (map (plugin_dirs V) roots))"
  shows "index_sound (discover_plugins_in V roots)"
proof -
  have "index_sound (fold (scan_root V) roots r)"
    if "registry_ok r" "index_sound r" "distinct (concat (map (plugin_dirs V) roots))"
      "set (concat (map (plugin_dirs V) roots)) \<inter> dom (map_of (pg_plugins r)) = {}" for r
    using that
  proof (induction roots arbitrary: r)
    case Nil
    then show ?case by simp
  next
    case (Cons root roots)
    have s: "scan_root V root r = fold (\<lambda>e. install (load_at V root e)) (plugin_dirs V root) r"
      using scan_root_fold [of V root r] Cons.prems(3) by auto
    have "set (plugin_dirs V root) \<inter> dom (map_of (pg_plugins r)) = {}" using Cons.prems(4) by auto
    note f = fold_install_sound [OF Cons.prems(1,2) _ this, of V root]
    have "index_sound (fold (scan_root V) roots (scan_root V root r))"
      by (rule Cons.IH) (use Cons.prems f in \<open>auto simp: s fold_install_induct [of registry_ok] registry_ok_install\<close>)
    then show ?case by simp
  qed
  from this [of empty_registry] assms show ?thesis
    by (simp add: discover_plugins_in_def registry_ok_empty) (simp add: empty_registry_def)
qed

text \<open>A plugin in good order has a valid manifest of its own name.\<close>

definition plugins_loaded :: "'v plugin_env \<Rightarrow> 'v plugin_registry \<Rightarrow> bool" where
  "plugins_loaded V r \<longleftrightarrow> (\<forall>n p. map_of (pg_plugins r) n = Some p \<longrightarrow> dp_status p = PsOk \<longrightarrow>
     (\<exists>m. dp_manifest p = Some m \<and> manifest_valid V m \<and> mf_name m = dp_name p))"

lemma plugins_loaded_discover: "plugins_loaded V (discover_plugins_in V roots)"
proof -
  have "registry_ok (discover_plugins_in V roots) \<and> plugins_loaded V (discover_plugins_in V roots)"
  proof (rule discover_induct)
    show "registry_ok empty_registry \<and> plugins_loaded V empty_registry"
      by (simp add: registry_ok_empty plugins_loaded_def) (simp add: empty_registry_def)
  next
    fix root e r
    let ?p = "load_at V root e"
    assume r: "registry_ok r \<and> plugins_loaded V r"
    have p: "dp_status ?p = PsOk \<Longrightarrow> \<exists>m. dp_manifest ?p = Some m \<and> manifest_valid V m \<and> mf_name m = e"
      unfolding load_at_def load_plugin_Ok manifest_from_path_Ok by blast
    have "plugins_loaded V (install ?p r)"
    proof (cases "sink_collision (pg_sink_index r) (dp_name ?p) (ok_sinks ?p)")
      case (Some err)
      with r show ?thesis by (auto simp: plugins_loaded_def install_refused(3) split: if_splits)
    next
      case None
      with r p show ?thesis by (auto simp: plugins_loaded_def install_accepted(3) split: if_splits)
    qed
    with r show "registry_ok (install ?p r) \<and> plugins_loaded V (install ?p r)" by (simp add: registry_ok_install)
  qed
  then show ?thesis ..
qed

text \<open>Without any hypothesis: what a plugin in good order provides is found.\<close>

lemma ok_plugin_found:
  assumes "get_plugin (discover_plugins_in V roots) n = Some p" "ty \<in> set (ok_sinks p)"
  shows "find_sink (discover_plugins_in V roots) ty = Some p"
  using registry_ok_discover [of V roots] assms by (simp add: registry_ok_def get_plugin_def find_sink_def)

text \<open>
  C26: when no plugin directory has the name of another one, a sink type is found in the registry of a scan
  exactly when a plugin in good order declares it: its manifest passes validation and bears the
  name of its directory, and it is the plugin that is found.
\<close>

theorem discovered_sinks:
  assumes "distinct (concat (map (plugin_dirs V) roots))"
  shows "find_sink (discover_plugins_in V roots) ty = Some p \<longleftrightarrow>
    get_plugin (discover_plugins_in V roots) (dp_name p) = Some p \<and> dp_status p = PsOk \<and>
    (\<exists>m. dp_manifest p = Some m \<and> manifest_valid V m \<and> mf_name m = dp_name p \<and> ty \<in> set (map sd_type (mf_sinks m)))"
    (is "?l \<longleftrightarrow> ?r")
proof
  assume ?l
  then obtain n where n: "map_of (pg_sink_index (discover_plugins_in V roots)) ty = Some n"
      "map_of (pg_plugins (discover_plugins_in V roots)) n = Some p"
    by (auto simp: find_sink_def bind_eq_Some_conv)
  moreover from n index_sound_discover [OF assms] have "ty \<in> set (ok_sinks p)"
    by (fastforce simp: index_sound_def)
  moreover have "dp_name p = n" using n registry_ok_discover [of V roots] by (simp add: registry_ok_def)
  ultimately show ?r
    using plugins_loaded_discover [of V roots] ok_sinks_declared [of ty p]
    by (fastforce simp: plugins_loaded_def get_plugin_def)
next
  assume ?r
  then show ?l by (intro ok_plugin_found) (auto simp: ok_sinks_def)
qed

definition w_sink :: "string \<Rightarrow> unit sink_declaration" where
  "w_sink ty = \<lparr>sd_type = ty, sd_display_name = ''d'', sd_description = None, sd_config_schema = ''s'',
     sd_capabilities = \<lparr>kc_transactional = False, kc_upsert = False, kc_schema_validation = False,
       kc_materialization = None, kc_extra = []\<rparr>\<rparr>"

definition w_manifest :: "string \<Rightarrow> string list \<Rightarrow> unit manifest" where
  "w_manifest name tys = \<lparr>mf_name = name, mf_version = ''1.0.0'', mf_author = None, mf_description = None,
     mf_license = None, mf_homepage = None, mf_protocol = 1, mf_min_version = ''1.0.0'', mf_executable = ''x'',
     mf_args = [], mf_env = [], mf_sinks = map w_sink tys\<rparr>"

text \<open>Roots whose subdirectories are given with their manifests.\<close>

definition w_plugins :: "(string \<times> string list) list \<Rightarrow> (string \<times> unit manifest) list \<Rightarrow> unit plugin_env" where
  "w_plugins dirs files = \<lparr>pv_read_dir = (\<lambda>root. case map_of dirs root of None \<Rightarrow> Err ''none'' | Some es \<Rightarrow> Ok es),
     pv_is_dir = (\<lambda>_. True), pv_is_file = (\<lambda>_. True), pv_exists = (\<lambda>_. True), pv_read = Ok,
     pv_toml = (\<lambda>s. case map_of files s of None \<Rightarrow> Err ''toml'' | Some m \<Rightarrow> Ok m), pv_semver = (\<lambda>_. None),
     pv_frame_text = (\<lambda>_. []), pv_data_dir = None, pv_home = None, pv_path_var = None\<rparr>"

definition w_one_root :: "unit plugin_env" where
  "w_one_root = w_plugins [(''r'', [''a'', ''b''])] [(''r/a/plugin.toml'', w_manifest ''a'' [''x'']), (''r/b/plugin.toml'', w_manifest ''b'' [''y''])]"

definition w_b :: "unit discovered_plugin" where
  "w_b = \<lparr>dp_name = ''b'', dp_directory = ''r/b'', dp_manifest = Some (w_manifest ''b'' [''y'']), dp_status = PsOk\<rparr>"

theorem discovered_sinks_witness: "find_sink (discover_plugins_in w_one_root [''r'']) ''y'' = Some w_b"
proof -
  have d: "distinct (concat (map (plugin_dirs w_one_root) [''r'']))" by code_simp
  have g: "get_plugin (discover_plugins_in w_one_root [''r'']) (dp_name w_b) = Some w_b" "dp_status w_b = PsOk"
      "dp_manifest w_b = Some (w_manifest ''b'' [''y''])" "manifest_valid w_one_root (w_manifest ''b'' [''y''])"
      "mf_name (w_manifest ''b'' [''y'']) = dp_name w_b" "''y'' \<in> set (map sd_type (mf_sinks (w_manifest ''b'' [''y''])))"
    by code_simp+
  show ?thesis unfolding discovered_sinks [OF d] using g by blast
qed

text \<open>
  With shadowing it fails: the copy of \<open>a\<close> in the second root collides with \<open>b\<close>, and the refused copy
  replaces the entry of the first one but leaves its sinks in the index.
\<close>

definition w_shadowed :: "unit plugin_env" where
  "w_shadowed = w_plugins [(''r'', [''a'', ''b'']), (''q'', [''a''])]
     [(''r/a/plugin.toml'', w_manifest ''a'' [''x'']), (''r/b/plugin.toml'', w_manifest ''b'' [''y'']),
      (''q/a/plugin.toml'', w_manifest ''a'' [''y''])]"

lemma stale_sink_found:
  "map_option dp_status (find_sink (discover_plugins_in w_shadowed [''r'', ''q'']) ''x'') =
     Some (PsInvalid ''sink type `y` already provided by plugin `b`'')"
  by code_simp

end
