(* ===== verification/Connectors.thy ===== *)
theory Connectors
  imports Plugin_Registry Pipeline_Model
begin

text \<open>
  \<open>config.rs\<close>, \<open>registry.rs\<close> and \<open>lib.rs\<close> of the connectors, with the checks that their sinks make of a
  configuration: the typed configurations, the registry of the built-in and plugin connectors, and
  the validation of a pipeline against it.  \<open>serde\<close> reads the configurations and is a parameter; an
  error is a constructor with what its message shows.
\<close>

section \<open>Configurations\<close>

datatype file_format = FfCsv | FfParquet

datatype file_write_mode = FwOverwrite | FwAppend

record file_options =
  fo_delimiter :: "string option"
  fo_has_header :: "bool option"
  fo_quote_char :: "string option"
  fo_null_values :: "string list"
  fo_compression :: "string option"
  fo_row_group_size :: "nat option"
  fo_write_mode :: "file_write_mode option"

record file_config =
  fc_path :: string
  fc_format :: file_format
  fc_options :: file_options
  fc_partition_cols :: "string list option"
  fc_storage_options :: "(string \<times> string) list"

record postgres_config =
  pc_connection_string :: string
  pc_table :: "string option"
  pc_query :: "string option"
  pc_batch_size :: "nat option"
  pc_indexes :: "string list list"

datatype rest_auth = RaBasic string string | RaBearer string | RaApiKey string string

datatype response_format = RfJson | RfNdjson | RfCsv

datatype pagination_config = PgOffset string string nat | PgCursor string string | PgLinkHeader

record rest_config =
  rc_url :: string
  rc_method :: string
  rc_headers :: "(string \<times> string) list"
  rc_auth :: "rest_auth option"
  rc_response_format :: response_format
  rc_data_path :: "string option"
  rc_pagination :: "pagination_config option"
  rc_schema :: "(string \<times> string) list"
  rc_rate_limit_ms :: "u64 option"
  rc_max_retries :: "u32 option"
  rc_max_pages :: "nat option"

datatype stdout_format = SfTable | SfCsv | SfJson | SfNdjson

record stdout_config =
  so_format :: stdout_format
  so_max_rows :: "nat option"

datatype connector_config = CfFile file_config | CfPostgres postgres_config | CfRest rest_config | CfStdout stdout_config

text \<open>Reading of each configuration, with the text of the error, and lower case.\<close>

record config_readers =
  cr_file :: "json \<Rightarrow> string + file_config"
  cr_postgres :: "json \<Rightarrow> string + postgres_config"
  cr_rest :: "json \<Rightarrow> string + rest_config"
  cr_stdout :: "json \<Rightarrow> string + stdout_config"
  cr_lower :: "string \<Rightarrow> string"

definition valid_config_keys :: "string \<Rightarrow> string list option" where
  "valid_config_keys connector =
     (if connector \<in> {''file'', ''csv'', ''parquet''} then
        Some [''path'', ''format'', ''options'', ''table_partition_cols'', ''storage_options'']
      else if connector \<in> {''postgresql'', ''postgres''} then
        Some [''connection_string'', ''table'', ''query'', ''batch_size'', ''indexes'']
      else if connector \<in> {''rest_api'', ''rest'', ''http''} then
        Some [''url'', ''method'', ''headers'', ''auth'', ''response_format'', ''data_path'', ''pagination'', ''schema'',
          ''rate_limit_ms'', ''max_retries'', ''max_pages'']
      else if connector = ''stdout'' then Some [''format'', ''max_rows'']
      else None)"

definition config_from_json :: "config_readers \<Rightarrow> string \<Rightarrow> json \<Rightarrow> string + connector_config" where
  "config_from_json R connector v =
     (if connector \<in> {''file'', ''csv'', ''parquet''} then map_sum id CfFile (cr_file R v)
      else if connector \<in> {''postgresql'', ''postgres''} then map_sum id CfPostgres (cr_postgres R v)
      else if connector \<in> {''rest_api'', ''rest'', ''http''} then map_sum id CfRest (cr_rest R v)
      else if connector = ''stdout'' then map_sum id CfStdout (cr_stdout R v)
      else Err (''unknown connector type: '' @ connector))"

section \<open>What each sink checks\<close>

datatype sink_error =
    FileConfigInvalid string | FileStrategyUnsupported file_format write_strategy | FilePathEmpty | FilePathGlob
  | CloudAppend | CodecUnsupported string
  | PgConfigInvalid string | PgTableMissing | PgConnectionMissing | PgKeysRequired write_strategy
  | PgInsertOverwrite | PgSnapshotBlockRequired
  | StdoutConfigInvalid string
  | PluginMissing string | PluginNotLoadable string string | PluginWithoutManifest string
  | PluginSinkUndeclared string string | PluginStrategyUnsupported string string string
  | PluginSchemaChangeUnsupported string string string "string list"

subsection \<open>Files\<close>

datatype cloud_scheme = CsS3 | CsGcs | CsAzure | CsHttps | CsLocal

definition detect_scheme :: "string \<Rightarrow> cloud_scheme" where
  "detect_scheme path =
     (if starts_with ''s3://'' path \<or> starts_with ''s3a://'' path then CsS3
      else if starts_with ''gs://'' path then CsGcs
      else if starts_with ''az://'' path \<or> starts_with ''abfs://'' path then CsAzure
      else if starts_with ''https://'' path \<or> starts_with ''http://'' path then CsHttps
      else CsLocal)"

definition is_cloud_url :: "string \<Rightarrow> bool" where
  "is_cloud_url path = (detect_scheme path \<noteq> CsLocal)"

datatype compression = CoSnappy | CoGzip | CoZstd | CoLz4 | CoUncompressed

definition parse_compression :: "config_readers \<Rightarrow> string \<Rightarrow> sink_error + compression" where
  "parse_compression R codec =
     (let c = cr_lower R codec
      in if c = ''snappy'' then Ok CoSnappy
         else if c = ''gzip'' then Ok CoGzip
         else if c = ''zstd'' then Ok CoZstd
         else if c = ''lz4'' then Ok CoLz4
         else if c = ''none'' \<or> c = ''uncompressed'' then Ok CoUncompressed
         else Err (CodecUnsupported c))"

fun check_strategy_supported :: "file_format \<Rightarrow> write_strategy \<Rightarrow> sink_error + unit" where
  "check_strategy_supported f Append = Ok ()"
| "check_strategy_supported FfParquet TruncateInsert = Ok ()"
| "check_strategy_supported FfCsv TruncateInsert = Err (FileStrategyUnsupported FfCsv TruncateInsert)"
| "check_strategy_supported f Merge = Err (FileStrategyUnsupported f Merge)"
| "check_strategy_supported f DeleteInsert = Err (FileStrategyUnsupported f DeleteInsert)"
| "check_strategy_supported FfParquet InsertOverwrite = Ok ()"
| "check_strategy_supported FfCsv InsertOverwrite = Err (FileStrategyUnsupported FfCsv InsertOverwrite)"
| "check_strategy_supported FfParquet Snapshot = Ok ()"
| "check_strategy_supported FfCsv Snapshot = Err (FileStrategyUnsupported FfCsv Snapshot)"

definition file_validate_config :: "config_readers \<Rightarrow> sink_config \<Rightarrow> sink_error + unit" where
  "file_validate_config R cfg = (case cr_file R (snk_config cfg) of
      Inl e \<Rightarrow> Err (FileConfigInvalid e)
    | Inr fc \<Rightarrow>
       (case (case snk_materialization cfg of None \<Rightarrow> Ok ()
              | Some policy \<Rightarrow> check_strategy_supported (fc_format fc) (mp_write_strategy policy)) of
          Inl e \<Rightarrow> Err e
        | Inr _ \<Rightarrow>
           if fc_path fc = [] then Err FilePathEmpty
           else if set (fc_path fc) \<inter> set ''*?['' \<noteq> {} then Err FilePathGlob
           else if is_cloud_url (fc_path fc) \<and> fo_write_mode (fc_options fc) = Some FwAppend then Err CloudAppend
           else (case (fc_format fc, fo_compression (fc_options fc)) of
               (FfParquet, Some codec) \<Rightarrow> map_sum id (\<lambda>_. ()) (parse_compression R codec)
             | _ \<Rightarrow> Ok ())))"

subsection \<open>Postgres and standard output\<close>

datatype pg_write = PwAppend | PwUpsert "string list" | PwTruncateInsert | PwDeleteInsert "string list"
  | PwSnapshot "string list" snapshot_policy

definition pg_write_from_policy :: "materialization_policy option \<Rightarrow> sink_error + pg_write" where
  "pg_write_from_policy policy = (case policy of
      None \<Rightarrow> Ok PwAppend
    | Some p \<Rightarrow>
       (let keys = (case mp_unique_keys p of None \<Rightarrow> [] | Some ks \<Rightarrow> ks)
        in case mp_write_strategy p of
             Append \<Rightarrow> Ok PwAppend
           | Merge \<Rightarrow> if keys = [] then Err (PgKeysRequired Merge) else Ok (PwUpsert keys)
           | TruncateInsert \<Rightarrow> Ok PwTruncateInsert
           | DeleteInsert \<Rightarrow> if keys = [] then Err (PgKeysRequired DeleteInsert) else Ok (PwDeleteInsert keys)
           | InsertOverwrite \<Rightarrow> Err PgInsertOverwrite
           | Snapshot \<Rightarrow>
               if keys = [] then Err (PgKeysRequired Snapshot)
               else (case mp_snapshot p of
                   None \<Rightarrow> Err PgSnapshotBlockRequired
                 | Some sp \<Rightarrow> Ok (PwSnapshot keys sp))))"

definition pg_validate_config :: "config_readers \<Rightarrow> sink_config \<Rightarrow> sink_error + unit" where
  "pg_validate_config R cfg = (case cr_postgres R (snk_config cfg) of
      Inl e \<Rightarrow> Err (PgConfigInvalid e)
    | Inr pc \<Rightarrow>
        if pc_table pc = None then Err PgTableMissing
        else if pc_connection_string pc = [] then Err PgConnectionMissing
        else map_sum id (\<lambda>_. ()) (pg_write_from_policy (snk_materialization cfg)))"

definition stdout_validate_config :: "config_readers \<Rightarrow> sink_config \<Rightarrow> sink_error + unit" where
  "stdout_validate_config R cfg = (case cr_stdout R (snk_config cfg) of
      Inl e \<Rightarrow> Err (StdoutConfigInvalid e) | Inr _ \<Rightarrow> Ok ())"

subsection \<open>Plugins\<close>

definition append_only :: materialization_capabilities where
  "append_only = \<lparr>mc_append = True, mc_merge = False, mc_delete_insert = False, mc_insert_overwrite = False,
     mc_truncate_insert = False, mc_snapshot = False, mc_on_schema_change = []\<rparr>"

definition check_materialization_against_plugin ::
  "'v discovered_plugin \<Rightarrow> string \<Rightarrow> materialization_policy option \<Rightarrow> sink_error + unit" where
  "check_materialization_against_plugin plugin ty policy = (case dp_status plugin of
      PsInvalid e \<Rightarrow> Err (PluginNotLoadable (dp_name plugin) e)
    | PsOk \<Rightarrow> (case dp_manifest plugin of
        None \<Rightarrow> Err (PluginWithoutManifest (dp_name plugin))
      | Some m \<Rightarrow> (case find (\<lambda>s. sd_type s = ty) (mf_sinks m) of
          None \<Rightarrow> Err (PluginSinkUndeclared (dp_name plugin) ty)
        | Some decl \<Rightarrow>
           (let caps = (case kc_materialization (sd_capabilities decl) of None \<Rightarrow> append_only | Some c \<Rightarrow> c)
            in case policy of
                 None \<Rightarrow> Ok ()
               | Some p \<Rightarrow>
                  (let strategy = write_strategy_str (mp_write_strategy p);
                       change = on_schema_change_str (mp_on_schema_change p)
                   in if \<not> supports_strategy caps strategy then Err (PluginStrategyUnsupported (dp_name plugin) ty strategy)
                      else if mc_on_schema_change caps \<noteq> [] \<and> \<not> supports_on_schema_change caps change then
                        Err (PluginSchemaChangeUnsupported (dp_name plugin) ty change (mc_on_schema_change caps))
                      else Ok ())))))"

definition plugin_validate_config :: "'v plugin_registry \<Rightarrow> sink_config \<Rightarrow> sink_error + unit" where
  "plugin_validate_config plugins cfg = (case find_sink plugins (snk_connector cfg) of
      None \<Rightarrow> Err (PluginMissing (snk_connector cfg))
    | Some plugin \<Rightarrow> check_materialization_against_plugin plugin (snk_connector cfg) (snk_materialization cfg))"

section \<open>The registry of connectors\<close>

text \<open>The implementations behind \<open>dyn SourceConnector\<close> and \<open>dyn PipelineSink\<close>.\<close>

datatype source_impl = FileSource | PostgresSource | RestApiSource

datatype 'v sink_impl = FileSink | PostgresSink | StdoutSink | PluginSink "'v plugin_registry"

record 'v connector_registry =
  rg_sources :: "(string \<times> source_impl) list"
  rg_sinks :: "(string \<times> 'v sink_impl) list"

definition new_registry :: "'v connector_registry" where
  "new_registry = \<lparr>rg_sources = [], rg_sinks = []\<rparr>"

definition register_source :: "string \<Rightarrow> source_impl \<Rightarrow> 'v connector_registry \<Rightarrow> 'v connector_registry" where
  "register_source connector s r = r\<lparr>rg_sources := AList.update connector s (rg_sources r)\<rparr>"

definition register_sink :: "string \<Rightarrow> 'v sink_impl \<Rightarrow> 'v connector_registry \<Rightarrow> 'v connector_registry" where
  "register_sink connector s r = r\<lparr>rg_sinks := AList.update connector s (rg_sinks r)\<rparr>"

definition source_names :: "'v connector_registry \<Rightarrow> string list" where
  "source_names r = sort (map fst (rg_sources r))"

definition sink_names :: "'v connector_registry \<Rightarrow> string list" where
  "sink_names r = sort (map fst (rg_sinks r))"

definition connector_names :: "'v connector_registry \<Rightarrow> string list" where
  "connector_names r = remdups_adj (sort (map fst (rg_sources r) @ map fst (rg_sinks r)))"

definition get_source :: "'v connector_registry \<Rightarrow> string \<Rightarrow> source_impl option" where
  "get_source r connector = map_of (rg_sources r) connector"

definition get_sink :: "'v connector_registry \<Rightarrow> string \<Rightarrow> 'v sink_impl option" where
  "get_sink r connector = map_of (rg_sinks r) connector"

definition default_registry :: "'v connector_registry" where
  "default_registry =
     register_sink ''stdout'' StdoutSink
     (register_sink ''postgres'' PostgresSink (register_sink ''postgresql'' PostgresSink
     (register_sink ''parquet'' FileSink (register_sink ''csv'' FileSink (register_sink ''file'' FileSink
     (register_source ''http'' RestApiSource (register_source ''rest'' RestApiSource (register_source ''rest_api'' RestApiSource
     (register_source ''postgres'' PostgresSource (register_source ''postgresql'' PostgresSource
     (register_source ''parquet'' FileSource (register_source ''csv'' FileSource (register_source ''file'' FileSource
     new_registry)))))))))))))"

definition add_plugin_sink :: "'v plugin_registry \<Rightarrow> string \<Rightarrow> 'v connector_registry \<Rightarrow> 'v connector_registry" where
  "add_plugin_sink plugins ty r = (case get_sink r ty of
      Some _ \<Rightarrow> r
    | None \<Rightarrow> register_sink ty (PluginSink plugins) r)"

definition default_registry_with_plugins :: "'v plugin_registry \<Rightarrow> 'v connector_registry" where
  "default_registry_with_plugins plugins =
     fold (\<lambda>p. fold (add_plugin_sink plugins) (ok_sinks p)) (iter_plugins plugins) default_registry"

text \<open>\<open>ProviderRegistry\<close>, what the executor looks connectors up in.\<close>

record 'v provider_registry =
  vg_sources :: "(string \<times> source_impl) list"
  vg_sinks :: "(string \<times> 'v sink_impl) list"

definition to_provider_registry ::
  "((string \<times> source_impl) list \<Rightarrow> (string \<times> source_impl) list) \<Rightarrow>
   ((string \<times> 'v sink_impl) list \<Rightarrow> (string \<times> 'v sink_impl) list) \<Rightarrow> 'v connector_registry \<Rightarrow> 'v provider_registry" where
  "to_provider_registry ord1 ord2 r =
     \<lparr>vg_sources = fold (\<lambda>(n, s). AList.update n s) (ord1 (rg_sources r)) [],
      vg_sinks = fold (\<lambda>(n, s). AList.update n s) (ord2 (rg_sinks r)) []\<rparr>"

section \<open>Validation of a pipeline\<close>

datatype connector_check = CkSourceUnregistered node_id string | CkSinkUnregistered node_id string
  | CkSinkInvalid node_id sink_error | CkOverrideTransform string node_id
  | CkOverrideKey string node_id string string "string list"

definition sink_validate :: "config_readers \<Rightarrow> 'v sink_impl \<Rightarrow> sink_config \<Rightarrow> sink_error + unit" where
  "sink_validate R impl cfg = (case impl of
      FileSink \<Rightarrow> file_validate_config R cfg
    | PostgresSink \<Rightarrow> pg_validate_config R cfg
    | StdoutSink \<Rightarrow> stdout_validate_config R cfg
    | PluginSink plugins \<Rightarrow> plugin_validate_config plugins cfg)"

text \<open>\<open>None\<close>: the branch of a snippet is \<open>unreachable!\<close> and panics.\<close>

definition check_node :: "config_readers \<Rightarrow> 'v connector_registry \<Rightarrow> node \<Rightarrow> connector_check list option" where
  "check_node R reg n = (case n_kind n of
      Source cfg \<Rightarrow> Some (if map_of (rg_sources reg) (src_connector cfg) = None
        then [CkSourceUnregistered (n_id n) (src_connector cfg)] else [])
    | Sink cfg \<Rightarrow> Some (case map_of (rg_sinks reg) (snk_connector cfg) of
          None \<Rightarrow> [CkSinkUnregistered (n_id n) (snk_connector cfg)]
        | Some impl \<Rightarrow> (case sink_validate R impl cfg of Inl e \<Rightarrow> [CkSinkInvalid (n_id n) e] | Inr _ \<Rightarrow> []))
    | Transform _ \<Rightarrow> Some []
    | Test _ \<Rightarrow> Some []
    | Snippet _ \<Rightarrow> None)"

fun check_nodes :: "config_readers \<Rightarrow> 'v connector_registry \<Rightarrow> node list \<Rightarrow> connector_check list option" where
  "check_nodes R reg [] = Some []"
| "check_nodes R reg (n # ns) = (case check_node R reg n of
      None \<Rightarrow> None
    | Some es \<Rightarrow> map_option ((@) es) (check_nodes R reg ns))"

definition node_connectors :: "node list \<Rightarrow> (node_id \<times> string) list" where
  "node_connectors ns = fold (\<lambda>n m. case n_kind n of
      Source cfg \<Rightarrow> AList.update (n_id n) (src_connector cfg) m
    | Sink cfg \<Rightarrow> AList.update (n_id n) (snk_connector cfg) m
    | _ \<Rightarrow> m) ns []"

definition check_override :: "node list \<Rightarrow> string \<Rightarrow> node_id \<times> json \<Rightarrow> connector_check list" where
  "check_override ns env_name = (\<lambda>(i, v). case map_of (node_connectors ns) i of
      None \<Rightarrow> if list_ex (\<lambda>n. n_id n = i \<and> is_transform (n_kind n)) ns then [CkOverrideTransform env_name i] else []
    | Some connector \<Rightarrow> (case valid_config_keys connector of
        None \<Rightarrow> []
      | Some ks \<Rightarrow> (case v of
          JObject kvs \<Rightarrow> map (\<lambda>k. CkOverrideKey env_name i k connector ks) (filter (\<lambda>k. k \<notin> set ks) (map fst kvs))
        | _ \<Rightarrow> [])))"

definition validate_pipeline :: "config_readers \<Rightarrow> 'v connector_registry \<Rightarrow> pipeline \<Rightarrow> (connector_check list + unit) option" where
  "validate_pipeline R reg p = (case check_nodes R reg (p_nodes p) of
      None \<Rightarrow> None
    | Some es \<Rightarrow>
       (let errors = es @ concat (map (\<lambda>(env_name, ovs). concat (map (check_override (p_nodes p) env_name) ovs))
              (p_environment_overrides p))
        in Some (if errors = [] then Ok () else Err errors)))"

text \<open>\<open>ConnectorError\<close>, which nothing constructs.\<close>

datatype connector_error = CnUnknown string | CnInvalidConfig sink_error | CnValidationFailed string string

section \<open>The connectors of the registry\<close>

lemma default_sources:
  "map_of (rg_sources default_registry) c \<noteq> None \<longleftrightarrow>
     c \<in> {''file'', ''csv'', ''parquet'', ''postgresql'', ''postgres'', ''rest_api'', ''rest'', ''http''}"
  by (simp add: default_registry_def register_source_def register_sink_def new_registry_def update_conv')

lemma default_sinks:
  "map_of (rg_sinks default_registry) c =
     (if c \<in> {''file'', ''csv'', ''parquet''} then Some FileSink
      else if c \<in> {''postgresql'', ''postgres''} then Some PostgresSink
      else if c = ''stdout'' then Some StdoutSink else None)"
  by (simp add: default_registry_def register_source_def register_sink_def new_registry_def update_conv')

lemma add_plugin_sink_spec:
  "rg_sources (add_plugin_sink plugins ty r) = rg_sources r"
  "map_of (rg_sinks (add_plugin_sink plugins ty r)) c =
     (case map_of (rg_sinks r) c of Some i \<Rightarrow> Some i | None \<Rightarrow> if c = ty then Some (PluginSink plugins) else None)"
  by (auto simp: add_plugin_sink_def get_sink_def register_sink_def update_conv' split: option.split)

lemma fold_plugin_sinks:
  "rg_sources (fold (add_plugin_sink plugins) tys r) = rg_sources r"
  "map_of (rg_sinks (fold (add_plugin_sink plugins) tys r)) c =
     (case map_of (rg_sinks r) c of Some i \<Rightarrow> Some i | None \<Rightarrow> if c \<in> set tys then Some (PluginSink plugins) else None)"
  by (induction tys arbitrary: r) (auto simp: add_plugin_sink_spec split: option.splits if_splits)

lemma with_plugins_fold:
  "rg_sources (fold (\<lambda>p. fold (add_plugin_sink plugins) (ok_sinks p)) ps r) = rg_sources r"
  "map_of (rg_sinks (fold (\<lambda>p. fold (add_plugin_sink plugins) (ok_sinks p)) ps r)) c =
     (case map_of (rg_sinks r) c of Some i \<Rightarrow> Some i
      | None \<Rightarrow> if \<exists>p \<in> set ps. c \<in> set (ok_sinks p) then Some (PluginSink plugins) else None)"
  by (induction ps arbitrary: r) (auto simp: fold_plugin_sinks split: option.splits if_splits)

lemma registry_sources:
  "map_of (rg_sources (default_registry_with_plugins plugins)) c \<noteq> None \<longleftrightarrow>
     c \<in> {''file'', ''csv'', ''parquet'', ''postgresql'', ''postgres'', ''rest_api'', ''rest'', ''http''}"
  unfolding default_registry_with_plugins_def with_plugins_fold by (rule default_sources)

lemma registry_sinks:
  "map_of (rg_sinks (default_registry_with_plugins plugins)) c =
     (case map_of (rg_sinks default_registry) c of Some i \<Rightarrow> Some i
      | None \<Rightarrow> if \<exists>p \<in> set (iter_plugins plugins). c \<in> set (ok_sinks p) then Some (PluginSink plugins) else None)"
  by (simp add: default_registry_with_plugins_def with_plugins_fold)

section \<open>What validation accepts\<close>

text \<open>The capabilities a sink of a plugin has, and what a policy asks of them.\<close>

definition declared_capabilities :: "'v sink_declaration \<Rightarrow> materialization_capabilities" where
  "declared_capabilities d = (case kc_materialization (sd_capabilities d) of None \<Rightarrow> append_only | Some c \<Rightarrow> c)"

definition policy_supported :: "materialization_capabilities \<Rightarrow> materialization_policy option \<Rightarrow> bool" where
  "policy_supported caps policy = (case policy of
      None \<Rightarrow> True
    | Some p \<Rightarrow> supports_strategy caps (write_strategy_str (mp_write_strategy p)) \<and>
        (mc_on_schema_change caps = [] \<or> on_schema_change_str (mp_on_schema_change p) \<in> set (mc_on_schema_change caps)))"

definition plugin_provides :: "'v plugin_env \<Rightarrow> 'v plugin_registry \<Rightarrow> sink_config \<Rightarrow> 'v discovered_plugin \<Rightarrow> bool" where
  "plugin_provides V plugins cfg q \<longleftrightarrow> get_plugin plugins (dp_name q) = Some q \<and> dp_status q = PsOk \<and>
     (\<exists>m d. dp_manifest q = Some m \<and> manifest_valid V m \<and> d \<in> set (mf_sinks m) \<and> sd_type d = snk_connector cfg \<and>
       policy_supported (declared_capabilities d) (snk_materialization cfg))"

definition sink_ready :: "config_readers \<Rightarrow> 'v plugin_env \<Rightarrow> 'v plugin_registry \<Rightarrow> sink_config \<Rightarrow> bool" where
  "sink_ready R V plugins cfg \<longleftrightarrow>
     (if snk_connector cfg \<in> {''file'', ''csv'', ''parquet''} then is_ok (file_validate_config R cfg)
      else if snk_connector cfg \<in> {''postgresql'', ''postgres''} then is_ok (pg_validate_config R cfg)
      else if snk_connector cfg = ''stdout'' then is_ok (stdout_validate_config R cfg)
      else \<exists>q. plugin_provides V plugins cfg q)"

definition node_ready :: "config_readers \<Rightarrow> 'v plugin_env \<Rightarrow> 'v plugin_registry \<Rightarrow> node \<Rightarrow> bool" where
  "node_ready R V plugins n = (case n_kind n of
      Source cfg \<Rightarrow> src_connector cfg \<in> {''file'', ''csv'', ''parquet'', ''postgresql'', ''postgres'', ''rest_api'', ''rest'', ''http''}
    | Sink cfg \<Rightarrow> sink_ready R V plugins cfg
    | Snippet _ \<Rightarrow> False
    | _ \<Rightarrow> True)"

definition keys_valid :: "string \<Rightarrow> json \<Rightarrow> bool" where
  "keys_valid connector v = (case valid_config_keys connector of
      None \<Rightarrow> True
    | Some ks \<Rightarrow> (case v of JObject kvs \<Rightarrow> fst ` set kvs \<subseteq> set ks | _ \<Rightarrow> True))"

definition override_ready :: "node list \<Rightarrow> node_id \<times> json \<Rightarrow> bool" where
  "override_ready ns = (\<lambda>(i, v). \<forall>n \<in> set ns. n_id n = i \<longrightarrow> (case n_kind n of
      Source cfg \<Rightarrow> keys_valid (src_connector cfg) v
    | Sink cfg \<Rightarrow> keys_valid (snk_connector cfg) v
    | Transform _ \<Rightarrow> False
    | _ \<Rightarrow> True))"

lemma check_materialization_ok:
  assumes "dp_status q = PsOk" "dp_manifest q = Some m" "find (\<lambda>s. sd_type s = ty) (mf_sinks m) = Some d"
  shows "is_ok (check_materialization_against_plugin q ty policy) \<longleftrightarrow> policy_supported (declared_capabilities d) policy"
  using assms
  by (simp add: check_materialization_against_plugin_def policy_supported_def declared_capabilities_def
      supports_on_schema_change_def Let_def split: option.split)

lemma find_declared:
  assumes "manifest_valid V m" "d \<in> set (mf_sinks m)"
  shows "find (\<lambda>s. sd_type s = sd_type d) (mf_sinks m) = Some d"
proof -
  have "distinct (map sd_type (mf_sinks m))" using assms(1) by (simp add: manifest_valid_def)
  with assms(2) show ?thesis by (rule find_distinct_key)
qed

lemma provided_is_found:
  assumes "plugin_provides V (discover_plugins_in V roots) cfg q"
  shows "is_ok (plugin_validate_config (discover_plugins_in V roots) cfg)"
    and "\<exists>p \<in> set (iter_plugins (discover_plugins_in V roots)). snk_connector cfg \<in> set (ok_sinks p)"
proof -
  from assms obtain m d where q: "get_plugin (discover_plugins_in V roots) (dp_name q) = Some q" "dp_status q = PsOk"
      "dp_manifest q = Some m" "manifest_valid V m" "d \<in> set (mf_sinks m)" "sd_type d = snk_connector cfg"
      "policy_supported (declared_capabilities d) (snk_materialization cfg)"
    by (auto simp: plugin_provides_def)
  have ty: "snk_connector cfg \<in> set (ok_sinks q)" using q by (force simp: ok_sinks_def)
  from ok_plugin_found [OF q(1) ty] check_materialization_ok [OF q(2,3)] find_declared [OF q(4,5)] q(6,7)
  show "is_ok (plugin_validate_config (discover_plugins_in V roots) cfg)" by (simp add: plugin_validate_config_def)
  have "q \<in> set (iter_plugins (discover_plugins_in V roots))"
    using q(1) by (force simp: get_plugin_def iter_plugins_def dest: map_of_SomeD)
  with ty show "\<exists>p \<in> set (iter_plugins (discover_plugins_in V roots)). snk_connector cfg \<in> set (ok_sinks p)" ..
qed

lemma plugin_ready_iff:
  "(\<exists>p \<in> set (iter_plugins (discover_plugins_in V roots)). snk_connector cfg \<in> set (ok_sinks p)) \<and>
     is_ok (plugin_validate_config (discover_plugins_in V roots) cfg) \<longleftrightarrow>
   (\<exists>q. plugin_provides V (discover_plugins_in V roots) cfg q)"
proof
  let ?D = "discover_plugins_in V roots"
  assume l: "(\<exists>p \<in> set (iter_plugins ?D). snk_connector cfg \<in> set (ok_sinks p)) \<and> is_ok (plugin_validate_config ?D cfg)"
  then obtain n q where q: "(n, q) \<in> set (pg_plugins ?D)" "snk_connector cfg \<in> set (ok_sinks q)"
    by (auto simp: iter_plugins_def)
  have r: "registry_ok ?D" by (rule registry_ok_discover)
  have n: "map_of (pg_plugins ?D) n = Some q"
    using q(1) r bt_wf_distinct by (auto simp: registry_ok_def intro: map_of_is_SomeI)
  with r have nq: "dp_name q = n" by (simp add: registry_ok_def)
  from n nq have g: "get_plugin ?D (dp_name q) = Some q" by (simp add: get_plugin_def)
  have f: "find_sink ?D (snk_connector cfg) = Some q" by (rule ok_plugin_found [OF g q(2)])
  from ok_sinks_declared [OF q(2)] n plugins_loaded_discover [of V roots] obtain m d where
    m: "dp_status q = PsOk" "dp_manifest q = Some m" "manifest_valid V m" "d \<in> set (mf_sinks m)" "sd_type d = snk_connector cfg"
    by (fastforce simp: plugins_loaded_def)
  with l f have "policy_supported (declared_capabilities d) (snk_materialization cfg)"
    using check_materialization_ok [OF m(1,2)] find_declared [OF m(3,4)] by (simp add: plugin_validate_config_def)
  with g m show "\<exists>q. plugin_provides V ?D cfg q" by (auto simp: plugin_provides_def)
next
  assume "\<exists>q. plugin_provides V (discover_plugins_in V roots) cfg q"
  with provided_is_found show "(\<exists>p \<in> set (iter_plugins (discover_plugins_in V roots)). snk_connector cfg \<in> set (ok_sinks p)) \<and>
     is_ok (plugin_validate_config (discover_plugins_in V roots) cfg)" by blast
qed

lemma check_nodes_Nil_iff: "check_nodes R reg ns = Some [] \<longleftrightarrow> (\<forall>n \<in> set ns. check_node R reg n = Some [])"
  by (induction ns) (auto split: option.splits)

lemma check_sink_iff:
  assumes "n_kind n = Sink cfg"
  shows "check_node R (default_registry_with_plugins (discover_plugins_in V roots)) n = Some [] \<longleftrightarrow>
     sink_ready R V (discover_plugins_in V roots) cfg"
proof -
  let ?D = "discover_plugins_in V roots"
  have "check_node R (default_registry_with_plugins ?D) n = Some [] \<longleftrightarrow>
      (case map_of (rg_sinks (default_registry_with_plugins ?D)) (snk_connector cfg) of
         None \<Rightarrow> False | Some impl \<Rightarrow> is_ok (sink_validate R impl cfg))"
    using assms by (simp add: check_node_def is_ok_def split: sum.split option.split)
  then show ?thesis
    unfolding registry_sinks default_sinks sink_ready_def plugin_ready_iff [symmetric] by (simp add: sink_validate_def)
qed

lemma check_node_iff:
  "check_node R (default_registry_with_plugins (discover_plugins_in V roots)) n = Some [] \<longleftrightarrow>
     node_ready R V (discover_plugins_in V roots) n"
proof (cases "n_kind n")
  case (Source cfg)
  then show ?thesis
    using registry_sources [of "discover_plugins_in V roots" "src_connector cfg"]
    by (cases "map_of (rg_sources (default_registry_with_plugins (discover_plugins_in V roots))) (src_connector cfg)")
      (simp_all add: check_node_def node_ready_def)
next
  case (Sink cfg)
  then show ?thesis by (simp add: check_sink_iff node_ready_def)
qed (simp_all add: check_node_def node_ready_def)

definition connector_of :: "node \<Rightarrow> string option" where
  "connector_of n = (case n_kind n of Source cfg \<Rightarrow> Some (src_connector cfg) | Sink cfg \<Rightarrow> Some (snk_connector cfg) | _ \<Rightarrow> None)"

text \<open>One step of the loop, and the nodes of other names.\<close>

definition add_connector :: "node \<Rightarrow> (node_id \<times> string) list \<Rightarrow> (node_id \<times> string) list" where
  "add_connector n m = (case connector_of n of None \<Rightarrow> m | Some c \<Rightarrow> AList.update (n_id n) c m)"

lemma node_connectors_fold: "node_connectors ns = fold add_connector ns []"
  unfolding node_connectors_def
  by (rule arg_cong [where f = "\<lambda>f. fold f ns []"])
    (auto simp: add_connector_def connector_of_def fun_eq_iff split: node_kind.split)

lemma map_of_add_connector:
  "map_of (add_connector n m) i = (if n_id n = i \<and> connector_of n \<noteq> None then connector_of n else map_of m i)"
  by (auto simp: add_connector_def update_conv' split: option.split)

lemma fold_connectors_other: "i \<notin> n_id ` set ns \<Longrightarrow> map_of (fold add_connector ns m) i = map_of m i"
  by (induction ns arbitrary: m) (auto simp: map_of_add_connector)

lemma node_connectors_distinct:
  assumes "distinct (map n_id ns)" "n \<in> set ns"
  shows "map_of (node_connectors ns) (n_id n) = connector_of n"
proof -
  have "map_of m (n_id n) = None \<Longrightarrow> map_of (fold add_connector ns m) (n_id n) = connector_of n" for m
    using assms
  proof (induction ns arbitrary: m)
    case Nil
    then show ?case by simp
  next
    case (Cons a ns)
    show ?case
    proof (cases "n = a")
      case True
      with Cons.prems show ?thesis by (simp add: fold_connectors_other map_of_add_connector)
    next
      case False
      with Cons.prems have "n \<in> set ns" "n_id a \<noteq> n_id n" by (auto simp: image_iff)
      with Cons.prems Cons.IH [of "add_connector a m"] show ?thesis by (simp add: map_of_add_connector)
    qed
  qed
  then show ?thesis by (simp add: node_connectors_fold)
qed

lemma check_override_iff:
  assumes "distinct (map n_id ns)"
  shows "check_override ns env_name iv = [] \<longleftrightarrow> override_ready ns iv"
proof -
  obtain i v where iv: "iv = (i, v)" by (cases iv)
  show ?thesis
  proof (cases "\<exists>n \<in> set ns. n_id n = i")
    case False
    then have "map_of (node_connectors ns) i = None"
      by (subst node_connectors_fold, subst fold_connectors_other) auto
    with False show ?thesis by (auto simp: iv check_override_def override_ready_def list_ex_iff)
  next
    case True
    then obtain n where n: "n \<in> set ns" "n_id n = i" by blast
    with assms have u: "n' \<in> set ns \<Longrightarrow> n_id n' = i \<longleftrightarrow> n' = n" for n'
      by (auto simp: distinct_map inj_on_def)
    have m: "map_of (node_connectors ns) i = connector_of n" using node_connectors_distinct [OF assms n(1)] n(2) by simp
    have ex: "list_ex (\<lambda>n. n_id n = i \<and> is_transform (n_kind n)) ns \<longleftrightarrow> is_transform (n_kind n)"
      using u n by (auto simp: list_ex_iff)
    have all: "(\<forall>n \<in> set ns. n_id n = i \<longrightarrow> P n) \<longleftrightarrow> P n" for P using u n by auto
    show ?thesis
      unfolding iv check_override_def override_ready_def prod.case m ex all
      by (cases "n_kind n")
        (auto simp: connector_of_def keys_valid_def filter_empty_conv image_iff split: option.split json.split)
  qed
qed

text \<open>
  C11: against the built-in connectors and the plugins of a scan, a pipeline with distinct node ids is accepted
  exactly when every source is built in, every sink has a configuration its built-in connector accepts or a type that
  a plugin in good order declares with capabilities that cover the policy, no snippet is left, no override addresses
  a transform, and none that is an object sets a key foreign to the built-in connector of its node.
\<close>

theorem validate_pipeline_accepts:
  assumes "distinct (map n_id (p_nodes p))"
  shows "validate_pipeline R (default_registry_with_plugins (discover_plugins_in V roots)) p = Some (Ok ()) \<longleftrightarrow>
    (\<forall>n \<in> set (p_nodes p). node_ready R V (discover_plugins_in V roots) n) \<and>
    (\<forall>(env_name, ovs) \<in> set (p_environment_overrides p). \<forall>iv \<in> set ovs. override_ready (p_nodes p) iv)"
proof -
  let ?reg = "default_registry_with_plugins (discover_plugins_in V roots)"
  have "validate_pipeline R ?reg p = Some (Ok ()) \<longleftrightarrow> check_nodes R ?reg (p_nodes p) = Some [] \<and>
      concat (map (\<lambda>(env_name, ovs). concat (map (check_override (p_nodes p) env_name) ovs)) (p_environment_overrides p)) = []"
    unfolding validate_pipeline_def by (auto simp: Let_def simp del: concat_eq_Nil_conv split: option.split)
  then show ?thesis
    unfolding check_nodes_Nil_iff check_node_iff
    by (auto simp: check_override_iff [OF assms] split: prod.splits)
qed

definition w_plugin_pipeline :: pipeline where
  "w_plugin_pipeline = \<lparr>p_name = ''p'', p_version = 1, p_default_environment = ''dev'', p_variables = [],
     p_environment_overrides = [(''prod'', [(''k'', JObject [(''x'', JNull)])])], p_sample_config = None, p_cache_row_limit = None,
     p_code_dir = None, p_udfs_dir = None, p_snippets_dir = None, p_snippet = None, p_params = [], p_outputs = [],
     p_nodes = [\<lparr>n_id = ''k'', n_name = ''k'', n_kind = Sink \<lparr>snk_connector = ''y'', snk_config = JNull, snk_materialization = None\<rparr>,
       n_position = \<lparr>pos_x = 0, pos_y = 0\<rparr>, n_pinned_position = False, n_snippet_parent = None, n_snippet_name = None\<rparr>],
     p_edges = []\<rparr>"


definition w_readers :: config_readers where
  "w_readers = \<lparr>cr_file = (\<lambda>_. Err []), cr_postgres = (\<lambda>_. Err []), cr_rest = (\<lambda>_. Err []), cr_stdout = (\<lambda>_. Err []), cr_lower = id\<rparr>"

theorem validate_pipeline_accepts_witness:
  "validate_pipeline w_readers (default_registry_with_plugins (discover_plugins_in w_one_root [''r''])) w_plugin_pipeline = Some (Ok ())"
proof -
  have d: "distinct (map n_id (p_nodes w_plugin_pipeline))" by code_simp
  let ?D = "discover_plugins_in w_one_root [''r'']"
  let ?c = "\<lparr>snk_connector = ''y'', snk_config = JNull, snk_materialization = None\<rparr>"
  have g: "get_plugin ?D (dp_name w_b) = Some w_b" "dp_status w_b = PsOk" "dp_manifest w_b = Some (w_manifest ''b'' [''y''])"
    "manifest_valid w_one_root (w_manifest ''b'' [''y''])" "w_sink ''y'' \<in> set (mf_sinks (w_manifest ''b'' [''y'']))"
    "sd_type (w_sink ''y'') = snk_connector ?c" "policy_supported (declared_capabilities (w_sink ''y'')) (snk_materialization ?c)"
    by code_simp+
  then have "plugin_provides w_one_root ?D ?c w_b" unfolding plugin_provides_def by blast
  then have "\<exists>q. plugin_provides w_one_root ?D ?c q" ..
  then show ?thesis
    unfolding validate_pipeline_accepts [OF d]
    by (simp add: w_plugin_pipeline_def node_ready_def sink_ready_def override_ready_def keys_valid_def valid_config_keys_def)
qed

text \<open>
  The rest of the overrides are not looked at: those of tests and of unknown nodes, and every key of a sink
  whose connector is not built in.
\<close>

lemma override_of_test_accepted:
  "\<forall>n \<in> set ns. n_id n = i \<longrightarrow> is_test (n_kind n) \<Longrightarrow> distinct (map n_id ns) \<Longrightarrow> check_override ns env_name (i, v) = []"
  by (auto simp: check_override_iff override_ready_def split: node_kind.splits)

lemma override_of_plugin_unchecked:
  "\<lbrakk>distinct (map n_id ns); n \<in> set ns; n_kind n = Sink cfg; valid_config_keys (snk_connector cfg) = None\<rbrakk> \<Longrightarrow>
     check_override ns env_name (n_id n, v) = []"
  by (auto simp: check_override_iff override_ready_def keys_valid_def distinct_map inj_on_def)

text \<open>The Parquet sink takes the strategy its comment says is still rejected.\<close>

lemma parquet_takes_overwrite:
  "check_strategy_supported FfParquet InsertOverwrite = Ok ()" "check_strategy_supported FfParquet Snapshot = Ok ()"
  by simp_all

text \<open>A snippet that is left, as in the file of a snippet that uses another one, is not refused but ends in a panic.\<close>

lemma snippet_panics:
  "validate_pipeline R reg p = None \<longleftrightarrow> (\<exists>n \<in> set (p_nodes p). \<exists>c. n_kind n = Snippet c)"
proof -
  have n: "check_node R reg n = None \<longleftrightarrow> (\<exists>c. n_kind n = Snippet c)" for n
    by (cases "n_kind n") (simp_all add: check_node_def)
  have "check_nodes R reg ns = None \<longleftrightarrow> (\<exists>n \<in> set ns. check_node R reg n = None)" for ns
    by (induction ns) (auto split: option.split)
  then have "check_nodes R reg (p_nodes p) = None \<longleftrightarrow> (\<exists>n \<in> set (p_nodes p). \<exists>c. n_kind n = Snippet c)"
    by (simp add: n)
  then show ?thesis
    by (cases "check_nodes R reg (p_nodes p)") (simp_all add: validate_pipeline_def Let_def)
qed

text \<open>The executor looks the same connectors up.\<close>

lemma provider_registry_same:
  assumes "hash_order ord1" "hash_order ord2" "distinct (map fst (rg_sources r))" "distinct (map fst (rg_sinks r))"
  shows "map_of (vg_sources (to_provider_registry ord1 ord2 r)) = map_of (rg_sources r)"
    "map_of (vg_sinks (to_provider_registry ord1 ord2 r)) = map_of (rg_sinks r)"
proof -
  have f: "map_of (fold (\<lambda>(n, s). AList.update n s) xs m) k = (if k \<in> fst ` set xs then map_of xs k else map_of m k)"
    if "distinct (map fst xs)" for xs :: "(string \<times> 'b) list" and m k
    using that by (induction xs arbitrary: m) (auto simp: update_conv')
  have o: "map_of (fold (\<lambda>(n, s). AList.update n s) (ord xs) []) = map_of xs"
    if "hash_order ord" "distinct (map fst xs)" for ord and xs :: "(string \<times> 'b) list"
  proof -
    have m: "mset (ord xs) = mset xs" using that(1) by (rule hash_orderD)
    then have "mset (map fst (ord xs)) = mset (map fst xs)" by simp
    with that(2) have d: "distinct (map fst (ord xs))" using mset_eq_imp_distinct_iff by blast
    moreover have "map_of (ord xs) = map_of xs"
      using d that(2) hash_orderD(2) [OF that(1), of xs] by (intro map_of_inject_set [THEN iffD2]) auto
    ultimately show ?thesis by (auto simp: f fun_eq_iff) (metis map_of_eq_None_iff)
  qed
  from assms show "map_of (vg_sources (to_provider_registry ord1 ord2 r)) = map_of (rg_sources r)"
    "map_of (vg_sinks (to_provider_registry ord1 ord2 r)) = map_of (rg_sinks r)"
    by (simp_all add: to_provider_registry_def o)
qed

end
