(* ===== verification/Resource_Fingerprint.thy ===== *)
theory Resource_Fingerprint
  imports Connectors Lineage
begin

text \<open>
  \<open>fingerprint.rs\<close> of the connectors: the name of the resource a source reads or a sink writes, which lineage
  compares and stores.  Paths are made absolute by the file system, a parameter; so is lower case.
\<close>

section \<open>Strings\<close>

text \<open>\<open>s.split(sep).nth(1)\<close>, \<open>s.split(c).next()\<close>, \<open>rfind\<close> and \<open>split_whitespace\<close>.\<close>

definition second_piece :: "string \<Rightarrow> string \<Rightarrow> string option" where
  "second_piece sep s = (case find_str sep s of
      None \<Rightarrow> None
    | Some (_, b) \<Rightarrow> Some (case find_str sep b of None \<Rightarrow> b | Some (x, _) \<Rightarrow> x))"

definition before_char :: "char \<Rightarrow> string \<Rightarrow> string" where
  "before_char c s = (case find_char c s of None \<Rightarrow> s | Some (a, _) \<Rightarrow> a)"

definition rfind_char :: "char \<Rightarrow> string \<Rightarrow> (string \<times> string) option" where
  "rfind_char c s = map_option (\<lambda>(a, b). (rev b, rev a)) (find_char c (rev s))"

definition split_whitespace :: "string \<Rightarrow> string list" where
  "split_whitespace s = filter (\<lambda>w. w \<noteq> []) (map concat (split_on is_whitespace (chars s)))"

text \<open>\<open>str::parse::<u16>\<close>.\<close>

type_synonym u16 = "16 word"

definition parse_u16 :: "string \<Rightarrow> u16 option" where
  "parse_u16 s = (case parse_digits (if starts_with ''+'' s then tl s else s) of
      None \<Rightarrow> None
    | Some n \<Rightarrow> if n < 2 ^ 16 then Some (of_nat n) else None)"

definition port_or_default :: "string \<Rightarrow> u16" where
  "port_or_default s = (case parse_u16 s of None \<Rightarrow> 5432 | Some n \<Rightarrow> n)"

definition json_str :: "string \<Rightarrow> json \<Rightarrow> string option" where
  "json_str k v = (case v of JObject kvs \<Rightarrow> Option.bind (map_of kvs k) as_str | _ \<Rightarrow> None)"

section \<open>Connection strings\<close>

definition split_host_db :: "string \<Rightarrow> string \<times> string" where
  "split_host_db s = (case find_char CHR ''/'' s of None \<Rightarrow> (s, []) | Some (a, b) \<Rightarrow> (a, b))"

definition split_host_port :: "string \<Rightarrow> string \<times> u16" where
  "split_host_port s = (case rfind_char CHR '':'' s of None \<Rightarrow> (s, 5432) | Some (a, b) \<Rightarrow> (a, port_or_default b))"

definition parse_postgres_uri :: "string \<Rightarrow> (string \<times> u16 \<times> string) option" where
  "parse_postgres_uri uri = (case second_piece ''://'' uri of
      None \<Rightarrow> None
    | Some after_scheme \<Rightarrow>
       (let main_part = before_char CHR ''?'' after_scheme;
            (host_part, dbname) = split_host_db (case rfind_char CHR ''@'' main_part of
                Some (_, after_at) \<Rightarrow> after_at | None \<Rightarrow> main_part);
            (host, port) = split_host_port host_part
        in Some (host, port, dbname)))"

definition kv_part :: "string \<Rightarrow> string \<times> u16 \<times> string \<Rightarrow> string \<times> u16 \<times> string" where
  "kv_part part = (\<lambda>(host, port, dbname). case find_char CHR ''='' part of
      None \<Rightarrow> (host, port, dbname)
    | Some (key, v) \<Rightarrow>
        if key = ''host'' \<or> key = ''hostaddr'' then (v, port, dbname)
        else if key = ''port'' then (host, port_or_default v, dbname)
        else if key = ''dbname'' then (host, port, v)
        else (host, port, dbname))"

definition parse_postgres_kv :: "string \<Rightarrow> (string \<times> u16 \<times> string) option" where
  "parse_postgres_kv conn =
     (let (host, port, dbname) = fold kv_part (split_whitespace conn) (''localhost'', 5432, [])
      in if dbname = [] then None else Some (host, port, dbname))"

definition parse_postgres_connection :: "string \<Rightarrow> (string \<times> u16 \<times> string) option" where
  "parse_postgres_connection conn =
     (if contains_str ''{{'' conn \<and> contains_str ''}}'' conn \<and> starts_with ''{{'' (trim conn) then None
      else if starts_with ''postgres://'' conn \<or> starts_with ''postgresql://'' conn then parse_postgres_uri conn
      else parse_postgres_kv conn)"

definition parse_table_name :: "string \<Rightarrow> string \<times> string" where
  "parse_table_name table =
     (let unquoted = filter (\<lambda>c. c \<noteq> CHR 0x22) table
      in case find_char CHR ''.'' unquoted of Some (schema, name) \<Rightarrow> (schema, name) | None \<Rightarrow> (''public'', unquoted))"

section \<open>Fingerprints\<close>

record fingerprint_env =
  fe_canonicalize :: "string \<Rightarrow> string option"
  fe_current_dir :: "string option"
  fe_lower :: "string \<Rightarrow> string"

definition fingerprint_postgres :: "fingerprint_env \<Rightarrow> json \<Rightarrow> fingerprint option" where
  "fingerprint_postgres F config = (case (json_str ''connection_string'' config, json_str ''table'' config) of
      (Some conn, Some table) \<Rightarrow>
        if table = [] then None
        else (case parse_postgres_connection conn of
            None \<Rightarrow> None
          | Some (host, port, dbname) \<Rightarrow>
             (let (schema, table_name) = parse_table_name table
              in Some (''postgres://'' @ fe_lower F host @ '':'' @ show_nat (unat port) @ ''/'' @ dbname @ ''/'' @
                   schema @ ''.'' @ table_name)))
    | _ \<Rightarrow> None)"

text \<open>The current directory is asked for before \<open>unwrap_or\<close> decides whether it is needed.\<close>

definition fingerprint_file :: "fingerprint_env \<Rightarrow> json \<Rightarrow> fingerprint option" where
  "fingerprint_file F config = (case json_str ''path'' config of
      None \<Rightarrow> None
    | Some path \<Rightarrow>
        if starts_with ''s3://'' path \<or> starts_with ''gs://'' path \<or> starts_with ''az://'' path \<or>
           starts_with ''https://'' path \<or> starts_with ''http://'' path then Some path
        else if starts_with ''/'' path then Some (''file://'' @ path)
        else (case fe_current_dir F of
            None \<Rightarrow> None
          | Some cwd \<Rightarrow> Some (''file://'' @
              (case fe_canonicalize F path of Some c \<Rightarrow> c | None \<Rightarrow> path_join cwd path))))"

definition connector_fingerprint :: "fingerprint_env \<Rightarrow> fingerprint_fn" where
  "connector_fingerprint F connector config =
     (if connector \<in> {''file'', ''csv'', ''parquet''} then fingerprint_file F config
      else if connector \<in> {''postgresql'', ''postgres''} then fingerprint_postgres F config
      else None)"

section \<open>Credentials\<close>

lemma find_char_append_not: "c \<notin> set a \<Longrightarrow> find_char c (a @ b) = map_option (\<lambda>(x, y). (a @ x, y)) (find_char c b)"
  by (cases "find_char c b"; induction a) auto

lemma before_char_append: "c \<notin> set a \<Longrightarrow> before_char c (a @ b) = a @ before_char c b"
  by (simp add: before_char_def find_char_append_not split: option.split)

lemma rfind_char_last: "c \<notin> set b \<Longrightarrow> rfind_char c (a @ c # b) = Some (a, b)"
  by (simp add: rfind_char_def find_char_append)

lemma rfind_char_None: "c \<notin> set b \<Longrightarrow> rfind_char c b = None"
  by (simp add: rfind_char_def find_char_None_iff [THEN iffD2])

text \<open>A text that starts with a printable character keeps it when it is trimmed.\<close>

lemma trim_graph_Cons:
  assumes "is_graph c"
  shows "\<exists>t. trim (c # s) = c # t"
proof -
  have c: "chars (c # s) = [c] # chars s" using assms by (simp add: is_graph_def utf8_len_def Let_def)
  have w: "\<not> is_whitespace [c]" using assms by (rule is_graph_not_whitespace)
  have "dropWhile is_whitespace (rev (chars s) @ [[c]]) = dropWhile is_whitespace (rev (chars s)) @ [[c]]"
    if "\<exists>x \<in> set (chars s). \<not> is_whitespace x"
    using that dropWhile_append1 [of _ "rev (chars s)" is_whitespace] by auto
  moreover have "dropWhile is_whitespace (rev (chars s) @ [[c]]) = [[c]]" if "\<forall>x \<in> set (chars s). is_whitespace x"
    using that w by (subst dropWhile_append2) auto
  ultimately show ?thesis unfolding trim_def c using w
    by (cases "\<exists>x \<in> set (chars s). \<not> is_whitespace x") auto
qed


lemma postgres_scheme:
  assumes "scheme \<in> {''postgres://'', ''postgresql://''}"
  shows "parse_postgres_connection (scheme @ s) = parse_postgres_uri (scheme @ s)"
proof -
  obtain t where "trim (scheme @ s) = CHR ''p'' # t"
    using assms trim_graph_Cons [of "CHR ''p''" "tl (scheme @ s)"] by (auto simp: is_graph_def)
  moreover have "starts_with ''postgres://'' (scheme @ s) \<or> starts_with ''postgresql://'' (scheme @ s)"
    using assms by (auto simp: starts_with_def)
  ultimately show ?thesis by (auto simp: parse_postgres_connection_def starts_with_def)
qed

lemma second_piece_scheme:
  assumes "scheme \<in> {''postgres://'', ''postgresql://''}" "\<not> contains_str ''://'' s"
  shows "second_piece ''://'' (scheme @ s) = Some s"
  using assms by (cases "find_str ''://'' s") (auto simp: second_piece_def contains_str_def)

lemma contains_str_suffix: "contains_str p b \<Longrightarrow> contains_str p (a @ b)"
  unfolding contains_str_iff by (metis append.assoc)

lemma uri_without_credentials:
  assumes "scheme \<in> {''postgres://'', ''postgresql://''}" "CHR ''?'' \<notin> set cred" "\<not> contains_str ''://'' (cred @ ''@'' @ rest)"
    "CHR ''@'' \<notin> set (before_char CHR ''?'' rest)"
  shows "parse_postgres_uri (scheme @ cred @ ''@'' @ rest) = parse_postgres_uri (scheme @ rest)"
proof -
  have "\<not> contains_str ''://'' rest" using assms(3) contains_str_suffix [of _ rest "cred @ ''@''"] by auto
  note p = second_piece_scheme [OF assms(1,3)] second_piece_scheme [OF assms(1) this]
  have b: "before_char CHR ''?'' (cred @ ''@'' @ rest) = cred @ CHR ''@'' # before_char CHR ''?'' rest"
    using before_char_append [of "CHR ''?''" "cred @ ''@''" rest] assms(2) by simp
  show ?thesis
    unfolding parse_postgres_uri_def p option.case b Let_def rfind_char_last [OF assms(4)] rfind_char_None [OF assms(4)]
    by simp
qed

text \<open>
  C22: what stands before the last at sign of a Postgres address, the user and the password, does not show in the
  fingerprint of the resource, as long as it holds no question mark and no second scheme.
\<close>

theorem fingerprint_hides_credentials:
  assumes "scheme \<in> {''postgres://'', ''postgresql://''}" "CHR ''?'' \<notin> set cred" "\<not> contains_str ''://'' (cred @ ''@'' @ rest)"
    "CHR ''@'' \<notin> set (before_char CHR ''?'' rest)"
    and "json_str ''connection_string'' v = Some (scheme @ cred @ ''@'' @ rest)" "json_str ''connection_string'' w = Some (scheme @ rest)"
    and "json_str ''table'' v = json_str ''table'' w" and "connector \<in> {''postgresql'', ''postgres''}"
  shows "connector_fingerprint F connector v = connector_fingerprint F connector w"
proof -
  have "parse_postgres_connection (scheme @ cred @ ''@'' @ rest) = parse_postgres_connection (scheme @ rest)"
    unfolding postgres_scheme [OF assms(1)] by (rule uri_without_credentials [OF assms(1-4)])
  then have "fingerprint_postgres F v = fingerprint_postgres F w"
    unfolding fingerprint_postgres_def assms(5-7) by (simp only: option.case prod.case)
  with assms(8) show ?thesis by (auto simp: connector_fingerprint_def)
qed

definition w_conn :: "string \<Rightarrow> json" where
  "w_conn c = JObject [(''connection_string'', JString c), (''table'', JString ''t'')]"

definition w_fingerprints :: fingerprint_env where
  "w_fingerprints = \<lparr>fe_canonicalize = (\<lambda>_. None), fe_current_dir = Some ''/w'', fe_lower = id\<rparr>"

theorem fingerprint_hides_credentials_witness:
  "connector_fingerprint w_fingerprints ''postgres'' (w_conn ''postgres://u:p@db:5433/app'') =
   connector_fingerprint w_fingerprints ''postgres'' (w_conn ''postgres://db:5433/app'')"
  by (rule fingerprint_hides_credentials [where scheme = "''postgres://''" and cred = "''u:p''" and rest = "''db:5433/app''"])
    (simp_all add: contains_str_def before_char_def json_str_def w_conn_def)

text \<open>Other keys of a key-value connection string do not show.\<close>

definition names_resource :: "string \<Rightarrow> bool" where
  "names_resource part \<longleftrightarrow> (case find_char CHR ''='' part of
      None \<Rightarrow> False | Some (key, _) \<Rightarrow> key \<in> {''host'', ''hostaddr'', ''port'', ''dbname''})"

lemma kv_without_credentials:
  "fold kv_part parts s = fold kv_part (filter names_resource parts) s"
  by (induction parts arbitrary: s) (auto simp: kv_part_def names_resource_def split: option.splits prod.splits if_splits)

text \<open>A question mark in a password shows what stands before it.\<close>

lemma password_shows: "parse_postgres_connection ''postgres://u:12?3@db/app'' = Some (''u'', 12, [])"
  using postgres_scheme [of "''postgres://''" "''u:12?3@db/app''"]
  by (simp add: parse_postgres_uri_def second_piece_def before_char_def rfind_char_def split_host_db_def
      split_host_port_def port_or_default_def parse_u16_def parse_digits_def starts_with_def is_digit_def digit_val_def Let_def)

text \<open>A path that the file connectors take for a cloud address can have the fingerprint of a local file.\<close>

lemma cloud_path_local_fingerprint:
  "is_cloud_url ''s3a://b/k'' \<and>
   connector_fingerprint w_fingerprints ''file'' (JObject [(''path'', JString ''s3a://b/k'')]) = Some ''file:///w/s3a://b/k''"
  by code_simp

end
