(* ===== verification/Catalog.thy ===== *)
theory Catalog
  imports Lineage Sla Run_Store
begin

text \<open>
  \<open>catalog.rs\<close>: the resources that pipelines read and write, put together from the bindings of the
  lineage graph and from annotation files, with a search index.  Reading a file, YAML and the Unicode
  lower case are parameters; \<open>'y\<close> is the type of custom YAML values.
\<close>

section \<open>Types\<close>

datatype sla_scope = LastSuccessfulRun | DeclaredSchedule

record freshness_config =
  fs_max_age :: string
  fs_warn_at :: "string option"
  fs_scope :: sla_scope

record sla_config =
  sla_freshness :: freshness_config

record annotation_owner =
  ao_team :: "string option"
  ao_contact :: "string option"

record column_annotation =
  ca_description :: "string option"
  ca_accepted_values :: "string list option"

record 'y resource_annotation =
  ra_fingerprint :: string
  ra_environment :: "string option"
  ra_name :: "string option"
  ra_description :: "string option"
  ra_owner :: "annotation_owner option"
  ra_tags :: "string list"
  ra_columns :: "(string \<times> column_annotation) list"
  ra_custom :: "(string \<times> 'y) list"
  ra_sla :: "sla_config option"

record pipeline_binding =
  pb_pipeline_id :: string
  pb_node_id :: string

record schema_column =
  scl_name :: string
  scl_data_type :: string
  scl_nullable :: bool

record auto_derived_facts =
  ad_resource_type :: "string option"
  ad_producers :: "pipeline_binding list"
  ad_consumers :: "pipeline_binding list"
  ad_schema_columns :: "schema_column list"
  ad_last_updated :: "string option"
  ad_row_count :: "u64 option"
  ad_size_bytes :: "u64 option"

record merged_column =
  mc_name :: string
  mc_data_type :: "string option"
  mc_nullable :: "bool option"
  mc_description :: "string option"
  mc_accepted_values :: "string list option"

record 'y catalog_entry =
  cy_fingerprint :: fingerprint
  cy_name :: string
  cy_description :: "string option"
  cy_owner :: "annotation_owner option"
  cy_tags :: "string list"
  cy_derived :: auto_derived_facts
  cy_columns :: "merged_column list"
  cy_custom :: "(string \<times> 'y) list"
  cy_environment :: "string option"
  cy_annotation_file :: "string option"

record 'y annotation_file =
  af_annotation :: "'y resource_annotation"
  af_path :: string

record discovered_resource =
  dr_fingerprint :: fingerprint
  dr_resource_type :: "string option"
  dr_producers :: "pipeline_binding list"
  dr_consumers :: "pipeline_binding list"

datatype catalog_error = CatReadFile string string | CatParseYaml string string | CatMissingFingerprint string

datatype catalog_warning = DanglingAnnotation fingerprint string | DuplicateAnnotation fingerprint "string list"

text \<open>Hash maps are association lists, read in the order \<open>ord\<close> of their keys.\<close>

definition in_order :: "('k list \<Rightarrow> 'k list) \<Rightarrow> ('k \<times> 'v) list \<Rightarrow> ('k \<times> 'v) list" where
  "in_order ord m = concat (map (\<lambda>k. case map_of m k of None \<Rightarrow> [] | Some v \<Rightarrow> [(k, v)]) (ord (map fst m)))"

section \<open>Annotation files\<close>

text \<open>A directory that cannot be read has no entries.\<close>

datatype dir_tree = DirFile string | DirNode "dir_tree list option"

record 'y annotation_source =
  an_read :: "string \<Rightarrow> string + string"
  an_yaml :: "string \<Rightarrow> string + 'y resource_annotation"

definition parse_annotation_file :: "'y annotation_source \<Rightarrow> string \<Rightarrow> catalog_error + 'y resource_annotation" where
  "parse_annotation_file A path = (case an_read A path of
      Inl e \<Rightarrow> Err (CatReadFile path e)
    | Inr txt \<Rightarrow> (case an_yaml A txt of
        Inl e \<Rightarrow> Err (CatParseYaml path e)
      | Inr ann \<Rightarrow> if ra_fingerprint ann = [] then Err (CatMissingFingerprint path) else Ok ann))"

text \<open>\<open>Path::extension\<close>: what follows the last dot of the file name, unless the name starts there.\<close>

definition path_extension :: "string \<Rightarrow> string option" where
  "path_extension path =
     (let name = takeWhile (\<lambda>c. c \<noteq> CHR ''/'') (rev path)
      in case find_char CHR ''.'' name of
           None \<Rightarrow> None
         | Some (ext, stem) \<Rightarrow> if stem = [] \<or> name = ''..'' then None else Some (rev ext))"

definition is_yaml_path :: "string \<Rightarrow> bool" where
  "is_yaml_path path \<longleftrightarrow> path_extension path \<in> {Some ''yaml'', Some ''yml''}"

fun yaml_files :: "dir_tree \<Rightarrow> string list" where
  "yaml_files (DirFile path) = (if is_yaml_path path then [path] else [])"
| "yaml_files (DirNode None) = []"
| "yaml_files (DirNode (Some es)) = concat (map yaml_files es)"

fun dir_yaml_files :: "dir_tree \<Rightarrow> string list" where
  "dir_yaml_files (DirFile path) = []"
| "dir_yaml_files (DirNode es) = yaml_files (DirNode es)"

fun load_loop ::
  "'y annotation_source \<Rightarrow> string list \<Rightarrow> (fingerprint \<times> 'y annotation_file) list \<Rightarrow> catalog_error list \<Rightarrow>
   (fingerprint \<times> 'y annotation_file) list \<times> catalog_error list" where
  "load_loop A [] anns errs = (anns, errs)"
| "load_loop A (path # paths) anns errs = (case parse_annotation_file A path of
      Inl e \<Rightarrow> load_loop A paths anns (errs @ [e])
    | Inr ann \<Rightarrow> load_loop A paths (AList.update (ra_fingerprint ann) \<lparr>af_annotation = ann, af_path = path\<rparr> anns) errs)"

definition load_annotations ::
  "'y annotation_source \<Rightarrow> dir_tree \<Rightarrow> (fingerprint \<times> 'y annotation_file) list \<times> catalog_error list" where
  "load_annotations A dir = load_loop A (dir_yaml_files dir) [] []"

text \<open>The paths of each fingerprint, next to the loop above.\<close>

definition paths_by_fingerprint :: "'y annotation_source \<Rightarrow> string list \<Rightarrow> (fingerprint \<times> string list) list" where
  "paths_by_fingerprint A paths = group_by fst snd (concat (map (\<lambda>path. case parse_annotation_file A path of
     Inl _ \<Rightarrow> [] | Inr ann \<Rightarrow> [(ra_fingerprint ann, path)]) paths))"

definition detect_duplicates_from_files ::
  "(fingerprint list \<Rightarrow> fingerprint list) \<Rightarrow> 'y annotation_source \<Rightarrow> dir_tree \<Rightarrow>
   (fingerprint \<times> 'y annotation_file) list \<times> catalog_warning list \<times> catalog_error list" where
  "detect_duplicates_from_files ord A dir =
     (let paths = dir_yaml_files dir
      in case load_loop A paths [] [] of (anns, errs) \<Rightarrow>
           (anns, map (\<lambda>(fp, ps). DuplicateAnnotation fp ps) (filter (\<lambda>(_, ps). length ps > 1) (in_order ord (paths_by_fingerprint A paths))), errs))"

section \<open>Names\<close>

definition fingerprint_to_filename :: "fingerprint \<Rightarrow> string" where
  "fingerprint_to_filename fp =
     (case (case find_str ''://'' fp of Some (a, b) \<Rightarrow> (a, b) | None \<Rightarrow> (''unknown'', fp)) of (scheme, rest) \<Rightarrow>
        let dir = (if scheme = ''file'' then ''files'' else if scheme \<in> {''postgres'', ''postgresql''} then ''postgres'' else scheme);
            stem = concat (map (\<lambda>c. if c \<in> {CHR ''/'', CHR '':''} then ''__'' else [c]) (dropWhile (\<lambda>c. c = CHR ''/'') rest))
        in dir @ (if dir = [] \<or> ends_with ''/'' dir then [] else ''/'') @ stem @ ''.yaml'')"

definition infer_resource_type :: "fingerprint \<Rightarrow> string option" where
  "infer_resource_type fp =
     (if starts_with ''postgres://'' fp \<or> starts_with ''postgresql://'' fp then Some ''postgres''
      else if starts_with ''file://'' fp then
        (if ends_with ''.csv'' fp then Some ''csv'' else if ends_with ''.parquet'' fp then Some ''parquet'' else Some ''file'')
      else if starts_with ''s3://'' fp then Some ''s3''
      else if starts_with ''gs://'' fp then Some ''gcs''
      else if starts_with ''az://'' fp then Some ''azure''
      else None)"

definition default_name_from_fingerprint :: "fingerprint \<Rightarrow> string" where
  "default_name_from_fingerprint fp =
     (let rest = (case find_str ''://'' fp of Some (_, b) \<Rightarrow> b | None \<Rightarrow> fp)
      in case find (\<lambda>seg. seg \<noteq> []) (rev (split_on (\<lambda>c. c = CHR ''/'') rest)) of Some seg \<Rightarrow> seg | None \<Rightarrow> rest)"

definition scaffold_annotation :: "discovered_resource \<Rightarrow> string" where
  "scaffold_annotation r =
     (let nl = [CHR 0x0a]; q = [CHR 0x22]
      in ''resource:'' @ nl @ ''  fingerprint: '' @ q @ dr_fingerprint r @ q @ nl @ nl @ ''name: '' @
         default_name_from_fingerprint (dr_fingerprint r) @ nl @ ''description: '' @ q @ q @ nl @
         ''owner:'' @ nl @ ''  team: '' @ q @ q @ nl @ ''  contact: '' @ q @ q @ nl @ ''tags: []'' @ nl @
         ''columns: {}'' @ nl @ ''custom: {}'' @ nl)"

section \<open>Resources\<close>

definition add_binding :: "resource_binding \<Rightarrow> (fingerprint \<times> discovered_resource) list \<Rightarrow> (fingerprint \<times> discovered_resource) list" where
  "add_binding b m =
     (let fp = rb_fingerprint b;
          r = (case map_of m fp of Some r \<Rightarrow> r | None \<Rightarrow> \<lparr>dr_fingerprint = fp, dr_resource_type = infer_resource_type fp,
            dr_producers = [], dr_consumers = []\<rparr>);
          pb = \<lparr>pb_pipeline_id = rb_pipeline b, pb_node_id = rb_node b\<rparr>
      in AList.update fp (case rb_direction b of
           BdSource \<Rightarrow> r\<lparr>dr_consumers := dr_consumers r @ [pb]\<rparr>
         | BdSink \<Rightarrow> r\<lparr>dr_producers := dr_producers r @ [pb]\<rparr>) m)"

definition discover_resources :: "lineage_graph \<Rightarrow> (fingerprint \<times> discovered_resource) list" where
  "discover_resources g = fold add_binding (lg_bindings g) []"

definition merge_columns :: "schema_column list \<Rightarrow> (string \<times> column_annotation) list \<Rightarrow> merged_column list" where
  "merge_columns sch anns =
     map (\<lambda>c. let a = map_of anns (scl_name c) in \<lparr>mc_name = scl_name c, mc_data_type = Some (scl_data_type c),
       mc_nullable = Some (scl_nullable c), mc_description = Option.bind a ca_description,
       mc_accepted_values = Option.bind a ca_accepted_values\<rparr>) sch @
     map (\<lambda>(name, a). \<lparr>mc_name = name, mc_data_type = None, mc_nullable = None, mc_description = ca_description a,
       mc_accepted_values = ca_accepted_values a\<rparr>) (filter (\<lambda>(name, _). name \<notin> scl_name ` set sch) anns)"

definition derived_facts :: "discovered_resource \<Rightarrow> auto_derived_facts" where
  "derived_facts r = \<lparr>ad_resource_type = dr_resource_type r, ad_producers = dr_producers r, ad_consumers = dr_consumers r,
     ad_schema_columns = [], ad_last_updated = None, ad_row_count = None, ad_size_bytes = None\<rparr>"

definition build_entry :: "discovered_resource \<Rightarrow> 'y annotation_file option \<Rightarrow> 'y catalog_entry" where
  "build_entry r ann = (let default = default_name_from_fingerprint (dr_fingerprint r) in case ann of
      Some af \<Rightarrow> let a = af_annotation af in \<lparr>cy_fingerprint = dr_fingerprint r,
        cy_name = (case ra_name a of Some n \<Rightarrow> n | None \<Rightarrow> default), cy_description = ra_description a, cy_owner = ra_owner a,
        cy_tags = ra_tags a, cy_derived = derived_facts r, cy_columns = merge_columns [] (ra_columns a),
        cy_custom = ra_custom a, cy_environment = ra_environment a, cy_annotation_file = Some (af_path af)\<rparr>
    | None \<Rightarrow> \<lparr>cy_fingerprint = dr_fingerprint r, cy_name = default, cy_description = None, cy_owner = None, cy_tags = [],
        cy_derived = derived_facts r, cy_columns = merge_columns [] [], cy_custom = [], cy_environment = None,
        cy_annotation_file = None\<rparr>)"

definition merge_catalog ::
  "(fingerprint list \<Rightarrow> fingerprint list) \<Rightarrow> (fingerprint \<times> discovered_resource) list \<Rightarrow>
   (fingerprint \<times> 'y annotation_file) list \<Rightarrow> 'y catalog_entry list" where
  "merge_catalog ord discovered anns =
     sort_key cy_fingerprint (map (\<lambda>(fp, r). build_entry r (map_of anns fp)) (in_order ord discovered))"

definition detect_dangling ::
  "(fingerprint list \<Rightarrow> fingerprint list) \<Rightarrow> (fingerprint \<times> discovered_resource) list \<Rightarrow>
   (fingerprint \<times> 'y annotation_file) list \<Rightarrow> catalog_warning list" where
  "detect_dangling ord discovered anns =
     map (\<lambda>(fp, af). DanglingAnnotation fp (af_path af)) (filter (\<lambda>(fp, _). fp \<notin> fst ` set discovered) (in_order ord anns))"

section \<open>Search\<close>

text \<open>\<open>L\<close> is the lower case of a string.\<close>

definition is_delimiter :: "string \<Rightarrow> bool" where
  "is_delimiter ch \<longleftrightarrow> is_whitespace ch \<or> ch \<in> (\<lambda>c. [c]) ` set ''/:@._-''"

definition tokenize :: "(string \<Rightarrow> string) \<Rightarrow> string \<Rightarrow> string list" where
  "tokenize L txt = map L (filter (\<lambda>s. s \<noteq> []) (map concat (split_on is_delimiter (chars txt))))"

type_synonym search_index = "(string \<times> fingerprint list) list"

definition index_token :: "(string \<Rightarrow> string) \<Rightarrow> fingerprint \<Rightarrow> string \<Rightarrow> search_index \<Rightarrow> search_index" where
  "index_token L fp tok idx =
     AList.update (L tok) (List.insert fp (case map_of idx (L tok) of None \<Rightarrow> [] | Some fps \<Rightarrow> fps)) idx"

definition index_text :: "(string \<Rightarrow> string) \<Rightarrow> fingerprint \<Rightarrow> string \<Rightarrow> search_index \<Rightarrow> search_index" where
  "index_text L fp txt = fold (index_token L fp) (tokenize L txt)"

definition index_opt :: "('a \<Rightarrow> search_index \<Rightarrow> search_index) \<Rightarrow> 'a option \<Rightarrow> search_index \<Rightarrow> search_index" where
  "index_opt f x = (case x of None \<Rightarrow> id | Some a \<Rightarrow> f a)"

definition index_column :: "(string \<Rightarrow> string) \<Rightarrow> fingerprint \<Rightarrow> merged_column \<Rightarrow> search_index \<Rightarrow> search_index" where
  "index_column L fp col idx = index_opt (index_text L fp) (mc_description col) (index_token L fp (mc_name col) idx)"

definition index_entry :: "(string \<Rightarrow> string) \<Rightarrow> 'y catalog_entry \<Rightarrow> search_index \<Rightarrow> search_index" where
  "index_entry L e idx0 =
     (let fp = cy_fingerprint e;
          idx1 = index_text L fp (cy_name e) idx0;
          idx2 = index_opt (index_text L fp) (cy_description e) idx1;
          idx3 = fold (index_token L fp) (cy_tags e) idx2;
          idx4 = fold (index_column L fp) (cy_columns e) idx3;
          idx5 = index_text L fp fp idx4;
          idx6 = index_opt (index_token L fp) (Option.bind (cy_owner e) ao_team) idx5
      in index_opt (index_token L fp) (ad_resource_type (cy_derived e)) idx6)"

definition build_index :: "(string \<Rightarrow> string) \<Rightarrow> 'y catalog_entry list \<Rightarrow> search_index" where
  "build_index L entries = fold (index_entry L) entries []"

definition matching_fingerprints :: "(string \<Rightarrow> string) \<Rightarrow> search_index \<Rightarrow> string \<Rightarrow> fingerprint list" where
  "matching_fingerprints L idx tok = remdups (concat (map snd (filter (\<lambda>(t, _). contains_str (L tok) t) idx)))"

fun intersect_matches :: "(string \<Rightarrow> string) \<Rightarrow> search_index \<Rightarrow> string list \<Rightarrow> fingerprint list option \<Rightarrow> fingerprint list option" where
  "intersect_matches L idx [] acc = acc"
| "intersect_matches L idx (t # ts) acc = (let ms = matching_fingerprints L idx t in
     intersect_matches L idx ts (Some (case acc of None \<Rightarrow> ms | Some xs \<Rightarrow> filter (\<lambda>x. x \<in> set ms) xs)))"

definition search_fingerprints :: "(string \<Rightarrow> string) \<Rightarrow> search_index \<Rightarrow> string \<Rightarrow> fingerprint list" where
  "search_fingerprints L idx query =
     (let tokens = tokenize L query
      in if tokens = [] then []
         else sort (case intersect_matches L idx tokens None of None \<Rightarrow> [] | Some xs \<Rightarrow> xs))"

section \<open>The catalog\<close>

record 'y catalog =
  cg_entries :: "'y catalog_entry list"
  cg_warnings :: "catalog_warning list"
  cg_errors :: "catalog_error list"
  cg_index :: search_index

definition build_catalog ::
  "(string \<Rightarrow> string) \<Rightarrow> (fingerprint list \<Rightarrow> fingerprint list) \<Rightarrow> 'y annotation_source \<Rightarrow> lineage_graph \<Rightarrow> dir_tree \<Rightarrow> 'y catalog" where
  "build_catalog L ord A g dir =
     (let discovered = discover_resources g
      in case detect_duplicates_from_files ord A dir of (anns, dups, errs) \<Rightarrow>
           let entries = merge_catalog ord discovered anns
           in \<lparr>cg_entries = entries, cg_warnings = dups @ detect_dangling ord discovered anns, cg_errors = errs,
               cg_index = build_index L entries\<rparr>)"

definition catalog_from_parts ::
  "(string \<Rightarrow> string) \<Rightarrow> (fingerprint list \<Rightarrow> fingerprint list) \<Rightarrow> (fingerprint \<times> discovered_resource) list \<Rightarrow>
   (fingerprint \<times> 'y annotation_file) list \<Rightarrow> 'y catalog" where
  "catalog_from_parts L ord discovered anns =
     (let entries = merge_catalog ord discovered anns
      in \<lparr>cg_entries = entries, cg_warnings = detect_dangling ord discovered anns, cg_errors = [], cg_index = build_index L entries\<rparr>)"

definition catalog_get :: "'y catalog \<Rightarrow> fingerprint \<Rightarrow> 'y catalog_entry option" where
  "catalog_get c fp = find (\<lambda>e. cy_fingerprint e = fp) (cg_entries c)"

definition catalog_search :: "(string \<Rightarrow> string) \<Rightarrow> 'y catalog \<Rightarrow> string \<Rightarrow> 'y catalog_entry list" where
  "catalog_search L c query = concat (map (\<lambda>fp. case catalog_get c fp of None \<Rightarrow> [] | Some e \<Rightarrow> [e])
     (search_fingerprints L (cg_index c) query))"

definition filter_by_tag :: "'y catalog \<Rightarrow> string \<Rightarrow> 'y catalog_entry list" where
  "filter_by_tag c tag = filter (\<lambda>e. tag \<in> set (cy_tags e)) (cg_entries c)"

definition filter_by_owner :: "'y catalog \<Rightarrow> string \<Rightarrow> 'y catalog_entry list" where
  "filter_by_owner c team = filter (\<lambda>e. Option.bind (cy_owner e) ao_team = Some team) (cg_entries c)"

definition all_tags :: "'y catalog \<Rightarrow> string list" where
  "all_tags c = sort (remdups (concat (map cy_tags (cg_entries c))))"

definition all_owners :: "'y catalog \<Rightarrow> string list" where
  "all_owners c = sort (remdups (concat (map (\<lambda>e. case Option.bind (cy_owner e) ao_team of None \<Rightarrow> [] | Some t \<Rightarrow> [t]) (cg_entries c))))"

section \<open>What a search finds\<close>

text \<open>The words of an entry.\<close>

definition column_words :: "(string \<Rightarrow> string) \<Rightarrow> merged_column \<Rightarrow> string list" where
  "column_words L col = mc_name col # (case mc_description col of None \<Rightarrow> [] | Some d \<Rightarrow> tokenize L d)"

definition entry_words :: "(string \<Rightarrow> string) \<Rightarrow> 'y catalog_entry \<Rightarrow> string list" where
  "entry_words L e = tokenize L (cy_name e) @ (case cy_description e of None \<Rightarrow> [] | Some d \<Rightarrow> tokenize L d) @ cy_tags e @
     concat (map (column_words L) (cy_columns e)) @ tokenize L (cy_fingerprint e) @
     (case Option.bind (cy_owner e) ao_team of None \<Rightarrow> [] | Some t \<Rightarrow> [t]) @
     (case ad_resource_type (cy_derived e) of None \<Rightarrow> [] | Some t \<Rightarrow> [t])"

definition matches :: "(string \<Rightarrow> string) \<Rightarrow> string \<Rightarrow> 'y catalog_entry \<Rightarrow> bool" where
  "matches L query e \<longleftrightarrow> tokenize L query \<noteq> [] \<and>
     list_all (\<lambda>t. list_ex (\<lambda>w. contains_str (L t) (L w)) (entry_words L e)) (tokenize L query)"

text \<open>The index as a relation between tokens and fingerprints.\<close>

definition index_rel :: "search_index \<Rightarrow> (string \<times> fingerprint) set" where
  "index_rel idx = {(t, fp). \<exists>fps. map_of idx t = Some fps \<and> fp \<in> set fps}"

lemma index_rel_token: "index_rel (index_token L fp tok idx) = insert (L tok, fp) (index_rel idx)"
  by (auto simp: index_rel_def index_token_def update_conv' split: option.splits if_splits)

lemma index_rel_tokens: "index_rel (fold (index_token L fp) ts idx) = index_rel idx \<union> (\<lambda>t. (L t, fp)) ` set ts"
  by (induction ts arbitrary: idx) (auto simp: index_rel_token)

lemma index_rel_text: "index_rel (index_text L fp txt idx) = index_rel idx \<union> (\<lambda>t. (L t, fp)) ` set (tokenize L txt)"
  by (simp add: index_text_def index_rel_tokens)

lemma index_rel_column: "index_rel (index_column L fp col idx) = index_rel idx \<union> (\<lambda>t. (L t, fp)) ` set (column_words L col)"
  by (auto simp: index_column_def index_opt_def column_words_def index_rel_token index_rel_text split: option.split)

lemma index_rel_columns:
  "index_rel (fold (index_column L fp) cols idx) = index_rel idx \<union> (\<lambda>t. (L t, fp)) ` set (concat (map (column_words L) cols))"
  by (induction cols arbitrary: idx) (auto simp: index_rel_column)

lemma index_rel_opt_text:
  "index_rel (index_opt (index_text L fp) x idx) = index_rel idx \<union> (\<lambda>t. (L t, fp)) ` set (case x of None \<Rightarrow> [] | Some d \<Rightarrow> tokenize L d)"
  by (simp add: index_opt_def index_rel_text split: option.split)

lemma index_rel_opt_token:
  "index_rel (index_opt (index_token L fp) x idx) = index_rel idx \<union> (\<lambda>t. (L t, fp)) ` set (case x of None \<Rightarrow> [] | Some t \<Rightarrow> [t])"
  by (simp add: index_opt_def index_rel_token split: option.split)

lemma index_rel_entry: "index_rel (index_entry L e idx) = index_rel idx \<union> (\<lambda>t. (L t, cy_fingerprint e)) ` set (entry_words L e)"
  unfolding index_entry_def Let_def entry_words_def set_append image_Un
  by (simp only: index_rel_opt_text index_rel_opt_token index_rel_text index_rel_tokens index_rel_columns Un_assoc)

lemma index_rel_build_from:
  "index_rel (fold (index_entry L) es idx) = index_rel idx \<union> {(t, fp). \<exists>e \<in> set es. fp = cy_fingerprint e \<and> t \<in> L ` set (entry_words L e)}"
  by (induction es arbitrary: idx) (auto simp: index_rel_entry)

lemma index_rel_build:
  "index_rel (build_index L es) = {(t, fp). \<exists>e \<in> set es. fp = cy_fingerprint e \<and> t \<in> L ` set (entry_words L e)}"
proof -
  have "index_rel [] = {}" by (simp add: index_rel_def)
  then show ?thesis by (simp add: build_index_def index_rel_build_from)
qed

text \<open>The discovered resources have different fingerprints, so the entries are in strict order.\<close>

lemma keys_add_binding: "distinct (map fst m) \<Longrightarrow> distinct (map fst (add_binding b m))"
  by (simp add: add_binding_def Let_def distinct_update)

lemma add_binding_key: "\<forall>(fp, r) \<in> set m. dr_fingerprint r = fp \<Longrightarrow> map_of m k = Some r \<Longrightarrow> dr_fingerprint r = k"
  by (auto dest!: map_of_SomeD)

definition keyed :: "(fingerprint \<times> discovered_resource) list \<Rightarrow> bool" where
  "keyed m \<longleftrightarrow> distinct (map fst m) \<and> (\<forall>k r. map_of m k = Some r \<longrightarrow> dr_fingerprint r = k)"

lemma keyed_add_binding: "keyed m \<Longrightarrow> keyed (add_binding b m)"
  by (auto simp: keyed_def add_binding_def Let_def distinct_update update_conv' split: option.splits binding_direction.splits if_splits)

lemma keyed_discover: "keyed (discover_resources g)"
proof -
  have "keyed m \<Longrightarrow> keyed (fold add_binding bs m)" for bs m by (induction bs arbitrary: m) (auto intro: keyed_add_binding)
  moreover have "keyed []" by (simp add: keyed_def)
  ultimately show ?thesis by (simp add: discover_resources_def)
qed

lemma in_order_keys: "distinct (map fst m) \<Longrightarrow> hash_order ord \<Longrightarrow> map fst (in_order ord m) = ord (map fst m)"
proof -
  assume a: "distinct (map fst m)" "hash_order ord"
  have "set ks \<subseteq> fst ` set m \<Longrightarrow> map fst (concat (map (\<lambda>k. case map_of m k of None \<Rightarrow> [] | Some v \<Rightarrow> [(k, v)]) ks)) = ks" for ks
    by (induction ks) (auto split: option.split simp: map_of_eq_None_iff)
  then show ?thesis using hash_orderD(2) [OF a(2)] by (simp add: in_order_def)
qed

lemma in_order_mem: "(k, v) \<in> set (in_order ord m) \<Longrightarrow> map_of m k = Some v"
  by (auto simp: in_order_def split: option.splits)

lemma entry_fingerprint [simp]: "cy_fingerprint (build_entry r ann) = dr_fingerprint r"
  by (simp add: build_entry_def Let_def split: option.split)

definition entries_ok :: "'y catalog_entry list \<Rightarrow> bool" where
  "entries_ok es \<longleftrightarrow> sorted_wrt (<) (map cy_fingerprint es)"

lemma merge_catalog_ok:
  assumes "keyed disc" "hash_order ord"
  shows "entries_ok (merge_catalog ord disc anns)"
proof -
  let ?es = "map (\<lambda>(fp, r). build_entry r (map_of anns fp)) (in_order ord disc)"
  have "map cy_fingerprint ?es = map fst (in_order ord disc)"
    using assms(1) by (auto simp: keyed_def dest: in_order_mem)
  moreover have "distinct (map fst (in_order ord disc))"
    using in_order_keys [OF _ assms(2), of disc] assms(1) hash_orderD(4) [OF assms(2)] by (simp add: keyed_def)
  ultimately have "distinct (map cy_fingerprint ?es)" by (simp only:)
  moreover have "mset (map cy_fingerprint (sort_key cy_fingerprint ?es)) = mset (map cy_fingerprint ?es)"
    by (simp only: mset_map mset_sort)
  ultimately have "distinct (map cy_fingerprint (sort_key cy_fingerprint ?es))" by (metis mset_eq_imp_distinct_iff)
  then show ?thesis by (simp add: entries_ok_def merge_catalog_def strict_sorted_iff)
qed

text \<open>Intersecting the matches of all tokens.\<close>

definition index_ok :: "search_index \<Rightarrow> bool" where
  "index_ok idx \<longleftrightarrow> distinct (map fst idx)"

lemma index_ok_token: "index_ok idx \<Longrightarrow> index_ok (index_token L fp tok idx)"
  by (simp add: index_ok_def index_token_def distinct_update)

lemma index_ok_tokens: "index_ok idx \<Longrightarrow> index_ok (fold (index_token L fp) ts idx)"
  by (induction ts arbitrary: idx) (auto intro: index_ok_token)

lemma index_ok_opt: "(\<And>a. index_ok idx \<Longrightarrow> index_ok (f a idx)) \<Longrightarrow> index_ok idx \<Longrightarrow> index_ok (index_opt f x idx)"
  by (simp add: index_opt_def split: option.split)

lemma index_ok_text: "index_ok idx \<Longrightarrow> index_ok (index_text L fp txt idx)"
  by (simp add: index_text_def index_ok_tokens)

lemma index_ok_columns: "index_ok idx \<Longrightarrow> index_ok (fold (index_column L fp) cols idx)"
  by (induction cols arbitrary: idx) (simp_all add: index_column_def index_ok_opt index_ok_text index_ok_token)

lemma index_ok_entry: "index_ok idx \<Longrightarrow> index_ok (index_entry L e idx)"
  unfolding index_entry_def Let_def
  by (intro index_ok_opt index_ok_token index_ok_text index_ok_columns index_ok_tokens)

lemma index_ok_build: "index_ok (build_index L es)"
proof -
  have "index_ok idx \<Longrightarrow> index_ok (fold (index_entry L) es idx)" for idx by (induction es arbitrary: idx) (auto intro: index_ok_entry)
  then show ?thesis by (simp add: build_index_def index_ok_def)
qed

lemma set_matching:
  "index_ok idx \<Longrightarrow> set (matching_fingerprints L idx tok) = {fp. \<exists>t. (t, fp) \<in> index_rel idx \<and> contains_str (L tok) t}"
  by (force simp: matching_fingerprints_def index_rel_def index_ok_def)

lemma intersect_Some:
  "\<exists>ys. intersect_matches L idx ts (Some xs) = Some ys \<and> set ys = {x \<in> set xs. \<forall>t \<in> set ts. x \<in> set (matching_fingerprints L idx t)} \<and>
     (distinct xs \<longrightarrow> distinct ys)"
proof (induction ts arbitrary: xs)
  case (Cons t ts)
  show ?case using Cons.IH [of "filter (\<lambda>x. x \<in> set (matching_fingerprints L idx t)) xs"] by (auto simp: Let_def)
qed simp

lemma search_fingerprints_spec:
  assumes "index_ok idx" "tokenize L query \<noteq> []"
  shows "sorted_wrt (<) (search_fingerprints L idx query) \<and> set (search_fingerprints L idx query) =
    {fp. \<forall>t \<in> set (tokenize L query). \<exists>w. (w, fp) \<in> index_rel idx \<and> contains_str (L t) w}"
proof -
  obtain t ts where q: "tokenize L query = t # ts" using assms(2) by (cases "tokenize L query") auto
  obtain ys where ys: "intersect_matches L idx ts (Some (matching_fingerprints L idx t)) = Some ys"
    "set ys = {x \<in> set (matching_fingerprints L idx t). \<forall>t \<in> set ts. x \<in> set (matching_fingerprints L idx t)}" "distinct ys"
    using intersect_Some [of L idx ts "matching_fingerprints L idx t"] by (auto simp: matching_fingerprints_def)
  have "search_fingerprints L idx query = sort ys" using ys(1) by (simp add: search_fingerprints_def q Let_def)
  then show ?thesis using ys(2,3) set_matching [OF assms(1)] by (auto simp: q strict_sorted_iff)
qed

text \<open>Looking the entries up by a strictly sorted list of fingerprints gives them in the order of the catalog.\<close>

lemma lookup_entries:
  assumes "entries_ok (cg_entries c)" "sorted_wrt (<) fps" "set fps = cy_fingerprint ` {e \<in> set (cg_entries c). P e}"
  shows "concat (map (\<lambda>fp. case catalog_get c fp of None \<Rightarrow> [] | Some e \<Rightarrow> [e]) fps) = filter P (cg_entries c)"
proof -
  let ?es = "filter P (cg_entries c)"
  have dist: "distinct (map cy_fingerprint (cg_entries c))" using assms(1) by (simp add: entries_ok_def strict_sorted_iff)
  have "sorted_wrt (<) (map cy_fingerprint ?es)" using assms(1) by (simp add: entries_ok_def sorted_wrt_filter sorted_wrt_map)
  then have fps: "fps = map cy_fingerprint ?es"
    using assms(2,3) by (intro sorted_distinct_set_unique) (auto simp: strict_sorted_iff)
  have get: "catalog_get c (cy_fingerprint e) = Some e" if "e \<in> set (cg_entries c)" for e
    using that dist unfolding catalog_get_def by (intro find_distinct_key)
  have "set es \<subseteq> set (cg_entries c) \<Longrightarrow>
      concat (map (\<lambda>fp. case catalog_get c fp of None \<Rightarrow> [] | Some e \<Rightarrow> [e]) (map cy_fingerprint es)) = es" for es
    by (induction es) (simp_all add: get)
  then show ?thesis using fps by (metis filter_is_subset)
qed

lemma search_built:
  assumes "entries_ok (cg_entries c)" "cg_index c = build_index L (cg_entries c)"
  shows "catalog_search L c query = filter (matches L query) (cg_entries c)"
proof (cases "tokenize L query = []")
  case True
  then show ?thesis by (simp add: catalog_search_def search_fingerprints_def matches_def)
next
  case False
  let ?fps = "search_fingerprints L (cg_index c) query"
  have spec: "sorted_wrt (<) ?fps" "set ?fps = {fp. \<forall>t \<in> set (tokenize L query). \<exists>w. (w, fp) \<in> index_rel (cg_index c) \<and> contains_str (L t) w}"
    using search_fingerprints_spec [OF index_ok_build False, of L "cg_entries c"] assms(2) by simp_all
  have dist: "distinct (map cy_fingerprint (cg_entries c))" using assms(1) by (simp add: entries_ok_def strict_sorted_iff)
  have rel: "(\<exists>w. (w, cy_fingerprint e) \<in> index_rel (cg_index c) \<and> contains_str (L t) w) \<longleftrightarrow>
      list_ex (\<lambda>w. contains_str (L t) (L w)) (entry_words L e)" if "e \<in> set (cg_entries c)" for e t
    using that dist by (auto simp: assms(2) index_rel_build list_ex_iff distinct_map inj_on_def)
  have "set ?fps = cy_fingerprint ` {e \<in> set (cg_entries c). matches L query e}"
  proof (intro equalityI subsetI)
    fix fp
    assume fp: "fp \<in> set ?fps"
    obtain t where "t \<in> set (tokenize L query)" using False by (cases "tokenize L query") auto
    then obtain e where e: "e \<in> set (cg_entries c)" "fp = cy_fingerprint e"
      using fp spec(2) by (auto simp: assms(2) index_rel_build)
    then have "matches L query e" using fp rel [OF e(1)] False unfolding spec(2) by (simp add: matches_def list_all_iff)
    then show "fp \<in> cy_fingerprint ` {e \<in> set (cg_entries c). matches L query e}" using e by blast
  next
    fix fp
    assume "fp \<in> cy_fingerprint ` {e \<in> set (cg_entries c). matches L query e}"
    then obtain e where "e \<in> set (cg_entries c)" "matches L query e" "fp = cy_fingerprint e" by blast
    then show "fp \<in> set ?fps" using rel unfolding spec(2) by (simp add: matches_def list_all_iff)
  qed
  then show ?thesis unfolding catalog_search_def by (intro lookup_entries [OF assms(1) spec(1)])
qed

text \<open>
  C24: a search of the catalog that is built from the lineage graph and the annotation files returns, in
  the order of their fingerprints, the entries in which every word of the query is part of a word of
  the name, the description, a tag, a column, the fingerprint, the team or the type.
\<close>

theorem catalog_search_correct:
  assumes "hash_order ord"
  shows "catalog_search L (build_catalog L ord A g dir) query = filter (matches L query) (cg_entries (build_catalog L ord A g dir))"
proof -
  obtain anns dups errs where d: "detect_duplicates_from_files ord A dir = (anns, dups, errs)" by (metis prod_cases3)
  show ?thesis
    by (rule search_built) (simp_all add: build_catalog_def d Let_def merge_catalog_ok [OF keyed_discover assms])
qed

definition w_bindings :: lineage_graph where
  "w_bindings = \<lparr>lg_edges = [], lg_bindings =
     [\<lparr>rb_pipeline = ''p1'', rb_node = ''k'', rb_direction = BdSink, rb_fingerprint = ''s3://lake/orders''\<rparr>]\<rparr>"

lemmas w_catalog_eval = Let_def build_catalog_def detect_duplicates_from_files_def paths_by_fingerprint_def group_by_def in_order_def
  discover_resources_def w_bindings_def add_binding_def infer_resource_type_def starts_with_def ends_with_def merge_catalog_def
  build_entry_def default_name_from_fingerprint_def derived_facts_def merge_columns_def matches_def tokenize_def
  is_delimiter_def is_whitespace_def bytes_of_def utf8_len_def entry_words_def contains_str_def

theorem catalog_search_correct_witness:
  "map cy_name (catalog_search id (build_catalog id rev (\<lparr>an_read = (\<lambda>_. Err []), an_yaml = (\<lambda>_. Err [])\<rparr> :: unit annotation_source) w_bindings (DirFile [])) ''lake order'') = [''orders'']"
  unfolding catalog_search_correct [OF hash_order_rev]
  by (simp add: w_catalog_eval)

text \<open>Two resources can have one annotation file.\<close>

lemma filenames_collide: "fingerprint_to_filename ''s3://a/b'' = fingerprint_to_filename ''s3://a:b''"
  by (simp add: fingerprint_to_filename_def)

end
