(* ===== verification/Sla_Evaluator.thy ===== *)
theory Sla_Evaluator
  imports Catalog Pipeline_Store
begin

text \<open>
  \<open>sla_evaluator.rs\<close> of the server: one evaluation of the freshness of every resource whose annotation
  declares an SLA, and the loop of evaluations.  The outer option is \<open>None\<close> for a panic.  Events and
  metrics are left out.
\<close>

section \<open>The evaluation\<close>

text \<open>
  What lies outside: the clock in nanoseconds, its text and that of a number of seconds, the seconds that
  are a date, the reading of an identifier, lower case, the order of hash maps, the files of the
  annotations and of the definitions.
\<close>

record 'y sla_env =
  sv_now_ns :: int
  sv_now_text :: string
  sv_secs_text :: "int \<Rightarrow> string"
  sv_is_date :: "int \<Rightarrow> bool"
  sv_parse_id :: "string \<Rightarrow> string option"
  sv_lower :: "string \<Rightarrow> string"
  sv_order :: "fingerprint list \<Rightarrow> fingerprint list"
  sv_source :: "'y annotation_source"
  sv_dir :: dir_tree
  sv_files :: store_env

definition binding_of :: "'y sla_env \<Rightarrow> stored_binding \<Rightarrow> resource_binding option" where
  "binding_of X sb = map_option (\<lambda>pid. \<lparr>rb_pipeline = pid, rb_node = sbd_node_id sb, rb_direction = sbd_direction sb,
     rb_fingerprint = sbd_fingerprint sb\<rparr>) (sv_parse_id X (sbd_pipeline_id sb))"

definition build_catalog_for_sla :: "'y sla_env \<Rightarrow> run_db \<Rightarrow> 'y catalog" where
  "build_catalog_for_sla X db =
     build_catalog (sv_lower X) (sv_order X) (sv_source X)
       \<lparr>lg_edges = [], lg_bindings = List.map_filter (binding_of X) (all_bindings db ''default'')\<rparr> (sv_dir X)"

text \<open>The end of a run in whole seconds; a number of seconds that is no date counts as the epoch.\<close>

definition end_seconds :: "'y sla_env \<Rightarrow> int \<Rightarrow> int" where
  "end_seconds X t = (let secs = max 0 t div 10 ^ 9 in if sv_is_date X secs then secs else 0)"

text \<open>\<open>num_seconds\<close> drops the fraction towards zero.\<close>

definition num_seconds :: "int \<Rightarrow> int" where
  "num_seconds ns = sgn ns * (\<bar>ns\<bar> div 10 ^ 9)"

definition producer_pipeline :: "'y sla_env \<Rightarrow> 'y catalog \<Rightarrow> pipeline_db \<Rightarrow> fingerprint \<Rightarrow> string option" where
  "producer_pipeline X c pdb fp =
     (case Option.bind (catalog_get c fp) (\<lambda>e. case ad_producers (cy_derived e) of [] \<Rightarrow> None | p # _ \<Rightarrow> Some p) of
        None \<Rightarrow> None
      | Some p \<Rightarrow> (case get_pipeline (sv_files X) pdb (pb_pipeline_id p) of
          Inr (Some r) \<Rightarrow> Some (p_name (plr_pipeline r))
        | _ \<Rightarrow> None))"

definition last_success :: "run_db \<Rightarrow> string \<Rightarrow> pipeline_run option" where
  "last_success db name = (case list_runs db (Some name) 10 0 of
      Inl _ \<Rightarrow> None
    | Inr rs \<Rightarrow> find (\<lambda>r. pr_status r = RsSuccess) rs)"

text \<open>Status and age in nanoseconds; the bounds are in seconds.\<close>

definition freshness :: "'y sla_env \<Rightarrow> int \<Rightarrow> int option \<Rightarrow> pipeline_run option \<Rightarrow> sla_status \<times> int option" where
  "freshness X max_age warn_at run = (case Option.bind run pr_end_time of
      None \<Rightarrow> (SlaUnknown, None)
    | Some t \<Rightarrow>
       (let age = sv_now_ns X - end_seconds X t * 10 ^ 9
        in if age > max_age * 10 ^ 9 then (SlaBreach, Some age)
           else if (case warn_at of None \<Rightarrow> False | Some w \<Rightarrow> age > w * 10 ^ 9) then (SlaWarning, Some age)
           else (SlaOk, Some age)))"

text \<open>One resource: \<open>Some []\<close> where the code goes on with the next.\<close>

definition evaluate_resource ::
  "'y sla_env \<Rightarrow> 'y catalog \<Rightarrow> run_db \<Rightarrow> pipeline_db \<Rightarrow> fingerprint \<times> 'y annotation_file \<Rightarrow> sla_evaluation list option" where
  "evaluate_resource X c db pdb = (\<lambda>(fp, af). case ra_sla (af_annotation af) of
      None \<Rightarrow> Some []
    | Some sla \<Rightarrow>
       (case parse_iso_duration (fs_max_age (sla_freshness sla)) of
          None \<Rightarrow> None
        | Some (Inl _) \<Rightarrow> Some []
        | Some (Inr max_age) \<Rightarrow>
           (case (case fs_warn_at (sla_freshness sla) of
                None \<Rightarrow> Some None
              | Some s \<Rightarrow> map_option (\<lambda>r. case r of Inl _ \<Rightarrow> None | Inr w \<Rightarrow> Some w) (parse_iso_duration s)) of
              None \<Rightarrow> None
            | Some warn_at \<Rightarrow>
               (let producer = producer_pipeline X c pdb fp;
                    run = Option.bind producer (last_success db);
                    (status, age) = freshness X max_age warn_at run
                in Some [\<lparr>se_fingerprint = fp, se_evaluated_at = sv_now_text X, se_status = status,
                     se_age = map_option (\<lambda>a. format_iso_duration (num_seconds a)) age,
                     se_max_age = fs_max_age (sla_freshness sla), se_warn_at = fs_warn_at (sla_freshness sla),
                     se_producer = producer,
                     se_last_success_at = map_option (\<lambda>t. sv_secs_text X (end_seconds X t)) (Option.bind run pr_end_time)\<rparr>]))))"

fun evaluate_all :: "(fingerprint \<times> 'y annotation_file \<Rightarrow> sla_evaluation list option) \<Rightarrow> (fingerprint \<times> 'y annotation_file) list \<Rightarrow>
    sla_evaluation list option" where
  "evaluate_all f [] = Some []"
| "evaluate_all f (a # anns) = (case f a of None \<Rightarrow> None | Some es \<Rightarrow> map_option ((@) es) (evaluate_all f anns))"

text \<open>The number of evaluations and the tables; nothing is done without a store for them.\<close>

definition evaluate_slas :: "'y sla_env \<Rightarrow> bool \<Rightarrow> pipeline_db \<Rightarrow> run_db \<Rightarrow> (nat \<times> run_db) option" where
  "evaluate_slas X has_store pdb db =
     (if \<not> has_store then Some (0, db)
      else let c = build_catalog_for_sla X db; (anns, _) = load_annotations (sv_source X) (sv_dir X)
        in map_option (\<lambda>es. (length es, if es = [] then db else save_evaluations es db))
             (evaluate_all (evaluate_resource X c db pdb) (in_order (sv_order X) anns)))"

text \<open>
  The loop: a tick runs one evaluation on a thread of its own, whose panic is dropped; the first report that the
  flag of the shutdown is set ends it.
\<close>

datatype 'y sla_event = SvTick "'y sla_env" | SvShutdownChanged bool

fun sla_loop :: "bool \<Rightarrow> pipeline_db \<Rightarrow> 'y sla_event list \<Rightarrow> run_db \<Rightarrow> run_db" where
  "sla_loop has_store pdb [] db = db"
| "sla_loop has_store pdb (SvTick X # evs) db =
     sla_loop has_store pdb evs (case evaluate_slas X has_store pdb db of None \<Rightarrow> db | Some (_, db') \<Rightarrow> db')"
| "sla_loop has_store pdb (SvShutdownChanged b # evs) db = (if b then db else sla_loop has_store pdb evs db)"

section \<open>The producer of a resource\<close>





lemma in_order_iff:
  assumes "hash_order ord"
  shows "(k, v) \<in> set (in_order ord m) \<longleftrightarrow> map_of m k = Some v"
proof
  assume v: "map_of m k = Some v"
  then have "k \<in> set (ord (map fst m))" using hash_orderD(2) [OF assms] by (force dest: map_of_SomeD)
  with v show "(k, v) \<in> set (in_order ord m)" by (force simp: in_order_def)
qed (rule in_order_mem)





section \<open>What a tick stores\<close>

lemma evaluate_all_Some:
  "evaluate_all f anns = Some es \<Longrightarrow> (\<forall>a \<in> set anns. f a \<noteq> None) \<and> es = concat (map (\<lambda>a. the (f a)) anns)"
  by (induction anns arbitrary: es) (auto split: option.splits)





















definition w_annotation :: "string \<Rightarrow> unit resource_annotation" where
  "w_annotation age = \<lparr>ra_fingerprint = ''f'', ra_environment = None, ra_name = None, ra_description = None, ra_owner = None,
     ra_tags = [], ra_columns = [], ra_custom = [],
     ra_sla = Some \<lparr>sla_freshness = \<lparr>fs_max_age = age, fs_warn_at = None, fs_scope = LastSuccessfulRun\<rparr>\<rparr>\<rparr>"

text \<open>One annotated resource, ten thousand seconds after the epoch.\<close>

definition w_sla :: "string \<Rightarrow> unit sla_env" where
  "w_sla age = \<lparr>sv_now_ns = 10000000000000, sv_now_text = ''now'', sv_secs_text = (\<lambda>_. ''then''), sv_is_date = (\<lambda>_. True),
     sv_parse_id = Some, sv_lower = id, sv_order = rev,
     sv_source = \<lparr>an_read = Ok, an_yaml = (\<lambda>_. Ok (w_annotation age))\<rparr>, sv_dir = DirNode (Some [DirFile ''a.yml'']),
     sv_files = \<lparr>sv_now = 0, sv_uuid = ''u'', sv_print = p_name, sv_parse = (\<lambda>_. Some (plain_pipeline ''n'' [] [])), sv_fails = (\<lambda>_. False), sv_torn = (\<lambda>_. None)\<rparr>\<rparr>"







lemma w_annotations: "load_annotations (sv_source (w_sla age)) (sv_dir (w_sla age)) = ([(''f'', \<lparr>af_annotation = w_annotation age, af_path = ''a.yml''\<rparr>)], [])"
  by code_simp



text \<open>
  One annotation whose age is too long for a duration makes every evaluation panic: nothing is stored for any
  resource while the file is there.
\<close>

lemma evaluation_panics:
  assumes "hash_order (sv_order X)" "map_of (fst (load_annotations (sv_source X) (sv_dir X))) fp = Some af"
    "ra_sla (af_annotation af) = Some sla" "parse_iso_duration (fs_max_age (sla_freshness sla)) = None"
  shows "evaluate_slas X True pdb db = None"
proof (rule ccontr)
  assume "evaluate_slas X True pdb db \<noteq> None"
  then obtain es where "evaluate_all (evaluate_resource X (build_catalog_for_sla X db) db pdb)
      (in_order (sv_order X) (fst (load_annotations (sv_source X) (sv_dir X)))) = Some es"
    by (auto simp: evaluate_slas_def Let_def split_beta)
  from evaluate_all_Some [OF this] have "evaluate_resource X (build_catalog_for_sla X db) db pdb (fp, af) \<noteq> None"
    using assms(2) unfolding in_order_iff [OF assms(1), symmetric] by blast
  with assms(3,4) show False by (simp add: evaluate_resource_def)
qed

lemma long_age_panics: "evaluate_slas (w_sla ''P999999999999D'') True pdb db = None"
proof (rule evaluation_panics [where fp = "''f''" and af = "\<lparr>af_annotation = w_annotation ''P999999999999D'', af_path = ''a.yml''\<rparr>"])
  have t: "trim ''P999999999999D'' = ''P999999999999D''" by (rule trim_ascii) (simp add: is_graph_def)
  show "parse_iso_duration (fs_max_age (sla_freshness \<lparr>sla_freshness = \<lparr>fs_max_age = ''P999999999999D'', fs_warn_at = None,
      fs_scope = LastSuccessfulRun\<rparr>\<rparr>)) = None"
    by (simp add: parse_iso_duration_def t parse_component_def parse_i64_def parse_digits_def is_digit_def digit_val_def
        checked_def i64_min_def i64_max_def duration_seconds_def Let_def)
qed (simp_all add: w_annotations, simp_all add: w_annotation_def w_sla_def)

end
