(* ===== verification/Spec2Isabelle.thy ===== *)
theory Spec2Isabelle
  imports Column_Lineage Snapshot Sla Pipeline_Ops Schedule_Times Backfill_Run Plugin_Link Incremental Environments Preview Pipeline_Store Resource_Fingerprint Sla_Evaluator
begin

text \<open>
  A verification library for Armillary, a pipeline engine in Rust.

  \<^bold>\<open>The program.\<close>  A pipeline is a graph of sources, transforms, tests and sinks, read from JSON,
  with snippets expanded into it and variables put into its text (\<open>armillary-engine\<close>).  A run
  validates the graph, orders its nodes and executes them one after the other; sinks may be
  incremental, with a watermark and a schema kept between runs (\<open>armillary-datafusion\<close>).  Runs,
  states and lineage go to a SQLite store.  Configurations refer to secrets of an encrypted store
  (\<open>armillary-secrets\<close>).  Runs are started by hand, by triggers (\<open>armillary-scheduler\<close>) or, many
  at a time, by a backfill.  A sink may be a plugin, a process that speaks a framed protocol
  (\<open>armillary-plugin-protocol\<close>, \<open>-host\<close>, \<open>-sdk\<close>).  Lineage of resources and columns is derived
  from the pipelines and from their runs.

  \<^bold>\<open>The theories.\<close>
  \<^item> \<open>Prelude\<close>: results, hash-map orders, ordered maps, string routines.  \<open>Json\<close>: \<open>serde_json::Value\<close>.
  \<^item> \<open>Pipeline_Model\<close> (\<open>node.rs\<close>, \<open>edge.rs\<close>, \<open>pipeline.rs\<close>, \<open>sample.rs\<close>, \<open>error.rs\<close>), \<open>Kahn\<close>, \<open>Reach\<close>
    and \<open>Dag\<close> (\<open>dag.rs\<close>): the data of a pipeline, its validation and its order.
  \<^item> \<open>Materialization\<close>, \<open>Validate\<close>, \<open>Variables\<close>, \<open>Snippets\<close>, \<open>Pipeline_Ops\<close>: the files of the engine
    with these names; the last composes them as \<open>Pipeline::from_json\<close> does.
  \<^item> \<open>Pipeline_Store\<close>: the definitions in files with their rows and versions.
  \<^item> \<open>Lineage\<close>, \<open>Column_Lineage\<close>, \<open>Node_Lineage\<close>: lineage between pipelines, over columns, of one node.
  \<^item> \<open>Catalog\<close>: the resources of all pipelines with their annotations, and the search over them;
    \<open>Sla_Evaluator\<close>: the freshness of the annotated resources.
  \<^item> \<open>Snapshot\<close>, \<open>Sla\<close>: the planner of SCD2 snapshots and the durations of freshness windows.
  \<^item> \<open>Interval\<close>, \<open>Variable_Mapping\<close>, \<open>Trigger_Store\<close>, \<open>Scheduler\<close>, \<open>Schedule_Times\<close>: the scheduler.
    One tick is a function on the tables; \<open>run_scheduler_loop\<close> is the fold of ticks over a clock.
  \<^item> \<open>Backfill\<close>, \<open>Backfill_Store\<close>, \<open>Backfill_Run\<close>: the expansion of a backfill, its tables, and the
    coordinator as a step relation that interleaves the loop, its tasks and cancelling callers.
  \<^item> \<open>Frame\<close>, \<open>Plugin_Protocol\<close>, \<open>Plugin_Session\<close>, \<open>Plugin_Sdk\<close>, \<open>Plugin_Link\<close>: frames over byte
    streams that may be cut anywhere, the messages, the two ends, and both ends put together.
  \<^item> \<open>Plugin_Registry\<close>, \<open>Connectors\<close>: manifests and the scan for plugins, the registry of connectors and
    what it accepts of a pipeline.  \<open>Resource_Fingerprint\<close>: the names of resources.
  \<^item> \<open>Schema_Diff\<close>, \<open>Watermark\<close>, \<open>Incremental\<close>: what an incremental sink remembers and the plans made
    of it before a run.
  \<^item> \<open>Run_Model\<close>, \<open>Run_Store\<close>, \<open>Storage\<close>: the records of runs, the SQLite tables that hold them, and
    the storage traits as records of operations.
  \<^item> \<open>Environments\<close>: environments, their fallback chains and the lookup of tables along a chain.
  \<^item> \<open>Output_Cache\<close>, \<open>Preview\<close>: the cached outputs of nodes, their invalidation, and what a preview shows.
  \<^item> \<open>Secrets\<close>: the encrypted store, references in configurations, scrubbing of messages.
  \<^item> \<open>Assertions\<close>, \<open>Executor\<close>: test nodes, and the whole of \<open>PipelineExecutor::execute\<close>;
    \<open>Run_Facts\<close>, \<open>Run_State\<close> and \<open>Run_Claims\<close> hold its lemmas and properties.

  \<^bold>\<open>How code becomes definitions.\<close>  A struct is a \<open>record\<close>, an enum a \<open>datatype\<close>, \<open>Result\<close> a sum with
  \<open>Err\<close> and \<open>Ok\<close>.  An outer option says whether the code returns: \<open>None\<close> is a panic or a loop that does
  not end.  A \<open>String\<close> is the list of its UTF-8 bytes.  \<open>u32\<close> and \<open>u64\<close> are words and wrap as the
  release build does; times are integers in milliseconds or nanoseconds, cut where the code cuts
  them.  A \<open>HashMap\<close> is a map whose iteration order is a parameter that permutes the keys
  (\<open>hash_order\<close>); a \<open>BTreeMap\<close> is a sorted association list.  A SQLite table is the list of its rows
  with the keys, checks and conflict rules of its declaration.  Code outside the repository (parser and
  printer of JSON, chrono, cron, file system, ciphers, regular expressions, Arrow, DataFusion, Python,
  network connectors) is a parameter: a function or a record of functions, whose assumed laws stand
  as hypotheses of the lemmas that need them.  Failures are inputs of the model: the operations of the
  storage traits give any result (\<open>Storage\<close>), the updates of a backfill and the calls of the pipeline
  store fail where a parameter says so (\<open>bf_write\<close>, \<open>store_op\<close>), and a failed write of a file leaves
  torn text; where the code drops such an error, the properties say what is lost.

  \<^bold>\<open>The lemmas.\<close>  Each theory first has lemmas on its operations, then its properties.  The engine:
  what validation accepts and that it returns, the order of nodes, the meaning of expansion and
  interpolation, lineage as a relation.  The scheduler: the invariant of its tables over every operation,
  what a firing does, when a trigger is due.  The backfill: windows that tile the range, invariants of
  the interleaved coordinator, what its end says of the iterations although writes may be lost, its
  termination.  The cache: what a preview may show, given the runs, saves and imports before it (\<open>cache_step\<close>).  The plugins: round trip of frames, the sequences of
  messages and calls a session allows, the end-to-end result.  The executor: every node once and in
  order, a record that agrees with the result and is closed unless the resolver refuses a secret
  (\<open>left_running\<close>), states that move only behind a write.  The stores: invariants of all tables and round trips.  Interfaces are locales: \<open>ordered_map\<close>, \<open>kahn_graph\<close>, \<open>trigger_storage\<close>, \<open>slots\<close> in
  \<open>Schedule_Times\<close>, \<open>run_storage\<close> and \<open>state_storage\<close> in \<open>Storage\<close> and \<open>host_transport\<close>,
  each interpreted on the code's own definitions.

  \<^bold>\<open>Bounds.\<close>  Loops are structural recursions or carry a measure; \<open>kahn_loop\<close>, the SQL rewriting and the
  plugin loops are partial functions into an option, and theorems say where they return.  The coordinator
  terminates by a measure on what is left to start and to settle.

  \<^bold>\<open>Not modelled.\<close>  The command line, the HTTP server (but for its SLA evaluator), the tray and web front ends, the
  reading and writing of the connectors (but for the plugin sink), the observability crate, the
  processes of the plugin host, the Postgres stores, and in the execution
  crate the SQL dialect, the walk over query plans, and the Python subprocess:
  they are input and output around the parts above, over third-party crates.
  Logging, metrics and OpenLineage calls are left out where they occur.
\<close>

end
